(* ===== verification/Prelude.thy ===== *)
theory Prelude
  imports Main "HOL-Library.Char_ord" "HOL-Library.List_Lexorder"
begin

section \<open>Prelude: shared types, list and dictionary helpers\<close>

text \<open>
  Vocabulary shared by every component.  A fallible operation returns \<open>'e + 'a\<close> with
  \<open>Inl\<close> the raised exception.  Text is \<open>string\<close>; the functions of Python's \<open>str\<close> that the
  program uses are modelled on ASCII.  A dictionary comprehension \<open>{key(x): x for x in xs}\<close>
  keeps the last entry of a repeated key (\<open>dict_of\<close>), \<open>next(x for x in xs if p(x))\<close> is
  \<open>List.find\<close>.
\<close>

named_theorems t2d_unfold \<open>definitions that component proofs unfold together\<close>
named_theorems t2d_inv \<open>preservation facts of the state invariants\<close>

type_synonym uuid = string
type_synonym instant = int

datatype py_exc = ValueError | OverflowError | KeyError | IndexError | StopIteration | TypeError

subsection \<open>Results\<close>

definition is_ok :: "'e + 'a \<Rightarrow> bool" where
  "is_ok r = (case r of Inl _ \<Rightarrow> False | Inr _ \<Rightarrow> True)"

lemma is_ok_simps [simp]: "is_ok (Inl e) = False" "is_ok (Inr x) = True"
  by (simp_all add: is_ok_def)

lemma is_ok_iff: "is_ok r \<longleftrightarrow> (\<exists>x. r = Inr x)"
  by (cases r) simp_all

lemma case_Some_eq_None [simp]:
  "(case x of None \<Rightarrow> y | Some e \<Rightarrow> Some e) = None \<longleftrightarrow> x = None \<and> y = None"
  by (cases x) simp_all

lemma case_Inl_is_ok [simp]:
  "is_ok (case x of None \<Rightarrow> y | Some e \<Rightarrow> Inl e) \<longleftrightarrow> x = None \<and> is_ok y"
  by (cases x) simp_all

lemma case_Inl_eq_Inr [simp]:
  "(case x of None \<Rightarrow> y | Some e \<Rightarrow> Inl e) = Inr z \<longleftrightarrow> x = None \<and> y = Inr z"
  by (cases x) simp_all

lemma bind_eq_Inr [simp]:
  "(case x of Inl e \<Rightarrow> Inl e | Inr y \<Rightarrow> f y) = Inr z \<longleftrightarrow> (\<exists>y. x = Inr y \<and> f y = Inr z)"
  by (cases x) simp_all

lemma if_Inl_eq_Inr [simp]:
  "(if c then Inl e else y) = Inr z \<longleftrightarrow> \<not> c \<and> y = Inr z"
  by simp

subsection \<open>Lists\<close>

text \<open>Keep the first occurrence of every element, in order.\<close>

fun uniq_from :: "'a list \<Rightarrow> 'a list \<Rightarrow> 'a list" where
  "uniq_from seen [] = []"
| "uniq_from seen (x # xs) =
     (if x \<in> set seen then uniq_from seen xs else x # uniq_from (x # seen) xs)"

lemma set_uniq_from: "set (uniq_from seen xs) = set xs - set seen"
  by (induction seen xs rule: uniq_from.induct) auto

lemma distinct_uniq_from: "distinct (uniq_from seen xs)"
  by (induction seen xs rule: uniq_from.induct) (auto simp: set_uniq_from)

lemma uniq_from_id: "distinct xs \<Longrightarrow> set xs \<inter> set seen = {} \<Longrightarrow> uniq_from seen xs = xs"
  by (induction seen xs rule: uniq_from.induct) auto

lemma uniq_from_Nil_iff: "uniq_from seen xs = [] \<longleftrightarrow> set xs \<subseteq> set seen"
  by (induction seen xs rule: uniq_from.induct) auto

lemma find_SomeD: "List.find P xs = Some x \<Longrightarrow> x \<in> set xs \<and> P x"
  by (metis find_Some_iff nth_mem)

lemma find_NoneD: "List.find P xs = None \<Longrightarrow> x \<in> set xs \<Longrightarrow> \<not> P x"
  by (metis find_None_iff)

lemma find_ex: "x \<in> set xs \<Longrightarrow> P x \<Longrightarrow> \<exists>y. List.find P xs = Some y"
  by (metis find_None_iff option.exhaust)

lemma distinct_key_unique:
  "distinct (map f xs) \<Longrightarrow> x \<in> set xs \<Longrightarrow> y \<in> set xs \<Longrightarrow> f x = f y \<Longrightarrow> x = y"
  by (auto simp: distinct_map inj_on_def)

lemma find_distinct_key:
  assumes "distinct (map f xs)" "x \<in> set xs"
  shows "List.find (\<lambda>y. f y = f x) xs = Some x"
proof -
  obtain y where y: "List.find (\<lambda>y. f y = f x) xs = Some y"
    using find_ex [of x xs "\<lambda>y. f y = f x"] assms(2) by auto
  from find_SomeD [OF this] assms have "y = x" by (auto intro: distinct_key_unique)
  with y show ?thesis by simp
qed

subsection \<open>Dictionaries\<close>

definition dict_of :: "('a \<Rightarrow> 'k) \<Rightarrow> 'a list \<Rightarrow> ('k \<rightharpoonup> 'a)" where
  "dict_of key xs = map_of (rev (map (\<lambda>x. (key x, x)) xs))"

lemma dict_of_SomeD: "dict_of key xs k = Some x \<Longrightarrow> x \<in> set xs \<and> key x = k"
  by (auto simp: dict_of_def dest: map_of_SomeD)

lemma dom_dict_of: "dom (dict_of key xs) = key ` set xs"
  by (simp add: dict_of_def dom_map_of_conv_image_fst image_image)

lemma dict_of_None_iff: "dict_of key xs k = None \<longleftrightarrow> k \<notin> key ` set xs"
  using dom_dict_of [of key xs] by auto

lemma dict_of_ex: "k \<in> key ` set xs \<Longrightarrow> \<exists>x. dict_of key xs k = Some x"
  using dict_of_None_iff [of key xs k] by auto

lemma dict_of_code [code]:
  "dict_of key xs k = List.find (\<lambda>x. key x = k) (rev xs)"
proof -
  have "map_of (map (\<lambda>x. (key x, x)) ys) k = List.find (\<lambda>x. key x = k) ys" for ys
    by (induction ys) auto
  then show ?thesis by (simp add: dict_of_def rev_map)
qed

text \<open>\<open>[d[k] for k in ks]\<close>: \<open>KeyError\<close> at the first missing key.\<close>

fun lookup_all :: "('k \<rightharpoonup> 'a) \<Rightarrow> 'k list \<Rightarrow> py_exc + 'a list" where
  "lookup_all d [] = Inr []"
| "lookup_all d (k # ks) =
     (case d k of None \<Rightarrow> Inl KeyError
      | Some x \<Rightarrow> (case lookup_all d ks of Inl e \<Rightarrow> Inl e | Inr xs \<Rightarrow> Inr (x # xs)))"

lemma lookup_all_ok: "set ks \<subseteq> dom d \<Longrightarrow> lookup_all d ks = Inr (map (\<lambda>k. the (d k)) ks)"
  by (induction ks) auto

lemma lookup_all_InrD: "lookup_all d ks = Inr xs \<Longrightarrow> xs = map (\<lambda>k. the (d k)) ks \<and> set ks \<subseteq> dom d"
  by (induction ks arbitrary: xs) (auto split: option.splits sum.splits)

subsection \<open>Python sets of strings\<close>

definition py_sorted :: "string set \<Rightarrow> string list" where
  "py_sorted S = sorted_list_of_set S"

lemma py_sorted_set [simp]: "finite S \<Longrightarrow> set (py_sorted S) = S"
  by (simp add: py_sorted_def)

lemma py_sorted_code [code]: "py_sorted (set xs) = sort (remdups xs)"
  by (simp add: py_sorted_def sorted_list_of_set_sort_remdups)

end
