(* ===== verification/Calendar.thy ===== *)
theory Calendar
  imports Prelude
begin

section \<open>The proleptic Gregorian calendar of \<open>datetime.date\<close>\<close>

text \<open>
  \<open>datetime.date\<close> as the connectors use it: construction with its range checks, ordering,
  ordinals, \<open>date - timedelta(days=k)\<close> with its overflow, \<open>weekday\<close> and
  \<open>calendar.monthrange\<close>.  The main fact is that ordinals and dates are in bijection.
\<close>

datatype date = Date (year: int) (month: int) (day: int)

instantiation date :: linorder
begin

definition less_eq_date :: "date \<Rightarrow> date \<Rightarrow> bool" where
  "less_eq_date a b \<longleftrightarrow> year a < year b \<or> (year a = year b \<and>
     (month a < month b \<or> (month a = month b \<and> day a \<le> day b)))"

definition less_date :: "date \<Rightarrow> date \<Rightarrow> bool" where
  "less_date a b \<longleftrightarrow> year a < year b \<or> (year a = year b \<and>
     (month a < month b \<or> (month a = month b \<and> day a < day b)))"

instance
  by standard (auto simp: less_eq_date_def less_date_def date.expand)

end

definition is_leap :: "int \<Rightarrow> bool" where
  "is_leap y \<longleftrightarrow> y mod 4 = 0 \<and> (y mod 100 \<noteq> 0 \<or> y mod 400 = 0)"

definition days_in_month :: "int \<Rightarrow> int \<Rightarrow> int" where
  "days_in_month y m =
     (if m = 2 then (if is_leap y then 29 else 28)
      else if m = 4 \<or> m = 6 \<or> m = 9 \<or> m = 11 then 30 else 31)"

definition valid_date :: "date \<Rightarrow> bool" where
  "valid_date d \<longleftrightarrow> 1 \<le> year d \<and> year d \<le> 9999 \<and> 1 \<le> month d \<and> month d \<le> 12
     \<and> 1 \<le> day d \<and> day d \<le> days_in_month (year d) (month d)"

text \<open>The constructor \<open>date(y, m, d)\<close>.\<close>

definition mk_date :: "int \<Rightarrow> int \<Rightarrow> int \<Rightarrow> py_exc + date" where
  "mk_date y m d = (if valid_date (Date y m d) then Inr (Date y m d) else Inl ValueError)"

definition days_before_year :: "int \<Rightarrow> int" where
  "days_before_year y = 365 * (y - 1) + (y - 1) div 4 - (y - 1) div 100 + (y - 1) div 400"

definition days_before_month :: "int \<Rightarrow> int \<Rightarrow> int" where
  "days_before_month y m =
     (if m \<le> 1 then 0 else if m = 2 then 31
      else (if is_leap y then 1 else 0) +
       (if m = 3 then 59 else if m = 4 then 90 else if m = 5 then 120 else if m = 6 then 151
        else if m = 7 then 181 else if m = 8 then 212 else if m = 9 then 243
        else if m = 10 then 273 else if m = 11 then 304 else if m = 12 then 334 else 365))"

definition to_ord :: "date \<Rightarrow> int" where
  "to_ord d = days_before_year (year d) + days_before_month (year d) (month d) + day d"

definition max_ord :: int where "max_ord = 3652059"

definition month_of_yday :: "int \<Rightarrow> int \<Rightarrow> int" where
  "month_of_yday y n =
     (if n < days_before_month y 2 then 1 else if n < days_before_month y 3 then 2
      else if n < days_before_month y 4 then 3 else if n < days_before_month y 5 then 4
      else if n < days_before_month y 6 then 5 else if n < days_before_month y 7 then 6
      else if n < days_before_month y 8 then 7 else if n < days_before_month y 9 then 8
      else if n < days_before_month y 10 then 9 else if n < days_before_month y 11 then 10
      else if n < days_before_month y 12 then 11 else 12)"

text \<open>\<open>date.fromordinal\<close>: cycles of 400, 100, 4 and 1 years.\<close>

definition from_ord :: "int \<Rightarrow> date" where
  "from_ord ord =
     (let n = ord - 1; n400 = n div 146097; r400 = n mod 146097;
          n100 = r400 div 36524; r100 = r400 mod 36524;
          n4 = r100 div 1461; r4 = r100 mod 1461;
          n1 = r4 div 365; r1 = r4 mod 365;
          y = 400 * n400 + 100 * n100 + 4 * n4 + n1 + 1
      in if n1 = 4 \<or> n100 = 4 then Date (y - 1) 12 31
         else (let m = month_of_yday y r1 in Date y m (r1 - days_before_month y m + 1)))"

text \<open>\<open>d + timedelta(days=k)\<close>.\<close>

definition date_add :: "date \<Rightarrow> int \<Rightarrow> py_exc + date" where
  "date_add d k =
     (let n = to_ord d + k in if 0 < n \<and> n \<le> max_ord then Inr (from_ord n) else Inl OverflowError)"

definition weekday :: "date \<Rightarrow> int" where
  "weekday d = (to_ord d + 6) mod 7"

subsection \<open>Ordinals and dates are in bijection\<close>

lemma month_cases:
  assumes "1 \<le> (m::int)" "m \<le> 12"
  shows "m \<in> {1, 2, 3, 4, 5, 6, 7, 8, 9, 10, 11, 12}"
proof -
  have "m \<in> set [1..12]" using assms by (simp only: set_upto atLeastAtMost_iff)
  moreover have "[1..12] = [1, 2, 3, 4, 5, 6, 7, 8, 9, 10, 11, 12::int]"
    by code_simp
  ultimately show ?thesis by (simp only: list.set)
qed

lemma div_step:
  assumes "0 < k"
  shows "(y::int) div k - (y - 1) div k = (if y mod k = 0 then 1 else 0)"
proof (cases "y mod k = 0")
  case True
  then have "k * (y div k - 1) + (k - 1) = y - 1"
    using mult_div_mod_eq [of k y] by (simp add: right_diff_distrib)
  with assms have "(y - 1) div k = y div k - 1"
    by (intro int_div_pos_eq [where r = "k - 1"]) auto
  with True show ?thesis by simp
next
  case False
  have "y - 1 = k * (y div k) + (y mod k - 1)" using mult_div_mod_eq [of k y] by simp
  with assms False have "(y - 1) div k = y div k"
    using pos_mod_sign [OF assms, of y] pos_mod_bound [OF assms, of y]
    by (intro int_div_pos_eq [where r = "y mod k - 1"]) linarith+
  with False show ?thesis by simp
qed

lemma year_parts:
  fixes a b c d :: int
  assumes "0 \<le> b" "b \<le> 3" "0 \<le> c" "c \<le> 24" "0 \<le> d" "d \<le> 3"
  shows "(400 * a + 100 * b + 4 * c + d) div 4 = 100 * a + 25 * b + c"
    and "(400 * a + 100 * b + 4 * c + d) div 100 = 4 * a + b"
    and "(400 * a + 100 * b + 4 * c + d) div 400 = a"
  using assms by (auto intro!: int_div_pos_eq [where r = d] int_div_pos_eq [where r = "4 * c + d"]
    int_div_pos_eq [where r = "100 * b + 4 * c + d"])

lemma days_before_year_parts:
  assumes "0 \<le> b" "b \<le> 3" "0 \<le> c" "c \<le> 24" "0 \<le> d" "d \<le> 3"
  shows "days_before_year (400 * a + 100 * b + 4 * c + d + 1)
    = 146097 * a + 36524 * b + 1461 * c + 365 * d"
  using year_parts [OF assms, of a] by (simp add: days_before_year_def)

lemma is_leap_parts:
  assumes "0 \<le> b" "b \<le> 3" "0 \<le> c" "c \<le> 24" "0 \<le> d" "d \<le> 3"
  shows "is_leap (400 * a + 100 * b + 4 * c + d + 1) \<longleftrightarrow> d = 3 \<and> (c \<noteq> 24 \<or> b = 3)"
proof -
  let ?y = "400 * a + 100 * b + 4 * c + d + 1"
  have "?y mod 4 = (d + 1) mod 4"
    using mod_mult_self2 [of "d + 1" 4 "100 * a + 25 * b + c"] by (simp add: algebra_simps)
  moreover have "?y mod 100 = (4 * c + d + 1) mod 100"
    using mod_mult_self2 [of "4 * c + d + 1" 100 "4 * a + b"] by (simp add: algebra_simps)
  moreover have "?y mod 400 = (100 * b + 4 * c + d + 1) mod 400"
    using mod_mult_self2 [of "100 * b + 4 * c + d + 1" 400 a] by (simp add: algebra_simps)
  moreover have "(d + 1) mod 4 = 0 \<longleftrightarrow> d = 3" using assms by presburger
  moreover have "d = 3 \<Longrightarrow> (4 * c + d + 1) mod 100 = 0 \<longleftrightarrow> c = 24"
    using assms by (cases "c = 24") auto
  moreover have "d = 3 \<Longrightarrow> c = 24 \<Longrightarrow> (100 * b + 4 * c + d + 1) mod 400 = 0 \<longleftrightarrow> b = 3"
    using assms by (cases "b = 3") auto
  ultimately show ?thesis unfolding is_leap_def by auto
qed

lemma days_before_year_Suc:
  "days_before_year (y + 1) = days_before_year y + (if is_leap y then 366 else 365)"
proof -
  have "(y mod 100) mod 4 = y mod 4" "(y mod 400) mod 100 = y mod 100"
    by (simp_all add: mod_mod_cancel)
  then have "y mod 100 = 0 \<Longrightarrow> y mod 4 = 0" "y mod 400 = 0 \<Longrightarrow> y mod 100 = 0"
    by auto
  then have leap: "(if y mod 4 = 0 then 1 else 0) - (if y mod 100 = 0 then 1 else 0)
      + (if y mod 400 = 0 then 1 else (0::int)) = (if is_leap y then 1 else 0)"
    unfolding is_leap_def by (cases "y mod 4 = 0"; cases "y mod 100 = 0"; cases "y mod 400 = 0") simp_all
  have "days_before_year (y + 1) - days_before_year y = 365 + ((y div 4 - (y - 1) div 4)
      - (y div 100 - (y - 1) div 100) + (y div 400 - (y - 1) div 400))"
    by (simp add: days_before_year_def)
  also have "\<dots> = 365 + (if is_leap y then 1 else 0)"
    by (simp only: div_step zero_less_numeral leap)
  finally show ?thesis by (simp split: if_splits)
qed

lemma days_before_month_0: "0 \<le> days_before_month y m"
  by (simp add: days_before_month_def)

lemma days_before_month_13: "days_before_month y 13 = (if is_leap y then 366 else 365)"
  by (simp add: days_before_month_def)

lemma days_before_month_Suc:
  assumes "1 \<le> m" "m \<le> 12"
  shows "days_before_month y (m + 1) = days_before_month y m + days_in_month y m"
  using month_cases [OF assms] by (auto simp: days_before_month_def days_in_month_def)

lemma days_before_month_rest:
  assumes "1 \<le> m" "m \<le> 12"
  shows "days_before_month y m + days_in_month y m \<le> (if is_leap y then 366 else 365)"
  using month_cases [OF assms] by (auto simp: days_before_month_def days_in_month_def)

lemma days_in_month_bounds: "28 \<le> days_in_month y m" "days_in_month y m \<le> 31"
  by (simp_all add: days_in_month_def)

lemma month_of_yday_bounds: "1 \<le> month_of_yday y n" "month_of_yday y n \<le> 12"
  by (simp_all add: month_of_yday_def)

lemma month_of_yday_next:
  assumes "0 \<le> n" "n < days_before_month y 13"
  shows "days_before_month y (month_of_yday y n) \<le> n \<and>
    n < days_before_month y (month_of_yday y n + 1)"
proof -
  have "days_before_month y 1 = 0" by (simp add: days_before_month_def)
  then show ?thesis using assms by (simp add: month_of_yday_def)
qed

lemma month_of_yday:
  assumes "0 \<le> n" "n < (if is_leap y then 366 else 365)"
  shows "days_before_month y (month_of_yday y n) \<le> n"
    and "n < days_before_month y (month_of_yday y n) + days_in_month y (month_of_yday y n)"
proof -
  from assms days_before_month_13 [of y] month_of_yday_next [of n y] days_before_month_Suc [OF month_of_yday_bounds, of y y n]
  show "days_before_month y (month_of_yday y n) \<le> n"
    and "n < days_before_month y (month_of_yday y n) + days_in_month y (month_of_yday y n)"
    by auto
qed

lemma days_before_month_mono:
  assumes "m \<le> m'" "1 \<le> m" "m' \<le> 13"
  shows "days_before_month y m \<le> days_before_month y m'"
  using assms(1,3)
proof (induction m' rule: int_ge_induct)
  case (step i)
  then show ?case
    using days_before_month_Suc [of i y] days_in_month_bounds [of y i] assms(2) by simp
qed simp

lemma month_of_yday_unique:
  assumes m: "1 \<le> m" "m \<le> 12" and n: "days_before_month y m \<le> n"
    "n < days_before_month y m + days_in_month y m"
  shows "month_of_yday y n = m"
proof -
  let ?m = "month_of_yday y n"
  have "n < days_before_month y 13" "0 \<le> n"
    using n days_before_month_rest [OF m, of y] days_before_month_0 [of y m]
    unfolding days_before_month_13 by linarith+
  then have *: "days_before_month y ?m \<le> n" "n < days_before_month y (?m + 1)"
    using month_of_yday_next by auto
  have "n < days_before_month y (m + 1)" using n days_before_month_Suc [OF m, of y] by simp
  then have "\<not> m + 1 \<le> ?m" "\<not> ?m + 1 \<le> m"
    using * n(1) m month_of_yday_bounds [of y n]
      days_before_month_mono [of "m + 1" ?m y] days_before_month_mono [of "?m + 1" m y] by auto
  then show ?thesis by simp
qed

text \<open>Within one year: the day of the year and the (month, day) pair determine each other.\<close>

definition yday_date :: "int \<Rightarrow> int \<Rightarrow> date" where
  "yday_date y r = Date y (month_of_yday y r) (r - days_before_month y (month_of_yday y r) + 1)"

lemma to_ord_yday_date: "to_ord (yday_date y r) = days_before_year y + r + 1"
  by (simp add: yday_date_def to_ord_def)

lemma valid_yday_date:
  assumes "0 \<le> r" "r < (if is_leap y then 366 else 365)" "1 \<le> y" "y \<le> 9999"
  shows "valid_date (yday_date y r)"
  using month_of_yday [OF assms(1,2)] month_of_yday_bounds [of y r] assms(3,4)
  by (simp add: yday_date_def valid_date_def)

lemma yday_date_of:
  assumes "valid_date d"
  defines "r \<equiv> days_before_month (year d) (month d) + day d - 1"
  shows "yday_date (year d) r = d" "0 \<le> r" "r < (if is_leap (year d) then 366 else 365)"
proof -
  have m: "1 \<le> month d" "month d \<le> 12" "1 \<le> day d" "day d \<le> days_in_month (year d) (month d)"
    using assms(1) by (auto simp: valid_date_def)
  have "month_of_yday (year d) r = month d"
    using m by (intro month_of_yday_unique) (auto simp: r_def)
  then show "yday_date (year d) r = d" by (simp add: yday_date_def r_def)
  show "0 \<le> r" using m(3) days_before_month_0 [of "year d" "month d"] by (simp add: r_def)
  show "r < (if is_leap (year d) then 366 else 365)"
    using m days_before_month_rest [OF m(1,2), of "year d"] by (simp add: r_def)
qed

lemma from_ord_yday:
  "\<exists>y r. from_ord n = yday_date y r \<and> 0 \<le> r \<and> r < (if is_leap y then 366 else 365)
    \<and> n = days_before_year y + r + 1"
proof -
  define a b c d r where "a = (n - 1) div 146097" and "b = (n - 1) mod 146097 div 36524"
    and "c = (n - 1) mod 146097 mod 36524 div 1461"
    and "d = (n - 1) mod 146097 mod 36524 mod 1461 div 365"
    and "r = (n - 1) mod 146097 mod 36524 mod 1461 mod 365"
  note defs = this
  define r400 r100 r4 where "r400 = (n - 1) mod 146097" and "r100 = r400 mod 36524"
    and "r4 = r100 mod 1461"
  have eqs: "n - 1 = 146097 * a + r400" "r400 = 36524 * b + r100" "r100 = 1461 * c + r4" "r4 = 365 * d + r"
    by (simp_all add: defs r400_def r100_def r4_def)
  have rng: "0 \<le> r400" "r400 < 146097" "0 \<le> r100" "r100 < 36524" "0 \<le> r4" "r4 < 1461" "0 \<le> r" "r < 365"
    by (simp_all add: defs r400_def r100_def r4_def)
  have n: "n - 1 = 146097 * a + 36524 * b + 1461 * c + 365 * d + r" using eqs by linarith
  have bnd: "0 \<le> b" "b \<le> 4" "0 \<le> c" "c \<le> 24" "0 \<le> d" "d \<le> 4"
    using eqs rng by linarith+
  let ?y = "400 * a + 100 * b + 4 * c + d + 1"
  have from_ord: "from_ord n = (if d = 4 \<or> b = 4 then Date (?y - 1) 12 31 else yday_date ?y r)"
    unfolding from_ord_def Let_def defs yday_date_def by simp
  show ?thesis
  proof (cases "d = 4 \<or> b = 4")
    case False
    then have "0 \<le> b" "b \<le> 3" "0 \<le> c" "c \<le> 24" "0 \<le> d" "d \<le> 3" using bnd by auto
    from days_before_year_parts [OF this, of a] show ?thesis
      using from_ord False n rng by - (rule exI [where x = ?y], rule exI [where x = r], auto)
  next
    case True
    have tail: "(b = 4 \<longrightarrow> c = 0 \<and> d = 0 \<and> r = 0) \<and> (d = 4 \<longrightarrow> r = 0 \<and> (c = 24 \<longrightarrow> b = 3))"
      using eqs rng bnd by (intro conjI impI; linarith)
    have dec31: "is_leap y \<Longrightarrow> Date y 12 31 = yday_date y 365" for y
      by (simp add: yday_date_def month_of_yday_def days_before_month_def)
    have leap_year: ?thesis if "is_leap y" "from_ord n = Date y 12 31" "n = days_before_year y + 366" for y
      using that dec31 [of y] by - (rule exI [where x = y], rule exI [where x = 365], simp)
    show ?thesis
    proof (cases "b = 4")
      case True
      show ?thesis
        using is_leap_parts [of 3 24 3 a] days_before_year_parts [of 3 24 3 a] True tail n from_ord
        by (intro leap_year [of "400 * a + 100 * 3 + 4 * 24 + 3 + 1"]) auto
    next
      case b: False
      with True have d: "d = 4" by simp
      have pr: "0 \<le> b" "b \<le> 3" "0 \<le> c" "c \<le> 24" "0 \<le> (3::int)" "(3::int) \<le> 3" using bnd b by auto
      show ?thesis
        using is_leap_parts [OF pr, of a] days_before_year_parts [OF pr, of a] d tail n from_ord
        by (intro leap_year [of "400 * a + 100 * b + 4 * c + 3 + 1"]) auto
    qed
  qed
qed

theorem to_ord_from_ord: "to_ord (from_ord n) = n"
  using from_ord_yday [of n] to_ord_yday_date by auto

lemma days_before_year_mono:
  assumes "y \<le> y'"
  shows "days_before_year y + 365 * (y' - y) \<le> days_before_year y'"
  using assms
proof (induction y' rule: int_ge_induct)
  case (step i)
  then show ?case using days_before_year_Suc [of i] by (simp split: if_splits)
qed simp

lemma days_before_year_unique:
  assumes "n = days_before_year y + r + 1" "0 \<le> r" "r < (if is_leap y then 366 else 365)"
    and "n = days_before_year y' + r' + 1" "0 \<le> r'" "r' < (if is_leap y' then 366 else 365)"
  shows "y = y' \<and> r = r'"
proof -
  have "days_before_year (y + 1) \<ge> n" "days_before_year (y' + 1) \<ge> n"
    using assms days_before_year_Suc [of y] days_before_year_Suc [of y'] by auto
  then have "\<not> y < y'" "\<not> y' < y"
    using assms days_before_year_mono [of "y + 1" y'] days_before_year_mono [of "y' + 1" y] by auto
  with assms show ?thesis by auto
qed

theorem from_ord_to_ord:
  assumes "valid_date d"
  shows "from_ord (to_ord d) = d"
proof -
  define r where "r = days_before_month (year d) (month d) + day d - 1"
  note d = yday_date_of [OF assms, folded r_def]
  have n: "to_ord d = days_before_year (year d) + r + 1" by (simp add: to_ord_def r_def)
  obtain y' r' where "from_ord (to_ord d) = yday_date y' r'" "0 \<le> r'"
    "r' < (if is_leap y' then 366 else 365)" "to_ord d = days_before_year y' + r' + 1"
    using from_ord_yday by blast
  with days_before_year_unique [OF n d(2,3) this(4,2,3)] d(1) show ?thesis by simp
qed

lemma to_ord_bounds:
  assumes "valid_date d"
  shows "1 \<le> to_ord d" "to_ord d \<le> max_ord"
proof -
  define r where "r = days_before_month (year d) (month d) + day d - 1"
  note d = yday_date_of [OF assms, folded r_def]
  have y: "1 \<le> year d" "year d \<le> 9999" using assms by (auto simp: valid_date_def)
  have n: "to_ord d = days_before_year (year d) + r + 1" by (simp add: to_ord_def r_def)
  have "days_before_year 1 = 0" "days_before_year 10000 = 3652059" by (simp_all add: days_before_year_def)
  with y n d days_before_year_mono [of 1 "year d"] days_before_year_mono [of "year d + 1" 10000]
    days_before_year_Suc [of "year d"]
  show "1 \<le> to_ord d" "to_ord d \<le> max_ord" by (auto simp: max_ord_def split: if_splits)
qed

lemma valid_from_ord:
  assumes "1 \<le> n" "n \<le> max_ord"
  shows "valid_date (from_ord n)"
proof -
  obtain y r where y: "from_ord n = yday_date y r" "0 \<le> r" "r < (if is_leap y then 366 else 365)"
    "n = days_before_year y + r + 1" using from_ord_yday by blast
  have "days_before_year 1 = 0" "days_before_year 10000 = 3652059" by (simp_all add: days_before_year_def)
  then have "\<not> y < 1" "\<not> 10000 \<le> y"
    using y assms days_before_year_mono [of "y + 1" 1] days_before_year_mono [of 10000 y]
      days_before_year_Suc [of y] by (auto simp: max_ord_def split: if_splits)
  then show ?thesis using valid_yday_date [OF y(2,3)] y(1) by simp
qed

lemma to_ord_less:
  assumes "valid_date a" "valid_date b" "a < b"
  shows "to_ord a < to_ord b"
proof -
  have a: "1 \<le> month a" "month a \<le> 12" "day a \<le> days_in_month (year a) (month a)"
    and b: "1 \<le> month b" "month b \<le> 12" "1 \<le> day b"
    using assms by (auto simp: valid_date_def)
  have a': "days_before_month (year a) (month a) + day a \<le> (if is_leap (year a) then 366 else 365)"
    using a days_before_month_rest [OF a(1,2), of "year a"] by linarith
  consider "year a < year b" | "year a = year b" "month a < month b"
    | "year a = year b" "month a = month b" "day a < day b"
    using assms(3) by (auto simp: less_date_def)
  then show ?thesis
  proof cases
    case 1
    then show ?thesis
      using a' b days_before_year_mono [of "year a + 1" "year b"] days_before_year_Suc [of "year a"]
        days_before_month_0 [of "year b" "month b"] by (simp add: to_ord_def split: if_splits)
  next
    case 2
    then show ?thesis
      using a b days_before_month_mono [of "month a + 1" "month b" "year a"]
        days_before_month_Suc [OF a(1,2), of "year a"] by (simp add: to_ord_def)
  qed (simp add: to_ord_def)
qed

lemma to_ord_le_iff:
  assumes "valid_date a" "valid_date b"
  shows "to_ord a \<le> to_ord b \<longleftrightarrow> a \<le> b"
  using to_ord_less [OF assms] to_ord_less [OF assms(2,1)] by (metis leD leI order_le_less)

lemma date_add_InrD:
  assumes "date_add d k = Inr e"
  shows "valid_date e" "to_ord e = to_ord d + k"
  using assms valid_from_ord [of "to_ord d + k"] to_ord_from_ord [of "to_ord d + k"]
  by (auto simp: date_add_def Let_def split: if_splits)

lemma date_add_total:
  "0 < to_ord d + k \<Longrightarrow> to_ord d + k \<le> max_ord \<Longrightarrow> date_add d k = Inr (from_ord (to_ord d + k))"
  by (simp add: date_add_def)

end
