(* ===== verification/Text.thy ===== *)
theory Text
  imports Prelude
begin

section \<open>Text: the \<open>str\<close> operations of Python on ASCII\<close>

text \<open>
  \<open>str.lower\<close>, \<open>str.upper\<close>, \<open>str.strip\<close>, \<open>str.split()\<close>, \<open>' '.join\<close>, \<open>str.replace\<close> and the \<open>in\<close>
  test, character by character.  Whitespace is what \<open>str.isspace\<close> accepts below 128: tab to
  carriage return, the separators 28 to 31, and space.
\<close>

definition is_ws :: "char \<Rightarrow> bool" where
  "is_ws c = (let n = (of_char c :: nat) in (9 \<le> n \<and> n \<le> 13) \<or> (28 \<le> n \<and> n \<le> 32))"

definition lower_char :: "char \<Rightarrow> char" where
  "lower_char c = (let n = (of_char c :: nat) in if 65 \<le> n \<and> n \<le> 90 then char_of (n + 32) else c)"

definition upper_char :: "char \<Rightarrow> char" where
  "upper_char c = (let n = (of_char c :: nat) in if 97 \<le> n \<and> n \<le> 122 then char_of (n - 32) else c)"

definition py_lower :: "string \<Rightarrow> string" where
  "py_lower s = map lower_char s"

definition py_upper :: "string \<Rightarrow> string" where
  "py_upper s = map upper_char s"

definition py_strip :: "string \<Rightarrow> string" where
  "py_strip s = rev (dropWhile is_ws (rev (dropWhile is_ws s)))"

text \<open>\<open>s.split()\<close>: the maximal runs of non-whitespace characters.\<close>

fun split_ws :: "string \<Rightarrow> string \<Rightarrow> string list" where
  "split_ws cur [] = (if cur = [] then [] else [rev cur])"
| "split_ws cur (c # cs) =
     (if is_ws c then (if cur = [] then split_ws [] cs else rev cur # split_ws [] cs)
      else split_ws (c # cur) cs)"

definition py_split :: "string \<Rightarrow> string list" where
  "py_split s = split_ws [] s"

fun py_join :: "string \<Rightarrow> string list \<Rightarrow> string" where
  "py_join sep [] = []"
| "py_join sep [x] = x"
| "py_join sep (x # y # zs) = x @ sep @ py_join sep (y # zs)"

fun starts_with :: "string \<Rightarrow> string \<Rightarrow> bool" where
  "starts_with [] s = True"
| "starts_with (p # ps) [] = False"
| "starts_with (p # ps) (c # cs) = (p = c \<and> starts_with ps cs)"

fun str_contains :: "string \<Rightarrow> string \<Rightarrow> bool" where
  "str_contains p [] = (p = [])"
| "str_contains p (c # cs) = (starts_with p (c # cs) \<or> str_contains p cs)"

text \<open>\<open>s.split(sep, 1)[0]\<close>: the part before the first occurrence of a non-empty separator.\<close>

fun before_sep :: "string \<Rightarrow> string \<Rightarrow> string" where
  "before_sep sep [] = []"
| "before_sep sep (c # cs) = (if starts_with sep (c # cs) then [] else c # before_sep sep cs)"

definition ends_with :: "string \<Rightarrow> string \<Rightarrow> bool" where
  "ends_with suf s = starts_with (rev suf) (rev s)"

text \<open>\<open>repr\<close> of a string: the quote character Python picks, with its escapes.\<close>

definition hex_digit :: "nat \<Rightarrow> char" where
  "hex_digit n = (if n < 10 then char_of (48 + n) else char_of (87 + n))"

definition repr_char :: "char \<Rightarrow> char \<Rightarrow> string" where
  "repr_char q c = (let n = (of_char c :: nat) in
     if c = q \<or> n = 92 then [CHR 0x5C, c]
     else if n = 9 then [CHR 0x5C, CHR ''t''] else if n = 10 then [CHR 0x5C, CHR ''n'']
     else if n = 13 then [CHR 0x5C, CHR ''r'']
     else if n < 32 \<or> n = 127 then [CHR 0x5C, CHR ''x'', hex_digit (n div 16), hex_digit (n mod 16)]
     else [c])"

definition py_repr :: "string \<Rightarrow> string" where
  "py_repr s = (let q = (if CHR 0x27 \<in> set s \<and> CHR 0x22 \<notin> set s then CHR 0x22 else CHR 0x27)
     in [q] @ concat (map (repr_char q) s) @ [q])"

text \<open>Decimal digits of an integer, zero-padded digits, and digits grouped in threes.\<close>

function nat_str :: "int \<Rightarrow> string" where
  "nat_str n = (if n < 10 then [char_of (nat (48 + n))] else nat_str (n div 10) @ [char_of (nat (48 + n mod 10))])"
  by pat_completeness auto
termination
  by (relation "measure nat") auto

declare nat_str.simps [simp del]

definition int_str :: "int \<Rightarrow> string" where
  "int_str n = (if n < 0 then CHR ''-'' # nat_str (- n) else nat_str n)"

definition pad_left :: "nat \<Rightarrow> string \<Rightarrow> string" where
  "pad_left w s = replicate (w - length s) (CHR ''0'') @ s"

fun group_rev :: "string \<Rightarrow> string" where
  "group_rev (a # b # c # d # ds) = a # b # c # CHR '','' # group_rev (d # ds)"
| "group_rev ds = ds"

definition group_thousands :: "string \<Rightarrow> string" where
  "group_thousands s = rev (group_rev (rev s))"

text \<open>\<open>str.title()\<close>: a letter after a non-letter in upper case, other letters in lower case.\<close>

definition is_letter :: "char \<Rightarrow> bool" where
  "is_letter c = (let n = (of_char c :: nat) in (65 \<le> n \<and> n \<le> 90) \<or> (97 \<le> n \<and> n \<le> 122))"

fun title_from :: "bool \<Rightarrow> string \<Rightarrow> string" where
  "title_from after_letter [] = []"
| "title_from after_letter (c # cs) =
     (if is_letter c then (if after_letter then lower_char c else upper_char c) else c) # title_from (is_letter c) cs"

definition py_title :: "string \<Rightarrow> string" where
  "py_title s = title_from False s"

subsection \<open>Normal forms\<close>

lemma starts_with_iff: "starts_with p s \<longleftrightarrow> (\<exists>t. s = p @ t)"
  by (induction p s rule: starts_with.induct) auto

lemma str_contains_append: "str_contains p (u @ p @ t)"
proof (induction u)
  case Nil
  have "starts_with p (p @ t)" by (metis starts_with_iff)
  then show ?case by (cases "p @ t") simp_all
qed simp

lemma str_containsD: "str_contains p s \<Longrightarrow> \<exists>u t. s = u @ p @ t"
proof (induction s)
  case (Cons c cs)
  show ?case
  proof (cases "starts_with p (c # cs)")
    case True
    then show ?thesis by (metis append_Nil starts_with_iff)
  next
    case False
    with Cons obtain u t where "cs = u @ p @ t" by auto
    then have "c # cs = (c # u) @ p @ t" by simp
    then show ?thesis by blast
  qed
qed simp

lemma str_contains_iff: "str_contains p s \<longleftrightarrow> (\<exists>u t. s = u @ p @ t)"
  using str_contains_append str_containsD by blast

definition is_word :: "string \<Rightarrow> bool" where
  "is_word w \<longleftrightarrow> w \<noteq> [] \<and> (\<forall>c\<in>set w. \<not> is_ws c)"

lemma split_ws_words: "\<forall>c\<in>set cur. \<not> is_ws c \<Longrightarrow> \<forall>w\<in>set (split_ws cur s). is_word w"
proof (induction cur s rule: split_ws.induct)
  case (2 cur c cs)
  show ?case
    using 2 by (cases "is_ws c"; cases "cur = []") (simp_all add: is_word_def)
qed (simp add: is_word_def)

lemma py_split_words: "w \<in> set (py_split s) \<Longrightarrow> is_word w"
  using split_ws_words [of "[]" s] by (simp add: py_split_def)

lemma py_strip_Nil [simp]: "py_strip [] = []"
  by (simp add: py_strip_def)

lemma dropWhile_none: "\<forall>c\<in>set s. \<not> P c \<Longrightarrow> dropWhile P s = s"
  by (cases s) auto

lemma py_strip_no_ws: "\<forall>c\<in>set s. \<not> is_ws c \<Longrightarrow> py_strip s = s"
  by (simp add: py_strip_def dropWhile_none)

lemma py_strip_ends:
  assumes "py_strip s \<noteq> []"
  shows "\<not> is_ws (hd (py_strip s)) \<and> \<not> is_ws (last (py_strip s))"
proof -
  let ?d = "dropWhile is_ws s"
  let ?r = "dropWhile is_ws (rev ?d)"
  have r: "py_strip s = rev ?r" by (simp add: py_strip_def)
  with assms have rne: "?r \<noteq> []" by simp
  then have l: "\<not> is_ws (last (py_strip s))" by (simp add: r last_rev hd_dropWhile)
  from rne have dne: "?d \<noteq> []" by (metis dropWhile.simps(1) rev.simps(1))
  obtain u where u: "rev ?d = u @ ?r" by (metis takeWhile_dropWhile_id)
  then have "?d = rev ?r @ rev u" by (metis rev_append rev_rev_ident)
  then have "hd (rev ?r) = hd ?d" using rne by (metis hd_append2 rev_is_Nil_conv)
  with dne hd_dropWhile [of is_ws s] r have "\<not> is_ws (hd (py_strip s))" by simp
  with l show ?thesis by simp
qed

lemma lower_char_idem [simp]: "lower_char (lower_char c) = lower_char c"
  by (auto simp: lower_char_def Let_def)

lemma upper_char_idem [simp]: "upper_char (upper_char c) = upper_char c"
  by (auto simp: upper_char_def Let_def)

lemma py_lower_idem [simp]: "py_lower (py_lower s) = py_lower s"
  by (simp add: py_lower_def)

lemma py_upper_idem [simp]: "py_upper (py_upper s) = py_upper s"
  by (simp add: py_upper_def)

lemma is_ws_upper [simp]: "is_ws (upper_char c) = is_ws c"
  by (auto simp: is_ws_def upper_char_def Let_def)

lemma is_ws_lower [simp]: "is_ws (lower_char c) = is_ws c"
  by (auto simp: is_ws_def lower_char_def Let_def)

lemma py_upper_strip: "py_upper (py_strip s) = py_strip (py_upper s)"
  by (simp add: py_upper_def py_strip_def rev_map dropWhile_map comp_def)

lemma py_strip_idem [simp]: "py_strip (py_strip s) = py_strip s"
proof (cases "py_strip s = []")
  case False
  then have ends: "\<not> is_ws (hd (py_strip s))" "\<not> is_ws (last (py_strip s))"
    using py_strip_ends by auto
  have "dropWhile is_ws (py_strip s) = py_strip s"
    using False ends(1) by (simp add: dropWhile_eq_self_iff)
  moreover have "dropWhile is_ws (rev (py_strip s)) = rev (py_strip s)"
    using False ends(2) by (simp add: dropWhile_eq_self_iff hd_rev)
  ultimately show ?thesis by (simp add: py_strip_def [of "py_strip s"])
qed simp

end
