(* ===== verification/PyFloat.thy ===== *)
theory PyFloat
  imports Complex_Main Prelude "HOL-Library.Log_Nat"
begin

section \<open>PyFloat: Python floats\<close>

text \<open>
  A float is a rational, an infinity or NaN (the signed zeros are identified: the program compares,
  subtracts and divides by non-zero values, none of which tells them apart).  Every comparison with
  NaN is false.  Arithmetic is exact rational arithmetic followed by \<open>fl_round\<close>, the rounding of
  IEEE 754 binary64 to nearest, ties to even, with gradual underflow and overflow to infinity.
\<close>

datatype pyfloat = NaN | NegInf | PosInf | Fin rat

fun fl_less :: "pyfloat \<Rightarrow> pyfloat \<Rightarrow> bool" where
  "fl_less (Fin a) (Fin b) = (a < b)"
| "fl_less (Fin a) PosInf = True"
| "fl_less NegInf (Fin b) = True"
| "fl_less NegInf PosInf = True"
| "fl_less _ _ = False"

fun fl_eq :: "pyfloat \<Rightarrow> pyfloat \<Rightarrow> bool" where
  "fl_eq NaN b = False"
| "fl_eq a NaN = False"
| "fl_eq a b = (a = b)"

definition fl_le :: "pyfloat \<Rightarrow> pyfloat \<Rightarrow> bool" where
  "fl_le a b = (fl_less a b \<or> fl_eq a b)"

definition fl_max :: "pyfloat \<Rightarrow> pyfloat \<Rightarrow> pyfloat" where
  "fl_max a b = (if fl_less a b then b else a)"

definition fl_min :: "pyfloat \<Rightarrow> pyfloat \<Rightarrow> pyfloat" where
  "fl_min a b = (if fl_less b a then b else a)"

fun is_finite :: "pyfloat \<Rightarrow> bool" where
  "is_finite (Fin a) = True"
| "is_finite _ = False"

lemma fl_eq_iff [simp]: "fl_eq a b \<longleftrightarrow> a = b \<and> a \<noteq> NaN"
  by (cases a; cases b) auto

lemma fl_le_Fin [simp]: "fl_le (Fin a) (Fin b) \<longleftrightarrow> a \<le> b"
  by (auto simp: fl_le_def)

lemma fl_less_irrefl [simp]: "\<not> fl_less a a"
  by (cases a) simp_all

subsection \<open>Arithmetic with binary64 rounding\<close>

function int_pow2 :: "int \<Rightarrow> int" where
  "int_pow2 k = (if k \<le> 0 then 1
     else (let h = int_pow2 (k div 2) in if even k then h * h else 2 * h * h))"
  by pat_completeness auto
termination
  by (relation "measure nat") auto

declare int_pow2.simps [simp del]

definition pow2 :: "int \<Rightarrow> rat" where
  "pow2 k = (if 0 \<le> k then of_int (int_pow2 k) else 1 / of_int (int_pow2 (- k)))"

text \<open>For a positive rational: the exponent of the largest power of two below it.\<close>

definition exponent_of :: "rat \<Rightarrow> int" where
  "exponent_of x =
     (case quotient_of x of (n, d) \<Rightarrow>
        let e = bitlen n - bitlen d in if pow2 e \<le> x then e else e - 1)"

definition round_half_even :: "rat \<Rightarrow> int" where
  "round_half_even x =
     (let f = \<lfloor>x\<rfloor>; r = x - of_int f
      in if r < 1 / 2 then f else if 1 / 2 < r then f + 1 else if even f then f else f + 1)"

definition fl_round :: "rat \<Rightarrow> pyfloat" where
  "fl_round x =
     (if x = 0 then Fin 0
      else (let a = \<bar>x\<bar>; q = max (exponent_of a - 52) (- 1074);
                v = of_int (round_half_even (a / pow2 q)) * pow2 q
            in if pow2 1024 \<le> v then (if 0 < x then PosInf else NegInf)
               else Fin (if 0 < x then v else - v)))"

fun fl_neg :: "pyfloat \<Rightarrow> pyfloat" where
  "fl_neg NaN = NaN"
| "fl_neg PosInf = NegInf"
| "fl_neg NegInf = PosInf"
| "fl_neg (Fin a) = Fin (- a)"

definition fl_abs :: "pyfloat \<Rightarrow> pyfloat" where
  "fl_abs a = (case a of NaN \<Rightarrow> NaN | PosInf \<Rightarrow> PosInf | NegInf \<Rightarrow> PosInf | Fin x \<Rightarrow> Fin \<bar>x\<bar>)"

fun fl_add :: "pyfloat \<Rightarrow> pyfloat \<Rightarrow> pyfloat" where
  "fl_add (Fin a) (Fin b) = fl_round (a + b)"
| "fl_add NaN b = NaN"
| "fl_add a NaN = NaN"
| "fl_add PosInf NegInf = NaN"
| "fl_add NegInf PosInf = NaN"
| "fl_add PosInf b = PosInf"
| "fl_add NegInf b = NegInf"
| "fl_add a PosInf = PosInf"
| "fl_add a NegInf = NegInf"

definition fl_sub :: "pyfloat \<Rightarrow> pyfloat \<Rightarrow> pyfloat" where
  "fl_sub a b = fl_add a (fl_neg b)"

text \<open>\<open>inf * b\<close> for a non-NaN \<open>b\<close>.\<close>

definition fl_inf_times :: "bool \<Rightarrow> pyfloat \<Rightarrow> pyfloat" where
  "fl_inf_times positive b = (if b = Fin 0 then NaN else if fl_less (Fin 0) b = positive then PosInf else NegInf)"

fun fl_mul :: "pyfloat \<Rightarrow> pyfloat \<Rightarrow> pyfloat" where
  "fl_mul (Fin a) (Fin b) = fl_round (a * b)"
| "fl_mul NaN b = NaN"
| "fl_mul a NaN = NaN"
| "fl_mul PosInf b = fl_inf_times True b"
| "fl_mul NegInf b = fl_inf_times False b"
| "fl_mul a PosInf = fl_inf_times True a"
| "fl_mul a NegInf = fl_inf_times False a"

text \<open>\<open>a / b\<close> where the program has excluded \<open>b = 0\<close>.\<close>

fun fl_div :: "pyfloat \<Rightarrow> pyfloat \<Rightarrow> pyfloat" where
  "fl_div (Fin a) (Fin b) = fl_round (a / b)"
| "fl_div NaN b = NaN"
| "fl_div a NaN = NaN"
| "fl_div (Fin a) b = Fin 0"
| "fl_div PosInf (Fin b) = (if 0 \<le> b then PosInf else NegInf)"
| "fl_div NegInf (Fin b) = (if 0 \<le> b then NegInf else PosInf)"
| "fl_div a b = NaN"

text \<open>\<open>float(n)\<close> of an integer: \<open>OverflowError\<close> beyond the range.\<close>

definition fl_of_int :: "int \<Rightarrow> py_exc + pyfloat" where
  "fl_of_int n = (let x = fl_round (of_int n) in if is_finite x then Inr x else Inl OverflowError)"

text \<open>\<open>math.isclose(a, b, rel_tol=1e-9, abs_tol=1e-9)\<close>; the tolerance is the double nearest to 1e-9.\<close>

definition FL_1e_9 :: pyfloat where "FL_1e_9 = fl_round (1 / 1000000000)"

definition fl_isclose :: "pyfloat \<Rightarrow> pyfloat \<Rightarrow> bool" where
  "fl_isclose a b =
     (if fl_eq a b then True
      else if \<not> is_finite a \<or> \<not> is_finite b then False
      else (let diff = fl_abs (fl_sub b a) in
        fl_le diff (fl_abs (fl_mul FL_1e_9 b)) \<or> fl_le diff (fl_abs (fl_mul FL_1e_9 a)) \<or> fl_le diff FL_1e_9))"

lemma fl_isclose_refl: "is_finite a \<Longrightarrow> fl_isclose a a"
  by (cases a) (simp_all add: fl_isclose_def)

lemma is_finite_iff: "is_finite a \<longleftrightarrow> (\<exists>x. a = Fin x)"
  by (cases a) simp_all

text \<open>Doubles: the values rounding leaves alone.\<close>

definition is_double :: "rat \<Rightarrow> bool" where
  "is_double x \<longleftrightarrow> fl_round x = Fin x"

lemma round_half_even_int [simp]: "round_half_even (of_int n) = n"
  by (simp add: round_half_even_def)

lemma int_pow2: "0 \<le> k \<Longrightarrow> int_pow2 k = 2 ^ nat k"
proof (induction k rule: int_pow2.induct)
  case (1 k)
  show ?case
  proof (cases "k \<le> 0")
    case True
    then show ?thesis using 1 by (simp add: int_pow2.simps)
  next
    case False
    then have h: "int_pow2 (k div 2) = 2 ^ nat (k div 2)" using 1 by simp
    have k: "nat k = nat (k div 2) + nat (k div 2) + nat (k mod 2)"
      using False by (simp add: nat_add_distrib [symmetric])
    show ?thesis
      using False h k by (subst int_pow2.simps) (auto simp: Let_def power_add even_iff_mod_2_eq_zero odd_iff_mod_2_eq_one)
  qed
qed

lemma round_half_even_near: "\<bar>of_int (round_half_even x) - x\<bar> \<le> 1 / 2"
proof -
  have "of_int \<lfloor>x\<rfloor> \<le> x" "x < of_int (\<lfloor>x\<rfloor> + 1)" by linarith+
  then show ?thesis by (auto simp: round_half_even_def Let_def)
qed

end
