(* ===== verification/Models.thy ===== *)
theory Models
  imports Calendar Text PyFloat
begin

section \<open>Models: the shared data of the question-to-plan pipeline\<close>

text \<open>
  The enumerations, records and validators of \<open>domain/models.py\<close>.  A pydantic field is a record
  field with the model's prefix, a validator is a function that returns the first violation
  (\<open>None\<close> when the instance is accepted) or the normalised instance.
\<close>

subsection \<open>Enumerations\<close>

datatype ClassificationLevel = PUBLIC | INTERNAL | CONFIDENTIAL | RESTRICTED

definition CLASSIFICATION_RANK :: "ClassificationLevel \<Rightarrow> nat" where
  "CLASSIFICATION_RANK c =
     (case c of PUBLIC \<Rightarrow> 0 | INTERNAL \<Rightarrow> 1 | CONFIDENTIAL \<Rightarrow> 2 | RESTRICTED \<Rightarrow> 3)"

instantiation ClassificationLevel :: linorder
begin

definition less_eq_ClassificationLevel :: "ClassificationLevel \<Rightarrow> ClassificationLevel \<Rightarrow> bool" where
  "less_eq_ClassificationLevel a b \<longleftrightarrow> CLASSIFICATION_RANK a \<le> CLASSIFICATION_RANK b"

definition less_ClassificationLevel :: "ClassificationLevel \<Rightarrow> ClassificationLevel \<Rightarrow> bool" where
  "less_ClassificationLevel a b \<longleftrightarrow> CLASSIFICATION_RANK a < CLASSIFICATION_RANK b"

instance
  by standard (auto simp: less_eq_ClassificationLevel_def less_ClassificationLevel_def
      CLASSIFICATION_RANK_def split: ClassificationLevel.splits)

end

datatype SourceStatus = SRC_AVAILABLE | SRC_UNAVAILABLE | SRC_NOT_READY

datatype MetricValueType = VT_INTEGER | VT_DECIMAL | VT_PERCENTAGE | VT_CURRENCY

datatype MetricAggregation = AGG_SUM | AGG_COUNT | DISTINCT_COUNT | AVERAGE | RATIO | LAST_VALUE

datatype MetricAdditivity = ADDITIVE | SEMI_ADDITIVE | NON_ADDITIVE

datatype TimeGrain = HOUR | DAY | WEEK | MONTH | QUARTER | YEAR

datatype TimePreset =
    CURRENT_DAY | PREVIOUS_COMPLETE_DAY | CURRENT_WEEK | PREVIOUS_COMPLETE_WEEK
  | CURRENT_MONTH | PREVIOUS_COMPLETE_MONTH | CURRENT_QUARTER | PREVIOUS_COMPLETE_QUARTER
  | CURRENT_YEAR | PREVIOUS_COMPLETE_YEAR | ROLLING_30_DAYS | ROLLING_12_MONTHS | CUSTOM

datatype ComparisonType = NO_COMPARISON | PRIOR_PERIOD | YEAR_OVER_YEAR

datatype QuestionVerdict =
    ACCEPT_INTERNAL | ACCEPT_KNOWLEDGE | ACCEPT_EXTERNAL_AUGMENTED | CLARIFY | VALID_NO_SOURCE
  | OUT_OF_DOMAIN | INVALID_ANALYTIC_REQUEST | DENY | CONFLICTING_DEFINITIONS | SOURCE_NOT_READY

datatype QuestionIntent =
    METRIC_LOOKUP | TREND_ANALYSIS | COMPARISON | DRIVER_ANALYSIS | KNOWLEDGE_LOOKUP | UNKNOWN

datatype DataStatus =
    DATA_AVAILABLE | PARTIALLY_AVAILABLE | NOT_CONNECTED | DATA_NOT_READY | NOT_REQUIRED

datatype AuthorizationStatus = AUTH_ALLOWED | AUTH_DENIED

datatype InterpreterMode =
    RULES | CLAUDE_AND_RULES | GEMINI_AND_RULES | OLLAMA_AND_RULES | OLLAMA_FAILED_RULES_FALLBACK

datatype QueryCompilationStatus = COMPILED | NOT_ELIGIBLE | INVALID | CLARIFICATION_REQUIRED

datatype FilterOperator = EQUALS | OP_IN

subsection \<open>Access context\<close>

record AccessContext =
  ac_tenant_id :: string
  ac_user_id :: string
  ac_roles :: "string set"
  ac_departments :: "string set"
  ac_regions :: "string set"
  ac_business_units :: "string set"
  ac_clearance :: ClassificationLevel
  ac_actions :: "string set"

definition normalize_set_values :: "string set \<Rightarrow> string set" where
  "normalize_set_values vs = (\<lambda>v. py_upper (py_strip v)) ` Set.filter (\<lambda>v. py_strip v \<noteq> []) vs"

definition validate_access :: "AccessContext \<Rightarrow> py_exc + AccessContext" where
  "validate_access a =
     (if length (ac_tenant_id a) < 1 \<or> length (ac_tenant_id a) > 128
         \<or> length (ac_user_id a) < 1 \<or> length (ac_user_id a) > 256 then Inl ValueError
      else Inr (a\<lparr>ac_roles := normalize_set_values (ac_roles a),
                 ac_departments := normalize_set_values (ac_departments a),
                 ac_regions := normalize_set_values (ac_regions a),
                 ac_business_units := normalize_set_values (ac_business_units a),
                 ac_actions := normalize_set_values (ac_actions a)\<rparr>))"

subsection \<open>Domain pack\<close>

record DataSourceReference =
  ds_connector_id :: string
  ds_status :: SourceStatus
  ds_description :: "string option"

record BusinessDomain =
  bd_id :: string
  bd_name :: string
  bd_aliases :: "string list"
  bd_description :: "string option"
  bd_classification :: ClassificationLevel

record MetricDefinition =
  md_id :: string
  md_name :: string
  md_aliases :: "string list"
  md_domain_id :: string
  md_definition :: string
  md_owner :: string
  md_definition_version :: int
  md_semantic_version :: string
  md_value_type :: MetricValueType
  md_aggregation :: MetricAggregation
  md_additivity :: MetricAdditivity
  md_unit :: string
  md_allowed_dimensions :: "string list"
  md_supported_time_grains :: "TimeGrain list"
  md_default_time_grain :: TimeGrain
  md_default_time_window :: TimePreset
  md_default_comparison :: ComparisonType
  md_valid_min :: "pyfloat option"
  md_valid_max :: "pyfloat option"
  md_classification :: ClassificationLevel
  md_source :: DataSourceReference

record DimensionValue =
  dv_id :: string
  dv_name :: string
  dv_aliases :: "string list"

record BusinessEntity =
  be_id :: string
  be_name :: string
  be_definition :: string
  be_owner :: string
  be_definition_version :: int
  be_aliases :: "string list"
  be_domain_id :: string
  be_values :: "DimensionValue list"
  be_classification :: ClassificationLevel

record ExternalAdjacency =
  ea_id :: string
  ea_name :: string
  ea_phrases :: "string list"
  ea_anchor_metric_ids :: "string list"
  ea_anchor_entity_ids :: "string list"
  ea_description :: "string option"

record ExcludedDomainRule =
  ex_id :: string
  ex_name :: string
  ex_phrases :: "string list"
  ex_explanation :: string

record TenantDomainPack =
  pk_tenant_id :: string
  pk_tenant_name :: string
  pk_industry :: string
  pk_subindustries :: "string list"
  pk_version :: string
  pk_status :: string
  pk_effective_from :: instant
  pk_default_currency :: string
  pk_default_calendar :: string
  pk_default_timezone :: string
  pk_domains :: "BusinessDomain list"
  pk_metrics :: "MetricDefinition list"
  pk_entities :: "BusinessEntity list"
  pk_external_adjacencies :: "ExternalAdjacency list"
  pk_excluded_domains :: "ExcludedDomainRule list"

datatype pack_error =
    VersionBelowOne string
  | GrainNotSupported string
  | BoundsInverted string
  | RatioNotNonAdditive string
  | DuplicateEntityValues string
  | DuplicateIds string
  | MetricUnknownDomain string
  | MetricUnknownDimensions string "string list"
  | EntityUnknownDomain string
  | AdjacencyUnknownAnchors string

fun first_error :: "('a \<Rightarrow> 'e option) \<Rightarrow> 'a list \<Rightarrow> 'e option" where
  "first_error f [] = None"
| "first_error f (x # xs) = (case f x of Some e \<Rightarrow> Some e | None \<Rightarrow> first_error f xs)"

definition validate_semantics :: "MetricDefinition \<Rightarrow> pack_error option" where
  "validate_semantics m =
     (if md_definition_version m < 1 then Some (VersionBelowOne (md_id m))
      else if md_default_time_grain m \<notin> set (md_supported_time_grains m)
        then Some (GrainNotSupported (md_id m))
      else if (case (md_valid_min m, md_valid_max m) of (Some lo, Some hi) \<Rightarrow> fl_less hi lo | _ \<Rightarrow> False)
        then Some (BoundsInverted (md_id m))
      else if md_aggregation m = RATIO \<and> md_additivity m \<noteq> NON_ADDITIVE
        then Some (RatioNotNonAdditive (md_id m))
      else None)"

definition validate_values :: "BusinessEntity \<Rightarrow> pack_error option" where
  "validate_values e =
     (if be_definition_version e < 1 then Some (VersionBelowOne (be_id e))
      else if \<not> distinct (map dv_id (be_values e)) then Some (DuplicateEntityValues (be_id e))
      else None)"

definition normalize_status :: "string \<Rightarrow> string" where
  "normalize_status v = py_upper (py_strip v)"

definition metric_reference_error ::
  "string set \<Rightarrow> string set \<Rightarrow> MetricDefinition \<Rightarrow> pack_error option" where
  "metric_reference_error known_domains known_entities m =
     (if md_domain_id m \<notin> known_domains then Some (MetricUnknownDomain (md_id m))
      else (let unknown = set (md_allowed_dimensions m) - known_entities
            in if unknown \<noteq> {} then Some (MetricUnknownDimensions (md_id m) (py_sorted unknown))
               else None))"

definition validate_references :: "TenantDomainPack \<Rightarrow> pack_error option" where
  "validate_references p =
     (let domain_ids = map bd_id (pk_domains p);
          metric_ids = map md_id (pk_metrics p);
          entity_ids = map be_id (pk_entities p)
      in if \<not> distinct domain_ids then Some (DuplicateIds ''domain'')
         else if \<not> distinct metric_ids then Some (DuplicateIds ''metric'')
         else if \<not> distinct entity_ids then Some (DuplicateIds ''entity'')
         else (case first_error (metric_reference_error (set domain_ids) (set entity_ids)) (pk_metrics p) of
             Some e \<Rightarrow> Some e
           | None \<Rightarrow>
             (case first_error (\<lambda>e. if be_domain_id e \<notin> set domain_ids
                                    then Some (EntityUnknownDomain (be_id e)) else None) (pk_entities p) of
               Some e \<Rightarrow> Some e
             | None \<Rightarrow>
               first_error (\<lambda>a. if set (ea_anchor_metric_ids a) - set metric_ids \<noteq> {}
                                     \<or> set (ea_anchor_entity_ids a) - set entity_ids \<noteq> {}
                                  then Some (AdjacencyUnknownAnchors (ea_id a)) else None)
                 (pk_external_adjacencies p))))"

text \<open>Construction: nested models first, then the field validator, then the model validator.\<close>

definition make_pack :: "TenantDomainPack \<Rightarrow> pack_error + TenantDomainPack" where
  "make_pack p =
     (case first_error validate_semantics (pk_metrics p) of Some e \<Rightarrow> Inl e
      | None \<Rightarrow>
        (case first_error validate_values (pk_entities p) of Some e \<Rightarrow> Inl e
         | None \<Rightarrow>
           (let q = p\<lparr>pk_status := normalize_status (pk_status p)\<rparr>
            in case validate_references q of Some e \<Rightarrow> Inl e | None \<Rightarrow> Inr q)))"

subsection \<open>Questions, decisions and plans\<close>

record InterpretationProposal =
  ip_intent :: QuestionIntent
  ip_metric_ids :: "string list"
  ip_entity_ids :: "string list"
  ip_domain_ids :: "string list"
  ip_dimensions :: "string list"
  ip_external_topics :: "string list"
  ip_ambiguous_terms :: "string list"
  ip_operation :: "string option"
  ip_summary :: string
  ip_confidence :: pyfloat

record InterpretationResult =
  ir_proposal :: InterpretationProposal
  ir_mode :: InterpreterMode
  ir_adjacency_ids :: "string list"
  ir_exclusion_ids :: "string list"
  ir_matched_terms :: "string list"
  ir_warnings :: "string list"

record QuestionRequest =
  qr_question :: string
  qr_access :: AccessContext
  qr_session_id :: "uuid option"
  qr_use_llm :: bool

definition normalize_question :: "string \<Rightarrow> py_exc + string" where
  "normalize_question v =
     (if length v < 3 \<or> length v > 8000 then Inl ValueError
      else (let n = py_join '' '' (py_split v) in if n = [] then Inl ValueError else Inr n))"

record QuestionDecision =
  qd_decision_id :: uuid
  qd_created_at :: instant
  qd_tenant_id :: string
  qd_user_id :: string
  qd_verdict :: QuestionVerdict
  qd_intent :: QuestionIntent
  qd_anchor_ids :: "string list"
  qd_metric_ids :: "string list"
  qd_entity_ids :: "string list"
  qd_dimension_ids :: "string list"
  qd_external_topics :: "string list"
  qd_unresolved_terms :: "string list"
  qd_authorization :: AuthorizationStatus
  qd_data_status :: DataStatus
  qd_reason_codes :: "string list"
  qd_user_message :: string
  qd_next_action :: string
  qd_pack_version :: string
  qd_mode :: InterpreterMode
  qd_warnings :: "string list"

record QuestionDecisionEnvelope =
  env_session_id :: uuid
  env_decision :: QuestionDecision

text \<open>An aware \<open>datetime\<close> with its wall-clock date; \<open>dt.date()\<close> is \<open>dt_date\<close>.\<close>

datatype datetime = DateTime (dt_date: date) (dt_micros: int) (dt_offset: int)

record QueryCompilationRequest =
  cr_request :: QuestionRequest
  cr_as_of :: datetime

record TimeWindow =
  tw_preset :: TimePreset
  tw_grain :: TimeGrain
  tw_calendar :: string
  tw_timezone :: string
  tw_anchor_date :: date
  tw_start_date :: "date option"
  tw_end_date :: "date option"

definition validate_dates :: "TimeWindow \<Rightarrow> py_exc + TimeWindow" where
  "validate_dates w =
     (if tw_preset w = CUSTOM \<and> (tw_start_date w = None \<or> tw_end_date w = None) then Inl ValueError
      else (case (tw_start_date w, tw_end_date w) of
              (Some s, Some e) \<Rightarrow> if e < s then Inl ValueError else Inr w
            | _ \<Rightarrow> Inr w))"

record QueryFilter =
  qf_dimension_id :: string
  qf_operator :: FilterOperator
  qf_values :: "string list"

record AccessScope =
  sc_roles :: "string list"
  sc_departments :: "string list"
  sc_regions :: "string list"
  sc_business_units :: "string list"
  sc_actions :: "string list"
  sc_clearance :: ClassificationLevel
  sc_enforcement :: string

record BusinessQueryIR =
  q_query_id :: uuid
  q_session_id :: uuid
  q_decision_id :: uuid
  q_created_at :: instant
  q_tenant_id :: string
  q_user_id :: string
  q_question :: string
  q_intent :: QuestionIntent
  q_metric_id :: string
  q_metric_name :: string
  q_semantic_version :: string
  q_value_type :: MetricValueType
  q_aggregation :: MetricAggregation
  q_additivity :: MetricAdditivity
  q_unit :: string
  q_currency :: "string option"
  q_dimensions :: "string list"
  q_filters :: "QueryFilter list"
  q_time_window :: TimeWindow
  q_comparison :: ComparisonType
  q_access_scope :: AccessScope
  q_source_connector_id :: string
  q_pack_version :: string
  q_snapshot_hash :: string
  q_plan_hash :: string
  q_requires_external :: bool
  q_warnings :: "string list"

record CompilationIssue =
  ci_code :: string
  ci_message :: string
  ci_field :: "string option"

record QueryCompilationResult =
  qc_session_id :: uuid
  qc_decision :: QuestionDecision
  qc_status :: QueryCompilationStatus
  qc_query_ir :: "BusinessQueryIR option"
  qc_issues :: "CompilationIssue list"
  qc_warnings :: "string list"

definition normalize_metric_id :: "string \<Rightarrow> string" where
  "normalize_metric_id v = py_upper (py_strip v)"

subsection \<open>What the validators establish\<close>

lemma first_error_None: "first_error f xs = None \<longleftrightarrow> (\<forall>x\<in>set xs. f x = None)"
  by (induction xs) (auto split: option.splits)

lemma first_error_SomeD: "first_error f xs = Some e \<Longrightarrow> \<exists>x\<in>set xs. f x = Some e"
  by (induction xs) (auto split: option.splits)

text \<open>The well-formedness every constructed pack satisfies.\<close>

definition metric_ok :: "TenantDomainPack \<Rightarrow> MetricDefinition \<Rightarrow> bool" where
  "metric_ok p m \<longleftrightarrow> 1 \<le> md_definition_version m
     \<and> md_default_time_grain m \<in> set (md_supported_time_grains m)
     \<and> (\<forall>lo hi. md_valid_min m = Some lo \<longrightarrow> md_valid_max m = Some hi \<longrightarrow> \<not> fl_less hi lo)
     \<and> (md_aggregation m = RATIO \<longrightarrow> md_additivity m = NON_ADDITIVE)
     \<and> md_domain_id m \<in> bd_id ` set (pk_domains p)
     \<and> set (md_allowed_dimensions m) \<subseteq> be_id ` set (pk_entities p)"

definition pack_wf :: "TenantDomainPack \<Rightarrow> bool" where
  "pack_wf p \<longleftrightarrow> distinct (map bd_id (pk_domains p)) \<and> distinct (map md_id (pk_metrics p))
     \<and> distinct (map be_id (pk_entities p))
     \<and> (\<forall>m\<in>set (pk_metrics p). metric_ok p m)
     \<and> (\<forall>e\<in>set (pk_entities p). be_domain_id e \<in> bd_id ` set (pk_domains p)
          \<and> 1 \<le> be_definition_version e \<and> distinct (map dv_id (be_values e)))
     \<and> (\<forall>a\<in>set (pk_external_adjacencies p).
          set (ea_anchor_metric_ids a) \<subseteq> md_id ` set (pk_metrics p)
          \<and> set (ea_anchor_entity_ids a) \<subseteq> be_id ` set (pk_entities p))"

lemma validate_semantics_None:
  "validate_semantics m = None \<longleftrightarrow> 1 \<le> md_definition_version m
     \<and> md_default_time_grain m \<in> set (md_supported_time_grains m)
     \<and> (\<forall>lo hi. md_valid_min m = Some lo \<longrightarrow> md_valid_max m = Some hi \<longrightarrow> \<not> fl_less hi lo)
     \<and> (md_aggregation m = RATIO \<longrightarrow> md_additivity m = NON_ADDITIVE)"
  by (auto simp: validate_semantics_def split: option.splits)

lemma metric_reference_error_None:
  "metric_reference_error D E m = None \<longleftrightarrow> md_domain_id m \<in> D \<and> set (md_allowed_dimensions m) \<subseteq> E"
  by (auto simp: metric_reference_error_def Let_def)

lemma validate_references_None:
  "validate_references p = None \<longleftrightarrow> distinct (map bd_id (pk_domains p))
     \<and> distinct (map md_id (pk_metrics p)) \<and> distinct (map be_id (pk_entities p))
     \<and> (\<forall>m\<in>set (pk_metrics p). md_domain_id m \<in> bd_id ` set (pk_domains p)
           \<and> set (md_allowed_dimensions m) \<subseteq> be_id ` set (pk_entities p))
     \<and> (\<forall>e\<in>set (pk_entities p). be_domain_id e \<in> bd_id ` set (pk_domains p))
     \<and> (\<forall>a\<in>set (pk_external_adjacencies p).
          set (ea_anchor_metric_ids a) \<subseteq> md_id ` set (pk_metrics p)
          \<and> set (ea_anchor_entity_ids a) \<subseteq> be_id ` set (pk_entities p))"
proof -
  have [simp]: "A - B \<noteq> {} \<longleftrightarrow> \<not> A \<subseteq> (B::string set)" for A B by blast
  show ?thesis
    unfolding validate_references_def Let_def
    by (simp add: first_error_None metric_reference_error_None)
qed

lemma pack_wf_status [simp]: "pack_wf (p\<lparr>pk_status := s\<rparr>) \<longleftrightarrow> pack_wf p"
  by (simp add: pack_wf_def metric_ok_def)

lemma pack_wf_iff:
  "pack_wf p \<longleftrightarrow> (\<forall>m\<in>set (pk_metrics p). validate_semantics m = None)
     \<and> (\<forall>e\<in>set (pk_entities p). validate_values e = None) \<and> validate_references p = None"
  unfolding pack_wf_def metric_ok_def validate_references_None validate_semantics_None
    validate_values_def by auto

lemma validate_references_status [simp]:
  "validate_references (p\<lparr>pk_status := s\<rparr>) = None \<longleftrightarrow> validate_references p = None"
  by (simp add: validate_references_None)

lemma make_pack_Inr:
  "make_pack p = Inr q \<longleftrightarrow> pack_wf p \<and> q = p\<lparr>pk_status := normalize_status (pk_status p)\<rparr>"
  by (auto simp: make_pack_def pack_wf_iff first_error_None Let_def)

lemma pack_wf_metric:
  assumes "pack_wf p" "m \<in> set (pk_metrics p)"
  shows "metric_ok p m"
  using assms by (simp add: pack_wf_def)

text \<open>A tenant domain pack is accepted exactly when its identifiers are unique, every metric and
  entity names a known domain, every allowed dimension and adjacency anchor is defined in the pack,
  and the metric semantics (grain, bounds, ratio additivity, versions) are consistent; acceptance
  changes nothing but the case of the status.\<close>

theorem make_pack_accepts:
  "is_ok (make_pack p) = pack_wf p \<and>
   (\<forall>q. make_pack p = Inr q \<longleftrightarrow> pack_wf p \<and> q = p\<lparr>pk_status := normalize_status (pk_status p)\<rparr>)"
  by (simp add: make_pack_Inr is_ok_iff)

lemma strip_upper_strip [simp]: "py_strip (py_upper (py_strip v)) = py_upper (py_strip v)"
  using py_upper_strip [of "py_strip v"] by simp

lemma py_upper_Nil [simp]: "py_upper s = [] \<longleftrightarrow> s = []"
  by (simp add: py_upper_def)

lemma normalize_set_values_iff:
  "w \<in> normalize_set_values S \<longleftrightarrow> (\<exists>v\<in>S. py_strip v \<noteq> [] \<and> w = py_upper (py_strip v))"
  by (auto simp: normalize_set_values_def)

lemma normalize_set_values_idem [simp]:
  "normalize_set_values (normalize_set_values S) = normalize_set_values S"
proof (intro equalityI subsetI)
  fix w assume "w \<in> normalize_set_values S"
  then obtain v where "v \<in> S" "py_strip v \<noteq> []" and w: "w = py_upper (py_strip v)"
    by (auto simp: normalize_set_values_iff)
  then have "py_upper (py_strip v) \<in> normalize_set_values S" by (auto simp: normalize_set_values_iff)
  with w \<open>py_strip v \<noteq> []\<close> show "w \<in> normalize_set_values (normalize_set_values S)"
    by (subst normalize_set_values_iff) (rule bexI [of _ "py_upper (py_strip v)"], simp_all)
next
  fix w assume "w \<in> normalize_set_values (normalize_set_values S)"
  then obtain u where "u \<in> normalize_set_values S" "w = py_upper (py_strip u)"
    by (subst (asm) normalize_set_values_iff) blast
  then show "w \<in> normalize_set_values S" by (auto simp: normalize_set_values_iff)
qed

end
