(* ===== verification/Policy.thy ===== *)
theory Policy
  imports Models
begin

section \<open>Policy: the deterministic authorization checks\<close>

text \<open>
  \<open>services/policy.py\<close>: the four action checks and the classification check of \<open>PolicyEngine\<close>.
\<close>

definition ASK_ACTION :: string where "ASK_ACTION = ''ASK_BUSINESS_QUESTIONS''"
definition READ_DATA_ACTION :: string where "READ_DATA_ACTION = ''READ_AGGREGATED_DATA''"
definition READ_MEMORY_ACTION :: string where "READ_MEMORY_ACTION = ''READ_APPROVED_MEMORY''"
definition USE_EXTERNAL_ACTION :: string where "USE_EXTERNAL_ACTION = ''USE_EXTERNAL_CONTEXT''"
definition ADMIN_ROLE :: string where "ADMIN_ROLE = ''TALK2DATA_ADMIN''"

record PolicyDecision =
  pd_status :: AuthorizationStatus
  pd_reason_codes :: "string list"

definition allowed :: "PolicyDecision \<Rightarrow> bool" where
  "allowed d = (pd_status d = AUTH_ALLOWED)"

definition can_ask :: "AccessContext \<Rightarrow> PolicyDecision" where
  "can_ask c =
     (if ADMIN_ROLE \<in> ac_roles c \<or> ASK_ACTION \<in> ac_actions c
      then \<lparr>pd_status = AUTH_ALLOWED, pd_reason_codes = [''QUESTION_ACTION_ALLOWED'']\<rparr>
      else \<lparr>pd_status = AUTH_DENIED, pd_reason_codes = [''QUESTION_ACTION_NOT_ALLOWED'']\<rparr>)"

definition can_read_data :: "AccessContext \<Rightarrow> PolicyDecision" where
  "can_read_data c =
     (if ADMIN_ROLE \<in> ac_roles c \<or> READ_DATA_ACTION \<in> ac_actions c
      then \<lparr>pd_status = AUTH_ALLOWED, pd_reason_codes = [''DATA_ACTION_ALLOWED'']\<rparr>
      else \<lparr>pd_status = AUTH_DENIED, pd_reason_codes = [''DATA_ACTION_NOT_ALLOWED'']\<rparr>)"

definition can_read_memory :: "AccessContext \<Rightarrow> PolicyDecision" where
  "can_read_memory c =
     (if ADMIN_ROLE \<in> ac_roles c \<or> READ_MEMORY_ACTION \<in> ac_actions c
      then \<lparr>pd_status = AUTH_ALLOWED, pd_reason_codes = [''MEMORY_ACTION_ALLOWED'']\<rparr>
      else \<lparr>pd_status = AUTH_DENIED, pd_reason_codes = [''MEMORY_ACTION_NOT_ALLOWED'']\<rparr>)"

definition can_use_external_context :: "AccessContext \<Rightarrow> PolicyDecision" where
  "can_use_external_context c =
     (if ADMIN_ROLE \<in> ac_roles c \<or> USE_EXTERNAL_ACTION \<in> ac_actions c
      then \<lparr>pd_status = AUTH_ALLOWED, pd_reason_codes = [''EXTERNAL_ACTION_ALLOWED'']\<rparr>
      else \<lparr>pd_status = AUTH_DENIED, pd_reason_codes = [''EXTERNAL_ACTION_NOT_ALLOWED'']\<rparr>)"

definition classification_value :: "ClassificationLevel \<Rightarrow> string" where
  "classification_value c = (case c of PUBLIC \<Rightarrow> ''PUBLIC'' | INTERNAL \<Rightarrow> ''INTERNAL''
     | CONFIDENTIAL \<Rightarrow> ''CONFIDENTIAL'' | RESTRICTED \<Rightarrow> ''RESTRICTED'')"

definition can_access_classification :: "AccessContext \<Rightarrow> ClassificationLevel \<Rightarrow> PolicyDecision" where
  "can_access_classification c required =
     (if CLASSIFICATION_RANK (ac_clearance c) \<ge> CLASSIFICATION_RANK required
      then \<lparr>pd_status = AUTH_ALLOWED,
            pd_reason_codes = [''CLASSIFICATION_'' @ classification_value required @ ''_ALLOWED'']\<rparr>
      else \<lparr>pd_status = AUTH_DENIED,
            pd_reason_codes = [''CLASSIFICATION_'' @ classification_value required @ ''_NOT_ALLOWED'']\<rparr>)"

lemma allowed_iff [simp]:
  "allowed (can_ask c) \<longleftrightarrow> ADMIN_ROLE \<in> ac_roles c \<or> ASK_ACTION \<in> ac_actions c"
  "allowed (can_read_data c) \<longleftrightarrow> ADMIN_ROLE \<in> ac_roles c \<or> READ_DATA_ACTION \<in> ac_actions c"
  "allowed (can_read_memory c) \<longleftrightarrow> ADMIN_ROLE \<in> ac_roles c \<or> READ_MEMORY_ACTION \<in> ac_actions c"
  "allowed (can_use_external_context c) \<longleftrightarrow> ADMIN_ROLE \<in> ac_roles c \<or> USE_EXTERNAL_ACTION \<in> ac_actions c"
  "allowed (can_access_classification c r) \<longleftrightarrow> r \<le> ac_clearance c"
  by (simp_all add: allowed_def can_ask_def can_read_data_def can_read_memory_def
      can_use_external_context_def can_access_classification_def less_eq_ClassificationLevel_def)

lemma denied_iff [simp]:
  "pd_status d = AUTH_ALLOWED \<longleftrightarrow> allowed d"
  by (simp add: allowed_def)

end
