(* ===== verification/Sample.thy ===== *)
theory Sample
  imports Models Policy
begin

section \<open>Sample: a small domain pack and a few access contexts\<close>

text \<open>
  The inputs at which the witnesses apply the properties: four metrics and entities of the
  telecom demonstration pack (\<open>resources/domain_packs/telecom-demo.yaml\<close>), an analyst and a visitor.
\<close>

definition warehouse :: DataSourceReference where
  "warehouse = \<lparr>ds_connector_id = ''telecom_semantic_warehouse'', ds_status = SRC_AVAILABLE, ds_description = None\<rparr>"

definition activations :: MetricDefinition where
  "activations = \<lparr>md_id = ''MOBILE_ACTIVATIONS'', md_name = ''Mobile Activations'',
     md_aliases = [''activations''], md_domain_id = ''RETAIL_SALES'',
     md_definition = ''Completed new wireless service activations.'', md_owner = ''Demo Sales Analytics'',
     md_definition_version = 1, md_semantic_version = ''2.0'', md_value_type = VT_INTEGER,
     md_aggregation = AGG_SUM, md_additivity = ADDITIVE, md_unit = ''COUNT'',
     md_allowed_dimensions = [''STORE'', ''REGION''], md_supported_time_grains = [DAY, WEEK, MONTH, QUARTER, YEAR],
     md_default_time_grain = MONTH, md_default_time_window = PREVIOUS_COMPLETE_MONTH,
     md_default_comparison = PRIOR_PERIOD, md_valid_min = Some (Fin 0), md_valid_max = None,
     md_classification = INTERNAL, md_source = warehouse\<rparr>"

definition churn :: MetricDefinition where
  "churn = \<lparr>md_id = ''POSTPAID_CHURN'', md_name = ''Postpaid Churn'', md_aliases = [''churn''],
     md_domain_id = ''WIRELESS_SUBSCRIBER'', md_definition = ''Disconnects divided by the average active base.'',
     md_owner = ''Demo Subscriber Analytics'', md_definition_version = 1, md_semantic_version = ''2.0'',
     md_value_type = VT_PERCENTAGE, md_aggregation = RATIO, md_additivity = NON_ADDITIVE, md_unit = ''PERCENT'',
     md_allowed_dimensions = [''REGION''], md_supported_time_grains = [DAY, WEEK, MONTH, QUARTER, YEAR],
     md_default_time_grain = MONTH, md_default_time_window = PREVIOUS_COMPLETE_MONTH,
     md_default_comparison = PRIOR_PERIOD, md_valid_min = Some (Fin 0), md_valid_max = Some (Fin 1),
     md_classification = CONFIDENTIAL, md_source = warehouse\<rparr>"

definition region :: BusinessEntity where
  "region = \<lparr>be_id = ''REGION'', be_name = ''Operating Region'', be_definition = ''The operating geography.'',
     be_owner = ''Demo Subscriber Analytics'', be_definition_version = 1, be_aliases = [''region'', ''regions''],
     be_domain_id = ''WIRELESS_SUBSCRIBER'',
     be_values = [\<lparr>dv_id = ''NORTHEAST'', dv_name = ''Northeast'', dv_aliases = [''north east'']\<rparr>,
                  \<lparr>dv_id = ''WEST'', dv_name = ''West'', dv_aliases = [''western region'']\<rparr>],
     be_classification = INTERNAL\<rparr>"

definition store :: BusinessEntity where
  "store = \<lparr>be_id = ''STORE'', be_name = ''Retail Store'', be_definition = ''The retail location.'',
     be_owner = ''Demo Sales Analytics'', be_definition_version = 1, be_aliases = [''store'', ''stores''],
     be_domain_id = ''RETAIL_SALES'', be_values = [], be_classification = INTERNAL\<rparr>"

definition demo_pack :: TenantDomainPack where
  "demo_pack = \<lparr>pk_tenant_id = ''demo-telecom'', pk_tenant_name = ''Demo Telecom'',
     pk_industry = ''Telecommunications'', pk_subindustries = [''Wireless''], pk_version = ''2026.08.3'',
     pk_status = ''APPROVED'', pk_effective_from = 0, pk_default_currency = ''USD'',
     pk_default_calendar = ''GREGORIAN'', pk_default_timezone = ''UTC'',
     pk_domains = [\<lparr>bd_id = ''WIRELESS_SUBSCRIBER'', bd_name = ''Wireless Subscriber Management'',
         bd_aliases = [''wireless''], bd_description = None, bd_classification = INTERNAL\<rparr>,
       \<lparr>bd_id = ''RETAIL_SALES'', bd_name = ''Telecom Retail Sales'',
         bd_aliases = [''store sales''], bd_description = None, bd_classification = INTERNAL\<rparr>],
     pk_metrics = [activations, churn], pk_entities = [store, region],
     pk_external_adjacencies = [\<lparr>ea_id = ''WEATHER_IMPACT'', ea_name = ''Weather Impact'',
       ea_phrases = [''severe weather''], ea_anchor_metric_ids = [''MOBILE_ACTIVATIONS''],
       ea_anchor_entity_ids = [''STORE'', ''REGION''], ea_description = None\<rparr>],
     pk_excluded_domains = [\<lparr>ex_id = ''RESTAURANT_OPERATIONS'', ex_name = ''Restaurant Operations'',
       ex_phrases = [''restaurant margin''], ex_explanation = ''Not a restaurant business.''\<rparr>]\<rparr>"

definition analyst :: AccessContext where
  "analyst = \<lparr>ac_tenant_id = ''demo-telecom'', ac_user_id = ''ana'', ac_roles = {''ANALYST''},
     ac_departments = {}, ac_regions = {}, ac_business_units = {}, ac_clearance = INTERNAL,
     ac_actions = {''ASK_BUSINESS_QUESTIONS'', ''READ_AGGREGATED_DATA''}\<rparr>"

definition visitor :: AccessContext where
  "visitor = analyst\<lparr>ac_user_id := ''vic'', ac_actions := {}\<rparr>"

lemmas sample_defs = warehouse_def activations_def churn_def region_def store_def demo_pack_def
  analyst_def visitor_def

lemma demo_pack_wf: "pack_wf demo_pack"
  by (simp add: pack_wf_def metric_ok_def sample_defs)

end
