(* ===== verification/Regex.thy ===== *)
theory Regex
  imports Text
begin

section \<open>Regex: the part of \<open>re\<close> the program's patterns use\<close>

text \<open>
  A matcher maps a position to the positions at which a match may end, in the order in which
  Python's backtracking engine tries them; a position is the character before it (none at the
  start) with the text after it.  Python's \<open>re.search\<close> reports the first alternative of the
  leftmost start, which is the head of the list.
\<close>

type_synonym mstate = "char option \<times> string"
type_synonym matcher = "mstate \<Rightarrow> mstate list"

fun r_class :: "(char \<Rightarrow> bool) \<Rightarrow> matcher" where
  "r_class P (p, []) = []"
| "r_class P (p, c # cs) = (if P c then [(Some c, cs)] else [])"

text \<open>\<open>[...]+\<close>, greedy: the longest run first.\<close>

fun r_many1_from :: "(char \<Rightarrow> bool) \<Rightarrow> string \<Rightarrow> mstate list" where
  "r_many1_from P [] = []"
| "r_many1_from P (c # cs) = (if P c then r_many1_from P cs @ [(Some c, cs)] else [])"

definition r_many1 :: "(char \<Rightarrow> bool) \<Rightarrow> matcher" where
  "r_many1 P m = r_many1_from P (snd m)"

definition r_eps :: matcher where
  "r_eps m = [m]"

definition r_seq :: "matcher \<Rightarrow> matcher \<Rightarrow> matcher" where
  "r_seq a b m = concat (map b (a m))"

definition r_alt :: "matcher list \<Rightarrow> matcher" where
  "r_alt as m = concat (map (\<lambda>a. a m) as)"

definition r_opt :: "matcher \<Rightarrow> matcher" where
  "r_opt a m = a m @ [m]"

fun r_lit :: "string \<Rightarrow> matcher" where
  "r_lit [] m = [m]"
| "r_lit (c # cs) m = r_seq (r_class (\<lambda>d. d = c)) (r_lit cs) m"

fun r_all :: "matcher list \<Rightarrow> matcher" where
  "r_all [] m = [m]"
| "r_all (a # as) m = r_seq a (r_all as) m"

definition is_digit :: "char \<Rightarrow> bool" where
  "is_digit c = (let n = (of_char c :: nat) in 48 \<le> n \<and> n \<le> 57)"

definition is_lower :: "char \<Rightarrow> bool" where
  "is_lower c = (let n = (of_char c :: nat) in 97 \<le> n \<and> n \<le> 122)"

definition is_upper :: "char \<Rightarrow> bool" where
  "is_upper c = (let n = (of_char c :: nat) in 65 \<le> n \<and> n \<le> 90)"

definition is_word_char :: "char \<Rightarrow> bool" where
  "is_word_char c = (is_digit c \<or> is_lower c \<or> is_upper c \<or> c = CHR ''_'')"

definition before_is :: "(char \<Rightarrow> bool) \<Rightarrow> mstate \<Rightarrow> bool" where
  "before_is P m = (case fst m of None \<Rightarrow> False | Some c \<Rightarrow> P c)"

definition after_is :: "(char \<Rightarrow> bool) \<Rightarrow> mstate \<Rightarrow> bool" where
  "after_is P m = (case snd m of [] \<Rightarrow> False | c # cs \<Rightarrow> P c)"

text \<open>\<open>\b\<close>, \<open>(?<![...])\<close> and \<open>(?![...])\<close>.\<close>

definition r_boundary :: matcher where
  "r_boundary m = (if before_is is_word_char m \<noteq> after_is is_word_char m then [m] else [])"

definition r_not_behind :: "(char \<Rightarrow> bool) \<Rightarrow> matcher" where
  "r_not_behind P m = (if before_is P m then [] else [m])"

definition r_not_ahead :: "(char \<Rightarrow> bool) \<Rightarrow> matcher" where
  "r_not_ahead P m = (if after_is P m then [] else [m])"

fun re_search_from :: "matcher \<Rightarrow> char option \<Rightarrow> string \<Rightarrow> (mstate \<times> mstate) option" where
  "re_search_from a p [] = (case a (p, []) of [] \<Rightarrow> None | m # ms \<Rightarrow> Some ((p, []), m))"
| "re_search_from a p (c # cs) =
     (case a (p, c # cs) of m # ms \<Rightarrow> Some ((p, c # cs), m) | [] \<Rightarrow> re_search_from a (Some c) cs)"

definition re_search :: "matcher \<Rightarrow> string \<Rightarrow> (mstate \<times> mstate) option" where
  "re_search a s = re_search_from a None s"

text \<open>\<open>re.search(pre(body), s).group(1)\<close>: the text \<open>body\<close> consumes in the first match.\<close>

fun group_ends :: "matcher \<Rightarrow> matcher \<Rightarrow> mstate \<Rightarrow> string list" where
  "group_ends pre body m =
     concat (map (\<lambda>b. map (\<lambda>e. take (length (snd b) - length (snd e)) (snd b)) (body b)) (pre m))"

fun re_group_from :: "matcher \<Rightarrow> matcher \<Rightarrow> char option \<Rightarrow> string \<Rightarrow> string option" where
  "re_group_from pre body p [] = (case group_ends pre body (p, []) of [] \<Rightarrow> None | g # gs \<Rightarrow> Some g)"
| "re_group_from pre body p (c # cs) =
     (case group_ends pre body (p, c # cs) of g # gs \<Rightarrow> Some g
      | [] \<Rightarrow> re_group_from pre body (Some c) cs)"

definition re_group :: "matcher \<Rightarrow> matcher \<Rightarrow> string \<Rightarrow> string option" where
  "re_group pre body s = re_group_from pre body None s"

text \<open>\<open>re.sub([...]+, r, s)\<close>.\<close>

function sub_runs :: "(char \<Rightarrow> bool) \<Rightarrow> string \<Rightarrow> string \<Rightarrow> string" where
  "sub_runs P r [] = []"
| "sub_runs P r (c # cs) = (if P c then r @ sub_runs P r (dropWhile P cs) else c # sub_runs P r cs)"
  by pat_completeness auto
termination
  by (relation "measure (\<lambda>(P, r, s). length s)") (auto simp: length_dropWhile_le le_imp_less_Suc)

text \<open>\<open>re.findall\<close>: the texts of the successive non-overlapping matches, resuming after each match.\<close>

function re_findall_from :: "matcher \<Rightarrow> char option \<Rightarrow> string \<Rightarrow> string list" where
  "re_findall_from a p [] = []"
| "re_findall_from a p (c # cs) =
     (case a (p, c # cs) of
        [] \<Rightarrow> re_findall_from a (Some c) cs
      | m # ms \<Rightarrow>
          if length (snd m) \<le> length cs
          then take (length (c # cs) - length (snd m)) (c # cs) # re_findall_from a (fst m) (snd m)
          else re_findall_from a (Some c) cs)"
  by pat_completeness auto
termination
  by (relation "measure (\<lambda>(a, p, s). length s)") auto

definition re_findall :: "matcher \<Rightarrow> string \<Rightarrow> string list" where
  "re_findall a s = re_findall_from a None s"

subsection \<open>Searching is matching at some position\<close>

text \<open>The position after a prefix \<open>u\<close> of a text.\<close>

definition at_pos :: "char option \<Rightarrow> string \<Rightarrow> string \<Rightarrow> mstate" where
  "at_pos p u v = (if u = [] then p else Some (last u), v)"

lemma at_pos_Nil [simp]: "at_pos p [] v = (p, v)"
  by (simp add: at_pos_def)

lemma at_pos_Cons [simp]: "at_pos p (c # u) v = at_pos (Some c) u v"
  by (simp add: at_pos_def)

lemma re_search_from_iff:
  "re_search_from a p s \<noteq> None \<longleftrightarrow> (\<exists>u v. s = u @ v \<and> a (at_pos p u v) \<noteq> [])"
proof (induction a p s rule: re_search_from.induct)
  case (1 a p)
  then show ?case by (simp split: list.splits)
next
  case (2 a p c cs)
  show ?case
  proof (cases "a (p, c # cs)")
    case Nil
    have "(\<exists>u v. c # cs = u @ v \<and> a (at_pos p u v) \<noteq> []) \<longleftrightarrow>
        (\<exists>u v. cs = u @ v \<and> a (at_pos (Some c) u v) \<noteq> [])" (is "?l \<longleftrightarrow> ?r")
    proof
      assume ?l
      then obtain u v where uv: "c # cs = u @ v" "a (at_pos p u v) \<noteq> []" by blast
      with Nil obtain u' where "u = c # u'" by (cases u) auto
      with uv have "cs = u' @ v" "a (at_pos (Some c) u' v) \<noteq> []" by auto
      then show ?r by blast
    next
      assume ?r
      then obtain u v where "cs = u @ v" "a (at_pos (Some c) u v) \<noteq> []" by blast
      then have "c # cs = (c # u) @ v" "a (at_pos p (c # u) v) \<noteq> []" by auto
      then show ?l by blast
    qed
    then show ?thesis using 2 [OF Nil] Nil by simp
  next
    case (Cons m ms)
    then have "a (at_pos p [] (c # cs)) \<noteq> []" by simp
    then have "\<exists>u v. c # cs = u @ v \<and> a (at_pos p u v) \<noteq> []" by (metis append_Nil)
    then show ?thesis by (simp add: Cons)
  qed
qed

lemma re_search_iff:
  "re_search a s \<noteq> None \<longleftrightarrow> (\<exists>u v. s = u @ v \<and> a (at_pos None u v) \<noteq> [])"
  by (simp only: re_search_def re_search_from_iff)

lemma r_seq_nonempty: "r_seq a b m \<noteq> [] \<longleftrightarrow> (\<exists>e\<in>set (a m). b e \<noteq> [])"
  by (auto simp: r_seq_def)

lemma r_lit_set: "e \<in> set (r_lit w (p, s)) \<longleftrightarrow> (\<exists>v. s = w @ v \<and> e = at_pos p w v)"
proof (induction w arbitrary: p s)
  case (Cons c w)
  show ?case by (cases s) (auto simp: r_seq_def Cons)
qed auto

end
