(* ===== verification/Interpreter.thy ===== *)
theory Interpreter
  imports Sample Regex
begin

section \<open>Interpreter: from question text to a governed proposal\<close>

text \<open>
  \<open>services/interpreter.py\<close>: text normalisation, phrase matching, the deterministic interpreter
  over the tenant domain pack, and the composition with an untrusted language model, which is a
  parameter (the model service is not part of the repository).
\<close>

subsection \<open>Normalisation and phrase matching\<close>

definition kept_char :: "char \<Rightarrow> bool" where
  "kept_char c = (is_lower c \<or> is_digit c \<or> c = CHR ''%'' \<or> c = CHR ''_'' \<or> c = CHR ''-'')"

definition alnum :: "char \<Rightarrow> bool" where
  "alnum c = (is_lower c \<or> is_digit c)"

definition normalize_text :: "string \<Rightarrow> string" where
  "normalize_text v = py_join '' '' (py_split (sub_runs (\<lambda>c. \<not> kept_char c) '' '' (py_lower v)))"

fun phrase_body :: "string \<Rightarrow> matcher" where
  "phrase_body [] m = [m]"
| "phrase_body (c # cs) m =
     r_seq (if c = CHR '' '' then r_many1 is_ws else r_class (\<lambda>d. d = c)) (phrase_body cs) m"

definition phrase_pattern :: "string \<Rightarrow> matcher" where
  "phrase_pattern p = r_seq (r_not_behind alnum) (r_seq (phrase_body p) (r_not_ahead alnum))"

definition phrase_present :: "string \<Rightarrow> string \<Rightarrow> bool" where
  "phrase_present normalized phrase =
     (let p = normalize_text phrase
      in if p = [] then False else re_search (phrase_pattern p) normalized \<noteq> None)"

definition unique_preserving_order :: "string list \<Rightarrow> string list" where
  "unique_preserving_order vs = uniq_from [] vs"

definition replace_char :: "char \<Rightarrow> char \<Rightarrow> string \<Rightarrow> string" where
  "replace_char a b s = map (\<lambda>c. if c = a then b else c) s"

definition id_words :: "string \<Rightarrow> string" where
  "id_words i = replace_char (CHR ''_'') (CHR '' '') i"

subsection \<open>The deterministic interpreter\<close>

definition matched_phrase :: "string \<Rightarrow> string \<Rightarrow> string \<Rightarrow> string list \<Rightarrow> string option" where
  "matched_phrase normalized nm i aliases = List.find (phrase_present normalized) (nm # id_words i # aliases)"

definition metric_match :: "string \<Rightarrow> MetricDefinition \<Rightarrow> string option" where
  "metric_match n m = matched_phrase n (md_name m) (md_id m) (md_aliases m)"

definition entity_match :: "string \<Rightarrow> BusinessEntity \<Rightarrow> string option" where
  "entity_match n e = matched_phrase n (be_name e) (be_id e) (be_aliases e)"

definition domain_match :: "string \<Rightarrow> BusinessDomain \<Rightarrow> string option" where
  "domain_match n d = matched_phrase n (bd_name d) (bd_id d) (bd_aliases d)"

definition infer_intent :: "string \<Rightarrow> bool \<Rightarrow> bool \<Rightarrow> QuestionIntent" where
  "infer_intent n has_metric has_anchor =
     (if \<exists>t\<in>set [''why '', ''what caused'', ''driver'', ''contribute'']. str_contains t n then DRIVER_ANALYSIS
      else if \<exists>t\<in>set [''compare'', '' versus '', '' vs '', ''difference'']. str_contains t n then COMPARISON
      else if \<exists>t\<in>set [''trend'', ''over time'', ''changed'', ''change over'']. str_contains t n then TREND_ANALYSIS
      else if has_metric then METRIC_LOOKUP
      else if has_anchor then KNOWLEDGE_LOOKUP
      else UNKNOWN)"

definition infer_operation :: "string \<Rightarrow> string option" where
  "infer_operation n =
     (if str_contains ''sum of'' n \<or> starts_with ''sum '' n then Some ''SUM''
      else if str_contains ''average of'' n \<or> starts_with ''average '' n then Some ''AVERAGE''
      else if str_contains ''compare'' n \<or> str_contains '' versus '' n \<or> str_contains '' vs '' n
        then Some ''COMPARE''
      else if str_contains ''why '' n \<or> str_contains ''what caused'' n \<or> str_contains ''contribute'' n
        then Some ''EXPLAIN_DRIVERS''
      else None)"

text \<open>The doubles nearest to 0.9 and 0.25.\<close>

definition FL_0_9 :: pyfloat where "FL_0_9 = Fin (8106479329266893 / 9007199254740992)"
definition FL_0_25 :: pyfloat where "FL_0_25 = Fin (1 / 4)"

definition heuristic_interpret :: "string \<Rightarrow> TenantDomainPack \<Rightarrow> InterpretationResult" where
  "heuristic_interpret question pack =
     (let n = normalize_text question;
          ms = filter (\<lambda>m. metric_match n m \<noteq> None) (pk_metrics pack);
          es = filter (\<lambda>e. entity_match n e \<noteq> None) (pk_entities pack);
          ds = filter (\<lambda>d. domain_match n d \<noteq> None) (pk_domains pack);
          metric_ids = map md_id ms;
          entity_ids = map be_id es;
          domain_ids = map md_domain_id ms @ map be_domain_id es @ map bd_id ds;
          dimensions = map be_id (filter (\<lambda>e. phrase_present n (''by '' @ the (entity_match n e))) es);
          matched_terms = map (\<lambda>m. the (metric_match n m)) ms @ map (\<lambda>e. the (entity_match n e)) es
                            @ map (\<lambda>d. the (domain_match n d)) ds;
          adjs = filter (\<lambda>a. \<exists>ph\<in>set (ea_phrases a). phrase_present n ph) (pk_external_adjacencies pack);
          excl = filter (\<lambda>x. \<exists>ph\<in>set (ex_phrases x). phrase_present n ph) (pk_excluded_domains pack)
      in \<lparr>ir_proposal =
            \<lparr>ip_intent = infer_intent n (metric_ids \<noteq> []) (entity_ids \<noteq> [] \<or> domain_ids \<noteq> []),
             ip_metric_ids = unique_preserving_order metric_ids,
             ip_entity_ids = unique_preserving_order entity_ids,
             ip_domain_ids = unique_preserving_order domain_ids,
             ip_dimensions = unique_preserving_order dimensions,
             ip_external_topics = unique_preserving_order (map ea_name adjs),
             ip_ambiguous_terms = [],
             ip_operation = infer_operation n,
             ip_summary = ''Deterministic Domain Pack interpretation.'',
             ip_confidence = (if metric_ids \<noteq> [] \<or> entity_ids \<noteq> [] \<or> domain_ids \<noteq> []
                              then FL_0_9 else FL_0_25)\<rparr>,
          ir_mode = RULES,
          ir_adjacency_ids = map ea_id adjs,
          ir_exclusion_ids = map ex_id excl,
          ir_matched_terms = unique_preserving_order matched_terms,
          ir_warnings = []\<rparr>)"

subsection \<open>Composition with an untrusted model\<close>

datatype interpretation_error = InterpretationError string

type_synonym language_model = "string \<Rightarrow> TenantDomainPack \<Rightarrow> interpretation_error + InterpretationProposal"

text \<open>\<open>re.search(r"\b(?:by|per|across|for each)\s+(.+)", normalized).group(1)\<close>.\<close>

definition grouping_words :: matcher where
  "grouping_words = r_all [r_boundary,
     r_alt [r_lit ''by'', r_lit ''per'', r_lit ''across'', r_lit ''for each''], r_many1 is_ws]"

definition grouping_tail :: "string \<Rightarrow> string option" where
  "grouping_tail n = re_group grouping_words (r_many1 (\<lambda>c. c \<noteq> CHR 0x0A)) n"

definition grounded_dimension_ids :: "string \<Rightarrow> TenantDomainPack \<Rightarrow> string set" where
  "grounded_dimension_ids n pack =
     (case grouping_tail n of None \<Rightarrow> {}
      | Some g \<Rightarrow> be_id ` set (filter (\<lambda>e.
          \<exists>term\<in>set (id_words (be_id e) # be_name e # be_aliases e). phrase_present g term) (pk_entities pack)))"

definition governed_ids :: "string set \<Rightarrow> string list \<Rightarrow> string list" where
  "governed_ids valid vs = filter (\<lambda>v. v \<in> valid) (map py_upper vs)"

definition merge_proposals ::
  "string \<Rightarrow> TenantDomainPack \<Rightarrow> InterpretationResult \<Rightarrow> InterpretationProposal \<Rightarrow> InterpretationResult" where
  "merge_proposals question pack deterministic proposed =
     (let valid_metric_ids = md_id ` set (pk_metrics pack);
          valid_entity_ids = be_id ` set (pk_entities pack);
          valid_domain_ids = bd_id ` set (pk_domains pack);
          valid_dimension_ids = grounded_dimension_ids (normalize_text question) pack;
          rejected = (set (map py_upper (ip_metric_ids proposed)) - valid_metric_ids)
                   \<union> (set (map py_upper (ip_entity_ids proposed)) - valid_entity_ids)
                   \<union> (set (map py_upper (ip_domain_ids proposed)) - valid_domain_ids);
          warnings = ir_warnings deterministic @
            (if rejected \<noteq> {} then [''Rejected ungoverned model identifiers: ''
                                     @ py_join '', '' (py_sorted rejected)] else []);
          det = ir_proposal deterministic;
          anchored = ip_metric_ids det
      in \<lparr>ir_proposal =
            \<lparr>ip_intent = (if anchored \<noteq> [] \<or> ip_intent proposed = UNKNOWN then ip_intent det
                          else ip_intent proposed),
             ip_metric_ids = unique_preserving_order
               (if anchored \<noteq> [] then anchored else governed_ids valid_metric_ids (ip_metric_ids proposed)),
             ip_entity_ids = unique_preserving_order
               (ip_entity_ids det @ governed_ids valid_entity_ids (ip_entity_ids proposed)),
             ip_domain_ids = unique_preserving_order
               (ip_domain_ids det @ governed_ids valid_domain_ids (ip_domain_ids proposed)),
             ip_dimensions = unique_preserving_order
               (ip_dimensions det @ governed_ids valid_dimension_ids (ip_dimensions proposed)),
             ip_external_topics = ip_external_topics det,
             ip_ambiguous_terms = unique_preserving_order (ip_ambiguous_terms proposed),
             ip_operation = (if anchored \<noteq> [] then ip_operation det else ip_operation proposed),
             ip_summary = ip_summary proposed,
             ip_confidence = fl_max (ip_confidence det) (ip_confidence proposed)\<rparr>,
          ir_mode = OLLAMA_AND_RULES,
          ir_adjacency_ids = ir_adjacency_ids deterministic,
          ir_exclusion_ids = ir_exclusion_ids deterministic,
          ir_matched_terms = ir_matched_terms deterministic,
          ir_warnings = warnings\<rparr>)"

definition composite_interpret ::
  "language_model option \<Rightarrow> bool \<Rightarrow> string \<Rightarrow> TenantDomainPack \<Rightarrow> bool
     \<Rightarrow> interpretation_error + InterpretationResult" where
  "composite_interpret ollama required question pack use_llm =
     (let deterministic = heuristic_interpret question pack in
      if use_llm \<and> required \<and> ollama = None
        then Inl (InterpretationError ''The required interpretation provider is not configured'')
      else (case ollama of None \<Rightarrow> Inr deterministic
        | Some model \<Rightarrow>
          if \<not> use_llm then Inr deterministic
          else (case model question pack of
              Inl (InterpretationError msg) \<Rightarrow>
                if required then Inl (InterpretationError msg)
                else Inr (deterministic\<lparr>ir_mode := OLLAMA_FAILED_RULES_FALLBACK, ir_warnings := [msg]\<rparr>)
            | Inr proposed \<Rightarrow> Inr (merge_proposals question pack deterministic proposed))))"

subsection \<open>Normalised text\<close>

definition clean_word :: "string \<Rightarrow> bool" where
  "clean_word w \<longleftrightarrow> w \<noteq> [] \<and> (\<forall>c\<in>set w. kept_char c)"

definition clean_text :: "string \<Rightarrow> bool" where
  "clean_text t \<longleftrightarrow> (\<exists>ws. t = py_join '' '' ws \<and> (\<forall>w\<in>set ws. clean_word w))"

lemma kept_not_ws: "kept_char c \<Longrightarrow> \<not> is_ws c"
  by (auto simp: kept_char_def is_ws_def is_lower_def is_digit_def Let_def)

lemma space_not_kept: "\<not> kept_char (CHR '' '')" "is_ws (CHR '' '')"
  by (simp_all add: kept_char_def is_ws_def is_lower_def is_digit_def)

lemma kept_lower: "kept_char c \<Longrightarrow> lower_char c = c"
  by (auto simp: kept_char_def lower_char_def is_lower_def is_digit_def Let_def)

lemma sub_runs_chars: "c \<in> set (sub_runs P r s) \<Longrightarrow> (\<not> P c \<and> c \<in> set s) \<or> c \<in> set r"
  by (induction P r s rule: sub_runs.induct) (auto split: if_splits dest: set_dropWhileD)

lemma split_ws_chars: "w \<in> set (split_ws cur s) \<Longrightarrow> c \<in> set w \<Longrightarrow> c \<in> set cur \<or> c \<in> set s"
proof (induction cur s arbitrary: w rule: split_ws.induct)
  case (2 cur d cs)
  then show ?case by (cases "is_ws d"; cases "cur = []") fastforce+
qed (simp split: if_splits)

lemma clean_normalize_text: "clean_text (normalize_text v)"
proof -
  let ?s = "sub_runs (\<lambda>c. \<not> kept_char c) '' '' (py_lower v)"
  have "clean_word w" if w: "w \<in> set (py_split ?s)" for w
  proof -
    have "is_word w" using py_split_words [OF w] .
    moreover have "kept_char c \<or> c = CHR '' ''" if "c \<in> set w" for c
      using split_ws_chars [OF w [unfolded py_split_def] that] sub_runs_chars [of c] by fastforce
    ultimately show ?thesis
      using space_not_kept(2) by (auto simp: clean_word_def is_word_def)
  qed
  then show ?thesis unfolding clean_text_def normalize_text_def by blast
qed

lemma split_ws_word: "\<forall>c\<in>set w. \<not> is_ws c \<Longrightarrow> split_ws cur (w @ s) = split_ws (rev w @ cur) s"
  by (induction w arbitrary: cur) auto

lemma py_split_join:
  "\<forall>w\<in>set ws. clean_word w \<Longrightarrow> py_split (py_join '' '' ws) = ws"
proof (induction "'' ''" ws rule: py_join.induct)
  case (2 x)
  then have "\<forall>c\<in>set x. \<not> is_ws c" "x \<noteq> []" by (auto simp: clean_word_def kept_not_ws)
  then show ?case using split_ws_word [of x "[]" "[]"] by (simp add: py_split_def)
next
  case (3 x y zs)
  then have x: "\<forall>c\<in>set x. \<not> is_ws c" "x \<noteq> []" by (auto simp: clean_word_def kept_not_ws)
  then show ?case
    using 3 split_ws_word [OF x(1), of "[]" "'' '' @ py_join '' '' (y # zs)"] space_not_kept(2)
    by (simp add: py_split_def)
qed (simp add: py_split_def)

lemma sub_runs_kept: "\<forall>c\<in>set w. \<not> P c \<Longrightarrow> sub_runs P r (w @ s) = w @ sub_runs P r s"
  by (induction w) auto

lemma join_head_kept:
  "\<forall>w\<in>set (y # zs). clean_word w \<Longrightarrow> \<exists>c cs. py_join '' '' (y # zs) = c # cs \<and> kept_char c"
  by (cases zs; cases y) (auto simp: clean_word_def)

lemma sub_runs_clean:
  "\<forall>w\<in>set ws. clean_word w \<Longrightarrow>
    sub_runs (\<lambda>c. \<not> kept_char c) '' '' (py_join '' '' ws) = py_join '' '' ws"
proof (induction "'' ''" ws rule: py_join.induct)
  case (2 x)
  then show ?case using sub_runs_kept [of x "\<lambda>c. \<not> kept_char c" "'' ''" "[]"] by (auto simp: clean_word_def)
next
  case (3 x y zs)
  obtain c cs where j: "py_join '' '' (y # zs) = c # cs" "kept_char c"
    using join_head_kept [of y zs] 3(2) by auto
  have "\<forall>c\<in>set x. \<not> \<not> kept_char c" using 3(2) by (auto simp: clean_word_def)
  from sub_runs_kept [OF this, of "'' ''" "'' '' @ py_join '' '' (y # zs)"] show ?case
    using 3 j space_not_kept(1) by simp
qed simp

lemma join_chars: "c \<in> set (py_join '' '' ws) \<Longrightarrow> (\<exists>w\<in>set ws. c \<in> set w) \<or> c = CHR '' ''"
  by (induction "'' ''" ws rule: py_join.induct) auto

lemma lower_clean:
  assumes "\<forall>w\<in>set ws. clean_word w"
  shows "py_lower (py_join '' '' ws) = py_join '' '' ws"
  unfolding py_lower_def
proof (rule map_idI)
  fix c assume "c \<in> set (py_join '' '' ws)"
  then have "kept_char c \<or> c = CHR '' ''" using join_chars assms by (fastforce simp: clean_word_def)
  then show "lower_char c = c" using kept_lower by (auto simp: lower_char_def)
qed

lemma normalize_clean: "clean_text t \<Longrightarrow> normalize_text t = t"
  by (auto simp: clean_text_def normalize_text_def lower_clean sub_runs_clean py_split_join)

subsection \<open>Phrases in normalised text\<close>

fun single_spaced :: "string \<Rightarrow> bool" where
  "single_spaced [] = True"
| "single_spaced (c # cs) = ((is_ws c \<longrightarrow> c = CHR '' '' \<and> \<not> after_is is_ws (None, cs)) \<and> single_spaced cs)"

lemma single_spaced_word: "\<forall>c\<in>set w. \<not> is_ws c \<Longrightarrow> single_spaced (w @ s) = single_spaced s"
  by (induction w) auto

lemma single_spaced_suffix: "single_spaced (u @ v) \<Longrightarrow> single_spaced v"
  by (induction u) auto

lemma single_spaced_clean:
  "\<forall>w\<in>set ws. clean_word w \<Longrightarrow> single_spaced (py_join '' '' ws)"
proof (induction "'' ''" ws rule: py_join.induct)
  case (2 x)
  then show ?case using single_spaced_word [of x "[]"] by (auto simp: clean_word_def kept_not_ws)
next
  case (3 x y zs)
  obtain c cs where j: "py_join '' '' (y # zs) = c # cs" "kept_char c"
    using join_head_kept [of y zs] 3(2) by auto
  then have "\<not> after_is is_ws (None, py_join '' '' (y # zs))" by (simp add: after_is_def kept_not_ws)
  with 3 show ?case
    using single_spaced_word [of x "'' '' @ py_join '' '' (y # zs)"]
    by (auto simp: clean_word_def kept_not_ws)
qed simp

lemma many1_single:
  "single_spaced s \<Longrightarrow> r_many1 is_ws (x, s) =
    (case s of [] \<Rightarrow> [] | c # cs \<Rightarrow> if c = CHR '' '' then [(Some c, cs)] else [])"
proof (cases s)
  case (Cons c cs)
  have "r_many1_from is_ws cs = []" if "is_ws c" "single_spaced s"
    using that Cons by (cases cs) (simp_all add: after_is_def)
  then show "single_spaced s \<Longrightarrow> ?thesis"
    using Cons space_not_kept(2) by (cases "is_ws c") (auto simp: r_many1_def)
qed (simp add: r_many1_def)

lemma phrase_body_set:
  "single_spaced s \<Longrightarrow> e \<in> set (phrase_body p (x, s)) \<longleftrightarrow> (\<exists>v. s = p @ v \<and> e = at_pos x p v)"
proof (induction p arbitrary: x s)
  case (Cons c p)
  show ?case
  proof (cases s)
    case Nil
    then show ?thesis by (simp add: r_seq_def r_many1_def)
  next
    case (Cons d cs)
    then have "single_spaced cs" using Cons.prems by simp
    then show ?thesis
      using Cons.prems Cons.IH [of cs "Some d"] Cons many1_single [of s x]
      by (cases "c = CHR '' ''") (auto simp: r_seq_def)
  qed
qed auto

lemma phrase_present_iff:
  "phrase_present (normalize_text q) phrase \<longleftrightarrow>
    (let p = normalize_text phrase in p \<noteq> [] \<and>
      (\<exists>u v. normalize_text q = u @ p @ v \<and> (u = [] \<or> \<not> alnum (last u)) \<and> (v = [] \<or> \<not> alnum (hd v))))"
proof -
  let ?n = "normalize_text q" and ?p = "normalize_text phrase"
  obtain ws where "?n = py_join '' '' ws" "\<forall>w\<in>set ws. clean_word w"
    using clean_normalize_text [of q] by (auto simp: clean_text_def)
  then have single: "single_spaced ?n" using single_spaced_clean by auto
  have pat: "phrase_pattern ?p (at_pos None u s) \<noteq> [] \<longleftrightarrow>
      (u = [] \<or> \<not> alnum (last u)) \<and> (\<exists>v. s = ?p @ v \<and> (v = [] \<or> \<not> alnum (hd v)))"
    if "?n = u @ s" for u s
  proof -
    have "single_spaced s" using single that by (metis single_spaced_suffix)
    note body = phrase_body_set [OF this, of _ ?p]
    have "phrase_pattern ?p (at_pos None u s) \<noteq> [] \<longleftrightarrow> \<not> before_is alnum (at_pos None u s)
        \<and> (\<exists>e\<in>set (phrase_body ?p (at_pos None u s)). \<not> after_is alnum e)"
      by (auto simp: phrase_pattern_def r_seq_nonempty r_not_behind_def r_not_ahead_def)
    also have "\<dots> \<longleftrightarrow> (u = [] \<or> \<not> alnum (last u)) \<and> (\<exists>v. s = ?p @ v \<and> (v = [] \<or> \<not> alnum (hd v)))"
    proof -
      have "\<not> after_is alnum (at_pos x p v) \<longleftrightarrow> v = [] \<or> \<not> alnum (hd v)" for x p v
        by (cases v) (simp_all add: after_is_def at_pos_def)
      moreover have "\<not> before_is alnum (at_pos None u s) \<longleftrightarrow> u = [] \<or> \<not> alnum (last u)"
        by (simp add: before_is_def at_pos_def)
      ultimately show ?thesis using body by (auto simp: at_pos_def Bex_def)
    qed
    finally show ?thesis .
  qed
  have "re_search (phrase_pattern ?p) ?n \<noteq> None \<longleftrightarrow>
      (\<exists>u s. ?n = u @ s \<and> phrase_pattern ?p (at_pos None u s) \<noteq> [])"
    by (rule re_search_iff)
  also have "\<dots> \<longleftrightarrow> (\<exists>u v. ?n = u @ ?p @ v \<and> (u = [] \<or> \<not> alnum (last u)) \<and> (v = [] \<or> \<not> alnum (hd v)))"
    using pat by blast
  finally show ?thesis unfolding phrase_present_def Let_def by simp
qed

subsection \<open>Interpretations are governed by the pack\<close>

text \<open>Every identifier of an interpretation names something in the pack, without repetition.\<close>

definition governed :: "TenantDomainPack \<Rightarrow> InterpretationResult \<Rightarrow> bool" where
  "governed p r \<longleftrightarrow>
     set (ip_metric_ids (ir_proposal r)) \<subseteq> md_id ` set (pk_metrics p)
     \<and> set (ip_entity_ids (ir_proposal r)) \<subseteq> be_id ` set (pk_entities p)
     \<and> set (ip_domain_ids (ir_proposal r)) \<subseteq> bd_id ` set (pk_domains p)
     \<and> set (ip_dimensions (ir_proposal r)) \<subseteq> be_id ` set (pk_entities p)
     \<and> set (ir_adjacency_ids r) \<subseteq> ea_id ` set (pk_external_adjacencies p)
     \<and> set (ir_exclusion_ids r) \<subseteq> ex_id ` set (pk_excluded_domains p)
     \<and> distinct (ip_metric_ids (ir_proposal r)) \<and> distinct (ip_entity_ids (ir_proposal r))
     \<and> distinct (ip_domain_ids (ir_proposal r)) \<and> distinct (ip_dimensions (ir_proposal r))"

lemma unique_preserving_order_set [simp]: "set (unique_preserving_order xs) = set xs"
  by (simp add: unique_preserving_order_def set_uniq_from)

lemma unique_preserving_order_distinct [simp]: "distinct (unique_preserving_order xs)"
  by (simp add: unique_preserving_order_def distinct_uniq_from)

lemma unique_preserving_order_Nil [simp]: "unique_preserving_order xs = [] \<longleftrightarrow> xs = []"
  by (simp add: unique_preserving_order_def uniq_from_Nil_iff)

lemma governed_ids_set [simp]: "set (governed_ids V vs) = V \<inter> py_upper ` set vs"
  by (auto simp: governed_ids_def)

lemma pack_wf_domains:
  assumes "pack_wf p"
  shows "md_domain_id ` set (pk_metrics p) \<subseteq> bd_id ` set (pk_domains p)"
    and "be_domain_id ` set (pk_entities p) \<subseteq> bd_id ` set (pk_domains p)"
  using assms by (auto simp: pack_wf_def metric_ok_def)

lemma heuristic_governed:
  assumes "pack_wf p"
  shows "governed p (heuristic_interpret q p)"
  using pack_wf_domains [OF assms] by (auto simp: governed_def heuristic_interpret_def Let_def)

lemma grounded_dimension_ids_subset: "grounded_dimension_ids n p \<subseteq> be_id ` set (pk_entities p)"
  by (auto simp: grounded_dimension_ids_def split: option.splits)

lemma merge_governed:
  assumes "governed p d"
  shows "governed p (merge_proposals q p d m)"
  using assms grounded_dimension_ids_subset [of "normalize_text q" p]
  by (auto simp: governed_def merge_proposals_def Let_def)

lemma governed_mode [simp]: "governed p (r\<lparr>ir_mode := m, ir_warnings := w\<rparr>) = governed p r"
  by (simp add: governed_def)

locale question_interpreter =
  fixes interp :: "string \<Rightarrow> TenantDomainPack \<Rightarrow> bool \<Rightarrow> interpretation_error + InterpretationResult"
  assumes interp_governed: "pack_wf p \<Longrightarrow> interp q p u = Inr r \<Longrightarrow> governed p r"
begin

lemma metrics_resolve:
  assumes "pack_wf p" "interp q p u = Inr r"
  shows "lookup_all (dict_of md_id (pk_metrics p)) (ip_metric_ids (ir_proposal r)) =
    Inr (map (\<lambda>i. the (dict_of md_id (pk_metrics p) i)) (ip_metric_ids (ir_proposal r)))"
  using interp_governed [OF assms] by (intro lookup_all_ok) (auto simp: governed_def dom_dict_of)

lemma entities_resolve:
  assumes "pack_wf p" "interp q p u = Inr r"
  shows "lookup_all (dict_of be_id (pk_entities p)) (ip_entity_ids (ir_proposal r)) =
    Inr (map (\<lambda>i. the (dict_of be_id (pk_entities p) i)) (ip_entity_ids (ir_proposal r)))"
  using interp_governed [OF assms] by (intro lookup_all_ok) (auto simp: governed_def dom_dict_of)

end

lemma composite_governed:
  assumes "pack_wf p" "composite_interpret ollama required q p u = Inr r"
  shows "governed p r"
  using assms heuristic_governed [OF assms(1), of q] merge_governed [OF heuristic_governed [OF assms(1)]]
  by (auto simp: composite_interpret_def Let_def
      split: if_splits option.splits sum.splits interpretation_error.splits)

interpretation rules: question_interpreter "\<lambda>q p u. Inr (heuristic_interpret q p)"
  by unfold_locales (auto simp: heuristic_governed)

interpretation composite: question_interpreter "composite_interpret ollama required" for ollama required
  by unfold_locales (rule composite_governed)

subsection \<open>Properties\<close>

text \<open>Normalised text is words over lower-case letters, digits, percent, underscore and hyphen, joined
  by single spaces, and normalising it again changes nothing.\<close>

theorem normalize_text_canonical:
  "clean_text (normalize_text v) \<and> normalize_text (normalize_text v) = normalize_text v"
  using clean_normalize_text [of v] normalize_clean by simp

text \<open>A position in a text at which no alphanumeric run is cut.\<close>

definition token_boundaries :: "string \<Rightarrow> string \<Rightarrow> bool" where
  "token_boundaries u v = (\<not> (u \<noteq> [] \<and> alnum (last u)) \<and> \<not> (v \<noteq> [] \<and> alnum (hd v)))"

text \<open>On a normalised question the phrase regular expression is exact: it matches precisely when the
  normalised phrase is non-empty and occurs as a substring that cuts no alphanumeric run.\<close>

theorem phrase_present_exact:
  "phrase_present (normalize_text q) phrase =
    (normalize_text phrase \<noteq> [] \<and>
      (\<exists>u v. normalize_text q = u @ normalize_text phrase @ v \<and> token_boundaries u v))"
  by (auto simp: phrase_present_iff Let_def token_boundaries_def)

text \<open>Whatever the language model proposes, every metric, entity, domain, dimension, adjacency and
  exclusion identifier of the composed interpretation is one the tenant's pack defines, without
  repetition.\<close>

theorem composite_only_governed_ids:
  "pack_wf p \<Longrightarrow> composite_interpret model required q p use_llm = Inr r \<Longrightarrow> governed p r"
  by (rule composite.interp_governed)

definition rogue_proposal :: InterpretationProposal where
  "rogue_proposal = \<lparr>ip_intent = METRIC_LOOKUP, ip_metric_ids = [''mobile_activations'', ''SALARIES''],
     ip_entity_ids = [''EMPLOYEE''], ip_domain_ids = [''HR''], ip_dimensions = [''REGION''],
     ip_external_topics = [], ip_ambiguous_terms = [], ip_operation = None, ip_summary = [],
     ip_confidence = FL_0_9\<rparr>"

theorem composite_only_governed_ids_witness:
  "governed demo_pack (merge_proposals ''new lines'' demo_pack (heuristic_interpret ''new lines'' demo_pack) rogue_proposal)"
  by (rule composite_only_governed_ids [OF demo_pack_wf, of "Some (\<lambda>q p. Inr rogue_proposal)" False "''new lines''" True])
     (simp add: composite_interpret_def)

text \<open>What the deterministic reading found is not displaced by a model.\<close>

definition keeps_reading :: "InterpretationResult \<Rightarrow> InterpretationResult \<Rightarrow> bool" where
  "keeps_reading d r \<longleftrightarrow>
     ip_metric_ids (ir_proposal r) = ip_metric_ids (ir_proposal d)
     \<and> ip_intent (ir_proposal r) = ip_intent (ir_proposal d)
     \<and> ip_operation (ir_proposal r) = ip_operation (ir_proposal d)
     \<and> set (ip_entity_ids (ir_proposal d)) \<subseteq> set (ip_entity_ids (ir_proposal r))
     \<and> set (ip_dimensions (ir_proposal d)) \<subseteq> set (ip_dimensions (ir_proposal r))
     \<and> ir_exclusion_ids r = ir_exclusion_ids d \<and> ir_adjacency_ids r = ir_adjacency_ids d"

lemma heuristic_distinct: "distinct (ip_metric_ids (ir_proposal (heuristic_interpret q p)))"
  by (simp add: heuristic_interpret_def Let_def)

lemma unique_preserving_order_id: "distinct xs \<Longrightarrow> unique_preserving_order xs = xs"
  by (simp add: unique_preserving_order_def uniq_from_id)

lemma merge_keeps_reading:
  assumes "ip_metric_ids (ir_proposal (heuristic_interpret q p)) \<noteq> []"
  shows "keeps_reading (heuristic_interpret q p) (merge_proposals q p (heuristic_interpret q p) m)"
  using assms heuristic_distinct [of q p]
  by (simp add: keeps_reading_def merge_proposals_def Let_def unique_preserving_order_id)

text \<open>When the pack's own phrases identify a metric in the question, no language model can replace
  the metrics, the intent or the operation read from the text, nor drop an entity or dimension.\<close>

theorem model_cannot_displace_rules:
  assumes "ip_metric_ids (ir_proposal (heuristic_interpret q p)) \<noteq> []"
    and "composite_interpret model required q p use_llm = Inr r"
  shows "keeps_reading (heuristic_interpret q p) r"
  using assms merge_keeps_reading [OF assms(1)]
  by (auto simp: composite_interpret_def Let_def keeps_reading_def
      split: if_splits option.splits sum.splits interpretation_error.splits)

lemma activations_matched: "metric_match (normalize_text ''mobile activations'') activations \<noteq> None"
  by code_simp

theorem model_cannot_displace_rules_witness:
  "keeps_reading (heuristic_interpret ''mobile activations'' demo_pack)
     (merge_proposals ''mobile activations'' demo_pack (heuristic_interpret ''mobile activations'' demo_pack) rogue_proposal)"
proof (rule model_cannot_displace_rules)
  show "ip_metric_ids (ir_proposal (heuristic_interpret ''mobile activations'' demo_pack)) \<noteq> []"
    using activations_matched by (auto simp: heuristic_interpret_def Let_def demo_pack_def)
  show "composite_interpret (Some (\<lambda>q p. Inr rogue_proposal)) False ''mobile activations'' demo_pack True =
      Inr (merge_proposals ''mobile activations'' demo_pack (heuristic_interpret ''mobile activations'' demo_pack) rogue_proposal)"
    by (simp add: composite_interpret_def)
qed

text \<open>The terms of a dimension, and being named in the grouping clause of the question.\<close>

definition dimension_grounded :: "string \<Rightarrow> TenantDomainPack \<Rightarrow> string \<Rightarrow> bool" where
  "dimension_grounded q p d \<longleftrightarrow> (\<exists>e\<in>set (pk_entities p). be_id e = d \<and>
     (\<exists>t\<in>set (id_words (be_id e) # be_name e # be_aliases e).
        phrase_present (normalize_text q) (''by '' @ t)
        \<or> (\<exists>g. grouping_tail (normalize_text q) = Some g \<and> phrase_present g t)))"

lemma matched_phrase_in: "matched_phrase n nm i al = Some t \<Longrightarrow> t \<in> set (id_words i # nm # al)"
  by (auto simp: matched_phrase_def simp del: List.find.simps dest!: find_SomeD)

lemma heuristic_grounded:
  assumes "d \<in> set (ip_dimensions (ir_proposal (heuristic_interpret q p)))"
  shows "dimension_grounded q p d"
proof -
  from assms obtain e t where "e \<in> set (pk_entities p)" "be_id e = d"
    "entity_match (normalize_text q) e = Some t" "phrase_present (normalize_text q) (''by '' @ t)"
    by (auto simp: heuristic_interpret_def Let_def)
  with matched_phrase_in [of "normalize_text q" "be_name e" "be_id e" "be_aliases e" t] show ?thesis
    unfolding dimension_grounded_def entity_match_def by blast
qed

lemma grounded_ids_grounded:
  "d \<in> grounded_dimension_ids (normalize_text q) p \<Longrightarrow> dimension_grounded q p d"
  unfolding grounded_dimension_ids_def dimension_grounded_def by (fastforce split: option.splits)

text \<open>Grouping is grounded in the user's words: a dimension enters the interpretation only when one of
  its terms occurs after \<open>by\<close> in the question or inside its grouping clause; a model cannot add a
  breakdown nobody asked for.\<close>

theorem dimensions_grounded_in_question:
  assumes "composite_interpret model required q p use_llm = Inr r" "d \<in> set (ip_dimensions (ir_proposal r))"
  shows "dimension_grounded q p d"
proof (cases "d \<in> set (ip_dimensions (ir_proposal (heuristic_interpret q p)))")
  case False
  then have "d \<in> grounded_dimension_ids (normalize_text q) p"
    using assms by (auto simp: composite_interpret_def merge_proposals_def Let_def
        split: if_splits option.splits sum.splits interpretation_error.splits)
  then show ?thesis by (rule grounded_ids_grounded)
qed (rule heuristic_grounded)

lemma activations_by_region_grouping: "''REGION'' \<in> grounded_dimension_ids (normalize_text ''sales by region'') demo_pack"
  by code_simp

theorem dimensions_grounded_in_question_witness:
  "dimension_grounded ''sales by region'' demo_pack ''REGION''"
proof (rule dimensions_grounded_in_question)
  show "composite_interpret (Some (\<lambda>q p. Inr rogue_proposal)) False ''sales by region'' demo_pack True =
      Inr (merge_proposals ''sales by region'' demo_pack (heuristic_interpret ''sales by region'' demo_pack) rogue_proposal)"
    by (simp add: composite_interpret_def)
  have "py_upper ''REGION'' = ''REGION''" by code_simp
  then show "''REGION'' \<in> set (ip_dimensions (ir_proposal
      (merge_proposals ''sales by region'' demo_pack (heuristic_interpret ''sales by region'' demo_pack) rogue_proposal)))"
    using activations_by_region_grouping by (simp add: merge_proposals_def Let_def rogue_proposal_def)
qed

end
