(* ===== verification/Admissibility.thy ===== *)
theory Admissibility
  imports Interpreter Policy Sample
begin

section \<open>Admissibility: the verdict on a question\<close>

text \<open>
  \<open>services/admissibility.py\<close>.  \<open>evaluate\<close> is a chain of stages, each of which may settle the
  verdict; a settled verdict is a \<open>ruling\<close>, from which the decision is built.  The interpreter is an
  argument, as in the constructor of the engine.
\<close>

record ruling =
  rl_verdict :: QuestionVerdict
  rl_authorization :: AuthorizationStatus
  rl_data_status :: DataStatus
  rl_reason_codes :: "string list"
  rl_user_message :: string
  rl_next_action :: string

datatype evaluation_error = Interpretation interpretation_error | Raised py_exc

type_synonym interpreter =
  "string \<Rightarrow> TenantDomainPack \<Rightarrow> bool \<Rightarrow> interpretation_error + InterpretationResult"

subsection \<open>Analytic validity\<close>

text \<open>The three patterns: \<open>\bsum\s+(?:of\s+)?(?:the\s+)?(?:churn|conversion|rate|percentages?)\b\<close>,
  \<open>\badd\s+(?:the\s+)?(?:churn|conversion|rates?|percentages?)\b\<close> and
  \<open>\baverage\s+(?:of\s+)?percentages?\b\<close>.\<close>

definition r_spaces :: matcher where "r_spaces = r_many1 is_ws"

definition r_optional_word :: "string \<Rightarrow> matcher" where
  "r_optional_word w = r_opt (r_seq (r_lit w) r_spaces)"

definition r_percentages :: matcher where
  "r_percentages = r_seq (r_lit ''percentage'') (r_opt (r_lit ''s''))"

definition sum_pattern :: matcher where
  "sum_pattern = r_all [r_boundary, r_lit ''sum'', r_spaces, r_optional_word ''of'', r_optional_word ''the'',
     r_alt [r_lit ''churn'', r_lit ''conversion'', r_lit ''rate'', r_percentages], r_boundary]"

definition add_pattern :: matcher where
  "add_pattern = r_all [r_boundary, r_lit ''add'', r_spaces, r_optional_word ''the'',
     r_alt [r_lit ''churn'', r_lit ''conversion'', r_seq (r_lit ''rate'') (r_opt (r_lit ''s'')), r_percentages],
     r_boundary]"

definition average_pattern :: matcher where
  "average_pattern = r_all [r_boundary, r_lit ''average'', r_spaces, r_optional_word ''of'', r_percentages, r_boundary]"

definition invalid_analytic_reason :: "string \<Rightarrow> string option \<Rightarrow> string option" where
  "invalid_analytic_reason question requested =
     (let n = normalize_text question in
      if \<exists>p\<in>set [sum_pattern, add_pattern, average_pattern]. re_search p n \<noteq> None
        then Some ''INVALID_NON_ADDITIVE_METRIC_AGGREGATION''
      else if requested = Some ''SUM''
           \<and> (\<exists>t\<in>set [''churn'', ''conversion'', ''rate'', ''percentage'']. str_contains t n)
        then Some ''INVALID_NON_ADDITIVE_METRIC_AGGREGATION''
      else None)"

definition validity_stage :: "string \<Rightarrow> InterpretationProposal \<Rightarrow> ruling option" where
  "validity_stage question pr =
     (case invalid_analytic_reason question (ip_operation pr) of
        Some reason \<Rightarrow> Some
          \<lparr>rl_verdict = INVALID_ANALYTIC_REQUEST, rl_authorization = AUTH_ALLOWED,
           rl_data_status = NOT_REQUIRED, rl_reason_codes = [reason],
           rl_user_message = ''The requested calculation is not analytically valid under the governed metric rules. Reformulate the question using an approved aggregation or comparison.'',
           rl_next_action = ''CLARIFY_ANALYTIC_OPERATION''\<rparr>
      | None \<Rightarrow>
          if ip_ambiguous_terms pr \<noteq> [] then Some
            \<lparr>rl_verdict = CLARIFY, rl_authorization = AUTH_ALLOWED, rl_data_status = NOT_REQUIRED,
             rl_reason_codes = [''AMBIGUOUS_BUSINESS_TERMS''],
             rl_user_message = ''The question contains business terms with more than one governed meaning: ''
               @ py_join '', '' (ip_ambiguous_terms pr) @ ''.'',
             rl_next_action = ''REQUEST_TARGETED_CLARIFICATION''\<rparr>
          else None)"

subsection \<open>Anchors\<close>

definition anchor_ids :: "string list list \<Rightarrow> string list" where
  "anchor_ids groups = uniq_from [] (concat groups)"

definition proposal_anchors :: "InterpretationProposal \<Rightarrow> string list" where
  "proposal_anchors pr = anchor_ids [ip_metric_ids pr, ip_entity_ids pr, ip_domain_ids pr]"

definition anchor_stage :: "TenantDomainPack \<Rightarrow> InterpretationResult \<Rightarrow> ruling option" where
  "anchor_stage pack ir =
     (if proposal_anchors (ir_proposal ir) \<noteq> [] then None
      else if ir_exclusion_ids ir \<noteq> [] then
        (let exclusions = filter (\<lambda>x. ex_id x \<in> set (ir_exclusion_ids ir)) (pk_excluded_domains pack);
             explanation = (case exclusions of x # xs \<Rightarrow> ex_explanation x | [] \<Rightarrow> ''No business anchor exists.'')
         in Some \<lparr>rl_verdict = OUT_OF_DOMAIN, rl_authorization = AUTH_ALLOWED, rl_data_status = NOT_REQUIRED,
              rl_reason_codes = [''EXPLICIT_DOMAIN_EXCLUSION'', ''NO_INTERNAL_DOMAIN_ANCHOR''],
              rl_user_message = explanation,
              rl_next_action = ''STOP_OR_REPHRASE_WITH_INTERNAL_BUSINESS_ANCHOR''\<rparr>)
      else Some \<lparr>rl_verdict = OUT_OF_DOMAIN, rl_authorization = AUTH_ALLOWED, rl_data_status = NOT_REQUIRED,
              rl_reason_codes = [''NO_INTERNAL_DOMAIN_ANCHOR''],
              rl_user_message = ''This Talk2Data environment is configured for '' @ pk_industry pack
                @ '' and could not map the question to an approved business metric, entity, process, or domain.'',
              rl_next_action = ''STOP_OR_REPHRASE_WITH_INTERNAL_BUSINESS_ANCHOR''\<rparr>)"

subsection \<open>Authorization of the requested scope\<close>

definition deny_ruling :: "string list \<Rightarrow> string \<Rightarrow> ruling" where
  "deny_ruling codes msg =
     \<lparr>rl_verdict = DENY, rl_authorization = AUTH_DENIED, rl_data_status = NOT_REQUIRED,
      rl_reason_codes = codes, rl_user_message = msg, rl_next_action = ''STOP''\<rparr>"

definition classification_stage :: "AccessContext \<Rightarrow> MetricDefinition list \<Rightarrow> BusinessEntity list
    \<Rightarrow> BusinessDomain list \<Rightarrow> ruling option" where
  "classification_stage ctx metrics entities domains =
     (let required = map md_classification metrics @ map be_classification entities
                       @ map bd_classification domains;
          denied = filter (\<lambda>d. \<not> allowed d) (map (can_access_classification ctx) required)
      in if denied = [] then None
         else Some (deny_ruling (concat (map pd_reason_codes denied) @ [''RESOURCE_CLASSIFICATION_DENIED''])
                ''You are not authorized to access the requested business scope.''))"

definition valid_external_adjacencies ::
  "TenantDomainPack \<Rightarrow> InterpretationResult \<Rightarrow> string set \<Rightarrow> string set \<Rightarrow> string list" where
  "valid_external_adjacencies pack ir metric_ids entity_ids =
     map ea_id (filter (\<lambda>a. ea_id a \<in> set (ir_adjacency_ids ir)
        \<and> (metric_ids \<inter> set (ea_anchor_metric_ids a) \<noteq> {}
           \<or> entity_ids \<inter> set (ea_anchor_entity_ids a) \<noteq> {})) (pk_external_adjacencies pack))"

definition external_stage :: "AccessContext \<Rightarrow> string list \<Rightarrow> ruling option" where
  "external_stage ctx external_ids =
     (if external_ids \<noteq> [] \<and> \<not> allowed (can_use_external_context ctx)
      then Some (deny_ruling (pd_reason_codes (can_use_external_context ctx))
             ''You are not authorized to use external context for this analysis.'')
      else None)"

definition source_stage :: "AccessContext \<Rightarrow> MetricDefinition list \<Rightarrow> ruling option" where
  "source_stage ctx metrics =
     (if metrics = [] then None
      else if \<not> allowed (can_read_data ctx)
        then Some (deny_ruling (pd_reason_codes (can_read_data ctx))
               ''You are not authorized to query the requested data scope.'')
      else (let statuses = set (map (\<lambda>m. ds_status (md_source m)) metrics) in
        if SRC_NOT_READY \<in> statuses then Some
          \<lparr>rl_verdict = SOURCE_NOT_READY, rl_authorization = AUTH_ALLOWED, rl_data_status = DATA_NOT_READY,
           rl_reason_codes = [''GOVERNED_SOURCE_NOT_READY''],
           rl_user_message = ''The question is valid, but at least one governed source is not ready for a certified answer.'',
           rl_next_action = ''WAIT_FOR_SOURCE_OR_SELECT_LAST_CERTIFIED_PERIOD''\<rparr>
        else if SRC_UNAVAILABLE \<in> statuses then Some
          \<lparr>rl_verdict = VALID_NO_SOURCE, rl_authorization = AUTH_ALLOWED, rl_data_status = NOT_CONNECTED,
           rl_reason_codes = [''VALID_BUSINESS_QUESTION'', ''NO_CONNECTED_GOVERNED_SOURCE''],
           rl_user_message = ''The question is valid for this business, but no governed source is currently connected for the requested metric.'',
           rl_next_action = ''REGISTER_OR_CONNECT_GOVERNED_SOURCE''\<rparr>
        else None))"

definition accept_stage :: "AccessContext \<Rightarrow> MetricDefinition list \<Rightarrow> string list \<Rightarrow> ruling" where
  "accept_stage ctx metrics external_ids =
     (if external_ids \<noteq> [] then
        \<lparr>rl_verdict = ACCEPT_EXTERNAL_AUGMENTED, rl_authorization = AUTH_ALLOWED,
         rl_data_status = (if metrics \<noteq> [] then DATA_AVAILABLE else PARTIALLY_AVAILABLE),
         rl_reason_codes = [''INTERNAL_DOMAIN_ANCHOR_FOUND'', ''APPROVED_EXTERNAL_ADJACENCY_FOUND'']
           @ map (\<lambda>v. ''EXTERNAL_ADJACENCY_'' @ v) external_ids,
         rl_user_message = ''The question has an approved internal business anchor and may use governed external context as supporting evidence.'',
         rl_next_action = ''BUILD_INTERNAL_FIRST_INVESTIGATION_PLAN''\<rparr>
      else if metrics \<noteq> [] then
        \<lparr>rl_verdict = ACCEPT_INTERNAL, rl_authorization = AUTH_ALLOWED, rl_data_status = DATA_AVAILABLE,
         rl_reason_codes = [''INTERNAL_DOMAIN_ANCHOR_FOUND'', ''GOVERNED_SOURCE_AVAILABLE''],
         rl_user_message = ''The question is valid and can proceed to governed internal-data planning.'',
         rl_next_action = ''BUILD_CERTIFIED_DATA_QUERY_PLAN''\<rparr>
      else if \<not> allowed (can_read_memory ctx)
        then deny_ruling (pd_reason_codes (can_read_memory ctx))
               ''You are not authorized to retrieve organizational knowledge.''
      else
        \<lparr>rl_verdict = ACCEPT_KNOWLEDGE, rl_authorization = AUTH_ALLOWED, rl_data_status = NOT_REQUIRED,
         rl_reason_codes = [''INTERNAL_DOMAIN_ANCHOR_FOUND'', ''KNOWLEDGE_RETRIEVAL_ALLOWED''],
         rl_user_message = ''The question is valid and can proceed to governed knowledge retrieval.'',
         rl_next_action = ''BUILD_AUTHORIZED_MEMORY_RETRIEVAL_PLAN''\<rparr>)"

subsection \<open>The decision and the whole evaluation\<close>

definition make_decision :: "uuid \<Rightarrow> instant \<Rightarrow> QuestionRequest \<Rightarrow> TenantDomainPack \<Rightarrow> ruling
    \<Rightarrow> QuestionIntent \<Rightarrow> InterpretationResult option \<Rightarrow> QuestionDecision" where
  "make_decision fresh_id now req pack rl intent iro =
     (let pr = map_option ir_proposal iro;
          ids = (\<lambda>f. case pr of None \<Rightarrow> [] | Some p \<Rightarrow> f p)
      in \<lparr>qd_decision_id = fresh_id,
          qd_created_at = now,
          qd_tenant_id = ac_tenant_id (qr_access req),
          qd_user_id = ac_user_id (qr_access req),
          qd_verdict = rl_verdict rl,
          qd_intent = intent,
          qd_anchor_ids = ids proposal_anchors,
          qd_metric_ids = ids ip_metric_ids,
          qd_entity_ids = ids ip_entity_ids,
          qd_dimension_ids = ids ip_dimensions,
          qd_external_topics = ids ip_external_topics,
          qd_unresolved_terms = ids ip_ambiguous_terms,
          qd_authorization = rl_authorization rl,
          qd_data_status = rl_data_status rl,
          qd_reason_codes = rl_reason_codes rl,
          qd_user_message = rl_user_message rl,
          qd_next_action = rl_next_action rl,
          qd_pack_version = pk_version pack,
          qd_mode = (case iro of None \<Rightarrow> RULES | Some r \<Rightarrow> ir_mode r),
          qd_warnings = (case iro of None \<Rightarrow> [] | Some r \<Rightarrow> ir_warnings r)\<rparr>)"

text \<open>The stages after the identifiers have been resolved to definitions.\<close>

definition resolved_ruling :: "AccessContext \<Rightarrow> TenantDomainPack \<Rightarrow> InterpretationResult
    \<Rightarrow> MetricDefinition list \<Rightarrow> BusinessEntity list \<Rightarrow> BusinessDomain list \<Rightarrow> ruling" where
  "resolved_ruling ctx pack ir metrics entities domains =
     (case anchor_stage pack ir of Some r \<Rightarrow> r | None \<Rightarrow>
      (case classification_stage ctx metrics entities domains of Some r \<Rightarrow> r | None \<Rightarrow>
       (let pr = ir_proposal ir;
            external_ids = valid_external_adjacencies pack ir (set (ip_metric_ids pr)) (set (ip_entity_ids pr))
        in case external_stage ctx external_ids of Some r \<Rightarrow> r | None \<Rightarrow>
          (case source_stage ctx metrics of Some r \<Rightarrow> r | None \<Rightarrow> accept_stage ctx metrics external_ids))))"

definition interpretation_ruling ::
  "AccessContext \<Rightarrow> string \<Rightarrow> TenantDomainPack \<Rightarrow> InterpretationResult \<Rightarrow> py_exc + ruling" where
  "interpretation_ruling ctx question pack ir =
     (let pr = ir_proposal ir in
      case validity_stage question pr of Some r \<Rightarrow> Inr r
      | None \<Rightarrow>
        (case lookup_all (dict_of md_id (pk_metrics pack)) (ip_metric_ids pr) of Inl e \<Rightarrow> Inl e
         | Inr metrics \<Rightarrow>
           (case lookup_all (dict_of be_id (pk_entities pack)) (ip_entity_ids pr) of Inl e \<Rightarrow> Inl e
            | Inr entities \<Rightarrow>
              (case lookup_all (dict_of bd_id (pk_domains pack)) (ip_domain_ids pr) of Inl e \<Rightarrow> Inl e
               | Inr domains \<Rightarrow> Inr (resolved_ruling ctx pack ir metrics entities domains)))))"

definition evaluate :: "interpreter \<Rightarrow> uuid \<Rightarrow> instant \<Rightarrow> QuestionRequest \<Rightarrow> TenantDomainPack
    \<Rightarrow> evaluation_error + QuestionDecision" where
  "evaluate interp fresh_id now req pack =
     (let ctx = qr_access req in
      if \<not> allowed (can_ask ctx)
        then Inr (make_decision fresh_id now req pack
               (deny_ruling (pd_reason_codes (can_ask ctx))
                  ''You are not authorized to use this Talk2Data capability.'') UNKNOWN None)
      else (case interp (qr_question req) pack (qr_use_llm req) of
          Inl e \<Rightarrow> Inl (Interpretation e)
        | Inr ir \<Rightarrow>
          (case interpretation_ruling ctx (qr_question req) pack ir of
             Inl e \<Rightarrow> Inl (Raised e)
           | Inr rl \<Rightarrow> Inr (make_decision fresh_id now req pack rl (ip_intent (ir_proposal ir)) (Some ir)))))"

subsection \<open>What each stage settles\<close>

lemma validity_stage_Some:
  "validity_stage q pr = Some r \<Longrightarrow> rl_verdict r \<in> {INVALID_ANALYTIC_REQUEST, CLARIFY} \<and> rl_authorization r = AUTH_ALLOWED"
  by (auto simp: validity_stage_def split: option.splits if_splits)

lemma validity_stage_None:
  "validity_stage q pr = None \<longleftrightarrow> invalid_analytic_reason q (ip_operation pr) = None \<and> ip_ambiguous_terms pr = []"
  by (auto simp: validity_stage_def split: option.splits)

lemma anchor_stage_Some:
  "anchor_stage p ir = Some r \<Longrightarrow> rl_verdict r = OUT_OF_DOMAIN \<and> rl_authorization r = AUTH_ALLOWED
    \<and> proposal_anchors (ir_proposal ir) = []"
  by (auto simp: anchor_stage_def Let_def split: if_splits)

lemma anchor_stage_None: "anchor_stage p ir = None \<longleftrightarrow> proposal_anchors (ir_proposal ir) \<noteq> []"
  by (auto simp: anchor_stage_def Let_def)

lemma deny_ruling_simps [simp]:
  "rl_verdict (deny_ruling c m) = DENY" "rl_authorization (deny_ruling c m) = AUTH_DENIED"
  by (simp_all add: deny_ruling_def)

lemma classification_stage_None:
  "classification_stage ctx ms es ds = None \<longleftrightarrow>
     (\<forall>m\<in>set ms. md_classification m \<le> ac_clearance ctx)
     \<and> (\<forall>e\<in>set es. be_classification e \<le> ac_clearance ctx)
     \<and> (\<forall>d\<in>set ds. bd_classification d \<le> ac_clearance ctx)"
  by (auto simp: classification_stage_def Let_def filter_empty_conv)

lemma classification_stage_Some:
  "classification_stage ctx ms es ds = Some r \<Longrightarrow> rl_verdict r = DENY \<and> rl_authorization r = AUTH_DENIED"
  by (auto simp: classification_stage_def Let_def split: if_splits)

lemma external_stage_None:
  "external_stage ctx xs = None \<longleftrightarrow> xs = [] \<or> allowed (can_use_external_context ctx)"
  by (simp add: external_stage_def)

lemma external_stage_Some:
  "external_stage ctx xs = Some r \<Longrightarrow> rl_verdict r = DENY \<and> rl_authorization r = AUTH_DENIED"
  by (auto simp: external_stage_def split: if_splits)

lemma source_stage_None:
  "source_stage ctx ms = None \<longleftrightarrow> ms = [] \<or>
     (allowed (can_read_data ctx) \<and> (\<forall>m\<in>set ms. ds_status (md_source m) = SRC_AVAILABLE))"
proof -
  have "s = SRC_AVAILABLE \<longleftrightarrow> s \<noteq> SRC_NOT_READY \<and> s \<noteq> SRC_UNAVAILABLE" for s by (cases s) simp_all
  moreover have "s \<in> set (map (\<lambda>m. ds_status (md_source m)) ms) \<longleftrightarrow> (\<exists>m\<in>set ms. ds_status (md_source m) = s)" for s
    by auto
  ultimately show ?thesis by (auto simp: source_stage_def Let_def simp del: set_map)
qed

lemma source_stage_Some:
  "source_stage ctx ms = Some r \<Longrightarrow>
     (rl_verdict r = DENY \<and> rl_authorization r = AUTH_DENIED) \<or>
     (rl_verdict r \<in> {SOURCE_NOT_READY, VALID_NO_SOURCE} \<and> rl_authorization r = AUTH_ALLOWED)"
  by (auto simp: source_stage_def Let_def split: if_splits)

lemma accept_stage_verdict:
  "rl_verdict (accept_stage ctx ms xs) =
     (if xs \<noteq> [] then ACCEPT_EXTERNAL_AUGMENTED else if ms \<noteq> [] then ACCEPT_INTERNAL
      else if allowed (can_read_memory ctx) then ACCEPT_KNOWLEDGE else DENY)"
  by (simp add: accept_stage_def)

lemma accept_stage_authorization:
  "rl_authorization (accept_stage ctx ms xs) = AUTH_DENIED \<longleftrightarrow> rl_verdict (accept_stage ctx ms xs) = DENY"
  by (simp add: accept_stage_def)

definition accepting :: "QuestionVerdict \<Rightarrow> bool" where
  "accepting v = (v \<in> {ACCEPT_INTERNAL, ACCEPT_KNOWLEDGE, ACCEPT_EXTERNAL_AUGMENTED})"

text \<open>What an accepted scope satisfies.\<close>

definition scope_cleared :: "AccessContext \<Rightarrow> MetricDefinition list \<Rightarrow> BusinessEntity list
    \<Rightarrow> BusinessDomain list \<Rightarrow> QuestionVerdict \<Rightarrow> bool" where
  "scope_cleared ctx ms es ds v \<longleftrightarrow>
     (\<forall>m\<in>set ms. md_classification m \<le> ac_clearance ctx \<and> ds_status (md_source m) = SRC_AVAILABLE)
     \<and> (\<forall>e\<in>set es. be_classification e \<le> ac_clearance ctx)
     \<and> (\<forall>d\<in>set ds. bd_classification d \<le> ac_clearance ctx)
     \<and> (ms \<noteq> [] \<longrightarrow> allowed (can_read_data ctx))
     \<and> (v = ACCEPT_INTERNAL \<longrightarrow> ms \<noteq> [])
     \<and> (v = ACCEPT_KNOWLEDGE \<longrightarrow> ms = [] \<and> allowed (can_read_memory ctx))
     \<and> (v = ACCEPT_EXTERNAL_AUGMENTED \<longrightarrow> allowed (can_use_external_context ctx))"

lemma resolved_ruling_accepting:
  assumes "accepting (rl_verdict (resolved_ruling ctx p ir ms es ds))"
  shows "scope_cleared ctx ms es ds (rl_verdict (resolved_ruling ctx p ir ms es ds))
    \<and> proposal_anchors (ir_proposal ir) \<noteq> []"
proof (cases "anchor_stage p ir")
  case Some
  then show ?thesis using assms anchor_stage_Some by (auto simp: resolved_ruling_def accepting_def)
next
  case anchor: None
  show ?thesis
  proof (cases "classification_stage ctx ms es ds")
    case Some
    then show ?thesis
      using assms anchor classification_stage_Some by (auto simp: resolved_ruling_def accepting_def)
  next
    case cls: None
    let ?x = "valid_external_adjacencies p ir (set (ip_metric_ids (ir_proposal ir))) (set (ip_entity_ids (ir_proposal ir)))"
    show ?thesis
    proof (cases "external_stage ctx ?x")
      case Some
      then show ?thesis
        using assms anchor cls external_stage_Some by (auto simp: resolved_ruling_def accepting_def Let_def)
    next
      case ext: None
      show ?thesis
      proof (cases "source_stage ctx ms")
        case Some
        then show ?thesis
          using assms anchor cls ext source_stage_Some [OF Some]
          by (auto simp: resolved_ruling_def accepting_def Let_def)
      next
        case src: None
        have "resolved_ruling ctx p ir ms es ds = accept_stage ctx ms ?x"
          using anchor cls ext src by (simp add: resolved_ruling_def Let_def)
        then show ?thesis
          using assms anchor cls ext src
          by (auto simp: scope_cleared_def accepting_def accept_stage_verdict anchor_stage_None
              classification_stage_None external_stage_None source_stage_None split: if_splits)
      qed
    qed
  qed
qed

lemma resolved_ruling_authorization:
  "rl_authorization (resolved_ruling ctx p ir ms es ds) = AUTH_DENIED \<longleftrightarrow>
    rl_verdict (resolved_ruling ctx p ir ms es ds) = DENY"
  using anchor_stage_Some [of p ir] classification_stage_Some [of ctx ms es ds]
    external_stage_Some [of ctx] source_stage_Some [of ctx ms] accept_stage_authorization
  by (auto simp: resolved_ruling_def Let_def split: option.split)

subsection \<open>The evaluation over a governed interpreter\<close>

lemma interpretation_ruling_authorization:
  "interpretation_ruling ctx q p ir = Inr rl \<Longrightarrow> rl_authorization rl = AUTH_DENIED \<longleftrightarrow> rl_verdict rl = DENY"
  using resolved_ruling_authorization validity_stage_Some [of q "ir_proposal ir"]
  by (auto simp: interpretation_ruling_def Let_def split: option.splits)

lemma make_decision_simps [simp]:
  "qd_verdict (make_decision i t req p rl it iro) = rl_verdict rl"
  "qd_authorization (make_decision i t req p rl it iro) = rl_authorization rl"
  "qd_tenant_id (make_decision i t req p rl it iro) = ac_tenant_id (qr_access req)"
  "qd_user_id (make_decision i t req p rl it iro) = ac_user_id (qr_access req)"
  "qd_decision_id (make_decision i t req p rl it iro) = i"
  "qd_pack_version (make_decision i t req p rl it iro) = pk_version p"
  "qd_metric_ids (make_decision i t req p rl it (Some ir)) = ip_metric_ids (ir_proposal ir)"
  "qd_entity_ids (make_decision i t req p rl it (Some ir)) = ip_entity_ids (ir_proposal ir)"
  "qd_dimension_ids (make_decision i t req p rl it (Some ir)) = ip_dimensions (ir_proposal ir)"
  "qd_anchor_ids (make_decision i t req p rl it (Some ir)) = proposal_anchors (ir_proposal ir)"
  "qd_metric_ids (make_decision i t req p rl it None) = []"
  "qd_entity_ids (make_decision i t req p rl it None) = []"
  "qd_dimension_ids (make_decision i t req p rl it None) = []"
  "qd_unresolved_terms (make_decision i t req p rl it (Some ir)) = ip_ambiguous_terms (ir_proposal ir)"
  by (simp_all add: make_decision_def Let_def)

lemma evaluate_Inr:
  assumes "evaluate interp i t req p = Inr d"
  shows "(\<not> allowed (can_ask (qr_access req)) \<and> qd_verdict d = DENY \<and> qd_authorization d = AUTH_DENIED
            \<and> qd_metric_ids d = [] \<and> qd_dimension_ids d = []) \<or>
    (allowed (can_ask (qr_access req)) \<and> (\<exists>ir rl. interp (qr_question req) p (qr_use_llm req) = Inr ir
       \<and> interpretation_ruling (qr_access req) (qr_question req) p ir = Inr rl
       \<and> d = make_decision i t req p rl (ip_intent (ir_proposal ir)) (Some ir)))"
  using assms by (auto simp: evaluate_def Let_def simp del: allowed_iff split: if_splits sum.splits)

lemma evaluate_authorization:
  "evaluate interp i t req p = Inr d \<Longrightarrow> qd_authorization d = AUTH_DENIED \<longleftrightarrow> qd_verdict d = DENY"
  using evaluate_Inr [of interp i t req p d] interpretation_ruling_authorization by fastforce

context question_interpreter
begin

lemma domains_resolve:
  assumes "pack_wf p" "interp q p u = Inr r"
  shows "lookup_all (dict_of bd_id (pk_domains p)) (ip_domain_ids (ir_proposal r)) =
    Inr (map (\<lambda>i. the (dict_of bd_id (pk_domains p) i)) (ip_domain_ids (ir_proposal r)))"
  using interp_governed [OF assms] by (intro lookup_all_ok) (auto simp: governed_def dom_dict_of)

lemma evaluate_never_raises:
  assumes "pack_wf p"
  shows "evaluate interp i t req p \<noteq> Inl (Raised e)"
proof -
  have ok: "is_ok (interpretation_ruling ctx q p ir)" if "interp q p u = Inr ir" for ctx q u ir
    using metrics_resolve [OF assms that] entities_resolve [OF assms that] domains_resolve [OF assms that]
    by (auto simp: interpretation_ruling_def Let_def split: option.splits)
  show ?thesis
  proof (cases "interp (qr_question req) p (qr_use_llm req)")
    case (Inr ir)
    from ok [OF Inr, of "qr_access req"] obtain rl where
      "interpretation_ruling (qr_access req) (qr_question req) p ir = Inr rl" by (auto simp: is_ok_iff)
    then show ?thesis
      using Inr by (simp add: evaluate_def Let_def del: allowed_iff)
  qed (simp add: evaluate_def Let_def del: allowed_iff)
qed

end

text \<open>The definitions a list of identifiers names in the pack.\<close>

definition named_metrics :: "TenantDomainPack \<Rightarrow> string list \<Rightarrow> MetricDefinition list" where
  "named_metrics p ids = filter (\<lambda>m. md_id m \<in> set ids) (pk_metrics p)"

definition named_entities :: "TenantDomainPack \<Rightarrow> string list \<Rightarrow> BusinessEntity list" where
  "named_entities p ids = filter (\<lambda>e. be_id e \<in> set ids) (pk_entities p)"

definition named_domains :: "TenantDomainPack \<Rightarrow> string list \<Rightarrow> BusinessDomain list" where
  "named_domains p ids = filter (\<lambda>d. bd_id d \<in> set ids) (pk_domains p)"

lemma dict_of_distinct:
  assumes "distinct (map key xs)" "x \<in> set xs"
  shows "dict_of key xs (key x) = Some x"
proof -
  obtain y where "dict_of key xs (key x) = Some y" 
    using dict_of_ex [of "key x" key xs] assms(2) by auto
  with dict_of_SomeD [OF this] distinct_key_unique [OF assms(1) _ assms(2), of y] show ?thesis by simp
qed

lemma lookup_all_set:
  assumes "lookup_all (dict_of key xs) ids = Inr ys" "distinct (map key xs)"
  shows "set ys = set (filter (\<lambda>x. key x \<in> set ids) xs)"
proof -
  have ys: "ys = map (\<lambda>k. the (dict_of key xs k)) ids" and dom: "set ids \<subseteq> dom (dict_of key xs)"
    using lookup_all_InrD [OF assms(1)] by auto
  show ?thesis
  proof (intro equalityI subsetI)
    fix x assume "x \<in> set ys"
    then obtain k where k: "k \<in> set ids" "x = the (dict_of key xs k)" using ys by auto
    with dom have "dict_of key xs k = Some x" by auto
    with k dict_of_SomeD [OF this] show "x \<in> set (filter (\<lambda>x. key x \<in> set ids) xs)" by auto
  next
    fix x assume x: "x \<in> set (filter (\<lambda>x. key x \<in> set ids) xs)"
    then have "x = the (dict_of key xs (key x))" using dict_of_distinct [OF assms(2)] by simp
    with x ys show "x \<in> set ys" by auto
  qed
qed

lemma scope_cleared_cong:
  assumes "set ms = set ms'" "set es = set es'" "set ds = set ds'"
  shows "scope_cleared ctx ms es ds v = scope_cleared ctx ms' es' ds' v"
proof -
  have "ms = [] \<longleftrightarrow> ms' = []" using assms(1) by (metis set_empty)
  with assms show ?thesis by (simp add: scope_cleared_def)
qed

lemma interpretation_ruling_accepting:
  assumes wf: "pack_wf p" and rl: "interpretation_ruling ctx q p ir = Inr rl" and acc: "accepting (rl_verdict rl)"
  defines "pr \<equiv> ir_proposal ir"
  shows "scope_cleared ctx (named_metrics p (ip_metric_ids pr)) (named_entities p (ip_entity_ids pr))
      (named_domains p (ip_domain_ids pr)) (rl_verdict rl)"
    and "proposal_anchors pr \<noteq> []" and "ip_ambiguous_terms pr = []"
    and "invalid_analytic_reason q (ip_operation pr) = None"
proof -
  have v: "validity_stage q pr = None"
    using rl acc validity_stage_Some [of q pr] by (cases "validity_stage q pr") (auto simp: interpretation_ruling_def pr_def accepting_def)
  with rl obtain ms es ds where
    ms: "lookup_all (dict_of md_id (pk_metrics p)) (ip_metric_ids pr) = Inr ms" and
    es: "lookup_all (dict_of be_id (pk_entities p)) (ip_entity_ids pr) = Inr es" and
    ds: "lookup_all (dict_of bd_id (pk_domains p)) (ip_domain_ids pr) = Inr ds" and
    r: "rl = resolved_ruling ctx p ir ms es ds"
    by (auto simp: interpretation_ruling_def pr_def Let_def)
  have dist: "distinct (map md_id (pk_metrics p))" "distinct (map be_id (pk_entities p))"
    "distinct (map bd_id (pk_domains p))" using wf by (auto simp: pack_wf_def)
  note sets = lookup_all_set [OF ms dist(1)] lookup_all_set [OF es dist(2)] lookup_all_set [OF ds dist(3)]
  from resolved_ruling_accepting [OF acc [unfolded r]] v
  show "scope_cleared ctx (named_metrics p (ip_metric_ids pr)) (named_entities p (ip_entity_ids pr))
      (named_domains p (ip_domain_ids pr)) (rl_verdict rl)"
    and "proposal_anchors pr \<noteq> []" and "ip_ambiguous_terms pr = []"
    and "invalid_analytic_reason q (ip_operation pr) = None"
    by (simp_all add: r pr_def validity_stage_None named_metrics_def named_entities_def named_domains_def
        scope_cleared_cong [OF sets, unfolded pr_def])
qed

subsection \<open>Properties\<close>

text \<open>C40: With the deterministic interpreter, alone or composed with any language model, evaluating a
  question against an accepted pack never fails with an exception of its own: it yields a decision or
  the interpreter's error.\<close>

theorem evaluate_total:
  "pack_wf p \<Longrightarrow> evaluate (composite_interpret model required) i t req p \<noteq> Inl (Raised e)"
  by (rule composite.evaluate_never_raises)

theorem evaluate_total_witness:
  "evaluate (composite_interpret (Some (\<lambda>q p. Inl (InterpretationError ''down''))) True) ''d1'' 0
     \<lparr>qr_question = ''show mobile activations'', qr_access = analyst, qr_session_id = None, qr_use_llm = True\<rparr>
     demo_pack \<noteq> Inl (Raised KeyError)"
  by (rule evaluate_total [OF demo_pack_wf])

text \<open>C10: A question is accepted only when the caller may ask questions, nothing in it is ambiguous or
  analytically invalid, it has a business anchor, every metric, entity and domain it names is within
  the caller's clearance, and the permission the kind of acceptance needs is held: data access with
  every metric source available when metrics are named, external context or memory otherwise.\<close>

theorem evaluate_accepts_only_cleared:
  assumes "pack_wf p" "evaluate interp i t req p = Inr d" "accepting (qd_verdict d)"
  shows "allowed (can_ask (qr_access req)) \<and> qd_unresolved_terms d = [] \<and> qd_anchor_ids d \<noteq> []
    \<and> (\<exists>ir. interp (qr_question req) p (qr_use_llm req) = Inr ir
        \<and> qd_metric_ids d = ip_metric_ids (ir_proposal ir) \<and> qd_entity_ids d = ip_entity_ids (ir_proposal ir)
        \<and> invalid_analytic_reason (qr_question req) (ip_operation (ir_proposal ir)) = None
        \<and> scope_cleared (qr_access req) (named_metrics p (qd_metric_ids d))
            (named_entities p (qd_entity_ids d)) (named_domains p (ip_domain_ids (ir_proposal ir))) (qd_verdict d))"
proof -
  from evaluate_Inr [OF assms(2)] assms(3) obtain ir rl where
    ask: "allowed (can_ask (qr_access req))" and ir: "interp (qr_question req) p (qr_use_llm req) = Inr ir" and
    rl: "interpretation_ruling (qr_access req) (qr_question req) p ir = Inr rl" and
    d: "d = make_decision i t req p rl (ip_intent (ir_proposal ir)) (Some ir)"
    by (auto simp: accepting_def simp del: allowed_iff)
  from assms(3) have "accepting (rl_verdict rl)" by (simp add: d)
  from interpretation_ruling_accepting [OF assms(1) rl this] ask ir show ?thesis by (simp add: d)
qed

definition activations_reading :: InterpretationResult where
  "activations_reading =
     \<lparr>ir_proposal = \<lparr>ip_intent = METRIC_LOOKUP, ip_metric_ids = [''MOBILE_ACTIVATIONS''],
        ip_entity_ids = [''REGION''], ip_domain_ids = [''RETAIL_SALES'', ''WIRELESS_SUBSCRIBER''],
        ip_dimensions = [''REGION''], ip_external_topics = [], ip_ambiguous_terms = [], ip_operation = None,
        ip_summary = '''', ip_confidence = FL_0_9\<rparr>,
      ir_mode = RULES, ir_adjacency_ids = [], ir_exclusion_ids = [],
      ir_matched_terms = [''Mobile Activations'', ''region''], ir_warnings = []\<rparr>"

definition activations_question :: "AccessContext \<Rightarrow> QuestionRequest" where
  "activations_question c = \<lparr>qr_question = ''mobile activations by region'', qr_access = c,
     qr_session_id = None, qr_use_llm = True\<rparr>"

lemma activations_evaluated:
  "case evaluate (\<lambda>_ _ _. Inr activations_reading) ''d1'' 0 (activations_question analyst) demo_pack of
     Inl e \<Rightarrow> False
   | Inr d \<Rightarrow> qd_verdict d = ACCEPT_INTERNAL \<and> qd_metric_ids d = [''MOBILE_ACTIVATIONS'']"
  by code_simp

theorem evaluate_accepts_only_cleared_witness:
  "\<exists>d. evaluate (\<lambda>_ _ _. Inr activations_reading) ''d1'' 0 (activations_question analyst) demo_pack = Inr d
     \<and> qd_verdict d = ACCEPT_INTERNAL \<and> qd_anchor_ids d \<noteq> [] \<and> allowed (can_ask analyst)"
proof -
  from activations_evaluated obtain d where
    d: "evaluate (\<lambda>_ _ _. Inr activations_reading) ''d1'' 0 (activations_question analyst) demo_pack = Inr d"
      "qd_verdict d = ACCEPT_INTERNAL"
    by (auto split: sum.splits)
  from evaluate_accepts_only_cleared [OF demo_pack_wf d(1)] d show ?thesis
    by (simp add: accepting_def activations_question_def del: allowed_iff)
qed

text \<open>Denial and authorization agree: a decision is marked denied exactly when its verdict is
  \<open>DENY\<close>; a caller without the ask permission is denied before the interpreter runs, whatever the
  interpreter, with nothing of the pack disclosed.\<close>

theorem evaluate_denial:
  "(case evaluate interp i t req p of Inr d \<Rightarrow> (qd_authorization d = AUTH_DENIED) = (qd_verdict d = DENY) | Inl e \<Rightarrow> True)
   \<and> (if allowed (can_ask (qr_access req)) then True
      else (\<exists>d. (\<lambda>f. evaluate f i t req p) = (\<lambda>f. Inr d) \<and> qd_verdict d = DENY \<and> qd_anchor_ids d = []
              \<and> qd_metric_ids d = [] \<and> qd_entity_ids d = [] \<and> qd_dimension_ids d = []))"
proof (intro conjI)
  show "case evaluate interp i t req p of Inl e \<Rightarrow> True | Inr d \<Rightarrow> (qd_authorization d = AUTH_DENIED) = (qd_verdict d = DENY)"
    using evaluate_authorization [of interp i t req p] by (auto split: sum.split)
  let ?d = "make_decision i t req p (deny_ruling (pd_reason_codes (can_ask (qr_access req)))
      ''You are not authorized to use this Talk2Data capability.'') UNKNOWN None"
  have "(\<lambda>f. evaluate f i t req p) = (\<lambda>f. Inr ?d)" if "\<not> allowed (can_ask (qr_access req))"
    using that by (simp add: evaluate_def Let_def del: allowed_iff)
  moreover have "qd_verdict ?d = DENY \<and> qd_anchor_ids ?d = [] \<and> qd_metric_ids ?d = []
      \<and> qd_entity_ids ?d = [] \<and> qd_dimension_ids ?d = []"
    by (simp add: make_decision_def)
  ultimately show "if allowed (can_ask (qr_access req)) then True
      else (\<exists>d. (\<lambda>f. evaluate f i t req p) = (\<lambda>f. Inr d) \<and> qd_verdict d = DENY \<and> qd_anchor_ids d = []
              \<and> qd_metric_ids d = [] \<and> qd_entity_ids d = [] \<and> qd_dimension_ids d = [])"
    by (auto simp del: allowed_iff)
qed

end
