(* ===== verification/Semantic.thy ===== *)
theory Semantic
  imports Sample
begin

section \<open>Semantic: the approved packs and the governed resolution of metrics and dimensions\<close>

text \<open>
  \<open>domain/domain_pack.py\<close> (the registry of approved packs) and \<open>services/semantic.py\<close>.  Reading
  and parsing YAML is outside the model: \<open>load_packs\<close> starts from the parsed mappings, in path
  order.  The digest function is a parameter, applied to the payload the code serialises.
\<close>

subsection \<open>Domain pack registry\<close>

datatype registry_error =
    PackUnreadable string
  | PackInvalid pack_error
  | NoPackFiles
  | MultipleApproved string string string
  | NoApprovedPack
  | PackNotFound string

type_synonym pack_registry = "string \<rightharpoonup> TenantDomainPack"

definition from_snapshot :: "TenantDomainPack \<Rightarrow> pack_registry" where
  "from_snapshot p = [pk_tenant_id p \<mapsto> p]"

fun load_each :: "(string + TenantDomainPack) list \<Rightarrow> pack_registry \<Rightarrow> registry_error + pack_registry" where
  "load_each [] packs = Inr packs"
| "load_each (raw # raws) packs =
     (case raw of Inl msg \<Rightarrow> Inl (PackUnreadable msg)
      | Inr r \<Rightarrow>
        (case make_pack r of Inl e \<Rightarrow> Inl (PackInvalid e)
         | Inr p \<Rightarrow>
           if pk_status p \<noteq> ''APPROVED'' then load_each raws packs
           else (case packs (pk_tenant_id p) of
               Some existing \<Rightarrow> Inl (MultipleApproved (pk_tenant_id p) (pk_version existing) (pk_version p))
             | None \<Rightarrow> load_each raws (packs(pk_tenant_id p \<mapsto> p)))))"

definition load_packs :: "(string + TenantDomainPack) list \<Rightarrow> registry_error + pack_registry" where
  "load_packs raws =
     (if raws = [] then Inl NoPackFiles
      else (case load_each raws Map.empty of Inl e \<Rightarrow> Inl e
        | Inr packs \<Rightarrow> if packs = Map.empty then Inl NoApprovedPack else Inr packs))"

definition registry_get :: "pack_registry \<Rightarrow> string \<Rightarrow> registry_error + TenantDomainPack" where
  "registry_get packs t = (case packs t of None \<Rightarrow> Inl (PackNotFound t) | Some p \<Rightarrow> Inr p)"

subsection \<open>Semantic registry\<close>

datatype semantic_error =
    Registry registry_error
  | MetricNotFound string
  | SemanticAccessDenied string
  | DimensionNotAllowed string

definition resolve_metric ::
  "pack_registry \<Rightarrow> AccessContext \<Rightarrow> string \<Rightarrow> semantic_error + (TenantDomainPack \<times> MetricDefinition)" where
  "resolve_metric packs access metric_id =
     (if \<not> allowed (can_read_data access)
        then Inl (SemanticAccessDenied ''data-definition access is not allowed'')
      else (case registry_get packs (ac_tenant_id access) of Inl e \<Rightarrow> Inl (Registry e)
        | Inr pack \<Rightarrow>
          (let mid = py_upper (py_strip metric_id) in
           case List.find (\<lambda>m. md_id m = mid) (pk_metrics pack) of
             None \<Rightarrow> Inl (MetricNotFound (''metric '' @ py_repr mid @ '' is not registered for tenant ''
                       @ py_repr (ac_tenant_id access)))
           | Some metric \<Rightarrow>
               if \<not> allowed (can_access_classification access (md_classification metric))
               then Inl (SemanticAccessDenied ''metric definition is above the user's clearance'')
               else Inr (pack, metric))))"

fun resolve_each :: "AccessContext \<Rightarrow> TenantDomainPack \<Rightarrow> MetricDefinition \<Rightarrow> string list \<Rightarrow> string list
    \<Rightarrow> semantic_error + BusinessEntity list" where
  "resolve_each access pack metric seen [] = Inr []"
| "resolve_each access pack metric seen (raw # raws) =
     (let d = py_upper (py_strip raw) in
      if d \<in> set seen then resolve_each access pack metric seen raws
      else if d \<notin> set (md_allowed_dimensions metric)
        then Inl (DimensionNotAllowed (''dimension '' @ py_repr d @ '' is not allowed for metric ''
               @ py_repr (md_id metric)))
      else (case dict_of be_id (pk_entities pack) d of
          None \<Rightarrow> Inl (DimensionNotAllowed (''dimension '' @ py_repr d @ '' is not registered for tenant ''
                     @ py_repr (pk_tenant_id pack)))
        | Some entity \<Rightarrow>
            if \<not> allowed (can_access_classification access (be_classification entity))
            then Inl (SemanticAccessDenied (''dimension '' @ py_repr d @ '' is above the user's clearance''))
            else (case resolve_each access pack metric (d # seen) raws of
                Inl e \<Rightarrow> Inl e | Inr es \<Rightarrow> Inr (entity # es))))"

definition resolve_dimensions :: "AccessContext \<Rightarrow> TenantDomainPack \<Rightarrow> MetricDefinition \<Rightarrow> string list
    \<Rightarrow> semantic_error + BusinessEntity list" where
  "resolve_dimensions access pack metric ids = resolve_each access pack metric [] ids"

record SemanticPayload =
  sp_tenant_id :: string
  sp_pack_version :: string
  sp_calendar :: string
  sp_currency :: string
  sp_timezone :: string
  sp_metric :: MetricDefinition
  sp_dimensions :: "BusinessEntity list"

definition semantic_payload :: "TenantDomainPack \<Rightarrow> MetricDefinition \<Rightarrow> SemanticPayload" where
  "semantic_payload pack metric =
     \<lparr>sp_tenant_id = pk_tenant_id pack,
      sp_pack_version = pk_version pack,
      sp_calendar = pk_default_calendar pack,
      sp_currency = pk_default_currency pack,
      sp_timezone = pk_default_timezone pack,
      sp_metric = metric,
      sp_dimensions = filter (\<lambda>e. be_id e \<in> set (md_allowed_dimensions metric))
                        (sort_key be_id (pk_entities pack))\<rparr>"

definition semantic_snapshot_hash :: "(SemanticPayload \<Rightarrow> string) \<Rightarrow> TenantDomainPack \<Rightarrow> MetricDefinition \<Rightarrow> string" where
  "semantic_snapshot_hash digest pack metric = digest (semantic_payload pack metric)"

record MetricResolutionResponse =
  mr_pack_version :: string
  mr_snapshot_hash :: string
  mr_metric :: MetricDefinition

definition resolve_metric_response :: "(SemanticPayload \<Rightarrow> string) \<Rightarrow> pack_registry \<Rightarrow> AccessContext \<Rightarrow> string
    \<Rightarrow> semantic_error + MetricResolutionResponse" where
  "resolve_metric_response digest packs access metric_id =
     (case resolve_metric packs access metric_id of Inl e \<Rightarrow> Inl e
      | Inr (pack, metric) \<Rightarrow> Inr
          \<lparr>mr_pack_version = pk_version pack,
           mr_snapshot_hash = semantic_snapshot_hash digest pack metric,
           mr_metric = metric\<rparr>)"

subsection \<open>What resolution establishes\<close>

text \<open>The registry invariant: every pack is filed under its tenant, approved and well formed.\<close>

definition registry_ok :: "pack_registry \<Rightarrow> bool" where
  "registry_ok packs \<longleftrightarrow>
     (\<forall>t p. packs t = Some p \<longrightarrow> pk_tenant_id p = t \<and> pk_status p = ''APPROVED'' \<and> pack_wf p)"

lemma load_each_ok:
  "registry_ok packs \<Longrightarrow> load_each raws packs = Inr out \<Longrightarrow> registry_ok out"
proof (induction raws packs arbitrary: out rule: load_each.induct)
  case (2 raw raws packs)
  from "2.prems"(2) obtain r where r: "raw = Inr r" by (cases raw) auto
  with "2.prems"(2) obtain p where p: "make_pack r = Inr p" by (cases "make_pack r") auto
  then have wf: "pack_wf p" by (simp add: make_pack_Inr)
  show ?case
  proof (cases "pk_status p = ''APPROVED''")
    case False
    then show ?thesis using "2.IH"(1) [OF r p] "2.prems" r p by simp
  next
    case True
    then have none: "packs (pk_tenant_id p) = None" and
      rest: "load_each raws (packs(pk_tenant_id p \<mapsto> p)) = Inr out"
      using "2.prems"(2) r p by (auto split: option.splits)
    have ok: "registry_ok (packs(pk_tenant_id p \<mapsto> p))"
      using "2.prems"(1) True wf by (simp add: registry_ok_def)
    from True have "\<not> pk_status p \<noteq> ''APPROVED''" by simp
    from "2.IH"(2) [OF r p this none ok rest] show ?thesis .
  qed
qed simp

lemma load_packs_ok: "load_packs raws = Inr packs \<Longrightarrow> registry_ok packs"
  using load_each_ok [of Map.empty raws]
  by (auto simp: load_packs_def registry_ok_def [of Map.empty] split: if_splits sum.splits)

lemma resolve_metric_Inr:
  assumes "resolve_metric packs access mid = Inr (pack, metric)"
  shows "packs (ac_tenant_id access) = Some pack" "metric \<in> set (pk_metrics pack)"
    "md_id metric = py_upper (py_strip mid)" "allowed (can_read_data access)"
    "md_classification metric \<le> ac_clearance access"
  using assms
  by (auto simp: resolve_metric_def registry_get_def Let_def simp del: allowed_iff(1-4)
      split: if_splits option.splits sum.splits dest: find_SomeD)

lemma resolve_each_Inr:
  assumes "resolve_each access pack metric seen ids = Inr es"
  shows "map be_id es = uniq_from seen (map (\<lambda>d. py_upper (py_strip d)) ids)
    \<and> set es \<subseteq> set (pk_entities pack)
    \<and> (\<forall>e\<in>set es. be_id e \<in> set (md_allowed_dimensions metric) \<and> be_classification e \<le> ac_clearance access)"
  using assms
proof (induction access pack metric seen ids arbitrary: es rule: resolve_each.induct)
  case (2 access pack metric seen raw raws)
  let ?d = "py_upper (py_strip raw)"
  show ?case
  proof (cases "?d \<in> set seen")
    case True
    then show ?thesis using 2 by simp
  next
    case False
    with "2.prems" obtain e es' where
      a: "?d \<in> set (md_allowed_dimensions metric)" and e: "dict_of be_id (pk_entities pack) ?d = Some e" and
      c: "be_classification e \<le> ac_clearance access" and
      r: "resolve_each access pack metric (?d # seen) raws = Inr es'" and es: "es = e # es'"
      by (auto simp: Let_def split: if_splits option.splits sum.splits)
    have "allowed (can_access_classification access (be_classification e))" using c by simp
    from "2.IH"(2) [OF refl False _ e _ r] a this dict_of_SomeD [OF e] a c False es
    show ?thesis by auto
  qed
qed simp

lemma resolve_each_error:
  "resolve_each access pack metric seen ids = Inl e \<Longrightarrow>
    (\<exists>m. e = DimensionNotAllowed m) \<or> (\<exists>m. e = SemanticAccessDenied m)"
  by (induction access pack metric seen ids rule: resolve_each.induct)
     (auto simp: Let_def split: if_splits option.splits sum.splits)

subsection \<open>Properties\<close>

text \<open>Loading yields a registry in which every tenant has exactly one pack, filed under its own
  identifier, with status \<open>APPROVED\<close> and well formed.\<close>

theorem load_packs_registers_only_approved:
  "load_packs raws = Inr packs \<Longrightarrow> registry_ok packs \<and> packs \<noteq> Map.empty"
  using load_packs_ok [of raws packs] by (auto simp: load_packs_def split: if_splits sum.splits)

lemma demo_pack_made: "make_pack demo_pack = Inr demo_pack"
proof -
  have "normalize_status (pk_status demo_pack) = pk_status demo_pack" by code_simp
  then have "demo_pack\<lparr>pk_status := normalize_status (pk_status demo_pack)\<rparr> = demo_pack" by simp
  then show ?thesis using demo_pack_wf by (simp add: make_pack_Inr)
qed

lemma demo_pack_approved [simp]: "pk_status demo_pack = ''APPROVED''" "pk_tenant_id demo_pack = ''demo-telecom''"
  by (simp_all add: demo_pack_def)

theorem load_packs_registers_only_approved_witness:
  "registry_ok [''demo-telecom'' \<mapsto> demo_pack] \<and> [''demo-telecom'' \<mapsto> demo_pack] \<noteq> Map.empty"
  by (rule load_packs_registers_only_approved [of "[Inr demo_pack]"])
     (simp add: load_packs_def demo_pack_made)

lemma demo_registry_ok: "registry_ok [''demo-telecom'' \<mapsto> demo_pack]"
  using demo_pack_wf by (simp add: registry_ok_def)

text \<open>Resolving a metric never crosses tenants or permissions: the pack is the caller's tenant's own,
  the metric is one of its metrics under the normalised identifier, the caller may read data and is
  cleared for it; and a pack that is well formed resolves each of its metrics for a cleared reader.\<close>

theorem resolve_metric_governed:
  assumes "registry_ok packs"
  shows "resolve_metric packs access mid = Inr (pack, metric) \<longleftrightarrow>
    packs (ac_tenant_id access) = Some pack \<and> pk_tenant_id pack = ac_tenant_id access
    \<and> metric \<in> set (pk_metrics pack) \<and> md_id metric = py_upper (py_strip mid)
    \<and> allowed (can_read_data access) \<and> md_classification metric \<le> ac_clearance access" (is "?l = ?r")
proof
  assume ?l
  from resolve_metric_Inr [OF this] assms show ?r by (auto simp: registry_ok_def simp del: allowed_iff(2))
next
  assume r: ?r
  then have "distinct (map md_id (pk_metrics pack))" using assms by (auto simp: registry_ok_def pack_wf_def)
  from find_distinct_key [OF this, of metric] r
  have "List.find (\<lambda>m. md_id m = py_upper (py_strip mid)) (pk_metrics pack) = Some metric" by simp
  with r show ?l by (simp add: resolve_metric_def registry_get_def del: allowed_iff(2))
qed

theorem resolve_metric_governed_witness:
  "resolve_metric [''demo-telecom'' \<mapsto> demo_pack] (analyst\<lparr>ac_clearance := CONFIDENTIAL\<rparr>) '' postpaid_churn '' =
     Inr (demo_pack, churn)"
proof -
  have "py_upper (py_strip '' postpaid_churn '') = md_id churn" by code_simp
  moreover have "churn \<in> set (pk_metrics demo_pack)" by (simp add: demo_pack_def)
  moreover have "md_classification churn \<le> CONFIDENTIAL" by (simp add: churn_def)
  ultimately show ?thesis
    by (subst resolve_metric_governed [OF demo_registry_ok]) (simp add: analyst_def READ_DATA_ACTION_def)
qed

text \<open>Resolved dimensions are exactly the requested identifiers, normalised and without repetition, each
  an entity of the pack that the metric allows and the caller is cleared for.\<close>

theorem resolve_dimensions_governed:
  "resolve_dimensions access pack metric ids = Inr es \<Longrightarrow>
    map be_id es = uniq_from [] (map (\<lambda>d. py_upper (py_strip d)) ids) \<and> set es \<subseteq> set (pk_entities pack)
    \<and> (\<forall>e\<in>set es. be_id e \<in> set (md_allowed_dimensions metric) \<and> be_classification e \<le> ac_clearance access)"
  unfolding resolve_dimensions_def by (rule resolve_each_Inr)

theorem resolve_dimensions_governed_witness:
  "map be_id [region] = uniq_from [] (map (\<lambda>d. py_upper (py_strip d)) [''region'', '' REGION''])
    \<and> set [region] \<subseteq> set (pk_entities demo_pack)"
proof -
  have "py_upper (py_strip ''region'') = ''REGION''" "py_upper (py_strip '' REGION'') = ''REGION''"
    by code_simp+
  moreover have "dict_of be_id (pk_entities demo_pack) ''REGION'' = Some region"
    by (simp add: dict_of_code demo_pack_def region_def)
  moreover have "be_classification region \<le> ac_clearance analyst" "''REGION'' \<in> set (md_allowed_dimensions activations)"
    by (simp_all add: sample_defs)
  ultimately have "resolve_dimensions analyst demo_pack activations [''region'', '' REGION''] = Inr [region]"
    by (simp add: resolve_dimensions_def)
  from resolve_dimensions_governed [OF this] show ?thesis by blast
qed

end
