(* ===== verification/Compiler.thy ===== *)
theory Compiler
  imports Admissibility Semantic
begin

section \<open>Compiler: from an accepted decision to the business query plan\<close>

text \<open>
  \<open>services/query_compiler.py\<close>.  \<open>compile\<close> is split at its two points of no return: choosing the
  single metric (\<open>compile\<close>), resolving dimensions and window (\<open>compile_metric\<close>), and building the
  plan (\<open>compile_plan\<close>).  The two digests are parameters over the payloads that are hashed.
\<close>

definition ELIGIBLE_VERDICTS :: "QuestionVerdict set" where
  "ELIGIBLE_VERDICTS = {ACCEPT_INTERNAL, ACCEPT_EXTERNAL_AUGMENTED}"

definition make_issue :: "string \<Rightarrow> string \<Rightarrow> string option \<Rightarrow> CompilationIssue" where
  "make_issue code message fld = \<lparr>ci_code = code, ci_message = message, ci_field = fld\<rparr>"

definition outcome :: "uuid \<Rightarrow> QuestionDecision \<Rightarrow> QueryCompilationStatus \<Rightarrow> CompilationIssue
    \<Rightarrow> QueryCompilationResult" where
  "outcome sid decision status issue =
     \<lparr>qc_session_id = sid, qc_decision = decision, qc_status = status, qc_query_ir = None,
      qc_issues = [issue], qc_warnings = []\<rparr>"

subsection \<open>Time window\<close>

definition iso_date_pattern :: matcher where
  "iso_date_pattern = r_all ([r_boundary, r_lit ''20''] @ replicate 2 (r_class is_digit) @ [r_lit ''-'']
     @ replicate 2 (r_class is_digit) @ [r_lit ''-''] @ replicate 2 (r_class is_digit) @ [r_boundary])"

definition digit_value :: "char \<Rightarrow> int" where
  "digit_value c = int (of_char c) - 48"

definition digits_value :: "string \<Rightarrow> int" where
  "digits_value s = foldl (\<lambda>n c. 10 * n + digit_value c) 0 s"

text \<open>\<open>date.fromisoformat\<close> on a text of the shape \<open>YYYY-MM-DD\<close>.\<close>

definition date_fromisoformat :: "string \<Rightarrow> py_exc + date" where
  "date_fromisoformat s =
     mk_date (digits_value (take 4 s)) (digits_value (take 2 (drop 5 s))) (digits_value (take 2 (drop 8 s)))"

definition grain_value :: "TimeGrain \<Rightarrow> string" where
  "grain_value g = (case g of HOUR \<Rightarrow> ''HOUR'' | DAY \<Rightarrow> ''DAY'' | WEEK \<Rightarrow> ''WEEK'' | MONTH \<Rightarrow> ''MONTH''
     | QUARTER \<Rightarrow> ''QUARTER'' | YEAR \<Rightarrow> ''YEAR'')"

definition time_phrases :: "(string list \<times> TimePreset \<times> TimeGrain) list" where
  "time_phrases =
     [([''today'', ''current day''], CURRENT_DAY, DAY),
      ([''yesterday'', ''previous day''], PREVIOUS_COMPLETE_DAY, DAY),
      ([''this week'', ''current week''], CURRENT_WEEK, WEEK),
      ([''last week'', ''previous week''], PREVIOUS_COMPLETE_WEEK, WEEK),
      ([''this month'', ''current month''], CURRENT_MONTH, MONTH),
      ([''last month'', ''previous month''], PREVIOUS_COMPLETE_MONTH, MONTH),
      ([''this quarter'', ''current quarter''], CURRENT_QUARTER, QUARTER),
      ([''last quarter'', ''previous quarter''], PREVIOUS_COMPLETE_QUARTER, QUARTER),
      ([''this year'', ''current year''], CURRENT_YEAR, YEAR),
      ([''last year'', ''previous year''], PREVIOUS_COMPLETE_YEAR, YEAR),
      ([''last 30 days'', ''past 30 days''], ROLLING_30_DAYS, DAY),
      ([''last 12 months'', ''past 12 months''], ROLLING_12_MONTHS, MONTH)]"

definition make_window :: "TenantDomainPack \<Rightarrow> date \<Rightarrow> TimePreset \<Rightarrow> TimeGrain \<Rightarrow> date option \<Rightarrow> date option
    \<Rightarrow> TimeWindow" where
  "make_window pack anchor preset grain s e =
     \<lparr>tw_preset = preset, tw_grain = grain, tw_calendar = pk_default_calendar pack,
      tw_timezone = pk_default_timezone pack, tw_anchor_date = anchor, tw_start_date = s, tw_end_date = e\<rparr>"

definition explicit_window :: "string \<Rightarrow> string list \<Rightarrow> MetricDefinition \<Rightarrow> TenantDomainPack \<Rightarrow> date
    \<Rightarrow> CompilationIssue + TimeWindow" where
  "explicit_window n iso_dates metric pack anchor =
     (if length iso_dates > 2 then Inl (make_issue ''TOO_MANY_EXPLICIT_DATES''
          ''The question contains more than two explicit dates.'' (Some ''time_window''))
      else if length iso_dates = 2 then
        (case (date_fromisoformat (iso_dates ! 0), date_fromisoformat (iso_dates ! 1)) of
           (Inr s, Inr e) \<Rightarrow>
             if e < s then Inl (make_issue ''INVALID_DATE_RANGE''
                 ''The requested start date occurs after the end date.'' (Some ''time_window''))
             else Inr (make_window pack anchor CUSTOM (md_default_time_grain metric) (Some s) (Some e))
         | _ \<Rightarrow> Inl (make_issue ''INVALID_EXPLICIT_DATE''
                 ''At least one explicit date is not a valid calendar date.'' (Some ''time_window'')))
      else if \<not> str_contains '' on '' ('' '' @ n @ '' '')
        then Inl (make_issue ''UNSUPPORTED_OPEN_ENDED_DATE_RANGE''
          ''A single explicit date must be used with 'on'. Open-ended ranges require an explicit start and end date.''
          (Some ''time_window''))
      else (case date_fromisoformat (iso_dates ! 0) of
           Inl _ \<Rightarrow> Inl (make_issue ''INVALID_EXPLICIT_DATE''
                 ''The explicit date is not a valid calendar date.'' (Some ''time_window''))
         | Inr d \<Rightarrow> Inr (make_window pack anchor CUSTOM DAY (Some d) (Some d))))"

text \<open>The record validates itself when it is built: a window without dates cannot be \<open>CUSTOM\<close>, so a metric with that
  default raises.\<close>

definition validated_window :: "TimeWindow \<Rightarrow> string list \<Rightarrow> py_exc + (CompilationIssue + (TimeWindow \<times> string list))" where
  "validated_window w ws = (case validate_dates w of Inl e \<Rightarrow> Inl e | Inr v \<Rightarrow> Inr (Inr (v, ws)))"

definition resolve_time_window :: "string \<Rightarrow> MetricDefinition \<Rightarrow> TenantDomainPack \<Rightarrow> date
    \<Rightarrow> py_exc + (CompilationIssue + (TimeWindow \<times> string list))" where
  "resolve_time_window question metric pack anchor =
     (let n = normalize_text question; iso_dates = re_findall iso_date_pattern n in
      if iso_dates \<noteq> [] then
        (case explicit_window n iso_dates metric pack anchor of Inl i \<Rightarrow> Inr (Inl i) | Inr w \<Rightarrow> validated_window w [])
      else (case List.find (\<lambda>(phrases, p, g). \<exists>ph\<in>set phrases. str_contains ph n) time_phrases of
          Some (phrases, preset, grain) \<Rightarrow>
            if grain \<notin> set (md_supported_time_grains metric)
            then Inr (Inl (make_issue ''TIME_GRAIN_NOT_SUPPORTED''
               (''Metric '' @ py_repr (md_id metric) @ '' does not support the requested '' @ grain_value grain @ '' grain.'')
               (Some ''time_window.grain'')))
            else validated_window (make_window pack anchor preset grain None None) []
        | None \<Rightarrow> validated_window (make_window pack anchor (md_default_time_window metric) (md_default_time_grain metric) None None)
                     [''DEFAULT_TIME_WINDOW_APPLIED'']))"

subsection \<open>Filters and comparison\<close>

definition value_matches :: "string \<Rightarrow> DimensionValue \<Rightarrow> bool" where
  "value_matches n v = (\<exists>ph\<in>set (dv_name v # id_words (dv_id v) # dv_aliases v). phrase_present n ph)"

definition entity_filter :: "string \<Rightarrow> string \<Rightarrow> BusinessEntity \<Rightarrow> QueryFilter list" where
  "entity_filter n d entity =
     (let matched = map dv_id (filter (value_matches n) (be_values entity)) in
      if matched = [] then []
      else [\<lparr>qf_dimension_id = d, qf_operator = OP_IN, qf_values = uniq_from [] matched\<rparr>])"

fun filters_for :: "string \<Rightarrow> (string \<rightharpoonup> BusinessEntity) \<Rightarrow> string list \<Rightarrow> py_exc + QueryFilter list" where
  "filters_for n entities [] = Inr []"
| "filters_for n entities (d # ds) =
     (case entities d of None \<Rightarrow> Inl KeyError
      | Some e \<Rightarrow> (case filters_for n entities ds of Inl x \<Rightarrow> Inl x | Inr fs \<Rightarrow> Inr (entity_filter n d e @ fs)))"

definition resolve_filters :: "string \<Rightarrow> TenantDomainPack \<Rightarrow> MetricDefinition \<Rightarrow> py_exc + QueryFilter list" where
  "resolve_filters question pack metric =
     filters_for (normalize_text question) (dict_of be_id (pk_entities pack)) (md_allowed_dimensions metric)"

definition resolve_comparison :: "string \<Rightarrow> QuestionIntent \<Rightarrow> MetricDefinition \<Rightarrow> ComparisonType \<times> string list" where
  "resolve_comparison question intent metric =
     (let n = normalize_text question in
      if \<exists>ph\<in>set [''year over year'', ''year-over-year'', ''yoy'', ''same period last year'']. str_contains ph n
        then (YEAR_OVER_YEAR, [])
      else if \<exists>ph\<in>set [''previous period'', ''prior period'', ''compared to last'', ''compared with last'',
            ''compared to previous'', ''compared with previous'', ''versus last'', ''versus previous'',
            ''vs last'', ''vs previous'']. str_contains ph n
        then (PRIOR_PERIOD, [])
      else if intent = COMPARISON \<and> md_default_comparison metric \<noteq> NO_COMPARISON
        then (md_default_comparison metric, [''DEFAULT_COMPARISON_APPLIED''])
      else (NO_COMPARISON, []))"

subsection \<open>The plan\<close>

record PlanPayload =
  pp_tenant_id :: string
  pp_user_id :: string
  pp_metric_id :: string
  pp_semantic_version :: string
  pp_dimensions :: "string list"
  pp_filters :: "QueryFilter list"
  pp_time_window :: TimeWindow
  pp_comparison :: ComparisonType
  pp_access_scope :: AccessScope
  pp_source_connector_id :: string
  pp_currency :: "string option"
  pp_pack_version :: string
  pp_snapshot_hash :: string
  pp_requires_external :: bool

definition plan_payload :: "AccessContext \<Rightarrow> MetricDefinition \<Rightarrow> TenantDomainPack \<Rightarrow> string list \<Rightarrow> QueryFilter list
    \<Rightarrow> TimeWindow \<Rightarrow> ComparisonType \<Rightarrow> AccessScope \<Rightarrow> string \<Rightarrow> bool \<Rightarrow> PlanPayload" where
  "plan_payload access metric pack dims filters window cmp scope shash ext =
     \<lparr>pp_tenant_id = ac_tenant_id access, pp_user_id = ac_user_id access, pp_metric_id = md_id metric,
      pp_semantic_version = md_semantic_version metric, pp_dimensions = dims, pp_filters = filters,
      pp_time_window = window, pp_comparison = cmp, pp_access_scope = scope,
      pp_source_connector_id = ds_connector_id (md_source metric),
      pp_currency = (if md_value_type metric = VT_CURRENCY then Some (pk_default_currency pack) else None),
      pp_pack_version = pk_version pack, pp_snapshot_hash = shash, pp_requires_external = ext\<rparr>"

definition access_scope_of :: "AccessContext \<Rightarrow> AccessScope" where
  "access_scope_of a =
     \<lparr>sc_roles = py_sorted (ac_roles a), sc_departments = py_sorted (ac_departments a),
      sc_regions = py_sorted (ac_regions a), sc_business_units = py_sorted (ac_business_units a),
      sc_actions = py_sorted (ac_actions a), sc_clearance = ac_clearance a,
      sc_enforcement = ''CONNECTOR_POLICY_PUSHDOWN_REQUIRED''\<rparr>"

record digests =
  dg_semantic :: "SemanticPayload \<Rightarrow> string"
  dg_plan :: "PlanPayload \<Rightarrow> string"

datatype compile_error = Semantics semantic_error | CompileRaised py_exc

definition build_ir :: "digests \<Rightarrow> uuid \<Rightarrow> instant \<Rightarrow> QueryCompilationRequest \<Rightarrow> QuestionDecision \<Rightarrow> uuid
    \<Rightarrow> TenantDomainPack \<Rightarrow> MetricDefinition \<Rightarrow> string list \<Rightarrow> QueryFilter list \<Rightarrow> TimeWindow \<Rightarrow> ComparisonType
    \<Rightarrow> string list \<Rightarrow> BusinessQueryIR" where
  "build_ir dg qid now req decision sid pack metric dims filters window cmp warnings =
     (let access = qr_access (cr_request req);
          scope = access_scope_of access;
          shash = semantic_snapshot_hash (dg_semantic dg) pack metric;
          ext = (qd_verdict decision = ACCEPT_EXTERNAL_AUGMENTED)
      in \<lparr>q_query_id = qid, q_session_id = sid, q_decision_id = qd_decision_id decision, q_created_at = now,
          q_tenant_id = ac_tenant_id access, q_user_id = ac_user_id access,
          q_question = qr_question (cr_request req), q_intent = qd_intent decision,
          q_metric_id = md_id metric, q_metric_name = md_name metric,
          q_semantic_version = md_semantic_version metric, q_value_type = md_value_type metric,
          q_aggregation = md_aggregation metric, q_additivity = md_additivity metric, q_unit = md_unit metric,
          q_currency = (if md_value_type metric = VT_CURRENCY then Some (pk_default_currency pack) else None),
          q_dimensions = dims, q_filters = filters, q_time_window = window, q_comparison = cmp,
          q_access_scope = scope, q_source_connector_id = ds_connector_id (md_source metric),
          q_pack_version = pk_version pack, q_snapshot_hash = shash,
          q_plan_hash = dg_plan dg (plan_payload access metric pack dims filters window cmp scope shash ext),
          q_requires_external = ext, q_warnings = warnings\<rparr>)"

definition compile_plan :: "digests \<Rightarrow> uuid \<Rightarrow> instant \<Rightarrow> QueryCompilationRequest \<Rightarrow> QuestionDecision \<Rightarrow> uuid
    \<Rightarrow> TenantDomainPack \<Rightarrow> MetricDefinition \<Rightarrow> BusinessEntity list \<Rightarrow> TimeWindow \<Rightarrow> string list
    \<Rightarrow> compile_error + QueryCompilationResult" where
  "compile_plan dg qid now req decision sid pack metric dimensions window time_warnings =
     (let question = qr_question (cr_request req); access = qr_access (cr_request req);
          cw = resolve_comparison question (qd_intent decision) metric;
          warnings = time_warnings @ snd cw
      in case resolve_filters question pack metric of Inl e \<Rightarrow> Inl (CompileRaised e)
         | Inr filters \<Rightarrow>
           (case resolve_dimensions access pack metric (map qf_dimension_id filters) of
              Inl (DimensionNotAllowed msg) \<Rightarrow> Inr (outcome sid decision INVALID
                (make_issue ''FILTER_DIMENSION_NOT_ALLOWED_FOR_METRIC'' msg (Some ''filters'')))
            | Inl (SemanticAccessDenied msg) \<Rightarrow> Inr (outcome sid decision NOT_ELIGIBLE
                (make_issue ''FILTER_DIMENSION_ACCESS_DENIED''
                   ''A detected filter dimension is not available to this user.'' (Some ''filters'')))
            | Inl e \<Rightarrow> Inl (Semantics e)
            | Inr _ \<Rightarrow> Inr
                \<lparr>qc_session_id = sid, qc_decision = decision, qc_status = COMPILED,
                 qc_query_ir = Some (build_ir dg qid now req decision sid pack metric (map be_id dimensions)
                                       filters window (fst cw) warnings),
                 qc_issues = [], qc_warnings = warnings\<rparr>))"

definition compile_metric :: "digests \<Rightarrow> uuid \<Rightarrow> instant \<Rightarrow> QueryCompilationRequest \<Rightarrow> QuestionDecision \<Rightarrow> uuid
    \<Rightarrow> TenantDomainPack \<Rightarrow> MetricDefinition \<Rightarrow> compile_error + QueryCompilationResult" where
  "compile_metric dg qid now req decision sid pack metric =
     (let access = qr_access (cr_request req) in
      if ds_status (md_source metric) \<noteq> SRC_AVAILABLE
        then Inr (outcome sid decision NOT_ELIGIBLE (make_issue ''GOVERNED_SOURCE_NOT_AVAILABLE''
               ''The metric does not currently have an available governed source.'' None))
      else (case resolve_dimensions access pack metric (qd_dimension_ids decision) of
          Inl (DimensionNotAllowed msg) \<Rightarrow> Inr (outcome sid decision INVALID
            (make_issue ''DIMENSION_NOT_ALLOWED_FOR_METRIC'' msg (Some ''dimensions'')))
        | Inl (SemanticAccessDenied msg) \<Rightarrow> Inr (outcome sid decision NOT_ELIGIBLE
            (make_issue ''DIMENSION_ACCESS_DENIED''
               ''At least one requested dimension is not available to this user.'' (Some ''dimensions'')))
        | Inl e \<Rightarrow> Inl (Semantics e)
        | Inr dimensions \<Rightarrow>
            (case resolve_time_window (qr_question (cr_request req)) metric pack (dt_date (cr_as_of req)) of
               Inl e \<Rightarrow> Inl (CompileRaised e)
             | Inr (Inl issue) \<Rightarrow> Inr (outcome sid decision INVALID issue)
             | Inr (Inr (window, warnings)) \<Rightarrow>
                 compile_plan dg qid now req decision sid pack metric dimensions window warnings)))"

definition compile :: "digests \<Rightarrow> pack_registry \<Rightarrow> uuid \<Rightarrow> instant \<Rightarrow> QueryCompilationRequest \<Rightarrow> QuestionDecision
    \<Rightarrow> uuid \<Rightarrow> compile_error + QueryCompilationResult" where
  "compile dg packs qid now req decision sid =
     (if qd_verdict decision \<notin> ELIGIBLE_VERDICTS
        then Inr (outcome sid decision NOT_ELIGIBLE (make_issue ''QUESTION_NOT_ELIGIBLE_FOR_DATA_COMPILATION''
          ''Only questions accepted for internal data or approved external augmentation can compile into Business Query IR.'' None))
      else (case uniq_from [] (qd_metric_ids decision) of
          [] \<Rightarrow> Inr (outcome sid decision INVALID (make_issue ''NO_GOVERNED_METRIC''
               ''The accepted question does not contain a governed metric.'' (Some ''metric_id'')))
        | [mid] \<Rightarrow>
            (case resolve_metric packs (qr_access (cr_request req)) mid of
               Inl (MetricNotFound msg) \<Rightarrow> Inr (outcome sid decision INVALID
                 (make_issue ''METRIC_NOT_FOUND'' msg (Some ''metric_id'')))
             | Inl (SemanticAccessDenied msg) \<Rightarrow> Inr (outcome sid decision NOT_ELIGIBLE
                 (make_issue ''SEMANTIC_ACCESS_DENIED''
                    ''The requested metric definition is not available to this user.'' None))
             | Inl e \<Rightarrow> Inl (Semantics e)
             | Inr (pack, metric) \<Rightarrow> compile_metric dg qid now req decision sid pack metric)
        | _ \<Rightarrow> Inr (outcome sid decision CLARIFICATION_REQUIRED
               (make_issue ''MULTIPLE_METRICS_REQUIRE_EXPLICIT_PLAN''
                  ''The question refers to multiple governed metrics. Select one primary metric or use a later multi-metric investigation plan.''
                  (Some ''metric_id'')))))"

subsection \<open>What compilation establishes\<close>

lemma mk_date_valid: "mk_date y m d = Inr x \<Longrightarrow> valid_date x"
  by (auto simp: mk_date_def split: if_splits)

lemma fromisoformat_valid: "date_fromisoformat s = Inr d \<Longrightarrow> valid_date d"
  by (auto simp: date_fromisoformat_def dest: mk_date_valid)

text \<open>A window is either a preset, anchored and to be resolved by the connector, or a valid date range.\<close>

definition window_ok :: "TenantDomainPack \<Rightarrow> MetricDefinition \<Rightarrow> date \<Rightarrow> TimeWindow \<Rightarrow> bool" where
  "window_ok pack metric anchor w \<longleftrightarrow>
     tw_anchor_date w = anchor \<and> tw_calendar w = pk_default_calendar pack
     \<and> tw_timezone w = pk_default_timezone pack
     \<and> (case (tw_start_date w, tw_end_date w) of
          (Some s, Some e) \<Rightarrow> tw_preset w = CUSTOM \<and> valid_date s \<and> valid_date e \<and> s \<le> e
            \<and> (tw_grain w = md_default_time_grain metric \<or> (s = e \<and> tw_grain w = DAY))
        | (None, None) \<Rightarrow> tw_grain w \<in> set (md_supported_time_grains metric)
            \<and> tw_preset w \<noteq> CUSTOM
        | _ \<Rightarrow> False)"

lemma explicit_window_ok:
  assumes "explicit_window n ds metric pack anchor = Inr w"
  shows "window_ok pack metric anchor w"
  using assms fromisoformat_valid
  by (auto simp: explicit_window_def window_ok_def make_window_def not_less
      split: if_splits sum.splits prod.splits)

lemma time_phrases_not_custom: "x \<in> set time_phrases \<Longrightarrow> fst (snd x) \<noteq> CUSTOM"
  by (auto simp: time_phrases_def)

lemma validated_window_Inr:
  "validated_window w ws = Inr (Inr (v, ws')) \<longleftrightarrow> is_ok (validate_dates w) \<and> v = w \<and> ws' = ws"
  "validated_window w ws = Inr x \<Longrightarrow> \<exists>v. x = Inr v"
  by (auto simp: validated_window_def validate_dates_def is_ok_def split: sum.splits option.splits if_splits)

lemma validated_window_make:
  "validated_window (make_window pack anchor p g None None) ws
     = (if p = CUSTOM then Inl ValueError else Inr (Inr (make_window pack anchor p g None None, ws)))"
  by (simp add: validated_window_def validate_dates_def make_window_def)

lemma window_ok_make:
  "window_ok pack metric anchor (make_window pack anchor p g None None) \<longleftrightarrow> g \<in> set (md_supported_time_grains metric) \<and> p \<noteq> CUSTOM"
  by (simp add: window_ok_def make_window_def)

lemma validated_explicit:
  assumes "explicit_window n ds metric pack anchor = Inr w"
  shows "validated_window w ws = Inr (Inr (w, ws))"
  using assms by (auto simp: explicit_window_def make_window_def validated_window_def validate_dates_def
      split: if_splits sum.splits prod.splits)

lemma resolve_time_window_ok:
  assumes "resolve_time_window q metric pack anchor = Inr (Inr (w, ws))"
    and "md_default_time_grain metric \<in> set (md_supported_time_grains metric)"
  shows "window_ok pack metric anchor w"
proof (cases "re_findall iso_date_pattern (normalize_text q) = []")
  case False
  then show ?thesis using assms explicit_window_ok
    by (auto simp: resolve_time_window_def Let_def validated_window_Inr split: sum.splits)
next
  case True
  let ?f = "List.find (\<lambda>(phrases, p, g). \<exists>ph\<in>set phrases. str_contains ph (normalize_text q)) time_phrases"
  show ?thesis
  proof (cases ?f)
    case None
    then show ?thesis using assms True
      by (auto simp: resolve_time_window_def Let_def window_ok_make validated_window_make split: if_splits)
  next
    case (Some x)
    with time_phrases_not_custom [of x] find_SomeD [OF Some] show ?thesis using assms True
      by (auto simp: resolve_time_window_def Let_def window_ok_make validated_window_make split: if_splits)
  qed
qed

lemma entity_filter_values:
  "f \<in> set (entity_filter n d e) \<Longrightarrow> qf_dimension_id f = d \<and> qf_values f \<noteq> [] \<and> distinct (qf_values f)
    \<and> set (qf_values f) = dv_id ` {v \<in> set (be_values e). value_matches n v}"
  by (auto simp: entity_filter_def Let_def set_uniq_from distinct_uniq_from uniq_from_Nil_iff filter_empty_conv
      split: if_splits)

definition filter_ok :: "string \<Rightarrow> TenantDomainPack \<Rightarrow> MetricDefinition \<Rightarrow> QueryFilter \<Rightarrow> bool" where
  "filter_ok n pack metric f \<longleftrightarrow> qf_dimension_id f \<in> set (md_allowed_dimensions metric)
     \<and> qf_values f \<noteq> [] \<and> distinct (qf_values f)
     \<and> (\<exists>e\<in>set (pk_entities pack). be_id e = qf_dimension_id f
           \<and> set (qf_values f) = dv_id ` {v \<in> set (be_values e). value_matches n v})"

lemma filters_for_ok:
  assumes "filters_for n (dict_of be_id es) ds = Inr fs" "f \<in> set fs"
  shows "qf_dimension_id f \<in> set ds \<and> qf_values f \<noteq> [] \<and> distinct (qf_values f)
     \<and> (\<exists>e\<in>set es. be_id e = qf_dimension_id f
           \<and> set (qf_values f) = dv_id ` {v \<in> set (be_values e). value_matches n v})"
  using assms
proof (induction ds arbitrary: fs)
  case (Cons d ds)
  from Cons.prems(1) obtain e fs' where e: "dict_of be_id es d = Some e"
    and fs': "filters_for n (dict_of be_id es) ds = Inr fs'" and fs: "fs = entity_filter n d e @ fs'"
    by (auto split: option.splits)
  from Cons.prems(2) fs consider "f \<in> set (entity_filter n d e)" | "f \<in> set fs'" by auto
  then show ?case
  proof cases
    case 1
    with entity_filter_values [OF 1] dict_of_SomeD [OF e] show ?thesis by auto
  next
    case 2
    with Cons.IH [OF fs'] show ?thesis by simp
  qed
qed simp

lemma resolve_filters_ok:
  "resolve_filters q pack metric = Inr fs \<Longrightarrow> f \<in> set fs \<Longrightarrow> filter_ok (normalize_text q) pack metric f"
  unfolding resolve_filters_def filter_ok_def using filters_for_ok by blast

lemma filters_for_total: "set ds \<subseteq> dom entities \<Longrightarrow> is_ok (filters_for n entities ds)"
  by (induction ds) (auto split: sum.split)

lemma resolve_filters_total:
  assumes "pack_wf pack" "metric \<in> set (pk_metrics pack)"
  shows "is_ok (resolve_filters q pack metric)"
  unfolding resolve_filters_def
  using pack_wf_metric [OF assms] by (intro filters_for_total) (simp add: dom_dict_of metric_ok_def)

text \<open>How a plan is obtained: the inversion of the three stages.\<close>

lemma compile_plan_COMPILED:
  assumes "compile_plan dg qid now req dec sid pack metric dims window ws = Inr r" "qc_status r = COMPILED"
  shows "\<exists>filters. resolve_filters (qr_question (cr_request req)) pack metric = Inr filters
    \<and> is_ok (resolve_dimensions (qr_access (cr_request req)) pack metric (map qf_dimension_id filters))
    \<and> qc_issues r = []
    \<and> qc_query_ir r = Some (build_ir dg qid now req dec sid pack metric (map be_id dims) filters window
         (fst (resolve_comparison (qr_question (cr_request req)) (qd_intent dec) metric)) (qc_warnings r))"
  using assms
  by (auto simp: compile_plan_def Let_def outcome_def split: sum.splits semantic_error.splits)

lemma compile_metric_COMPILED:
  assumes "compile_metric dg qid now req dec sid pack metric = Inr r" "qc_status r = COMPILED"
  shows "ds_status (md_source metric) = SRC_AVAILABLE \<and> (\<exists>dims window ws.
    resolve_dimensions (qr_access (cr_request req)) pack metric (qd_dimension_ids dec) = Inr dims
    \<and> resolve_time_window (qr_question (cr_request req)) metric pack (dt_date (cr_as_of req)) = Inr (Inr (window, ws))
    \<and> compile_plan dg qid now req dec sid pack metric dims window ws = Inr r)"
  using assms
  by (auto simp: compile_metric_def Let_def outcome_def split: if_splits sum.splits semantic_error.splits)

lemma compile_COMPILED:
  assumes "compile dg packs qid now req dec sid = Inr r" "qc_status r = COMPILED"
  shows "qd_verdict dec \<in> ELIGIBLE_VERDICTS \<and> (\<exists>mid pack metric. uniq_from [] (qd_metric_ids dec) = [mid]
    \<and> resolve_metric packs (qr_access (cr_request req)) mid = Inr (pack, metric)
    \<and> compile_metric dg qid now req dec sid pack metric = Inr r)"
  using assms
  by (auto simp: compile_def outcome_def split: if_splits list.splits sum.splits semantic_error.splits)

lemma resolve_each_cleared:
  assumes "resolve_each access pack metric [] ids = Inr es" "raw \<in> set ids"
  shows "\<exists>e\<in>set (pk_entities pack). be_id e = py_upper (py_strip raw) \<and> be_classification e \<le> ac_clearance access"
proof -
  note r = resolve_each_Inr [OF assms(1)]
  have "py_upper (py_strip raw) \<in> set (uniq_from [] (map (\<lambda>d. py_upper (py_strip d)) ids))"
    using assms(2) by (simp add: set_uniq_from)
  with r have "py_upper (py_strip raw) \<in> set (map be_id es)" by simp
  then obtain e where "e \<in> set es" "be_id e = py_upper (py_strip raw)" by auto
  with r show ?thesis by blast
qed

subsection \<open>Properties\<close>

text \<open>What a compiled plan may contain for the caller of a request.\<close>

definition plan_governed :: "TenantDomainPack \<Rightarrow> QueryCompilationRequest \<Rightarrow> QuestionDecision \<Rightarrow> BusinessQueryIR \<Rightarrow> bool" where
  "plan_governed pack req dec ir \<longleftrightarrow> (let access = qr_access (cr_request req) in
     pk_tenant_id pack = ac_tenant_id access \<and> q_tenant_id ir = ac_tenant_id access
     \<and> q_user_id ir = ac_user_id access \<and> q_access_scope ir = access_scope_of access
     \<and> q_pack_version ir = pk_version pack \<and> allowed (can_read_data access)
     \<and> (\<exists>metric\<in>set (pk_metrics pack).
          uniq_from [] (map (\<lambda>m. py_upper (py_strip m)) (qd_metric_ids dec)) = [q_metric_id ir]
          \<and> md_id metric = q_metric_id ir \<and> md_classification metric \<le> ac_clearance access
          \<and> ds_status (md_source metric) = SRC_AVAILABLE
          \<and> q_source_connector_id ir = ds_connector_id (md_source metric)
          \<and> q_aggregation ir = md_aggregation metric \<and> q_additivity ir = md_additivity metric
          \<and> window_ok pack metric (dt_date (cr_as_of req)) (q_time_window ir)
          \<and> distinct (q_dimensions ir)
          \<and> set (q_dimensions ir) = (\<lambda>d. py_upper (py_strip d)) ` set (qd_dimension_ids dec)
          \<and> (\<forall>d\<in>set (q_dimensions ir). d \<in> set (md_allowed_dimensions metric)
               \<and> (\<exists>e\<in>set (pk_entities pack). be_id e = d \<and> be_classification e \<le> ac_clearance access))
          \<and> (\<forall>f\<in>set (q_filters ir). filter_ok (normalize_text (qr_question (cr_request req))) pack metric f
               \<and> (\<exists>e\<in>set (pk_entities pack). be_id e = py_upper (py_strip (qf_dimension_id f))
                      \<and> be_classification e \<le> ac_clearance access))))"

lemma uniq_from_singleton_map:
  assumes "uniq_from [] xs = [x]"
  shows "uniq_from [] (map f xs) = [f x]"
proof -
  have "set xs = {x}" using set_uniq_from [of "[]" xs] assms by simp
  then obtain ys where "xs = x # ys" "set ys \<subseteq> {x}" by (cases xs) auto
  then have "set (map f ys) \<subseteq> set [f x]" by auto
  then have "uniq_from [f x] (map f ys) = []" by (simp only: uniq_from_Nil_iff)
  with \<open>xs = x # ys\<close> show ?thesis by simp
qed

lemma build_ir_simps [simp]:
  "q_tenant_id (build_ir dg qid now req dec sid pack metric dims fs w c ws) = ac_tenant_id (qr_access (cr_request req))"
  "q_user_id (build_ir dg qid now req dec sid pack metric dims fs w c ws) = ac_user_id (qr_access (cr_request req))"
  "q_access_scope (build_ir dg qid now req dec sid pack metric dims fs w c ws) = access_scope_of (qr_access (cr_request req))"
  "q_pack_version (build_ir dg qid now req dec sid pack metric dims fs w c ws) = pk_version pack"
  "q_metric_id (build_ir dg qid now req dec sid pack metric dims fs w c ws) = md_id metric"
  "q_source_connector_id (build_ir dg qid now req dec sid pack metric dims fs w c ws) = ds_connector_id (md_source metric)"
  "q_aggregation (build_ir dg qid now req dec sid pack metric dims fs w c ws) = md_aggregation metric"
  "q_additivity (build_ir dg qid now req dec sid pack metric dims fs w c ws) = md_additivity metric"
  "q_time_window (build_ir dg qid now req dec sid pack metric dims fs w c ws) = w"
  "q_dimensions (build_ir dg qid now req dec sid pack metric dims fs w c ws) = dims"
  "q_filters (build_ir dg qid now req dec sid pack metric dims fs w c ws) = fs"
  by (simp_all add: build_ir_def Let_def)

lemma compile_governed:
  assumes "registry_ok packs" "compile dg packs qid now req dec sid = Inr r" "qc_status r = COMPILED"
  shows "qd_verdict dec \<in> ELIGIBLE_VERDICTS \<and>
    (\<exists>pack ir. packs (ac_tenant_id (qr_access (cr_request req))) = Some pack \<and> qc_query_ir r = Some ir
       \<and> plan_governed pack req dec ir)"
proof -
  let ?a = "qr_access (cr_request req)" and ?q = "qr_question (cr_request req)"
  from compile_COMPILED [OF assms(2,3)] obtain mid pack metric where
    v: "qd_verdict dec \<in> ELIGIBLE_VERDICTS" and mid: "uniq_from [] (qd_metric_ids dec) = [mid]" and
    m: "resolve_metric packs ?a mid = Inr (pack, metric)" and
    cm: "compile_metric dg qid now req dec sid pack metric = Inr r" by blast
  from compile_metric_COMPILED [OF cm assms(3)] obtain dims window ws where
    src: "ds_status (md_source metric) = SRC_AVAILABLE" and
    dims: "resolve_dimensions ?a pack metric (qd_dimension_ids dec) = Inr dims" and
    win: "resolve_time_window ?q metric pack (dt_date (cr_as_of req)) = Inr (Inr (window, ws))" and
    cp: "compile_plan dg qid now req dec sid pack metric dims window ws = Inr r" by blast
  from compile_plan_COMPILED [OF cp assms(3)] obtain filters cmp where
    fs: "resolve_filters ?q pack metric = Inr filters" and
    fd: "is_ok (resolve_dimensions ?a pack metric (map qf_dimension_id filters))" and
    ir: "qc_query_ir r = Some (build_ir dg qid now req dec sid pack metric (map be_id dims) filters window cmp (qc_warnings r))"
    by blast
  note rm = resolve_metric_Inr [OF m] and rd = resolve_each_Inr [OF dims [unfolded resolve_dimensions_def]]
  have pack: "pk_tenant_id pack = ac_tenant_id ?a" "pack_wf pack" using assms(1) rm(1) by (auto simp: registry_ok_def)
  then have "md_default_time_grain metric \<in> set (md_supported_time_grains metric)"
    using pack_wf_metric rm(2) by (auto simp: metric_ok_def)
  from resolve_time_window_ok [OF win this] have w: "window_ok pack metric (dt_date (cr_as_of req)) window" .
  have d: "distinct (map be_id dims)" "set (map be_id dims) = (\<lambda>d. py_upper (py_strip d)) ` set (qd_dimension_ids dec)"
    using rd by (simp_all add: distinct_uniq_from set_uniq_from)
  have "\<forall>d\<in>set (map be_id dims). d \<in> set (md_allowed_dimensions metric)
      \<and> (\<exists>e\<in>set (pk_entities pack). be_id e = d \<and> be_classification e \<le> ac_clearance ?a)"
    using rd [THEN conjunct2] by auto
  moreover have "\<forall>f\<in>set filters. filter_ok (normalize_text ?q) pack metric f
      \<and> (\<exists>e\<in>set (pk_entities pack). be_id e = py_upper (py_strip (qf_dimension_id f))
            \<and> be_classification e \<le> ac_clearance ?a)"
    using resolve_filters_ok [OF fs] fd resolve_each_cleared [of ?a pack metric "map qf_dimension_id filters"]
    by (fastforce simp: is_ok_iff resolve_dimensions_def)
  moreover have "uniq_from [] (map (\<lambda>m. py_upper (py_strip m)) (qd_metric_ids dec)) = [md_id metric]"
    using uniq_from_singleton_map [OF mid] rm(3) by simp
  ultimately have "plan_governed pack req dec
      (build_ir dg qid now req dec sid pack metric (map be_id dims) filters window cmp (qc_warnings r))"
    unfolding plan_governed_def Let_def build_ir_simps using pack src w d rm
    by (intro conjI bexI [of _ metric]) (assumption | simp)+
  with v rm(1) ir show ?thesis by blast
qed

text \<open>C9: A question compiles only into a plan its caller may run: the verdict is eligible, the plan has the
  caller's own tenant, identity and access scope, exactly one metric, of the tenant's pack, readable,
  cleared and with an available source; its dimensions are the decision's, each allowed for the metric
  and within clearance; its filters are values of allowed dimensions found in the question; and its
  window is a supported preset or an ordered range of valid dates.\<close>

theorem compiled_plan_governed:
  assumes "registry_ok packs" "compile dg packs qid now req dec sid = Inr r" "qc_status r = COMPILED"
  shows "qd_verdict dec \<in> ELIGIBLE_VERDICTS \<and>
    (\<exists>pack ir. packs (ac_tenant_id (qr_access (cr_request req))) = Some pack \<and> qc_query_ir r = Some ir
       \<and> plan_governed pack req dec ir)"
  by (rule compile_governed [OF assms])

text \<open>A metric whose default window is \<open>CUSTOM\<close> has no window for a question that names no period.\<close>

lemma resolve_time_window_Inl:
  assumes "resolve_time_window q metric pack anchor = Inl e"
  shows "md_default_time_window metric = CUSTOM"
proof (cases "re_findall iso_date_pattern (normalize_text q) = []")
  case False
  then show ?thesis using assms
    by (cases "explicit_window (normalize_text q) (re_findall iso_date_pattern (normalize_text q)) metric pack anchor")
       (simp_all add: resolve_time_window_def Let_def validated_explicit)
next
  case True
  show ?thesis
  proof (cases "List.find (\<lambda>(phrases, p, g). \<exists>ph\<in>set phrases. str_contains ph (normalize_text q)) time_phrases")
    case None
    with True assms show ?thesis by (simp add: resolve_time_window_def Let_def validated_window_make split: if_splits)
  next
    case (Some x)
    obtain phrases p g where x: "x = (phrases, p, g)" by (cases x)
    with find_SomeD [OF Some] time_phrases_not_custom [of x] have "p \<noteq> CUSTOM" by simp
    with True assms Some x show ?thesis by (simp add: resolve_time_window_def Let_def validated_window_make split: if_splits)
  qed
qed

lemma compile_metric_total:
  assumes "pack_wf pack" "metric \<in> set (pk_metrics pack)" "md_default_time_window metric \<noteq> CUSTOM"
  shows "is_ok (compile_metric dg qid now req dec sid pack metric)"
proof -
  obtain fs where "resolve_filters (qr_question (cr_request req)) pack metric = Inr fs"
    using resolve_filters_total [OF assms(1,2)] by (auto simp: is_ok_iff)
  then have plan: "is_ok (compile_plan dg qid now req dec sid pack metric dims w ws)" for dims w ws
    using resolve_each_error [of "qr_access (cr_request req)" pack metric "[]"]
    by (fastforce simp: compile_plan_def Let_def resolve_dimensions_def split: sum.splits semantic_error.splits)
  obtain x where x: "resolve_time_window (qr_question (cr_request req)) metric pack (dt_date (cr_as_of req)) = Inr x"
    using resolve_time_window_Inl assms(3) by (cases "resolve_time_window (qr_question (cr_request req)) metric pack (dt_date (cr_as_of req))") auto
  have window: "is_ok (case x of Inl issue \<Rightarrow> Inr (outcome sid dec INVALID issue)
      | Inr (window, warnings) \<Rightarrow> compile_plan dg qid now req dec sid pack metric dims window warnings)" for dims
    using plan by (simp split: sum.splits prod.splits)
  show ?thesis
    using resolve_each_error [of "qr_access (cr_request req)" pack metric "[]"] window
    by (fastforce simp: compile_metric_def Let_def resolve_dimensions_def x split: sum.split semantic_error.splits)
qed

text \<open>Compilation over a loaded registry fails with an exception only when the caller's tenant has no
  pack (the registry's own error), or for a metric whose default window is \<open>CUSTOM\<close>; everything else is a result.\<close>

theorem compile_raises_only_without_pack:
  assumes "registry_ok packs" "compile dg packs qid now req dec sid = Inl e"
  shows "(e = Semantics (Registry (PackNotFound (ac_tenant_id (qr_access (cr_request req)))))
      \<and> packs (ac_tenant_id (qr_access (cr_request req))) = None)
    \<or> (\<exists>pack. packs (ac_tenant_id (qr_access (cr_request req))) = Some pack
      \<and> (\<exists>metric\<in>set (pk_metrics pack). md_default_time_window metric = CUSTOM))"
proof -
  let ?a = "qr_access (cr_request req)"
  obtain mid where c: "(case resolve_metric packs ?a mid of
               Inl (MetricNotFound msg) \<Rightarrow> Inr (outcome sid dec INVALID
                 (make_issue ''METRIC_NOT_FOUND'' msg (Some ''metric_id'')))
             | Inl (SemanticAccessDenied msg) \<Rightarrow> Inr (outcome sid dec NOT_ELIGIBLE
                 (make_issue ''SEMANTIC_ACCESS_DENIED''
                    ''The requested metric definition is not available to this user.'' None))
             | Inl e \<Rightarrow> Inl (Semantics e)
             | Inr (pack, metric) \<Rightarrow> compile_metric dg qid now req dec sid pack metric) = Inl e"
    using assms(2) by (auto simp: compile_def split: if_splits list.splits)
  show ?thesis
  proof (cases "resolve_metric packs ?a mid")
    case (Inr pm)
    obtain pack metric where pm: "pm = (pack, metric)" by (cases pm)
    from resolve_metric_Inr [OF Inr [unfolded pm]] assms(1) have "pack_wf pack" "metric \<in> set (pk_metrics pack)"
      by (auto simp: registry_ok_def)
    from compile_metric_total [OF this, of dg qid now req dec sid] c Inr pm this(2) resolve_metric_Inr [OF Inr [unfolded pm]]
    show ?thesis by (cases "md_default_time_window metric = CUSTOM") auto
  next
    case (Inl x)
    then show ?thesis using c
      by (auto simp: resolve_metric_def registry_get_def Let_def simp del: allowed_iff
          split: if_splits option.splits semantic_error.splits sum.splits)
  qed
qed

definition result_shape :: "uuid \<Rightarrow> QuestionDecision \<Rightarrow> compile_error + QueryCompilationResult \<Rightarrow> bool" where
  "result_shape sid dec x = (case x of Inl e \<Rightarrow> True
     | Inr r \<Rightarrow> qc_decision r = dec \<and> qc_session_id r = sid
         \<and> (qc_query_ir r \<noteq> None) = (qc_status r = COMPILED)
         \<and> length (qc_issues r) = (if qc_status r = COMPILED then 0 else 1))"

lemma result_shape_simps [simp]:
  "result_shape sid dec (Inl e)"
  "result_shape sid dec (Inr (outcome sid dec st i)) \<longleftrightarrow> st \<noteq> COMPILED"
  by (auto simp: result_shape_def outcome_def)

lemma compile_plan_shape:
  "result_shape sid dec (compile_plan dg qid now req dec sid pack metric dims w ws)"
  by (auto simp: compile_plan_def Let_def split: sum.split semantic_error.split)
     (simp add: result_shape_def)

lemma compile_metric_shape: "result_shape sid dec (compile_metric dg qid now req dec sid pack metric)"
  by (auto simp: compile_metric_def Let_def compile_plan_shape split: sum.split semantic_error.split)

lemma compile_shape: "result_shape sid dec (compile dg packs qid now req dec sid)"
  by (auto simp: compile_def compile_metric_shape split: sum.split semantic_error.split list.split)

text \<open>A compilation result carries a plan exactly when its status is \<open>COMPILED\<close>, and otherwise exactly
  one issue; it always repeats the decision and the session it was asked for.\<close>

theorem compile_result_shape: "result_shape sid dec (compile dg packs qid now req dec sid)"
  by (rule compile_shape)

lemma compile_ir_status:
  "result_shape sid dec (Inr r) \<Longrightarrow> qc_query_ir r = Some ir \<Longrightarrow> qc_status r = COMPILED"
  by (simp add: result_shape_def)

text \<open>The payload a plan's hash covers, read off the plan.\<close>

definition payload_of_ir :: "BusinessQueryIR \<Rightarrow> PlanPayload" where
  "payload_of_ir ir =
     \<lparr>pp_tenant_id = q_tenant_id ir, pp_user_id = q_user_id ir, pp_metric_id = q_metric_id ir,
      pp_semantic_version = q_semantic_version ir, pp_dimensions = q_dimensions ir, pp_filters = q_filters ir,
      pp_time_window = q_time_window ir, pp_comparison = q_comparison ir, pp_access_scope = q_access_scope ir,
      pp_source_connector_id = q_source_connector_id ir, pp_currency = q_currency ir,
      pp_pack_version = q_pack_version ir, pp_snapshot_hash = q_snapshot_hash ir,
      pp_requires_external = q_requires_external ir\<rparr>"

text \<open>The plan hash can be recomputed from the plan alone: it is the digest of the plan's own tenant,
  user, metric and version, dimensions, filters, window, comparison, scope, source, currency, pack
  version, snapshot hash and external flag.\<close>

theorem plan_hash_covers_plan:
  assumes "compile dg packs qid now req dec sid = Inr r" "qc_query_ir r = Some ir"
  shows "q_plan_hash ir = dg_plan dg (payload_of_ir ir)"
proof -
  have s: "qc_status r = COMPILED"
    using compile_shape [of sid dec dg packs qid now req] assms by (simp add: compile_ir_status)
  from compile_COMPILED [OF assms(1) s] obtain pack metric where
    "compile_metric dg qid now req dec sid pack metric = Inr r" by blast
  from compile_metric_COMPILED [OF this s] obtain dims window ws where
    "compile_plan dg qid now req dec sid pack metric dims window ws = Inr r" by blast
  from compile_plan_COMPILED [OF this s] assms(2) show ?thesis
    by (auto simp: build_ir_def payload_of_ir_def plan_payload_def Let_def)
qed

subsection \<open>A compiled plan of the sample pack\<close>

definition demo_digests :: digests where
  "demo_digests = \<lparr>dg_semantic = (\<lambda>p. sp_pack_version p), dg_plan = (\<lambda>p. pp_metric_id p)\<rparr>"

definition demo_request :: "string \<Rightarrow> QueryCompilationRequest" where
  "demo_request q = \<lparr>cr_request = \<lparr>qr_question = q, qr_access = analyst, qr_session_id = None, qr_use_llm = True\<rparr>,
     cr_as_of = DateTime (Date 2026 8 20) 0 0\<rparr>"

definition demo_decision :: QuestionDecision where
  "demo_decision = make_decision ''d1'' 0 (cr_request (demo_request ''sales yoy'')) demo_pack
     (accept_stage analyst [activations] []) METRIC_LOOKUP (Some activations_reading)"

lemma demo_compiled:
  "case compile demo_digests [''demo-telecom'' \<mapsto> demo_pack] ''q1'' 0 (demo_request ''sales yoy'') demo_decision ''s1'' of
     Inl e \<Rightarrow> False
   | Inr r \<Rightarrow> qc_status r = COMPILED \<and> map_option q_dimensions (qc_query_ir r) = Some [''REGION'']
       \<and> map_option q_comparison (qc_query_ir r) = Some YEAR_OVER_YEAR"
  by code_simp

theorem compiled_plan_governed_witness:
  "\<exists>ir. plan_governed demo_pack (demo_request ''sales yoy'') demo_decision ir \<and> q_dimensions ir = [''REGION'']"
proof -
  let ?r = "compile demo_digests [''demo-telecom'' \<mapsto> demo_pack] ''q1'' 0 (demo_request ''sales yoy'') demo_decision ''s1''"
  obtain r where r: "?r = Inr r" "qc_status r = COMPILED" "map_option q_dimensions (qc_query_ir r) = Some [''REGION'']"
    using demo_compiled by (cases ?r) auto
  from compiled_plan_governed [OF demo_registry_ok r(1,2)] r(3) show ?thesis
    by (auto simp: demo_request_def analyst_def)
qed

theorem compile_raises_only_without_pack_witness:
  "compile demo_digests Map.empty ''q1'' 0 (demo_request ''sales yoy'') demo_decision ''s1''
     = Inl (Semantics (Registry (PackNotFound ''demo-telecom'')))"
proof -
  let ?r = "compile demo_digests Map.empty ''q1'' 0 (demo_request ''sales yoy'') demo_decision ''s1''"
  have "\<not> is_ok ?r" by code_simp
  then obtain e where e: "?r = Inl e" by (cases ?r) auto
  from compile_raises_only_without_pack [OF _ e] e show ?thesis
    by (simp add: registry_ok_def demo_request_def analyst_def)
qed

theorem plan_hash_covers_plan_witness:
  "\<exists>ir. q_plan_hash ir = pp_metric_id (payload_of_ir ir) \<and> q_dimensions ir = [''REGION'']"
proof -
  let ?r = "compile demo_digests [''demo-telecom'' \<mapsto> demo_pack] ''q1'' 0 (demo_request ''sales yoy'') demo_decision ''s1''"
  obtain r ir where r: "?r = Inr r" "qc_query_ir r = Some ir" "q_dimensions ir = [''REGION'']"
    using demo_compiled by (cases ?r) auto
  from plan_hash_covers_plan [OF r(1,2)] r(3) show ?thesis by (auto simp: demo_digests_def)
qed

subsection \<open>The single explicit date\<close>

definition monthly :: MetricDefinition where
  "monthly = activations\<lparr>md_supported_time_grains := [MONTH]\<rparr>"

text \<open>The grain check covers presets only: a metric that supports monthly grain alone rejects
  \<open>today\<close> with \<open>TIME_GRAIN_NOT_SUPPORTED\<close> but accepts \<open>on\<close> an explicit day at grain \<open>DAY\<close>.\<close>

theorem explicit_day_bypasses_grain_check:
  "md_supported_time_grains monthly = [MONTH]
   \<and> (case resolve_time_window ''sales today'' monthly demo_pack (Date 2026 8 20) of
        Inr (Inl issue) \<Rightarrow> ci_code issue = ''TIME_GRAIN_NOT_SUPPORTED'' | _ \<Rightarrow> False)
   \<and> (case resolve_time_window ''sales on 2026-08-01'' monthly demo_pack (Date 2026 8 20) of
        Inr (Inr (w, ws)) \<Rightarrow> tw_grain w = DAY \<and> tw_start_date w = Some (Date 2026 8 1) \<and> tw_end_date w = Some (Date 2026 8 1) | _ \<Rightarrow> False)"
  by code_simp

end
