(* ===== verification/Periods.thy ===== *)
theory Periods
  imports Models
begin

section \<open>Periods: resolving windows and comparisons to date ranges\<close>

text \<open>
  The date arithmetic of \<open>connectors/demo_sqlite.py\<close> that every connector shares:
  \<open>resolve_time_window\<close>, \<open>resolve_comparison_range\<close>, \<open>_shift_year\<close> and \<open>_month_starts\<close>.
  \<open>date\<close> construction raises \<open>ValueError\<close>, subtraction of a \<open>timedelta\<close> below year 1 raises
  \<open>OverflowError\<close>.
\<close>

record ResolvedRange =
  rr_start :: date
  rr_end :: date

definition range_of :: "date \<Rightarrow> date \<Rightarrow> ResolvedRange" where
  "range_of s e = \<lparr>rr_start = s, rr_end = e\<rparr>"

definition first_of_month :: "date \<Rightarrow> date" where
  "first_of_month d = Date (year d) (month d) 1"

definition quarter_start_month :: "int \<Rightarrow> int" where
  "quarter_start_month m = ((m - 1) div 3) * 3 + 1"

definition resolve_window :: "TimeWindow \<Rightarrow> py_exc + ResolvedRange" where
  "resolve_window w =
     (let anchor = tw_anchor_date w in
      case tw_preset w of
        CUSTOM \<Rightarrow> (case (tw_start_date w, tw_end_date w) of
            (Some s, Some e) \<Rightarrow> Inr (range_of s e)
          | _ \<Rightarrow> Inl ValueError)
      | CURRENT_DAY \<Rightarrow> Inr (range_of anchor anchor)
      | PREVIOUS_COMPLETE_DAY \<Rightarrow>
          (case date_add anchor (- 1) of Inl e \<Rightarrow> Inl e | Inr prior \<Rightarrow> Inr (range_of prior prior))
      | CURRENT_WEEK \<Rightarrow>
          (case date_add anchor (- weekday anchor) of Inl e \<Rightarrow> Inl e | Inr s \<Rightarrow> Inr (range_of s anchor))
      | PREVIOUS_COMPLETE_WEEK \<Rightarrow>
          (case date_add anchor (- (weekday anchor + 1)) of Inl e \<Rightarrow> Inl e
           | Inr e \<Rightarrow> (case date_add e (- 6) of Inl x \<Rightarrow> Inl x | Inr s \<Rightarrow> Inr (range_of s e)))
      | CURRENT_MONTH \<Rightarrow> Inr (range_of (first_of_month anchor) anchor)
      | PREVIOUS_COMPLETE_MONTH \<Rightarrow>
          (case date_add (first_of_month anchor) (- 1) of Inl e \<Rightarrow> Inl e
           | Inr e \<Rightarrow> Inr (range_of (first_of_month e) e))
      | CURRENT_QUARTER \<Rightarrow>
          (case mk_date (year anchor) (quarter_start_month (month anchor)) 1 of Inl e \<Rightarrow> Inl e
           | Inr s \<Rightarrow> Inr (range_of s anchor))
      | PREVIOUS_COMPLETE_QUARTER \<Rightarrow>
          (case mk_date (year anchor) (quarter_start_month (month anchor)) 1 of Inl e \<Rightarrow> Inl e
           | Inr current_start \<Rightarrow>
             (case date_add current_start (- 1) of Inl e \<Rightarrow> Inl e
              | Inr e \<Rightarrow>
                (case mk_date (year e) (quarter_start_month (month e)) 1 of Inl x \<Rightarrow> Inl x
                 | Inr s \<Rightarrow> Inr (range_of s e))))
      | CURRENT_YEAR \<Rightarrow>
          (case mk_date (year anchor) 1 1 of Inl e \<Rightarrow> Inl e | Inr s \<Rightarrow> Inr (range_of s anchor))
      | PREVIOUS_COMPLETE_YEAR \<Rightarrow>
          (case mk_date (year anchor - 1) 1 1 of Inl e \<Rightarrow> Inl e
           | Inr s \<Rightarrow> (case mk_date (year anchor - 1) 12 31 of Inl x \<Rightarrow> Inl x | Inr e \<Rightarrow> Inr (range_of s e)))
      | ROLLING_30_DAYS \<Rightarrow>
          (case date_add anchor (- 29) of Inl e \<Rightarrow> Inl e | Inr s \<Rightarrow> Inr (range_of s anchor))
      | ROLLING_12_MONTHS \<Rightarrow>
          (let m = month anchor + 1; y = year anchor - 1;
               m' = (if m = 13 then 1 else m); y' = (if m = 13 then y + 1 else y)
           in case mk_date y' m' 1 of Inl e \<Rightarrow> Inl e | Inr s \<Rightarrow> Inr (range_of s anchor)))"

text \<open>\<open>monthrange\<close> accepts year 0, so that the error is that of the \<open>date\<close> constructor.\<close>

definition shift_year :: "date \<Rightarrow> int \<Rightarrow> py_exc + date" where
  "shift_year v years =
     (let target = year v + years; d = min (day v) (days_in_month target (month v))
      in mk_date target (month v) d)"

definition resolve_comparison_range :: "ResolvedRange \<Rightarrow> ComparisonType \<Rightarrow> py_exc + ResolvedRange option" where
  "resolve_comparison_range cur kind =
     (case kind of
        NO_COMPARISON \<Rightarrow> Inr None
      | PRIOR_PERIOD \<Rightarrow>
          (let duration = to_ord (rr_end cur) - to_ord (rr_start cur) in
           case date_add (rr_start cur) (- 1) of Inl e \<Rightarrow> Inl e
           | Inr e \<Rightarrow> (case date_add e (- duration) of Inl x \<Rightarrow> Inl x | Inr s \<Rightarrow> Inr (Some (range_of s e))))
      | YEAR_OVER_YEAR \<Rightarrow>
          (case shift_year (rr_start cur) (- 1) of Inl e \<Rightarrow> Inl e
           | Inr s \<Rightarrow> (case shift_year (rr_end cur) (- 1) of Inl x \<Rightarrow> Inl x | Inr e \<Rightarrow> Inr (Some (range_of s e)))))"

text \<open>The loop of \<open>_month_starts\<close>, entered with \<open>current = Date y m 1\<close>.\<close>

function months_from :: "int \<Rightarrow> int \<Rightarrow> date \<Rightarrow> py_exc + date list" where
  "months_from y m end_date =
     (if Date y m 1 \<le> end_date then
        (let m1 = m + 1; m' = (if m1 = 13 then 1 else m1); y' = (if m1 = 13 then y + 1 else y)
         in if valid_date (Date y' m' 1)
            then (case months_from y' m' end_date of Inl e \<Rightarrow> Inl e | Inr ds \<Rightarrow> Inr (Date y m 1 # ds))
            else Inl ValueError)
      else Inr [])"
  by pat_completeness auto
termination
  by (relation "measure (\<lambda>(y, m, e). nat (120012 - (12 * y + m)))")
     (auto simp: valid_date_def split: if_splits)

declare months_from.simps [simp del]

definition month_starts :: "date \<Rightarrow> date \<Rightarrow> py_exc + date list" where
  "month_starts s e = months_from (year s) (month s) e"

subsection \<open>Resolved ranges\<close>

lemma days_in_month_pos [simp]: "1 \<le> days_in_month y m"
  using days_in_month_bounds [of y m] by simp

lemma first_of_month_valid [simp]: "valid_date d \<Longrightarrow> valid_date (first_of_month d)"
  using days_in_month_bounds [of "year d" "month d"] by (auto simp: valid_date_def first_of_month_def)

lemma first_of_month_le: "valid_date d \<Longrightarrow> first_of_month d \<le> d"
  by (auto simp: first_of_month_def less_eq_date_def valid_date_def)

lemma quarter_start_month_bounds:
  assumes "1 \<le> m" "m \<le> 12"
  shows "quarter_start_month m \<in> {1, 4, 7, 10}" "quarter_start_month m \<le> m" "m \<le> quarter_start_month m + 2"
  using month_cases [OF assms] by (auto simp: quarter_start_month_def)

lemma mk_date_first:
  assumes "1 \<le> y" "y \<le> 9999" "1 \<le> m" "m \<le> 12"
  shows "mk_date y m 1 = Inr (Date y m 1)"
  using assms days_in_month_bounds [of y m] by (simp add: mk_date_def valid_date_def)

lemma mk_date_quarter:
  assumes "valid_date d"
  shows "mk_date (year d) (quarter_start_month (month d)) 1 = Inr (Date (year d) (quarter_start_month (month d)) 1)"
  using assms quarter_start_month_bounds [of "month d"]
  by (intro mk_date_first) (auto simp: valid_date_def)

lemma weekday_bounds: "0 \<le> weekday d" "weekday d \<le> 6"
  by (simp_all add: weekday_def)

lemma date_add_back:
  assumes "valid_date d" "0 \<le> k" "k < to_ord d"
  shows "date_add d (- k) = Inr (from_ord (to_ord d - k))"
  using assms to_ord_bounds [OF assms(1)] by (simp add: date_add_def)

lemma to_ord_year2:
  assumes "valid_date d" "2 \<le> year d"
  shows "366 \<le> to_ord d"
proof -
  have "days_before_year 2 = 365" by (simp add: days_before_year_def)
  with days_before_year_mono [of 2 "year d"] assms days_before_month_0 [of "year d" "month d"]
  show ?thesis by (auto simp: to_ord_def valid_date_def)
qed

lemma date_le_ord: "valid_date a \<Longrightarrow> valid_date b \<Longrightarrow> to_ord a \<le> to_ord b \<Longrightarrow> a \<le> b"
  by (simp add: to_ord_le_iff)

text \<open>A window the model accepts, with a valid anchor.\<close>

definition window_valid :: "TimeWindow \<Rightarrow> bool" where
  "window_valid w \<longleftrightarrow> valid_date (tw_anchor_date w) \<and> is_ok (validate_dates w)
     \<and> (\<forall>s. tw_start_date w = Some s \<longrightarrow> valid_date s) \<and> (\<forall>e. tw_end_date w = Some e \<longrightarrow> valid_date e)"

definition range_valid :: "ResolvedRange \<Rightarrow> bool" where
  "range_valid r \<longleftrightarrow> valid_date (rr_start r) \<and> valid_date (rr_end r) \<and> rr_start r \<le> rr_end r"

lemma range_valid_range_of [simp]: "range_valid (range_of s e) \<longleftrightarrow> valid_date s \<and> valid_date e \<and> s \<le> e"
  by (simp add: range_valid_def range_of_def)

lemma range_of_simps [simp]: "rr_start (range_of s e) = s" "rr_end (range_of s e) = e"
  by (simp_all add: range_of_def)

lemma date_add_range:
  assumes "date_add d k = Inr e" "k \<le> 0" "valid_date d"
  shows "range_valid (range_of e d)"
  using date_add_InrD [OF assms(1)] assms(2,3) date_le_ord [of e d] by simp

lemma from_ord_valid_back:
  assumes "valid_date d" "0 \<le> k" "k < to_ord d"
  shows "valid_date (from_ord (to_ord d - k))" "from_ord (to_ord d - k) \<le> d"
    "to_ord (from_ord (to_ord d - k)) = to_ord d - k"
proof -
  show v: "valid_date (from_ord (to_ord d - k))"
    using assms to_ord_bounds [OF assms(1)] by (intro valid_from_ord) auto
  show o: "to_ord (from_ord (to_ord d - k)) = to_ord d - k" by (rule to_ord_from_ord)
  show "from_ord (to_ord d - k) \<le> d" using date_le_ord [OF v assms(1)] o assms(2) by simp
qed

lemma quarter_start_le:
  assumes "valid_date d"
  shows "valid_date (Date (year d) (quarter_start_month (month d)) 1)"
    and "Date (year d) (quarter_start_month (month d)) 1 \<le> d"
proof -
  have m: "1 \<le> month d" "month d \<le> 12" using assms by (auto simp: valid_date_def)
  note q = quarter_start_month_bounds [OF m]
  show "valid_date (Date (year d) (quarter_start_month (month d)) 1)"
    using assms q days_in_month_bounds [of "year d"] by (auto simp: valid_date_def)
  show "Date (year d) (quarter_start_month (month d)) 1 \<le> d"
    using assms q by (auto simp: less_eq_date_def valid_date_def)
qed

lemma first_ord_ge2:
  assumes "valid_date d" "2 \<le> year d"
  shows "1 < to_ord (first_of_month d)" "1 < to_ord (Date (year d) (quarter_start_month (month d)) 1)"
  using to_ord_year2 [OF first_of_month_valid [OF assms(1)]] to_ord_year2 [OF quarter_start_le(1) [OF assms(1)]] assms(2)
  by (auto simp: first_of_month_def)

lemma resolve_window_ok:
  assumes w: "window_valid w" and y: "2 \<le> year (tw_anchor_date w)"
  shows "\<exists>r. resolve_window w = Inr r \<and> range_valid r"
proof -
  let ?a = "tw_anchor_date w"
  have a: "valid_date ?a" and dates: "is_ok (validate_dates w)" using w by (auto simp: window_valid_def)
  have o: "366 \<le> to_ord ?a" by (rule to_ord_year2 [OF a y])
  have yr: "year ?a \<le> 9999" "1 \<le> month ?a" "month ?a \<le> 12" using a by (auto simp: valid_date_def)
  show ?thesis
  proof (cases "tw_preset w")
    case CURRENT_DAY
    then show ?thesis using a by (simp add: resolve_window_def Let_def)
  next
    case PREVIOUS_COMPLETE_DAY
    then show ?thesis using date_add_back [OF a, of 1] from_ord_valid_back(1) [OF a, of 1] o
      by (simp add: resolve_window_def Let_def)
  next
    case CURRENT_WEEK
    then show ?thesis
      using date_add_back [OF a, of "weekday ?a"] from_ord_valid_back [OF a, of "weekday ?a"] o weekday_bounds [of ?a] a
      by (simp add: resolve_window_def Let_def)
  next
    case PREVIOUS_COMPLETE_WEEK
    let ?e = "from_ord (to_ord ?a - (weekday ?a + 1))"
    have e: "date_add ?a (- (weekday ?a + 1)) = Inr ?e" "valid_date ?e" "to_ord ?e = to_ord ?a - (weekday ?a + 1)"
      using date_add_back [OF a, of "weekday ?a + 1"] from_ord_valid_back [OF a, of "weekday ?a + 1"] o weekday_bounds [of ?a]
      by auto
    have "date_add ?e (- 6) = Inr (from_ord (to_ord ?e - 6))" "valid_date (from_ord (to_ord ?e - 6))"
      "from_ord (to_ord ?e - 6) \<le> ?e"
      using date_add_back [OF e(2), of 6] from_ord_valid_back [OF e(2), of 6] e(3) o weekday_bounds [of ?a] by auto
    then show ?thesis using PREVIOUS_COMPLETE_WEEK e by (simp add: resolve_window_def Let_def)
  next
    case CURRENT_MONTH
    then show ?thesis using a first_of_month_le [OF a] by (simp add: resolve_window_def Let_def)
  next
    case PREVIOUS_COMPLETE_MONTH
    let ?f = "first_of_month ?a"
    have f: "valid_date ?f" "1 < to_ord ?f" using a first_ord_ge2 [OF a y] by auto
    have "date_add ?f (- 1) = Inr (from_ord (to_ord ?f - 1))" "valid_date (from_ord (to_ord ?f - 1))"
      using date_add_back [OF f(1), of 1] from_ord_valid_back [OF f(1), of 1] f(2) by auto
    then show ?thesis using PREVIOUS_COMPLETE_MONTH first_of_month_le by (simp add: resolve_window_def Let_def)
  next
    case CURRENT_QUARTER
    then show ?thesis using a mk_date_quarter [OF a] quarter_start_le [OF a] by (simp add: resolve_window_def Let_def)
  next
    case PREVIOUS_COMPLETE_QUARTER
    let ?q = "Date (year ?a) (quarter_start_month (month ?a)) 1"
    have q: "valid_date ?q" "1 < to_ord ?q" using quarter_start_le [OF a] first_ord_ge2 [OF a y] by auto
    let ?e = "from_ord (to_ord ?q - 1)"
    have e: "date_add ?q (- 1) = Inr ?e" "valid_date ?e"
      using date_add_back [OF q(1), of 1] from_ord_valid_back [OF q(1), of 1] q(2) by auto
    then show ?thesis
      using PREVIOUS_COMPLETE_QUARTER mk_date_quarter [OF a] mk_date_quarter [OF e(2)] quarter_start_le [OF e(2)]
      by (simp add: resolve_window_def Let_def)
  next
    case CURRENT_YEAR
    have "Date (year ?a) 1 1 \<le> ?a" "valid_date (Date (year ?a) 1 1)"
      using a by (auto simp: less_eq_date_def valid_date_def days_in_month_def)
    then show ?thesis using CURRENT_YEAR a by (simp add: resolve_window_def Let_def mk_date_def)
  next
    case PREVIOUS_COMPLETE_YEAR
    have "valid_date (Date (year ?a - 1) 1 1)" "valid_date (Date (year ?a - 1) 12 31)"
      using yr y by (auto simp: valid_date_def days_in_month_def)
    moreover have "Date (year ?a - 1) 1 1 \<le> Date (year ?a - 1) 12 31" by (simp add: less_eq_date_def)
    ultimately show ?thesis using PREVIOUS_COMPLETE_YEAR by (simp add: resolve_window_def Let_def mk_date_def)
  next
    case ROLLING_30_DAYS
    then show ?thesis using date_add_back [OF a, of 29] from_ord_valid_back [OF a, of 29] o a
      by (simp add: resolve_window_def Let_def)
  next
    case ROLLING_12_MONTHS
    have "mk_date (year ?a - 1) (month ?a + 1) 1 = Inr (Date (year ?a - 1) (month ?a + 1) 1)" if "month ?a \<noteq> 12"
      using yr y that by (intro mk_date_first) auto
    moreover have "mk_date (year ?a) 1 1 = Inr (Date (year ?a) 1 1)"
      using yr y by (intro mk_date_first) auto
    moreover have "Date (year ?a - 1) (month ?a + 1) 1 \<le> ?a" "month ?a = 12 \<Longrightarrow> Date (year ?a) 1 1 \<le> ?a"
      by (auto simp: less_eq_date_def)
    moreover have "valid_date (Date (year ?a) 1 1)" "month ?a \<noteq> 12 \<Longrightarrow> valid_date (Date (year ?a - 1) (month ?a + 1) 1)"
      using yr y days_in_month_bounds [of "year ?a - 1" "month ?a + 1"] by (auto simp: valid_date_def days_in_month_def)
    ultimately show ?thesis using ROLLING_12_MONTHS a by (cases "month ?a = 12") (simp_all add: resolve_window_def Let_def)
  next
    case CUSTOM
    then show ?thesis using w
      by (auto simp: resolve_window_def window_valid_def validate_dates_def Let_def split: option.splits if_splits)
  qed
qed

subsection \<open>The shape of each preset\<close>

lemma weekday_step: "to_ord e = to_ord d - (weekday d + 1) \<Longrightarrow> weekday e = 6"
  unfolding weekday_def by presburger

lemma weekday_monday: "to_ord s = to_ord d - weekday d \<Longrightarrow> weekday s = 0"
  unfolding weekday_def by presburger

lemma weekday_back6: "weekday e = 6 \<Longrightarrow> to_ord s = to_ord e - 6 \<Longrightarrow> weekday s = 0"
  unfolding weekday_def by presburger

lemma month_before_first:
  assumes "valid_date d" "valid_date e" "to_ord e = to_ord (first_of_month d) - 1"
  shows "12 * year e + month e + 1 = 12 * year d + month d \<and> day e = days_in_month (year e) (month e)"
proof -
  let ?y = "if month d = 1 then year d - 1 else year d" and ?m = "if month d = 1 then 12 else month d - 1"
  let ?p = "Date ?y ?m (days_in_month ?y ?m)"
  have d: "1 \<le> month d" "month d \<le> 12" "1 \<le> year d" using assms(1) by (auto simp: valid_date_def)
  have ord: "to_ord ?p = to_ord (first_of_month d) - 1"
  proof (cases "month d = 1")
    case True
    have "days_before_month (year d - 1) 12 + days_in_month (year d - 1) 12 = (if is_leap (year d - 1) then 366 else 365)"
      by (simp add: days_before_month_def days_in_month_def)
    moreover have "days_before_month (year d) 1 = 0" by (simp add: days_before_month_def)
    ultimately show ?thesis using True days_before_year_Suc [of "year d - 1"] by (simp add: to_ord_def first_of_month_def)
  next
    case False
    then show ?thesis using d days_before_month_Suc [of "month d - 1" "year d"]
      by (simp add: to_ord_def first_of_month_def)
  qed
  have "1 \<le> ?y"
  proof (rule ccontr)
    assume "\<not> 1 \<le> ?y"
    with d have "month d = 1" "year d = 1" by (auto split: if_splits)
    then have "to_ord (first_of_month d) = 1" by (simp add: to_ord_def first_of_month_def days_before_year_def days_before_month_def)
    with to_ord_bounds(1) [OF assms(2)] assms(3) show False by simp
  qed
  then have "valid_date ?p" using d assms(1) by (auto simp: valid_date_def)
  then have "e = ?p" using from_ord_to_ord [OF assms(2)] from_ord_to_ord [of ?p] ord assms(3) by simp
  then show ?thesis by simp
qed

text \<open>What each preset promises of the range \<open>r\<close> it resolves to at anchor \<open>a\<close>.\<close>

definition months_of :: "date \<Rightarrow> int" where
  "months_of d = 12 * year d + month d"

definition is_month_end :: "date \<Rightarrow> bool" where
  "is_month_end d \<longleftrightarrow> day d = days_in_month (year d) (month d)"

definition preset_range :: "TimePreset \<Rightarrow> date \<Rightarrow> ResolvedRange \<Rightarrow> bool" where
  "preset_range p a r \<longleftrightarrow> (let s = rr_start r; e = rr_end r; len = to_ord e - to_ord s + 1 in
     case p of
       CUSTOM \<Rightarrow> True
     | CURRENT_DAY \<Rightarrow> s = a \<and> e = a
     | PREVIOUS_COMPLETE_DAY \<Rightarrow> s = e \<and> to_ord e + 1 = to_ord a
     | CURRENT_WEEK \<Rightarrow> e = a \<and> weekday s = 0 \<and> 1 \<le> len \<and> len \<le> 7
     | PREVIOUS_COMPLETE_WEEK \<Rightarrow> weekday s = 0 \<and> weekday e = 6 \<and> len = 7
         \<and> to_ord e < to_ord a \<and> to_ord a \<le> to_ord e + 7
     | CURRENT_MONTH \<Rightarrow> e = a \<and> s = first_of_month a
     | PREVIOUS_COMPLETE_MONTH \<Rightarrow> day s = 1 \<and> is_month_end e \<and> months_of s = months_of e
         \<and> months_of e + 1 = months_of a
     | CURRENT_QUARTER \<Rightarrow> e = a \<and> day s = 1 \<and> month s \<in> {1, 4, 7, 10} \<and> year s = year a
         \<and> months_of s \<le> months_of a \<and> months_of a \<le> months_of s + 2
     | PREVIOUS_COMPLETE_QUARTER \<Rightarrow> day s = 1 \<and> month s \<in> {1, 4, 7, 10} \<and> is_month_end e
         \<and> months_of e = months_of s + 2 \<and> months_of e < months_of a \<and> months_of a \<le> months_of e + 3
     | CURRENT_YEAR \<Rightarrow> e = a \<and> s = Date (year a) 1 1
     | PREVIOUS_COMPLETE_YEAR \<Rightarrow> s = Date (year a - 1) 1 1 \<and> e = Date (year a - 1) 12 31
     | ROLLING_30_DAYS \<Rightarrow> e = a \<and> len = 30
     | ROLLING_12_MONTHS \<Rightarrow> e = a \<and> day s = 1 \<and> months_of a = months_of s + 11)"

lemma previous_quarter_shape:
  assumes a: "valid_date a" and e: "valid_date e"
    and "to_ord e = to_ord (Date (year a) (quarter_start_month (month a)) 1) - 1"
  shows "is_month_end e \<and> months_of e < months_of a \<and> months_of a \<le> months_of e + 3
    \<and> months_of e = months_of (Date (year e) (quarter_start_month (month e)) 1) + 2"
proof -
  let ?q = "Date (year a) (quarter_start_month (month a)) 1"
  have m: "1 \<le> month a" "month a \<le> 12" "1 \<le> month e" "month e \<le> 12" using a e by (auto simp: valid_date_def)
  have "first_of_month ?q = ?q" by (simp add: first_of_month_def)
  with month_before_first [OF quarter_start_le(1) [OF a] e] assms(3)
  have b: "months_of e + 1 = months_of ?q" "is_month_end e" by (auto simp: months_of_def is_month_end_def)
  note q = quarter_start_month_bounds [OF m(1,2)]
  from b(1) q(1) have "12 * year e + month e + 1 \<in> {12 * year a + 1, 12 * year a + 4, 12 * year a + 7, 12 * year a + 10}"
    by (auto simp: months_of_def)
  then have "month e mod 3 = 0" by (elim insertE emptyE) presburger+
  with month_cases [OF m(3,4)] have "month e \<in> {12, 3, 6, 9}" by auto
  then have "quarter_start_month (month e) + 2 = month e" by (auto simp: quarter_start_month_def)
  with b q show ?thesis by (auto simp: months_of_def)
qed

lemma resolve_window_shape:
  assumes a: "valid_date (tw_anchor_date w)" and r: "resolve_window w = Inr r"
  shows "preset_range (tw_preset w) (tw_anchor_date w) r"
proof -
  let ?a = "tw_anchor_date w"
  have m: "1 \<le> month ?a" "month ?a \<le> 12" using a by (auto simp: valid_date_def)
  show ?thesis
  proof (cases "tw_preset w")
    case PREVIOUS_COMPLETE_DAY
    then show ?thesis using r
      by (auto simp: resolve_window_def Let_def preset_range_def dest: date_add_InrD split: sum.splits)
  next
    case CURRENT_WEEK
    with r obtain s where s: "date_add ?a (- weekday ?a) = Inr s" and r': "r = range_of s ?a"
      by (auto simp: resolve_window_def Let_def)
    have "to_ord s = to_ord ?a - weekday ?a" using date_add_InrD(2) [OF s] by simp
    then show ?thesis using CURRENT_WEEK r' weekday_bounds [of ?a] weekday_monday [of s ?a]
      by (simp add: preset_range_def Let_def)
  next
    case PREVIOUS_COMPLETE_WEEK
    with r obtain e s where e: "date_add ?a (- (weekday ?a + 1)) = Inr e" and s: "date_add e (- 6) = Inr s"
      and r': "r = range_of s e" by (auto simp: resolve_window_def Let_def split: sum.splits)
    have "to_ord e = to_ord ?a - (weekday ?a + 1)" "to_ord s = to_ord e - 6"
      using date_add_InrD(2) [OF e] date_add_InrD(2) [OF s] by auto
    then show ?thesis
      using PREVIOUS_COMPLETE_WEEK r' weekday_bounds [of ?a] weekday_step [of e ?a] weekday_back6 [of e s]
      by (simp add: preset_range_def Let_def)
  next
    case PREVIOUS_COMPLETE_MONTH
    with r obtain e where e: "date_add (first_of_month ?a) (- 1) = Inr e" and r': "r = range_of (first_of_month e) e"
      by (auto simp: resolve_window_def Let_def split: sum.splits)
    from month_before_first [OF a, of e] date_add_InrD [OF e] show ?thesis
      using PREVIOUS_COMPLETE_MONTH r'
      by (simp add: preset_range_def Let_def months_of_def is_month_end_def first_of_month_def)
  next
    case CURRENT_QUARTER
    then show ?thesis using r mk_date_quarter [OF a] quarter_start_month_bounds [OF m]
      by (auto simp: resolve_window_def Let_def preset_range_def months_of_def)
  next
    case PREVIOUS_COMPLETE_QUARTER
    let ?q = "Date (year ?a) (quarter_start_month (month ?a)) 1"
    from PREVIOUS_COMPLETE_QUARTER r mk_date_quarter [OF a] obtain e where
      e: "date_add ?q (- 1) = Inr e" by (auto simp: resolve_window_def Let_def split: sum.splits)
    then have ev: "valid_date e" "to_ord e = to_ord ?q - 1" using date_add_InrD [OF e] by auto
    have r': "r = range_of (Date (year e) (quarter_start_month (month e)) 1) e"
      using PREVIOUS_COMPLETE_QUARTER r mk_date_quarter [OF a] e mk_date_quarter [OF ev(1)]
      by (simp add: resolve_window_def Let_def)
    have "1 \<le> month e" "month e \<le> 12" using ev(1) by (auto simp: valid_date_def)
    from quarter_start_month_bounds(1) [OF this] previous_quarter_shape [OF a ev] show ?thesis
      using PREVIOUS_COMPLETE_QUARTER r' by (simp add: preset_range_def Let_def)
  next
    case ROLLING_30_DAYS
    then show ?thesis using r
      by (auto simp: resolve_window_def Let_def preset_range_def dest!: date_add_InrD split: sum.splits)
  next
    case ROLLING_12_MONTHS
    then show ?thesis using r
      by (auto simp: resolve_window_def Let_def preset_range_def mk_date_def months_of_def split: if_splits)
  qed (use r in \<open>auto simp: resolve_window_def Let_def preset_range_def mk_date_def split: if_splits option.splits\<close>)
qed

subsection \<open>Comparison ranges and month starts\<close>

lemma shift_year_back:
  assumes "valid_date d" "2 \<le> year d"
  shows "shift_year d (- 1) = Inr (Date (year d - 1) (month d) (min (day d) (days_in_month (year d - 1) (month d))))"
    and "valid_date (Date (year d - 1) (month d) (min (day d) (days_in_month (year d - 1) (month d))))"
  using assms by (auto simp: shift_year_def mk_date_def valid_date_def min_def Let_def)

lemma shift_year_mono:
  assumes "valid_date a" "valid_date b" "a \<le> b"
  shows "Date (year a - 1) (month a) (min (day a) (days_in_month (year a - 1) (month a)))
    \<le> Date (year b - 1) (month b) (min (day b) (days_in_month (year b - 1) (month b)))"
  using assms(3) by (auto simp: less_eq_date_def)

lemma prior_period_range:
  assumes "resolve_comparison_range r PRIOR_PERIOD = Inr (Some c)" "range_valid r"
  shows "range_valid c" "to_ord (rr_end c) + 1 = to_ord (rr_start r)"
    "to_ord (rr_end c) - to_ord (rr_start c) = to_ord (rr_end r) - to_ord (rr_start r)"
proof -
  from assms(1) obtain e s where e: "date_add (rr_start r) (- 1) = Inr e"
    and s: "date_add e (- (to_ord (rr_end r) - to_ord (rr_start r))) = Inr s" and c: "c = range_of s e"
    by (auto simp: resolve_comparison_range_def Let_def)
  have "to_ord (rr_start r) \<le> to_ord (rr_end r)" using assms(2) to_ord_le_iff by (auto simp: range_valid_def)
  with date_add_range [OF s] date_add_InrD [OF e] c show "range_valid c" by simp
  from date_add_InrD(2) [OF e] date_add_InrD(2) [OF s] c
  show "to_ord (rr_end c) + 1 = to_ord (rr_start r)"
    "to_ord (rr_end c) - to_ord (rr_start c) = to_ord (rr_end r) - to_ord (rr_start r)" by simp_all
qed

lemma next_month_first:
  assumes "valid_date (Date y m 1)"
  shows "valid_date d \<and> day d = 1 \<and> Date y m 1 \<le> d \<longleftrightarrow>
    d = Date y m 1 \<or> (valid_date d \<and> day d = 1
      \<and> Date (if m + 1 = 13 then y + 1 else y) (if m + 1 = 13 then 1 else m + 1) 1 \<le> d)"
proof (cases d)
  case (Date Y M D)
  show ?thesis
  proof (cases "valid_date d \<and> D = 1")
    case True
    then have "1 \<le> M" "M \<le> 12" using Date by (auto simp: valid_date_def)
    then show ?thesis using True Date assms
      by (cases "m = 12") (auto simp: less_eq_date_def)
  next
    case False
    then show ?thesis using assms Date by auto
  qed
qed

lemma months_from_spec:
  assumes "months_from y m e = Inr ds" "valid_date (Date y m 1)"
  shows "sorted ds \<and> distinct ds \<and> (\<forall>d\<in>set ds. Date y m 1 \<le> d) \<and>
    set ds = {d. valid_date d \<and> day d = 1 \<and> Date y m 1 \<le> d \<and> d \<le> e}"
  using assms
proof (induction y m e arbitrary: ds rule: months_from.induct)
  case (1 y m e)
  let ?m = "if m + 1 = 13 then 1 else m + 1" and ?y = "if m + 1 = 13 then y + 1 else y"
  show ?case
  proof (cases "Date y m 1 \<le> e")
    case False
    then have "ds = []" using "1.prems"(1) by (simp add: months_from.simps [of y m e])
    moreover have "{d. valid_date d \<and> day d = 1 \<and> Date y m 1 \<le> d \<and> d \<le> e} = {}" using False by auto
    ultimately show ?thesis by simp
  next
    case True
    with "1.prems"(1) obtain ds' where v: "valid_date (Date ?y ?m 1)" and ds': "months_from ?y ?m e = Inr ds'"
      and ds: "ds = Date y m 1 # ds'"
      by (auto simp: months_from.simps [of y m e] Let_def split: if_splits)
    have IH: "sorted ds' \<and> distinct ds' \<and> (\<forall>d\<in>set ds'. Date ?y ?m 1 \<le> d) \<and>
        set ds' = {d. valid_date d \<and> day d = 1 \<and> Date ?y ?m 1 \<le> d \<and> d \<le> e}"
      using "1.IH" [OF True refl refl refl v ds' v] .
    have m: "1 \<le> m" "m \<le> 12" using "1.prems"(2) by (auto simp: valid_date_def)
    have less: "Date y m 1 < Date ?y ?m 1" using m by (auto simp: less_date_def)
    have next_first: "valid_date d \<and> day d = 1 \<and> Date y m 1 \<le> d \<longleftrightarrow>
        d = Date y m 1 \<or> (valid_date d \<and> day d = 1 \<and> Date ?y ?m 1 \<le> d)" for d
      by (rule next_month_first [OF "1.prems"(2)])
    define n where "n = Date ?y ?m 1"
    note IH = IH [folded n_def] and nf = next_first [folded n_def] and less = less [folded n_def]
    have below: "Date y m 1 < d" if "d \<in> set ds'" for d
      using IH that less by (blast intro: order_less_le_trans)
    have "d \<in> set ds \<longleftrightarrow> valid_date d \<and> day d = 1 \<and> Date y m 1 \<le> d \<and> d \<le> e" for d
    proof -
      have "d \<in> set ds \<longleftrightarrow> d = Date y m 1 \<or> (valid_date d \<and> day d = 1 \<and> n \<le> d \<and> d \<le> e)"
        using IH by (simp only: ds list.set insert_iff) blast
      also have "\<dots> \<longleftrightarrow> (valid_date d \<and> day d = 1 \<and> Date y m 1 \<le> d) \<and> d \<le> e"
        using nf [of d] True by blast
      finally show ?thesis by blast
    qed
    then have "set ds = {d. valid_date d \<and> day d = 1 \<and> Date y m 1 \<le> d \<and> d \<le> e}"
      by (simp add: set_eq_iff)
    moreover have "\<forall>d\<in>set ds'. Date y m 1 \<le> d" using below by (blast intro: order_less_imp_le)
    moreover have "Date y m 1 \<notin> set ds'" using below by blast
    moreover have "sorted ds'" "distinct ds'" using IH by blast+
    ultimately have "sorted ds" "distinct ds" "\<forall>d\<in>set ds. Date y m 1 \<le> d"
      "set ds = {d. valid_date d \<and> day d = 1 \<and> Date y m 1 \<le> d \<and> d \<le> e}"
      unfolding ds by (simp_all only: sorted_wrt.simps distinct.simps list.set ball_simps) blast+
    then show ?thesis by blast
  qed
qed

lemma months_from_total:
  assumes "valid_date (Date y m 1)" "valid_date e" "12 * year e + month e < 120000"
  shows "is_ok (months_from y m e)"
  using assms
proof (induction y m e rule: months_from.induct)
  case (1 y m e)
  let ?m = "if m + 1 = 13 then 1 else m + 1" and ?y = "if m + 1 = 13 then y + 1 else y"
  show ?case
  proof (cases "Date y m 1 \<le> e")
    case True
    then have "valid_date (Date ?y ?m 1)"
      using "1.prems" by (auto simp: valid_date_def less_eq_date_def)
    with "1.IH" [OF True refl refl refl this this "1.prems"(2,3)] True show ?thesis
      by (subst months_from.simps) (auto simp: Let_def is_ok_iff)
  next
    case False
    then show ?thesis by (subst months_from.simps) simp
  qed
qed

subsection \<open>Properties\<close>

text \<open>Ordinals and dates are in bijection, in calendar order: converting an ordinal to a date and back
  is the identity on every integer and the other way round on every valid date, ordinals 1 to 3652059
  are exactly the valid dates, and an earlier date has a smaller ordinal.\<close>

theorem calendar_bijection:
  "to_ord (from_ord n) = n \<and> from_ord ` {1..max_ord} = {d. valid_date d} \<and> bij_betw to_ord {d. valid_date d} {1..max_ord}
   \<and> strict_mono_on {d. valid_date d} to_ord"
proof (intro conjI)
  show "to_ord (from_ord n) = n" by (rule to_ord_from_ord)
  show img: "from_ord ` {1..max_ord} = {d. valid_date d}"
  proof (intro equalityI subsetI)
    fix d assume "d \<in> {d. valid_date d}"
    then show "d \<in> from_ord ` {1..max_ord}"
      using to_ord_bounds [of d] from_ord_to_ord [of d] by (intro image_eqI [of _ _ "to_ord d"]) auto
  qed (auto simp: valid_from_ord)
  show "bij_betw to_ord {d. valid_date d} {1..max_ord}"
    by (rule bij_betw_byWitness [where f' = from_ord])
       (auto simp: from_ord_to_ord to_ord_from_ord valid_from_ord to_ord_bounds)
  show "strict_mono_on {d. valid_date d} to_ord" by (auto simp: strict_mono_on_def to_ord_less)
qed

text \<open>From year 2 on, every window the model accepts resolves, and to a range of valid dates in order.\<close>

theorem resolve_window_total:
  "window_valid w \<Longrightarrow> 2 \<le> year (tw_anchor_date w) \<Longrightarrow> \<exists>r. resolve_window w = Inr r \<and> range_valid r"
  by (rule resolve_window_ok)

definition demo_window :: "TimePreset \<Rightarrow> TimeWindow" where
  "demo_window p = \<lparr>tw_preset = p, tw_grain = DAY, tw_calendar = ''GREGORIAN'', tw_timezone = ''UTC'',
     tw_anchor_date = Date 2024 3 1, tw_start_date = None, tw_end_date = None\<rparr>"

lemma demo_window_valid: "p \<noteq> CUSTOM \<Longrightarrow> window_valid (demo_window p)"
  by (simp add: window_valid_def demo_window_def valid_date_def days_in_month_def validate_dates_def)

theorem resolve_window_total_witness:
  "\<exists>r. resolve_window (demo_window PREVIOUS_COMPLETE_MONTH) = Inr r \<and> range_valid r"
  by (rule resolve_window_total) (simp_all add: demo_window_valid, simp add: demo_window_def)

text \<open>Each preset means what its name says: the previous week is the Monday to Sunday before the
  anchor's week, the previous month, quarter and year are complete and adjacent to the anchor's, a
  current period starts at its first day and ends at the anchor, rolling 30 days are 30 days, and
  rolling 12 months start at the first day of the month eleven months before the anchor's.\<close>

theorem resolve_window_meaning:
  "valid_date (tw_anchor_date w) \<Longrightarrow> resolve_window w = Inr r \<Longrightarrow> preset_range (tw_preset w) (tw_anchor_date w) r"
  by (rule resolve_window_shape)

theorem resolve_window_meaning_witness:
  "preset_range PREVIOUS_COMPLETE_MONTH (Date 2024 3 1) (range_of (Date 2024 2 1) (Date 2024 2 29))"
proof -
  have "resolve_window (demo_window PREVIOUS_COMPLETE_MONTH) = Inr (range_of (Date 2024 2 1) (Date 2024 2 29))"
    by code_simp
  from resolve_window_meaning [OF _ this] show ?thesis
    by (simp add: demo_window_def valid_date_def days_in_month_def)
qed

text \<open>A prior-period comparison covers the same number of days and ends the day before the current
  range starts; a year-over-year comparison of dates from year 2 on always exists, keeps month and
  order, and moves the day only when the month is shorter a year earlier.\<close>

theorem comparison_range_meaning:
  assumes "range_valid r"
  shows "(case resolve_comparison_range r PRIOR_PERIOD of
            Inr (Some c) \<Rightarrow> range_valid c \<and> to_ord (rr_end c) + 1 = to_ord (rr_start r)
              \<and> to_ord (rr_end c) - to_ord (rr_start c) = to_ord (rr_end r) - to_ord (rr_start r)
          | Inr None \<Rightarrow> False
          | Inl e \<Rightarrow> e = OverflowError)
     \<and> (2 \<le> year (rr_start r) \<longrightarrow> (\<exists>c. resolve_comparison_range r YEAR_OVER_YEAR = Inr (Some c) \<and> range_valid c
          \<and> (\<forall>(x, y)\<in>{(rr_start r, rr_start c), (rr_end r, rr_end c)}. year y = year x - 1 \<and> month y = month x
               \<and> day y = min (day x) (days_in_month (year x - 1) (month x)))))"
proof (intro conjI impI)
  have overflow: "date_add d k = Inl e \<Longrightarrow> e = OverflowError" for d k e
    by (auto simp: date_add_def Let_def split: if_splits)
  show "case resolve_comparison_range r PRIOR_PERIOD of
            Inr (Some c) \<Rightarrow> range_valid c \<and> to_ord (rr_end c) + 1 = to_ord (rr_start r)
              \<and> to_ord (rr_end c) - to_ord (rr_start c) = to_ord (rr_end r) - to_ord (rr_start r)
          | Inr None \<Rightarrow> False
          | Inl e \<Rightarrow> e = OverflowError"
  proof (cases "resolve_comparison_range r PRIOR_PERIOD")
    case (Inl e)
    then have "e = OverflowError"
      using overflow by (auto simp: resolve_comparison_range_def Let_def split: sum.splits)
    with Inl show ?thesis by simp
  next
    case (Inr co)
    then obtain c where "co = Some c"
      by (auto simp: resolve_comparison_range_def Let_def split: sum.splits)
    with prior_period_range [of r c] Inr assms show ?thesis by simp
  qed
next
  assume y: "2 \<le> year (rr_start r)"
  have v: "valid_date (rr_start r)" "valid_date (rr_end r)" "rr_start r \<le> rr_end r"
    using assms by (auto simp: range_valid_def)
  then have "2 \<le> year (rr_end r)" using y by (auto simp: less_eq_date_def)
  with shift_year_back [OF v(1) y] shift_year_back [OF v(2)] shift_year_mono [OF v]
  show "\<exists>c. resolve_comparison_range r YEAR_OVER_YEAR = Inr (Some c) \<and> range_valid c
          \<and> (\<forall>(x, y)\<in>{(rr_start r, rr_start c), (rr_end r, rr_end c)}. year y = year x - 1 \<and> month y = month x
               \<and> day y = min (day x) (days_in_month (year x - 1) (month x)))"
    by (simp add: resolve_comparison_range_def)
qed

theorem comparison_range_meaning_witness:
  "range_valid (range_of (Date 2024 2 1) (Date 2024 2 29)) \<and>
   (\<exists>c. resolve_comparison_range (range_of (Date 2024 2 1) (Date 2024 2 29)) YEAR_OVER_YEAR = Inr (Some c) \<and> day (rr_end c) = 28)"
proof -
  have v: "range_valid (range_of (Date 2024 2 1) (Date 2024 2 29))"
    by (simp add: valid_date_def days_in_month_def is_leap_def less_eq_date_def)
  have "days_in_month 2023 2 = 28" by (simp add: days_in_month_def is_leap_def)
  with comparison_range_meaning [OF v] v show ?thesis by auto
qed

text \<open>The month loop terminates, and up to November 9999 returns exactly the first days of the months
  from the start's month to the end, in order and without repetition.\<close>

theorem month_starts_exact:
  assumes "valid_date s" "valid_date e" "months_of e < 120000"
  shows "\<exists>ds. month_starts s e = Inr ds \<and> sorted ds \<and> distinct ds
    \<and> set ds = {d. valid_date d \<and> day d = 1 \<and> first_of_month s \<le> d \<and> d \<le> e}"
proof -
  have f: "valid_date (Date (year s) (month s) 1)"
    using first_of_month_valid [OF assms(1)] by (simp add: first_of_month_def)
  obtain ds where "month_starts s e = Inr ds"
    using months_from_total [OF f assms(2)] assms(3) by (auto simp: month_starts_def months_of_def is_ok_iff)
  moreover from months_from_spec [OF this [unfolded month_starts_def] f]
  have "sorted ds \<and> distinct ds \<and> set ds = {d. valid_date d \<and> day d = 1 \<and> first_of_month s \<le> d \<and> d \<le> e}"
    unfolding first_of_month_def by blast
  ultimately show ?thesis by blast
qed

theorem month_starts_exact_witness:
  "\<exists>ds. month_starts (Date 2025 7 1) (Date 2026 7 31) = Inr ds \<and> sorted ds \<and> Date 2026 2 1 \<in> set ds"
proof -
  have v: "valid_date (Date 2025 7 1)" "valid_date (Date 2026 7 31)" "months_of (Date 2026 7 31) < 120000"
    by (simp_all add: valid_date_def days_in_month_def months_of_def)
  from month_starts_exact [OF v] obtain ds where ds: "month_starts (Date 2025 7 1) (Date 2026 7 31) = Inr ds" "sorted ds"
    "set ds = {d. valid_date d \<and> day d = 1 \<and> first_of_month (Date 2025 7 1) \<le> d \<and> d \<le> Date 2026 7 31}" by blast
  have "Date 2026 2 1 \<in> set ds"
    unfolding ds(3) by (simp add: valid_date_def days_in_month_def first_of_month_def less_eq_date_def)
  with ds show ?thesis by blast
qed

text \<open>At the start of the calendar the failures differ in kind: yesterday of the first day and the week or
  30 days before it overflow, while the previous year is a value error.\<close>

theorem first_day_errors:
  "map (\<lambda>p. resolve_window (demo_window p\<lparr>tw_anchor_date := Date 1 1 1\<rparr>))
     [PREVIOUS_COMPLETE_DAY, PREVIOUS_COMPLETE_WEEK, PREVIOUS_COMPLETE_MONTH, PREVIOUS_COMPLETE_QUARTER,
      ROLLING_30_DAYS, PREVIOUS_COMPLETE_YEAR, ROLLING_12_MONTHS]
   = [Inl OverflowError, Inl OverflowError, Inl OverflowError, Inl OverflowError, Inl OverflowError,
      Inl ValueError, Inl ValueError]"
  by code_simp

end
