(* ===== verification/Rows.thy ===== *)
theory Rows
  imports Models Periods "HOL-Library.AList"
begin

section \<open>Rows: query results, comparison merging and the query receipt\<close>

text \<open>
  The rows a connector returns (\<open>dict[str, Any]\<close>, here an association list in insertion order), the
  merging of current and comparison rows of \<open>connectors/demo_sqlite.py\<close>, and the receipt and
  verification records of \<open>domain/chat.py\<close>.
\<close>

datatype pyval = VNone | VBool bool | VInt int | VFloat pyfloat | VStr string | VOther

type_synonym row = "(string \<times> pyval) list"

definition row_get :: "row \<Rightarrow> string \<Rightarrow> pyval" where
  "row_get r k = (case map_of r k of None \<Rightarrow> VNone | Some v \<Rightarrow> v)"

definition row_has :: "row \<Rightarrow> string \<Rightarrow> bool" where
  "row_has r k = (k \<in> fst ` set r)"

definition row_set :: "string \<Rightarrow> pyval \<Rightarrow> row \<Rightarrow> row" where
  "row_set k v r = AList.update k v r"

definition row_key :: "string list \<Rightarrow> row \<Rightarrow> pyval list" where
  "row_key dims r = map (row_get r) dims"

text \<open>\<open>float(v)\<close>; text that is not a number of the model's other types is a \<open>ValueError\<close>.\<close>

fun to_float :: "pyval \<Rightarrow> py_exc + pyfloat" where
  "to_float (VFloat f) = Inr f"
| "to_float (VInt n) = fl_of_int n"
| "to_float (VBool b) = Inr (Fin (if b then 1 else 0))"
| "to_float (VStr s) = Inl ValueError"
| "to_float VNone = Inl TypeError"
| "to_float VOther = Inl TypeError"

subsection \<open>Merging\<close>

definition merge_row :: "(pyval list \<rightharpoonup> row) \<Rightarrow> string list \<Rightarrow> row \<Rightarrow> py_exc + row list" where
  "merge_row comparison_by_key dims r =
     (let v = row_get r ''value'' in
      if v = VNone then Inr []
      else (case to_float v of Inl e \<Rightarrow> Inl e
        | Inr current \<Rightarrow>
          if \<not> is_finite current then Inr []
          else (case comparison_by_key (row_key dims r) of
              None \<Rightarrow> Inr [r]
            | Some c \<Rightarrow>
                if row_get c ''value'' = VNone then Inr [r]
                else (case to_float (row_get c ''value'') of Inl e \<Rightarrow> Inl e
                  | Inr previous \<Rightarrow>
                    (let change = fl_sub current previous
                     in Inr [row_set ''percent_change''
                               (if fl_eq previous (Fin 0) then VNone else VFloat (fl_div change (fl_abs previous)))
                              (row_set ''absolute_change'' (VFloat change)
                                (row_set ''comparison_value'' (VFloat previous) r))])))))"

fun merge_rows :: "(pyval list \<rightharpoonup> row) \<Rightarrow> string list \<Rightarrow> row list \<Rightarrow> py_exc + row list" where
  "merge_rows cmp dims [] = Inr []"
| "merge_rows cmp dims (r # rs) =
     (case merge_row cmp dims r of Inl e \<Rightarrow> Inl e
      | Inr out \<Rightarrow> (case merge_rows cmp dims rs of Inl e \<Rightarrow> Inl e | Inr rest \<Rightarrow> Inr (out @ rest)))"

definition merge_comparison_rows :: "row list \<Rightarrow> row list \<Rightarrow> string list \<Rightarrow> py_exc + row list" where
  "merge_comparison_rows current_rows comparison_rows dims =
     merge_rows (dict_of (row_key dims) comparison_rows) dims current_rows"

subsection \<open>Canonical text\<close>

text \<open>\<open>json.dumps(rows, sort_keys=True, allow_nan=False)\<close>: refuses non-finite floats (\<open>ValueError\<close>) and
  values JSON cannot express (\<open>TypeError\<close>); otherwise the text is determined by the rows with sorted
  keys, which is what the digest is applied to.\<close>

definition canonical_row :: "row \<Rightarrow> row" where
  "canonical_row r = sort_key fst r"

fun value_error :: "pyval \<Rightarrow> py_exc option" where
  "value_error (VFloat f) = (if is_finite f then None else Some ValueError)"
| "value_error VOther = Some TypeError"
| "value_error v = None"

definition canonical_rows :: "row list \<Rightarrow> py_exc + row list" where
  "canonical_rows rs =
     (case List.find (\<lambda>v. value_error v \<noteq> None) (concat (map (\<lambda>r. map snd (canonical_row r)) rs)) of
        Some v \<Rightarrow> Inl (the (value_error v))
      | None \<Rightarrow> Inr (map canonical_row rs))"

subsection \<open>Receipt and verification records\<close>

record CloudQueryExecution =
  cj_job_id :: string
  cj_billing_project :: string
  cj_location :: string
  cj_estimated_bytes :: int
  cj_maximum_bytes_billed :: int
  cj_processed_bytes :: "int option"
  cj_billed_bytes :: "int option"
  cj_cache_hit :: bool
  cj_started_at :: "instant option"
  cj_ended_at :: "instant option"
  cj_scope_hash :: string
  cj_semantic_version :: string

record QueryReceipt =
  rc_source_kind :: string
  rc_source_fingerprint :: "string option"
  rc_cloud_job :: "CloudQueryExecution option"
  rc_definition_snapshot_id :: "string option"
  rc_receipt_id :: uuid
  rc_query_id :: uuid
  rc_decision_id :: uuid
  rc_plan_hash :: string
  rc_connector_id :: string
  rc_executed_at :: instant
  rc_source_snapshot :: instant
  rc_coverage_start :: date
  rc_coverage_end :: date
  rc_resolved_start :: date
  rc_resolved_end :: date
  rc_comparison_start :: "date option"
  rc_comparison_end :: "date option"
  rc_row_count :: int
  rc_result_rows :: "row list"
  rc_result_hash :: string
  rc_sql_hash :: string
  rc_physical_mapping_version :: "string option"
  rc_physical_mapping_hash :: "string option"
  rc_data_quality_status :: string
  rc_data_quality_checks :: "string list"
  rc_policy_decision_id :: string
  rc_warnings :: "string list"

datatype VerificationStatus = VERIFIED | VERIFICATION_FAILED_STATUS

record VerificationReport =
  vr_status :: VerificationStatus
  vr_checks :: "string list"
  vr_failures :: "string list"

subsection \<open>Reading merged rows\<close>

lemma row_get_set [simp]: "row_get (row_set k v r) k' = (if k' = k then v else row_get r k')"
  by (simp add: row_get_def row_set_def update_conv)

lemma row_has_set [simp]: "row_has (row_set k v r) k' \<longleftrightarrow> k' = k \<or> row_has r k'"
  by (auto simp: row_has_def row_set_def dom_update)

lemma row_key_set: "k \<notin> set dims \<Longrightarrow> row_key dims (row_set k v r) = row_key dims r"
  by (auto simp: row_key_def)

end
