(* ===== verification/DemoConnector.thy ===== *)
theory DemoConnector
  imports Rows Sample
begin

section \<open>DemoConnector: the SQLite demonstration connector and the connector registry\<close>

text \<open>
  \<open>connectors/base.py\<close>, \<open>connectors/registry.py\<close> and the query path of
  \<open>connectors/demo_sqlite.py\<close>: validation of a structured plan, the SQL text with its parameters, and
  the execution that builds the receipt.  Running SQL on the database file and the digest are
  parameters; the seeding of synthetic facts is not modelled.
\<close>

datatype ConnectorCapability = CATALOG_DISCOVERY | SCHEMA_INTROSPECTION | PARAMETERIZED_FILTERS
  | AGGREGATION | WINDOW_FUNCTIONS | QUERY_CANCELLATION | SECURITY_PUSHDOWN

record ConnectorDescriptor =
  cd_connector_id :: string
  cd_connector_type :: string
  cd_dialect :: "string option"
  cd_capabilities :: "ConnectorCapability set"
  cd_read_only :: bool
  cd_maximum_rows :: int
  cd_query_timeout_seconds :: int
  cd_mapping_version :: "string option"
  cd_mapping_hash :: "string option"

record StructuredQueryPlan =
  pl_query_id :: uuid
  pl_decision_id :: uuid
  pl_plan_hash :: string
  pl_tenant_id :: string
  pl_connector_id :: string
  pl_metric_id :: string
  pl_semantic_version :: string
  pl_value_type :: MetricValueType
  pl_aggregation :: MetricAggregation
  pl_unit :: string
  pl_currency :: "string option"
  pl_dimensions :: "string list"
  pl_filters :: "QueryFilter list"
  pl_time_window :: TimeWindow
  pl_comparison :: ComparisonType
  pl_row_limit :: int

subsection \<open>Registry\<close>

datatype registry_failure = AlreadyRegistered string | NotReadOnly | NotRegistered string

text \<open>The registry maps identifiers to connectors; a connector is any value with a descriptor.\<close>

definition register_connector ::
  "('c \<Rightarrow> ConnectorDescriptor) \<Rightarrow> 'c \<Rightarrow> (string \<rightharpoonup> 'c) \<Rightarrow> registry_failure + (string \<rightharpoonup> 'c)" where
  "register_connector descriptor c reg =
     (let cid = cd_connector_id (descriptor c) in
      if reg cid \<noteq> None then Inl (AlreadyRegistered cid)
      else if \<not> cd_read_only (descriptor c) then Inl NotReadOnly
      else Inr (reg(cid \<mapsto> c)))"

definition get_connector :: "(string \<rightharpoonup> 'c) \<Rightarrow> string \<Rightarrow> registry_failure + 'c" where
  "get_connector reg cid = (case reg cid of None \<Rightarrow> Inl (NotRegistered cid) | Some c \<Rightarrow> Inr c)"

subsection \<open>Contracts of the demonstration data\<close>

record MetricSpec =
  ms_aggregation :: MetricAggregation
  ms_allowed_dimensions :: "string list"

definition DIMENSION_COLUMNS :: "string \<rightharpoonup> string" where
  "DIMENSION_COLUMNS = map_of
     [(''PLAN'', ''plan_id''), (''MARKET'', ''market_id''), (''REGION'', ''region_id''),
      (''CHANNEL'', ''channel_id''), (''STORE'', ''store_id''), (''CELL_SITE'', ''cell_site_id''),
      (''HOUR'', ''hour_id''), (''TECHNOLOGY'', ''technology_id'')]"

definition METRIC_SPECS :: "string \<rightharpoonup> MetricSpec" where
  "METRIC_SPECS = map_of
     [(''POSTPAID_CHURN'', \<lparr>ms_aggregation = RATIO,
         ms_allowed_dimensions = [''PLAN'', ''MARKET'', ''REGION'', ''CHANNEL'']\<rparr>),
      (''MOBILE_ACTIVATIONS'', \<lparr>ms_aggregation = AGG_SUM,
         ms_allowed_dimensions = [''STORE'', ''MARKET'', ''REGION'', ''CHANNEL'', ''PLAN'']\<rparr>),
      (''NETWORK_CONGESTION'', \<lparr>ms_aggregation = RATIO,
         ms_allowed_dimensions = [''MARKET'', ''CELL_SITE'', ''HOUR'', ''TECHNOLOGY'']\<rparr>)]"

definition DEMO_COVERAGE_START :: date where "DEMO_COVERAGE_START = Date 2025 7 1"
definition DEMO_COVERAGE_END :: date where "DEMO_COVERAGE_END = Date 2026 7 31"
definition KNOWN_REGIONS :: "string set" where
  "KNOWN_REGIONS = {''NORTHEAST'', ''SOUTHEAST'', ''CENTRAL'', ''WEST''}"

record demo_connector =
  dc_descriptor :: ConnectorDescriptor
  dc_allowed_metric_ids :: "string set"

definition make_demo_connector :: "string \<Rightarrow> string set \<Rightarrow> demo_connector" where
  "make_demo_connector cid metrics =
     \<lparr>dc_descriptor = \<lparr>cd_connector_id = cid, cd_connector_type = ''SQLITE_DEMO'', cd_dialect = Some ''SQLite'',
        cd_capabilities = {CATALOG_DISCOVERY, PARAMETERIZED_FILTERS, AGGREGATION, SECURITY_PUSHDOWN},
        cd_read_only = True, cd_maximum_rows = 100, cd_query_timeout_seconds = 10,
        cd_mapping_version = None, cd_mapping_hash = None\<rparr>,
      dc_allowed_metric_ids = metrics\<rparr>"

definition scoped_regions :: "AccessContext \<Rightarrow> string set" where
  "scoped_regions access = ac_regions access \<inter> KNOWN_REGIONS"

subsection \<open>Validation\<close>

definition filter_errors :: "MetricSpec \<Rightarrow> AccessContext \<Rightarrow> QueryFilter \<Rightarrow> string list" where
  "filter_errors spec access f =
     (if qf_dimension_id f \<notin> set (ms_allowed_dimensions spec) then [''FILTER_DIMENSION_NOT_ALLOWED''] else [])
     @ (if qf_operator f \<notin> {OP_IN, EQUALS} then [''FILTER_OPERATOR_NOT_SUPPORTED''] else [])
     @ (if qf_dimension_id f = ''REGION'' \<and> scoped_regions access \<noteq> {}
           \<and> set (qf_values f) - scoped_regions access \<noteq> {} then [''REGION_SCOPE_VIOLATION''] else [])"

definition scope_errors :: "demo_connector \<Rightarrow> StructuredQueryPlan \<Rightarrow> AccessContext \<Rightarrow> string list" where
  "scope_errors con plan access =
     (if pl_connector_id plan \<noteq> cd_connector_id (dc_descriptor con) then [''CONNECTOR_ID_MISMATCH''] else [])
     @ (if pl_tenant_id plan \<noteq> ac_tenant_id access then [''TENANT_SCOPE_MISMATCH''] else [])
     @ (if READ_DATA_ACTION \<notin> ac_actions access \<and> ADMIN_ROLE \<notin> ac_roles access
        then [''DATA_ACTION_NOT_ALLOWED''] else [])"

definition contract_errors :: "demo_connector \<Rightarrow> MetricSpec \<Rightarrow> StructuredQueryPlan \<Rightarrow> string list" where
  "contract_errors con spec plan =
     (if pl_aggregation plan \<noteq> ms_aggregation spec then [''AGGREGATION_CONTRACT_MISMATCH''] else [])
     @ (if set (pl_dimensions plan) - set (ms_allowed_dimensions spec) \<noteq> {} then [''DIMENSION_NOT_ALLOWED''] else [])
     @ (if pl_row_limit plan > cd_maximum_rows (dc_descriptor con) then [''ROW_LIMIT_EXCEEDED''] else [])"

definition validate_plan :: "demo_connector \<Rightarrow> StructuredQueryPlan \<Rightarrow> AccessContext \<Rightarrow> py_exc + string list" where
  "validate_plan con plan access =
     (if pl_metric_id plan \<notin> dc_allowed_metric_ids con
        then Inr (scope_errors con plan access @ [''METRIC_NOT_AVAILABLE_ON_CONNECTOR''])
      else (case METRIC_SPECS (pl_metric_id plan) of None \<Rightarrow> Inl KeyError
        | Some spec \<Rightarrow>
          (let errors = scope_errors con plan access @ contract_errors con spec plan
                          @ concat (map (filter_errors spec access) (pl_filters plan))
           in case resolve_window (pl_time_window plan) of
                Inl ValueError \<Rightarrow> Inr (uniq_from [] (errors @ [''INVALID_TIME_WINDOW'']))
              | Inl e \<Rightarrow> Inl e
              | Inr requested \<Rightarrow> Inr (uniq_from [] (errors @
                  (if rr_start requested < DEMO_COVERAGE_START \<or> rr_end requested > DEMO_COVERAGE_END
                   then [''SOURCE_COVERAGE_INCOMPLETE''] else []))))))"

subsection \<open>SQL\<close>

datatype sql_param = PStr string | PInt int

text \<open>\<open>date.isoformat()\<close>: the year padded to four digits, month and day to two.\<close>

definition isoformat :: "date \<Rightarrow> string" where
  "isoformat d = pad_left 4 (nat_str (year d)) @ ''-'' @ pad_left 2 (nat_str (month d))
     @ ''-'' @ pad_left 2 (nat_str (day d))"

definition placeholders :: "'a list \<Rightarrow> string" where
  "placeholders xs = py_join '', '' (map (\<lambda>_. ''?'') xs)"

fun filter_clauses :: "QueryFilter list \<Rightarrow> py_exc + (string \<times> sql_param list) list" where
  "filter_clauses [] = Inr []"
| "filter_clauses (f # fs) =
     (case DIMENSION_COLUMNS (qf_dimension_id f) of None \<Rightarrow> Inl KeyError
      | Some column \<Rightarrow>
        (case filter_clauses fs of Inl e \<Rightarrow> Inl e
         | Inr rest \<Rightarrow> Inr ((column @ '' IN ('' @ placeholders (qf_values f) @ '')'', map PStr (qf_values f)) # rest)))"

definition value_expression :: "MetricSpec \<Rightarrow> string" where
  "value_expression spec = (if ms_aggregation spec = RATIO
     then ''CASE WHEN SUM(denominator) = 0 THEN NULL ELSE SUM(numerator) / SUM(denominator) END''
     else ''SUM(amount)'')"

definition scope_clause :: "MetricSpec \<Rightarrow> AccessContext \<Rightarrow> (string \<times> sql_param list) list" where
  "scope_clause spec access =
     (let regions = py_sorted (scoped_regions access)
      in if regions \<noteq> [] \<and> ''REGION'' \<in> set (ms_allowed_dimensions spec)
         then [(''region_id IN ('' @ placeholders regions @ '')'', map PStr regions)] else [])"

definition build_sql :: "StructuredQueryPlan \<Rightarrow> AccessContext \<Rightarrow> ResolvedRange \<Rightarrow> py_exc + (string \<times> sql_param list)" where
  "build_sql plan access rng =
     (case METRIC_SPECS (pl_metric_id plan) of None \<Rightarrow> Inl KeyError
      | Some spec \<Rightarrow>
        (case lookup_all DIMENSION_COLUMNS (pl_dimensions plan) of Inl e \<Rightarrow> Inl e
         | Inr columns \<Rightarrow>
           (case filter_clauses (pl_filters plan) of Inl e \<Rightarrow> Inl e
            | Inr fclauses \<Rightarrow>
              (let select_dimensions = py_join '', '' (map (\<lambda>(c, d). c @ '' AS '' @ d) (zip columns (pl_dimensions plan)));
                   select_clause = (if select_dimensions \<noteq> [] then select_dimensions @ '', '' else [])
                                     @ value_expression spec @ '' AS value'';
                   base = [(''metric_id = ?'', [PStr (pl_metric_id plan)]),
                           (''fact_date >= ?'', [PStr (isoformat (rr_start rng))]),
                           (''fact_date <= ?'', [PStr (isoformat (rr_end rng))])];
                   clauses = base @ fclauses @ scope_clause spec access;
                   group_by = py_join '', '' columns
               in Inr (''SELECT '' @ select_clause @ '' FROM metric_facts WHERE '' @ py_join '' AND '' (map fst clauses)
                         @ (if columns \<noteq> [] then '' GROUP BY '' @ group_by @ '' ORDER BY '' @ group_by else [])
                         @ '' LIMIT ?'',
                       concat (map snd clauses) @ [PInt (pl_row_limit plan)])))))"

subsection \<open>Execution\<close>

datatype execution_error = SourceNotReady string | PlanInvalid string | ExecRaised py_exc

record sql_environment =
  se_run :: "string \<Rightarrow> sql_param list \<Rightarrow> row list"
  se_result_digest :: "row list \<Rightarrow> string"
  se_sql_digest :: "string \<Rightarrow> string"

fun normalize_rows :: "row list \<Rightarrow> py_exc + row list" where
  "normalize_rows [] = Inr []"
| "normalize_rows (r # rs) =
     (case normalize_rows rs of Inl e \<Rightarrow> Inl e
      | Inr rest \<Rightarrow>
        if row_get r ''value'' = VNone then Inr (r # rest)
        else (case to_float (row_get r ''value'') of Inl e \<Rightarrow> Inl e
          | Inr f \<Rightarrow> Inr (row_set ''value'' (VFloat f) r # rest)))"

definition query_rows :: "sql_environment \<Rightarrow> string \<times> sql_param list \<Rightarrow> py_exc + row list" where
  "query_rows env q = normalize_rows (se_run env (fst q) (snd q))"

definition comparison_rows_for :: "sql_environment \<Rightarrow> StructuredQueryPlan \<Rightarrow> AccessContext \<Rightarrow> ResolvedRange option
    \<Rightarrow> py_exc + (row list \<times> string option)" where
  "comparison_rows_for env plan access rngo =
     (case rngo of None \<Rightarrow> Inr ([], None)
      | Some rng \<Rightarrow>
        (case build_sql plan access rng of Inl e \<Rightarrow> Inl e
         | Inr q \<Rightarrow> (case query_rows env q of Inl e \<Rightarrow> Inl e | Inr rows \<Rightarrow> Inr (rows, Some (fst q)))))"

definition make_receipt :: "sql_environment \<Rightarrow> uuid \<Rightarrow> instant \<Rightarrow> StructuredQueryPlan \<Rightarrow> ResolvedRange
    \<Rightarrow> ResolvedRange option \<Rightarrow> string \<Rightarrow> string option \<Rightarrow> row list \<Rightarrow> string \<Rightarrow> QueryReceipt" where
  "make_receipt env rid now plan cur cmp sql csql rows result_hash =
     \<lparr>rc_source_kind = ''synthetic_demo'', rc_source_fingerprint = None, rc_cloud_job = None,
      rc_definition_snapshot_id = None,
      rc_receipt_id = rid, rc_query_id = pl_query_id plan, rc_decision_id = pl_decision_id plan,
      rc_plan_hash = pl_plan_hash plan, rc_connector_id = pl_connector_id plan, rc_executed_at = now,
      rc_source_snapshot = 1785564000000000, rc_coverage_start = DEMO_COVERAGE_START,
      rc_coverage_end = DEMO_COVERAGE_END, rc_resolved_start = rr_start cur, rc_resolved_end = rr_end cur,
      rc_comparison_start = map_option rr_start cmp, rc_comparison_end = map_option rr_end cmp,
      rc_row_count = int (length rows), rc_result_rows = rows, rc_result_hash = result_hash,
      rc_sql_hash = se_sql_digest env (case csql of None \<Rightarrow> sql
         | Some c \<Rightarrow> sql @ [CHR 0x0A] @ ''-- comparison'' @ [CHR 0x0A] @ c),
      rc_physical_mapping_version = None, rc_physical_mapping_hash = None,
      rc_data_quality_status = ''EXECUTED'',
      rc_data_quality_checks = [''PARAMETERIZED_SQL'', ''READ_ONLY_SOURCE'', ''SOURCE_COVERAGE_CONFIRMED'',
        ''POLICY_SCOPE_APPLIED''],
      rc_policy_decision_id = pl_decision_id plan, rc_warnings = [''SYNTHETIC_DEMONSTRATION_DATA'']\<rparr>"

definition execute_sync :: "sql_environment \<Rightarrow> uuid \<Rightarrow> instant \<Rightarrow> StructuredQueryPlan \<Rightarrow> AccessContext
    \<Rightarrow> py_exc + QueryReceipt" where
  "execute_sync env rid now plan access =
     (case resolve_window (pl_time_window plan) of Inl e \<Rightarrow> Inl e
      | Inr cur \<Rightarrow>
        (case resolve_comparison_range cur (pl_comparison plan) of Inl e \<Rightarrow> Inl e
         | Inr cmp \<Rightarrow>
           (case build_sql plan access cur of Inl e \<Rightarrow> Inl e
            | Inr q \<Rightarrow>
              (case query_rows env q of Inl e \<Rightarrow> Inl e
               | Inr current_rows \<Rightarrow>
                 (case comparison_rows_for env plan access cmp of Inl e \<Rightarrow> Inl e
                  | Inr (comparison_rows, csql) \<Rightarrow>
                    (case merge_comparison_rows current_rows comparison_rows (pl_dimensions plan) of Inl e \<Rightarrow> Inl e
                     | Inr rows \<Rightarrow>
                       (case canonical_rows rows of Inl e \<Rightarrow> Inl e
                        | Inr canonical \<Rightarrow>
                            Inr (make_receipt env rid now plan cur cmp (fst q) csql rows
                                   (se_result_digest env canonical)))))))))"

definition execute_read_only :: "demo_connector \<Rightarrow> sql_environment \<Rightarrow> uuid \<Rightarrow> instant \<Rightarrow> StructuredQueryPlan
    \<Rightarrow> AccessContext \<Rightarrow> execution_error + QueryReceipt" where
  "execute_read_only con env rid now plan access =
     (case validate_plan con plan access of Inl e \<Rightarrow> Inl (ExecRaised e)
      | Inr errors \<Rightarrow>
        if ''SOURCE_COVERAGE_INCOMPLETE'' \<in> set errors
        then Inl (SourceNotReady (''Certified demonstration data is available only through ''
               @ isoformat DEMO_COVERAGE_END @ ''.''))
        else if errors \<noteq> [] then Inl (PlanInvalid (py_join '', '' errors))
        else (case execute_sync env rid now plan access of Inl e \<Rightarrow> Inl (ExecRaised e) | Inr r \<Rightarrow> Inr r))"

subsection \<open>A plan, a database and a caller for the witnesses\<close>

definition demo_env :: sql_environment where
  "demo_env = \<lparr>se_run = (\<lambda>sql ps. [[(''REGION'', VStr ''WEST''), (''value'', VInt (1200 + int (length ps)))]]),
     se_result_digest = (\<lambda>rs. nat_str (int (length rs))), se_sql_digest = (\<lambda>s. take 6 s)\<rparr>"

definition demo_plan :: StructuredQueryPlan where
  "demo_plan = \<lparr>pl_query_id = ''q1'', pl_decision_id = ''d1'', pl_plan_hash = ''h1'', pl_tenant_id = ''demo-telecom'',
     pl_connector_id = ''telecom_semantic_warehouse'', pl_metric_id = ''MOBILE_ACTIVATIONS'',
     pl_semantic_version = ''2.0'', pl_value_type = VT_INTEGER, pl_aggregation = AGG_SUM, pl_unit = ''COUNT'',
     pl_currency = None, pl_dimensions = [''REGION''],
     pl_filters = [\<lparr>qf_dimension_id = ''REGION'', qf_operator = OP_IN, qf_values = [''WEST'']\<rparr>],
     pl_time_window = \<lparr>tw_preset = PREVIOUS_COMPLETE_MONTH, tw_grain = MONTH, tw_calendar = ''GREGORIAN'',
       tw_timezone = ''UTC'', tw_anchor_date = Date 2026 8 20, tw_start_date = None, tw_end_date = None\<rparr>,
     pl_comparison = PRIOR_PERIOD, pl_row_limit = 100\<rparr>"

definition demo_con :: demo_connector where
  "demo_con = make_demo_connector ''telecom_semantic_warehouse'' {''MOBILE_ACTIVATIONS'', ''POSTPAID_CHURN'', ''NETWORK_CONGESTION''}"

definition western :: AccessContext where
  "western = analyst\<lparr>ac_regions := {''WEST''}\<rparr>"

subsection \<open>What execution has checked\<close>

definition plan_permitted :: "demo_connector \<Rightarrow> StructuredQueryPlan \<Rightarrow> AccessContext \<Rightarrow> bool" where
  "plan_permitted con plan access \<longleftrightarrow>
     pl_connector_id plan = cd_connector_id (dc_descriptor con) \<and> pl_tenant_id plan = ac_tenant_id access
     \<and> allowed (can_read_data access) \<and> pl_metric_id plan \<in> dc_allowed_metric_ids con
     \<and> pl_row_limit plan \<le> cd_maximum_rows (dc_descriptor con)
     \<and> (\<exists>spec. METRIC_SPECS (pl_metric_id plan) = Some spec \<and> pl_aggregation plan = ms_aggregation spec
          \<and> set (pl_dimensions plan) \<subseteq> set (ms_allowed_dimensions spec)
          \<and> (\<forall>f\<in>set (pl_filters plan). qf_dimension_id f \<in> set (ms_allowed_dimensions spec)
               \<and> (qf_dimension_id f = ''REGION'' \<longrightarrow> scoped_regions access \<noteq> {} \<longrightarrow>
                    set (qf_values f) \<subseteq> scoped_regions access)))
     \<and> (\<exists>r. resolve_window (pl_time_window plan) = Inr r \<and> DEMO_COVERAGE_START \<le> rr_start r
          \<and> rr_end r \<le> DEMO_COVERAGE_END)"

lemma uniq_from_Nil_app: "uniq_from [] xs = [] \<longleftrightarrow> xs = []"
  by (simp add: uniq_from_Nil_iff)

lemma scope_errors_Nil:
  "scope_errors con plan access = [] \<longleftrightarrow> pl_connector_id plan = cd_connector_id (dc_descriptor con)
    \<and> pl_tenant_id plan = ac_tenant_id access \<and> allowed (can_read_data access)"
  by (auto simp: scope_errors_def)

lemma contract_errors_Nil:
  "contract_errors con spec plan = [] \<longleftrightarrow> pl_aggregation plan = ms_aggregation spec
    \<and> set (pl_dimensions plan) \<subseteq> set (ms_allowed_dimensions spec) \<and> pl_row_limit plan \<le> cd_maximum_rows (dc_descriptor con)"
  by (auto simp: contract_errors_def)

lemma filter_errors_Nil:
  "filter_errors spec access f = [] \<longleftrightarrow> qf_dimension_id f \<in> set (ms_allowed_dimensions spec)
    \<and> (qf_dimension_id f = ''REGION'' \<longrightarrow> scoped_regions access \<noteq> {} \<longrightarrow> set (qf_values f) \<subseteq> scoped_regions access)"
proof -
  have "qf_operator f \<in> {OP_IN, EQUALS}" by (cases "qf_operator f") simp_all
  then show ?thesis by (auto simp: filter_errors_def)
qed

lemma validate_plan_Nil:
  "validate_plan con plan access = Inr [] \<longleftrightarrow> plan_permitted con plan access"
proof (cases "pl_metric_id plan \<in> dc_allowed_metric_ids con")
  case False
  then show ?thesis by (simp add: validate_plan_def plan_permitted_def)
next
  case m: True
  show ?thesis
  proof (cases "METRIC_SPECS (pl_metric_id plan)")
    case None
    then show ?thesis using m by (simp add: validate_plan_def plan_permitted_def)
  next
    case (Some spec)
    let ?e = "scope_errors con plan access @ contract_errors con spec plan
                          @ concat (map (filter_errors spec access) (pl_filters plan))"
    have e: "?e = [] \<longleftrightarrow> scope_errors con plan access = [] \<and> contract_errors con spec plan = []
        \<and> (\<forall>f\<in>set (pl_filters plan). filter_errors spec access f = [])" by auto
    show ?thesis
    proof (cases "resolve_window (pl_time_window plan)")
      case (Inl x)
      then show ?thesis using m Some
        by (cases x) (simp_all add: validate_plan_def plan_permitted_def Let_def uniq_from_Nil_app)
    next
      case (Inr r)
      have "validate_plan con plan access = Inr [] \<longleftrightarrow> ?e = [] \<and> \<not> (rr_start r < DEMO_COVERAGE_START \<or> rr_end r > DEMO_COVERAGE_END)"
        using m Some Inr by (simp add: validate_plan_def Let_def uniq_from_Nil_app)
      then show ?thesis using m Some Inr
        unfolding e scope_errors_Nil contract_errors_Nil filter_errors_Nil plan_permitted_def
        by (auto simp: not_less simp del: allowed_iff)
    qed
  qed
qed

subsection \<open>The shape of the SQL text\<close>

lemma placeholders_length: "length xs = length ys \<Longrightarrow> placeholders xs = placeholders ys"
proof -
  have "map (\<lambda>_. ''?'') xs = replicate (length xs) ''?''" for xs :: "'c list" by (simp add: map_replicate_const)
  then show "length xs = length ys \<Longrightarrow> placeholders xs = placeholders ys"
    unfolding placeholders_def by (metis map_replicate_const)
qed

text \<open>What of a filter the text shows: the dimension and the number of values.\<close>

definition filter_shape :: "QueryFilter \<Rightarrow> string \<times> nat" where
  "filter_shape f = (qf_dimension_id f, length (qf_values f))"

lemma filter_clauses_text:
  assumes "filter_clauses fs = Inr cs" "filter_clauses gs = Inr ds" "map filter_shape fs = map filter_shape gs"
  shows "map fst cs = map fst ds"
  using assms
proof (induction fs arbitrary: cs gs ds)
  case (Cons f fs)
  then obtain g gs' where gs: "gs = g # gs'" "filter_shape f = filter_shape g" "map filter_shape fs = map filter_shape gs'"
    by auto
  then have dim: "qf_dimension_id f = qf_dimension_id g" "length (qf_values f) = length (qf_values g)"
    by (auto simp: filter_shape_def)
  from Cons.prems(1) obtain col cs' where col: "DIMENSION_COLUMNS (qf_dimension_id f) = Some col"
    and cs': "filter_clauses fs = Inr cs'" and cs: "cs = (col @ '' IN ('' @ placeholders (qf_values f) @ '')'', map PStr (qf_values f)) # cs'"
    by (auto split: option.splits)
  from Cons.prems(2) gs(1) dim col obtain ds' where ds': "filter_clauses gs' = Inr ds'"
    and ds: "ds = (col @ '' IN ('' @ placeholders (qf_values g) @ '')'', map PStr (qf_values g)) # ds'"
    by (auto split: option.splits)
  from Cons.IH [OF cs' ds' gs(3)] placeholders_length [OF dim(2)] cs ds show ?case by simp
qed auto

lemma scope_clause_text:
  assumes "card (scoped_regions a) = card (scoped_regions b)"
  shows "map fst (scope_clause spec a) = map fst (scope_clause spec b)"
proof -
  have fin: "finite (scoped_regions x)" for x by (simp add: scoped_regions_def KNOWN_REGIONS_def)
  have len: "length (py_sorted (scoped_regions a)) = length (py_sorted (scoped_regions b))"
    using assms by (simp add: py_sorted_def)
  then show ?thesis
    using placeholders_length [OF len] by (auto simp: scope_clause_def Let_def)
qed

text \<open>Question marks and parameters match one to one.\<close>

definition marks :: "string \<Rightarrow> nat" where
  "marks s = count_list s (CHR ''?'')"

lemma marks_append [simp]: "marks (a @ b) = marks a + marks b"
  by (simp add: marks_def)

lemma marks_Cons [simp]: "marks (c # s) = (if c = CHR ''?'' then 1 else 0) + marks s"
  by (simp add: marks_def)

lemma marks_Nil [simp]: "marks [] = 0"
  by (simp add: marks_def)

lemma marks_join: "marks sep = 0 \<Longrightarrow> marks (py_join sep xs) = sum_list (map marks xs)"
  by (induction sep xs rule: py_join.induct) auto

lemma marks_placeholders [simp]: "marks (placeholders xs) = length xs"
proof -
  have "marks (py_join '', '' (map (\<lambda>_. ''?'') xs)) = sum_list (map marks (map (\<lambda>_. ''?'') xs))"
    by (rule marks_join) simp
  then show ?thesis by (simp add: placeholders_def comp_def sum_list_triv)
qed

lemma columns_no_marks: "DIMENSION_COLUMNS d = Some c \<Longrightarrow> marks c = 0 \<and> marks d = 0"
  unfolding DIMENSION_COLUMNS_def by (auto split: if_splits)

lemma filter_clauses_marks:
  "filter_clauses fs = Inr cs \<Longrightarrow> \<forall>(t, ps)\<in>set cs. marks t = length ps"
proof (induction fs arbitrary: cs)
  case (Cons f fs)
  then obtain col cs' where "DIMENSION_COLUMNS (qf_dimension_id f) = Some col"
    "filter_clauses fs = Inr cs'" "cs = (col @ '' IN ('' @ placeholders (qf_values f) @ '')'', map PStr (qf_values f)) # cs'"
    by (auto split: option.splits)
  with Cons.IH columns_no_marks show ?case by auto
qed simp

lemma scope_clause_marks: "\<forall>(t, ps)\<in>set (scope_clause spec a). marks t = length ps"
  by (simp add: scope_clause_def Let_def)

lemma clauses_marks:
  "\<forall>(t, ps)\<in>set cs. marks t = length ps \<Longrightarrow> marks (py_join '' AND '' (map fst cs)) = length (concat (map snd cs))"
proof -
  assume a: "\<forall>(t, ps)\<in>set cs. marks t = length ps"
  have "marks (py_join '' AND '' (map fst cs)) = sum_list (map marks (map fst cs))" by (rule marks_join) simp
  also have "\<dots> = sum_list (map (\<lambda>c. length (snd c)) cs)"
    using a by (induction cs) auto
  finally show ?thesis by (simp add: length_concat comp_def)
qed

lemma build_sql_Inr:
  assumes "build_sql plan access rng = Inr (sql, ps)"
  shows "\<exists>spec columns fclauses. METRIC_SPECS (pl_metric_id plan) = Some spec
    \<and> lookup_all DIMENSION_COLUMNS (pl_dimensions plan) = Inr columns \<and> filter_clauses (pl_filters plan) = Inr fclauses
    \<and> sql = ''SELECT '' @ (if py_join '', '' (map (\<lambda>(c, d). c @ '' AS '' @ d) (zip columns (pl_dimensions plan))) \<noteq> []
          then py_join '', '' (map (\<lambda>(c, d). c @ '' AS '' @ d) (zip columns (pl_dimensions plan))) @ '', '' else [])
        @ value_expression spec @ '' AS value'' @ '' FROM metric_facts WHERE ''
        @ py_join '' AND '' ([''metric_id = ?'', ''fact_date >= ?'', ''fact_date <= ?''] @ map fst fclauses
             @ map fst (scope_clause spec access))
        @ (if columns \<noteq> [] then '' GROUP BY '' @ py_join '', '' columns @ '' ORDER BY '' @ py_join '', '' columns else [])
        @ '' LIMIT ?''
    \<and> ps = PStr (pl_metric_id plan) # PStr (isoformat (rr_start rng)) # PStr (isoformat (rr_end rng))
        # concat (map snd fclauses) @ concat (map snd (scope_clause spec access)) @ [PInt (pl_row_limit plan)]"
proof -
  from assms obtain spec where spec: "METRIC_SPECS (pl_metric_id plan) = Some spec"
    by (auto simp: build_sql_def split: option.splits)
  with assms obtain columns where columns: "lookup_all DIMENSION_COLUMNS (pl_dimensions plan) = Inr columns"
    by (auto simp: build_sql_def)
  with assms spec obtain fclauses where "filter_clauses (pl_filters plan) = Inr fclauses"
    by (auto simp: build_sql_def)
  with assms spec columns show ?thesis by (auto simp: build_sql_def Let_def)
qed

lemma dimension_text_marks:
  assumes "lookup_all DIMENSION_COLUMNS ds = Inr cs"
  shows "marks (py_join '', '' (map (\<lambda>(c, d). c @ '' AS '' @ d) (zip cs ds))) = 0" "marks (py_join '', '' cs) = 0"
proof -
  from lookup_all_InrD [OF assms] have cs: "cs = map (\<lambda>k. the (DIMENSION_COLUMNS k)) ds" "set ds \<subseteq> dom DIMENSION_COLUMNS"
    by blast+
  have some: "d \<in> set ds \<Longrightarrow> DIMENSION_COLUMNS d = Some (the (DIMENSION_COLUMNS d))" for d
    using cs(2) by auto
  have *: "\<forall>(c, d)\<in>set (zip cs ds). DIMENSION_COLUMNS d = Some c"
    using some cs(1) by (auto simp: zip_map1 zip_same_conv_map)
  have **: "\<forall>c\<in>set cs. \<exists>d. DIMENSION_COLUMNS d = Some c"
    using some cs(1) by auto
  have "marks (py_join '', '' (map (\<lambda>(c, d). c @ '' AS '' @ d) (zip cs ds))) =
      sum_list (map marks (map (\<lambda>(c, d). c @ '' AS '' @ d) (zip cs ds)))" by (rule marks_join) simp
  also have "\<dots> = 0" using * columns_no_marks by (auto simp: sum_list_eq_0_iff)
  finally show "marks (py_join '', '' (map (\<lambda>(c, d). c @ '' AS '' @ d) (zip cs ds))) = 0" .
  have "marks (py_join '', '' cs) = sum_list (map marks cs)" by (rule marks_join) simp
  also have "\<dots> = 0" using ** columns_no_marks by (auto simp: sum_list_eq_0_iff)
  finally show "marks (py_join '', '' cs) = 0" .
qed

subsection \<open>Properties\<close>

text \<open>C2: The connector answers only permitted plans: one addressed to it, of the caller's own tenant, with
  read permission, for a metric it serves under the metric's aggregation, with allowed dimensions and
  filter dimensions, at most its maximum of rows, and a window that resolves inside the certified coverage.
  When the caller's region scope names at least one region the source knows, every region filter lies inside the
  known regions of that scope.  (A caller whose scope names none is not held to any region: the code treats it like one
  without a region scope; \<open>unknown_region_is_unrestricted\<close> shows that.)\<close>

theorem execution_requires_permission:
  assumes "execute_read_only con env rid now plan access = Inr rc"
  shows "plan_permitted con plan access \<and> (ac_regions access \<inter> KNOWN_REGIONS = {}
    \<or> (\<forall>f\<in>set (pl_filters plan). qf_dimension_id f = ''REGION'' \<longrightarrow> set (qf_values f) \<subseteq> ac_regions access \<inter> KNOWN_REGIONS))"
proof -
  from assms have "plan_permitted con plan access"
    using validate_plan_Nil [of con plan access] by (auto simp: execute_read_only_def split: sum.splits if_splits)
  moreover from this have "scoped_regions access = {} \<or> (\<forall>f\<in>set (pl_filters plan). qf_dimension_id f = ''REGION''
      \<longrightarrow> set (qf_values f) \<subseteq> scoped_regions access)" unfolding plan_permitted_def by blast
  ultimately show ?thesis unfolding scoped_regions_def by blast
qed

lemma demo_permitted_executes: "is_ok (execute_read_only demo_con demo_env ''r1'' 0 demo_plan western)"
  by code_simp

theorem execution_requires_permission_witness: "plan_permitted demo_con demo_plan western"
  using demo_permitted_executes execution_requires_permission [of demo_con demo_env "''r1''" 0 demo_plan western]
  by (auto simp: is_ok_iff)

text \<open>No value reaches the SQL text: two plans for the same metric and dimensions whose filters name the
  same dimensions with the same numbers of values, for callers with equally many scoped regions, have
  the same text whatever the values, dates and limits are; and the text has one placeholder for each
  parameter.\<close>

theorem sql_text_is_parameterized:
  assumes "build_sql p a r = Inr (sql, ps)" "build_sql q b s = Inr (sql', qs)"
    and "pl_metric_id p = pl_metric_id q" "pl_dimensions p = pl_dimensions q"
    and "map filter_shape (pl_filters p) = map filter_shape (pl_filters q)"
    and "card (scoped_regions a) = card (scoped_regions b)"
  shows "sql = sql' \<and> marks sql = length ps"
proof -
  from build_sql_Inr [OF assms(1)] obtain spec columns fcl where
    p: "METRIC_SPECS (pl_metric_id p) = Some spec" "lookup_all DIMENSION_COLUMNS (pl_dimensions p) = Inr columns"
      "filter_clauses (pl_filters p) = Inr fcl" and
    sql: "sql = ''SELECT '' @ (if py_join '', '' (map (\<lambda>(c, d). c @ '' AS '' @ d) (zip columns (pl_dimensions p))) \<noteq> []
          then py_join '', '' (map (\<lambda>(c, d). c @ '' AS '' @ d) (zip columns (pl_dimensions p))) @ '', '' else [])
        @ value_expression spec @ '' AS value'' @ '' FROM metric_facts WHERE ''
        @ py_join '' AND '' ([''metric_id = ?'', ''fact_date >= ?'', ''fact_date <= ?''] @ map fst fcl
             @ map fst (scope_clause spec a))
        @ (if columns \<noteq> [] then '' GROUP BY '' @ py_join '', '' columns @ '' ORDER BY '' @ py_join '', '' columns else [])
        @ '' LIMIT ?''" and
    ps: "ps = PStr (pl_metric_id p) # PStr (isoformat (rr_start r)) # PStr (isoformat (rr_end r))
        # concat (map snd fcl) @ concat (map snd (scope_clause spec a)) @ [PInt (pl_row_limit p)]" by blast
  from build_sql_Inr [OF assms(2)] assms(3,4) p obtain fcl' where
    q: "filter_clauses (pl_filters q) = Inr fcl'" and
    sql': "sql' = ''SELECT '' @ (if py_join '', '' (map (\<lambda>(c, d). c @ '' AS '' @ d) (zip columns (pl_dimensions p))) \<noteq> []
          then py_join '', '' (map (\<lambda>(c, d). c @ '' AS '' @ d) (zip columns (pl_dimensions p))) @ '', '' else [])
        @ value_expression spec @ '' AS value'' @ '' FROM metric_facts WHERE ''
        @ py_join '' AND '' ([''metric_id = ?'', ''fact_date >= ?'', ''fact_date <= ?''] @ map fst fcl'
             @ map fst (scope_clause spec b))
        @ (if columns \<noteq> [] then '' GROUP BY '' @ py_join '', '' columns @ '' ORDER BY '' @ py_join '', '' columns else [])
        @ '' LIMIT ?''" by auto
  have same: "sql = sql'"
    unfolding sql sql' filter_clauses_text [OF p(3) q assms(5)] scope_clause_text [OF assms(6), of spec] ..
  let ?cl = "fcl @ scope_clause spec a"
  have cl: "\<forall>(t, ps)\<in>set ?cl. marks t = length ps"
    using filter_clauses_marks [OF p(3)] scope_clause_marks [of spec a] by auto
  have "marks (py_join '' AND '' ([''metric_id = ?'', ''fact_date >= ?'', ''fact_date <= ?''] @ map fst ?cl))
      = 3 + sum_list (map marks (map fst ?cl))"
    by (subst marks_join) simp_all
  also have "sum_list (map marks (map fst ?cl)) = length (concat (map snd ?cl))"
    using clauses_marks [OF cl] marks_join [of "'' AND ''" "map fst ?cl"] by simp
  finally have "marks (py_join '' AND '' ([''metric_id = ?'', ''fact_date >= ?'', ''fact_date <= ?''] @ map fst fcl
      @ map fst (scope_clause spec a))) = 3 + length (concat (map snd fcl)) + length (concat (map snd (scope_clause spec a)))"
    by simp
  moreover have "marks (value_expression spec) = 0" by (simp add: value_expression_def)
  ultimately have "marks sql = length ps"
    unfolding sql ps using dimension_text_marks [OF p(2)] by simp
  with same show ?thesis by blast
qed

lemma demo_sql_built: "is_ok (build_sql demo_plan western \<lparr>rr_start = Date 2026 7 1, rr_end = Date 2026 7 31\<rparr>)"
  by code_simp

theorem sql_text_is_parameterized_witness:
  "\<exists>sql ps. build_sql demo_plan western \<lparr>rr_start = Date 2026 7 1, rr_end = Date 2026 7 31\<rparr> = Inr (sql, ps) \<and> marks sql = length ps"
proof -
  from demo_sql_built obtain sql ps where
    q: "build_sql demo_plan western \<lparr>rr_start = Date 2026 7 1, rr_end = Date 2026 7 31\<rparr> = Inr (sql, ps)"
    by (auto simp: is_ok_iff)
  from sql_text_is_parameterized [OF q q] q show ?thesis by blast
qed

lemma py_join_snoc: "xs \<noteq> [] \<Longrightarrow> py_join sep (xs @ [y]) = py_join sep xs @ sep @ y"
  by (induction sep xs rule: py_join.induct) auto

text \<open>For a metric with a region dimension, a caller scoped to known regions gets a region clause as the
  last condition of the query, whose parameters are exactly the caller's regions: every parameter
  before it belongs to an earlier placeholder and only the limit follows.\<close>

theorem region_scope_enforced:
  assumes "build_sql plan access rng = Inr (sql, ps)" "METRIC_SPECS (pl_metric_id plan) = Some spec"
    and "''REGION'' \<in> set (ms_allowed_dimensions spec)" "scoped_regions access \<noteq> {}"
  shows "\<exists>before later qs regions. sql = before @ '' AND region_id IN ('' @ placeholders regions @ '')'' @ later
    \<and> ps = qs @ map PStr regions @ [PInt (pl_row_limit plan)] \<and> marks before = length qs \<and> set regions = scoped_regions access"
proof -
  let ?regions = "py_sorted (scoped_regions access)"
  have fin: "finite (scoped_regions access)" by (simp add: scoped_regions_def KNOWN_REGIONS_def)
  then have ne: "?regions \<noteq> []" using assms(4) py_sorted_set [of "scoped_regions access"] by force
  from build_sql_Inr [OF assms(1)] assms(2) obtain columns fcl where
    p: "lookup_all DIMENSION_COLUMNS (pl_dimensions plan) = Inr columns" "filter_clauses (pl_filters plan) = Inr fcl" and
    sql: "sql = ''SELECT '' @ (if py_join '', '' (map (\<lambda>(c, d). c @ '' AS '' @ d) (zip columns (pl_dimensions plan))) \<noteq> []
          then py_join '', '' (map (\<lambda>(c, d). c @ '' AS '' @ d) (zip columns (pl_dimensions plan))) @ '', '' else [])
        @ value_expression spec @ '' AS value'' @ '' FROM metric_facts WHERE ''
        @ py_join '' AND '' (([''metric_id = ?'', ''fact_date >= ?'', ''fact_date <= ?''] @ map fst fcl)
             @ map fst (scope_clause spec access))
        @ (if columns \<noteq> [] then '' GROUP BY '' @ py_join '', '' columns @ '' ORDER BY '' @ py_join '', '' columns else [])
        @ '' LIMIT ?''" and
    ps: "ps = PStr (pl_metric_id plan) # PStr (isoformat (rr_start rng)) # PStr (isoformat (rr_end rng))
        # concat (map snd fcl) @ concat (map snd (scope_clause spec access)) @ [PInt (pl_row_limit plan)]" by auto
  have sc: "scope_clause spec access = [(''region_id IN ('' @ placeholders ?regions @ '')'', map PStr ?regions)]"
    using ne assms(3) by (simp add: scope_clause_def Let_def)
  let ?before = "''SELECT '' @ (if py_join '', '' (map (\<lambda>(c, d). c @ '' AS '' @ d) (zip columns (pl_dimensions plan))) \<noteq> []
          then py_join '', '' (map (\<lambda>(c, d). c @ '' AS '' @ d) (zip columns (pl_dimensions plan))) @ '', '' else [])
        @ value_expression spec @ '' AS value'' @ '' FROM metric_facts WHERE ''
        @ py_join '' AND '' ([''metric_id = ?'', ''fact_date >= ?'', ''fact_date <= ?''] @ map fst fcl)"
  let ?later = "(if columns \<noteq> [] then '' GROUP BY '' @ py_join '', '' columns @ '' ORDER BY '' @ py_join '', '' columns else [])
        @ '' LIMIT ?''"
  let ?qs = "PStr (pl_metric_id plan) # PStr (isoformat (rr_start rng)) # PStr (isoformat (rr_end rng)) # concat (map snd fcl)"
  have "sql = ?before @ '' AND region_id IN ('' @ placeholders ?regions @ '')'' @ ?later"
    unfolding sql sc list.map fst_conv by (subst py_join_snoc) simp_all
  moreover have "ps = ?qs @ map PStr ?regions @ [PInt (pl_row_limit plan)]"
    unfolding ps sc by simp
  moreover have "marks ?before = length ?qs"
    using dimension_text_marks(1) [OF p(1)] clauses_marks [OF filter_clauses_marks [OF p(2)]]
    by (subst (2) append_assoc [symmetric]) (simp add: value_expression_def marks_join)
  ultimately show ?thesis using fin by (intro exI [of _ ?before] exI [of _ ?later] exI [of _ ?qs] exI [of _ ?regions]) simp
qed

theorem region_scope_enforced_witness:
  "\<exists>before later qs regions sql ps. build_sql demo_plan western \<lparr>rr_start = Date 2026 7 1, rr_end = Date 2026 7 31\<rparr> = Inr (sql, ps)
    \<and> sql = before @ '' AND region_id IN ('' @ placeholders regions @ '')'' @ later
    \<and> ps = qs @ map PStr regions @ [PInt 100] \<and> marks before = length qs \<and> set regions = {''WEST''}"
proof -
  from demo_sql_built obtain sql ps where
    q: "build_sql demo_plan western \<lparr>rr_start = Date 2026 7 1, rr_end = Date 2026 7 31\<rparr> = Inr (sql, ps)"
    by (auto simp: is_ok_iff)
  have s: "METRIC_SPECS (pl_metric_id demo_plan) = Some \<lparr>ms_aggregation = AGG_SUM,
         ms_allowed_dimensions = [''STORE'', ''MARKET'', ''REGION'', ''CHANNEL'', ''PLAN'']\<rparr>" by code_simp
  have w: "scoped_regions western = {''WEST''}" by code_simp
  have l: "pl_row_limit demo_plan = 100" by (simp add: demo_plan_def)
  from region_scope_enforced [OF q s] q show ?thesis unfolding w l by simp
qed

text \<open>A region scope the demonstration data does not know is no scope: a caller whose regions are all
  unknown gets the query and the validation of a caller without any region, over every region.\<close>

theorem unknown_region_is_unrestricted:
  assumes "ac_regions access \<inter> KNOWN_REGIONS = {}"
  shows "build_sql plan access rng = build_sql plan (access\<lparr>ac_regions := {}\<rparr>) rng
    \<and> validate_plan con plan access = validate_plan con plan (access\<lparr>ac_regions := {}\<rparr>)"
proof -
  have s: "scoped_regions access = {}" "scoped_regions (access\<lparr>ac_regions := {}\<rparr>) = {}"
    using assms by (simp_all add: scoped_regions_def)
  have 1: "scope_clause spec (access\<lparr>ac_regions := {}\<rparr>) = scope_clause spec access" for spec
    by (simp add: scope_clause_def s)
  have 2: "filter_errors spec (access\<lparr>ac_regions := {}\<rparr>) = filter_errors spec access" for spec
    by (rule ext) (simp add: filter_errors_def s)
  have 3: "scope_errors con plan (access\<lparr>ac_regions := {}\<rparr>) = scope_errors con plan access"
    by (simp add: scope_errors_def)
  show ?thesis unfolding build_sql_def validate_plan_def 1 2 3 by (intro conjI refl)
qed

theorem unknown_region_is_unrestricted_witness:
  "validate_plan demo_con demo_plan (analyst\<lparr>ac_regions := {''EMEA''}\<rparr>)
    = validate_plan demo_con demo_plan (analyst\<lparr>ac_regions := {}\<rparr>)"
  using unknown_region_is_unrestricted [of "analyst\<lparr>ac_regions := {''EMEA''}\<rparr>" demo_plan undefined demo_con]
  by (simp add: KNOWN_REGIONS_def)

text \<open>Validation reports a window the calendar cannot express in two ways: for the year before the first
  year it is an error code of the plan, for the day before the first day it is an exception that
  escapes the connector.\<close>

theorem window_failures_differ:
  "validate_plan demo_con (demo_plan\<lparr>pl_time_window := (pl_time_window demo_plan)\<lparr>tw_preset := PREVIOUS_COMPLETE_YEAR,
       tw_anchor_date := Date 1 1 1\<rparr>\<rparr>) western = Inr [''INVALID_TIME_WINDOW'']
   \<and> validate_plan demo_con (demo_plan\<lparr>pl_time_window := (pl_time_window demo_plan)\<lparr>tw_preset := PREVIOUS_COMPLETE_DAY,
       tw_anchor_date := Date 1 1 1\<rparr>\<rparr>) western = Inl OverflowError"
  by code_simp

end
