(* ===== verification/Certification.thy ===== *)
theory Certification
  imports DemoConnector
begin

section \<open>Certification: validating results and composing the answer\<close>

text \<open>
  \<open>services/certification.py\<close>: \<open>ResultSenseValidator\<close>, which decides whether a receipt's rows may be
  shown, and \<open>CertifiedAnswerComposer\<close>, which turns verified rows into claims and text.  The digest of
  the canonical rows and \<open>repr\<close> of a float are parameters.
\<close>

subsection \<open>Validation\<close>

definition is_finite_number :: "pyval \<Rightarrow> py_exc + bool" where
  "is_finite_number v = (case v of
       VInt n \<Rightarrow> (case fl_of_int n of Inl e \<Rightarrow> Inl e | Inr f \<Rightarrow> Inr True)
     | VFloat f \<Rightarrow> Inr (is_finite f)
     | _ \<Rightarrow> Inr False)"

definition is_integral :: "pyfloat \<Rightarrow> bool" where
  "is_integral f = (case f of Fin x \<Rightarrow> of_int \<lfloor>x\<rfloor> = x | _ \<Rightarrow> False)"

definition bound_failures :: "MetricDefinition \<Rightarrow> string \<Rightarrow> pyfloat \<Rightarrow> string list" where
  "bound_failures metric label x =
     (case md_valid_min metric of Some lo \<Rightarrow> if fl_less x lo then [label @ ''_BELOW_MINIMUM''] else [] | None \<Rightarrow> [])
     @ (case md_valid_max metric of Some hi \<Rightarrow> if fl_less hi x then [label @ ''_ABOVE_MAXIMUM''] else [] | None \<Rightarrow> [])
     @ (if md_value_type metric = VT_INTEGER \<and> \<not> is_integral x then [label @ ''_NOT_INTEGER''] else [])"

definition validate_value :: "pyval \<Rightarrow> MetricDefinition \<Rightarrow> string \<Rightarrow> py_exc + string list" where
  "validate_value v metric label =
     (case is_finite_number v of Inl e \<Rightarrow> Inl e
      | Inr False \<Rightarrow> Inr [label @ ''_NOT_FINITE'']
      | Inr True \<Rightarrow> (case to_float v of Inl e \<Rightarrow> Inl e | Inr x \<Rightarrow> Inr (bound_failures metric label x)))"

text \<open>\<open>previous == 0\<close> of a number.\<close>

definition equals_zero :: "pyval \<Rightarrow> bool" where
  "equals_zero v = (case v of VInt n \<Rightarrow> n = 0 | VFloat f \<Rightarrow> fl_eq f (Fin 0) | VBool b \<Rightarrow> \<not> b | _ \<Rightarrow> False)"

definition comparison_is_consistent :: "row \<Rightarrow> py_exc + bool" where
  "comparison_is_consistent r =
     (case is_finite_number (row_get r ''value'') of Inl e \<Rightarrow> Inl e
      | Inr False \<Rightarrow> Inr False
      | Inr True \<Rightarrow>
     (case is_finite_number (row_get r ''comparison_value'') of Inl e \<Rightarrow> Inl e
      | Inr False \<Rightarrow> Inr False
      | Inr True \<Rightarrow>
     (case (to_float (row_get r ''value''), to_float (row_get r ''comparison_value'')) of
        (Inr current, Inr previous) \<Rightarrow>
          (let change = fl_sub current previous; absolute = row_get r ''absolute_change'';
               relative = row_get r ''percent_change'' in
           case is_finite_number absolute of Inl e \<Rightarrow> Inl e
           | Inr False \<Rightarrow> Inr False
           | Inr True \<Rightarrow>
          (case to_float absolute of Inl e \<Rightarrow> Inl e
           | Inr a \<Rightarrow>
             if \<not> fl_isclose a change then Inr False
             else if equals_zero (row_get r ''comparison_value'') then Inr (relative = VNone)
             else (case is_finite_number relative of Inl e \<Rightarrow> Inl e
               | Inr False \<Rightarrow> Inr False
               | Inr True \<Rightarrow> (case to_float relative of Inl e \<Rightarrow> Inl e
                   | Inr p \<Rightarrow> Inr (fl_isclose p (fl_div change (fl_abs previous)))))))
      | (Inl e, _) \<Rightarrow> Inl e
      | (_, Inl e) \<Rightarrow> Inl e)))"

definition row_label :: "nat \<Rightarrow> string" where
  "row_label i = ''ROW_'' @ nat_str (int i)"

definition is_dimension_key :: "pyval \<Rightarrow> bool" where
  "is_dimension_key v = (case v of VStr _ \<Rightarrow> True | VInt _ \<Rightarrow> True | VBool _ \<Rightarrow> True | _ \<Rightarrow> False)"

definition comparison_failures :: "MetricDefinition \<Rightarrow> bool \<Rightarrow> nat \<Rightarrow> row \<Rightarrow> py_exc + string list" where
  "comparison_failures metric expected i r =
     (if row_has r ''comparison_value'' then
        (case validate_value (row_get r ''comparison_value'') metric (row_label i @ ''_COMPARISON_VALUE'') of
           Inl e \<Rightarrow> Inl e
         | Inr fs \<Rightarrow> (case comparison_is_consistent r of Inl e \<Rightarrow> Inl e
             | Inr ok \<Rightarrow> Inr (fs @ (if ok then [] else [row_label i @ ''_COMPARISON_ARITHMETIC_MISMATCH'']))))
      else Inr (if expected then [row_label i @ ''_COMPARISON_VALUE_MISSING''] else []))"

definition percent_failures :: "nat \<Rightarrow> row \<Rightarrow> py_exc + string list" where
  "percent_failures i r =
     (let p = row_get r ''percent_change'' in
      if p = VNone then Inr []
      else (case is_finite_number p of Inl e \<Rightarrow> Inl e
        | Inr ok \<Rightarrow> Inr (if ok then [] else [row_label i @ ''_PERCENT_CHANGE_NOT_FINITE''])))"

fun row_failures :: "MetricDefinition \<Rightarrow> string list \<Rightarrow> bool \<Rightarrow> pyval list list \<Rightarrow> nat \<Rightarrow> row list \<Rightarrow> py_exc + string list" where
  "row_failures metric dims expected seen i [] = Inr []"
| "row_failures metric dims expected seen i (r # rs) =
     (if \<exists>d\<in>set dims. \<not> is_dimension_key (row_get r d)
      then (case row_failures metric dims expected seen (Suc i) rs of Inl e \<Rightarrow> Inl e
        | Inr rest \<Rightarrow> Inr ((''INVALID_DIMENSION_KEY_AT_ROW_'' @ nat_str (int i)) # rest))
      else (let key = row_key dims r;
                dup = (if key \<in> set seen then [''DUPLICATE_DIMENSION_KEY_AT_ROW_'' @ nat_str (int i)] else []) in
        case validate_value (row_get r ''value'') metric (row_label i @ ''_VALUE'') of Inl e \<Rightarrow> Inl e
        | Inr vs \<Rightarrow>
          (case comparison_failures metric expected i r of Inl e \<Rightarrow> Inl e
           | Inr cs \<Rightarrow>
             (case percent_failures i r of Inl e \<Rightarrow> Inl e
              | Inr ps \<Rightarrow>
                (case row_failures metric dims expected (key # seen) (Suc i) rs of Inl e \<Rightarrow> Inl e
                 | Inr rest \<Rightarrow> Inr (dup @ vs @ cs @ ps @ rest))))))"

definition lineage_ok :: "BusinessQueryIR \<Rightarrow> QueryReceipt \<Rightarrow> bool" where
  "lineage_ok ir rc =
     (rc_query_id rc = q_query_id ir \<and> rc_plan_hash rc = q_plan_hash ir \<and> rc_decision_id rc = q_decision_id ir
      \<and> rc_connector_id rc = q_source_connector_id ir \<and> rc_policy_decision_id rc = q_decision_id ir)"

definition coverage_ok :: "QueryReceipt \<Rightarrow> bool" where
  "coverage_ok rc =
     (let inside = (\<lambda>s e. rc_coverage_start rc \<le> s \<and> s \<le> e \<and> e \<le> rc_coverage_end rc) in
      ((rc_comparison_start rc = None) = (rc_comparison_end rc = None))
      \<and> inside (rc_resolved_start rc) (rc_resolved_end rc)
      \<and> (case (rc_comparison_start rc, rc_comparison_end rc) of (Some s, Some e) \<Rightarrow> inside s e | _ \<Rightarrow> True))"

definition header_outcomes :: "(row list \<Rightarrow> string) \<Rightarrow> BusinessQueryIR \<Rightarrow> QueryReceipt \<Rightarrow> row list \<Rightarrow> (bool \<times> string \<times> string) list" where
  "header_outcomes digest ir rc canonical =
     [(digest canonical = rc_result_hash rc, ''RESULT_HASH_MATCHED'', ''RESULT_HASH_MISMATCH''),
      (lineage_ok ir rc, ''QUERY_LINEAGE_MATCHED'', ''QUERY_LINEAGE_MISMATCH''),
      (rc_row_count rc = int (length (rc_result_rows rc)), ''ROW_COUNT_MATCHED'', ''ROW_COUNT_MISMATCH''),
      (coverage_ok rc, ''SOURCE_COVERAGE_VALID'', ''SOURCE_COVERAGE_EXCEEDED'')]"

definition validate_result :: "(row list \<Rightarrow> string) \<Rightarrow> MetricDefinition \<Rightarrow> BusinessQueryIR \<Rightarrow> QueryReceipt
    \<Rightarrow> py_exc + (QueryReceipt \<times> VerificationReport)" where
  "validate_result digest metric ir rc =
     (case canonical_rows (rc_result_rows rc) of
        Inl _ \<Rightarrow> Inr (rc\<lparr>rc_data_quality_status := ''FAILED''\<rparr>,
                 \<lparr>vr_status = VERIFICATION_FAILED_STATUS, vr_checks = [], vr_failures = [''RESULT_NOT_CANONICAL'']\<rparr>)
      | Inr canonical \<Rightarrow>
        (case row_failures metric (q_dimensions ir) (rc_comparison_start rc \<noteq> None) [] 0 (rc_result_rows rc) of
           Inl e \<Rightarrow> Inl e
         | Inr rowf \<Rightarrow>
           (let outs = header_outcomes digest ir rc canonical;
                failures = map (snd \<circ> snd) (filter (\<lambda>x. \<not> fst x) outs)
                  @ (if rc_result_rows rc = [] then [''NO_DATA_RETURNED''] else []) @ rowf;
                checks = map (fst \<circ> snd) (filter fst outs)
                  @ (if \<exists>f\<in>set failures. starts_with ''DUPLICATE_DIMENSION_KEY'' f then [] else [''DIMENSION_KEYS_UNIQUE''])
                  @ (if \<exists>f\<in>set failures. str_contains ''VALUE_'' f \<or> ends_with ''_VALUE'' f then [] else [''METRIC_BOUNDS_VALID'']);
                status = (if failures \<noteq> [] then VERIFICATION_FAILED_STATUS else VERIFIED)
            in Inr (rc\<lparr>rc_data_quality_status := (if failures \<noteq> [] then ''FAILED'' else ''VERIFIED''),
                       rc_data_quality_checks := rc_data_quality_checks rc @ checks\<rparr>,
                    \<lparr>vr_status = status, vr_checks = checks, vr_failures = failures\<rparr>))))"

subsection \<open>Formatting\<close>

text \<open>\<open>f"{x:,.nf}"\<close> and \<open>f"{x:.nf}"\<close> of a float: correctly rounded decimals, ties to even.\<close>

definition fixed_digits :: "bool \<Rightarrow> nat \<Rightarrow> rat \<Rightarrow> string" where
  "fixed_digits grouped n x =
     (let k = round_half_even (\<bar>x\<bar> * 10 ^ n); digits = pad_left (n + 1) (nat_str k);
          whole = take (length digits - n) digits; frac = drop (length digits - n) digits
      in (if x < 0 then ''-'' else []) @ (if grouped then group_thousands whole else whole)
         @ (if n = 0 then [] else CHR ''.'' # frac))"

definition format_fixed :: "bool \<Rightarrow> nat \<Rightarrow> pyfloat \<Rightarrow> string" where
  "format_fixed grouped n f = (case f of Fin x \<Rightarrow> fixed_digits grouped n x | PosInf \<Rightarrow> ''inf'' | NegInf \<Rightarrow> ''-inf'' | NaN \<Rightarrow> ''nan'')"

text \<open>\<open>round(f)\<close>.\<close>

definition py_round :: "pyfloat \<Rightarrow> py_exc + int" where
  "py_round f = (case f of Fin x \<Rightarrow> Inr (round_half_even x) | NaN \<Rightarrow> Inl ValueError | _ \<Rightarrow> Inl OverflowError)"

definition format_grouped_int :: "int \<Rightarrow> string" where
  "format_grouped_int n = (if n < 0 then ''-'' else []) @ group_thousands (nat_str \<bar>n\<bar>)"

definition format_metric_value :: "pyfloat \<Rightarrow> MetricDefinition \<Rightarrow> string \<Rightarrow> py_exc + string" where
  "format_metric_value v metric currency =
     (case md_value_type metric of
        VT_PERCENTAGE \<Rightarrow> Inr (format_fixed False 2 (fl_mul v (Fin 100)) @ ''%'')
      | VT_CURRENCY \<Rightarrow> Inr ((if currency = ''USD'' then ''$'' else currency @ '' '') @ format_fixed True 2 v)
      | VT_INTEGER \<Rightarrow> (case py_round v of Inl e \<Rightarrow> Inl e | Inr n \<Rightarrow> Inr (format_grouped_int n))
      | VT_DECIMAL \<Rightarrow> Inr (format_fixed True 2 v))"

definition change_magnitude :: "MetricDefinition \<Rightarrow> pyfloat \<Rightarrow> py_exc + string" where
  "change_magnitude metric a =
     (case md_value_type metric of
        VT_PERCENTAGE \<Rightarrow> Inr (format_fixed False 2 (fl_mul (fl_abs a) (Fin 100)) @ '' percentage points'')
      | VT_INTEGER \<Rightarrow> (case py_round a of Inl e \<Rightarrow> Inl e | Inr n \<Rightarrow> Inr (format_grouped_int \<bar>n\<bar>))
      | _ \<Rightarrow> Inr (format_fixed True 2 (fl_abs a)))"

definition format_change :: "MetricDefinition \<Rightarrow> pyfloat option \<Rightarrow> pyfloat option \<Rightarrow> py_exc + string" where
  "format_change metric absolute percent =
     (case absolute of None \<Rightarrow> Inr []
      | Some a \<Rightarrow>
        (let direction = (if fl_less (Fin 0) a then ''an increase'' else if fl_less a (Fin 0) then ''a decrease'' else ''no change'');
             relative = (case percent of None \<Rightarrow> []
               | Some p \<Rightarrow> '' ('' @ format_fixed False 1 (fl_mul (fl_abs p) (Fin 100)) @ ''% relative)'')
         in case change_magnitude metric a of Inl e \<Rightarrow> Inl e
            | Inr m \<Rightarrow> Inr ('', '' @ direction @ '' of '' @ m @ relative)))"

definition month_name :: "int \<Rightarrow> string" where
  "month_name m = [''January'', ''February'', ''March'', ''April'', ''May'', ''June'', ''July'', ''August'',
     ''September'', ''October'', ''November'', ''December''] ! nat (m - 1)"

definition format_period :: "date \<Rightarrow> date \<Rightarrow> string" where
  "format_period s e =
     (if day s = 1 \<and> day e = days_in_month (year e) (month e) \<and> year s = year e \<and> month s = month e
        then month_name (month s) @ '' '' @ nat_str (year s)
      else if s = e then month_name (month s) @ '' '' @ pad_left 2 (nat_str (day s)) @ '', '' @ nat_str (year s)
      else isoformat s @ '' through '' @ isoformat e)"

definition humanize :: "string \<Rightarrow> string" where
  "humanize v = py_title (map (\<lambda>c. if c = CHR ''_'' then CHR '' '' else c) v)"

definition name_or_humanized :: "(string \<rightharpoonup> string) \<Rightarrow> string \<Rightarrow> string" where
  "name_or_humanized names k = (case names k of Some n \<Rightarrow> n | None \<Rightarrow> humanize k)"

definition format_dimension_subject :: "(string \<times> string) list \<Rightarrow> (string \<rightharpoonup> string) \<Rightarrow> (string \<rightharpoonup> string) \<Rightarrow> string" where
  "format_dimension_subject dims names labels =
     concat (map (\<lambda>(k, v). '' for '' @ name_or_humanized names k @ '' '' @ name_or_humanized labels v) dims)"

definition source_caveat :: "string \<Rightarrow> string" where
  "source_caveat kind =
     (if kind = ''csv_demo'' then ''This answer uses an uploaded demo CSV; business completeness is not independently verified.''
      else if kind = ''synthetic_demo'' then ''This answer uses synthetic telecommunications demonstration data.''
      else ''This answer uses the configured read-only data source.'')"

definition build_suggested_questions :: "MetricDefinition \<Rightarrow> BusinessQueryIR \<Rightarrow> TenantDomainPack \<Rightarrow> string list" where
  "build_suggested_questions metric ir pack =
     (let names = (\<lambda>d. map_option be_name (dict_of be_id (pk_entities pack) d));
          by_dimension = map (\<lambda>d. ''Show '' @ md_name metric @ '' by '' @ name_or_humanized names d @ '' for the same period.'')
            (take 2 (filter (\<lambda>d. d \<notin> set (q_dimensions ir)) (md_allowed_dimensions metric)))
      in take 3 (by_dimension @ (if q_comparison ir = NO_COMPARISON
           then [''Compare '' @ md_name metric @ '' with the previous equivalent period.''] else [])))"

subsection \<open>The certified answer\<close>

text \<open>Every claim also carries a random \<open>claim_id\<close> that nothing reads; the record leaves it out.  The text
  of a float in a dimension is the parameter \<open>frepr\<close>.\<close>

record CertifiedClaim =
  cc_statement :: string
  cc_metric_id :: string
  cc_dimensions :: "(string \<times> string) list"
  cc_value :: pyfloat
  cc_formatted_value :: string
  cc_comparison_value :: "pyfloat option"
  cc_formatted_comparison_value :: "string option"
  cc_absolute_change :: "pyfloat option"
  cc_percent_change :: "pyfloat option"
  cc_receipt_id :: uuid

record CertifiedAnswer =
  ca_headline :: string
  ca_text :: string
  ca_claims :: "CertifiedClaim list"
  ca_caveats :: "string list"
  ca_suggested_questions :: "string list"

fun py_str :: "(pyfloat \<Rightarrow> string) \<Rightarrow> pyval \<Rightarrow> string" where
  "py_str frepr VNone = ''None''"
| "py_str frepr (VBool b) = (if b then ''True'' else ''False'')"
| "py_str frepr (VInt n) = int_str n"
| "py_str frepr (VFloat f) = frepr f"
| "py_str frepr (VStr s) = s"
| "py_str frepr VOther = []"

definition optional_float :: "pyval \<Rightarrow> py_exc + pyfloat option" where
  "optional_float v = (if v = VNone then Inr None
     else (case to_float v of Inl e \<Rightarrow> Inl e | Inr f \<Rightarrow> Inr (Some f)))"

definition row_dimensions :: "(pyfloat \<Rightarrow> string) \<Rightarrow> string list \<Rightarrow> row \<Rightarrow> (string \<times> string) list" where
  "row_dimensions frepr dims r =
     map (\<lambda>d. (d, py_str frepr (row_get r d))) (uniq_from [] (filter (\<lambda>d. row_get r d \<noteq> VNone) dims))"

definition comparison_statement :: "MetricDefinition \<Rightarrow> string \<Rightarrow> string \<Rightarrow> string \<Rightarrow> string option
    \<Rightarrow> pyfloat option \<Rightarrow> pyfloat option \<Rightarrow> py_exc + string" where
  "comparison_statement metric subject fv period fcmp absolute percent =
     (case fcmp of None \<Rightarrow> Inr (md_name metric @ subject @ '' was '' @ fv @ '' for '' @ period @ ''.'')
      | Some fc \<Rightarrow>
        (case format_change metric absolute percent of Inl e \<Rightarrow> Inl e
         | Inr change \<Rightarrow> Inr (md_name metric @ subject @ '' was '' @ fv @ '' for '' @ period
             @ '', compared with '' @ fc @ change @ ''.'')))"

definition row_claim :: "(pyfloat \<Rightarrow> string) \<Rightarrow> TenantDomainPack \<Rightarrow> MetricDefinition \<Rightarrow> BusinessQueryIR \<Rightarrow> QueryReceipt
    \<Rightarrow> row \<Rightarrow> py_exc + CertifiedClaim" where
  "row_claim frepr pack metric ir rc r =
     (let names = map_of (map (\<lambda>e. (be_id e, be_name e)) (rev (filter (\<lambda>e. be_id e \<in> set (q_dimensions ir)) (pk_entities pack))));
          labels = map_of (rev (concat (map (\<lambda>e. map (\<lambda>v. (dv_id v, dv_name v)) (be_values e)) (pk_entities pack))));
          dims = row_dimensions frepr (q_dimensions ir) r in
      case to_float (row_get r ''value'') of Inl e \<Rightarrow> Inl e
      | Inr v \<Rightarrow>
     (case format_metric_value v metric (pk_default_currency pack) of Inl e \<Rightarrow> Inl e
      | Inr fv \<Rightarrow>
     (case optional_float (row_get r ''comparison_value'') of Inl e \<Rightarrow> Inl e
      | Inr cmp \<Rightarrow>
     (case (case cmp of None \<Rightarrow> Inr None | Some c \<Rightarrow>
              (case format_metric_value c metric (pk_default_currency pack) of Inl e \<Rightarrow> Inl e | Inr s \<Rightarrow> Inr (Some s))) of
        Inl e \<Rightarrow> Inl e
      | Inr fcmp \<Rightarrow>
     (case optional_float (row_get r ''absolute_change'') of Inl e \<Rightarrow> Inl e
      | Inr absolute \<Rightarrow>
     (case optional_float (row_get r ''percent_change'') of Inl e \<Rightarrow> Inl e
      | Inr percent \<Rightarrow>
     (case comparison_statement metric (format_dimension_subject dims names labels) fv
             (format_period (rc_resolved_start rc) (rc_resolved_end rc)) fcmp absolute percent of Inl e \<Rightarrow> Inl e
      | Inr statement \<Rightarrow> Inr
          \<lparr>cc_statement = statement, cc_metric_id = md_id metric, cc_dimensions = dims, cc_value = v,
           cc_formatted_value = fv, cc_comparison_value = cmp, cc_formatted_comparison_value = fcmp,
           cc_absolute_change = absolute, cc_percent_change = percent, cc_receipt_id = rc_receipt_id rc\<rparr>)))))))"

fun row_claims :: "(row \<Rightarrow> py_exc + CertifiedClaim) \<Rightarrow> row list \<Rightarrow> py_exc + CertifiedClaim list" where
  "row_claims f [] = Inr []"
| "row_claims f (r # rs) = (case f r of Inl e \<Rightarrow> Inl e
     | Inr c \<Rightarrow> (case row_claims f rs of Inl e \<Rightarrow> Inl e | Inr cs \<Rightarrow> Inr (c # cs)))"

definition compose :: "(pyfloat \<Rightarrow> string) \<Rightarrow> TenantDomainPack \<Rightarrow> MetricDefinition \<Rightarrow> BusinessQueryIR \<Rightarrow> QueryReceipt
    \<Rightarrow> py_exc + CertifiedAnswer" where
  "compose frepr pack metric ir rc =
     (case row_claims (row_claim frepr pack metric ir rc) (rc_result_rows rc) of Inl e \<Rightarrow> Inl e
      | Inr claims \<Rightarrow>
        (let names = map_of (map (\<lambda>e. (be_id e, be_name e)) (rev (filter (\<lambda>e. be_id e \<in> set (q_dimensions ir)) (pk_entities pack))));
             lines = map cc_statement claims;
             answer = (\<lambda>headline text. \<lparr>ca_headline = headline, ca_text = text, ca_claims = claims,
               ca_caveats = [source_caveat (rc_source_kind rc),
                 ''No Unified AI Brain context or external evidence was used.'',
                 ''Reported source coverage ends '' @ isoformat (rc_coverage_end rc) @ ''.''],
               ca_suggested_questions = build_suggested_questions metric ir pack\<rparr>)
         in if q_dimensions ir \<noteq> []
            then Inr (answer (md_name metric @ '' by '' @ py_join '', '' (map (name_or_humanized names) (q_dimensions ir)))
                   (py_join '' '' lines))
            else (case lines of [] \<Rightarrow> Inl IndexError | l # ls \<Rightarrow> Inr (answer (md_name metric) l))))"

subsection \<open>What a verified report means\<close>

text \<open>The specification is stated apart from the checks: which float a finite number denotes, when the derived columns of a
  row are the arithmetic of its values, and when a period is covered.\<close>

definition denotes :: "pyval \<Rightarrow> pyfloat \<Rightarrow> bool" where
  "denotes v x \<longleftrightarrow> is_finite x \<and> (case v of VInt n \<Rightarrow> fl_of_int n = Inr x | VFloat f \<Rightarrow> f = x | _ \<Rightarrow> False)"

definition changes_sound :: "row \<Rightarrow> bool" where
  "changes_sound r \<longleftrightarrow>
     (\<exists>x y a. denotes (row_get r ''value'') x \<and> denotes (row_get r ''comparison_value'') y \<and> denotes (row_get r ''absolute_change'') a
        \<and> fl_isclose a (fl_sub x y)
        \<and> (if row_get r ''comparison_value'' = VInt 0 \<or> (\<exists>f. row_get r ''comparison_value'' = VFloat f \<and> fl_eq f (Fin 0))
           then row_get r ''percent_change'' = VNone
           else \<exists>p. denotes (row_get r ''percent_change'') p \<and> fl_isclose p (fl_div (fl_sub x y) (fl_abs y))))"

definition covered :: "QueryReceipt \<Rightarrow> date \<Rightarrow> date \<Rightarrow> bool" where
  "covered rc s e \<longleftrightarrow> rc_coverage_start rc \<le> s \<and> s \<le> e \<and> e \<le> rc_coverage_end rc"

definition value_ok :: "MetricDefinition \<Rightarrow> pyval \<Rightarrow> bool" where
  "value_ok metric v \<longleftrightarrow> (\<exists>x. denotes v x
     \<and> (\<forall>lo. md_valid_min metric = Some lo \<longrightarrow> \<not> fl_less x lo)
     \<and> (\<forall>hi. md_valid_max metric = Some hi \<longrightarrow> \<not> fl_less hi x)
     \<and> (md_value_type metric = VT_INTEGER \<longrightarrow> is_integral x))"

definition row_ok :: "MetricDefinition \<Rightarrow> string list \<Rightarrow> bool \<Rightarrow> row \<Rightarrow> bool" where
  "row_ok metric dims expected r \<longleftrightarrow> (\<forall>d\<in>set dims. is_dimension_key (row_get r d))
     \<and> value_ok metric (row_get r ''value'')
     \<and> (row_has r ''comparison_value'' \<longrightarrow> value_ok metric (row_get r ''comparison_value'')
          \<and> changes_sound r)
     \<and> (expected \<longrightarrow> row_has r ''comparison_value'')
     \<and> (row_get r ''percent_change'' \<noteq> VNone \<longrightarrow> (\<exists>p. denotes (row_get r ''percent_change'') p))"

lemma finite_number_to_float:
  "is_finite_number v = Inr True \<Longrightarrow> \<exists>x. to_float v = Inr x \<and> is_finite x"
  by (auto simp: is_finite_number_def fl_of_int_def Let_def split: pyval.splits if_splits sum.splits)

lemma denotes_iff: "denotes v x \<longleftrightarrow> is_finite_number v = Inr True \<and> to_float v = Inr x"
  using finite_number_to_float [of v]
  by (auto simp: denotes_def is_finite_number_def split: pyval.splits sum.splits if_splits)

lemma finite_number_denotes: "is_finite_number v = Inr True \<longleftrightarrow> (\<exists>x. denotes v x)"
  using finite_number_to_float [of v] by (auto simp: denotes_iff)

lemma denotes_unique: "denotes v x \<Longrightarrow> denotes v y \<Longrightarrow> y = x"
  by (simp add: denotes_iff)

lemma consistent_iff: "comparison_is_consistent r = Inr True \<longleftrightarrow> changes_sound r"
proof -
  let ?v = "row_get r ''value''" and ?c = "row_get r ''comparison_value''" and ?a = "row_get r ''absolute_change''"
    and ?p = "row_get r ''percent_change''"
  have dead: "comparison_is_consistent r \<noteq> Inr True" if "is_finite_number ?v \<noteq> Inr True \<or> is_finite_number ?c \<noteq> Inr True"
    using that by (auto simp: comparison_is_consistent_def split: sum.splits bool.splits)
  show ?thesis
  proof (cases "(\<exists>x. denotes ?v x) \<and> (\<exists>y. denotes ?c y)")
    case False
    then have "is_finite_number ?v \<noteq> Inr True \<or> is_finite_number ?c \<noteq> Inr True" by (auto simp: finite_number_denotes)
    with dead False show ?thesis by (auto simp: changes_sound_def)
  next
    case True
    then obtain x y where x: "denotes ?v x" and y: "denotes ?c y" by blast
    have xs: "denotes ?v x' \<longleftrightarrow> x' = x" "denotes ?c x' \<longleftrightarrow> x' = y" for x' using x y denotes_unique by blast+
    have x': "is_finite_number ?v = Inr True" "to_float ?v = Inr x" using x by (simp_all add: denotes_iff)
    have y': "is_finite_number ?c = Inr True" "to_float ?c = Inr y" using y by (simp_all add: denotes_iff)
    have z: "equals_zero ?c \<longleftrightarrow> ?c = VInt 0 \<or> (\<exists>f. ?c = VFloat f \<and> fl_eq f (Fin 0))"
      using y by (cases ?c) (simp_all add: equals_zero_def denotes_def)
    show ?thesis
    proof (cases "\<exists>a. denotes ?a a")
      case False
      then have "is_finite_number ?a \<noteq> Inr True" by (simp add: finite_number_denotes)
      with False show ?thesis
        by (auto simp: comparison_is_consistent_def x' y' Let_def changes_sound_def split: sum.splits bool.splits)
    next
      case True
      then obtain a where a: "denotes ?a a" by blast
      have as: "denotes ?a a' \<longleftrightarrow> a' = a" for a' using a denotes_unique by blast
      have a': "is_finite_number ?a = Inr True" "to_float ?a = Inr a" using a by (simp_all add: denotes_iff)
      have c: "changes_sound r \<longleftrightarrow> fl_isclose a (fl_sub x y) \<and> (if equals_zero ?c then ?p = VNone
          else \<exists>p. denotes ?p p \<and> fl_isclose p (fl_div (fl_sub x y) (fl_abs y)))"
        unfolding changes_sound_def z [symmetric] xs as by simp
      show ?thesis
      proof (cases "\<exists>q. denotes ?p q")
        case True
        then obtain q where q: "denotes ?p q" by blast
        have qs: "denotes ?p q' \<longleftrightarrow> q' = q" for q' using q denotes_unique by blast
        have "is_finite_number ?p = Inr True" "to_float ?p = Inr q" using q by (simp_all add: denotes_iff)
        then show ?thesis unfolding c qs by (simp add: comparison_is_consistent_def x' y' a' Let_def)
      next
        case False
        then have "is_finite_number ?p \<noteq> Inr True" by (simp add: finite_number_denotes)
        with False show ?thesis unfolding c
          by (auto simp: comparison_is_consistent_def x' y' a' Let_def split: sum.splits bool.splits if_splits)
      qed
    qed
  qed
qed

lemma bound_failures_Nil:
  "bound_failures metric label x = [] \<longleftrightarrow> (\<forall>lo. md_valid_min metric = Some lo \<longrightarrow> \<not> fl_less x lo)
     \<and> (\<forall>hi. md_valid_max metric = Some hi \<longrightarrow> \<not> fl_less hi x)
     \<and> (md_value_type metric = VT_INTEGER \<longrightarrow> is_integral x)"
  by (auto simp: bound_failures_def split: option.splits)

lemma value_ok_finite: "value_ok metric v \<Longrightarrow> is_finite_number v = Inr True"
  by (auto simp: value_ok_def finite_number_denotes)

lemma validate_value_Nil: "validate_value v metric label = Inr [] \<longleftrightarrow> value_ok metric v"
proof (cases "\<exists>x. denotes v x")
  case True
  then obtain x where x: "denotes v x" by blast
  have u: "denotes v y \<longleftrightarrow> y = x" for y using x denotes_unique by blast
  from x have "is_finite_number v = Inr True" "to_float v = Inr x" by (simp_all add: denotes_iff)
  then show ?thesis by (simp add: validate_value_def value_ok_def u bound_failures_Nil)
next
  case False
  then have "is_finite_number v \<noteq> Inr True" by (simp add: finite_number_denotes)
  with False show ?thesis by (auto simp: validate_value_def value_ok_def split: sum.splits bool.splits)
qed

lemma comparison_failures_Nil:
  "comparison_failures metric expected i r = Inr [] \<longleftrightarrow>
    (row_has r ''comparison_value'' \<longrightarrow> value_ok metric (row_get r ''comparison_value'')
          \<and> changes_sound r) \<and> (expected \<longrightarrow> row_has r ''comparison_value'')"
proof (cases "row_has r ''comparison_value''")
  case True
  show ?thesis
    unfolding validate_value_Nil [of _ metric "row_label i @ ''_COMPARISON_VALUE''", symmetric] consistent_iff [symmetric]
    using True by (auto simp: comparison_failures_def split: sum.splits)
qed (simp add: comparison_failures_def)

lemma percent_failures_Nil:
  "percent_failures i r = Inr [] \<longleftrightarrow>
    (row_get r ''percent_change'' \<noteq> VNone \<longrightarrow> (\<exists>p. denotes (row_get r ''percent_change'') p))"
  unfolding finite_number_denotes [symmetric]
  by (auto simp: percent_failures_def Let_def split: sum.splits)

lemma row_failures_Nil:
  "row_failures metric dims expected seen i rs = Inr [] \<longleftrightarrow>
    (\<forall>r\<in>set rs. row_ok metric dims expected r) \<and> distinct (map (row_key dims) rs)
    \<and> set (map (row_key dims) rs) \<inter> set seen = {}"
proof (induction metric dims expected seen i rs rule: row_failures.induct)
  case (2 metric dims expected seen i r rs)
  show ?case
  proof (cases "\<exists>d\<in>set dims. \<not> is_dimension_key (row_get r d)")
    case True
    then show ?thesis by (auto simp: row_ok_def split: sum.splits)
  next
    case False
    have IH: "row_failures metric dims expected (row_key dims r # seen) (Suc i) rs = Inr [] \<longleftrightarrow>
      (\<forall>r\<in>set rs. row_ok metric dims expected r) \<and> distinct (map (row_key dims) rs)
      \<and> set (map (row_key dims) rs) \<inter> set (row_key dims r # seen) = {}"
      if "validate_value (row_get r ''value'') metric (row_label i @ ''_VALUE'') = Inr []"
        "comparison_failures metric expected i r = Inr []" "percent_failures i r = Inr []"
      by (rule "2.IH"(2) [OF False refl refl that])
    show ?thesis
    proof (cases "validate_value (row_get r ''value'') metric (row_label i @ ''_VALUE'') = Inr []
        \<and> comparison_failures metric expected i r = Inr [] \<and> percent_failures i r = Inr []")
      case True
      then have ok: "row_ok metric dims expected r"
        using False by (auto simp: row_ok_def validate_value_Nil comparison_failures_Nil percent_failures_Nil)
      show ?thesis using True IH False ok by (auto simp: Let_def split: sum.splits)
    next
      case bad: False
      then have "\<not> row_ok metric dims expected r"
        by (auto simp: row_ok_def validate_value_Nil comparison_failures_Nil percent_failures_Nil)
      then show ?thesis using bad False by (auto simp: Let_def split: sum.splits)
    qed
  qed
qed simp

text \<open>Everything a verified receipt guarantees about its rows and its provenance.\<close>

definition receipt_sound :: "(row list \<Rightarrow> string) \<Rightarrow> MetricDefinition \<Rightarrow> BusinessQueryIR \<Rightarrow> QueryReceipt \<Rightarrow> bool" where
  "receipt_sound digest metric ir rc \<longleftrightarrow>
     (\<exists>canonical. canonical_rows (rc_result_rows rc) = Inr canonical \<and> digest canonical = rc_result_hash rc)
     \<and> rc_query_id rc = q_query_id ir \<and> rc_plan_hash rc = q_plan_hash ir \<and> rc_connector_id rc = q_source_connector_id ir
     \<and> rc_decision_id rc = q_decision_id ir \<and> rc_policy_decision_id rc = q_decision_id ir
     \<and> rc_row_count rc = int (length (rc_result_rows rc)) \<and> covered rc (rc_resolved_start rc) (rc_resolved_end rc)
     \<and> (case (rc_comparison_start rc, rc_comparison_end rc) of
          (None, None) \<Rightarrow> True | (Some s, Some e) \<Rightarrow> covered rc s e | _ \<Rightarrow> False)
     \<and> rc_result_rows rc \<noteq> []
     \<and> (\<forall>r\<in>set (rc_result_rows rc). row_ok metric (q_dimensions ir) (rc_comparison_start rc \<noteq> None) r)
     \<and> distinct (map (row_key (q_dimensions ir)) (rc_result_rows rc))"

lemma lineage_iff:
  "lineage_ok ir rc \<longleftrightarrow> rc_query_id rc = q_query_id ir \<and> rc_plan_hash rc = q_plan_hash ir \<and> rc_connector_id rc = q_source_connector_id ir
     \<and> rc_decision_id rc = q_decision_id ir \<and> rc_policy_decision_id rc = q_decision_id ir"
  by (auto simp: lineage_ok_def)

lemma coverage_iff:
  "coverage_ok rc \<longleftrightarrow> covered rc (rc_resolved_start rc) (rc_resolved_end rc)
     \<and> (case (rc_comparison_start rc, rc_comparison_end rc) of
          (None, None) \<Rightarrow> True | (Some s, Some e) \<Rightarrow> covered rc s e | _ \<Rightarrow> False)"
  by (cases "rc_comparison_start rc"; cases "rc_comparison_end rc") (auto simp: coverage_ok_def covered_def)

lemma header_failures_Nil:
  "map (snd \<circ> snd) (filter (\<lambda>x. \<not> fst x) (header_outcomes digest ir rc canonical)) = [] \<longleftrightarrow>
    digest canonical = rc_result_hash rc \<and> lineage_ok ir rc
    \<and> rc_row_count rc = int (length (rc_result_rows rc)) \<and> coverage_ok rc"
  by (simp add: header_outcomes_def)

lemma validate_result_iff:
  assumes "validate_result digest metric ir rc = Inr (rc', rep)"
  shows "vr_status rep = VERIFIED \<longleftrightarrow> receipt_sound digest metric ir rc"
    and "rc' = rc\<lparr>rc_data_quality_status := (if vr_status rep = VERIFIED then ''VERIFIED'' else ''FAILED''),
                  rc_data_quality_checks := rc_data_quality_checks rc @ vr_checks rep\<rparr>"
    and "(vr_failures rep = []) = (vr_status rep = VERIFIED)"
proof -
  have "(vr_status rep = VERIFIED \<longleftrightarrow> receipt_sound digest metric ir rc) \<and>
    rc' = rc\<lparr>rc_data_quality_status := (if vr_status rep = VERIFIED then ''VERIFIED'' else ''FAILED''),
                  rc_data_quality_checks := rc_data_quality_checks rc @ vr_checks rep\<rparr> \<and>
    (vr_failures rep = []) = (vr_status rep = VERIFIED)"
  proof (cases "canonical_rows (rc_result_rows rc)")
    case (Inl e)
    then have "rc' = rc\<lparr>rc_data_quality_status := ''FAILED''\<rparr>"
      "rep = \<lparr>vr_status = VERIFICATION_FAILED_STATUS, vr_checks = [], vr_failures = [''RESULT_NOT_CANONICAL'']\<rparr>"
      using assms by (auto simp: validate_result_def)
    then show ?thesis using Inl by (auto simp: receipt_sound_def)
  next
    case (Inr canonical)
    with assms obtain rowf where
      rowf: "row_failures metric (q_dimensions ir) (rc_comparison_start rc \<noteq> None) [] 0 (rc_result_rows rc) = Inr rowf"
      by (auto simp: validate_result_def split: sum.splits)
    let ?h = "map (snd \<circ> snd) (filter (\<lambda>x. \<not> fst x) (header_outcomes digest ir rc canonical))"
    have rep: "vr_failures rep = ?h @ (if rc_result_rows rc = [] then [''NO_DATA_RETURNED''] else []) @ rowf"
      "vr_status rep = (if vr_failures rep \<noteq> [] then VERIFICATION_FAILED_STATUS else VERIFIED)"
      "rc' = rc\<lparr>rc_data_quality_status := (if vr_failures rep \<noteq> [] then ''FAILED'' else ''VERIFIED''),
                  rc_data_quality_checks := rc_data_quality_checks rc @ vr_checks rep\<rparr>"
      using assms Inr rowf by (auto simp: validate_result_def Let_def simp del: map_map filter.simps)
    have rows: "rowf = [] \<longleftrightarrow> (\<forall>r\<in>set (rc_result_rows rc). row_ok metric (q_dimensions ir) (rc_comparison_start rc \<noteq> None) r)
        \<and> distinct (map (row_key (q_dimensions ir)) (rc_result_rows rc))"
      using row_failures_Nil [of metric "q_dimensions ir" "rc_comparison_start rc \<noteq> None" "[]" 0 "rc_result_rows rc"] rowf
      by auto
    have "vr_failures rep = [] \<longleftrightarrow> receipt_sound digest metric ir rc"
      unfolding rep(1) receipt_sound_def append_is_Nil_conv header_failures_Nil rows lineage_iff coverage_iff using Inr by auto
    then show ?thesis using rep(2,3) by auto
  qed
  then show "vr_status rep = VERIFIED \<longleftrightarrow> receipt_sound digest metric ir rc"
    "rc' = rc\<lparr>rc_data_quality_status := (if vr_status rep = VERIFIED then ''VERIFIED'' else ''FAILED''),
                  rc_data_quality_checks := rc_data_quality_checks rc @ vr_checks rep\<rparr>"
    "(vr_failures rep = []) = (vr_status rep = VERIFIED)" by blast+
qed

subsection \<open>Merged rows pass the comparison check\<close>

lemma fl_div_finite_refl: "is_finite (fl_div c p) \<Longrightarrow> fl_isclose (fl_div c p) (fl_div c p)"
  by (rule fl_isclose_refl)

lemma merge_row_cases:
  assumes "merge_row cmp dims r = Inr out"
  shows "out = [] \<or> (\<exists>current. to_float (row_get r ''value'') = Inr current \<and> is_finite current \<and>
    (out = [r] \<or> (\<exists>c previous. cmp (row_key dims r) = Some c \<and> to_float (row_get c ''value'') = Inr previous \<and>
       out = [row_set ''percent_change''
                (if fl_eq previous (Fin 0) then VNone else VFloat (fl_div (fl_sub current previous) (fl_abs previous)))
               (row_set ''absolute_change'' (VFloat (fl_sub current previous))
                 (row_set ''comparison_value'' (VFloat previous) r))])))"
  using assms by (auto simp: merge_row_def Let_def split: if_splits option.splits sum.splits)

text \<open>Every value of a row is one JSON can express.\<close>

definition row_finite :: "row \<Rightarrow> bool" where
  "row_finite r \<longleftrightarrow> (\<forall>k. value_error (row_get r k) = None)"

lemma merged_row_consistent:
  assumes m: "merge_row cmp dims r = Inr [r']" and v: "row_get r ''value'' = VFloat x"
    and new: "\<not> row_has r ''comparison_value''" "row_has r' ''comparison_value''" and fin: "row_finite r'"
  shows "comparison_is_consistent r' = Inr True"
proof -
  from merge_row_cases [OF m] new obtain c previous where
    x: "is_finite x" and r': "r' = row_set ''percent_change''
                (if fl_eq previous (Fin 0) then VNone else VFloat (fl_div (fl_sub x previous) (fl_abs previous)))
               (row_set ''absolute_change'' (VFloat (fl_sub x previous))
                 (row_set ''comparison_value'' (VFloat previous) r))"
    using v by auto
  have p: "is_finite previous"
    using fin [unfolded row_finite_def, rule_format, of "''comparison_value''"] r' by (auto split: if_splits)
  have a: "is_finite (fl_sub x previous)"
    using fin [unfolded row_finite_def, rule_format, of "''absolute_change''"] r' by (auto split: if_splits)
  have q: "\<not> fl_eq previous (Fin 0) \<Longrightarrow> is_finite (fl_div (fl_sub x previous) (fl_abs previous))"
    using fin [unfolded row_finite_def, rule_format, of "''percent_change''"] r' by (auto split: if_splits)
  show ?thesis
    using v x p a q
    by (auto simp: r' comparison_is_consistent_def is_finite_number_def equals_zero_def Let_def fl_isclose_refl)
qed

lemma merge_rows_in:
  assumes "merge_rows cmp dims rs = Inr out" "r' \<in> set out"
  shows "\<exists>r\<in>set rs. merge_row cmp dims r = Inr [r']"
  using assms
proof (induction rs arbitrary: out)
  case (Cons r rs)
  from Cons.prems(1) obtain o1 o2 where o1: "merge_row cmp dims r = Inr o1" and o2: "merge_rows cmp dims rs = Inr o2"
    and out: "out = o1 @ o2" by auto
  show ?case
  proof (cases "r' \<in> set o1")
    case True
    with merge_row_cases [OF o1] have "o1 = [r']" by auto
    with o1 show ?thesis by auto
  next
    case False
    with Cons.IH [OF o2] Cons.prems(2) out show ?thesis by auto
  qed
qed simp

lemma map_of_row_get: "(k, v) \<in> set r \<Longrightarrow> distinct (map fst r) \<Longrightarrow> row_get r k = v"
  by (simp add: row_get_def)

lemma canonical_rows_finite:
  assumes "canonical_rows rs = Inr c" "r \<in> set rs"
  shows "row_finite r"
proof -
  have none: "List.find (\<lambda>v. value_error v \<noteq> None) (concat (map (\<lambda>r. map snd (canonical_row r)) rs)) = None"
    using assms(1) by (auto simp: canonical_rows_def split: option.splits)
  have "value_error v = None" if "v \<in> snd ` set r" for v
    using find_NoneD [OF none, of v] that assms(2) by (auto simp: canonical_row_def)
  moreover have "row_get r k = VNone \<or> row_get r k \<in> snd ` set r" for k
    using map_of_SomeD [of r k] by (force simp: row_get_def split: option.split)
  ultimately show ?thesis unfolding row_finite_def by (metis value_error.simps(3))
qed

lemma normalize_rows_Cons:
  assumes "normalize_rows (q # rs) = Inr out"
  shows "\<exists>rest q'. normalize_rows rs = Inr rest \<and> out = q' # rest
    \<and> ((q' = q \<and> row_get q ''value'' = VNone) \<or> (\<exists>f. q' = row_set ''value'' (VFloat f) q))"
proof -
  from assms obtain rest where rest: "normalize_rows rs = Inr rest"
    by (cases "normalize_rows rs") auto
  show ?thesis
  proof (cases "row_get q ''value'' = VNone")
    case True
    then show ?thesis using assms rest by auto
  next
    case False
    then show ?thesis using assms rest by (cases "to_float (row_get q ''value'')") auto
  qed
qed

lemma normalize_rows_float:
  assumes "normalize_rows rs = Inr out" "r \<in> set out" "row_get r ''value'' \<noteq> VNone"
  shows "\<exists>x. row_get r ''value'' = VFloat x"
  using assms(1,2)
proof (induction rs arbitrary: out)
  case (Cons q rs)
  from normalize_rows_Cons [OF Cons.prems(1)] Cons.IH Cons.prems(2) assms(3) show ?case by fastforce
qed simp

lemma normalize_rows_columns:
  assumes "normalize_rows rs = Inr out" "r \<in> set out" "k \<noteq> ''value''"
  shows "\<exists>q\<in>set rs. row_has r k = row_has q k \<and> row_get r k = row_get q k"
  using assms(1,2)
proof (induction rs arbitrary: out)
  case (Cons q rs)
  from normalize_rows_Cons [OF Cons.prems(1)] obtain rest q' where rest: "normalize_rows rs = Inr rest"
    and out: "out = q' # rest" and q': "q' = q \<or> (\<exists>f. q' = row_set ''value'' (VFloat f) q)" by blast
  from q' assms(3) have "row_has q' k = row_has q k \<and> row_get q' k = row_get q k" by auto
  with Cons.IH [OF rest] Cons.prems(2) out show ?case by auto
qed simp

subsection \<open>Properties\<close>

text \<open>C11: A result is verified exactly when its canonical text has the receipt's digest, its query, plan,
  decision and connector are those of the plan, the row count and the coverage of both periods are
  right, there is at least one row, the dimension keys are well typed and distinct, and every value and
  comparison value is finite, within the metric's bounds, integral where the metric is, and
  arithmetically consistent; and the failures are empty exactly then.\<close>

theorem verified_exactly_when_sound:
  assumes "validate_result digest metric ir rc = Inr (rc', rep)"
  shows "(vr_status rep = VERIFIED) = receipt_sound digest metric ir rc \<and> (vr_failures rep = []) = (vr_status rep = VERIFIED)
    \<and> rc' = rc\<lparr>rc_data_quality_status := (if vr_status rep = VERIFIED then ''VERIFIED'' else ''FAILED''),
               rc_data_quality_checks := rc_data_quality_checks rc @ vr_checks rep\<rparr>"
  using validate_result_iff [OF assms] by blast

text \<open>A receipt's own part of soundness: digest, count, finite values and comparison arithmetic.\<close>

definition receipt_self_consistent :: "(row list \<Rightarrow> string) \<Rightarrow> QueryReceipt \<Rightarrow> bool" where
  "receipt_self_consistent digest rc \<longleftrightarrow>
     (\<exists>canonical. canonical_rows (rc_result_rows rc) = Inr canonical \<and> digest canonical = rc_result_hash rc)
     \<and> rc_row_count rc = int (length (rc_result_rows rc))
     \<and> (\<forall>r\<in>set (rc_result_rows rc). is_finite_number (row_get r ''value'') = Inr True
          \<and> (row_has r ''comparison_value'' \<longrightarrow> comparison_is_consistent r = Inr True))"

text \<open>Whatever the database returns, a receipt the connector builds passes the validator's digest, row
  count, finiteness and comparison-arithmetic checks, and carries the plan's lineage and the range its
  window resolves to (the query's columns do not include the name of the derived one).\<close>

theorem execution_receipt_self_consistent:
  assumes ex: "execute_sync env rid now plan access = Inr rc"
    and cols: "\<And>sql ps. \<forall>r\<in>set (se_run env sql ps). \<not> row_has r ''comparison_value''"
  shows "receipt_self_consistent (se_result_digest env) rc
    \<and> rc_query_id rc = pl_query_id plan \<and> rc_decision_id rc = pl_decision_id plan \<and> rc_plan_hash rc = pl_plan_hash plan
    \<and> rc_connector_id rc = pl_connector_id plan \<and> rc_policy_decision_id rc = pl_decision_id plan
    \<and> resolve_window (pl_time_window plan) = Inr (range_of (rc_resolved_start rc) (rc_resolved_end rc))"
proof -
  from ex obtain cur cmp q current_rows comparison_rows csql rows canonical where
    w: "resolve_window (pl_time_window plan) = Inr cur" and
    q: "query_rows env q = Inr current_rows" and
    m: "merge_comparison_rows current_rows comparison_rows (pl_dimensions plan) = Inr rows" and
    c: "canonical_rows rows = Inr canonical" and
    rc: "rc = make_receipt env rid now plan cur cmp (fst q) csql rows (se_result_digest env canonical)"
    by (auto simp: execute_sync_def split: sum.splits)
  have row: "is_finite_number (row_get r' ''value'') = Inr True
      \<and> (row_has r' ''comparison_value'' \<longrightarrow> comparison_is_consistent r' = Inr True)" if r': "r' \<in> set rows" for r'
  proof -
    from merge_rows_in [OF m [unfolded merge_comparison_rows_def] r'] obtain r where
      r: "r \<in> set current_rows" and mr: "merge_row (dict_of (row_key (pl_dimensions plan)) comparison_rows) (pl_dimensions plan) r = Inr [r']"
      by blast
    from merge_row_cases [OF mr] obtain x where x: "to_float (row_get r ''value'') = Inr x" "is_finite x"
      and same: "row_get r' ''value'' = row_get r ''value''" by auto
    have "row_get r ''value'' \<noteq> VNone" using x by auto
    from normalize_rows_float [OF q [unfolded query_rows_def] r this] x have v: "row_get r ''value'' = VFloat x" by auto
    have "\<not> row_has r ''comparison_value''"
      using normalize_rows_columns [OF q [unfolded query_rows_def] r, of "''comparison_value''"] cols by auto
    from merged_row_consistent [OF mr v this _ canonical_rows_finite [OF c r']]
    show ?thesis using v x same by (auto simp: is_finite_number_def)
  qed
  have "cur = range_of (rr_start cur) (rr_end cur)" by (simp add: range_of_def)
  with row c w show ?thesis by (auto simp: rc make_receipt_def receipt_self_consistent_def)
qed

subsection \<open>Claims\<close>

definition claim_matches :: "MetricDefinition \<Rightarrow> QueryReceipt \<Rightarrow> row \<Rightarrow> CertifiedClaim \<Rightarrow> bool" where
  "claim_matches metric rc r c \<longleftrightarrow> to_float (row_get r ''value'') = Inr (cc_value c)
     \<and> optional_float (row_get r ''comparison_value'') = Inr (cc_comparison_value c)
     \<and> optional_float (row_get r ''absolute_change'') = Inr (cc_absolute_change c)
     \<and> optional_float (row_get r ''percent_change'') = Inr (cc_percent_change c)
     \<and> cc_metric_id c = md_id metric \<and> cc_receipt_id c = rc_receipt_id rc"

lemma row_claim_matches:
  "row_claim frepr pack metric ir rc r = Inr c \<Longrightarrow> claim_matches metric rc r c"
  by (auto simp: row_claim_def claim_matches_def Let_def split: sum.splits)

lemma row_claims_all2: "row_claims f rs = Inr cs \<Longrightarrow> list_all2 (\<lambda>r c. f r = Inr c) rs cs"
proof (induction rs arbitrary: cs)
  case (Cons r rs)
  then show ?case by (cases "f r"; cases "row_claims f rs") auto
qed simp

lemma row_claims_total: "\<forall>r\<in>set rs. is_ok (f r) \<Longrightarrow> is_ok (row_claims f rs)"
  by (induction rs) (auto simp: is_ok_iff)

lemma format_metric_value_total: "is_finite x \<Longrightarrow> is_ok (format_metric_value x metric currency)"
  by (auto simp: format_metric_value_def py_round_def is_finite_iff split: MetricValueType.split)

lemma format_change_total:
  "(\<forall>x. a = Some x \<longrightarrow> is_finite x) \<Longrightarrow> is_ok (format_change metric a p)"
  by (auto simp: format_change_def change_magnitude_def py_round_def is_finite_iff Let_def
      split: MetricValueType.split option.split)

lemma comparison_statement_total:
  "(\<forall>x. a = Some x \<longrightarrow> is_finite x) \<Longrightarrow> is_ok (comparison_statement metric subj fv per fc a p)"
  using format_change_total [of a metric p] by (auto simp: comparison_statement_def is_ok_iff split: option.split)

definition optional_finite :: "pyval \<Rightarrow> bool" where
  "optional_finite v \<longleftrightarrow> v = VNone \<or> is_finite_number v = Inr True"

lemma optional_float_total:
  "optional_finite v \<Longrightarrow> \<exists>x. optional_float v = Inr x \<and> (\<forall>y. x = Some y \<longrightarrow> is_finite y)"
  using finite_number_to_float [of v] by (auto simp: optional_finite_def optional_float_def)

lemma row_claim_total:
  assumes v: "is_finite_number (row_get r ''value'') = Inr True"
    and o: "optional_finite (row_get r ''comparison_value'')" "optional_finite (row_get r ''absolute_change'')"
      "optional_finite (row_get r ''percent_change'')"
  shows "is_ok (row_claim frepr pack metric ir rc r)"
proof -
  obtain x where x: "to_float (row_get r ''value'') = Inr x" "is_finite x" using finite_number_to_float [OF v] by blast
  obtain fv where fv: "format_metric_value x metric (pk_default_currency pack) = Inr fv"
    using format_metric_value_total [OF x(2)] by (auto simp: is_ok_iff)
  obtain c where c: "optional_float (row_get r ''comparison_value'') = Inr c" "\<forall>y. c = Some y \<longrightarrow> is_finite y"
    using optional_float_total [OF o(1)] by blast
  obtain a where a: "optional_float (row_get r ''absolute_change'') = Inr a" "\<forall>y. a = Some y \<longrightarrow> is_finite y"
    using optional_float_total [OF o(2)] by blast
  obtain p where p: "optional_float (row_get r ''percent_change'') = Inr p" using optional_float_total [OF o(3)] by blast
  have st: "\<exists>s. comparison_statement metric subj fv per fc a p = Inr s" for subj per fc
    using comparison_statement_total [OF a(2)] by (simp add: is_ok_iff)
  obtain fc where fc: "(case c of None \<Rightarrow> Inr None | Some c \<Rightarrow>
      (case format_metric_value c metric (pk_default_currency pack) of Inl e \<Rightarrow> Inl e | Inr s \<Rightarrow> Inr (Some s))) = Inr fc"
  proof (cases c)
    case (Some y)
    with c(2) format_metric_value_total [of y metric "pk_default_currency pack"]
    obtain s where "format_metric_value y metric (pk_default_currency pack) = Inr s" by (auto simp: is_ok_iff)
    with Some that show ?thesis by simp
  qed (use that in simp)
  obtain s where "comparison_statement metric (format_dimension_subject (row_dimensions frepr (q_dimensions ir) r)
       (map_of (map (\<lambda>e. (be_id e, be_name e)) (rev (filter (\<lambda>e. be_id e \<in> set (q_dimensions ir)) (pk_entities pack)))))
       (map_of (rev (concat (map (\<lambda>e. map (\<lambda>v. (dv_id v, dv_name v)) (be_values e)) (pk_entities pack)))))) fv
       (format_period (rc_resolved_start rc) (rc_resolved_end rc)) fc a p = Inr s" using st by blast
  then show ?thesis unfolding row_claim_def Let_def x(1) by (simp add: fv c(1) fc a(1) p)
qed

lemma consistent_absolute:
  assumes "comparison_is_consistent r = Inr True"
  shows "is_finite_number (row_get r ''absolute_change'') = Inr True"
proof (cases "is_finite_number (row_get r ''absolute_change'')")
  case (Inl e)
  then show ?thesis using assms by (simp add: comparison_is_consistent_def split: sum.splits bool.splits)
next
  case (Inr b)
  then show ?thesis using assms
    by (cases b) (simp_all add: comparison_is_consistent_def split: sum.splits bool.splits)
qed

text \<open>C34: A certified answer says exactly what the receipt's rows say: its claims are the rows in order, each
  with that row's value, comparison and changes, the metric and the receipt identifier; and for a sound
  receipt whose derived columns come with a comparison, composing it cannot fail.\<close>

theorem answer_claims_are_the_rows:
  assumes "receipt_sound digest metric ir rc"
    and "\<forall>r\<in>set (rc_result_rows rc). row_get r ''absolute_change'' \<noteq> VNone \<longrightarrow> row_has r ''comparison_value''"
  shows "\<exists>ans. compose frepr pack metric ir rc = Inr ans
    \<and> list_all2 (claim_matches metric rc) (rc_result_rows rc) (ca_claims ans)"
proof -
  have "is_ok (row_claim frepr pack metric ir rc r)" if r: "r \<in> set (rc_result_rows rc)" for r
  proof (rule row_claim_total)
    have ok: "row_ok metric (q_dimensions ir) (rc_comparison_start rc \<noteq> None) r"
      using assms(1) r by (auto simp: receipt_sound_def)
    show "is_finite_number (row_get r ''value'') = Inr True" using ok unfolding row_ok_def by (intro value_ok_finite) blast
    have "row_get r k = VNone" if "\<not> row_has r k" for k
      using that by (force simp: row_has_def row_get_def dest: map_of_SomeD split: option.split)
    then show "optional_finite (row_get r ''comparison_value'')"
      using ok by (cases "row_has r ''comparison_value''") (auto simp: row_ok_def value_ok_finite optional_finite_def)
    show "optional_finite (row_get r ''absolute_change'')"
      using ok assms(2) r consistent_absolute [of r] by (auto simp: row_ok_def consistent_iff optional_finite_def)
    show "optional_finite (row_get r ''percent_change'')" using ok by (auto simp: row_ok_def finite_number_denotes optional_finite_def)
  qed
  with row_claims_total [of "rc_result_rows rc" "row_claim frepr pack metric ir rc"] obtain cs where
    cs: "row_claims (row_claim frepr pack metric ir rc) (rc_result_rows rc) = Inr cs" by (auto simp: is_ok_iff)
  note all2 = row_claims_all2 [OF cs]
  have "list_all2 (claim_matches metric rc) (rc_result_rows rc) cs"
    using all2 by (rule list_all2_mono) (rule row_claim_matches)
  moreover have "cs \<noteq> []" using assms(1) list_all2_lengthD [OF all2] by (auto simp: receipt_sound_def)
  ultimately show ?thesis by (auto simp: compose_def cs Let_def split: list.split)
qed

subsection \<open>A receipt of the demonstration connector\<close>

lemma demo_executed: "is_ok (execute_read_only demo_con demo_env ''r1'' 0 demo_plan western)"
  by code_simp

lemma demo_env_columns: "\<forall>r\<in>set (se_run demo_env sql ps). \<not> row_has r ''comparison_value''"
  by (simp add: demo_env_def row_has_def)

lemma demo_receipt: "\<exists>rc. execute_sync demo_env ''r1'' 0 demo_plan western = Inr rc"
  using demo_executed by (auto simp: execute_read_only_def is_ok_iff split: if_splits sum.splits)

theorem execution_receipt_self_consistent_witness:
  "\<exists>rc. execute_sync demo_env ''r1'' 0 demo_plan western = Inr rc
    \<and> receipt_self_consistent (se_result_digest demo_env) rc \<and> rc_plan_hash rc = ''h1''"
proof -
  obtain rc where rc: "execute_sync demo_env ''r1'' 0 demo_plan western = Inr rc" using demo_receipt by blast
  from execution_receipt_self_consistent [OF rc demo_env_columns] rc show ?thesis
    by (auto simp: demo_plan_def)
qed


definition demo_ir :: BusinessQueryIR where
  "demo_ir = \<lparr>q_query_id = ''q1'', q_session_id = ''s1'', q_decision_id = ''d1'', q_created_at = 0,
     q_tenant_id = ''demo-telecom'', q_user_id = ''ana'', q_question = ''activations by region'',
     q_intent = METRIC_LOOKUP, q_metric_id = ''MOBILE_ACTIVATIONS'', q_metric_name = ''Mobile Activations'',
     q_semantic_version = ''2.0'', q_value_type = VT_INTEGER, q_aggregation = AGG_SUM, q_additivity = ADDITIVE,
     q_unit = ''COUNT'', q_currency = None, q_dimensions = [''REGION''], q_filters = pl_filters demo_plan,
     q_time_window = pl_time_window demo_plan, q_comparison = PRIOR_PERIOD,
     q_access_scope = \<lparr>sc_roles = [], sc_departments = [], sc_regions = [''WEST''], sc_business_units = [],
       sc_actions = [], sc_clearance = INTERNAL, sc_enforcement = []\<rparr>,
     q_source_connector_id = ''telecom_semantic_warehouse'', q_pack_version = ''2026.08.3'',
     q_snapshot_hash = [], q_plan_hash = ''h1'', q_requires_external = False, q_warnings = []\<rparr>"

lemma demo_verified:
  "case execute_sync demo_env ''r1'' 0 demo_plan western of Inl e \<Rightarrow> False
   | Inr rc \<Rightarrow> (case validate_result (se_result_digest demo_env) activations demo_ir rc of
        Inl e \<Rightarrow> False | Inr (rc', rep) \<Rightarrow> vr_status rep = VERIFIED)"
  by code_simp

lemma demo_sound:
  "\<exists>rc rc' rep. execute_sync demo_env ''r1'' 0 demo_plan western = Inr rc
    \<and> validate_result (se_result_digest demo_env) activations demo_ir rc = Inr (rc', rep) \<and> vr_status rep = VERIFIED"
  using demo_verified by (auto split: sum.splits prod.splits)

theorem verified_exactly_when_sound_witness:
  "\<exists>rc. execute_sync demo_env ''r1'' 0 demo_plan western = Inr rc \<and> receipt_sound (se_result_digest demo_env) activations demo_ir rc"
proof -
  obtain rc rc' rep where rc: "execute_sync demo_env ''r1'' 0 demo_plan western = Inr rc"
    "validate_result (se_result_digest demo_env) activations demo_ir rc = Inr (rc', rep)" "vr_status rep = VERIFIED"
    using demo_sound by blast
  from verified_exactly_when_sound [OF rc(2)] rc show ?thesis by blast
qed

lemma demo_rows_derived:
  "case execute_sync demo_env ''r1'' 0 demo_plan western of Inl e \<Rightarrow> False
   | Inr rc \<Rightarrow> \<forall>r\<in>set (rc_result_rows rc). row_has r ''comparison_value''"
  by code_simp

theorem answer_claims_are_the_rows_witness:
  "\<exists>rc ans. execute_sync demo_env ''r1'' 0 demo_plan western = Inr rc \<and> compose (\<lambda>f. []) demo_pack activations demo_ir rc = Inr ans
    \<and> list_all2 (claim_matches activations rc) (rc_result_rows rc) (ca_claims ans)"
proof -
  obtain rc rc' rep where rc: "execute_sync demo_env ''r1'' 0 demo_plan western = Inr rc"
    "validate_result (se_result_digest demo_env) activations demo_ir rc = Inr (rc', rep)" "vr_status rep = VERIFIED"
    using demo_sound by blast
  have "receipt_sound (se_result_digest demo_env) activations demo_ir rc" using validate_result_iff(1) [OF rc(2)] rc(3) by blast
  from answer_claims_are_the_rows [OF this, of "\<lambda>f. []" demo_pack] demo_rows_derived rc(1) show ?thesis by auto
qed

lemma demo_answer_text:
  "(case execute_sync demo_env ''r1'' 0 demo_plan western of Inl e \<Rightarrow> []
   | Inr rc \<Rightarrow> (case compose (\<lambda>f. []) demo_pack activations demo_ir rc of Inl e \<Rightarrow> [] | Inr ans \<Rightarrow> ca_text ans))
   = ''Mobile Activations for Operating Region West was 1,206 for July 2026, compared with 1,206, no change of 0 (0.0% relative).''"
  by code_simp

end
