(* ===== verification/Governance.thy ===== *)
theory Governance
  imports Models Policy Sample "HOL-Library.Multiset"
begin

section \<open>Governance: reviewed publication of business definitions\<close>

text \<open>
  \<open>domain/governance.py\<close> and \<open>services/definition_governance.py\<close>: edits, drafts, snapshots and
  events of one workspace, the review state machine and the publication of snapshots.  The journal
  that stores a workspace is the record \<open>journal\<close>, the port of \<open>services/state_ports.py\<close>; its
  contract is the locale \<open>definition_journal\<close>.  The digest of a pack is the parameter \<open>ph\<close>; the
  clock of an operation is \<open>clk\<close>, its \<open>k\<close>-th reading being \<open>clk k\<close>, and a new draft identifier
  is an argument.  Timestamps are aware.
\<close>

subsection \<open>Data\<close>

datatype definition_kind = KIND_METRIC | KIND_DIMENSION

record DefinitionEdit =
  de_base_snapshot_id :: string
  de_kind :: definition_kind
  de_definition_id :: string
  de_name :: string
  de_definition :: string
  de_owner :: string
  de_aliases :: "string list"
  de_reason :: string
  de_effective_from :: instant

datatype DraftStatus = DRAFT | IN_REVIEW | APPROVED | REJECTED | PUBLISHED

record DefinitionDraft =
  dd_draft_id :: string
  dd_revision :: int
  dd_status :: DraftStatus
  dd_edit :: DefinitionEdit
  dd_author :: string
  dd_reviewer :: "string option"
  dd_review_note :: "string option"
  dd_submission_note :: "string option"
  dd_publication_note :: "string option"
  dd_created_at :: instant
  dd_published_snapshot_id :: "string option"

record DefinitionSnapshot =
  sn_snapshot_id :: string
  sn_sequence :: int
  sn_pack :: TenantDomainPack
  sn_published_at :: instant
  sn_published_by :: string

datatype event_kind = EV_PUBLISHED | EV_REVOKED

record DefinitionEvent =
  ev_sequence :: int
  ev_kind :: event_kind
  ev_snapshot_id :: string
  ev_occurred_at :: instant
  ev_effective_from :: instant
  ev_actor :: string
  ev_reason :: string

record GovernanceState =
  gs_tenant_id :: string
  gs_revision :: int
  gs_snapshots :: "DefinitionSnapshot list"
  gs_drafts :: "DefinitionDraft list"
  gs_events :: "DefinitionEvent list"
  gs_revoked :: "string set"

datatype gov_error = Denied string | NotFound string | Conflict string | Unavailable string
  | InvalidPack pack_error | SnapshotNotApproved

text \<open>The annotated strings strip their text and bound its length; aliases are unique up to case.\<close>

definition bounded_text :: "nat \<Rightarrow> string \<Rightarrow> py_exc + string" where
  "bounded_text n v = (let s = py_strip v in if 1 \<le> length s \<and> length s \<le> n then Inr s else Inl ValueError)"

definition snapshot_id_ok :: "string \<Rightarrow> bool" where
  "snapshot_id_ok s \<longleftrightarrow> length s = 64 \<and> (\<forall>c\<in>set s. c \<in> set ''0123456789abcdef'')"

fun bounded_texts :: "nat \<Rightarrow> string list \<Rightarrow> py_exc + string list" where
  "bounded_texts n [] = Inr []"
| "bounded_texts n (v # vs) =
     (case bounded_text n v of Inl e \<Rightarrow> Inl e
      | Inr s \<Rightarrow> (case bounded_texts n vs of Inl e \<Rightarrow> Inl e | Inr ss \<Rightarrow> Inr (s # ss)))"

definition make_edit :: "DefinitionEdit \<Rightarrow> py_exc + DefinitionEdit" where
  "make_edit e =
     (case bounded_texts 160 [de_definition_id e, de_name e, de_owner e] of Inl x \<Rightarrow> Inl x
      | Inr names \<Rightarrow>
        (case bounded_texts 4000 [de_definition e, de_reason e] of Inl x \<Rightarrow> Inl x
         | Inr texts \<Rightarrow>
           (case bounded_texts 160 (de_aliases e) of Inl x \<Rightarrow> Inl x
            | Inr aliases \<Rightarrow>
              if \<not> snapshot_id_ok (de_base_snapshot_id e) \<or> length aliases > 20
                 \<or> \<not> distinct (map py_lower aliases) then Inl ValueError
              else Inr (e\<lparr>de_definition_id := names ! 0, de_name := names ! 1, de_owner := names ! 2,
                         de_definition := texts ! 0, de_reason := texts ! 1, de_aliases := aliases\<rparr>))))"

definition make_snapshot :: "string \<Rightarrow> int \<Rightarrow> TenantDomainPack \<Rightarrow> instant \<Rightarrow> string \<Rightarrow> gov_error + DefinitionSnapshot" where
  "make_snapshot sid n p stamp actor =
     (if pk_status p \<noteq> ''APPROVED'' then Inl SnapshotNotApproved
      else Inr \<lparr>sn_snapshot_id = sid, sn_sequence = n, sn_pack = p, sn_published_at = stamp, sn_published_by = actor\<rparr>)"

subsection \<open>The journal port\<close>

record 'db journal =
  j_seed :: "string \<Rightarrow> GovernanceState \<Rightarrow> 'db \<Rightarrow> 'db"
  j_read :: "string \<Rightarrow> 'db \<Rightarrow> gov_error + GovernanceState"
  j_save :: "string \<Rightarrow> GovernanceState \<Rightarrow> int \<Rightarrow> 'db \<Rightarrow> gov_error + 'db"
  j_delete :: "string \<Rightarrow> 'db \<Rightarrow> 'db"

subsection \<open>Authority\<close>

definition EDIT :: string where "EDIT = ''EDIT_DEFINITIONS''"
definition REVIEW :: string where "REVIEW = ''REVIEW_DEFINITIONS''"
definition PUBLISH :: string where "PUBLISH = ''PUBLISH_DEFINITIONS''"
definition REVOKE :: string where "REVOKE = ''REVOKE_DEFINITIONS''"

record governance =
  gv_namespace :: string
  gv_tenant_id :: string
  gv_separate_reviewer :: bool

definition authorize :: "governance \<Rightarrow> AccessContext \<Rightarrow> string \<Rightarrow> gov_error option" where
  "authorize gv access action =
     (if ac_tenant_id access \<noteq> gv_tenant_id gv \<or> \<not> {READ_DATA_ACTION, action} \<subseteq> ac_actions access
      then Some (Denied ''Definition access is not authorized.'') else None)"

definition pack_levels :: "TenantDomainPack \<Rightarrow> ClassificationLevel list" where
  "pack_levels p = map md_classification (pk_metrics p) @ map be_classification (pk_entities p)"

text \<open>The head of a workspace is the last snapshot; the stores reject a workspace without one.\<close>

definition head_snapshot :: "GovernanceState \<Rightarrow> DefinitionSnapshot" where
  "head_snapshot st = last (gs_snapshots st)"

definition manage :: "governance \<Rightarrow> AccessContext \<Rightarrow> string \<Rightarrow> GovernanceState \<Rightarrow> gov_error option" where
  "manage gv access action st =
     (case authorize gv access action of Some e \<Rightarrow> Some e
      | None \<Rightarrow>
        if \<exists>level\<in>set (pack_levels (sn_pack (head_snapshot st))).
             CLASSIFICATION_RANK level > CLASSIFICATION_RANK (ac_clearance access)
        then Some (Denied ''Definition review requires clearance for the complete publication.'') else None)"

subsection \<open>Current and pinned definitions\<close>

definition effective_of :: "DefinitionSnapshot \<Rightarrow> instant" where
  "effective_of s = pk_effective_from (sn_pack s)"

definition eligible :: "(nat \<Rightarrow> instant) \<Rightarrow> DefinitionSnapshot list \<Rightarrow> DefinitionSnapshot list" where
  "eligible clk ss = map snd (filter (\<lambda>(k, s). effective_of s \<le> clk k) (enumerate 0 ss))"

definition newer :: "DefinitionSnapshot \<Rightarrow> DefinitionSnapshot \<Rightarrow> bool" where
  "newer a b \<longleftrightarrow> effective_of a < effective_of b
     \<or> effective_of a = effective_of b \<and> sn_sequence a < sn_sequence b"

fun newest_from :: "DefinitionSnapshot \<Rightarrow> DefinitionSnapshot list \<Rightarrow> DefinitionSnapshot" where
  "newest_from best [] = best"
| "newest_from best (s # ss) = newest_from (if newer best s then s else best) ss"

definition current :: "(nat \<Rightarrow> instant) \<Rightarrow> GovernanceState \<Rightarrow> gov_error + DefinitionSnapshot" where
  "current clk st =
     (case eligible clk (gs_snapshots st) of
        [] \<Rightarrow> Inl (Unavailable ''No approved definitions are effective yet.'')
      | s # ss \<Rightarrow> Inr (newest_from s ss))"

definition find_snapshot :: "string \<Rightarrow> GovernanceState \<Rightarrow> DefinitionSnapshot option" where
  "find_snapshot sid st = List.find (\<lambda>s. sn_snapshot_id s = sid) (gs_snapshots st)"

definition inspect_current :: "'db journal \<Rightarrow> governance \<Rightarrow> (nat \<Rightarrow> instant) \<Rightarrow> AccessContext \<Rightarrow> 'db
    \<Rightarrow> gov_error + DefinitionSnapshot" where
  "inspect_current J gv clk access db =
     (case authorize gv access READ_DATA_ACTION of Some e \<Rightarrow> Inl e
      | None \<Rightarrow> (case j_read J (gv_namespace gv) db of Inl e \<Rightarrow> Inl e | Inr st \<Rightarrow> current clk st))"

definition resolve_in :: "(nat \<Rightarrow> instant) \<Rightarrow> string option \<Rightarrow> bool \<Rightarrow> GovernanceState \<Rightarrow> gov_error + DefinitionSnapshot" where
  "resolve_in clk sid require_current st =
     (case current clk st of Inl e \<Rightarrow> Inl e
      | Inr cur \<Rightarrow>
        (case (case sid of None \<Rightarrow> Some cur | Some i \<Rightarrow> find_snapshot i st) of
           None \<Rightarrow> Inl (NotFound ''The definition snapshot is not available in this workspace.'')
         | Some s \<Rightarrow>
           if require_current \<and> sn_snapshot_id s \<noteq> sn_snapshot_id cur
             then Inl (Conflict ''Business definitions changed. Refresh before asking again.'')
           else if sn_snapshot_id s \<in> gs_revoked st \<or> effective_of s > clk (length (gs_snapshots st))
             then Inl (Unavailable ''This definition snapshot is revoked or not yet effective.'')
           else Inr s))"

definition resolve :: "'db journal \<Rightarrow> governance \<Rightarrow> (nat \<Rightarrow> instant) \<Rightarrow> AccessContext \<Rightarrow> string option \<Rightarrow> bool \<Rightarrow> 'db
    \<Rightarrow> gov_error + DefinitionSnapshot" where
  "resolve J gv clk access sid require_current db =
     (case authorize gv access READ_DATA_ACTION of Some e \<Rightarrow> Inl e
      | None \<Rightarrow> (case j_read J (gv_namespace gv) db of Inl e \<Rightarrow> Inl e
                  | Inr st \<Rightarrow> resolve_in clk sid require_current st))"

record governance_view =
  vw_revision :: int
  vw_mode :: string
  vw_snapshot_id :: string
  vw_version :: string
  vw_effective_from :: instant
  vw_status :: string
  vw_metrics :: "MetricDefinition list"
  vw_dimensions :: "BusinessEntity list"
  vw_drafts :: "DefinitionDraft list"
  vw_events :: "DefinitionEvent list"
  vw_snapshots :: "(string \<times> string \<times> instant \<times> bool) list"
  vw_actions :: "string list"

text \<open>Which of the caller's management actions is checked first does not matter: all are granted.\<close>

definition view_in :: "governance \<Rightarrow> (nat \<Rightarrow> instant) \<Rightarrow> AccessContext \<Rightarrow> GovernanceState \<Rightarrow> gov_error + governance_view" where
  "view_in gv clk access st =
     (case current clk st of Inl e \<Rightarrow> Inl e
      | Inr s \<Rightarrow>
        (let actions = py_sorted (ac_actions access \<inter> {EDIT, REVIEW, PUBLISH, REVOKE});
             managing = actions \<noteq> []
         in case (if managing then manage gv access (hd actions) st else None) of Some e \<Rightarrow> Inl e
            | None \<Rightarrow> Inr
               \<lparr>vw_revision = gs_revision st,
                vw_mode = (if gv_separate_reviewer gv then ''SEPARATE_REVIEWER'' else ''DEMO_SINGLE_USER''),
                vw_snapshot_id = sn_snapshot_id s, vw_version = pk_version (sn_pack s),
                vw_effective_from = effective_of s,
                vw_status = (if sn_snapshot_id s \<in> gs_revoked st then ''REVOKED'' else ''PUBLISHED''),
                vw_metrics = filter (\<lambda>m. CLASSIFICATION_RANK (md_classification m)
                    \<le> CLASSIFICATION_RANK (ac_clearance access)) (pk_metrics (sn_pack s)),
                vw_dimensions = filter (\<lambda>d. CLASSIFICATION_RANK (be_classification d)
                    \<le> CLASSIFICATION_RANK (ac_clearance access)) (pk_entities (sn_pack s)),
                vw_drafts = (if managing then gs_drafts st else []),
                vw_events = (if managing then gs_events st else []),
                vw_snapshots = (if managing then map (\<lambda>x. (sn_snapshot_id x, pk_version (sn_pack x),
                    effective_of x, sn_snapshot_id x \<in> gs_revoked st)) (gs_snapshots st) else []),
                vw_actions = actions\<rparr>))"

definition view :: "'db journal \<Rightarrow> governance \<Rightarrow> (nat \<Rightarrow> instant) \<Rightarrow> AccessContext \<Rightarrow> 'db \<Rightarrow> gov_error + governance_view" where
  "view J gv clk access db =
     (case authorize gv access READ_DATA_ACTION of Some e \<Rightarrow> Inl e
      | None \<Rightarrow> (case j_read J (gv_namespace gv) db of Inl e \<Rightarrow> Inl e | Inr st \<Rightarrow> view_in gv clk access st))"

subsection \<open>Editing a definition\<close>

text \<open>The first definition with the identifier is the one an edit changes.\<close>

fun update_first :: "('d \<Rightarrow> bool) \<Rightarrow> ('d \<Rightarrow> 'd) \<Rightarrow> 'd list \<Rightarrow> 'd list" where
  "update_first P f [] = []"
| "update_first P f (x # xs) = (if P x then f x # xs else x # update_first P f xs)"

definition requested_words :: "DefinitionEdit \<Rightarrow> string set" where
  "requested_words e = set (map py_lower (de_name e # de_aliases e))"

definition words_of_others :: "('d \<Rightarrow> string) \<Rightarrow> ('d \<Rightarrow> string list) \<Rightarrow> string \<Rightarrow> 'd list \<Rightarrow> string set" where
  "words_of_others ident words target ds =
     set (map py_lower (concat (map words (filter (\<lambda>d. ident d \<noteq> target) ds))))"

definition edit_first :: "('d \<Rightarrow> string) \<Rightarrow> ('d \<Rightarrow> string list) \<Rightarrow> ('d \<Rightarrow> 'd) \<Rightarrow> DefinitionEdit \<Rightarrow> 'd list
    \<Rightarrow> gov_error + 'd list" where
  "edit_first ident words upd e ds =
     (case List.find (\<lambda>d. ident d = de_definition_id e) ds of
        None \<Rightarrow> Inl (NotFound ''The metric or dimension is not registered.'')
      | Some target \<Rightarrow>
        if requested_words e \<inter> words_of_others ident words (ident target) ds \<noteq> {}
        then Inl (Conflict ''The name or aliases conflict with another business definition.'')
        else Inr (update_first (\<lambda>d. ident d = de_definition_id e) upd ds))"

definition metric_words :: "MetricDefinition \<Rightarrow> string list" where
  "metric_words m = md_id m # md_name m # md_aliases m"

definition entity_words :: "BusinessEntity \<Rightarrow> string list" where
  "entity_words d = be_id d # be_name d # be_aliases d"

definition edit_metric :: "DefinitionEdit \<Rightarrow> MetricDefinition \<Rightarrow> MetricDefinition" where
  "edit_metric e m = m\<lparr>md_name := de_name e, md_definition := de_definition e, md_owner := de_owner e,
     md_aliases := de_aliases e, md_definition_version := md_definition_version m + 1\<rparr>"

definition edit_entity :: "DefinitionEdit \<Rightarrow> BusinessEntity \<Rightarrow> BusinessEntity" where
  "edit_entity e d = d\<lparr>be_name := de_name e, be_definition := de_definition e, be_owner := de_owner e,
     be_aliases := de_aliases e, be_definition_version := be_definition_version d + 1\<rparr>"

definition revalidate :: "TenantDomainPack \<Rightarrow> gov_error + TenantDomainPack" where
  "revalidate p = (case make_pack p of Inl e \<Rightarrow> Inl (InvalidPack e) | Inr q \<Rightarrow> Inr q)"

definition apply_edit :: "TenantDomainPack \<Rightarrow> DefinitionEdit \<Rightarrow> gov_error + TenantDomainPack" where
  "apply_edit p e =
     (case de_kind e of
        KIND_METRIC \<Rightarrow>
          (case edit_first md_id metric_words (edit_metric e) e (pk_metrics p) of Inl x \<Rightarrow> Inl x
           | Inr ms \<Rightarrow> revalidate (p\<lparr>pk_metrics := ms\<rparr>))
      | KIND_DIMENSION \<Rightarrow>
          (case edit_first be_id entity_words (edit_entity e) e (pk_entities p) of Inl x \<Rightarrow> Inl x
           | Inr es \<Rightarrow> revalidate (p\<lparr>pk_entities := es\<rparr>)))"

subsection \<open>Drafts\<close>

definition draft_created :: "governance \<Rightarrow> (nat \<Rightarrow> instant) \<Rightarrow> string \<Rightarrow> AccessContext \<Rightarrow> DefinitionEdit \<Rightarrow> GovernanceState
    \<Rightarrow> gov_error + (GovernanceState \<times> DefinitionDraft)" where
  "draft_created gv clk fresh access e st =
     (case manage gv access EDIT st of Some x \<Rightarrow> Inl x
      | None \<Rightarrow>
        if length (gs_drafts st) \<ge> 64
          then Inl (Conflict ''The definition review workspace has reached its capacity.'')
        else if de_base_snapshot_id e \<noteq> sn_snapshot_id (head_snapshot st)
          then Inl (Conflict ''The draft requires the latest published snapshot.'')
        else (case apply_edit (sn_pack (head_snapshot st)) e of Inl x \<Rightarrow> Inl x
          | Inr _ \<Rightarrow>
            (let d = \<lparr>dd_draft_id = fresh, dd_revision = 1, dd_status = DRAFT, dd_edit = e,
                      dd_author = ac_user_id access, dd_reviewer = None, dd_review_note = None,
                      dd_submission_note = None, dd_publication_note = None, dd_created_at = clk 0,
                      dd_published_snapshot_id = None\<rparr>
             in Inr (st\<lparr>gs_drafts := gs_drafts st @ [d]\<rparr>, d))))"

datatype draft_action = SUBMIT | APPROVE | REJECT | PUBLISH_DRAFT

definition action_permission :: "draft_action \<Rightarrow> string" where
  "action_permission a = (case a of SUBMIT \<Rightarrow> EDIT | APPROVE \<Rightarrow> REVIEW | REJECT \<Rightarrow> REVIEW | PUBLISH_DRAFT \<Rightarrow> PUBLISH)"

definition required_status :: "draft_action \<Rightarrow> DraftStatus" where
  "required_status a = (case a of SUBMIT \<Rightarrow> DRAFT | APPROVE \<Rightarrow> IN_REVIEW | REJECT \<Rightarrow> IN_REVIEW | PUBLISH_DRAFT \<Rightarrow> APPROVED)"

text \<open>Publication: the edited head becomes the next snapshot, effective from the latest of the edit's
  date, the clock and the head's date, and one event records it.\<close>

definition published :: "(TenantDomainPack \<Rightarrow> string) \<Rightarrow> (nat \<Rightarrow> instant) \<Rightarrow> AccessContext \<Rightarrow> string \<Rightarrow> DefinitionDraft
    \<Rightarrow> GovernanceState \<Rightarrow> gov_error + (GovernanceState \<times> DefinitionDraft)" where
  "published ph clk access note d st =
     (if de_base_snapshot_id (dd_edit d) \<noteq> sn_snapshot_id (head_snapshot st)
        then Inl (Conflict ''Another definition was published. Create and review a new draft.'')
      else if length (gs_snapshots st) \<ge> 64
        then Inl (Conflict ''Definition history capacity has been reached.'')
      else (case apply_edit (sn_pack (head_snapshot st)) (dd_edit d) of Inl x \<Rightarrow> Inl x
        | Inr p \<Rightarrow>
          (let pack = p\<lparr>pk_version := ''publication-'' @ nat_str (int (length (gs_snapshots st)) + 1),
                        pk_effective_from := max (max (de_effective_from (dd_edit d)) (clk 0))
                          (effective_of (head_snapshot st))\<rparr>;
               n = int (length (gs_events st)) + 1
           in case make_snapshot (ph pack) n pack (clk 1) (ac_user_id access) of Inl x \<Rightarrow> Inl x
              | Inr s \<Rightarrow>
                Inr (st\<lparr>gs_snapshots := gs_snapshots st @ [s],
                       gs_events := gs_events st @ [\<lparr>ev_sequence = n, ev_kind = EV_PUBLISHED,
                         ev_snapshot_id = sn_snapshot_id s, ev_occurred_at = clk 2,
                         ev_effective_from = pk_effective_from pack, ev_actor = ac_user_id access,
                         ev_reason = de_reason (dd_edit d)\<rparr>]\<rparr>,
                     d\<lparr>dd_status := PUBLISHED, dd_published_snapshot_id := Some (sn_snapshot_id s),
                       dd_publication_note := Some note\<rparr>))))"

definition acted :: "(TenantDomainPack \<Rightarrow> string) \<Rightarrow> governance \<Rightarrow> (nat \<Rightarrow> instant) \<Rightarrow> AccessContext \<Rightarrow> draft_action \<Rightarrow> string
    \<Rightarrow> DefinitionDraft \<Rightarrow> GovernanceState \<Rightarrow> gov_error + (GovernanceState \<times> DefinitionDraft)" where
  "acted ph gv clk access action note d st =
     (case action of
        SUBMIT \<Rightarrow>
          if dd_author d \<noteq> ac_user_id access then Inl (Denied ''Only the author can submit this draft.'')
          else Inr (st, d\<lparr>dd_status := IN_REVIEW, dd_submission_note := Some note\<rparr>)
      | PUBLISH_DRAFT \<Rightarrow> published ph clk access note d st
      | _ \<Rightarrow>
          if gv_separate_reviewer gv \<and> dd_author d = ac_user_id access
            then Inl (Denied ''A different authorized person must review the definition.'')
          else Inr (st, d\<lparr>dd_reviewer := Some (ac_user_id access), dd_review_note := Some note,
                         dd_status := (if action = APPROVE then APPROVED else REJECTED)\<rparr>))"

definition draft_moved :: "(TenantDomainPack \<Rightarrow> string) \<Rightarrow> governance \<Rightarrow> (nat \<Rightarrow> instant) \<Rightarrow> AccessContext \<Rightarrow> string \<Rightarrow> draft_action
    \<Rightarrow> int \<Rightarrow> string \<Rightarrow> GovernanceState \<Rightarrow> gov_error + (GovernanceState \<times> DefinitionDraft)" where
  "draft_moved ph gv clk access did action expected note st =
     (case manage gv access (action_permission action) st of Some x \<Rightarrow> Inl x
      | None \<Rightarrow>
        (case List.find (\<lambda>d. dd_draft_id d = did) (gs_drafts st) of
           None \<Rightarrow> Inl (NotFound ''The draft does not exist in this workspace.'')
         | Some d \<Rightarrow>
           if dd_revision d \<noteq> expected then Inl (Conflict ''The draft changed. Refresh its review state.'')
           else if dd_status d \<noteq> required_status action
             then Inl (Conflict ''The requested transition is not valid for this review state.'')
           else (case acted ph gv clk access action note d st of Inl x \<Rightarrow> Inl x
             | Inr (st', d') \<Rightarrow>
               (let d'' = d'\<lparr>dd_revision := dd_revision d + 1\<rparr>
                in Inr (st'\<lparr>gs_drafts := update_first (\<lambda>x. dd_draft_id x = did) (\<lambda>_. d'') (gs_drafts st)\<rparr>, d'')))))"

definition snapshot_revoked :: "governance \<Rightarrow> (nat \<Rightarrow> instant) \<Rightarrow> AccessContext \<Rightarrow> string \<Rightarrow> int \<Rightarrow> string \<Rightarrow> GovernanceState
    \<Rightarrow> gov_error + GovernanceState" where
  "snapshot_revoked gv clk access sid expected note st =
     (case manage gv access REVOKE st of Some x \<Rightarrow> Inl x
      | None \<Rightarrow>
        if expected \<noteq> gs_revision st \<or> sid \<in> gs_revoked st
          then Inl (Conflict ''The definition state changed or was already revoked.'')
        else (case find_snapshot sid st of
            None \<Rightarrow> Inl (NotFound ''The snapshot does not exist in this workspace.'')
          | Some _ \<Rightarrow>
            Inr (st\<lparr>gs_revoked := insert sid (gs_revoked st),
                   gs_events := gs_events st @ [\<lparr>ev_sequence = int (length (gs_events st)) + 1,
                     ev_kind = EV_REVOKED, ev_snapshot_id = sid, ev_occurred_at = clk 0,
                     ev_effective_from = clk 1, ev_actor = ac_user_id access, ev_reason = note\<rparr>]\<rparr>)))"

subsection \<open>Operations on the journal\<close>

definition commit :: "'db journal \<Rightarrow> governance \<Rightarrow> GovernanceState \<Rightarrow> 'r \<Rightarrow> 'db \<Rightarrow> gov_error + ('db \<times> 'r)" where
  "commit J gv st r db =
     (case j_save J (gv_namespace gv) st (gs_revision st) db of Inl e \<Rightarrow> Inl e | Inr db' \<Rightarrow> Inr (db', r))"

definition create_draft :: "'db journal \<Rightarrow> governance \<Rightarrow> (nat \<Rightarrow> instant) \<Rightarrow> string \<Rightarrow> AccessContext \<Rightarrow> DefinitionEdit \<Rightarrow> 'db
    \<Rightarrow> gov_error + ('db \<times> DefinitionDraft)" where
  "create_draft J gv clk fresh access e db =
     (case j_read J (gv_namespace gv) db of Inl x \<Rightarrow> Inl x
      | Inr st \<Rightarrow> (case draft_created gv clk fresh access e st of Inl x \<Rightarrow> Inl x
          | Inr (st', d) \<Rightarrow> commit J gv st' d db))"

definition transition :: "'db journal \<Rightarrow> (TenantDomainPack \<Rightarrow> string) \<Rightarrow> governance \<Rightarrow> (nat \<Rightarrow> instant) \<Rightarrow> AccessContext \<Rightarrow> string
    \<Rightarrow> draft_action \<Rightarrow> int \<Rightarrow> string \<Rightarrow> 'db \<Rightarrow> gov_error + ('db \<times> DefinitionDraft)" where
  "transition J ph gv clk access did action expected note db =
     (case j_read J (gv_namespace gv) db of Inl x \<Rightarrow> Inl x
      | Inr st \<Rightarrow> (case draft_moved ph gv clk access did action expected note st of Inl x \<Rightarrow> Inl x
          | Inr (st', d) \<Rightarrow> commit J gv st' d db))"

definition revoke :: "'db journal \<Rightarrow> governance \<Rightarrow> (nat \<Rightarrow> instant) \<Rightarrow> AccessContext \<Rightarrow> string \<Rightarrow> int \<Rightarrow> string \<Rightarrow> 'db
    \<Rightarrow> gov_error + 'db" where
  "revoke J gv clk access sid expected note db =
     (case j_read J (gv_namespace gv) db of Inl x \<Rightarrow> Inl x
      | Inr st \<Rightarrow> (case snapshot_revoked gv clk access sid expected note st of Inl x \<Rightarrow> Inl x
          | Inr st' \<Rightarrow> (case commit J gv st' () db of Inl x \<Rightarrow> Inl x | Inr (db', _) \<Rightarrow> Inr db')))"

text \<open>Opening a workspace seeds it with the approved bootstrap pack and checks that the stored history
  starts with that pack.\<close>

definition seed_state :: "(TenantDomainPack \<Rightarrow> string) \<Rightarrow> TenantDomainPack \<Rightarrow> DefinitionSnapshot \<Rightarrow> GovernanceState" where
  "seed_state ph pack s = \<lparr>gs_tenant_id = pk_tenant_id pack, gs_revision = 1, gs_snapshots = [s],
     gs_drafts = [], gs_events = [], gs_revoked = {}\<rparr>"

definition open_governance :: "'db journal \<Rightarrow> (TenantDomainPack \<Rightarrow> string) \<Rightarrow> string \<Rightarrow> TenantDomainPack \<Rightarrow> bool \<Rightarrow> (nat \<Rightarrow> instant)
    \<Rightarrow> 'db \<Rightarrow> gov_error + ('db \<times> governance)" where
  "open_governance J ph ns pack separate clk db =
     (if pk_effective_from pack > clk 0
        then Inl (Unavailable ''Initial definitions must already be effective.'')
      else (case make_snapshot (ph pack) 0 pack (clk 1) ''approved-bootstrap'' of Inl e \<Rightarrow> Inl e
        | Inr s \<Rightarrow>
          (let db' = j_seed J ns (seed_state ph pack s) db
           in case j_read J ns db' of Inl e \<Rightarrow> Inl e
              | Inr st \<Rightarrow>
                if gs_tenant_id st \<noteq> pk_tenant_id pack \<or> sn_snapshot_id (hd (gs_snapshots st)) \<noteq> ph pack
                then Inl (Unavailable ''The definition bootstrap changed; an approved store migration is required.'')
                else Inr (db', \<lparr>gv_namespace = ns, gv_tenant_id = pk_tenant_id pack, gv_separate_reviewer = separate\<rparr>))))"

subsection \<open>What an edit changes\<close>

lemma update_first_eq_map:
  assumes "distinct (map ident xs)"
  shows "update_first (\<lambda>x. ident x = k) f xs = map (\<lambda>x. if ident x = k then f x else x) xs"
  using assms
proof (induction xs)
  case (Cons x xs)
  show ?case
  proof (cases "ident x = k")
    case True
    with Cons.prems have "\<forall>y\<in>set xs. ident y \<noteq> k" by (auto simp: rev_image_eqI)
    then have "map (\<lambda>x. if ident x = k then f x else x) xs = xs" by (intro map_idI) auto
    with True show ?thesis by simp
  next
    case False
    with Cons show ?thesis by simp
  qed
qed simp

lemma update_first_sum:
  fixes g :: "'a \<Rightarrow> int"
  assumes "\<And>x. g (f x) = g x + 1" "\<exists>x\<in>set xs. P x"
  shows "sum_list (map g (update_first P f xs)) = sum_list (map g xs) + 1"
  using assms(2) by (induction xs) (auto simp: assms(1))

lemma length_update_first [simp]: "length (update_first P f xs) = length xs"
  by (induction xs) auto

lemma set_update_first: "set (update_first P f xs) \<subseteq> set xs \<union> f ` {x \<in> set xs. P x}"
  by (induction xs) auto

lemma update_first_keys [simp]:
  "(\<And>x. k (f x) = k x) \<Longrightarrow> map k (update_first P f xs) = map k xs"
  by (induction xs) auto

lemma edit_first_Inr:
  "edit_first ident words upd e ds = Inr ds' \<longleftrightarrow>
     de_definition_id e \<in> ident ` set ds \<and> requested_words e \<inter> words_of_others ident words (de_definition_id e) ds = {}
     \<and> ds' = update_first (\<lambda>d. ident d = de_definition_id e) upd ds"
proof (cases "List.find (\<lambda>d. ident d = de_definition_id e) ds")
  case None
  then have "de_definition_id e \<notin> ident ` set ds" by (auto simp: find_None_iff)
  with None show ?thesis by (simp add: edit_first_def)
next
  case (Some t)
  from find_SomeD [OF this] have t: "t \<in> set ds" "ident t = de_definition_id e" by auto
  then have "de_definition_id e \<in> ident ` set ds" by force
  with Some t show ?thesis by (auto simp: edit_first_def)
qed

lemma revalidate_Inr:
  "revalidate p = Inr q \<longleftrightarrow> pack_wf p \<and> q = p\<lparr>pk_status := normalize_status (pk_status p)\<rparr>"
proof (cases "make_pack p")
  case (Inl a)
  then have "\<not> pack_wf p" using make_pack_Inr [of p] by auto
  with Inl show ?thesis by (simp add: revalidate_def)
next
  case (Inr a)
  then show ?thesis using make_pack_Inr [of p q] by (auto simp: revalidate_def)
qed

text \<open>The edited pack before its validation.\<close>

definition edited :: "TenantDomainPack \<Rightarrow> DefinitionEdit \<Rightarrow> TenantDomainPack" where
  "edited p e = (case de_kind e of
     KIND_METRIC \<Rightarrow> p\<lparr>pk_metrics := map (\<lambda>m. if md_id m = de_definition_id e then edit_metric e m else m) (pk_metrics p)\<rparr>
   | KIND_DIMENSION \<Rightarrow> p\<lparr>pk_entities := map (\<lambda>d. if be_id d = de_definition_id e then edit_entity e d else d) (pk_entities p)\<rparr>)"

definition edit_admissible :: "TenantDomainPack \<Rightarrow> DefinitionEdit \<Rightarrow> bool" where
  "edit_admissible p e \<longleftrightarrow> (case de_kind e of
     KIND_METRIC \<Rightarrow> de_definition_id e \<in> md_id ` set (pk_metrics p)
       \<and> requested_words e \<inter> words_of_others md_id metric_words (de_definition_id e) (pk_metrics p) = {}
   | KIND_DIMENSION \<Rightarrow> de_definition_id e \<in> be_id ` set (pk_entities p)
       \<and> requested_words e \<inter> words_of_others be_id entity_words (de_definition_id e) (pk_entities p) = {})"

lemma edit_metric_fields [simp]:
  "md_id (edit_metric e m) = md_id m" "md_domain_id (edit_metric e m) = md_domain_id m"
  "md_allowed_dimensions (edit_metric e m) = md_allowed_dimensions m"
  "md_definition_version (edit_metric e m) = md_definition_version m + 1"
  "md_classification (edit_metric e m) = md_classification m"
  "metric_ok p (edit_metric e m) \<longleftrightarrow> 0 \<le> md_definition_version m \<and>
     metric_ok p (m\<lparr>md_definition_version := 1\<rparr>)"
  by (auto simp: edit_metric_def metric_ok_def)

lemma edit_entity_fields [simp]:
  "be_id (edit_entity e d) = be_id d" "be_domain_id (edit_entity e d) = be_domain_id d"
  "be_values (edit_entity e d) = be_values d" "be_definition_version (edit_entity e d) = be_definition_version d + 1"
  "be_classification (edit_entity e d) = be_classification d"
  by (simp_all add: edit_entity_def)

lemma if_ids [simp]:
  "map md_id (map (\<lambda>m. if md_id m = i then edit_metric e m else m) ms) = map md_id ms"
  "map be_id (map (\<lambda>d. if be_id d = i then edit_entity e d else d) ds) = map be_id ds"
  by (induction ms) auto

lemma if_id_sets [simp]:
  "md_id ` set (map (\<lambda>m. if md_id m = i then edit_metric e m else m) ms) = md_id ` set ms"
  "be_id ` set (map (\<lambda>d. if be_id d = i then edit_entity e d else d) ds) = be_id ` set ds"
  by (metis if_ids(1) set_map, metis if_ids(2) set_map)

lemma edited_wf: 
  assumes "pack_wf p"
  shows "pack_wf (edited p e)"
proof (cases "de_kind e")
  case KIND_METRIC
  let ?ms = "map (\<lambda>m. if md_id m = de_definition_id e then edit_metric e m else m) (pk_metrics p)"
  have "metric_ok (p\<lparr>pk_metrics := ?ms\<rparr>) m" if "m \<in> set ?ms" for m
  proof -
    from that obtain n where n: "n \<in> set (pk_metrics p)" "m = (if md_id n = de_definition_id e then edit_metric e n else n)"
      by auto
    then have "metric_ok p n" using assms pack_wf_metric by blast
    then show ?thesis using n(2) by (auto simp: metric_ok_def edit_metric_def)
  qed
  then show ?thesis using assms KIND_METRIC unfolding pack_wf_def edited_def
    by (simp del: map_map set_map list.map_comp)
next
  case KIND_DIMENSION
  let ?ds = "map (\<lambda>d. if be_id d = de_definition_id e then edit_entity e d else d) (pk_entities p)"
  have d: "be_domain_id d \<in> bd_id ` set (pk_domains p) \<and> 1 \<le> be_definition_version d \<and> distinct (map dv_id (be_values d))"
    if "d \<in> set ?ds" for d
  proof -
    from that obtain n where n: "n \<in> set (pk_entities p)" "d = (if be_id n = de_definition_id e then edit_entity e n else n)"
      by auto
    then have "be_domain_id n \<in> bd_id ` set (pk_domains p) \<and> 1 \<le> be_definition_version n \<and> distinct (map dv_id (be_values n))"
      using assms by (simp add: pack_wf_def)
    then show ?thesis using n(2) by auto
  qed
  have m: "metric_ok (p\<lparr>pk_entities := ?ds\<rparr>) m" if "m \<in> set (pk_metrics p)" for m
    using that assms by (simp add: pack_wf_def metric_ok_def del: map_map set_map list.map_comp)
  show ?thesis using assms KIND_DIMENSION d m unfolding pack_wf_def edited_def
    by (simp del: map_map set_map list.map_comp)
qed

lemma apply_edit_Inr:
  assumes "pack_wf p"
  shows "apply_edit p e = Inr q \<longleftrightarrow> edit_admissible p e \<and> q = (edited p e)\<lparr>pk_status := normalize_status (pk_status p)\<rparr>"
proof -
  have ids: "distinct (map md_id (pk_metrics p))" "distinct (map be_id (pk_entities p))"
    using assms by (simp_all add: pack_wf_def)
  note upd = update_first_eq_map [OF ids(1)] update_first_eq_map [OF ids(2)]
  show ?thesis
  proof (cases "de_kind e")
    case KIND_METRIC
    then have "apply_edit p e = Inr q \<longleftrightarrow> edit_admissible p e \<and> revalidate (edited p e) = Inr q"
      by (auto simp: apply_edit_def edit_first_Inr edited_def edit_admissible_def upd)
    then show ?thesis using edited_wf [OF assms, of e] KIND_METRIC by (simp add: revalidate_Inr) (auto simp: edited_def)
  next
    case KIND_DIMENSION
    then have "apply_edit p e = Inr q \<longleftrightarrow> edit_admissible p e \<and> revalidate (edited p e) = Inr q"
      by (auto simp: apply_edit_def edit_first_Inr edited_def edit_admissible_def upd)
    then show ?thesis using edited_wf [OF assms, of e] KIND_DIMENSION by (simp add: revalidate_Inr) (auto simp: edited_def)
  qed
qed

definition version_total :: "TenantDomainPack \<Rightarrow> int" where
  "version_total p = sum_list (map md_definition_version (pk_metrics p)) + sum_list (map be_definition_version (pk_entities p))"

lemma edited_version:
  assumes "pack_wf p" "edit_admissible p e"
  shows "version_total (edited p e) = version_total p + 1"
proof -
  have ids: "distinct (map md_id (pk_metrics p))" "distinct (map be_id (pk_entities p))"
    using assms by (simp_all add: pack_wf_def)
  show ?thesis
  proof (cases "de_kind e")
    case KIND_METRIC
    then have "\<exists>x\<in>set (pk_metrics p). md_id x = de_definition_id e"
      using assms(2) by (auto simp: edit_admissible_def)
    from update_first_sum [where g = md_definition_version and f = "edit_metric e", OF _ this] KIND_METRIC show ?thesis
      unfolding update_first_eq_map [OF ids(1)] by (simp add: version_total_def edited_def)
  next
    case KIND_DIMENSION
    then have "\<exists>x\<in>set (pk_entities p). be_id x = de_definition_id e"
      using assms(2) by (auto simp: edit_admissible_def)
    from update_first_sum [where g = be_definition_version and f = "edit_entity e", OF _ this] KIND_DIMENSION show ?thesis
      unfolding update_first_eq_map [OF ids(2)] by (simp add: version_total_def edited_def)
  qed
qed

subsection \<open>Reachable workspaces\<close>

text \<open>The states one workspace can hold: the seed, and what a successful operation saves.\<close>

inductive gov_reach :: "(TenantDomainPack \<Rightarrow> string) \<Rightarrow> governance \<Rightarrow> GovernanceState \<Rightarrow> bool" for ph gv where
  opened: "make_snapshot (ph pack) 0 pack stamp ''approved-bootstrap'' = Inr s \<Longrightarrow> pack_wf pack
    \<Longrightarrow> pk_tenant_id pack = gv_tenant_id gv \<Longrightarrow> gov_reach ph gv (seed_state ph pack s)"
| created: "gov_reach ph gv st \<Longrightarrow> draft_created gv clk fresh access e st = Inr (st', d)
    \<Longrightarrow> gov_reach ph gv (st'\<lparr>gs_revision := gs_revision st' + 1\<rparr>)"
| moved: "gov_reach ph gv st \<Longrightarrow> draft_moved ph gv clk access did action expected note st = Inr (st', d)
    \<Longrightarrow> gov_reach ph gv (st'\<lparr>gs_revision := gs_revision st' + 1\<rparr>)"
| revoked: "gov_reach ph gv st \<Longrightarrow> snapshot_revoked gv clk access sid expected note st = Inr st'
    \<Longrightarrow> gov_reach ph gv (st'\<lparr>gs_revision := gs_revision st' + 1\<rparr>)"

definition snapshot_ok :: "(TenantDomainPack \<Rightarrow> string) \<Rightarrow> GovernanceState \<Rightarrow> DefinitionSnapshot \<Rightarrow> bool" where
  "snapshot_ok ph st s \<longleftrightarrow> sn_snapshot_id s = ph (sn_pack s) \<and> pack_wf (sn_pack s)
     \<and> pk_status (sn_pack s) = ''APPROVED'' \<and> pk_tenant_id (sn_pack s) = gs_tenant_id st"

definition publication_events :: "GovernanceState \<Rightarrow> string list" where
  "publication_events st = map ev_snapshot_id (filter (\<lambda>e. ev_kind e = EV_PUBLISHED) (gs_events st))"

definition history_ok :: "(TenantDomainPack \<Rightarrow> string) \<Rightarrow> GovernanceState \<Rightarrow> bool" where
  "history_ok ph st \<longleftrightarrow> gs_snapshots st \<noteq> [] \<and> length (gs_snapshots st) \<le> 64
     \<and> (\<forall>s\<in>set (gs_snapshots st). snapshot_ok ph st s)
     \<and> sorted (map effective_of (gs_snapshots st))
     \<and> sorted_wrt (<) (map sn_sequence (gs_snapshots st))
     \<and> sorted_wrt (<) (map (\<lambda>s. version_total (sn_pack s)) (gs_snapshots st))
     \<and> sn_sequence (last (gs_snapshots st)) \<le> int (length (gs_events st))
     \<and> map ev_sequence (gs_events st) = map int [1..<Suc (length (gs_events st))]
     \<and> publication_events st = map sn_snapshot_id (tl (gs_snapshots st))
     \<and> gs_revoked st \<subseteq> sn_snapshot_id ` set (gs_snapshots st)"

definition status_revision :: "DraftStatus \<Rightarrow> int" where
  "status_revision s = (case s of DRAFT \<Rightarrow> 1 | IN_REVIEW \<Rightarrow> 2 | APPROVED \<Rightarrow> 3 | REJECTED \<Rightarrow> 3 | PUBLISHED \<Rightarrow> 4)"

definition draft_ok :: "governance \<Rightarrow> GovernanceState \<Rightarrow> DefinitionDraft \<Rightarrow> bool" where
  "draft_ok gv st d \<longleftrightarrow> dd_revision d = status_revision (dd_status d)
     \<and> (dd_reviewer d = None \<longleftrightarrow> dd_status d \<in> {DRAFT, IN_REVIEW})
     \<and> (gv_separate_reviewer gv \<longrightarrow> dd_reviewer d \<noteq> Some (dd_author d))
     \<and> (case dd_published_snapshot_id d of None \<Rightarrow> dd_status d \<noteq> PUBLISHED
        | Some i \<Rightarrow> dd_status d = PUBLISHED \<and> i \<in> sn_snapshot_id ` set (tl (gs_snapshots st)))"

definition drafts_ok :: "governance \<Rightarrow> GovernanceState \<Rightarrow> bool" where
  "drafts_ok gv st \<longleftrightarrow> length (gs_drafts st) \<le> 64 \<and> (\<forall>d\<in>set (gs_drafts st). draft_ok gv st d)
     \<and> length (filter (\<lambda>d. dd_status d = PUBLISHED) (gs_drafts st)) + 1 = length (gs_snapshots st)"

lemma sorted_snoc: "sorted xs \<Longrightarrow> xs \<noteq> [] \<Longrightarrow> last xs \<le> x \<Longrightarrow> sorted (xs @ [x])"
  for x :: "'a::linorder"
proof -
  assume a: "sorted xs" "xs \<noteq> []" "last xs \<le> x"
  obtain ys y where xs: "xs = ys @ [y]" using a(2) by (metis rev_exhaust)
  with a show ?thesis by (auto simp: sorted_append)
qed

lemma strict_sorted_snoc: "sorted_wrt (<) xs \<Longrightarrow> xs \<noteq> [] \<Longrightarrow> last xs < x \<Longrightarrow> sorted_wrt (<) (xs @ [x])"
  for x :: "'a::linorder"
proof -
  assume a: "sorted_wrt (<) xs" "xs \<noteq> []" "last xs < x"
  obtain ys y where xs: "xs = ys @ [y]" using a(2) by (metis rev_exhaust)
  with a show ?thesis by (auto simp: sorted_wrt_append)
qed

lemma length_filter_update_first:
  "List.find P xs = Some d \<Longrightarrow> length (filter Q (update_first P (\<lambda>_. d') xs)) + (if Q d then 1 else 0)
     = length (filter Q xs) + (if Q d' then 1 else 0)"
  by (induction xs) (auto split: if_splits)

subsection \<open>Successful operations\<close>

lemma manage_None:
  "manage gv access action st = None \<longleftrightarrow> ac_tenant_id access = gv_tenant_id gv
     \<and> READ_DATA_ACTION \<in> ac_actions access \<and> action \<in> ac_actions access
     \<and> (\<forall>level\<in>set (pack_levels (sn_pack (head_snapshot st))). level \<le> ac_clearance access)"
  by (auto simp: manage_def authorize_def less_eq_ClassificationLevel_def not_le)

lemma draft_created_Inr:
  assumes "draft_created gv clk fresh access e st = Inr (st', d)"
  shows "manage gv access EDIT st = None \<and> length (gs_drafts st) < 64
    \<and> de_base_snapshot_id e = sn_snapshot_id (head_snapshot st)
    \<and> is_ok (apply_edit (sn_pack (head_snapshot st)) e)
    \<and> st' = st\<lparr>gs_drafts := gs_drafts st @ [d]\<rparr> \<and> dd_status d = DRAFT \<and> dd_revision d = 1
    \<and> dd_author d = ac_user_id access \<and> dd_reviewer d = None \<and> dd_published_snapshot_id d = None \<and> dd_edit d = e"
  using assms by (auto simp: draft_created_def Let_def is_ok_iff split: option.splits if_splits sum.splits)

lemma draft_moved_Inr:
  assumes "draft_moved ph gv clk access did action expected note st = Inr (st', d'')"
  obtains d st1 d' where "manage gv access (action_permission action) st = None"
    "List.find (\<lambda>d. dd_draft_id d = did) (gs_drafts st) = Some d" "dd_revision d = expected"
    "dd_status d = required_status action" "acted ph gv clk access action note d st = Inr (st1, d')"
    "d'' = d'\<lparr>dd_revision := dd_revision d + 1\<rparr>"
    "st' = st1\<lparr>gs_drafts := update_first (\<lambda>x. dd_draft_id x = did) (\<lambda>_. d'') (gs_drafts st)\<rparr>"
  using assms by (auto simp: draft_moved_def Let_def split: option.splits if_splits)

lemma published_Inr:
  assumes "published ph clk access note d st = Inr (st', d')"
  obtains p pack s where "de_base_snapshot_id (dd_edit d) = sn_snapshot_id (head_snapshot st)"
    "length (gs_snapshots st) < 64" "apply_edit (sn_pack (head_snapshot st)) (dd_edit d) = Inr p"
    "pack = p\<lparr>pk_version := ''publication-'' @ nat_str (int (length (gs_snapshots st)) + 1),
                        pk_effective_from := max (max (de_effective_from (dd_edit d)) (clk 0))
                          (effective_of (head_snapshot st))\<rparr>"
    "pk_status pack = ''APPROVED''"
    "s = \<lparr>sn_snapshot_id = ph pack, sn_sequence = int (length (gs_events st)) + 1, sn_pack = pack,
         sn_published_at = clk 1, sn_published_by = ac_user_id access\<rparr>"
    "st' = st\<lparr>gs_snapshots := gs_snapshots st @ [s],
              gs_events := gs_events st @ [\<lparr>ev_sequence = int (length (gs_events st)) + 1, ev_kind = EV_PUBLISHED,
                         ev_snapshot_id = ph pack, ev_occurred_at = clk 2,
                         ev_effective_from = pk_effective_from pack, ev_actor = ac_user_id access,
                         ev_reason = de_reason (dd_edit d)\<rparr>]\<rparr>"
    "d' = d\<lparr>dd_status := PUBLISHED, dd_published_snapshot_id := Some (ph pack), dd_publication_note := Some note\<rparr>"
  using assms by (auto simp: published_def make_snapshot_def Let_def split: if_splits)

lemma snapshot_revoked_Inr:
  assumes "snapshot_revoked gv clk access sid expected note st = Inr st'"
  obtains "manage gv access REVOKE st = None" "expected = gs_revision st" "sid \<notin> gs_revoked st"
    "sid \<in> sn_snapshot_id ` set (gs_snapshots st)"
    "st' = st\<lparr>gs_revoked := insert sid (gs_revoked st),
                   gs_events := gs_events st @ [\<lparr>ev_sequence = int (length (gs_events st)) + 1,
                     ev_kind = EV_REVOKED, ev_snapshot_id = sid, ev_occurred_at = clk 0,
                     ev_effective_from = clk 1, ev_actor = ac_user_id access, ev_reason = note\<rparr>]\<rparr>"
  using assms by (auto simp: snapshot_revoked_def find_snapshot_def split: option.splits if_splits dest: find_SomeD)

subsection \<open>The invariant of a workspace\<close>

lemma edited_fields [simp]:
  "pk_tenant_id (edited p e) = pk_tenant_id p" "pk_status (edited p e) = pk_status p"
  "pk_effective_from (edited p e) = pk_effective_from p"
  by (simp_all add: edited_def split: definition_kind.split)

lemma pack_wf_stamped [simp]:
  "pack_wf (p\<lparr>pk_version := v, pk_effective_from := t\<rparr>) \<longleftrightarrow> pack_wf p"
  by (simp add: pack_wf_def metric_ok_def)

lemma normalize_approved [simp]: "normalize_status ''APPROVED'' = ''APPROVED''"
  by code_simp

lemma snapshot_ok_cong: "gs_tenant_id st = gs_tenant_id st' \<Longrightarrow> snapshot_ok ph st = snapshot_ok ph st'"
  by (rule ext) (simp add: snapshot_ok_def)

lemma upto_snoc: "map int [1..<Suc (Suc n)] = map int [1..<Suc n] @ [int n + 1]"
  by simp

lemma history_head:
  assumes "history_ok ph st"
  shows "head_snapshot st \<in> set (gs_snapshots st)" "snapshot_ok ph st (head_snapshot st)"
  using assms by (auto simp: history_ok_def head_snapshot_def)

lemma published_pack:
  assumes "history_ok ph st" "apply_edit (sn_pack (head_snapshot st)) e = Inr p"
    and "pack = p\<lparr>pk_version := v, pk_effective_from := t\<rparr>"
  shows "pack_wf pack" "pk_status pack = ''APPROVED''" "pk_tenant_id pack = gs_tenant_id st"
    "version_total pack = version_total (sn_pack (head_snapshot st)) + 1"
proof -
  note h = history_head(2) [OF assms(1)]
  then have wf: "pack_wf (sn_pack (head_snapshot st))" by (simp add: snapshot_ok_def)
  from assms(2) have adm: "edit_admissible (sn_pack (head_snapshot st)) e" and
    p: "p = (edited (sn_pack (head_snapshot st)) e)\<lparr>pk_status := normalize_status (pk_status (sn_pack (head_snapshot st)))\<rparr>"
    unfolding apply_edit_Inr [OF wf] by auto
  show "pack_wf pack" using edited_wf [OF wf] by (simp add: assms(3) p)
  show "pk_status pack = ''APPROVED''" "pk_tenant_id pack = gs_tenant_id st"
    using h by (simp_all add: assms(3) p snapshot_ok_def)
  show "version_total pack = version_total (sn_pack (head_snapshot st)) + 1"
    using edited_version [OF wf adm] by (simp add: assms(3) p version_total_def)
qed

lemma published_history:
  assumes "history_ok ph st" "published ph clk access note d st = Inr (st', d')"
  shows "history_ok ph st'"
proof -
  from assms(2) obtain p pack s where small: "length (gs_snapshots st) < 64" and
    p: "apply_edit (sn_pack (head_snapshot st)) (dd_edit d) = Inr p" and
    pack: "pack = p\<lparr>pk_version := ''publication-'' @ nat_str (int (length (gs_snapshots st)) + 1),
                        pk_effective_from := max (max (de_effective_from (dd_edit d)) (clk 0))
                          (effective_of (head_snapshot st))\<rparr>" and
    s: "s = \<lparr>sn_snapshot_id = ph pack, sn_sequence = int (length (gs_events st)) + 1, sn_pack = pack,
         sn_published_at = clk 1, sn_published_by = ac_user_id access\<rparr>" and
    st': "st' = st\<lparr>gs_snapshots := gs_snapshots st @ [s],
              gs_events := gs_events st @ [\<lparr>ev_sequence = int (length (gs_events st)) + 1, ev_kind = EV_PUBLISHED,
                         ev_snapshot_id = ph pack, ev_occurred_at = clk 2,
                         ev_effective_from = pk_effective_from pack, ev_actor = ac_user_id access,
                         ev_reason = de_reason (dd_edit d)\<rparr>]\<rparr>"
    by (rule published_Inr)
  note new = published_pack [OF assms(1) p pack]
  note h = assms(1) [unfolded history_ok_def]
  from h have ne: "gs_snapshots st \<noteq> []" and head: "last (gs_snapshots st) = head_snapshot st"
    by (auto simp: head_snapshot_def nth_append)
  have snaps: "gs_snapshots st' = gs_snapshots st @ [s]" "gs_revoked st' = gs_revoked st" by (simp_all add: st')
  have evs: "length (gs_events st') = Suc (length (gs_events st))" by (simp add: st')
  have "snapshot_ok ph st s" using new by (simp add: snapshot_ok_def s)
  moreover have "snapshot_ok ph st' = snapshot_ok ph st" by (rule snapshot_ok_cong) (simp add: st')
  ultimately have 1: "\<forall>s\<in>set (gs_snapshots st'). snapshot_ok ph st' s" using h by (simp add: snaps)
  have 2: "sorted (map effective_of (gs_snapshots st'))"
    unfolding snaps map_append list.map
    using h ne by (intro sorted_snoc) (simp_all add: last_map head s pack effective_of_def)
  have 3: "sorted_wrt (<) (map sn_sequence (gs_snapshots st'))"
    unfolding snaps map_append list.map
    using h ne by (intro strict_sorted_snoc) (simp_all add: last_map s)
  have 4: "sorted_wrt (<) (map (\<lambda>s. version_total (sn_pack s)) (gs_snapshots st'))"
    unfolding snaps map_append list.map
    using h ne new(4) by (intro strict_sorted_snoc) (simp_all add: last_map head s)
  have 5: "publication_events st' = map sn_snapshot_id (tl (gs_snapshots st'))"
    using h ne by (simp add: publication_events_def st' s)
  have "map ev_sequence (gs_events st') = map ev_sequence (gs_events st) @ [int (length (gs_events st)) + 1]"
    by (simp add: st')
  then have 6: "map ev_sequence (gs_events st') = map int [1..<Suc (length (gs_events st'))]"
    using h unfolding evs upto_snoc by presburger
  have 7: "gs_revoked st' \<subseteq> sn_snapshot_id ` set (gs_snapshots st')" using h by (auto simp: snaps)
  have 8: "sn_sequence (last (gs_snapshots st')) \<le> int (length (gs_events st'))" by (simp add: snaps evs s)
  have 9: "gs_snapshots st' \<noteq> []" "length (gs_snapshots st') \<le> 64" using small by (simp_all add: snaps)
  from 1 2 3 4 5 6 7 8 9 show ?thesis unfolding history_ok_def by blast
qed

lemma acted_history:
  assumes "history_ok ph st" "acted ph gv clk access action note d st = Inr (st', d')"
  shows "history_ok ph st'"
proof (cases "action = PUBLISH_DRAFT")
  case True
  with assms(2) have "published ph clk access note d st = Inr (st', d')" by (simp add: acted_def)
  with published_history [OF assms(1)] show ?thesis .
next
  case False
  with assms(2) have "st' = st" by (cases action) (simp_all add: acted_def split: if_splits)
  with assms(1) show ?thesis by simp
qed

lemma history_ok_drafts [simp]: "history_ok ph (st\<lparr>gs_drafts := ds\<rparr>) = history_ok ph st"
  "history_ok ph (st\<lparr>gs_revision := n\<rparr>) = history_ok ph st"
  by (simp_all add: history_ok_def publication_events_def snapshot_ok_def)

lemma revoked_history:
  assumes "history_ok ph st" "snapshot_revoked gv clk access sid expected note st = Inr st'"
  shows "history_ok ph st'"
proof -
  from assms(2) have sid: "sid \<in> sn_snapshot_id ` set (gs_snapshots st)" and
    st': "st' = st\<lparr>gs_revoked := insert sid (gs_revoked st),
                   gs_events := gs_events st @ [\<lparr>ev_sequence = int (length (gs_events st)) + 1,
                     ev_kind = EV_REVOKED, ev_snapshot_id = sid, ev_occurred_at = clk 0,
                     ev_effective_from = clk 1, ev_actor = ac_user_id access, ev_reason = note\<rparr>]\<rparr>"
    by (auto elim: snapshot_revoked_Inr)
  note h = assms(1) [unfolded history_ok_def]
  have 1: "snapshot_ok ph st' = snapshot_ok ph st" by (rule snapshot_ok_cong) (simp add: st')
  have 2: "publication_events st' = publication_events st" by (simp add: publication_events_def st')
  have evs: "length (gs_events st') = Suc (length (gs_events st))" by (simp add: st')
  have "map ev_sequence (gs_events st') = map ev_sequence (gs_events st) @ [int (length (gs_events st)) + 1]"
    by (simp add: st')
  then have 3: "map ev_sequence (gs_events st') = map int [1..<Suc (length (gs_events st'))]"
    using h unfolding evs upto_snoc by presburger
  have 4: "gs_snapshots st' = gs_snapshots st" "gs_revoked st' = insert sid (gs_revoked st)" by (simp_all add: st')
  show ?thesis using h sid 3 unfolding history_ok_def 1 2 4 evs by auto
qed

lemma seed_history:
  assumes "make_snapshot (ph pack) 0 pack stamp ''approved-bootstrap'' = Inr s" "pack_wf pack"
  shows "history_ok ph (seed_state ph pack s)"
  using assms by (auto simp: make_snapshot_def history_ok_def seed_state_def snapshot_ok_def publication_events_def
      split: if_splits)

lemma reach_history: "gov_reach ph gv st \<Longrightarrow> history_ok ph st"
proof (induction rule: gov_reach.induct)
  case (opened pack stamp s)
  then show ?case by (simp add: seed_history)
next
  case (created st clk fresh access e st' d)
  then show ?case using draft_created_Inr [OF created(2)] by simp
next
  case (moved st clk access did action expected msg st' d'')
  from moved(2) show ?case by (rule draft_moved_Inr) (use acted_history [OF moved(3)] in auto)
next
  case (revoked st clk access sid expected msg st')
  then show ?case using revoked_history by simp
qed

lemma acted_cases:
  assumes "acted ph gv clk access action note d st = Inr (st', d')"
  obtains (submit) "action = SUBMIT" "dd_author d = ac_user_id access" "st' = st"
      "d' = d\<lparr>dd_status := IN_REVIEW, dd_submission_note := Some note\<rparr>"
  | (review) s where "action \<in> {APPROVE, REJECT}" "gv_separate_reviewer gv \<longrightarrow> dd_author d \<noteq> ac_user_id access" "st' = st"
      "s = (if action = APPROVE then APPROVED else REJECTED)"
      "d' = d\<lparr>dd_reviewer := Some (ac_user_id access), dd_review_note := Some note, dd_status := s\<rparr>"
  | (publish) "action = PUBLISH_DRAFT" "published ph clk access note d st = Inr (st', d')"
  using assms by (cases action) (simp_all add: acted_def split: if_splits)

lemma published_snapshots:
  assumes "published ph clk access note d st = Inr (st', d')"
  obtains s i where "gs_snapshots st' = gs_snapshots st @ [s]" "gs_drafts st' = gs_drafts st" "sn_snapshot_id s = i"
    "d' = d\<lparr>dd_status := PUBLISHED, dd_published_snapshot_id := Some i, dd_publication_note := Some note\<rparr>"
  using assms
proof (rule published_Inr)
  fix pack s
  assume s: "s = \<lparr>sn_snapshot_id = ph pack, sn_sequence = int (length (gs_events st)) + 1, sn_pack = pack,
         sn_published_at = clk 1, sn_published_by = ac_user_id access\<rparr>" and
    st': "st' = st\<lparr>gs_snapshots := gs_snapshots st @ [s],
              gs_events := gs_events st @ [\<lparr>ev_sequence = int (length (gs_events st)) + 1, ev_kind = EV_PUBLISHED,
                         ev_snapshot_id = ph pack, ev_occurred_at = clk 2,
                         ev_effective_from = pk_effective_from pack, ev_actor = ac_user_id access,
                         ev_reason = de_reason (dd_edit d)\<rparr>]\<rparr>" and
    d': "d' = d\<lparr>dd_status := PUBLISHED, dd_published_snapshot_id := Some (ph pack), dd_publication_note := Some note\<rparr>"
  have "gs_snapshots st' = gs_snapshots st @ [s]" "gs_drafts st' = gs_drafts st" "sn_snapshot_id s = ph pack"
    by (simp_all add: st' s)
  then show thesis using d' by (rule that)
qed

lemma acted_drafts:
  assumes "acted ph gv clk access action note d st = Inr (st', d')" "gs_snapshots st \<noteq> []"
    and "draft_ok gv st d" "dd_status d = required_status action"
  shows "draft_ok gv st' (d'\<lparr>dd_revision := dd_revision d + 1\<rparr>)" "gs_drafts st' = gs_drafts st"
    and "set (tl (gs_snapshots st)) \<subseteq> set (tl (gs_snapshots st'))"
    and "length (gs_snapshots st') = length (gs_snapshots st) + (if dd_status d' = PUBLISHED then 1 else 0)"
proof -
  have "draft_ok gv st' (d'\<lparr>dd_revision := dd_revision d + 1\<rparr>) \<and> gs_drafts st' = gs_drafts st
    \<and> set (tl (gs_snapshots st)) \<subseteq> set (tl (gs_snapshots st'))
    \<and> length (gs_snapshots st') = length (gs_snapshots st) + (if dd_status d' = PUBLISHED then 1 else 0)"
    using assms(1)
  proof (cases rule: acted_cases)
    case submit
    with assms(3,4) show ?thesis
      by (auto simp: draft_ok_def status_revision_def required_status_def split: option.splits)
  next
    case (review s)
    with assms(3,4) show ?thesis
      by (auto simp: draft_ok_def status_revision_def required_status_def split: option.splits)
  next
    case publish
    from publish(2) obtain s i where p: "gs_snapshots st' = gs_snapshots st @ [s]" "gs_drafts st' = gs_drafts st"
      "sn_snapshot_id s = i"
      "d' = d\<lparr>dd_status := PUBLISHED, dd_published_snapshot_id := Some i, dd_publication_note := Some note\<rparr>"
      by (rule published_snapshots)
    with assms(2,3,4) publish(1) show ?thesis
      by (auto simp: draft_ok_def status_revision_def required_status_def tl_append split: list.splits)
  qed
  then show "draft_ok gv st' (d'\<lparr>dd_revision := dd_revision d + 1\<rparr>)" "gs_drafts st' = gs_drafts st"
    "set (tl (gs_snapshots st)) \<subseteq> set (tl (gs_snapshots st'))"
    "length (gs_snapshots st') = length (gs_snapshots st) + (if dd_status d' = PUBLISHED then 1 else 0)" by blast+
qed

lemma draft_ok_mono:
  "draft_ok gv st d \<Longrightarrow> set (tl (gs_snapshots st)) \<subseteq> set (tl (gs_snapshots st')) \<Longrightarrow> draft_ok gv st' d"
  by (auto simp: draft_ok_def split: option.splits)

lemma draft_ok_cong [simp]:
  "draft_ok gv (st\<lparr>gs_drafts := ds\<rparr>) = draft_ok gv st" "draft_ok gv (st\<lparr>gs_revision := n\<rparr>) = draft_ok gv st"
  by (rule ext, simp add: draft_ok_def cong: option.case_cong)+

lemma drafts_ok_revision [simp]: "drafts_ok gv (st\<lparr>gs_revision := n\<rparr>) = drafts_ok gv st"
  by (simp add: drafts_ok_def)

lemma moved_drafts:
  assumes "drafts_ok gv st" "gs_snapshots st \<noteq> []"
    and "draft_moved ph gv clk access did action expected note st = Inr (st', d'')"
  shows "drafts_ok gv st'"
  using assms(3)
proof (rule draft_moved_Inr)
  fix d st1 d'
  assume find: "List.find (\<lambda>d. dd_draft_id d = did) (gs_drafts st) = Some d"
    and status: "dd_status d = required_status action"
    and act: "acted ph gv clk access action note d st = Inr (st1, d')"
    and d'': "d'' = d'\<lparr>dd_revision := dd_revision d + 1\<rparr>"
    and st': "st' = st1\<lparr>gs_drafts := update_first (\<lambda>x. dd_draft_id x = did) (\<lambda>_. d'') (gs_drafts st)\<rparr>"
  let ?Q = "\<lambda>d. dd_status d = PUBLISHED"
  from find_SomeD [OF find] assms(1) have ok: "draft_ok gv st d" by (simp add: drafts_ok_def)
  note a = acted_drafts [OF act assms(2) ok status]
  have old: "\<not> ?Q d" using status by (cases action) (simp_all add: required_status_def)
  have new: "?Q d'' \<longleftrightarrow> ?Q d'" by (simp add: d'')
  have "x \<in> set (gs_drafts st') \<Longrightarrow> draft_ok gv st1 x" for x
    using set_update_first [of "\<lambda>x. dd_draft_id x = did" "\<lambda>_. d''" "gs_drafts st"] a(1) assms(1) draft_ok_mono [OF _ a(3)]
    by (auto simp: st' d'' drafts_ok_def)
  moreover have "length (filter ?Q (gs_drafts st')) + 1 = length (gs_snapshots st')"
    using length_filter_update_first [OF find, of ?Q d''] old new a(4) assms(1)
    by (simp add: st' drafts_ok_def split: if_splits)
  ultimately show ?thesis using assms(1) by (simp add: drafts_ok_def st')
qed

lemma reach_drafts: "gov_reach ph gv st \<Longrightarrow> drafts_ok gv st"
proof (induction rule: gov_reach.induct)
  case (opened pack stamp s)
  then show ?case by (simp add: seed_state_def drafts_ok_def)
next
  case (created st clk fresh access e st' d)
  from draft_created_Inr [OF created(2)] created(3) show ?case
    by (auto simp: drafts_ok_def draft_ok_def status_revision_def)
next
  case (moved st clk access did action expected msg st' d'')
  have "gs_snapshots st \<noteq> []" using reach_history [OF moved(1)] by (simp add: history_ok_def)
  from moved_drafts [OF moved(3) this moved(2)] show ?case by simp
next
  case (revoked st clk access sid expected msg st')
  from revoked(2) show ?case
  proof (rule snapshot_revoked_Inr)
    assume st': "st' = st\<lparr>gs_revoked := insert sid (gs_revoked st),
                   gs_events := gs_events st @ [\<lparr>ev_sequence = int (length (gs_events st)) + 1,
                     ev_kind = EV_REVOKED, ev_snapshot_id = sid, ev_occurred_at = clk 0,
                     ev_effective_from = clk 1, ev_actor = ac_user_id access, ev_reason = msg\<rparr>]\<rparr>"
    have "draft_ok gv st' d \<longleftrightarrow> draft_ok gv st d" for d by (simp add: draft_ok_def st' cong: option.case_cong)
    with revoked(3) show ?thesis by (simp add: drafts_ok_def st')
  qed
qed

text \<open>The snapshots after the bootstrap are, one for one and in order, the publications of the published drafts: each is the
  edit of its draft applied to the snapshot before it, which the draft names as its base, stamped with its number and an
  effective date; and the draft names it.\<close>

definition publication_of :: "nat \<Rightarrow> DefinitionSnapshot \<Rightarrow> DefinitionSnapshot \<Rightarrow> DefinitionDraft \<Rightarrow> bool" where
  "publication_of n before s d \<longleftrightarrow> dd_published_snapshot_id d = Some (sn_snapshot_id s)
     \<and> de_base_snapshot_id (dd_edit d) = sn_snapshot_id before \<and> effective_of before \<le> effective_of s
     \<and> (\<exists>p. apply_edit (sn_pack before) (dd_edit d) = Inr p
          \<and> sn_pack s = p\<lparr>pk_version := ''publication-'' @ nat_str (int n), pk_effective_from := effective_of s\<rparr>)"

definition publications_matched :: "GovernanceState \<Rightarrow> bool" where
  "publications_matched st \<longleftrightarrow>
     (\<exists>ds. mset ds = mset (filter (\<lambda>d. dd_status d = PUBLISHED) (gs_drafts st)) \<and> length (gs_snapshots st) = length ds + 1
        \<and> (\<forall>i<length ds. publication_of (i + 2) (gs_snapshots st ! i) (gs_snapshots st ! (i + 1)) (ds ! i)))"

lemma mset_filter_update_first:
  "List.find P xs = Some d \<Longrightarrow> \<not> Q d \<Longrightarrow> mset (filter Q (update_first P (\<lambda>_. d') xs))
     = mset (filter Q xs) + (if Q d' then {#d'#} else {#})"
  by (induction xs) (auto split: if_splits)

lemma matched_moved:
  assumes "publications_matched st" "draft_moved ph gv clk access did action expected note st = Inr (st', d'')"
  shows "publications_matched st'"
  using assms(2)
proof (rule draft_moved_Inr)
  fix d st1 d'
  assume find: "List.find (\<lambda>d. dd_draft_id d = did) (gs_drafts st) = Some d"
    and status: "dd_status d = required_status action"
    and act: "acted ph gv clk access action note d st = Inr (st1, d')"
    and d'': "d'' = d'\<lparr>dd_revision := dd_revision d + 1\<rparr>"
    and st': "st' = st1\<lparr>gs_drafts := update_first (\<lambda>x. dd_draft_id x = did) (\<lambda>_. d'') (gs_drafts st)\<rparr>"
  let ?Q = "\<lambda>d. dd_status d = PUBLISHED"
  from assms(1) obtain ds where ds: "mset ds = mset (filter ?Q (gs_drafts st))" "length (gs_snapshots st) = length ds + 1"
    "\<forall>i<length ds. publication_of (i + 2) (gs_snapshots st ! i) (gs_snapshots st ! (i + 1)) (ds ! i)"
    by (auto simp: publications_matched_def)
  have old: "\<not> ?Q d" using status by (cases action) (simp_all add: required_status_def)
  note upd = mset_filter_update_first [OF find, of ?Q, OF old, of d'']
  show ?thesis
  proof (cases "action = PUBLISH_DRAFT")
    case False
    with act have "gs_snapshots st1 = gs_snapshots st \<and> \<not> ?Q d''"
      using old by (cases action) (auto simp: acted_def d'' split: if_splits)
    with ds upd show ?thesis by (auto simp: publications_matched_def st')
  next
    case True
    with act have "published ph clk access note d st = Inr (st1, d')" by (simp add: acted_def)
    then show ?thesis
    proof (rule published_Inr)
      fix p pack s
      assume base: "de_base_snapshot_id (dd_edit d) = sn_snapshot_id (head_snapshot st)"
        and p: "apply_edit (sn_pack (head_snapshot st)) (dd_edit d) = Inr p"
        and pack: "pack = p\<lparr>pk_version := ''publication-'' @ nat_str (int (length (gs_snapshots st)) + 1),
                        pk_effective_from := max (max (de_effective_from (dd_edit d)) (clk 0))
                          (effective_of (head_snapshot st))\<rparr>"
        and s: "s = \<lparr>sn_snapshot_id = ph pack, sn_sequence = int (length (gs_events st)) + 1, sn_pack = pack,
         sn_published_at = clk 1, sn_published_by = ac_user_id access\<rparr>"
        and st1: "st1 = st\<lparr>gs_snapshots := gs_snapshots st @ [s],
              gs_events := gs_events st @ [\<lparr>ev_sequence = int (length (gs_events st)) + 1, ev_kind = EV_PUBLISHED,
                         ev_snapshot_id = ph pack, ev_occurred_at = clk 2,
                         ev_effective_from = pk_effective_from pack, ev_actor = ac_user_id access,
                         ev_reason = de_reason (dd_edit d)\<rparr>]\<rparr>"
        and d': "d' = d\<lparr>dd_status := PUBLISHED, dd_published_snapshot_id := Some (ph pack), dd_publication_note := Some note\<rparr>"
      have head: "head_snapshot st = gs_snapshots st ! length ds"
        using ds(2) by (cases "gs_snapshots st" rule: rev_cases) (auto simp: head_snapshot_def nth_append)
      have n: "int (length ds) + 2 = int (length (gs_snapshots st)) + 1" using ds(2) by simp
      have new: "publication_of (length ds + 2) (gs_snapshots st ! length ds) s d''"
        using base p head n by (auto simp: publication_of_def d'' d' s pack effective_of_def add.commute)
      have "publication_of (i + 2) ((gs_snapshots st @ [s]) ! i) ((gs_snapshots st @ [s]) ! (i + 1)) ((ds @ [d'']) ! i)"
        if "i < length (ds @ [d''])" for i
        using that ds(2,3) new by (cases "i = length ds") (auto simp: nth_append)
      moreover have "mset (ds @ [d'']) = mset (filter ?Q (gs_drafts st'))" using upd ds(1) by (simp add: st' d'' d')
      ultimately show ?thesis using ds(2)
        unfolding publications_matched_def by (intro exI [of _ "ds @ [d'']"]) (simp add: st' st1)
    qed
  qed
qed

lemma reach_matched: "gov_reach ph gv st \<Longrightarrow> publications_matched st"
proof (induction rule: gov_reach.induct)
  case (opened pack stamp s)
  then show ?case by (simp add: seed_state_def publications_matched_def)
next
  case (created st clk fresh access e st' d)
  from draft_created_Inr [OF created(2)] created(3) show ?case by (auto simp: publications_matched_def)
next
  case (moved st clk access did action expected msg st' d'')
  from matched_moved [OF moved(3) moved(2)] show ?case by (simp add: publications_matched_def)
next
  case (revoked st clk access sid expected msg st')
  from revoked(2) show ?case by (rule snapshot_revoked_Inr) (use revoked(3) in \<open>simp add: publications_matched_def\<close>)
qed

text \<open>One successful computation on a loaded workspace, before it is saved.\<close>

inductive gov_step :: "(TenantDomainPack \<Rightarrow> string) \<Rightarrow> governance \<Rightarrow> GovernanceState \<Rightarrow> GovernanceState \<Rightarrow> bool" for ph gv where
  "draft_created gv clk fresh access e st = Inr (st', d) \<Longrightarrow> gov_step ph gv st st'"
| "draft_moved ph gv clk access did action expected note st = Inr (st', d) \<Longrightarrow> gov_step ph gv st st'"
| "snapshot_revoked gv clk access sid expected note st = Inr st' \<Longrightarrow> gov_step ph gv st st'"

lemma reach_step:
  "gov_reach ph gv st \<Longrightarrow> gov_step ph gv st st' \<Longrightarrow> gov_reach ph gv (st'\<lparr>gs_revision := gs_revision st' + 1\<rparr>)"
  by (erule gov_step.cases) (auto intro: gov_reach.intros)

lemma acted_revision: "acted ph gv clk access action note d st = Inr (st', d') \<Longrightarrow> gs_revision st' = gs_revision st"
  by (erule acted_cases, simp, simp, auto elim: published_Inr)

lemma step_revision:
  assumes "gov_step ph gv st st'"
  shows "gs_revision st' = gs_revision st"
  using assms
proof (cases rule: gov_step.cases)
  case (1 clk fresh access e d)
  from draft_created_Inr [OF this] show ?thesis by simp
next
  case (2 clk access did action expected msg d)
  then show ?thesis by (rule draft_moved_Inr) (use acted_revision in auto)
next
  case (3 clk access sid expected msg)
  then show ?thesis by (rule snapshot_revoked_Inr) simp
qed

subsection \<open>The contract of a journal\<close>

text \<open>A journal holds one state per namespace: seeding keeps what is there, a save succeeds exactly at
  the stored revision and stores the next one, and no operation touches another namespace.
  \<open>storable\<close> are the states the journal can give back.\<close>

locale definition_journal =
  fixes J :: "'db journal"
    and present :: "string \<Rightarrow> 'db \<Rightarrow> bool"
    and storable :: "GovernanceState \<Rightarrow> bool"
  assumes seed_present: "present ns db \<Longrightarrow> j_seed J ns st db = db"
    and seed_absent: "\<not> present ns db \<Longrightarrow> storable st \<Longrightarrow> j_read J ns (j_seed J ns st db) = Inr st"
    and seed_frame: "ns \<noteq> ns' \<Longrightarrow> j_read J ns' (j_seed J ns st db) = j_read J ns' db"
    and read_present: "j_read J ns db = Inr st \<Longrightarrow> present ns db"
    and save_hit: "j_read J ns db = Inr cur \<Longrightarrow> storable (st\<lparr>gs_revision := gs_revision cur + 1\<rparr>) \<Longrightarrow>
      \<exists>db'. j_save J ns st (gs_revision cur) db = Inr db' \<and> j_read J ns db' = Inr (st\<lparr>gs_revision := gs_revision cur + 1\<rparr>)"
    and save_miss: "j_read J ns db = Inr cur \<Longrightarrow> n \<noteq> gs_revision cur \<Longrightarrow>
      j_save J ns st n db = Inl (Conflict ''Definitions changed. Refresh before retrying.'')"
    and save_frame: "ns \<noteq> ns' \<Longrightarrow> j_save J ns st n db = Inr db' \<Longrightarrow> j_read J ns' db' = j_read J ns' db"
    and delete_frame: "ns \<noteq> ns' \<Longrightarrow> j_read J ns' (j_delete J ns db) = j_read J ns' db"
    and delete_absent: "\<not> present ns (j_delete J ns db)"
begin

lemma save_revision:
  assumes "j_read J ns db = Inr cur" "j_save J ns st n db = Inr db'"
  shows "n = gs_revision cur"
  using save_miss [OF assms(1), of n st] assms(2) by force

lemma commit_at_read:
  assumes "j_read J (gv_namespace gv) db = Inr st" "gov_step ph gv st st'"
    and "storable (st'\<lparr>gs_revision := gs_revision st' + 1\<rparr>)"
  shows "\<exists>db'. commit J gv st' r db = Inr (db', r)
    \<and> j_read J (gv_namespace gv) db' = Inr (st'\<lparr>gs_revision := gs_revision st' + 1\<rparr>)"
proof -
  note rev = step_revision [OF assms(2)]
  from save_hit [OF assms(1), of st'] assms(3) rev obtain db' where
    "j_save J (gv_namespace gv) st' (gs_revision st') db = Inr db'"
    "j_read J (gv_namespace gv) db' = Inr (st'\<lparr>gs_revision := gs_revision st' + 1\<rparr>)" by auto
  then show ?thesis by (simp add: commit_def)
qed

lemma commit_stale:
  assumes "j_read J (gv_namespace gv) db = Inr cur" "gs_revision st' \<noteq> gs_revision cur"
  shows "commit J gv st' r db = Inl (Conflict ''Definitions changed. Refresh before retrying.'')"
  using save_miss [OF assms] by (simp add: commit_def)

lemma commit_frame:
  assumes "commit J gv st' r db = Inr (db', r')" "ns \<noteq> gv_namespace gv"
  shows "j_read J ns db' = j_read J ns db"
  using assms(1) save_frame [OF assms(2) [symmetric]] by (auto simp: commit_def split: sum.splits)

end

subsection \<open>Concurrent stewards\<close>

text \<open>Several workers share a journal: each loads the workspace, computes, and saves later.  A world is the
  database and the computations in flight, each with the state it loaded and its result.\<close>

inductive gov_world :: "'db journal \<Rightarrow> (TenantDomainPack \<Rightarrow> string) \<Rightarrow> governance \<Rightarrow> 'db
    \<Rightarrow> (GovernanceState \<times> GovernanceState) set \<Rightarrow> bool" for J ph gv where
  start: "j_read J (gv_namespace gv) db = Inr st \<Longrightarrow> gov_reach ph gv st \<Longrightarrow> gov_world J ph gv db {}"
| load: "gov_world J ph gv db flights \<Longrightarrow> j_read J (gv_namespace gv) db = Inr st \<Longrightarrow> gov_step ph gv st st'
    \<Longrightarrow> gov_world J ph gv db (insert (st, st') flights)"
| save: "gov_world J ph gv db flights \<Longrightarrow> (st, st') \<in> flights \<Longrightarrow> commit J gv st' () db = Inr (db', ())
    \<Longrightarrow> gov_world J ph gv db' (flights - {(st, st')})"
| drop: "gov_world J ph gv db flights \<Longrightarrow> gov_world J ph gv db (flights - {(st, st')})"

context definition_journal
begin

lemma world_serial:
  assumes "gov_world J ph gv db flights" "\<And>st. history_ok ph st \<Longrightarrow> storable st"
  shows "\<exists>cur. j_read J (gv_namespace gv) db = Inr cur \<and> gov_reach ph gv cur
    \<and> (\<forall>(st, st')\<in>flights. gov_step ph gv st st' \<and> gs_revision st \<le> gs_revision cur
         \<and> (gs_revision st = gs_revision cur \<longrightarrow> st = cur))"
  using assms(1)
proof (induction rule: gov_world.induct)
  case (start db st)
  then show ?case by auto
next
  case (load db flights st st')
  then show ?case by auto
next
  case (save db flights st st' db')
  then obtain cur where cur: "j_read J (gv_namespace gv) db = Inr cur" "gov_reach ph gv cur"
    and fl: "\<forall>(st, st')\<in>flights. gov_step ph gv st st' \<and> gs_revision st \<le> gs_revision cur
         \<and> (gs_revision st = gs_revision cur \<longrightarrow> st = cur)" by blast
  from bspec [OF fl save(2)] have step: "gov_step ph gv st st'" and same: "gs_revision st = gs_revision cur \<Longrightarrow> st = cur"
    by simp_all
  have "gs_revision st' = gs_revision cur"
  proof (rule ccontr)
    assume "gs_revision st' \<noteq> gs_revision cur"
    from commit_stale [OF cur(1) this, of "()"] save(3) show False by simp
  qed
  with step_revision [OF step] have "gs_revision st = gs_revision cur" by (rule trans [OF sym])
  then have st: "st = cur" by (rule same)
  let ?new = "st'\<lparr>gs_revision := gs_revision st' + 1\<rparr>"
  from reach_step [OF cur(2)] step st have reach: "gov_reach ph gv ?new" by blast
  from commit_at_read [OF cur(1) step [unfolded st] assms(2) [OF reach_history [OF reach]], of "()"]
  obtain db2 where "commit J gv st' () db = Inr (db2, ())" "j_read J (gv_namespace gv) db2 = Inr ?new" by blast
  with save(3) have read: "j_read J (gv_namespace gv) db' = Inr ?new" by simp
  have rev: "gs_revision ?new = gs_revision cur + 1" using step_revision [OF step] unfolding st by simp
  have "gov_step ph gv a b \<and> gs_revision a \<le> gs_revision ?new \<and> (gs_revision a = gs_revision ?new \<longrightarrow> a = ?new)"
    if "(a, b) \<in> flights - {(st, st')}" for a b
  proof -
    from that fl have "gov_step ph gv a b" "gs_revision a \<le> gs_revision cur" by blast+
    with rev show ?thesis by simp
  qed
  with read reach show ?case by blast
next
  case (drop db flights st st')
  then show ?case by blast
qed

end

end
