(* ===== verification/DefinitionStore.thy ===== *)
theory DefinitionStore
  imports Governance
begin

section \<open>DefinitionStore: the SQLite compare-and-swap journal\<close>

text \<open>
  \<open>services/definition_store.py\<close>: the table \<open>definition_streams\<close> as a map from namespaces to a revision
  and a payload.  Writing a state as JSON and validating it back are the parameter \<open>codec\<close>
  (pydantic's \<open>model_dump_json\<close> and \<open>model_validate_json\<close>, \<open>None\<close> for a validation error).  The
  theory interprets the journal contract and states the properties of governance over this store.
\<close>

record 'p codec =
  cx_dump :: "GovernanceState \<Rightarrow> 'p"
  cx_load :: "'p \<Rightarrow> GovernanceState option"

type_synonym 'p definition_streams = "string \<rightharpoonup> int \<times> 'p"

definition integrity_ok :: "(TenantDomainPack \<Rightarrow> string) \<Rightarrow> int \<Rightarrow> GovernanceState \<Rightarrow> bool" where
  "integrity_ok ph stored st \<longleftrightarrow> gs_revision st = stored \<and> gs_snapshots st \<noteq> []
     \<and> (\<forall>s\<in>set (gs_snapshots st). sn_snapshot_id s = ph (sn_pack s))"

definition store_seed :: "'p codec \<Rightarrow> string \<Rightarrow> GovernanceState \<Rightarrow> 'p definition_streams \<Rightarrow> 'p definition_streams" where
  "store_seed cx ns st db = (if db ns \<noteq> None then db else db(ns \<mapsto> (gs_revision st, cx_dump cx st)))"

definition store_read :: "'p codec \<Rightarrow> (TenantDomainPack \<Rightarrow> string) \<Rightarrow> string \<Rightarrow> 'p definition_streams \<Rightarrow> gov_error + GovernanceState" where
  "store_read cx ph ns db =
     (case db ns of None \<Rightarrow> Inl (Unavailable ''Definition workspace is unavailable.'')
      | Some (stored, payload) \<Rightarrow>
        (case cx_load cx payload of None \<Rightarrow> Inl (Unavailable ''Definition snapshot integrity failed.'')
         | Some st \<Rightarrow> if integrity_ok ph stored st then Inr st
                     else Inl (Unavailable ''Definition snapshot integrity failed.'')))"

definition store_save :: "'p codec \<Rightarrow> string \<Rightarrow> GovernanceState \<Rightarrow> int \<Rightarrow> 'p definition_streams \<Rightarrow> gov_error + 'p definition_streams" where
  "store_save cx ns st expected db =
     (let st' = st\<lparr>gs_revision := expected + 1\<rparr>
      in case db ns of
           Some (stored, _) \<Rightarrow>
             if stored = expected then Inr (db(ns \<mapsto> (gs_revision st', cx_dump cx st')))
             else Inl (Conflict ''Definitions changed. Refresh before retrying.'')
         | None \<Rightarrow> Inl (Conflict ''Definitions changed. Refresh before retrying.''))"

definition store_delete :: "string \<Rightarrow> 'p definition_streams \<Rightarrow> 'p definition_streams" where
  "store_delete ns db = db(ns := None)"

definition sqlite_journal :: "'p codec \<Rightarrow> (TenantDomainPack \<Rightarrow> string) \<Rightarrow> 'p definition_streams journal" where
  "sqlite_journal cx ph = \<lparr>j_seed = store_seed cx, j_read = store_read cx ph, j_save = store_save cx, j_delete = store_delete\<rparr>"

lemma sqlite_journal_sel [simp]:
  "j_seed (sqlite_journal cx ph) = store_seed cx" "j_read (sqlite_journal cx ph) = store_read cx ph"
  "j_save (sqlite_journal cx ph) = store_save cx" "j_delete (sqlite_journal cx ph) = store_delete"
  by (simp_all add: sqlite_journal_def)

text \<open>A state can be given back when its text loads to itself and its snapshots carry their digests.\<close>

definition storable_in :: "'p codec \<Rightarrow> (TenantDomainPack \<Rightarrow> string) \<Rightarrow> GovernanceState \<Rightarrow> bool" where
  "storable_in cx ph st \<longleftrightarrow> cx_load cx (cx_dump cx st) = Some st \<and> integrity_ok ph (gs_revision st) st"

interpretation sq: definition_journal "sqlite_journal cx ph" "\<lambda>ns db. db ns \<noteq> None" "storable_in cx ph"
proof unfold_locales
  fix ns db st cur
  assume r: "j_read (sqlite_journal cx ph) ns db = Inr cur"
    and s: "storable_in cx ph (st\<lparr>gs_revision := gs_revision cur + 1\<rparr>)"
  from r obtain p where "db ns = Some (gs_revision cur, p)"
    by (auto simp: store_read_def integrity_ok_def split: option.splits if_splits)
  with s show "\<exists>db'. j_save (sqlite_journal cx ph) ns st (gs_revision cur) db = Inr db' \<and>
      j_read (sqlite_journal cx ph) ns db' = Inr (st\<lparr>gs_revision := gs_revision cur + 1\<rparr>)"
    by (simp add: store_save_def store_read_def storable_in_def Let_def)
next
  fix ns db cur n st
  assume r: "j_read (sqlite_journal cx ph) ns db = Inr cur" and n: "n \<noteq> gs_revision cur"
  from r obtain p where "db ns = Some (gs_revision cur, p)"
    by (auto simp: store_read_def integrity_ok_def split: option.splits if_splits)
  with n show "j_save (sqlite_journal cx ph) ns st n db = Inl (Conflict ''Definitions changed. Refresh before retrying.'')"
    by (simp add: store_save_def Let_def)
qed (auto simp: store_seed_def store_read_def store_save_def store_delete_def storable_in_def Let_def
      split: option.splits if_splits)

lemma history_integrity: "history_ok ph st \<Longrightarrow> integrity_ok ph (gs_revision st) st"
  by (simp add: history_ok_def integrity_ok_def snapshot_ok_def)

text \<open>Named hypothesis on pydantic: the text of every state governance builds loads back to it.\<close>

definition codec_faithful :: "'p codec \<Rightarrow> (TenantDomainPack \<Rightarrow> string) \<Rightarrow> bool" where
  "codec_faithful cx ph \<longleftrightarrow> (\<forall>st. history_ok ph st \<longrightarrow> cx_load cx (cx_dump cx st) = Some st)"

lemma faithful_storable: "codec_faithful cx ph \<Longrightarrow> history_ok ph st \<Longrightarrow> storable_in cx ph st"
  by (simp add: codec_faithful_def storable_in_def history_integrity)

subsection \<open>A workspace for the witnesses\<close>

definition identity_codec :: "GovernanceState codec" where
  "identity_codec = \<lparr>cx_dump = (\<lambda>st. st), cx_load = Some\<rparr>"

lemma identity_codec_faithful: "codec_faithful identity_codec ph"
  by (simp add: codec_faithful_def identity_codec_def)

text \<open>A stand-in digest: the version text of the pack, distinct along any history.\<close>

definition version_digest :: "TenantDomainPack \<Rightarrow> string" where
  "version_digest p = pk_version p"

definition demo_governance :: governance where
  "demo_governance = \<lparr>gv_namespace = ''demo'', gv_tenant_id = ''demo-telecom'', gv_separate_reviewer = True\<rparr>"

definition steward :: "string \<Rightarrow> AccessContext" where
  "steward name = analyst\<lparr>ac_user_id := name, ac_clearance := CONFIDENTIAL,
     ac_actions := {READ_DATA_ACTION, EDIT, REVIEW, PUBLISH, REVOKE}\<rparr>"

definition demo_edit :: DefinitionEdit where
  "demo_edit = \<lparr>de_base_snapshot_id = ''2026.08.3'', de_kind = KIND_METRIC, de_definition_id = ''POSTPAID_CHURN'',
     de_name = ''Churn Rate'', de_definition = ''Disconnects over base.'', de_owner = ''Data Office'',
     de_aliases = [''attrition''], de_reason = ''Naming'', de_effective_from = 40\<rparr>"

definition demo_seed :: GovernanceState where
  "demo_seed = seed_state version_digest demo_pack \<lparr>sn_snapshot_id = ''2026.08.3'', sn_sequence = 0, sn_pack = demo_pack,
     sn_published_at = 10, sn_published_by = ''approved-bootstrap''\<rparr>"

lemma demo_seed_reach: "gov_reach version_digest demo_governance demo_seed"
  unfolding demo_seed_def
  by (rule gov_reach.opened [where stamp = 10])
     (simp_all add: make_snapshot_def version_digest_def demo_pack_wf, simp_all add: demo_pack_def demo_governance_def)

text \<open>Ana drafts and submits, Ben approves and publishes.\<close>

definition after :: "gov_error + (GovernanceState \<times> DefinitionDraft) \<Rightarrow> GovernanceState" where
  "after r = (case r of Inr (st, _) \<Rightarrow> st\<lparr>gs_revision := gs_revision st + 1\<rparr> | Inl _ \<Rightarrow> demo_seed)"

definition demo_drafted :: "gov_error + (GovernanceState \<times> DefinitionDraft)" where
  "demo_drafted = draft_created demo_governance (\<lambda>k. 20 + int k) ''d1'' (steward ''ana'') demo_edit demo_seed"

definition demo_submitted :: "gov_error + (GovernanceState \<times> DefinitionDraft)" where
  "demo_submitted = draft_moved version_digest demo_governance (\<lambda>k. 25 + int k) (steward ''ana'') ''d1'' SUBMIT 1 ''please'' (after demo_drafted)"

definition demo_approved :: "gov_error + (GovernanceState \<times> DefinitionDraft)" where
  "demo_approved = draft_moved version_digest demo_governance (\<lambda>k. 30 + int k) (steward ''ben'') ''d1'' APPROVE 2 ''fine'' (after demo_submitted)"

definition demo_published :: "gov_error + (GovernanceState \<times> DefinitionDraft)" where
  "demo_published = draft_moved version_digest demo_governance (\<lambda>k. 35 + int k) (steward ''ben'') ''d1'' PUBLISH_DRAFT 3 ''go'' (after demo_approved)"

lemma demo_steps:
  "is_ok demo_drafted" "is_ok demo_submitted" "is_ok demo_approved" "is_ok demo_published"
  by code_simp+

lemma demo_published_reach: "gov_reach version_digest demo_governance (after demo_published)"
proof -
  from demo_steps(1) obtain s1 d1 where 1: "demo_drafted = Inr (s1, d1)" by (auto simp: is_ok_iff)
  from gov_reach.created [OF demo_seed_reach 1 [unfolded demo_drafted_def]]
  have r1: "gov_reach version_digest demo_governance (after demo_drafted)" by (simp add: after_def 1)
  have step: "gov_reach version_digest demo_governance (after r)"
    if "gov_reach version_digest demo_governance st" "r = draft_moved version_digest demo_governance clk a i act n m st" "is_ok r"
    for st r clk a i act n m
  proof -
    from that(3) obtain s d where r: "r = Inr (s, d)" by (auto simp: is_ok_iff)
    with that(2) have "draft_moved version_digest demo_governance clk a i act n m st = Inr (s, d)" by simp
    from gov_reach.moved [OF that(1) this] show ?thesis by (simp add: after_def r)
  qed
  from step [OF r1 demo_submitted_def demo_steps(2)]
  have r2: "gov_reach version_digest demo_governance (after demo_submitted)" .
  from step [OF r2 demo_approved_def demo_steps(3)]
  have r3: "gov_reach version_digest demo_governance (after demo_approved)" .
  from step [OF r3 demo_published_def demo_steps(4)] show ?thesis .
qed

subsection \<open>The current snapshot\<close>

lemma enumerate_filter_const:
  "map snd (filter (\<lambda>(k, s). P s) (enumerate n ss)) = filter P ss"
  by (induction ss arbitrary: n) auto

lemma eligible_const: "(\<And>k. clk k = t) \<Longrightarrow> eligible clk ss = filter (\<lambda>s. effective_of s \<le> t) ss"
  by (simp add: eligible_def enumerate_filter_const)

lemma newest_from_last:
  assumes "sorted (map effective_of (s # ss))" "sorted_wrt (<) (map sn_sequence (s # ss))"
  shows "newest_from s ss = last (s # ss)"
  using assms
proof (induction ss arbitrary: s)
  case (Cons t ss)
  then have "newer s t" by (auto simp: newer_def)
  moreover have "newest_from t ss = last (t # ss)" using Cons by simp
  ultimately show ?case by simp
qed simp

lemma filtered_orders:
  assumes "sorted (map effective_of ss)" "sorted_wrt (<) (map sn_sequence ss)"
  shows "sorted (map effective_of (filter P ss))" "sorted_wrt (<) (map sn_sequence (filter P ss))"
  using assms by (induction ss) auto

subsection \<open>Properties\<close>

text \<open>An accepted edit changes the one definition it names, raising its version by one, leaves every
  other definition and every identifier, domain, bound and classification as they are, gives it no word
  another definition answers to, and the pack stays well formed.\<close>

theorem edit_changes_one_definition:
  assumes "pack_wf p" "apply_edit p e = Inr q"
  shows "edit_admissible p e \<and> q = (edited p e)\<lparr>pk_status := normalize_status (pk_status p)\<rparr>
    \<and> pack_wf q \<and> version_total q = version_total p + 1"
proof -
  from assms have adm: "edit_admissible p e" and q: "q = (edited p e)\<lparr>pk_status := normalize_status (pk_status p)\<rparr>"
    by (simp_all add: apply_edit_Inr)
  show ?thesis using adm edited_wf [OF assms(1), of e] edited_version [OF assms(1) adm]
    by (simp add: q version_total_def)
qed

lemma demo_edit_applies: "is_ok (apply_edit demo_pack demo_edit)"
  by code_simp

theorem edit_changes_one_definition_witness:
  "\<exists>q. apply_edit demo_pack demo_edit = Inr q \<and> pack_wf q \<and> version_total q = version_total demo_pack + 1"
  using demo_edit_applies edit_changes_one_definition [OF demo_pack_wf] by (auto simp: is_ok_iff)

text \<open>C12: In every workspace that operations can produce, each draft went through its review in order (its
  revision counts the moves), a published or reviewed draft has a reviewer who is not its author when
  reviewers are separate; the snapshots after the bootstrap are, one for one and in order, the publications of
  the published drafts, each the draft's edit applied to the snapshot before it, and each has its event; events
  are numbered without gaps, effective dates never decrease, no two snapshots have the same content, and only
  existing snapshots are revoked.\<close>

theorem publications_are_reviewed:
  assumes "gov_reach ph gv st"
  shows "drafts_ok gv st \<and> publications_matched st \<and> history_ok ph st"
  using reach_drafts [OF assms] reach_matched [OF assms] reach_history [OF assms] by (intro conjI)

theorem publications_are_reviewed_witness:
  "drafts_ok demo_governance (after demo_published) \<and> publications_matched (after demo_published)
    \<and> history_ok version_digest (after demo_published)"
  by (rule publications_are_reviewed [OF demo_published_reach])

text \<open>A draft moves only for a caller of the workspace's own tenant who may read data, holds the action's
  permission and is cleared for every definition of the head; only at the revision the caller saw and
  from the state the action requires; submission is the author's, review somebody else's when reviewers
  are separate; the move raises the draft's revision by one, and publication appends one snapshot and
  one event to a history that otherwise stays as it was.\<close>

theorem transition_follows_lifecycle:
  assumes "draft_moved ph gv clk access did action expected note st = Inr (st', d')"
  shows "manage gv access (action_permission action) st = None
    \<and> (\<exists>d. List.find (\<lambda>d. dd_draft_id d = did) (gs_drafts st) = Some d \<and> dd_revision d = expected
         \<and> dd_status d = required_status action \<and> dd_revision d' = expected + 1 \<and> dd_author d' = dd_author d
         \<and> dd_edit d' = dd_edit d
         \<and> (action = SUBMIT \<longrightarrow> ac_user_id access = dd_author d \<and> dd_status d' = IN_REVIEW)
         \<and> (action \<in> {APPROVE, REJECT} \<longrightarrow> dd_reviewer d' = Some (ac_user_id access)
              \<and> (gv_separate_reviewer gv \<longrightarrow> ac_user_id access \<noteq> dd_author d)
              \<and> dd_status d' = (if action = APPROVE then APPROVED else REJECTED))
         \<and> (action = PUBLISH_DRAFT \<longrightarrow> dd_status d' = PUBLISHED \<and> length (gs_snapshots st) < 64
              \<and> de_base_snapshot_id (dd_edit d) = sn_snapshot_id (head_snapshot st)))
    \<and> (\<exists>ss es. gs_snapshots st' = gs_snapshots st @ ss \<and> gs_events st' = gs_events st @ es \<and> length ss = length es
         \<and> length ss = (if action = PUBLISH_DRAFT then 1 else 0)) \<and> gs_revoked st' = gs_revoked st"
  using assms
proof (rule draft_moved_Inr)
  fix d st1 d1
  assume m: "manage gv access (action_permission action) st = None"
    and find: "List.find (\<lambda>d. dd_draft_id d = did) (gs_drafts st) = Some d" "dd_revision d = expected"
      "dd_status d = required_status action"
    and act: "acted ph gv clk access action note d st = Inr (st1, d1)"
    and d': "d' = d1\<lparr>dd_revision := dd_revision d + 1\<rparr>"
    and st': "st' = st1\<lparr>gs_drafts := update_first (\<lambda>x. dd_draft_id x = did) (\<lambda>_. d') (gs_drafts st)\<rparr>"
  show ?thesis using act
  proof (cases rule: acted_cases)
    case submit
    with m find d' st' show ?thesis by auto
  next
    case (review s)
    with m find d' st' show ?thesis by auto
  next
    case publish
    from publish(2) have "\<exists>s e. gs_snapshots st1 = gs_snapshots st @ [s] \<and> gs_events st1 = gs_events st @ [e]
        \<and> gs_revoked st1 = gs_revoked st \<and> dd_status d1 = PUBLISHED \<and> dd_author d1 = dd_author d \<and> dd_edit d1 = dd_edit d
        \<and> length (gs_snapshots st) < 64 \<and> de_base_snapshot_id (dd_edit d) = sn_snapshot_id (head_snapshot st)"
      by (rule published_Inr) simp
    with m find d' st' publish(1) show ?thesis by auto
  qed
qed

theorem transition_follows_lifecycle_witness:
  "\<exists>st' d'. demo_published = Inr (st', d') \<and> manage demo_governance (steward ''ben'') PUBLISH (after demo_approved) = None
    \<and> dd_revision d' = 4"
proof -
  from demo_steps(4) obtain st' d' where p: "demo_published = Inr (st', d')" by (auto simp: is_ok_iff)
  from transition_follows_lifecycle [OF p [unfolded demo_published_def]] p show ?thesis
    by (auto simp: action_permission_def)
qed

text \<open>At any one time the current definitions are the last published snapshot whose effective date has
  come: publication order and effective dates never disagree.\<close>

theorem current_is_last_effective:
  assumes "gov_reach ph gv st"
  shows "current (\<lambda>_. now) st = (case filter (\<lambda>s. effective_of s \<le> now) (gs_snapshots st) of
      [] \<Rightarrow> Inl (Unavailable ''No approved definitions are effective yet.'')
    | s # ss \<Rightarrow> Inr (last (s # ss)))"
proof -
  have h: "sorted (map effective_of (gs_snapshots st))" "sorted_wrt (<) (map sn_sequence (gs_snapshots st))"
    using reach_history [OF assms] by (simp_all add: history_ok_def)
  have e: "eligible (\<lambda>_. now) (gs_snapshots st) = filter (\<lambda>s. effective_of s \<le> now) (gs_snapshots st)"
    by (rule eligible_const) simp
  show ?thesis
  proof (cases "filter (\<lambda>s. effective_of s \<le> now) (gs_snapshots st)")
    case Nil
    then show ?thesis by (simp add: current_def e)
  next
    case (Cons s ss)
    with filtered_orders [OF h, of "\<lambda>s. effective_of s \<le> now"] have "newest_from s ss = last (s # ss)"
      by (intro newest_from_last) simp_all
    with Cons show ?thesis by (simp add: current_def e)
  qed
qed

theorem current_is_last_effective_witness:
  "current (\<lambda>_. 50) demo_seed = Inr (head_snapshot demo_seed)"
  using current_is_last_effective [OF demo_seed_reach, of 50]
  by (simp add: demo_seed_def seed_state_def head_snapshot_def effective_of_def demo_pack_def)

text \<open>C13: However many workers load, compute and save concurrently, the stored workspace is always one that
  operations applied one after another could have produced; a worker whose loaded workspace is no longer
  the stored one gets a conflict and changes nothing.\<close>

theorem concurrent_stewards_serialize:
  assumes "codec_faithful cx ph" "gov_world (sqlite_journal cx ph) ph gv db flights"
  shows "\<exists>cur. store_read cx ph (gv_namespace gv) db = Inr cur \<and> gov_reach ph gv cur
    \<and> (\<forall>st st'. (st, st') \<in> flights \<longrightarrow> st = cur \<or>
         commit (sqlite_journal cx ph) gv st' () db = Inl (Conflict ''Definitions changed. Refresh before retrying.''))"
proof -
  from sq.world_serial [OF assms(2) faithful_storable [OF assms(1)]] obtain cur where
    cur: "store_read cx ph (gv_namespace gv) db = Inr cur" "gov_reach ph gv cur"
    and fl: "\<forall>(st, st')\<in>flights. gov_step ph gv st st' \<and> gs_revision st \<le> gs_revision cur
         \<and> (gs_revision st = gs_revision cur \<longrightarrow> st = cur)" by auto
  have "st = cur \<or> commit (sqlite_journal cx ph) gv st' () db = Inl (Conflict ''Definitions changed. Refresh before retrying.'')"
    if "(st, st') \<in> flights" for st st'
  proof (cases "gs_revision st = gs_revision cur")
    case True
    with fl that show ?thesis by blast
  next
    case False
    from fl that have "gov_step ph gv st st'" by blast
    with False have "gs_revision st' \<noteq> gs_revision cur" by (simp add: step_revision)
    from sq.commit_stale [OF _ this, of cx ph gv db "()"] cur(1) show ?thesis by simp
  qed
  with cur show ?thesis by blast
qed

theorem concurrent_stewards_serialize_witness:
  "\<exists>cur. store_read identity_codec version_digest ''demo'' [''demo'' \<mapsto> (1, demo_seed)] = Inr cur
    \<and> gov_reach version_digest demo_governance cur"
proof -
  have "j_read (sqlite_journal identity_codec version_digest) (gv_namespace demo_governance) [''demo'' \<mapsto> (1, demo_seed)] = Inr demo_seed"
    using history_integrity [OF reach_history [OF demo_seed_reach]]
    by (simp add: demo_governance_def store_read_def identity_codec_def demo_seed_def seed_state_def)
  from concurrent_stewards_serialize [OF identity_codec_faithful gov_world.start [OF this demo_seed_reach]]
  show ?thesis by (auto simp: demo_governance_def)
qed

end
