(* ===== verification/Sessions.thy ===== *)
theory Sessions
  imports Models Sample "HOL-Library.Product_Lexorder"
begin

section \<open>Sessions: the local session store\<close>

text \<open>
  \<open>services/session_store.py\<close>: sessions, messages, decisions and query plans as the rows of their SQLite
  tables, every operation one transaction.  The payload columns hold the JSON of a decision or a plan;
  the model keeps the decision or plan itself.  \<open>ORDER BY created_at, id\<close> is a sort by both keys.
  \<open>services/session_port.py\<close> is the locale \<open>chat_session_store\<close>.
\<close>

record session_row =
  sr_id :: uuid
  sr_tenant_id :: string
  sr_user_id :: string
  sr_created_at :: instant
  sr_updated_at :: instant

record message_row =
  mr_id :: uuid
  mr_session_id :: uuid
  mr_role :: string
  mr_content :: string
  mr_created_at :: instant

record session_db =
  sd_sessions :: "session_row list"
  sd_messages :: "message_row list"
  sd_decisions :: "(uuid \<times> uuid \<times> QuestionDecision \<times> instant) list"
  sd_plans :: "(uuid \<times> uuid \<times> BusinessQueryIR \<times> instant) list"

datatype session_error = SessionExists uuid | SessionNotFound uuid | SessionAccessDenied | IntegrityError

definition empty_sessions :: session_db where
  "empty_sessions = \<lparr>sd_sessions = [], sd_messages = [], sd_decisions = [], sd_plans = []\<rparr>"

definition session_of :: "session_db \<Rightarrow> uuid \<Rightarrow> session_row option" where
  "session_of db sid = List.find (\<lambda>s. sr_id s = sid) (sd_sessions db)"

definition create_session :: "uuid \<Rightarrow> instant \<Rightarrow> AccessContext \<Rightarrow> session_db \<Rightarrow> session_error + session_db" where
  "create_session sid now context db =
     (if session_of db sid \<noteq> None then Inl (SessionExists sid)
      else Inr (db\<lparr>sd_sessions := sd_sessions db @ [\<lparr>sr_id = sid, sr_tenant_id = ac_tenant_id context,
             sr_user_id = ac_user_id context, sr_created_at = now, sr_updated_at = now\<rparr>]\<rparr>))"

definition ensure_access :: "uuid \<Rightarrow> AccessContext \<Rightarrow> session_db \<Rightarrow> session_error + unit" where
  "ensure_access sid context db =
     (case session_of db sid of None \<Rightarrow> Inl (SessionNotFound sid)
      | Some s \<Rightarrow> if sr_tenant_id s \<noteq> ac_tenant_id context \<or> sr_user_id s \<noteq> ac_user_id context
                  then Inl SessionAccessDenied else Inr ())"

definition touch_session :: "uuid \<Rightarrow> instant \<Rightarrow> session_db \<Rightarrow> session_error + session_db" where
  "touch_session sid now db =
     (if session_of db sid = None then Inl (SessionNotFound sid)
      else Inr (db\<lparr>sd_sessions := map (\<lambda>s. if sr_id s = sid then s\<lparr>sr_updated_at := now\<rparr> else s) (sd_sessions db)\<rparr>))"

text \<open>An insertion fails on an identifier in use and on a session that does not exist.\<close>

definition record_evaluation :: "uuid \<times> uuid \<Rightarrow> instant \<Rightarrow> uuid \<Rightarrow> string \<Rightarrow> QuestionDecision \<Rightarrow> session_db
    \<Rightarrow> session_error + session_db" where
  "record_evaluation ids now sid question decision db =
     (if session_of db sid = None \<or> fst ids = snd ids
         \<or> fst ids \<in> mr_id ` set (sd_messages db) \<or> snd ids \<in> mr_id ` set (sd_messages db)
         \<or> qd_decision_id decision \<in> fst ` set (sd_decisions db) then Inl IntegrityError
      else touch_session sid now (db\<lparr>
        sd_messages := sd_messages db
          @ [\<lparr>mr_id = fst ids, mr_session_id = sid, mr_role = ''user'', mr_content = question, mr_created_at = now\<rparr>,
             \<lparr>mr_id = snd ids, mr_session_id = sid, mr_role = ''system_decision'',
              mr_content = qd_user_message decision, mr_created_at = now\<rparr>],
        sd_decisions := sd_decisions db @ [(qd_decision_id decision, sid, decision, qd_created_at decision)]\<rparr>))"

definition record_query_plan :: "instant \<Rightarrow> uuid \<Rightarrow> BusinessQueryIR \<Rightarrow> session_db \<Rightarrow> session_error + session_db" where
  "record_query_plan now sid ir db =
     (if session_of db sid = None \<or> q_query_id ir \<in> fst ` set (sd_plans db) then Inl (SessionNotFound sid)
      else touch_session sid now (db\<lparr>sd_plans := sd_plans db @ [(q_query_id ir, sid, ir, q_created_at ir)]\<rparr>))"

record SessionSnapshot =
  sp_session_id :: uuid
  sp_tenant_id :: string
  sp_user_id :: string
  sp_created_at :: instant
  sp_updated_at :: instant
  sp_messages :: "message_row list"
  sp_decisions :: "QuestionDecision list"
  sp_query_plans :: "BusinessQueryIR list"

definition rows_of_session :: "uuid \<Rightarrow> (uuid \<times> uuid \<times> 'a \<times> instant) list \<Rightarrow> 'a list" where
  "rows_of_session sid rows =
     map (\<lambda>(_, _, x, _). x) (sort_key (\<lambda>(i, _, _, t). (t, i)) (filter (\<lambda>(_, s, _, _). s = sid) rows))"

definition get_session :: "uuid \<Rightarrow> string \<Rightarrow> string \<Rightarrow> session_db \<Rightarrow> session_error + SessionSnapshot" where
  "get_session sid tenant_id user_id db =
     (case session_of db sid of None \<Rightarrow> Inl (SessionNotFound sid)
      | Some s \<Rightarrow>
        if sr_tenant_id s \<noteq> tenant_id \<or> sr_user_id s \<noteq> user_id then Inl SessionAccessDenied
        else Inr \<lparr>sp_session_id = sid, sp_tenant_id = sr_tenant_id s, sp_user_id = sr_user_id s,
             sp_created_at = sr_created_at s, sp_updated_at = sr_updated_at s,
             sp_messages = sort_key (\<lambda>m. (mr_created_at m, mr_id m)) (filter (\<lambda>m. mr_session_id m = sid) (sd_messages db)),
             sp_decisions = rows_of_session sid (sd_decisions db),
             sp_query_plans = rows_of_session sid (sd_plans db)\<rparr>)"

subsection \<open>The port the chat service uses\<close>

text \<open>A session belongs for good to the tenant and user it was created for; recording does not move it.\<close>

definition owner_of :: "session_db \<Rightarrow> uuid \<Rightarrow> (string \<times> string) option" where
  "owner_of db sid = map_option (\<lambda>s. (sr_tenant_id s, sr_user_id s)) (session_of db sid)"

record 'db session_port =
  sn_create :: "uuid \<Rightarrow> instant \<Rightarrow> AccessContext \<Rightarrow> 'db \<Rightarrow> session_error + 'db"
  sn_ensure :: "uuid \<Rightarrow> AccessContext \<Rightarrow> 'db \<Rightarrow> session_error + unit"
  sn_evaluation :: "uuid \<times> uuid \<Rightarrow> instant \<Rightarrow> uuid \<Rightarrow> string \<Rightarrow> QuestionDecision \<Rightarrow> 'db \<Rightarrow> session_error + 'db"
  sn_plan :: "instant \<Rightarrow> uuid \<Rightarrow> BusinessQueryIR \<Rightarrow> 'db \<Rightarrow> session_error + 'db"

inductive session_steps :: "'db session_port \<Rightarrow> 'db \<Rightarrow> 'db \<Rightarrow> bool" for S where
  none: "session_steps S db db"
| create: "session_steps S db db1 \<Longrightarrow> sn_create S sid now a db1 = Inr db2 \<Longrightarrow> session_steps S db db2"
| evaluation: "session_steps S db db1 \<Longrightarrow> sn_evaluation S ids now sid question d db1 = Inr db2 \<Longrightarrow> session_steps S db db2"
| plan: "session_steps S db db1 \<Longrightarrow> sn_plan S now sid ir db1 = Inr db2 \<Longrightarrow> session_steps S db db2"

locale chat_session_store =
  fixes S :: "'db session_port"
    and owner :: "'db \<Rightarrow> uuid \<Rightarrow> (string \<times> string) option"
  assumes create_owner: "sn_create S sid now a db = Inr db' \<Longrightarrow>
      owner db sid = None \<and> owner db' = (owner db)(sid \<mapsto> (ac_tenant_id a, ac_user_id a))"
    and ensure_iff: "sn_ensure S sid a db = Inr () \<longleftrightarrow> owner db sid = Some (ac_tenant_id a, ac_user_id a)"
    and evaluation_owner: "sn_evaluation S ids now sid question d db = Inr db' \<Longrightarrow> owner db' = owner db"
    and plan_owner: "sn_plan S now sid ir db = Inr db' \<Longrightarrow> owner db' = owner db"
begin

lemma create_then_ensure:
  assumes "sn_create S sid now a db = Inr db'"
  shows "sn_ensure S sid b db' = Inr () \<longleftrightarrow> ac_tenant_id b = ac_tenant_id a \<and> ac_user_id b = ac_user_id a"
  using create_owner [OF assms] by (auto simp: ensure_iff)

lemma steps_keep_owner: "session_steps S db db' \<Longrightarrow> owner db sid = Some o1 \<Longrightarrow> owner db' sid = Some o1"
proof (induction rule: session_steps.induct)
  case (create db db1 sid' now a db2)
  then show ?case using create_owner [OF create(2)] by (cases "sid' = sid") auto
qed (simp_all add: evaluation_owner plan_owner)

lemma access_after:
  assumes "sn_create S sid now a db = Inr db1" "session_steps S db1 db2"
  shows "sn_ensure S sid b db2 = Inr () \<longleftrightarrow> ac_tenant_id b = ac_tenant_id a \<and> ac_user_id b = ac_user_id a"
proof -
  from create_owner [OF assms(1)] have "owner db1 sid = Some (ac_tenant_id a, ac_user_id a)" by simp
  from steps_keep_owner [OF assms(2) this] show ?thesis by (auto simp: ensure_iff)
qed

end

definition sqlite_sessions :: "session_db session_port" where
  "sqlite_sessions = \<lparr>sn_create = create_session, sn_ensure = ensure_access, sn_evaluation = record_evaluation,
     sn_plan = record_query_plan\<rparr>"

lemma find_map_key:
  assumes "\<And>x. key (f x) = key x"
  shows "List.find (\<lambda>x. key x = k) (map f xs) = map_option f (List.find (\<lambda>x. key x = k) xs)"
  by (induction xs) (auto simp: assms)

lemma find_append: "List.find P (xs @ ys) = (case List.find P xs of None \<Rightarrow> List.find P ys | Some x \<Rightarrow> Some x)"
  by (induction xs) auto

lemma session_of_cong [simp]:
  "session_of (db\<lparr>sd_messages := ms\<rparr>) = session_of db" "session_of (db\<lparr>sd_decisions := ds\<rparr>) = session_of db"
  "session_of (db\<lparr>sd_plans := ps\<rparr>) = session_of db"
  by (simp_all add: session_of_def fun_eq_iff)

lemma touch_owner:
  assumes "touch_session sid now db = Inr db'"
  shows "owner_of db' = owner_of db"
proof -
  have "session_of db' i = map_option (\<lambda>s. if sr_id s = sid then s\<lparr>sr_updated_at := now\<rparr> else s) (session_of db i)" for i
  proof -
    have "sd_sessions db' = map (\<lambda>s. if sr_id s = sid then s\<lparr>sr_updated_at := now\<rparr> else s) (sd_sessions db)"
      using assms by (auto simp: touch_session_def split: if_splits)
    then show ?thesis unfolding session_of_def by (simp only:) (rule find_map_key, simp)
  qed
  then show ?thesis by (auto simp: owner_of_def fun_eq_iff option.map_comp comp_def intro!: option.map_cong)
qed

lemma owner_of_cong [simp]:
  "owner_of (db\<lparr>sd_messages := ms\<rparr>) = owner_of db" "owner_of (db\<lparr>sd_decisions := ds\<rparr>) = owner_of db"
  "owner_of (db\<lparr>sd_plans := ps\<rparr>) = owner_of db"
  by (simp_all add: owner_of_def fun_eq_iff)

interpretation ss: chat_session_store sqlite_sessions owner_of
proof unfold_locales
  fix sid now a db db'
  assume "sn_create sqlite_sessions sid now a db = Inr db'"
  then show "owner_of db sid = None \<and> owner_of db' = (owner_of db)(sid \<mapsto> (ac_tenant_id a, ac_user_id a))"
    by (auto simp: sqlite_sessions_def create_session_def owner_of_def session_of_def find_append fun_eq_iff
        split: if_splits option.splits)
next
  fix sid a db
  show "sn_ensure sqlite_sessions sid a db = Inr () \<longleftrightarrow> owner_of db sid = Some (ac_tenant_id a, ac_user_id a)"
    by (auto simp: sqlite_sessions_def ensure_access_def owner_of_def split: option.splits)
next
  fix ids now sid question d db db'
  assume "sn_evaluation sqlite_sessions ids now sid question d db = Inr db'"
  then show "owner_of db' = owner_of db"
    by (auto simp: sqlite_sessions_def record_evaluation_def dest!: touch_owner split: if_splits)
next
  fix now sid ir db db'
  assume "sn_plan sqlite_sessions now sid ir db = Inr db'"
  then show "owner_of db' = owner_of db"
    by (auto simp: sqlite_sessions_def record_query_plan_def dest!: touch_owner split: if_splits)
qed

subsection \<open>Properties\<close>

lemma get_session_iff:
  "is_ok (get_session sid t u db) \<longleftrightarrow> owner_of db sid = Some (t, u)"
  by (cases "session_of db sid") (auto simp: get_session_def owner_of_def)

text \<open>C35: A session can be used and read exactly by the tenant and user it was created for, whatever sessions
  are created and whatever is recorded afterwards, and reading it shows only its own messages.\<close>

theorem sessions_are_isolated:
  assumes "create_session sid now a db = Inr db1" "session_steps sqlite_sessions db1 db2"
  shows "(ensure_access sid b db2 = Inr () \<longleftrightarrow> ac_tenant_id b = ac_tenant_id a \<and> ac_user_id b = ac_user_id a)
    \<and> (is_ok (get_session sid t u db2) \<longleftrightarrow> t = ac_tenant_id a \<and> u = ac_user_id a)
    \<and> (\<forall>snap. get_session sid t u db2 = Inr snap \<longrightarrow> (\<forall>m\<in>set (sp_messages snap). mr_session_id m = sid))"
proof -
  have create: "sn_create sqlite_sessions sid now a db = Inr db1" using assms(1) by (simp add: sqlite_sessions_def)
  have 1: "ensure_access sid b db2 = Inr () \<longleftrightarrow> ac_tenant_id b = ac_tenant_id a \<and> ac_user_id b = ac_user_id a"
    using ss.access_after [OF create assms(2), of b] by (simp add: sqlite_sessions_def)
  from ss.create_owner [OF create] have "owner_of db1 sid = Some (ac_tenant_id a, ac_user_id a)" by simp
  from ss.steps_keep_owner [OF assms(2) this]
  have 2: "is_ok (get_session sid t u db2) \<longleftrightarrow> t = ac_tenant_id a \<and> u = ac_user_id a"
    by (auto simp: get_session_iff)
  have 3: "\<forall>snap. get_session sid t u db2 = Inr snap \<longrightarrow> (\<forall>m\<in>set (sp_messages snap). mr_session_id m = sid)"
    by (auto simp: get_session_def split: option.splits if_splits)
  from 1 2 3 show ?thesis by blast
qed

theorem sessions_are_isolated_witness:
  "\<exists>db. create_session ''s1'' 5 analyst empty_sessions = Inr db \<and> ensure_access ''s1'' visitor db \<noteq> Inr ()"
proof -
  obtain db where db: "create_session ''s1'' 5 analyst empty_sessions = Inr db"
    by (simp add: create_session_def session_of_def empty_sessions_def)
  from sessions_are_isolated [OF db session_steps.none, of visitor "[]" "[]"] db
  show ?thesis by (auto simp: visitor_def analyst_def)
qed

end
