(* ===== verification/AgentRuntime.thy ===== *)
theory AgentRuntime
  imports Models
begin

section \<open>AgentRuntime: bounded sequential specialists\<close>

text \<open>
  \<open>domain/agents.py\<close>, the limits of \<open>core/language_config.py\<close> and \<open>services/agent_runtime.py\<close>.  An
  operation on a run is a function from the run to a result and the run afterwards: \<open>Inl\<close> is the
  exception it raises.  The \<open>k\<close>-th reading of \<open>time.monotonic()\<close> is \<open>clk k\<close>, and a run counts its
  readings in \<open>ag_ticks\<close>.  The reports an observer was given are collected in \<open>ag_observed\<close>; a
  specialist that the event loop cancels or that overruns its timeout returns \<open>CancelledError\<close> or
  \<open>TimeoutError\<close>.
\<close>

datatype AgentRole = SEMANTIC_RESOLVER | QUERY_PLANNER | QUERY_EXECUTOR | RESULT_VERIFIER | ANSWER_COMPOSER

datatype StepStatus = STEP_RUNNING | SUCCEEDED | STEP_FAILED | STEP_CANCELLED

record AgentStep =
  as_role :: AgentRole
  as_tool :: string
  as_sequence :: int
  as_status :: StepStatus
  as_duration_ms :: int

record AgentUsage =
  au_model_calls :: int
  au_counted_input_tokens :: int
  au_reserved_tokens :: int
  au_input_tokens :: int
  au_output_tokens :: int
  au_usage_complete :: bool

record AgentRunReport =
  ar_run_id :: uuid
  ar_status :: string
  ar_steps :: "AgentStep list"
  ar_usage :: AgentUsage
  ar_provider :: string
  ar_model :: "string option"
  ar_replayed_interpretation :: bool
  ar_error_code :: "string option"

record AgentLimits =
  al_deadline_seconds :: rat
  al_maximum_steps :: int
  al_maximum_model_calls :: int
  al_maximum_total_tokens :: int

definition validate_limits :: "AgentLimits \<Rightarrow> py_exc + AgentLimits" where
  "validate_limits l =
     (if 1 \<le> al_deadline_seconds l \<and> al_deadline_seconds l \<le> 180 \<and> 1 \<le> al_maximum_steps l \<and> al_maximum_steps l \<le> 6
         \<and> 1 \<le> al_maximum_model_calls l \<and> al_maximum_model_calls l \<le> 2
         \<and> 512 \<le> al_maximum_total_tokens l \<and> al_maximum_total_tokens l \<le> 40000 then Inr l else Inl ValueError)"

definition default_limits :: AgentLimits where
  "default_limits = \<lparr>al_deadline_seconds = 90, al_maximum_steps = 6, al_maximum_model_calls = 1,
     al_maximum_total_tokens = 12000\<rparr>"

text \<open>The table of tools; its order is the order of the stages.\<close>

definition TOOLS :: "(AgentRole \<times> string) list" where
  "TOOLS = [(SEMANTIC_RESOLVER, ''interpret_governed_question''), (QUERY_PLANNER, ''compile_business_query''),
     (QUERY_EXECUTOR, ''execute_bound_query''), (RESULT_VERIFIER, ''verify_query_receipt''),
     (ANSWER_COMPOSER, ''compose_certified_answer'')]"

definition tool_of :: "AgentRole \<Rightarrow> string" where
  "tool_of role = the (map_of TOOLS role)"

definition stage_index :: "AgentRole \<Rightarrow> nat" where
  "stage_index role = length (takeWhile (\<lambda>r. r \<noteq> role) (map fst TOOLS))"

record AgentFailure =
  af_code :: string
  af_message :: string
  af_status_code :: int
  af_report :: "AgentRunReport option"
  af_retry_after :: "string option"
  af_retryable :: bool

definition agent_failure :: "string \<Rightarrow> string \<Rightarrow> int \<Rightarrow> AgentFailure" where
  "agent_failure code message status = \<lparr>af_code = code, af_message = message, af_status_code = status,
     af_report = None, af_retry_after = None, af_retryable = False\<rparr>"

datatype 'x agent_exc = AgentFailed AgentFailure | CancelledError | TimeoutError | OtherError 'x

record agent_run =
  ag_limits :: AgentLimits
  ag_deadline :: rat
  ag_report :: AgentRunReport
  ag_interpretation :: "InterpretationResult option"
  ag_last_reservation :: int
  ag_observed :: "AgentRunReport list"
  ag_ticks :: nat

definition initial_report :: "uuid \<Rightarrow> AgentRunReport" where
  "initial_report rid = \<lparr>ar_run_id = rid, ar_status = ''RUNNING'', ar_steps = [],
     ar_usage = \<lparr>au_model_calls = 0, au_counted_input_tokens = 0, au_reserved_tokens = 0, au_input_tokens = 0,
       au_output_tokens = 0, au_usage_complete = True\<rparr>,
     ar_provider = ''rules'', ar_model = None, ar_replayed_interpretation = False, ar_error_code = None\<rparr>"

definition new_run :: "(nat \<Rightarrow> rat) \<Rightarrow> uuid \<Rightarrow> AgentLimits option \<Rightarrow> agent_run" where
  "new_run clk rid limits =
     (let l = (case limits of None \<Rightarrow> default_limits | Some l \<Rightarrow> l)
      in \<lparr>ag_limits = l, ag_deadline = clk 0 + al_deadline_seconds l, ag_report = initial_report rid,
          ag_interpretation = None, ag_last_reservation = 0, ag_observed = [], ag_ticks = 1\<rparr>)"

definition monotonic :: "(nat \<Rightarrow> rat) \<Rightarrow> agent_run \<Rightarrow> rat \<times> agent_run" where
  "monotonic clk run = (clk (ag_ticks run), run\<lparr>ag_ticks := Suc (ag_ticks run)\<rparr>)"

definition notify :: "agent_run \<Rightarrow> agent_run" where
  "notify run = run\<lparr>ag_observed := ag_observed run @ [ag_report run]\<rparr>"

definition remaining :: "(nat \<Rightarrow> rat) \<Rightarrow> agent_run \<Rightarrow> (AgentFailure + rat) \<times> agent_run" where
  "remaining clk run =
     (let (t, run') = monotonic clk run; left = ag_deadline run - t
      in if left \<le> 0
         then (Inl (agent_failure ''RUN_DEADLINE''
                 ''The request deadline was reached; no answer was released.'' 504), run')
         else (Inr left, run'))"

definition set_steps :: "(AgentStep list \<Rightarrow> AgentStep list) \<Rightarrow> agent_run \<Rightarrow> agent_run" where
  "set_steps f run = run\<lparr>ag_report := (ag_report run)\<lparr>ar_steps := f (ar_steps (ag_report run))\<rparr>\<rparr>"

definition set_status :: "string \<Rightarrow> string option \<Rightarrow> agent_run \<Rightarrow> agent_run" where
  "set_status s code run = run\<lparr>ag_report := (ag_report run)\<lparr>ar_status := s, ar_error_code := code\<rparr>\<rparr>"

definition start_step :: "(nat \<Rightarrow> rat) \<Rightarrow> AgentRole \<Rightarrow> agent_run \<Rightarrow> ('x agent_exc + rat) \<times> agent_run" where
  "start_step clk role run =
     (case remaining clk run of (Inl f, run1) \<Rightarrow> (Inl (AgentFailed f), run1)
      | (Inr _, run1) \<Rightarrow>
        (let steps = ar_steps (ag_report run1)
         in if int (length steps) \<ge> al_maximum_steps (ag_limits run1) \<or> role \<in> as_role ` set steps
            then (Inl (AgentFailed (agent_failure ''STEP_BUDGET'' ''The specialist execution budget was reached.'' 503)), run1)
            else if stage_index role \<noteq> length steps
            then (Inl (AgentFailed (agent_failure ''INVALID_STAGE''
                    ''The requested specialist transition is not permitted.'' 503)), run1)
            else (let step = \<lparr>as_role = role, as_tool = tool_of role, as_sequence = int (length steps) + 1,
                              as_status = STEP_RUNNING, as_duration_ms = 0\<rparr>;
                      (started, run2) = monotonic clk (notify (set_steps (\<lambda>ss. ss @ [step]) run1))
                  in (Inr started, run2))))"

text \<open>The end of a step: its status, its duration in milliseconds, and a notification.\<close>

definition close_step :: "(nat \<Rightarrow> rat) \<Rightarrow> nat \<Rightarrow> StepStatus \<Rightarrow> rat \<Rightarrow> agent_run \<Rightarrow> agent_run" where
  "close_step clk i status started run =
     (let (t, run1) = monotonic clk run
      in notify (set_steps (\<lambda>ss. ss[i := (ss ! i)\<lparr>as_status := status,
           as_duration_ms := max 0 \<lfloor>(t - started) * 1000\<rfloor>\<rparr>]) run1))"

text \<open>A cancellation is not an \<open>Exception\<close>: a synchronous step it interrupts stays \<open>RUNNING\<close>.\<close>

definition sync_step :: "(nat \<Rightarrow> rat) \<Rightarrow> AgentRole \<Rightarrow> (agent_run \<Rightarrow> ('x agent_exc + 'a) \<times> agent_run) \<Rightarrow> agent_run
    \<Rightarrow> ('x agent_exc + 'a) \<times> agent_run" where
  "sync_step clk role operation run =
     (case start_step clk role run of (Inl e, run1) \<Rightarrow> (Inl e, run1)
      | (Inr started, run1) \<Rightarrow>
        (let i = length (ar_steps (ag_report run));
             (result, run2) = operation run1;
             (result', run3) = (case result of Inl e \<Rightarrow> (Inl e, run2)
               | Inr v \<Rightarrow> (case remaining clk run2 of (Inl f, r) \<Rightarrow> (Inl (AgentFailed f), r) | (Inr _, r) \<Rightarrow> (Inr v, r)));
             status = (case result' of Inr _ \<Rightarrow> SUCCEEDED | Inl CancelledError \<Rightarrow> STEP_RUNNING | Inl _ \<Rightarrow> STEP_FAILED)
         in (result', close_step clk i status started run3)))"

definition deadline_failure :: "AgentFailure" where
  "deadline_failure = agent_failure ''RUN_DEADLINE'' ''The request deadline was reached; cancellation was requested.'' 504"

definition async_step :: "(nat \<Rightarrow> rat) \<Rightarrow> AgentRole \<Rightarrow> (agent_run \<Rightarrow> ('x agent_exc + 'a) \<times> agent_run) \<Rightarrow> agent_run
    \<Rightarrow> ('x agent_exc + 'a) \<times> agent_run" where
  "async_step clk role operation run =
     (case start_step clk role run of (Inl e, run1) \<Rightarrow> (Inl e, run1)
      | (Inr started, run1) \<Rightarrow>
        (let i = length (ar_steps (ag_report run));
             (result, run2) = (case remaining clk run1 of (Inl f, r) \<Rightarrow> (Inl (AgentFailed f), r) | (Inr _, r) \<Rightarrow> operation r)
         in case result of
              Inr v \<Rightarrow> (Inr v, close_step clk i SUCCEEDED started run2)
            | Inl CancelledError \<Rightarrow>
                (Inl CancelledError, close_step clk i STEP_CANCELLED started
                   (set_status ''CANCELLED'' (ar_error_code (ag_report run2)) run2))
            | Inl TimeoutError \<Rightarrow> (Inl (AgentFailed deadline_failure), close_step clk i STEP_FAILED started run2)
            | Inl e \<Rightarrow> (Inl e, close_step clk i STEP_FAILED started run2)))"

definition reserve :: "(nat \<Rightarrow> rat) \<Rightarrow> int \<Rightarrow> int \<Rightarrow> agent_run \<Rightarrow> ('x agent_exc + unit) \<times> agent_run" where
  "reserve clk input_tokens output_tokens run =
     (case remaining clk run of (Inl f, run1) \<Rightarrow> (Inl (AgentFailed f), run1)
      | (Inr _, run1) \<Rightarrow>
        (let usage = ar_usage (ag_report run1); required = input_tokens + output_tokens
         in if au_model_calls usage \<ge> al_maximum_model_calls (ag_limits run1)
               \<or> au_reserved_tokens usage + required > al_maximum_total_tokens (ag_limits run1)
            then (Inl (AgentFailed (agent_failure ''MODEL_BUDGET'' ''The language-model usage budget was reached.'' 503)), run1)
            else (Inr (), notify (run1\<lparr>
              ag_report := (ag_report run1)\<lparr>ar_usage := usage\<lparr>au_model_calls := au_model_calls usage + 1,
                au_usage_complete := False,
                au_counted_input_tokens := au_counted_input_tokens usage + input_tokens,
                au_reserved_tokens := au_reserved_tokens usage + required\<rparr>\<rparr>,
              ag_last_reservation := required\<rparr>))))"

text \<open>The whole request: every failure leaves the report with a status and a code, and a failure that is
  raised carries the report.\<close>

definition with_report :: "AgentFailure \<Rightarrow> agent_run \<Rightarrow> 'x agent_exc \<times> agent_run" where
  "with_report f run =
     (let run' = set_status ''FAILED'' (Some (af_code f)) run
      in (AgentFailed (f\<lparr>af_report := Some (ag_report run')\<rparr>), run'))"

definition conclude_run :: "'x agent_exc + 'a \<Rightarrow> agent_run \<Rightarrow> ('x agent_exc + 'a) \<times> agent_run" where
  "conclude_run result run =
     (case result of
        Inr v \<Rightarrow> (Inr v, run)
      | Inl (AgentFailed f) \<Rightarrow> (let (e, r) = with_report f run in (Inl e, r))
      | Inl TimeoutError \<Rightarrow> (let (e, r) = with_report deadline_failure run in (Inl e, r))
      | Inl CancelledError \<Rightarrow> (Inl CancelledError, set_status ''CANCELLED'' (ar_error_code (ag_report run)) run)
      | Inl (OtherError _) \<Rightarrow> (let (e, r) = with_report (agent_failure ''RUN_FAILED''
            ''The governed request failed; no answer was released.'' 500) run in (Inl e, r)))"

definition finish_run :: "(nat \<Rightarrow> rat) \<Rightarrow> (agent_run \<Rightarrow> ('x agent_exc + 'a) \<times> agent_run) \<Rightarrow> agent_run
    \<Rightarrow> ('x agent_exc + 'a) \<times> agent_run" where
  "finish_run clk operation run =
     (let (result, run1) = (case remaining clk run of (Inl f, r) \<Rightarrow> (Inl (AgentFailed f), r) | (Inr _, r) \<Rightarrow> operation r)
      in conclude_run result run1)"

subsection \<open>The invariant of a run\<close>

text \<open>The steps are an initial segment of the tool table in its order, within the limits, and the model
  budget is never exceeded.\<close>

definition run_ok :: "agent_run \<Rightarrow> bool" where
  "run_ok run \<longleftrightarrow> (let steps = ar_steps (ag_report run); n = length steps; usage = ar_usage (ag_report run) in
     map (\<lambda>s. (as_role s, as_tool s)) steps = take n TOOLS \<and> n \<le> length TOOLS
     \<and> map as_sequence steps = map int [1..<Suc n] \<and> int n \<le> al_maximum_steps (ag_limits run)
     \<and> 0 \<le> au_model_calls usage \<and> au_model_calls usage \<le> al_maximum_model_calls (ag_limits run)
     \<and> au_reserved_tokens usage \<le> al_maximum_total_tokens (ag_limits run))"

text \<open>How many notifications a run has sent: two per closed step and one per model call; \<open>k\<close> are owed.\<close>

definition owes :: "nat \<Rightarrow> agent_run \<Rightarrow> bool" where
  "owes k run \<longleftrightarrow> int (length (ag_observed run)) + int k
     \<le> 2 * int (length (ar_steps (ag_report run))) + au_model_calls (ar_usage (ag_report run))"

lemma monotonic_run: "monotonic clk run = (t, run') \<Longrightarrow> run' = run\<lparr>ag_ticks := Suc (ag_ticks run)\<rparr>"
  by (simp add: monotonic_def)

lemma ticks_ok [simp]: "run_ok (run\<lparr>ag_ticks := n\<rparr>) = run_ok run" "owes k (run\<lparr>ag_ticks := n\<rparr>) = owes k run"
  by (simp_all add: run_ok_def owes_def)

lemma remaining_run: "snd (remaining clk run) = run\<lparr>ag_ticks := Suc (ag_ticks run)\<rparr>"
  by (simp add: remaining_def monotonic_def Let_def)

lemma remaining_cases:
  assumes "remaining clk run = (r, run')"
  shows "run' = run\<lparr>ag_ticks := Suc (ag_ticks run)\<rparr>"
    "r = Inr left \<Longrightarrow> clk (ag_ticks run) < ag_deadline run"
  using assms by (auto simp: remaining_def monotonic_def Let_def split: if_splits)

lemma notify_ok [simp]: "run_ok (notify run) = run_ok run" "owes k (notify run) = owes (Suc k) run"
  by (simp add: run_ok_def notify_def, auto simp: owes_def notify_def)

lemma status_ok [simp]: "run_ok (set_status s c run) = run_ok run" "owes k (set_status s c run) = owes k run"
  by (simp_all add: run_ok_def owes_def set_status_def Let_def)

lemma map_list_update_id: "(\<And>x. f (g x) = f x) \<Longrightarrow> map f (xs[i := g (xs ! i)]) = map f xs"
  by (cases "i < length xs") (simp_all add: map_update list_update_beyond, metis list_update_id nth_map)

lemma close_step_ok [simp]:
  "run_ok (close_step clk i status started run) = run_ok run"
  "owes k (close_step clk i status started run) = owes (Suc k) run"
proof -
  have 1: "map (\<lambda>s. (as_role s, as_tool s)) (ss[i := (ss ! i)\<lparr>as_status := s, as_duration_ms := n\<rparr>])
      = map (\<lambda>s. (as_role s, as_tool s)) ss" for ss s n
    by (rule map_list_update_id [where g = "\<lambda>x. x\<lparr>as_status := s, as_duration_ms := n\<rparr>"]) simp
  have 2: "map as_sequence (ss[i := (ss ! i)\<lparr>as_status := s, as_duration_ms := n\<rparr>]) = map as_sequence ss" for ss s n
    by (rule map_list_update_id [where g = "\<lambda>x. x\<lparr>as_status := s, as_duration_ms := n\<rparr>"]) simp
  show "run_ok (close_step clk i status started run) = run_ok run"
    by (simp add: close_step_def monotonic_def Let_def run_ok_def notify_def set_steps_def 1 2)
  show "owes k (close_step clk i status started run) = owes (Suc k) run"
    by (auto simp: close_step_def monotonic_def Let_def owes_def notify_def set_steps_def)
qed

lemma stage_index_TOOLS: "map_of TOOLS role = Some t \<Longrightarrow> TOOLS ! stage_index role = (role, t) \<and> stage_index role < length TOOLS"
  by (cases role) (simp_all add: TOOLS_def stage_index_def)

lemma tool_of_TOOLS: "TOOLS ! stage_index role = (role, tool_of role)" "stage_index role < length TOOLS"
  by (cases role; simp add: TOOLS_def stage_index_def tool_of_def)+

lemma start_step_Inr:
  assumes "start_step clk role run = (Inr started, run')" "run_ok run"
  shows "run_ok run'" "stage_index role = length (ar_steps (ag_report run))"
    "length (ar_steps (ag_report run')) = Suc (length (ar_steps (ag_report run)))" "owes 0 run \<Longrightarrow> owes 1 run'"
    "clk (ag_ticks run) < ag_deadline run" "ag_limits run' = ag_limits run" "ag_deadline run' = ag_deadline run"
proof -
  let ?steps = "ar_steps (ag_report run)"
  from assms(1) obtain left run1 where rem: "remaining clk run = (Inr left, run1)"
    by (auto simp: start_step_def split: sum.splits prod.splits)
  note run1 = remaining_cases(1) [OF rem]
  show "clk (ag_ticks run) < ag_deadline run" by (rule remaining_cases(2) [OF rem refl])
  from assms(1) rem have guard: "int (length ?steps) < al_maximum_steps (ag_limits run)" and
    idx: "stage_index role = length ?steps" and
    run': "run' = (notify (set_steps (\<lambda>ss. ss @ [\<lparr>as_role = role, as_tool = tool_of role,
       as_sequence = int (length ?steps) + 1, as_status = STEP_RUNNING, as_duration_ms = 0\<rparr>]) run1))
         \<lparr>ag_ticks := Suc (Suc (ag_ticks run))\<rparr>"
    by (auto simp: start_step_def run1 Let_def monotonic_def notify_def set_steps_def split: if_splits)
  show "stage_index role = length ?steps" by (rule idx)
  show "length (ar_steps (ag_report run')) = Suc (length ?steps)"
    "ag_limits run' = ag_limits run" "ag_deadline run' = ag_deadline run"
    by (simp_all add: run' run1 notify_def set_steps_def)
  show "owes 0 run \<Longrightarrow> owes 1 run'" by (simp add: run' run1 owes_def notify_def set_steps_def)
  have "take (Suc (length ?steps)) TOOLS = take (length ?steps) TOOLS @ [(role, tool_of role)]"
    using tool_of_TOOLS [of role] idx by (simp add: take_Suc_conv_app_nth)
  then show "run_ok run'" using assms(2) guard tool_of_TOOLS(2) [of role] idx
    by (simp add: run_ok_def run' run1 notify_def set_steps_def Let_def)
qed

lemma start_step_Inl:
  assumes "start_step clk role run = (Inl e, run')"
  shows "run' = run\<lparr>ag_ticks := Suc (ag_ticks run)\<rparr>" "\<exists>f. e = AgentFailed f"
proof -
  obtain r run1 where rem: "remaining clk run = (r, run1)" by fastforce
  note run1 = remaining_cases(1) [OF rem]
  show "run' = run\<lparr>ag_ticks := Suc (ag_ticks run)\<rparr>" "\<exists>f. e = AgentFailed f"
    using assms rem
    by (cases r; auto simp: start_step_def run1 Let_def monotonic_def split: if_splits)+
qed

lemma reserve_ok:
  assumes "reserve clk i out run = (r, run')" "run_ok run"
  shows "run_ok run'" "owes k run \<Longrightarrow> owes k run'" "ag_limits run' = ag_limits run" "ag_deadline run' = ag_deadline run"
    "length (ar_steps (ag_report run')) = length (ar_steps (ag_report run))"
proof -
  obtain r1 run1 where rem: "remaining clk run = (r1, run1)" by fastforce
  note run1 = remaining_cases(1) [OF rem]
  show "run_ok run'" using assms rem
    by (cases r1) (auto simp: reserve_def run1 Let_def run_ok_def notify_def split: sum.splits if_splits)
  show "owes k run \<Longrightarrow> owes k run'" using assms(1) rem
    by (cases r1) (auto simp: reserve_def run1 Let_def owes_def notify_def split: sum.splits if_splits)
  show "ag_limits run' = ag_limits run" "ag_deadline run' = ag_deadline run"
    "length (ar_steps (ag_report run')) = length (ar_steps (ag_report run))" using assms(1) rem
    by (cases r1; auto simp: reserve_def run1 Let_def notify_def split: if_splits)+
qed

text \<open>An operation that respects the run: it may reserve tokens but adds no step of its own.\<close>

definition keeps_run :: "(agent_run \<Rightarrow> 'r \<times> agent_run) \<Rightarrow> bool" where
  "keeps_run operation \<longleftrightarrow> (\<forall>run r run'. operation run = (r, run') \<longrightarrow> run_ok run \<longrightarrow>
     run_ok run' \<and> (\<forall>k. owes k run \<longrightarrow> owes k run') \<and> ag_deadline run' = ag_deadline run)"

lemma keeps_runD:
  assumes "keeps_run operation" "operation run = (r, run')" "run_ok run"
  shows "run_ok run'" "owes k run \<Longrightarrow> owes k run'" "ag_deadline run' = ag_deadline run"
  using assms unfolding keeps_run_def by blast+

lemma sync_step_ok:
  fixes r :: "'x agent_exc + 'a"
  assumes "keeps_run operation" "sync_step clk role operation run = (r, run')" "run_ok run" "owes 0 run"
  shows "run_ok run' \<and> owes 0 run'"
proof (cases "start_step clk role run :: ('x agent_exc + rat) \<times> agent_run")
  case (Pair s run1)
  show ?thesis
  proof (cases s)
    case (Inl e)
    with assms(2-4) Pair start_step_Inl(1) [of clk role run e run1] show ?thesis
      by (simp add: sync_step_def)
  next
    case (Inr started)
    note st = start_step_Inr [OF Pair [unfolded Inr] assms(3)]
    obtain res run2 where op: "operation run1 = (res, run2)" by fastforce
    note o = keeps_runD [OF assms(1) op st(1)]
    obtain q run3 where rem: "remaining clk run2 = (q, run3)" by fastforce
    from remaining_cases(1) [OF rem] o(1) o(2) [OF st(4) [OF assms(4)]]
    have 3: "run_ok run3" "owes 1 run3" by simp_all
    show ?thesis
    proof (cases res)
      case (Inl e)
      with assms(2) Pair Inr op o(1) o(2) [OF st(4) [OF assms(4)]] show ?thesis
        by (auto simp: sync_step_def Let_def)
    next
      case (Inr v)
      with assms(2) Pair \<open>s = Inr started\<close> op rem 3 show ?thesis
        by (cases q) (auto simp: sync_step_def Let_def)
    qed
  qed
qed

lemma async_step_ok:
  fixes r :: "'x agent_exc + 'a"
  assumes "keeps_run operation" "async_step clk role operation run = (r, run')" "run_ok run" "owes 0 run"
  shows "run_ok run' \<and> owes 0 run'"
proof (cases "start_step clk role run :: ('x agent_exc + rat) \<times> agent_run")
  case (Pair s run1)
  show ?thesis
  proof (cases s)
    case (Inl e)
    with assms(2-4) Pair start_step_Inl(1) [of clk role run e run1] show ?thesis
      by (simp add: async_step_def)
  next
    case (Inr started)
    note st = start_step_Inr [OF Pair [unfolded Inr] assms(3)]
    obtain q run2 where rem: "remaining clk run1 = (q, run2)" by fastforce
    from remaining_cases(1) [OF rem] st(1) st(4) [OF assms(4)] have 2: "run_ok run2" "owes 1 run2" by simp_all
    obtain res run3 where op: "operation run2 = (res, run3)" by fastforce
    note o = keeps_runD(1) [OF assms(1) op 2(1)] keeps_runD(2) [OF assms(1) op 2(1) 2(2)]
    show ?thesis
    proof (cases q)
      case (Inl f)
      with assms(2) Pair Inr rem 2 show ?thesis by (auto simp: async_step_def Let_def)
    next
      case (Inr left)
      with assms(2) Pair \<open>s = Inr started\<close> rem op o show ?thesis
        by (auto simp: async_step_def Let_def split: sum.splits agent_exc.splits)
    qed
  qed
qed

lemma finish_run_ok:
  assumes "keeps_run operation" "finish_run clk operation run = (r, run')" "run_ok run" "owes 0 run"
  shows "run_ok run' \<and> owes 0 run'"
proof -
  obtain q run1 where rem: "remaining clk run = (q, run1)" by fastforce
  from remaining_cases(1) [OF rem] assms(3,4) have 1: "run_ok run1" "owes 0 run1" by simp_all
  obtain res run2 where op: "operation run1 = (res, run2)" by fastforce
  note o = keeps_runD(1) [OF assms(1) op 1(1)] keeps_runD(2) [OF assms(1) op 1(1) 1(2)]
  show ?thesis using assms(2) rem op o 1
    by (cases q) (auto simp: finish_run_def conclude_run_def with_report_def Let_def split: sum.splits agent_exc.splits)
qed

text \<open>A specialist that reserves model budget a number of times and then ends as it may.\<close>

fun reserve_all :: "(nat \<Rightarrow> rat) \<Rightarrow> (int \<times> int) list \<Rightarrow> 'x agent_exc + 'a \<Rightarrow> agent_run \<Rightarrow> ('x agent_exc + 'a) \<times> agent_run" where
  "reserve_all clk [] outcome run = (outcome, run)"
| "reserve_all clk ((i, out) # rest) outcome run =
     (case reserve clk i out run of (Inl e, run') \<Rightarrow> (Inl e, run') | (Inr _, run') \<Rightarrow> reserve_all clk rest outcome run')"

lemma reserve_all_keeps:
  fixes outcome :: "'x agent_exc + 'a"
  shows "keeps_run (reserve_all clk rs outcome)"
proof (induction rs)
  case Nil
  show ?case by (simp add: keeps_run_def)
next
  case (Cons p rs)
  obtain i out where p: "p = (i, out)" by fastforce
  show ?case unfolding keeps_run_def
  proof (intro allI impI)
    fix run r run'
    assume a: "reserve_all clk (p # rs) outcome run = (r, run')" and ok: "run_ok run"
    obtain q run1 where r1: "(reserve clk i out run :: ('x agent_exc + unit) \<times> agent_run) = (q, run1)" by fastforce
    note k = reserve_ok [OF r1 ok]
    show "run_ok run' \<and> (\<forall>k. owes k run \<longrightarrow> owes k run') \<and> ag_deadline run' = ag_deadline run"
    proof (cases q)
      case (Inl e)
      with a p r1 k show ?thesis by auto
    next
      case (Inr u)
      with a p r1 have "reserve_all clk rs outcome run1 = (r, run')" by simp
      from keeps_runD [OF Cons.IH this k(1)] k show ?thesis by auto
    qed
  qed
qed

text \<open>What a specialist returns does not matter to the run: an outcome is a text or an exception.\<close>

type_synonym outcome = "string agent_exc + string"

inductive agent_reach :: "(nat \<Rightarrow> rat) \<Rightarrow> agent_run \<Rightarrow> bool" for clk where
  new: "(case limits of None \<Rightarrow> True | Some l \<Rightarrow> is_ok (validate_limits l)) \<Longrightarrow> agent_reach clk (new_run clk rid limits)"
| sync: "agent_reach clk run \<Longrightarrow> agent_reach clk (snd (sync_step clk role (reserve_all clk rs (out :: outcome)) run))"
| async: "agent_reach clk run \<Longrightarrow> agent_reach clk (snd (async_step clk role (reserve_all clk rs (out :: outcome)) run))"
| finish: "agent_reach clk run \<Longrightarrow> agent_reach clk (snd (finish_run clk (reserve_all clk rs (out :: outcome)) run))"

lemma new_run_ok:
  assumes "case limits of None \<Rightarrow> True | Some l \<Rightarrow> is_ok (validate_limits l)"
  shows "run_ok (new_run clk rid limits)" "owes 0 (new_run clk rid limits)"
    and "al_maximum_model_calls (ag_limits (new_run clk rid limits)) \<le> 2"
  using assms by (auto simp: new_run_def run_ok_def owes_def initial_report_def default_limits_def validate_limits_def
      is_ok_def Let_def split: option.splits sum.splits if_splits)

subsection \<open>Properties\<close>

text \<open>C14: Whatever the specialists do, how long they take and how often they ask for tokens: the steps of a
  run are the five stages in their order, each at most once, with their own tools and numbered from one,
  within the limits of steps, model calls and reserved tokens, and the observer is notified at most twice
  a step and once a model call.\<close>

theorem specialists_in_order_and_budget:
  assumes "agent_reach clk run"
  shows "run_ok run \<and> owes 0 run"
  using assms
proof (induction rule: agent_reach.induct)
  case (new limits rid)
  with new_run_ok show ?case by blast
next
  case (sync run role rs out)
  then show ?case using sync_step_ok [OF reserve_all_keeps] by (metis prod.collapse)
next
  case (async run role rs out)
  then show ?case using async_step_ok [OF reserve_all_keeps] by (metis prod.collapse)
next
  case (finish run rs out)
  then show ?case using finish_run_ok [OF reserve_all_keeps] by (metis prod.collapse)
qed

theorem specialists_in_order_and_budget_witness:
  "run_ok (snd (sync_step (\<lambda>k. rat_of_nat k) SEMANTIC_RESOLVER (reserve_all (\<lambda>k. rat_of_nat k) [(100, 200)] (Inr [] :: outcome))
     (new_run (\<lambda>k. rat_of_nat k) ''r'' None)))"
  using specialists_in_order_and_budget [OF agent_reach.sync [OF agent_reach.new [of None "\<lambda>k. rat_of_nat k" "''r''"],
        of SEMANTIC_RESOLVER "[(100, 200)]" "Inr [] :: outcome"]] by simp

text \<open>A synchronous stage hands on a result only when the deadline had not passed both when it started
  and after it was computed; otherwise its step is marked failed or the stage never starts.\<close>

theorem results_precede_deadline:
  fixes operation :: "agent_run \<Rightarrow> ('x agent_exc + 'a) \<times> agent_run"
  assumes "sync_step clk role operation run = (Inr v, run')" "keeps_run operation" "run_ok run"
  shows "clk (ag_ticks run) < ag_deadline run
    \<and> (\<exists>run1 run2. operation run1 = (Inr v, run2) \<and> clk (ag_ticks run2) < ag_deadline run)"
proof (cases "start_step clk role run :: ('x agent_exc + rat) \<times> agent_run")
  case (Pair s run1)
  with assms(1) obtain started where s: "s = Inr started" by (cases s) (auto simp: sync_step_def)
  note st = start_step_Inr [OF Pair [unfolded s] assms(3)]
  obtain res run2 where op: "operation run1 = (res, run2)" by fastforce
  from assms(1) Pair s op obtain w where res: "res = Inr w" by (cases res) (auto simp: sync_step_def Let_def)
  obtain q run3 where rem: "remaining clk run2 = (q, run3)" by fastforce
  from assms(1) Pair s op res rem obtain left where "q = Inr left" "w = v"
    by (cases q) (auto simp: sync_step_def Let_def)
  with remaining_cases(2) [OF rem] keeps_runD(3) [OF assms(2) op st(1)] st(5,7) op res show ?thesis by auto
qed

definition tick_clock :: "nat \<Rightarrow> rat" where
  "tick_clock k = rat_of_nat k"

definition demo_stage :: "(unit agent_exc + int) \<times> agent_run" where
  "demo_stage = sync_step tick_clock SEMANTIC_RESOLVER (reserve_all tick_clock [(100, 200)] (Inr 7)) (new_run tick_clock ''r'' None)"

lemma demo_stage_result: "fst demo_stage = Inr 7"
  by code_simp

theorem results_precede_deadline_witness:
  "tick_clock (ag_ticks (new_run tick_clock ''r'' None)) < ag_deadline (new_run tick_clock ''r'' None) \<and> fst demo_stage = Inr 7"
proof -
  have s: "sync_step tick_clock SEMANTIC_RESOLVER (reserve_all tick_clock [(100, 200)] (Inr 7)) (new_run tick_clock ''r'' None)
      = (Inr 7 :: unit agent_exc + int, snd demo_stage)"
    using demo_stage_result by (simp add: demo_stage_def prod_eq_iff)
  show ?thesis
    using results_precede_deadline [OF s reserve_all_keeps new_run_ok(1)] demo_stage_result by simp
qed

end
