(* ===== verification/Chat.thy ===== *)
theory Chat
  imports Certification Compiler Sessions AgentRuntime Governance
begin

section \<open>Chat: from a question to a verified answer\<close>

text \<open>
  \<open>services/demo_chat.py\<close> with the request and response of \<open>domain/chat.py\<close>, composed of the other
  components.  An operation takes the service's state (the session store and the agent run, if there is
  one) to a result and the state afterwards.  Parameters: the interpreter, the digests, the connectors,
  fresh identifiers and timestamps, the clock of the run, the token reservations the interpreter makes
  and where the event loop interrupts the work.
\<close>

subsection \<open>Requests and responses\<close>

datatype ChatStatus = CS_ANSWERED | CS_CLARIFICATION_REQUIRED | CS_OUT_OF_DOMAIN | CS_DENIED | CS_NO_SOURCE
  | CS_SOURCE_NOT_READY | CS_CONTEXT_NOT_CONNECTED | CS_INVALID | CS_VERIFICATION_FAILED

definition chat_status_value :: "ChatStatus \<Rightarrow> string" where
  "chat_status_value s = (case s of CS_ANSWERED \<Rightarrow> ''ANSWERED'' | CS_CLARIFICATION_REQUIRED \<Rightarrow> ''CLARIFICATION_REQUIRED''
     | CS_OUT_OF_DOMAIN \<Rightarrow> ''OUT_OF_DOMAIN'' | CS_DENIED \<Rightarrow> ''DENIED'' | CS_NO_SOURCE \<Rightarrow> ''NO_SOURCE''
     | CS_SOURCE_NOT_READY \<Rightarrow> ''SOURCE_NOT_READY'' | CS_CONTEXT_NOT_CONNECTED \<Rightarrow> ''CONTEXT_NOT_CONNECTED''
     | CS_INVALID \<Rightarrow> ''INVALID'' | CS_VERIFICATION_FAILED \<Rightarrow> ''VERIFICATION_FAILED'')"

record DemoChatRequest = QueryCompilationRequest +
  dr_include_debug :: bool

record SemanticCitation =
  sc_snapshot_id :: string
  sc_snapshot_hash :: string
  sc_publication_sequence :: int
  sc_effective_from :: instant
  sc_metric :: MetricDefinition
  sc_dimensions :: "BusinessEntity list"

record DemoChatResponse =
  rp_status :: ChatStatus
  rp_session_id :: uuid
  rp_message :: string
  rp_decision :: QuestionDecision
  rp_compilation_status :: "QueryCompilationStatus option"
  rp_query_ir :: "BusinessQueryIR option"
  rp_receipt :: "QueryReceipt option"
  rp_verification :: "VerificationReport option"
  rp_answer :: "CertifiedAnswer option"
  rp_ai_model :: "string option"
  rp_synthetic_data :: bool
  rp_context_used :: bool
  rp_semantic_context :: "SemanticCitation option"
  rp_agent_run :: "AgentRunReport option"
  rp_warnings :: "string list"

definition status_for_verdict :: "QuestionVerdict \<Rightarrow> ChatStatus option" where
  "status_for_verdict v = (case v of
     ACCEPT_KNOWLEDGE \<Rightarrow> Some CS_CONTEXT_NOT_CONNECTED
   | ACCEPT_EXTERNAL_AUGMENTED \<Rightarrow> None
   | CLARIFY \<Rightarrow> Some CS_CLARIFICATION_REQUIRED
   | VALID_NO_SOURCE \<Rightarrow> Some CS_NO_SOURCE
   | OUT_OF_DOMAIN \<Rightarrow> Some CS_OUT_OF_DOMAIN
   | INVALID_ANALYTIC_REQUEST \<Rightarrow> Some CS_INVALID
   | DENY \<Rightarrow> Some CS_DENIED
   | CONFLICTING_DEFINITIONS \<Rightarrow> Some CS_CLARIFICATION_REQUIRED
   | SOURCE_NOT_READY \<Rightarrow> Some CS_SOURCE_NOT_READY
   | ACCEPT_INTERNAL \<Rightarrow> None)"

subsection \<open>Environment and state\<close>

datatype connector_failure = NotReady string | Rejected string | ConnectorRaised py_exc

record connector =
  co_descriptor :: ConnectorDescriptor
  co_execute :: "StructuredQueryPlan \<Rightarrow> AccessContext \<Rightarrow> connector_failure + QueryReceipt"

datatype chat_exc = PackMissing string | SessionFailed session_error | EvaluationFailed evaluation_error
  | CompilationFailed compile_error | ConnectorFailed connector_failure | ChatRaised py_exc

datatype interruption = Cancel | Timeout

record chat_env =
  ce_packs :: pack_registry
  ce_interpreter :: interpreter
  ce_digests :: digests
  ce_result_digest :: "row list \<Rightarrow> string"
  ce_float_text :: "pyfloat \<Rightarrow> string"
  ce_connectors :: "string \<rightharpoonup> connector"
  ce_ai_model :: "string option"
  ce_synthetic_data :: bool
  ce_session_id :: uuid
  ce_decision_id :: uuid
  ce_query_id :: uuid
  ce_message_ids :: "uuid \<times> uuid"
  ce_now :: "nat \<Rightarrow> instant"
  ce_clock :: "nat \<Rightarrow> rat"
  ce_reservations :: "(int \<times> int) list"
  ce_reported_model :: "string option"
  ce_interrupt :: "AgentRole \<Rightarrow> interruption option"
  ce_timed_out :: bool

record 'db chat_state =
  cs_sessions :: 'db
  cs_run :: "agent_run option"

type_synonym ('db, 'a) chat_op = "'db chat_state \<Rightarrow> (chat_exc agent_exc + 'a) \<times> 'db chat_state"

definition succeed :: "'a \<Rightarrow> ('db, 'a) chat_op" where
  "succeed v st = (Inr v, st)"

definition raise_chat :: "chat_exc \<Rightarrow> ('db, 'a) chat_op" where
  "raise_chat e st = (Inl (OtherError e), st)"

definition and_then :: "('db, 'a) chat_op \<Rightarrow> ('a \<Rightarrow> ('db, 'b) chat_op) \<Rightarrow> ('db, 'b) chat_op" where
  "and_then p f st = (case p st of (Inl e, st') \<Rightarrow> (Inl e, st') | (Inr v, st') \<Rightarrow> f v st')"

definition on_sessions :: "('db \<Rightarrow> session_error + 'db) \<Rightarrow> ('db, unit) chat_op" where
  "on_sessions f st = (case f (cs_sessions st) of Inl e \<Rightarrow> (Inl (OtherError (SessionFailed e)), st)
     | Inr db \<Rightarrow> (Inr (), st\<lparr>cs_sessions := db\<rparr>))"

subsection \<open>Stages\<close>

definition interrupted :: "chat_env \<Rightarrow> AgentRole \<Rightarrow> chat_exc agent_exc + 'a \<Rightarrow> chat_exc agent_exc + 'a" where
  "interrupted env role res0 = (case ce_interrupt env role of None \<Rightarrow> res0
     | Some Cancel \<Rightarrow> Inl CancelledError | Some Timeout \<Rightarrow> Inl TimeoutError)"

text \<open>The work of a stage: the semantic resolver reserves tokens and may leave the provider's model name in
  the report.\<close>

definition report_model :: "string option \<Rightarrow> agent_run \<Rightarrow> agent_run" where
  "report_model m run = (case m of None \<Rightarrow> run | Some _ \<Rightarrow> run\<lparr>ag_report := (ag_report run)\<lparr>ar_model := m\<rparr>\<rparr>)"

definition stage_work :: "chat_env \<Rightarrow> AgentRole \<Rightarrow> chat_exc agent_exc + 'a \<Rightarrow> agent_run
    \<Rightarrow> (chat_exc agent_exc + 'a) \<times> agent_run" where
  "stage_work env role res0 run =
     (if role = SEMANTIC_RESOLVER
      then (let (r, run') = reserve_all (ce_clock env) (ce_reservations env) (interrupted env role res0) run
            in (r, report_model (ce_reported_model env) run'))
      else (interrupted env role res0, run))"

definition async_stage :: "chat_env \<Rightarrow> AgentRole \<Rightarrow> chat_exc agent_exc + 'a \<Rightarrow> ('db, 'a) chat_op" where
  "async_stage env role res0 st =
     (case cs_run st of
        None \<Rightarrow> (if ce_interrupt env role = Some Cancel then Inl CancelledError else res0, st)
      | Some run \<Rightarrow> (let (r, run') = async_step (ce_clock env) role (stage_work env role res0) run
                    in (r, st\<lparr>cs_run := Some run'\<rparr>)))"

definition sync_stage :: "chat_env \<Rightarrow> AgentRole \<Rightarrow> chat_exc agent_exc + 'a \<Rightarrow> ('db, 'a) chat_op" where
  "sync_stage env role res0 st =
     (case cs_run st of None \<Rightarrow> (res0, st)
      | Some run \<Rightarrow> (let (r, run') = sync_step (ce_clock env) role (\<lambda>r. (res0, r)) run
                    in (r, st\<lparr>cs_run := Some run'\<rparr>)))"

definition lift_exc :: "('e \<Rightarrow> chat_exc) \<Rightarrow> 'e + 'a \<Rightarrow> chat_exc agent_exc + 'a" where
  "lift_exc f r = (case r of Inl e \<Rightarrow> Inl (OtherError (f e)) | Inr v \<Rightarrow> Inr v)"

subsection \<open>Responses\<close>

definition resolved_ai_model :: "chat_env \<Rightarrow> 'db chat_state \<Rightarrow> InterpreterMode \<Rightarrow> string option" where
  "resolved_ai_model env st mode =
     (if mode = RULES then None
      else (case map_option (\<lambda>run. ar_model (ag_report run)) (cs_run st) of
              Some (Some m) \<Rightarrow> if m \<noteq> [] then Some m else ce_ai_model env
            | _ \<Rightarrow> ce_ai_model env))"

definition base_response :: "chat_env \<Rightarrow> uuid \<Rightarrow> QuestionDecision \<Rightarrow> ChatStatus \<Rightarrow> string \<Rightarrow> 'db chat_state \<Rightarrow> DemoChatResponse" where
  "base_response env sid decision status message st =
     \<lparr>rp_status = status, rp_session_id = sid, rp_message = message, rp_decision = decision,
      rp_compilation_status = None, rp_query_ir = None, rp_receipt = None, rp_verification = None,
      rp_answer = None, rp_ai_model = resolved_ai_model env st (qd_mode decision),
      rp_synthetic_data = ce_synthetic_data env, rp_context_used = False, rp_semantic_context = None,
      rp_agent_run = None, rp_warnings = []\<rparr>"

definition non_answer :: "chat_env \<Rightarrow> uuid \<Rightarrow> QuestionDecision \<Rightarrow> ChatStatus \<Rightarrow> string \<Rightarrow> QueryCompilationStatus option
    \<Rightarrow> BusinessQueryIR option \<Rightarrow> string list \<Rightarrow> ('db, DemoChatResponse) chat_op" where
  "non_answer env sid decision status message cstatus ir warnings st =
     (Inr ((base_response env sid decision status message st)\<lparr>rp_compilation_status := cstatus,
        rp_query_ir := ir, rp_warnings := warnings\<rparr>), st)"

definition with_debug :: "DemoChatRequest \<Rightarrow> 'a \<Rightarrow> 'a option" where
  "with_debug req x = (if dr_include_debug req then Some x else None)"

definition plan_of_ir :: "BusinessQueryIR \<Rightarrow> StructuredQueryPlan" where
  "plan_of_ir ir = \<lparr>pl_query_id = q_query_id ir, pl_decision_id = q_decision_id ir, pl_plan_hash = q_plan_hash ir,
     pl_tenant_id = q_tenant_id ir, pl_connector_id = q_source_connector_id ir, pl_metric_id = q_metric_id ir,
     pl_semantic_version = q_semantic_version ir, pl_value_type = q_value_type ir, pl_aggregation = q_aggregation ir,
     pl_unit = q_unit ir, pl_currency = q_currency ir, pl_dimensions = q_dimensions ir, pl_filters = q_filters ir,
     pl_time_window = q_time_window ir, pl_comparison = q_comparison ir, pl_row_limit = 100\<rparr>"

definition bounded_plan :: "connector \<Rightarrow> StructuredQueryPlan \<Rightarrow> StructuredQueryPlan" where
  "bounded_plan con plan = plan\<lparr>pl_row_limit := min (pl_row_limit plan) (cd_maximum_rows (co_descriptor con))\<rparr>"

subsection \<open>The pipeline\<close>

definition verify_and_answer :: "chat_env \<Rightarrow> DemoChatRequest \<Rightarrow> TenantDomainPack \<Rightarrow> uuid \<Rightarrow> QuestionDecision
    \<Rightarrow> QueryCompilationResult \<Rightarrow> BusinessQueryIR \<Rightarrow> QueryReceipt \<Rightarrow> ('db, DemoChatResponse) chat_op" where
  "verify_and_answer env req pack sid decision compilation ir receipt0 =
     (case List.find (\<lambda>m. md_id m = q_metric_id ir) (pk_metrics pack) of
        None \<Rightarrow> raise_chat (ChatRaised StopIteration)
      | Some metric \<Rightarrow>
        and_then (sync_stage env RESULT_VERIFIER (lift_exc ChatRaised (validate_result (ce_result_digest env) metric ir receipt0)))
          (\<lambda>(receipt, verification).
             if vr_status verification \<noteq> VERIFIED
             then (\<lambda>st. (Inr ((base_response env sid decision CS_VERIFICATION_FAILED
                    ''The result failed certification and no numeric answer was released.'' st)
                    \<lparr>rp_compilation_status := Some (qc_status compilation), rp_query_ir := with_debug req ir,
                     rp_receipt := with_debug req receipt, rp_verification := Some verification,
                     rp_warnings := qc_warnings compilation @ rc_warnings receipt\<rparr>), st))
             else and_then (sync_stage env ANSWER_COMPOSER (lift_exc ChatRaised
                      (compose (ce_float_text env) pack metric ir receipt)))
               (\<lambda>answer st. (Inr ((base_response env sid decision CS_ANSWERED (ca_text answer) st)
                    \<lparr>rp_compilation_status := Some (qc_status compilation), rp_query_ir := with_debug req ir,
                     rp_receipt := with_debug req receipt, rp_verification := Some verification,
                     rp_answer := Some answer, rp_warnings := qc_warnings compilation @ rc_warnings receipt\<rparr>), st))))"

text \<open>The receipt, or the failure of the registry or the connector, with its own error kept apart from the
  failures of the stage.\<close>

definition executed :: "chat_env \<Rightarrow> AccessContext \<Rightarrow> BusinessQueryIR \<Rightarrow> ('db, QueryReceipt) chat_op" where
  "executed env access ir =
     (case get_connector (ce_connectors env) (q_source_connector_id ir) of
        Inl e \<Rightarrow> raise_chat (ConnectorFailed (Rejected (''connector '' @ py_repr (q_source_connector_id ir) @ '' is not registered'')))
      | Inr con \<Rightarrow> async_stage env QUERY_EXECUTOR
                   (lift_exc ConnectorFailed (co_execute con (bounded_plan con (plan_of_ir ir)) access)))"

definition execute_and_answer :: "chat_env \<Rightarrow> DemoChatRequest \<Rightarrow> TenantDomainPack \<Rightarrow> uuid \<Rightarrow> QuestionDecision
    \<Rightarrow> QueryCompilationResult \<Rightarrow> BusinessQueryIR \<Rightarrow> ('db, DemoChatResponse) chat_op" where
  "execute_and_answer env req pack sid decision compilation ir st =
     (case executed env (qr_access (cr_request req)) ir st of
        (Inl (OtherError (ConnectorFailed (NotReady message))), st') \<Rightarrow>
          non_answer env sid decision CS_SOURCE_NOT_READY message (Some (qc_status compilation)) (with_debug req ir)
            (qc_warnings compilation) st'
      | (Inl (OtherError (ConnectorFailed (Rejected message))), st') \<Rightarrow>
          non_answer env sid decision CS_INVALID (''The governed connector rejected this request: '' @ message)
            (Some (qc_status compilation)) (with_debug req ir) (qc_warnings compilation) st'
      | (Inl e, st') \<Rightarrow> (Inl e, st')
      | (Inr receipt, st') \<Rightarrow> verify_and_answer env req pack sid decision compilation ir receipt st')"

definition compile_and_answer :: "chat_env \<Rightarrow> 'db session_port \<Rightarrow> DemoChatRequest \<Rightarrow> TenantDomainPack \<Rightarrow> uuid
    \<Rightarrow> QuestionDecision \<Rightarrow> ('db, DemoChatResponse) chat_op" where
  "compile_and_answer env S req pack sid decision =
     and_then (sync_stage env QUERY_PLANNER (lift_exc CompilationFailed
          (compile (ce_digests env) (ce_packs env) (ce_query_id env) (ce_now env 3)
             (QueryCompilationRequest.truncate req) decision sid)))
       (\<lambda>compilation.
         case qc_query_ir compilation of
           None \<Rightarrow> non_answer env sid decision
             (if qc_status compilation = CLARIFICATION_REQUIRED then CS_CLARIFICATION_REQUIRED else CS_INVALID)
             (case qc_issues compilation of i # _ \<Rightarrow> ci_message i
              | [] \<Rightarrow> ''The question could not be compiled into a governed data request.'')
             (Some (qc_status compilation)) None (qc_warnings compilation)
         | Some ir \<Rightarrow>
             and_then (on_sessions (sn_plan S (ce_now env 4) sid ir))
               (\<lambda>_. if q_requires_external ir
                 then non_answer env sid decision CS_CONTEXT_NOT_CONNECTED
                   (''The internal metric is recognized, but this question asks for external or ''
                     @ ''organizational context. That evidence service is not connected yet.'')
                   (Some (qc_status compilation)) (with_debug req ir) (qc_warnings compilation)
                 else execute_and_answer env req pack sid decision compilation ir))"

definition resolve_session :: "chat_env \<Rightarrow> 'db session_port \<Rightarrow> DemoChatRequest \<Rightarrow> ('db, uuid) chat_op" where
  "resolve_session env S req st =
     (let access = qr_access (cr_request req) in
      case qr_session_id (cr_request req) of
        None \<Rightarrow> and_then (on_sessions (sn_create S (ce_session_id env) (ce_now env 0) access))
                  (\<lambda>_. succeed (ce_session_id env)) st
      | Some sid \<Rightarrow> (case sn_ensure S sid access (cs_sessions st) of
                       Inl e \<Rightarrow> (Inl (OtherError (SessionFailed e)), st) | Inr _ \<Rightarrow> (Inr sid, st)))"

definition answer_body :: "chat_env \<Rightarrow> 'db session_port \<Rightarrow> DemoChatRequest \<Rightarrow> ('db, DemoChatResponse) chat_op" where
  "answer_body env S req =
     (case registry_get (ce_packs env) (ac_tenant_id (qr_access (cr_request req))) of
        Inl _ \<Rightarrow> raise_chat (PackMissing (ac_tenant_id (qr_access (cr_request req))))
      | Inr pack \<Rightarrow>
        and_then (resolve_session env S req) (\<lambda>sid.
          and_then (async_stage env SEMANTIC_RESOLVER (lift_exc EvaluationFailed
              (evaluate (ce_interpreter env) (ce_decision_id env) (ce_now env 1) (cr_request req) pack)))
            (\<lambda>decision.
              and_then (on_sessions (sn_evaluation S (ce_message_ids env) (ce_now env 2) sid
                  (qr_question (cr_request req)) decision))
                (\<lambda>_. case status_for_verdict (qd_verdict decision) of
                   Some status \<Rightarrow> non_answer env sid decision status (qd_user_message decision) None None []
                 | None \<Rightarrow> compile_and_answer env S req pack sid decision))))"

text \<open>With a run, the whole body is one operation under the run's deadline; when the deadline strikes, the
  cancellation inside becomes a timeout outside.  The report of a finished run is attached.\<close>

definition answer :: "chat_env \<Rightarrow> 'db session_port \<Rightarrow> DemoChatRequest \<Rightarrow> ('db, DemoChatResponse) chat_op" where
  "answer env S req st =
     (case cs_run st of None \<Rightarrow> answer_body env S req st
      | Some run \<Rightarrow>
        (let (result, st1) = (case remaining (ce_clock env) run of
               (Inl f, r) \<Rightarrow> (Inl (AgentFailed f), st\<lparr>cs_run := Some r\<rparr>)
             | (Inr _, r) \<Rightarrow>
                 (let (res, st1) = answer_body env S req (st\<lparr>cs_run := Some r\<rparr>)
                  in (if res = Inl CancelledError \<and> ce_timed_out env then Inl TimeoutError else res, st1)))
         in case cs_run st1 of None \<Rightarrow> (result, st1)
            | Some run1 \<Rightarrow>
              (case conclude_run result run1 of
                 (Inl e, run2) \<Rightarrow> (Inl e, st1\<lparr>cs_run := Some run2\<rparr>)
               | (Inr response, run2) \<Rightarrow>
                   (let run3 = run2\<lparr>ag_report := (ag_report run2)\<lparr>ar_status := chat_status_value (rp_status response)\<rparr>\<rparr>
                    in (Inr (response\<lparr>rp_agent_run := Some (ag_report run3)\<rparr>), st1\<lparr>cs_run := Some run3\<rparr>)))))"

text \<open>The demonstration connector behind the service.\<close>

definition demo_port :: "demo_connector \<Rightarrow> sql_environment \<Rightarrow> uuid \<Rightarrow> instant \<Rightarrow> connector" where
  "demo_port con senv rid now = \<lparr>co_descriptor = dc_descriptor con,
     co_execute = (\<lambda>plan access. case execute_read_only con senv rid now plan access of
        Inr rc \<Rightarrow> Inr rc
      | Inl (SourceNotReady message) \<Rightarrow> Inl (NotReady message)
      | Inl (PlanInvalid message) \<Rightarrow> Inl (Rejected message)
      | Inl (ExecRaised e) \<Rightarrow> Inl (ConnectorRaised e))\<rparr>"

subsection \<open>Inversion\<close>

lemma and_then_Inr:
  "and_then p f st = (Inr v, st') \<longleftrightarrow> (\<exists>w st1. p st = (Inr w, st1) \<and> f w st1 = (Inr v, st'))"
  by (auto simp: and_then_def split: sum.splits prod.splits)

lemma reserve_all_Inr:
  fixes out :: "'x agent_exc + 'a"
  shows "reserve_all clk rs out run = (Inr v, run') \<Longrightarrow> out = Inr v"
proof (induction rs arbitrary: run)
  case (Cons p rs)
  obtain i n where p: "p = (i, n)" by fastforce
  obtain q r1 where r: "(reserve clk i n run :: ('x agent_exc + unit) \<times> agent_run) = (q, r1)" by fastforce
  from Cons p r show ?case by (cases q) auto
qed simp

lemma interrupted_Inr: "interrupted env role res0 = Inr v \<Longrightarrow> res0 = Inr v"
  by (auto simp: interrupted_def split: option.splits interruption.splits)

lemma stage_work_Inr: "stage_work env role res0 run = (Inr v, run') \<Longrightarrow> res0 = Inr v"
  by (auto simp: stage_work_def dest!: reserve_all_Inr interrupted_Inr split: if_splits prod.splits)

lemma async_step_Inr:
  assumes "async_step clk role operation run = (Inr v, run')"
  shows "\<exists>r1 r2. operation r1 = (Inr v, r2)"
  using assms
  by (auto simp: async_step_def Let_def split: sum.splits prod.splits agent_exc.splits)

lemma sync_step_Inr:
  assumes "sync_step clk role operation run = (Inr v, run')"
  shows "\<exists>r1 r2. operation r1 = (Inr v, r2)"
  using assms
  by (auto simp: sync_step_def Let_def split: sum.splits prod.splits)

lemma async_stage_Inr: "async_stage env role res0 st = (Inr v, st') \<Longrightarrow> res0 = Inr v"
  by (auto simp: async_stage_def dest!: async_step_Inr stage_work_Inr split: option.splits if_splits prod.splits)

lemma sync_stage_Inr: "sync_stage env role res0 st = (Inr v, st') \<Longrightarrow> res0 = Inr v"
  by (auto simp: sync_stage_def dest!: sync_step_Inr split: option.splits prod.splits)

lemma lift_exc_Inr [simp]: "lift_exc f r = Inr v \<longleftrightarrow> r = Inr v"
  by (cases r) (simp_all add: lift_exc_def)

subsection \<open>What a released answer rests on\<close>

definition answer_chain :: "chat_env \<Rightarrow> DemoChatRequest \<Rightarrow> DemoChatResponse \<Rightarrow> bool" where
  "answer_chain env req rp \<longleftrightarrow>
     (\<exists>pack compilation ir con rc0 rc report metric a.
        ce_packs env (ac_tenant_id (qr_access (cr_request req))) = Some pack
      \<and> evaluate (ce_interpreter env) (ce_decision_id env) (ce_now env 1) (cr_request req) pack = Inr (rp_decision rp)
      \<and> compile (ce_digests env) (ce_packs env) (ce_query_id env) (ce_now env 3) (QueryCompilationRequest.truncate req)
           (rp_decision rp) (rp_session_id rp) = Inr compilation
      \<and> qc_query_ir compilation = Some ir \<and> \<not> q_requires_external ir
      \<and> plan_governed pack (QueryCompilationRequest.truncate req) (rp_decision rp) ir
      \<and> ce_connectors env (q_source_connector_id ir) = Some con
      \<and> co_execute con (bounded_plan con (plan_of_ir ir)) (qr_access (cr_request req)) = Inr rc0
      \<and> metric \<in> set (pk_metrics pack) \<and> md_id metric = q_metric_id ir
      \<and> validate_result (ce_result_digest env) metric ir rc0 = Inr (rc, report) \<and> vr_status report = VERIFIED
      \<and> compose (ce_float_text env) pack metric ir rc = Inr a
      \<and> rp_answer rp = Some a \<and> rp_message rp = ca_text a \<and> rp_verification rp = Some report)"

definition releases :: "chat_env \<Rightarrow> DemoChatRequest \<Rightarrow> DemoChatResponse \<Rightarrow> bool" where
  "releases env req rp \<longleftrightarrow>
     (if rp_status rp = CS_ANSWERED then answer_chain env req rp
      else rp_answer rp = None \<and> (rp_receipt rp \<noteq> None \<longrightarrow> rp_status rp = CS_VERIFICATION_FAILED \<and> dr_include_debug req))"

lemma non_answer_releases:
  "status \<noteq> CS_ANSWERED \<Longrightarrow> non_answer env sid decision status message cs ir ws st = (Inr rp, st') \<Longrightarrow> releases env req rp"
  by (auto simp: non_answer_def base_response_def releases_def)

lemma releases_run [simp]: "releases env req (rp\<lparr>rp_agent_run := r\<rparr>) = releases env req rp"
  by (simp add: releases_def answer_chain_def)

lemma with_debug_Some: "with_debug req x = Some y \<longleftrightarrow> dr_include_debug req \<and> y = x"
  by (auto simp: with_debug_def)

lemma status_for_verdict_not_answered: "status_for_verdict v = Some s \<Longrightarrow> s \<noteq> CS_ANSWERED"
  by (cases v) (auto simp: status_for_verdict_def)

lemma find_metric: "List.find (\<lambda>m. md_id m = i) ms = Some metric \<Longrightarrow> metric \<in> set ms \<and> md_id metric = i"
  by (auto simp: find_Some_iff)

lemma verify_and_answer_releases:
  assumes "verify_and_answer env req pack sid decision compilation ir rc0 st = (Inr rp, st')"
    and "ce_packs env (ac_tenant_id (qr_access (cr_request req))) = Some pack"
    and "evaluate (ce_interpreter env) (ce_decision_id env) (ce_now env 1) (cr_request req) pack = Inr decision"
    and "compile (ce_digests env) (ce_packs env) (ce_query_id env) (ce_now env 3) (QueryCompilationRequest.truncate req)
           decision sid = Inr compilation"
    and "qc_query_ir compilation = Some ir" "\<not> q_requires_external ir"
    and "plan_governed pack (QueryCompilationRequest.truncate req) decision ir"
    and "ce_connectors env (q_source_connector_id ir) = Some con"
    and "co_execute con (bounded_plan con (plan_of_ir ir)) (qr_access (cr_request req)) = Inr rc0"
  shows "releases env req rp"
proof -
  from assms(1) obtain metric where m: "List.find (\<lambda>m. md_id m = q_metric_id ir) (pk_metrics pack) = Some metric"
    by (auto simp: verify_and_answer_def raise_chat_def split: option.splits)
  from assms(1) [unfolded verify_and_answer_def m option.case and_then_Inr] obtain w st1 where
    w: "sync_stage env RESULT_VERIFIER (lift_exc ChatRaised (validate_result (ce_result_digest env) metric ir rc0)) st
      = (Inr w, st1)" and
    k: "(case w of (receipt, verification) \<Rightarrow> if vr_status verification \<noteq> VERIFIED
             then (\<lambda>st. (Inr ((base_response env sid decision CS_VERIFICATION_FAILED
                    ''The result failed certification and no numeric answer was released.'' st)
                    \<lparr>rp_compilation_status := Some (qc_status compilation), rp_query_ir := with_debug req ir,
                     rp_receipt := with_debug req receipt, rp_verification := Some verification,
                     rp_warnings := qc_warnings compilation @ rc_warnings receipt\<rparr>), st))
             else and_then (sync_stage env ANSWER_COMPOSER (lift_exc ChatRaised
                      (compose (ce_float_text env) pack metric ir receipt)))
               (\<lambda>answer st. (Inr ((base_response env sid decision CS_ANSWERED (ca_text answer) st)
                    \<lparr>rp_compilation_status := Some (qc_status compilation), rp_query_ir := with_debug req ir,
                     rp_receipt := with_debug req receipt, rp_verification := Some verification,
                     rp_answer := Some answer, rp_warnings := qc_warnings compilation @ rc_warnings receipt\<rparr>), st))) st1
       = (Inr rp, st')" by blast
  obtain rc report where rr: "w = (rc, report)" by fastforce
  from sync_stage_Inr [OF w] rr have v: "validate_result (ce_result_digest env) metric ir rc0 = Inr (rc, report)" by simp
  show ?thesis
  proof (cases "vr_status report = VERIFIED")
    case False
    with k rr show ?thesis by (auto simp: releases_def base_response_def with_debug_Some)
  next
    case True
    with k rr obtain a st2 where
      a: "sync_stage env ANSWER_COMPOSER (lift_exc ChatRaised (compose (ce_float_text env) pack metric ir rc)) st1 = (Inr a, st2)"
      and rp: "rp = (base_response env sid decision CS_ANSWERED (ca_text a) st2)
                    \<lparr>rp_compilation_status := Some (qc_status compilation), rp_query_ir := with_debug req ir,
                     rp_receipt := with_debug req rc, rp_verification := Some report,
                     rp_answer := Some a, rp_warnings := qc_warnings compilation @ rc_warnings rc\<rparr>"
      by (auto simp: and_then_Inr)
    from sync_stage_Inr [OF a] have c: "compose (ce_float_text env) pack metric ir rc = Inr a" by simp
    have f: "rp_status rp = CS_ANSWERED" "rp_decision rp = decision" "rp_session_id rp = sid" "rp_answer rp = Some a"
      "rp_message rp = ca_text a" "rp_verification rp = Some report" by (simp_all add: rp base_response_def)
    from find_metric [OF m] have mm: "metric \<in> set (pk_metrics pack)" "md_id metric = q_metric_id ir" by simp_all
    have "answer_chain env req rp" unfolding answer_chain_def f(2-6)
      using assms(2-9) mm v True c
      by (intro exI [of _ pack] exI [of _ compilation] exI [of _ ir] exI [of _ con] exI [of _ rc0] exI [of _ rc]
          exI [of _ report] exI [of _ metric] exI [of _ a] conjI) (assumption | rule refl)+
    with f(1) show ?thesis by (simp add: releases_def)
  qed
qed

lemma execute_and_answer_releases:
  assumes "execute_and_answer env req pack sid decision compilation ir st = (Inr rp, st')"
    and "ce_packs env (ac_tenant_id (qr_access (cr_request req))) = Some pack"
    and "evaluate (ce_interpreter env) (ce_decision_id env) (ce_now env 1) (cr_request req) pack = Inr decision"
    and "compile (ce_digests env) (ce_packs env) (ce_query_id env) (ce_now env 3) (QueryCompilationRequest.truncate req)
           decision sid = Inr compilation"
    and "qc_query_ir compilation = Some ir" "\<not> q_requires_external ir"
    and "plan_governed pack (QueryCompilationRequest.truncate req) decision ir"
  shows "releases env req rp"
proof -
  obtain r st1 where x: "executed env (qr_access (cr_request req)) ir st = (r, st1)" by fastforce
  show ?thesis
  proof (cases r)
    case (Inl e)
    with assms(1) x show ?thesis
      by (auto simp: execute_and_answer_def intro: non_answer_releases [rotated]
          split: agent_exc.splits chat_exc.splits connector_failure.splits)
  next
    case (Inr rc0)
    with x obtain con where con: "ce_connectors env (q_source_connector_id ir) = Some con" and
      "async_stage env QUERY_EXECUTOR (lift_exc ConnectorFailed (co_execute con (bounded_plan con (plan_of_ir ir))
         (qr_access (cr_request req)))) st = (Inr rc0, st1)"
      by (auto simp: executed_def get_connector_def raise_chat_def split: option.splits)
    from async_stage_Inr [OF this(2)]
    have "co_execute con (bounded_plan con (plan_of_ir ir)) (qr_access (cr_request req)) = Inr rc0" by simp
    moreover from assms(1) x Inr
    have "verify_and_answer env req pack sid decision compilation ir rc0 st1 = (Inr rp, st')"
      by (simp add: execute_and_answer_def)
    ultimately show ?thesis using verify_and_answer_releases assms(2-7) con by blast
  qed
qed

lemma compile_and_answer_releases:
  assumes "registry_ok (ce_packs env)"
    and "compile_and_answer env S req pack sid decision st = (Inr rp, st')"
    and "ce_packs env (ac_tenant_id (qr_access (cr_request req))) = Some pack"
    and "evaluate (ce_interpreter env) (ce_decision_id env) (ce_now env 1) (cr_request req) pack = Inr decision"
  shows "releases env req rp"
proof -
  from assms(2) obtain compilation st1 where
    c: "sync_stage env QUERY_PLANNER (lift_exc CompilationFailed (compile (ce_digests env) (ce_packs env) (ce_query_id env)
         (ce_now env 3) (QueryCompilationRequest.truncate req) decision sid)) st = (Inr compilation, st1)" and
    k: "(case qc_query_ir compilation of
           None \<Rightarrow> non_answer env sid decision
             (if qc_status compilation = CLARIFICATION_REQUIRED then CS_CLARIFICATION_REQUIRED else CS_INVALID)
             (case qc_issues compilation of i # _ \<Rightarrow> ci_message i
              | [] \<Rightarrow> ''The question could not be compiled into a governed data request.'')
             (Some (qc_status compilation)) None (qc_warnings compilation)
         | Some ir \<Rightarrow>
             and_then (on_sessions (sn_plan S (ce_now env 4) sid ir))
               (\<lambda>_. if q_requires_external ir
                 then non_answer env sid decision CS_CONTEXT_NOT_CONNECTED
                   (''The internal metric is recognized, but this question asks for external or ''
                     @ ''organizational context. That evidence service is not connected yet.'')
                   (Some (qc_status compilation)) (with_debug req ir) (qc_warnings compilation)
                 else execute_and_answer env req pack sid decision compilation ir)) st1 = (Inr rp, st')"
    unfolding compile_and_answer_def and_then_Inr by blast
  from sync_stage_Inr [OF c] have c: "compile (ce_digests env) (ce_packs env) (ce_query_id env)
      (ce_now env 3) (QueryCompilationRequest.truncate req) decision sid = Inr compilation" by simp
  show ?thesis
  proof (cases "qc_query_ir compilation")
    case None
    with k show ?thesis by (auto intro: non_answer_releases [rotated] split: if_splits)
  next
    case (Some ir)
    have "result_shape sid decision (Inr compilation)" unfolding c [symmetric] by (rule compile_shape)
    from compile_ir_status [OF this Some] have "qc_status compilation = COMPILED" .
    from compile_governed [OF assms(1) c this] Some assms(3)
    have g: "plan_governed pack (QueryCompilationRequest.truncate req) decision ir"
      by (auto simp: QueryCompilationRequest.defs)
    show ?thesis
    proof (cases "q_requires_external ir")
      case True
      with k Some show ?thesis by (auto simp: and_then_Inr intro: non_answer_releases [rotated])
    next
      case False
      with k Some obtain st2 where "execute_and_answer env req pack sid decision compilation ir st2 = (Inr rp, st')"
        by (auto simp: and_then_Inr)
      from execute_and_answer_releases [OF this assms(3,4) c Some False g] show ?thesis .
    qed
  qed
qed

lemma answer_body_releases:
  fixes st :: "'db chat_state"
  assumes "registry_ok (ce_packs env)" "answer_body env S req st = (Inr rp, st')"
  shows "releases env req rp"
proof -
  from assms(2) obtain pack where pack: "ce_packs env (ac_tenant_id (qr_access (cr_request req))) = Some pack"
    by (auto simp: answer_body_def registry_get_def raise_chat_def split: option.splits)
  with assms(2) obtain sid decision and st1 st2 st3 :: "'db chat_state" where
    d: "async_stage env SEMANTIC_RESOLVER (lift_exc EvaluationFailed
          (evaluate (ce_interpreter env) (ce_decision_id env) (ce_now env 1) (cr_request req) pack)) st1 = (Inr decision, st2)" and
    k: "(case status_for_verdict (qd_verdict decision) of
                   Some status \<Rightarrow> non_answer env sid decision status (qd_user_message decision) None None []
                 | None \<Rightarrow> compile_and_answer env S req pack sid decision) st3 = (Inr rp, st')"
    unfolding answer_body_def registry_get_def pack option.case sum.case and_then_Inr
    by (elim exE conjE) (rule that, assumption+)
  from async_stage_Inr [OF d]
  have e: "evaluate (ce_interpreter env) (ce_decision_id env) (ce_now env 1) (cr_request req) pack = Inr decision" by simp
  show ?thesis
  proof (cases "status_for_verdict (qd_verdict decision)")
    case (Some status)
    with k status_for_verdict_not_answered [OF Some] show ?thesis by (auto intro: non_answer_releases [rotated])
  next
    case None
    with k obtain st3 where "compile_and_answer env S req pack sid decision st3 = (Inr rp, st')" by auto
    from compile_and_answer_releases [OF assms(1) this pack e] show ?thesis .
  qed
qed

lemma conclude_run_Inr: "conclude_run result run = (Inr v, run') \<longleftrightarrow> result = Inr v \<and> run' = run"
  by (auto simp: conclude_run_def with_report_def Let_def split: sum.splits agent_exc.splits)

lemma answer_releases:
  assumes "registry_ok (ce_packs env)" "fst (answer env S req st) = Inr rp"
  shows "releases env req rp"
proof (cases "cs_run st")
  case None
  with assms(2) show ?thesis using answer_body_releases [OF assms(1), of S req st rp "snd (answer env S req st)"]
    by (simp add: answer_def prod_eq_iff)
next
  case (Some run)
  obtain q run1 where rem: "remaining (ce_clock env) run = (q, run1)" by fastforce
  obtain res st1 where body: "answer_body env S req (st\<lparr>cs_run := Some run1\<rparr>) = (res, st1)" by fastforce
  show ?thesis
  proof (cases q)
    case (Inl f)
    with assms(2) Some rem show ?thesis
      by (auto simp: answer_def conclude_run_def with_report_def Let_def)
  next
    case (Inr left)
    have "\<exists>rp0 r. res = Inr rp0 \<and> rp = rp0\<lparr>rp_agent_run := r\<rparr>"
    proof (cases "cs_run st1")
      case None
      with assms(2) Some rem Inr body show ?thesis
        by (cases res) (auto simp: answer_def Let_def split: if_splits intro: exI [of _ "rp_agent_run rp"])
    next
      case (Some run2)
      obtain c run3 where "conclude_run (if res = Inl CancelledError \<and> ce_timed_out env then Inl TimeoutError else res) run2
        = (c, run3)" by fastforce
      with assms(2) \<open>cs_run st = Some run\<close> Some rem Inr body show ?thesis
        by (cases c) (auto simp: answer_def Let_def conclude_run_Inr split: if_splits)
    qed
    then show ?thesis using answer_body_releases [OF assms(1)] body by auto
  qed
qed

subsection \<open>What the pipeline keeps\<close>

text \<open>The sessions only move by operations of the store, a run stays a run and keeps its budgets.\<close>

definition chat_ok :: "'db session_port \<Rightarrow> 'db \<Rightarrow> bool \<Rightarrow> 'db chat_state \<Rightarrow> bool" where
  "chat_ok S db0 b st \<longleftrightarrow> session_steps S db0 (cs_sessions st) \<and> (cs_run st = None) = b
     \<and> (case cs_run st of None \<Rightarrow> True | Some run \<Rightarrow> run_ok run \<and> owes 0 run)"

definition preserves :: "('db chat_state \<Rightarrow> bool) \<Rightarrow> ('db, 'a) chat_op \<Rightarrow> bool" where
  "preserves P p \<longleftrightarrow> (\<forall>st. P st \<longrightarrow> P (snd (p st)))"

lemma preservesI: "(\<And>st. P st \<Longrightarrow> P (snd (p st))) \<Longrightarrow> preserves P p"
  by (simp add: preserves_def)

lemma preservesD: "preserves P p \<Longrightarrow> P st \<Longrightarrow> P (snd (p st))"
  by (simp add: preserves_def)

named_theorems keeps

lemma preserves_and_then [keeps]:
  assumes "preserves P p" "\<And>v. preserves P (f v)"
  shows "preserves P (and_then p f)"
proof (rule preservesI)
  fix st assume "P st"
  with assms(1) have p: "P (snd (p st))" by (rule preservesD)
  obtain r st1 where r: "p st = (r, st1)" by fastforce
  show "P (snd (and_then p f st))"
    using p r preservesD [OF assms(2)] by (cases r) (simp_all add: and_then_def)
qed

lemma preserves_pure [keeps]:
  "preserves P (succeed v)" "preserves P (raise_chat e)" "preserves P (non_answer env sid d s m cs ir ws)"
  "preserves P (\<lambda>st. (g st, st))"
  by (simp_all add: preserves_def succeed_def raise_chat_def non_answer_def)

lemma report_model_simps [simp]:
  "run_ok (report_model m run) = run_ok run" "owes k (report_model m run) = owes k run"
  "ag_deadline (report_model m run) = ag_deadline run" "ag_limits (report_model m run) = ag_limits run"
  "ar_steps (ag_report (report_model m run)) = ar_steps (ag_report run)"
  by (auto simp: report_model_def run_ok_def owes_def split: option.split)

lemma stage_work_keeps: "keeps_run (stage_work env role res0)"
  unfolding keeps_run_def stage_work_def
  using reserve_all_keeps [of "ce_clock env" "ce_reservations env" "interrupted env role res0", unfolded keeps_run_def]
  by (auto split: prod.split)

lemma return_keeps: "keeps_run (Pair x)"
  by (simp add: keeps_run_def)

lemma stages_preserve [keeps]:
  fixes res0 :: "chat_exc agent_exc + 'a" and res1 :: "chat_exc agent_exc + 'b"
  shows "preserves (chat_ok S db0 b) (async_stage env role res0)"
    and "preserves (chat_ok S db0 b) (sync_stage env role res1)"
proof -
  have 1: "run_ok run' \<and> owes 0 run'" if "async_step (ce_clock env) role (stage_work env role res0) run = (r, run')"
    "run_ok run" "owes 0 run" for r run run'
    by (rule async_step_ok [OF stage_work_keeps that])
  have 2: "run_ok run' \<and> owes 0 run'" if "sync_step (ce_clock env) role (Pair res1) run = (r, run')"
    "run_ok run" "owes 0 run" for r run run'
    by (rule sync_step_ok [OF return_keeps that])
  show "preserves (chat_ok S db0 b) (async_stage env role res0)"
    by (rule preservesI) (auto simp: chat_ok_def async_stage_def split: option.splits prod.split dest: 1)
  show "preserves (chat_ok S db0 b) (sync_stage env role res1)"
    by (rule preservesI) (auto simp: chat_ok_def sync_stage_def split: option.splits prod.split dest: 2)
qed

lemma sessions_preserve [keeps]:
  assumes "\<And>db db'. f db = Inr db' \<Longrightarrow> session_steps S db0 db \<Longrightarrow> session_steps S db0 db'"
  shows "preserves (chat_ok S db0 b) (on_sessions f)"
  by (auto intro!: preservesI simp: chat_ok_def on_sessions_def split: sum.split dest: assms)

lemma session_operations_preserve [keeps]:
  "preserves (chat_ok S db0 b) (on_sessions (sn_create S sid now a))"
  "preserves (chat_ok S db0 b) (on_sessions (sn_evaluation S ids now sid q d))"
  "preserves (chat_ok S db0 b) (on_sessions (sn_plan S now sid ir))"
  by (rule sessions_preserve, metis session_steps.intros)+

lemma resolve_session_preserves [keeps]: "preserves (chat_ok S db0 b) (resolve_session env S req)"
  using preservesD [OF preserves_and_then [OF session_operations_preserve(1) preserves_pure(1)]]
  by (intro preservesI) (auto simp: resolve_session_def Let_def split: option.split sum.split)

lemma verify_and_answer_preserves [keeps]:
  "preserves (chat_ok S db0 b) (verify_and_answer env req pack sid decision compilation ir rc)"
  unfolding verify_and_answer_def by (auto intro!: keeps split: option.split prod.split)

lemma executed_preserves: "preserves (chat_ok S db0 b) (executed env access ir)"
  unfolding executed_def by (auto intro!: keeps split: sum.split)

lemma execute_and_answer_preserves [keeps]:
  "preserves (chat_ok S db0 b) (execute_and_answer env req pack sid decision compilation ir)"
proof (rule preservesI)
  fix st assume "chat_ok S db0 b st"
  with executed_preserves have "chat_ok S db0 b (snd (executed env (qr_access (cr_request req)) ir st))"
    by (rule preservesD)
  with preservesD [OF verify_and_answer_preserves]
  show "chat_ok S db0 b (snd (execute_and_answer env req pack sid decision compilation ir st))"
    by (auto simp: execute_and_answer_def non_answer_def split: sum.split prod.split agent_exc.split chat_exc.split
        connector_failure.split)
qed

lemma compile_and_answer_preserves [keeps]:
  "preserves (chat_ok S db0 b) (compile_and_answer env S req pack sid decision)"
  unfolding compile_and_answer_def by (intro keeps) (auto intro!: keeps split: option.split)

lemma answer_body_preserves: "preserves (chat_ok S db0 b) (answer_body env S req)"
proof -
  have c: "preserves (chat_ok S db0 b) (case v of Some status \<Rightarrow> non_answer env sid decision status m None None []
      | None \<Rightarrow> compile_and_answer env S req pack sid decision)" for v sid decision m pack
    by (auto intro: keeps split: option.split)
  show ?thesis unfolding answer_body_def by (auto intro!: keeps c split: sum.split)
qed

subsection \<open>Sessions of a request\<close>

definition responds :: "uuid \<Rightarrow> ('db, DemoChatResponse) chat_op \<Rightarrow> bool" where
  "responds sid p \<longleftrightarrow> (\<forall>st rp st'. p st = (Inr rp, st') \<longrightarrow> rp_session_id rp = sid)"

lemma responds_pure:
  "responds sid (raise_chat e)" "responds sid (non_answer env sid d s m cs ir ws)"
  "(\<And>st. rp_session_id (g st) = sid) \<Longrightarrow> responds sid (\<lambda>st. (Inr (g st), st))"
  by (auto simp: responds_def raise_chat_def non_answer_def base_response_def)

lemma responds_and_then: "(\<And>v. responds sid (f v)) \<Longrightarrow> responds sid (and_then p f)"
  by (auto simp: responds_def and_then_Inr)

lemma verify_and_answer_responds: "responds sid (verify_and_answer env req pack sid decision compilation ir rc)"
  unfolding verify_and_answer_def
  by (auto simp: base_response_def intro!: responds_pure responds_and_then split: option.split)

lemma execute_and_answer_responds: "responds sid (execute_and_answer env req pack sid decision compilation ir)"
  using verify_and_answer_responds [of sid env req pack decision compilation ir]
  by (auto simp: responds_def execute_and_answer_def non_answer_def base_response_def
      split: prod.splits sum.splits agent_exc.splits chat_exc.splits connector_failure.splits)

lemma compile_and_answer_responds: "responds sid (compile_and_answer env S req pack sid decision)"
  unfolding compile_and_answer_def
  by (intro responds_and_then)
    (auto intro!: responds_pure(2) responds_and_then execute_and_answer_responds split: option.split)

context chat_session_store
begin

lemma resolve_session_owner:
  assumes "resolve_session env S req st = (Inr sid, st1)"
  shows "owner (cs_sessions st1) sid = Some (ac_tenant_id (qr_access (cr_request req)), ac_user_id (qr_access (cr_request req)))"
  using assms create_owner ensure_iff
  by (auto simp: resolve_session_def Let_def and_then_Inr on_sessions_def succeed_def
      split: option.splits sum.splits)

lemma owners_kept:
  assumes "chat_ok S db b st" "owner db sid = Some o1"
  shows "owner (cs_sessions st) sid = Some o1"
  using assms by (intro steps_keep_owner [OF _ assms(2)]) (simp add: chat_ok_def)

lemma body_session:
  assumes "answer_body env S req st = (Inr rp, st')" "\<forall>run. cs_run st = Some run \<longrightarrow> run_ok run \<and> owes 0 run"
  shows "owner (cs_sessions st') (rp_session_id rp)
      = Some (ac_tenant_id (qr_access (cr_request req)), ac_user_id (qr_access (cr_request req)))
    \<and> (\<forall>sid. qr_session_id (cr_request req) = Some sid \<longrightarrow> rp_session_id rp = sid)"
proof -
  from assms(1) obtain pack where pack: "registry_get (ce_packs env) (ac_tenant_id (qr_access (cr_request req))) = Inr pack"
    by (auto simp: answer_body_def raise_chat_def split: sum.splits)
  define rest where "rest = (\<lambda>sid. and_then (async_stage env SEMANTIC_RESOLVER (lift_exc EvaluationFailed
              (evaluate (ce_interpreter env) (ce_decision_id env) (ce_now env 1) (cr_request req) pack)))
            (\<lambda>decision.
              and_then (on_sessions (sn_evaluation S (ce_message_ids env) (ce_now env 2) sid
                  (qr_question (cr_request req)) decision))
                (\<lambda>_. case status_for_verdict (qd_verdict decision) of
                   Some status \<Rightarrow> non_answer env sid decision status (qd_user_message decision) None None []
                 | None \<Rightarrow> compile_and_answer env S req pack sid decision)))"
  have "answer_body env S req = and_then (resolve_session env S req) rest"
    by (simp add: answer_body_def pack rest_def)
  with assms(1) obtain sid st1 where sid: "resolve_session env S req st = (Inr sid, st1)" and r: "rest sid st1 = (Inr rp, st')"
    by (auto simp: and_then_Inr)
  have "responds sid (rest sid)" unfolding rest_def
    by (auto intro!: responds_and_then responds_pure(2) compile_and_answer_responds split: option.split)
  with r have id: "rp_session_id rp = sid" unfolding responds_def by blast
  have ok: "chat_ok S db (cs_run st2 = None) st2" if "db = cs_sessions st2"
    "\<forall>run. cs_run st2 = Some run \<longrightarrow> run_ok run \<and> owes 0 run" for db and st2 :: "'db chat_state"
    using that by (auto simp: chat_ok_def session_steps.none split: option.split)
  have "cs_run st1 = cs_run st" using sid
    by (auto simp: resolve_session_def Let_def and_then_Inr on_sessions_def succeed_def split: option.splits sum.splits)
  with ok [of "cs_sessions st1" st1] assms(2) have ok1: "chat_ok S (cs_sessions st1) (cs_run st1 = None) st1" by simp
  have "preserves (chat_ok S (cs_sessions st1) (cs_run st1 = None)) (rest sid)" unfolding rest_def
    by (intro keeps) (auto intro!: keeps split: option.split)
  from preservesD [OF this ok1] r have "chat_ok S (cs_sessions st1) (cs_run st1 = None) st'" by simp
  from owners_kept [OF this resolve_session_owner [OF sid]] id have
    "owner (cs_sessions st') (rp_session_id rp)
      = Some (ac_tenant_id (qr_access (cr_request req)), ac_user_id (qr_access (cr_request req)))" by simp
  moreover have "\<forall>s. qr_session_id (cr_request req) = Some s \<longrightarrow> sid = s"
    using sid by (auto simp: resolve_session_def split: sum.splits)
  ultimately show ?thesis using id by simp
qed

end

context chat_session_store
begin

lemma answer_session:
  assumes "answer env S req st = (Inr rp, st')" "\<forall>run. cs_run st = Some run \<longrightarrow> run_ok run \<and> owes 0 run"
  shows "owner (cs_sessions st') (rp_session_id rp)
      = Some (ac_tenant_id (qr_access (cr_request req)), ac_user_id (qr_access (cr_request req)))
    \<and> (\<forall>sid. qr_session_id (cr_request req) = Some sid \<longrightarrow> rp_session_id rp = sid)"
proof (cases "cs_run st")
  case None
  with assms show ?thesis by (intro body_session) (auto simp: answer_def)
next
  case (Some run)
  obtain q run1 where rem: "remaining (ce_clock env) run = (q, run1)" by fastforce
  obtain res st1 where b: "answer_body env S req (st\<lparr>cs_run := Some run1\<rparr>) = (res, st1)" by fastforce
  show ?thesis
  proof (cases q)
    case (Inl f)
    with assms(1) Some rem show ?thesis by (auto simp: answer_def conclude_run_def with_report_def Let_def)
  next
    case (Inr left)
    have "\<exists>rp0 r. res = Inr rp0 \<and> rp = rp0\<lparr>rp_agent_run := r\<rparr> \<and> cs_sessions st' = cs_sessions st1"
    proof (cases "cs_run st1")
      case None
      with assms(1) Some rem Inr b show ?thesis
        by (cases res) (auto simp: answer_def Let_def split: if_splits intro: exI [of _ "rp_agent_run rp"])
    next
      case (Some run2)
      obtain c run3 where "conclude_run (if res = Inl CancelledError \<and> ce_timed_out env then Inl TimeoutError else res) run2
        = (c, run3)" by fastforce
      with assms(1) \<open>cs_run st = Some run\<close> Some rem Inr b show ?thesis
        by (cases c) (auto simp: answer_def Let_def conclude_run_Inr split: if_splits)
    qed
    then obtain rp0 r where x: "res = Inr rp0" "rp = rp0\<lparr>rp_agent_run := r\<rparr>" "cs_sessions st' = cs_sessions st1" by blast
    have "\<forall>run. cs_run (st\<lparr>cs_run := Some run1\<rparr>) = Some run \<longrightarrow> run_ok run \<and> owes 0 run"
      using assms(2) Some remaining_cases(1) [OF rem] by simp
    from body_session [OF b [unfolded x(1)] this] x show ?thesis by simp
  qed
qed

end

subsection \<open>Properties\<close>

text \<open>C1: An answer is released only at the end of the whole chain: the caller's pack, a decision of the
  admissibility engine, a governed plan compiled from it for that caller, a receipt of the connector the
  plan names, under its row bound, that the validator verified, and the text composed from the verified
  rows.  Every other response has no answer, and a receipt only when a debugging caller sees a failed
  certification.\<close>

theorem released_answers_are_governed:
  assumes "registry_ok (ce_packs env)" "fst (answer env S req st) = Inr rp"
  shows "releases env req rp"
  by (rule answer_releases [OF assms])

text \<open>Behind the demonstration connectors, an answer means a permitted plan: the caller's tenant, the read
  permission, the caller's regions, the metric's contract and the certified coverage, and a receipt that
  is sound for the plan.\<close>

theorem demo_answers_are_permitted:
  assumes "registry_ok (ce_packs env)" "fst (answer env S req st) = Inr rp" "rp_status rp = CS_ANSWERED"
    and "\<And>cid con. ce_connectors env cid = Some con \<Longrightarrow> con = demo_port (dcs cid) senv rid now"
  shows "\<exists>ir metric rc. plan_permitted (dcs (q_source_connector_id ir))
      (bounded_plan (demo_port (dcs (q_source_connector_id ir)) senv rid now) (plan_of_ir ir)) (qr_access (cr_request req))
    \<and> q_tenant_id ir = ac_tenant_id (qr_access (cr_request req))
    \<and> receipt_sound (ce_result_digest env) metric ir rc
    \<and> (\<exists>rc'. compose (ce_float_text env) (the (ce_packs env (q_tenant_id ir))) metric ir rc' = Inr (the (rp_answer rp))
         \<and> rc_result_rows rc' = rc_result_rows rc)"
proof -
  from answer_releases [OF assms(1,2)] assms(3) have "answer_chain env req rp" by (simp add: releases_def)
  then obtain pack ir con rc0 rc report metric a where
    pack: "ce_packs env (ac_tenant_id (qr_access (cr_request req))) = Some pack" and
    g: "plan_governed pack (QueryCompilationRequest.truncate req) (rp_decision rp) ir" and
    con: "ce_connectors env (q_source_connector_id ir) = Some con" and
    ex: "co_execute con (bounded_plan con (plan_of_ir ir)) (qr_access (cr_request req)) = Inr rc0" and
    v: "validate_result (ce_result_digest env) metric ir rc0 = Inr (rc, report)" "vr_status report = VERIFIED" and
    c: "compose (ce_float_text env) pack metric ir rc = Inr a" "rp_answer rp = Some a"
    unfolding answer_chain_def by blast
  from assms(4) [OF con] have con: "con = demo_port (dcs (q_source_connector_id ir)) senv rid now" .
  have "plan_permitted (dcs (q_source_connector_id ir)) (bounded_plan con (plan_of_ir ir)) (qr_access (cr_request req))"
    using ex validate_plan_Nil [of "dcs (q_source_connector_id ir)" "bounded_plan con (plan_of_ir ir)" "qr_access (cr_request req)"]
    unfolding con by (auto simp: demo_port_def execute_read_only_def split: sum.splits if_splits)
  moreover have t: "q_tenant_id ir = ac_tenant_id (qr_access (cr_request req))"
    using g by (simp add: plan_governed_def Let_def QueryCompilationRequest.defs)
  moreover have "receipt_sound (ce_result_digest env) metric ir rc0" using validate_result_iff(1) [OF v(1)] v(2) by blast
  moreover have "rc_result_rows rc = rc_result_rows rc0" using validate_result_iff(2) [OF v(1)] by simp
  ultimately show ?thesis using c pack unfolding con by (intro exI [of _ ir] exI [of _ metric] exI [of _ rc0]) auto
qed

text \<open>With the local session store, a response belongs to a session of the caller, the one asked for if
  there was one; so a session of another tenant or user is never answered in.\<close>

theorem responses_stay_in_callers_session:
  assumes "answer env sqlite_sessions req st = (Inr rp, st')"
    and "\<forall>run. cs_run st = Some run \<longrightarrow> run_ok run \<and> owes 0 run"
  shows "ensure_access (rp_session_id rp) (qr_access (cr_request req)) (cs_sessions st') = Inr ()
    \<and> (\<forall>sid. qr_session_id (cr_request req) = Some sid \<longrightarrow> rp_session_id rp = sid)"
  using ss.answer_session [OF assms] ss.ensure_iff [of "rp_session_id rp" "qr_access (cr_request req)" "cs_sessions st'"]
  by (simp add: sqlite_sessions_def)

subsection \<open>A request of the demonstration service\<close>

definition demo_chat_env :: chat_env where
  "demo_chat_env = \<lparr>ce_packs = [''demo-telecom'' \<mapsto> demo_pack], ce_interpreter = (\<lambda>_ _ _. Inr activations_reading),
     ce_digests = demo_digests, ce_result_digest = se_result_digest demo_env, ce_float_text = (\<lambda>_. ''x''),
     ce_connectors = (\<lambda>_. Some (demo_port demo_con demo_env ''r1'' 0)),
     ce_ai_model = None, ce_synthetic_data = True, ce_session_id = ''s1'', ce_decision_id = ''d1'', ce_query_id = ''q1'',
     ce_message_ids = (''m1'', ''m2''), ce_now = (\<lambda>k. int k), ce_clock = (\<lambda>k. 0), ce_reservations = [(100, 200)],
     ce_reported_model = Some ''model'', ce_interrupt = (\<lambda>_. None), ce_timed_out = False\<rparr>"

definition demo_chat_request :: "DemoChatRequest" where
  "demo_chat_request = QueryCompilationRequest.extend (demo_request ''activations by region'') \<lparr>dr_include_debug = False\<rparr>"

definition demo_response :: "chat_exc agent_exc + DemoChatResponse" where
  "demo_response = fst (answer demo_chat_env sqlite_sessions demo_chat_request \<lparr>cs_sessions = empty_sessions, cs_run = None\<rparr>)"

lemma demo_answered: "case demo_response of Inl e \<Rightarrow> False | Inr rp \<Rightarrow> rp_status rp = CS_ANSWERED"
  by code_simp

definition demo_chat_state :: "session_db chat_state" where
  "demo_chat_state = \<lparr>cs_sessions = empty_sessions, cs_run = None\<rparr>"

lemma demo_answer:
  obtains rp st' where "answer demo_chat_env sqlite_sessions demo_chat_request demo_chat_state = (Inr rp, st')"
    "rp_status rp = CS_ANSWERED"
  using demo_answered by (cases "answer demo_chat_env sqlite_sessions demo_chat_request demo_chat_state")
    (auto simp: demo_response_def demo_chat_state_def split: sum.splits)

lemma demo_chat_registry: "registry_ok (ce_packs demo_chat_env)"
  using demo_registry_ok by (simp add: demo_chat_env_def)

theorem released_answers_are_governed_witness:
  "\<exists>rp. fst (answer demo_chat_env sqlite_sessions demo_chat_request demo_chat_state) = Inr rp
     \<and> rp_status rp = CS_ANSWERED \<and> answer_chain demo_chat_env demo_chat_request rp"
proof -
  obtain rp st' where a: "answer demo_chat_env sqlite_sessions demo_chat_request demo_chat_state = (Inr rp, st')"
    "rp_status rp = CS_ANSWERED" by (rule demo_answer)
  have f: "fst (answer demo_chat_env sqlite_sessions demo_chat_request demo_chat_state) = Inr rp" using a(1) by simp
  from released_answers_are_governed [OF demo_chat_registry f] a f show ?thesis by (simp add: releases_def)
qed

theorem demo_answers_are_permitted_witness:
  "\<exists>ir. plan_permitted demo_con (bounded_plan (demo_port demo_con demo_env ''r1'' 0) (plan_of_ir ir)) analyst"
proof -
  obtain rp st' where a: "answer demo_chat_env sqlite_sessions demo_chat_request demo_chat_state = (Inr rp, st')"
    "rp_status rp = CS_ANSWERED" by (rule demo_answer)
  have f: "fst (answer demo_chat_env sqlite_sessions demo_chat_request demo_chat_state) = Inr rp" using a(1) by simp
  have "qr_access (cr_request demo_chat_request) = analyst"
    by (simp add: demo_chat_request_def QueryCompilationRequest.defs demo_request_def)
  with demo_answers_are_permitted [OF demo_chat_registry f a(2), of "\<lambda>_. demo_con" demo_env "''r1''" 0]
  show ?thesis by (auto simp: demo_chat_env_def)
qed

theorem responses_stay_in_callers_session_witness:
  "\<exists>rp db. fst (answer demo_chat_env sqlite_sessions demo_chat_request demo_chat_state) = Inr rp
     \<and> ensure_access (rp_session_id rp) analyst db = Inr ()"
proof -
  obtain rp st' where a: "answer demo_chat_env sqlite_sessions demo_chat_request demo_chat_state = (Inr rp, st')"
    by (rule demo_answer)
  have "qr_access (cr_request demo_chat_request) = analyst"
    by (simp add: demo_chat_request_def QueryCompilationRequest.defs demo_request_def)
  with responses_stay_in_callers_session [OF a] a show ?thesis by (auto simp: demo_chat_state_def)
qed

end
