(* ===== verification/ChatRuns.thy ===== *)
theory ChatRuns
  imports Chat
begin

section \<open>ChatRuns: a chat request under an agent run\<close>

text \<open>
  What the run of \<open>services/agent_runtime.py\<close> changes about a chat request of \<open>services/demo_chat.py\<close>:
  every outcome is reported, and as long as no budget or deadline is hit nothing else.
\<close>

subsection \<open>A run that is never cut short\<close>

text \<open>The two states of the same request with a run that has \<open>n\<close> steps behind it, and without a run.\<close>

definition twin :: "chat_env \<Rightarrow> nat \<Rightarrow> 'db chat_state \<Rightarrow> 'db chat_state \<Rightarrow> bool" where
  "twin env n st st0 \<longleftrightarrow> cs_sessions st = cs_sessions st0 \<and> cs_run st0 = None
     \<and> (\<exists>run. cs_run st = Some run \<and> run_ok run \<and> length (ar_steps (ag_report run)) = n
          \<and> 5 \<le> al_maximum_steps (ag_limits run) \<and> (\<forall>k. ce_clock env k < ag_deadline run)
          \<and> (n = 0 \<longrightarrow> ar_usage (ag_report run) = ar_usage (initial_report [])
               \<and> int (length (ce_reservations env)) \<le> al_maximum_model_calls (ag_limits run)
               \<and> sum_list (map (\<lambda>(i, out). i + out) (ce_reservations env)) \<le> al_maximum_total_tokens (ag_limits run)))"

definition undisturbed :: "chat_env \<Rightarrow> bool" where
  "undisturbed env \<longleftrightarrow> ce_interrupt env = (\<lambda>_. None) \<and> (\<forall>(i, out)\<in>set (ce_reservations env). 0 \<le> i + out)"

lemma remaining_healthy:
  assumes "\<forall>k. clk k < ag_deadline run"
  shows "\<exists>left. remaining clk run = (Inr left, run\<lparr>ag_ticks := Suc (ag_ticks run)\<rparr>)"
  using assms by (auto simp: remaining_def monotonic_def Let_def not_le)

lemma role_is_new:
  assumes "run_ok run" "stage_index role = length (ar_steps (ag_report run))"
  shows "role \<notin> as_role ` set (ar_steps (ag_report run))"
proof -
  let ?steps = "ar_steps (ag_report run)"
  from assms(1) have "map fst (map (\<lambda>s. (as_role s, as_tool s)) ?steps) = map fst (take (length ?steps) TOOLS)"
    by (simp add: run_ok_def Let_def)
  then have "map as_role ?steps = map fst (take (stage_index role) TOOLS)" using assms(2) by (simp add: comp_def)
  then have "as_role ` set ?steps = set (map fst (take (stage_index role) TOOLS))" by (metis list.set_map)
  moreover have "role \<notin> set (map fst (take (stage_index role) TOOLS))"
    by (cases role) (simp_all add: TOOLS_def stage_index_def)
  ultimately show ?thesis by simp
qed

lemma start_step_healthy:
  assumes "run_ok run" "stage_index role = length (ar_steps (ag_report run))"
    and "5 \<le> al_maximum_steps (ag_limits run)" "\<forall>k. clk k < ag_deadline run"
  shows "\<exists>started run'. start_step clk role run = (Inr started, run')
    \<and> ar_usage (ag_report run') = ar_usage (ag_report run)"
proof -
  from remaining_healthy [OF assms(4)] obtain left where
    r: "remaining clk run = (Inr left, run\<lparr>ag_ticks := Suc (ag_ticks run)\<rparr>)" by blast
  have "length (ar_steps (ag_report run)) < 5"
    using assms(2) by (cases role) (auto simp: stage_index_def TOOLS_def)
  with assms(3) have "int (length (ar_steps (ag_report run))) < al_maximum_steps (ag_limits run)" by linarith
  with role_is_new [OF assms(1,2)] assms(2) show ?thesis
    by (auto simp: start_step_def r Let_def monotonic_def notify_def set_steps_def)
qed

lemma close_step_simps [simp]:
  "length (ar_steps (ag_report (close_step clk i s t run))) = length (ar_steps (ag_report run))"
  "ag_limits (close_step clk i s t run) = ag_limits run" "ag_deadline (close_step clk i s t run) = ag_deadline run"
  by (simp_all add: close_step_def monotonic_def Let_def notify_def set_steps_def)

lemma reserve_all_healthy:
  fixes out :: "'x agent_exc + 'a"
  assumes "\<forall>k. clk k < ag_deadline run" "run_ok run" "\<forall>(i, n)\<in>set rs. 0 \<le> i + n"
    and "au_model_calls (ar_usage (ag_report run)) + int (length rs) \<le> al_maximum_model_calls (ag_limits run)"
    and "au_reserved_tokens (ar_usage (ag_report run)) + sum_list (map (\<lambda>(i, n). i + n) rs) \<le> al_maximum_total_tokens (ag_limits run)"
  shows "\<exists>run'. reserve_all clk rs out run = (out, run') \<and> run_ok run' \<and> ag_limits run' = ag_limits run
    \<and> ag_deadline run' = ag_deadline run \<and> length (ar_steps (ag_report run')) = length (ar_steps (ag_report run))"
  using assms
proof (induction rs arbitrary: run)
  case (Cons p rs)
  obtain i n where p: "p = (i, n)" by fastforce
  let ?u = "ar_usage (ag_report run)"
  have nonneg: "0 \<le> sum_list (map (\<lambda>(i, n). i + n) rs)" "0 \<le> i + n"
    using Cons.prems(3) p by (force intro: sum_list_nonneg)+
  obtain q run1 where res: "(reserve clk i n run :: ('x agent_exc + unit) \<times> agent_run) = (q, run1)" by fastforce
  from remaining_healthy [OF Cons.prems(1)] obtain left where
    r: "remaining clk run = (Inr left, run\<lparr>ag_ticks := Suc (ag_ticks run)\<rparr>)" by blast
  from Cons.prems(4,5) p nonneg have "au_model_calls ?u < al_maximum_model_calls (ag_limits run)"
    "au_reserved_tokens ?u + (i + n) \<le> al_maximum_total_tokens (ag_limits run)" by auto
  with res r have q: "q = Inr ()" and
    u: "au_model_calls (ar_usage (ag_report run1)) = au_model_calls ?u + 1"
    "au_reserved_tokens (ar_usage (ag_report run1)) = au_reserved_tokens ?u + (i + n)"
    by (auto simp: reserve_def Let_def notify_def split: if_splits)
  note k = reserve_ok [OF res Cons.prems(2)]
  have "\<exists>run'. reserve_all clk rs out run1 = (out, run') \<and> run_ok run' \<and> ag_limits run' = ag_limits run1
    \<and> ag_deadline run' = ag_deadline run1 \<and> length (ar_steps (ag_report run')) = length (ar_steps (ag_report run1))"
    using Cons.prems k u p by (intro Cons.IH) auto
  then show ?case using p res q k by auto
qed simp

lemma twinI:
  assumes "cs_sessions st = cs_sessions st0" "cs_run st0 = None" "run_ok run" "length (ar_steps (ag_report run)) = Suc n"
    "5 \<le> al_maximum_steps (ag_limits run)" "\<forall>k. ce_clock env k < ag_deadline run"
  shows "twin env (Suc n) (st\<lparr>cs_run := Some run\<rparr>) st0"
  using assms by (auto simp: twin_def)

lemma sync_stage_twin:
  fixes res :: "chat_exc agent_exc + 'a"
  assumes "twin env n st st0" "stage_index role = n"
  shows "\<exists>st'. sync_stage env role res st = (res, st') \<and> sync_stage env role res st0 = (res, st0) \<and> twin env (Suc n) st' st0"
proof -
  from assms(1) obtain run where run: "cs_run st = Some run" "run_ok run" "length (ar_steps (ag_report run)) = n"
    "5 \<le> al_maximum_steps (ag_limits run)" "\<forall>k. ce_clock env k < ag_deadline run"
    and st: "cs_sessions st = cs_sessions st0" "cs_run st0 = None" by (auto simp: twin_def)
  from start_step_healthy [OF run(2) _ run(4,5), of role] assms(2) run(3) obtain started run1 where
    s: "(start_step (ce_clock env) role run :: (chat_exc agent_exc + rat) \<times> agent_run) = (Inr started, run1)" by fastforce
  note k = start_step_Inr [OF s run(2)]
  from k(7) run(5) have d1: "\<forall>k. ce_clock env k < ag_deadline run1" by simp
  from remaining_healthy [OF d1] obtain left where
    r: "remaining (ce_clock env) run1 = (Inr left, run1\<lparr>ag_ticks := Suc (ag_ticks run1)\<rparr>)" by blast
  have "\<exists>status run3. sync_step (ce_clock env) role (Pair res) run
      = (res, close_step (ce_clock env) n status started run3) \<and> run_ok run3
      \<and> ag_limits run3 = ag_limits run1 \<and> ag_deadline run3 = ag_deadline run1
      \<and> length (ar_steps (ag_report run3)) = length (ar_steps (ag_report run1))"
    using s r run(3) k(1)
    by (intro exI [of _ "case res of Inr _ \<Rightarrow> SUCCEEDED | Inl CancelledError \<Rightarrow> STEP_RUNNING | Inl _ \<Rightarrow> STEP_FAILED"]
          exI [of _ "case res of Inr _ \<Rightarrow> run1\<lparr>ag_ticks := Suc (ag_ticks run1)\<rparr> | Inl _ \<Rightarrow> run1"])
      (auto simp: sync_step_def Let_def split: sum.split)
  then obtain status run3 where w: "sync_step (ce_clock env) role (Pair res) run
      = (res, close_step (ce_clock env) n status started run3)" "run_ok run3" "ag_limits run3 = ag_limits run1"
    "ag_deadline run3 = ag_deadline run1" "length (ar_steps (ag_report run3)) = length (ar_steps (ag_report run1))" by blast
  have "twin env (Suc n) (st\<lparr>cs_run := Some (close_step (ce_clock env) n status started run3)\<rparr>) st0"
    using st w k run by (intro twinI) auto
  then show ?thesis using run(1) st(2) w(1) by (simp add: sync_stage_def)
qed

lemma async_step_other:
  assumes "(start_step clk role run :: (chat_exc agent_exc + rat) \<times> agent_run) = (Inr started, run1)" "remaining clk run1 = (Inr left, run2)"
    "operation run2 = (lift_exc f x, run3)"
  shows "\<exists>status. async_step clk role operation run
    = (lift_exc f x, close_step clk (length (ar_steps (ag_report run))) status started run3)"
  using assms by (cases x) (auto simp: async_step_def Let_def lift_exc_def)

lemma stage_work_healthy:
  assumes "undisturbed env" "run_ok run" "\<forall>k. ce_clock env k < ag_deadline run"
    and "role = SEMANTIC_RESOLVER \<Longrightarrow> ar_usage (ag_report run) = ar_usage (initial_report [])
               \<and> int (length (ce_reservations env)) \<le> al_maximum_model_calls (ag_limits run)
               \<and> sum_list (map (\<lambda>(i, out). i + out) (ce_reservations env)) \<le> al_maximum_total_tokens (ag_limits run)"
  shows "\<exists>run'. stage_work env role res run = (res, run') \<and> run_ok run' \<and> ag_limits run' = ag_limits run
    \<and> ag_deadline run' = ag_deadline run \<and> length (ar_steps (ag_report run')) = length (ar_steps (ag_report run))"
proof -
  have i: "interrupted env role res = res" using assms(1) by (simp add: undisturbed_def interrupted_def)
  show ?thesis
  proof (cases "role = SEMANTIC_RESOLVER")
    case True
    from reserve_all_healthy [OF assms(3,2), of "ce_reservations env" res] assms(1) assms(4) [OF True] obtain run' where
      "reserve_all (ce_clock env) (ce_reservations env) res run = (res, run')" "run_ok run'" "ag_limits run' = ag_limits run"
      "ag_deadline run' = ag_deadline run" "length (ar_steps (ag_report run')) = length (ar_steps (ag_report run))"
      by (auto simp: undisturbed_def initial_report_def)
    then show ?thesis using True i
      by (auto simp: stage_work_def)
  qed (use assms(2) i in \<open>simp add: stage_work_def\<close>)
qed

lemma async_stage_twin:
  fixes x :: "'e + 'a"
  assumes "undisturbed env" "twin env n st st0" "stage_index role = n"
  shows "\<exists>st'. async_stage env role (lift_exc f x) st = (lift_exc f x, st') \<and>
    async_stage env role (lift_exc f x) st0 = (lift_exc f x, st0) \<and> twin env (Suc n) st' st0"
proof -
  from assms(2) obtain run where run: "cs_run st = Some run" "run_ok run" "length (ar_steps (ag_report run)) = n"
    "5 \<le> al_maximum_steps (ag_limits run)" "\<forall>k. ce_clock env k < ag_deadline run"
    and st: "cs_sessions st = cs_sessions st0" "cs_run st0 = None"
    and u: "n = 0 \<Longrightarrow> ar_usage (ag_report run) = ar_usage (initial_report [])
               \<and> int (length (ce_reservations env)) \<le> al_maximum_model_calls (ag_limits run)
               \<and> sum_list (map (\<lambda>(i, out). i + out) (ce_reservations env)) \<le> al_maximum_total_tokens (ag_limits run)"
    by (auto simp: twin_def)
  from start_step_healthy [OF run(2) _ run(4,5), of role] assms(3) run(3) obtain started run1 where
    s: "(start_step (ce_clock env) role run :: (chat_exc agent_exc + rat) \<times> agent_run) = (Inr started, run1)"
      "ar_usage (ag_report run1) = ar_usage (ag_report run)" by fastforce
  note k = start_step_Inr [OF s(1) run(2)]
  from k(7) run(5) have d1: "\<forall>k. ce_clock env k < ag_deadline run1" by simp
  from remaining_healthy [OF d1] obtain left where
    r: "remaining (ce_clock env) run1 = (Inr left, run1\<lparr>ag_ticks := Suc (ag_ticks run1)\<rparr>)" by blast
  let ?run2 = "run1\<lparr>ag_ticks := Suc (ag_ticks run1)\<rparr>"
  have "role = SEMANTIC_RESOLVER \<Longrightarrow> n = 0" using assms(3) by (simp add: stage_index_def TOOLS_def)
  then obtain run3 where w: "stage_work env role (lift_exc f x) ?run2 = (lift_exc f x, run3)" "run_ok run3"
    "ag_limits run3 = ag_limits run1" "ag_deadline run3 = ag_deadline run1"
    "length (ar_steps (ag_report run3)) = length (ar_steps (ag_report run1))"
    using stage_work_healthy [OF assms(1), of ?run2 role "lift_exc f x"] k(1,6) d1 u s(2) by auto
  from async_step_other [of "ce_clock env" role run started run1 left ?run2 "stage_work env role (lift_exc f x)" f x run3,
      OF s(1) r w(1)] obtain status where
    a: "async_step (ce_clock env) role (stage_work env role (lift_exc f x)) run
      = (lift_exc f x, close_step (ce_clock env) n status started run3)" using run(3) by blast
  have "twin env (Suc n) (st\<lparr>cs_run := Some (close_step (ce_clock env) n status started run3)\<rparr>) st0"
    using st w k run by (intro twinI) auto
  then show ?thesis using run(1) st(2) a assms(1) by (simp add: async_stage_def undisturbed_def)
qed

subsection \<open>The pipeline with and without the run\<close>

text \<open>A response up to the fields in which a run shows.\<close>

definition forget :: "DemoChatResponse \<Rightarrow> DemoChatResponse" where
  "forget rp = rp\<lparr>rp_ai_model := None, rp_agent_run := None\<rparr>"

definition same_answer :: "chat_exc agent_exc + DemoChatResponse \<Rightarrow> chat_exc agent_exc + DemoChatResponse \<Rightarrow> bool" where
  "same_answer r r0 \<longleftrightarrow> (case (r, r0) of
     (Inr rp, Inr rp0) \<Rightarrow> forget rp = forget rp0
   | (Inl (OtherError e), Inl (OtherError e0)) \<Rightarrow> e = e0
   | _ \<Rightarrow> False)"

text \<open>An operation of the pipeline takes twins to twins; a response is the same up to those fields.\<close>

definition sim :: "chat_env \<Rightarrow> nat \<Rightarrow> nat \<Rightarrow> ('db, 'a) chat_op \<Rightarrow> bool" where
  "sim env n m p \<longleftrightarrow> (\<forall>st st0. twin env n st st0 \<longrightarrow> (\<exists>x st' st0'. p st = (lift_exc id x, st') \<and> p st0 = (lift_exc id x, st0')
     \<and> twin env m st' st0'))"

definition simr :: "chat_env \<Rightarrow> nat \<Rightarrow> ('db, DemoChatResponse) chat_op \<Rightarrow> bool" where
  "simr env n p \<longleftrightarrow> (\<forall>st st0. twin env n st st0 \<longrightarrow>
     same_answer (fst (p st)) (fst (p st0)) \<and> cs_sessions (snd (p st)) = cs_sessions (snd (p st0)))"

lemma same_error [simp]: "same_answer (Inl (OtherError e)) (Inl (OtherError e))"
  by (simp add: same_answer_def)

lemma lift_lift: "lift_exc f x = lift_exc id (map_sum f id x)"
  by (cases x) (simp_all add: lift_exc_def)

lemma sim_sync:
  assumes "stage_index role = n"
  shows "sim env n (Suc n) (sync_stage env role (lift_exc f x) :: ('db, 'a) chat_op)"
  unfolding sim_def
proof (intro allI impI)
  fix st st0 :: "'db chat_state" assume "twin env n st st0"
  from sync_stage_twin [OF this assms, of "lift_exc f x"]
  show "\<exists>y st' st0'. sync_stage env role (lift_exc f x) st = (lift_exc id y, st')
      \<and> sync_stage env role (lift_exc f x) st0 = (lift_exc id y, st0') \<and> twin env (Suc n) st' st0'"
    unfolding lift_lift [of f x] by blast
qed

lemma sim_async:
  assumes "stage_index role = n" "undisturbed env"
  shows "sim env n (Suc n) (async_stage env role (lift_exc f x) :: ('db, 'a) chat_op)"
  unfolding sim_def
proof (intro allI impI)
  fix st st0 :: "'db chat_state" assume "twin env n st st0"
  from async_stage_twin [OF assms(2) this assms(1), of f x]
  show "\<exists>y st' st0'. async_stage env role (lift_exc f x) st = (lift_exc id y, st')
      \<and> async_stage env role (lift_exc f x) st0 = (lift_exc id y, st0') \<and> twin env (Suc n) st' st0'"
    unfolding lift_lift [of f x] by blast
qed

lemma sim_sessions: "sim env n n (on_sessions f)"
  unfolding sim_def
proof (intro allI impI)
  fix st st0 :: "'a chat_state" assume t: "twin env n st st0"
  then have s: "cs_sessions st = cs_sessions st0" by (simp add: twin_def)
  show "\<exists>x st' st0'. on_sessions f st = (lift_exc id x, st') \<and> on_sessions f st0 = (lift_exc id x, st0') \<and> twin env n st' st0'"
  proof (cases "f (cs_sessions st0)")
    case (Inl e)
    with t s show ?thesis by (intro exI [of _ "Inl (SessionFailed e)"]) (auto simp: on_sessions_def lift_exc_def)
  next
    case (Inr db)
    with t s show ?thesis by (intro exI [of _ "Inr ()"]) (auto simp: on_sessions_def lift_exc_def twin_def)
  qed
qed

lemma simr_and_then:
  fixes p :: "('db, 'a) chat_op"
  assumes "sim env n m p" "\<And>v. simr env m (f v)"
  shows "simr env n (and_then p f)"
  unfolding simr_def
proof (intro allI impI)
  fix st st0 :: "'db chat_state" assume "twin env n st st0"
  with assms(1) obtain x st' st0' where x: "p st = (lift_exc id x, st')" "p st0 = (lift_exc id x, st0')" "twin env m st' st0'"
    unfolding sim_def by blast
  then have "cs_sessions st' = cs_sessions st0'" by (simp add: twin_def)
  with x assms(2) [unfolded simr_def]
  show "same_answer (fst (and_then p f st)) (fst (and_then p f st0))
      \<and> cs_sessions (snd (and_then p f st)) = cs_sessions (snd (and_then p f st0))"
    by (cases x) (auto simp: and_then_def lift_exc_def)
qed

lemma simr_response:
  assumes "\<And>st st0. forget (g st) = forget (g st0)"
  shows "simr env n (\<lambda>st. (Inr (g st), st))"
  using assms by (auto simp: simr_def same_answer_def twin_def)

lemma forget_base:
  "forget (f (base_response env sid d s m st)) = forget (f (base_response env sid d s m st0))"
  if "\<And>rp rp0. forget rp = forget rp0 \<Longrightarrow> forget (f rp) = forget (f rp0)"
  by (rule that) (simp add: forget_def base_response_def)

lemma simr_non_answer: "simr env n (non_answer env sid d s m cs ir ws)"
  by (auto simp: simr_def same_answer_def twin_def non_answer_def forget_def base_response_def)

lemma simr_raise: "simr env n (raise_chat e)"
  by (auto simp: simr_def raise_chat_def twin_def)

lemma simr_verify_and_answer: "simr env 3 (verify_and_answer env req pack sid decision compilation ir rc)"
proof -
  have v: "stage_index RESULT_VERIFIER = 3" and c: "stage_index ANSWER_COMPOSER = 4"
    by (simp_all add: stage_index_def TOOLS_def)
  show ?thesis
    unfolding verify_and_answer_def
    by (auto simp: forget_def base_response_def intro!: simr_and_then simr_raise simr_response sim_sync [OF v] sim_sync [OF c]
        split: option.split prod.split)
qed

lemma simr_execute_and_answer:
  assumes "undisturbed env"
  shows "simr env 2 (execute_and_answer env req pack sid decision compilation ir :: ('db, DemoChatResponse) chat_op)"
proof (cases "ce_connectors env (q_source_connector_id ir)")
  case None
  then show ?thesis
    by (auto simp: simr_def execute_and_answer_def executed_def get_connector_def raise_chat_def non_answer_def
        same_answer_def forget_def base_response_def twin_def)
next
  case (Some con)
  let ?x = "co_execute con (bounded_plan con (plan_of_ir ir)) (qr_access (cr_request req))"
  show ?thesis unfolding simr_def
  proof (intro allI impI)
    fix st st0 :: "'db chat_state" assume t: "twin env 2 st st0"
    have "stage_index QUERY_EXECUTOR = 2" by (simp add: stage_index_def TOOLS_def)
    from async_stage_twin [OF assms t this, of ConnectorFailed ?x] obtain st' where
      x: "async_stage env QUERY_EXECUTOR (lift_exc ConnectorFailed ?x) st = (lift_exc ConnectorFailed ?x, st')"
        "async_stage env QUERY_EXECUTOR (lift_exc ConnectorFailed ?x) st0 = (lift_exc ConnectorFailed ?x, st0)"
        "twin env 3 st' st0" by (auto simp: numeral_3_eq_3)
    have s: "cs_sessions st' = cs_sessions st0" using x(3) by (simp add: twin_def)
    show "same_answer (fst (execute_and_answer env req pack sid decision compilation ir st))
           (fst (execute_and_answer env req pack sid decision compilation ir st0))
        \<and> cs_sessions (snd (execute_and_answer env req pack sid decision compilation ir st))
           = cs_sessions (snd (execute_and_answer env req pack sid decision compilation ir st0))"
    proof (cases ?x)
      case (Inl e)
      with x(1,2) Some s show ?thesis
        by (cases e) (auto simp: execute_and_answer_def executed_def get_connector_def lift_exc_def non_answer_def
          same_answer_def forget_def base_response_def)
    next
      case (Inr rc)
      have "simr env 3 (verify_and_answer env req pack sid decision compilation ir rc :: ('db, DemoChatResponse) chat_op)"
        by (rule simr_verify_and_answer)
      with x Some Inr show ?thesis
        by (simp add: execute_and_answer_def executed_def get_connector_def lift_exc_def simr_def)
    qed
  qed
qed

lemma simr_compile_and_answer:
  assumes "undisturbed env"
  shows "simr env 1 (compile_and_answer env S req pack sid decision)"
proof -
  have c: "stage_index QUERY_PLANNER = 1" by (simp add: stage_index_def TOOLS_def)
  show ?thesis
    unfolding compile_and_answer_def
    by (rule simr_and_then [OF sim_sync [OF c]])
      (auto intro!: simr_and_then sim_sessions simr_non_answer simr_execute_and_answer [OF assms] split: option.split
        simp: numeral_2_eq_2 [symmetric])
qed

lemma sim_resolve_session: "sim env 0 0 (resolve_session env S req :: ('db, uuid) chat_op)"
  unfolding sim_def
proof (intro allI impI)
  fix st st0 :: "'db chat_state" assume t: "twin env 0 st st0"
  then have s: "cs_sessions st = cs_sessions st0" by (simp add: twin_def)
  let ?a = "qr_access (cr_request req)"
  show "\<exists>x st' st0'. resolve_session env S req st = (lift_exc id x, st')
      \<and> resolve_session env S req st0 = (lift_exc id x, st0') \<and> twin env 0 st' st0'"
  proof (cases "qr_session_id (cr_request req)")
    case None
    let ?p = "on_sessions (sn_create S (ce_session_id env) (ce_now env 0) ?a)"
    have "sim env 0 0 (?p :: ('db, unit) chat_op)" by (rule sim_sessions)
    with t obtain x st' st0' where x: "?p st = (lift_exc id x, st')" "?p st0 = (lift_exc id x, st0')" "twin env 0 st' st0'"
      unfolding sim_def by blast
    with None show ?thesis
      by (intro exI [of _ "map_sum id (\<lambda>_. ce_session_id env) x"] exI [of _ st'] exI [of _ st0'], cases x)
        (auto simp: resolve_session_def and_then_def succeed_def lift_exc_def Let_def)
  next
    case (Some sid)
    with t s show ?thesis
      by (cases "sn_ensure S sid ?a (cs_sessions st0)")
        (auto simp: resolve_session_def Let_def lift_exc_def
          intro: exI [of _ "Inr sid"] exI [of _ "Inl (SessionFailed e)" for e])
  qed
qed

lemma simr_answer_body:
  assumes "undisturbed env"
  shows "simr env 0 (answer_body env S req)"
proof -
  have c: "stage_index SEMANTIC_RESOLVER = 0" by (simp add: stage_index_def TOOLS_def)
  show ?thesis
    unfolding answer_body_def
    by (auto intro!: simr_raise simr_and_then [OF sim_resolve_session] simr_and_then [OF sim_async [OF c assms]]
        simr_and_then [OF sim_sessions] simr_non_answer simr_compile_and_answer [OF assms, simplified] split: sum.split option.split)
qed

subsection \<open>Properties\<close>

lemma report_status_ok:
  "run_ok (run\<lparr>ag_report := (ag_report run)\<lparr>ar_status := s\<rparr>\<rparr>) = run_ok run"
  "owes k (run\<lparr>ag_report := (ag_report run)\<lparr>ar_status := s\<rparr>\<rparr>) = owes k run"
  by (simp_all add: run_ok_def owes_def)

lemma conclude_run_report:
  assumes "conclude_run result run = (r, run')" "run_ok run" "owes 0 run"
  shows "run_ok run' \<and> owes 0 run' \<and> (case r of
      Inr v \<Rightarrow> result = Inr v
    | Inl (AgentFailed f) \<Rightarrow> af_report f = Some (ag_report run') \<and> ar_status (ag_report run') = ''FAILED''
        \<and> ar_error_code (ag_report run') = Some (af_code f)
    | Inl CancelledError \<Rightarrow> ar_status (ag_report run') = ''CANCELLED''
    | Inl _ \<Rightarrow> False)"
  using assms by (auto simp: conclude_run_def with_report_def set_status_def run_ok_def owes_def Let_def
      split: sum.splits agent_exc.splits)

text \<open>C15: Under a run, whatever happens inside, a request ends in one of three ways, and the run's report tells
  which: a response carrying the final report with the response's status; a failure carrying the final
  report, marked failed with the failure's code; or a cancellation, marked cancelled.  No other exception
  escapes, and the run has kept its stages, its budgets and its notifications.\<close>

theorem run_reports_every_outcome:
  assumes "run_ok run" "owes 0 run" "answer env S req \<lparr>cs_sessions = db, cs_run = Some run\<rparr> = (r, st')"
  shows "\<exists>run'. cs_run st' = Some run' \<and> run_ok run' \<and> owes 0 run' \<and> (case r of
      Inr rp \<Rightarrow> rp_agent_run rp = Some (ag_report run') \<and> ar_status (ag_report run') = chat_status_value (rp_status rp)
    | Inl (AgentFailed f) \<Rightarrow> af_report f = Some (ag_report run') \<and> ar_status (ag_report run') = ''FAILED''
        \<and> ar_error_code (ag_report run') = Some (af_code f)
    | Inl CancelledError \<Rightarrow> ar_status (ag_report run') = ''CANCELLED''
    | Inl _ \<Rightarrow> False)"
proof -
  let ?st = "\<lparr>cs_sessions = db, cs_run = Some run\<rparr>"
  obtain q run1 where rem: "remaining (ce_clock env) run = (q, run1)" by fastforce
  from remaining_cases(1) [OF rem] assms(1,2) have ok1: "run_ok run1" "owes 0 run1" by simp_all
  obtain res0 st0 where body: "answer_body env S req (?st\<lparr>cs_run := Some run1\<rparr>) = (res0, st0)" by fastforce
  have "chat_ok S db False (?st\<lparr>cs_run := Some run1\<rparr>)" using ok1 by (simp add: chat_ok_def session_steps.none)
  from preservesD [OF answer_body_preserves this, of env req] body have "chat_ok S db False st0" by simp
  then obtain run2 where run2: "cs_run st0 = Some run2" "run_ok run2" "owes 0 run2" by (auto simp: chat_ok_def)
  define res where "res = (case q of Inl f \<Rightarrow> Inl (AgentFailed f)
    | Inr _ \<Rightarrow> if res0 = Inl CancelledError \<and> ce_timed_out env then Inl TimeoutError else res0)"
  define run3 where "run3 = (case q of Inl _ \<Rightarrow> run1 | Inr _ \<Rightarrow> run2)"
  have ok3: "run_ok run3" "owes 0 run3" using ok1 run2 by (auto simp: run3_def split: sum.split)
  obtain c run4 where conc: "conclude_run res run3 = (c, run4)" by fastforce
  note rep = conclude_run_report [OF conc ok3]
  define st1 where "st1 = (case q of Inl _ \<Rightarrow> ?st | Inr _ \<Rightarrow> st0)"
  have eq: "(r, st') = (case c of Inl e \<Rightarrow> (Inl e, st1\<lparr>cs_run := Some run4\<rparr>)
      | Inr response \<Rightarrow> let run5 = run4\<lparr>ag_report := (ag_report run4)\<lparr>ar_status := chat_status_value (rp_status response)\<rparr>\<rparr>
          in (Inr (response\<lparr>rp_agent_run := Some (ag_report run5)\<rparr>), st1\<lparr>cs_run := Some run5\<rparr>))"
    using assms(3) rem body run2(1) conc
    by (cases q; cases c; auto simp: answer_def Let_def res_def run3_def st1_def)
  show ?thesis
  proof (cases c)
    case (Inl e)
    with eq have "r = Inl e" "cs_run st' = Some run4" by simp_all
    with rep Inl show ?thesis by simp
  next
    case (Inr rp0)
    let ?run5 = "run4\<lparr>ag_report := (ag_report run4)\<lparr>ar_status := chat_status_value (rp_status rp0)\<rparr>\<rparr>"
    from eq Inr have "r = Inr (rp0\<lparr>rp_agent_run := Some (ag_report ?run5)\<rparr>)" "cs_run st' = Some ?run5"
      by (simp_all add: Let_def)
    with rep show ?thesis by (simp add: report_status_ok)
  qed
qed

text \<open>C29: When no deadline strikes, the model budget suffices and nothing is cancelled, a run with room for the
  five stages changes nothing of a request: the same response up to the report and the model name, or
  a reported failure exactly when the bare request would raise; and the same sessions.\<close>

theorem undisturbed_run_is_transparent:
  assumes "undisturbed env" "twin env 0 st st0" "cs_run st = Some run" "owes 0 run"
  shows "(case fst (answer env S req st0) of
      Inr rp0 \<Rightarrow> \<exists>rp. fst (answer env S req st) = Inr rp \<and> forget rp = forget rp0
    | Inl e \<Rightarrow> \<exists>f. fst (answer env S req st) = Inl (AgentFailed f) \<and> af_code f = ''RUN_FAILED'')
    \<and> cs_sessions (snd (answer env S req st)) = cs_sessions (snd (answer env S req st0))"
proof -
  from assms(2,3) have run: "cs_run st = Some run" "run_ok run" "\<forall>k. ce_clock env k < ag_deadline run"
    and st0: "cs_run st0 = None" by (auto simp: twin_def)
  from remaining_healthy [OF run(3)] obtain left where
    rem: "remaining (ce_clock env) run = (Inr left, run\<lparr>ag_ticks := Suc (ag_ticks run)\<rparr>)" by blast
  let ?st = "st\<lparr>cs_run := Some (run\<lparr>ag_ticks := Suc (ag_ticks run)\<rparr>)\<rparr>"
  have "twin env 0 ?st st0" using assms(2) run(1) by (auto simp: twin_def)
  with simr_answer_body [OF assms(1), of S req]
  have s: "same_answer (fst (answer_body env S req ?st)) (fst (answer_body env S req st0))"
    "cs_sessions (snd (answer_body env S req ?st)) = cs_sessions (snd (answer_body env S req st0))"
    unfolding simr_def by blast+
  obtain r st1 where b: "answer_body env S req ?st = (r, st1)" by fastforce
  have a0: "answer env S req st0 = answer_body env S req st0" using st0 by (simp add: answer_def)
  from s(1) b have nc: "r \<noteq> Inl CancelledError" by (auto simp: same_answer_def split: sum.splits agent_exc.splits)
  have "chat_ok S (cs_sessions st) False ?st" using run assms(4) by (simp add: chat_ok_def session_steps.none)
  from preservesD [OF answer_body_preserves this, of env req] b have "chat_ok S (cs_sessions st) False st1" by simp
  then obtain run2 where run2: "cs_run st1 = Some run2" by (auto simp: chat_ok_def)
  obtain c run3 where conc: "conclude_run r run2 = (c, run3)" by fastforce
  have a: "answer env S req st = (case c of Inl e \<Rightarrow> (Inl e, st1\<lparr>cs_run := Some run3\<rparr>)
      | Inr response \<Rightarrow> let run4 = run3\<lparr>ag_report := (ag_report run3)\<lparr>ar_status := chat_status_value (rp_status response)\<rparr>\<rparr>
          in (Inr (response\<lparr>rp_agent_run := Some (ag_report run4)\<rparr>), st1\<lparr>cs_run := Some run4\<rparr>))"
    using run(1) rem b run2 conc nc by (cases c) (auto simp: answer_def Let_def)
  show ?thesis
  proof (cases "fst (answer_body env S req st0)")
    case (Inl e)
    with s(1) b obtain x where "e = OtherError x" "r = Inl (OtherError x)"
      by (cases r) (auto simp: same_answer_def split: agent_exc.splits)
    with conc a a0 Inl s(2) b show ?thesis
      by (auto simp: conclude_run_def with_report_def agent_failure_def Let_def)
  next
    case (Inr rp0)
    with s(1) b obtain rp where "r = Inr rp" "forget rp = forget rp0"
      by (cases r) (auto simp: same_answer_def split: agent_exc.splits)
    with conc a a0 Inr s(2) b show ?thesis by (auto simp: conclude_run_def forget_def Let_def)
  qed
qed

subsection \<open>A run of the demonstration service\<close>

definition demo_run :: agent_run where
  "demo_run = new_run (\<lambda>_. 0) ''r'' None"

lemma demo_run_ok: "run_ok demo_run" "owes 0 demo_run"
  unfolding demo_run_def by (rule new_run_ok; simp)+

lemma demo_twin: "twin demo_chat_env 0 (demo_chat_state\<lparr>cs_run := Some demo_run\<rparr>) demo_chat_state"
  using demo_run_ok(1)
  by (simp add: twin_def demo_chat_state_def demo_run_def new_run_def initial_report_def default_limits_def demo_chat_env_def)

theorem run_reports_every_outcome_witness:
  "\<exists>run'. cs_run (snd (answer demo_chat_env sqlite_sessions demo_chat_request
      \<lparr>cs_sessions = empty_sessions, cs_run = Some demo_run\<rparr>)) = Some run' \<and> run_ok run' \<and> owes 0 run'"
  using run_reports_every_outcome [OF demo_run_ok, of demo_chat_env sqlite_sessions demo_chat_request empty_sessions]
  by (metis prod.collapse)

theorem undisturbed_run_is_transparent_witness:
  "\<exists>rp0 rp. fst (answer demo_chat_env sqlite_sessions demo_chat_request demo_chat_state) = Inr rp0
     \<and> fst (answer demo_chat_env sqlite_sessions demo_chat_request (demo_chat_state\<lparr>cs_run := Some demo_run\<rparr>)) = Inr rp
     \<and> forget rp = forget rp0 \<and> rp_status rp0 = CS_ANSWERED"
proof -
  obtain rp0 st' where a: "answer demo_chat_env sqlite_sessions demo_chat_request demo_chat_state = (Inr rp0, st')"
    "rp_status rp0 = CS_ANSWERED" by (rule demo_answer)
  have u: "undisturbed demo_chat_env" by (simp add: undisturbed_def demo_chat_env_def)
  from undisturbed_run_is_transparent [OF u demo_twin _ demo_run_ok(2), of sqlite_sessions demo_chat_request] a
  show ?thesis by auto
qed

end
