(* ===== verification/RunStore.thy ===== *)
theory RunStore
  imports Chat
begin

section \<open>RunStore: the durable journal of runs\<close>

text \<open>
  \<open>domain/runs.py\<close> and \<open>services/run_store.py\<close>.  The SQLite tables are lists of rows in \<open>rowid\<close> order; the
  payload columns hold the records whose JSON the code stores.  Every writing operation is one
  transaction: it returns the new tables or an error, and then nothing has changed.  An identifier or a
  key in use makes SQLite refuse an insertion (\<open>RunIntegrity\<close>).  Fresh identifiers, the times \<open>now()\<close>
  reads and the digest of a request are arguments; the two instants of a write are the run's
  \<open>updated_at\<close> and the event's \<open>created_at\<close>.
\<close>

subsection \<open>Records\<close>

datatype RunStatus = QUEUED | RUNNING | CANCELLATION_REQUESTED | COMPLETED | FAILED | CANCELLED | INTERRUPTED

definition TERMINAL :: "RunStatus set" where
  "TERMINAL = {COMPLETED, FAILED, CANCELLED, INTERRUPTED}"

definition ACTIVE :: "RunStatus set" where
  "ACTIVE = {QUEUED, RUNNING, CANCELLATION_REQUESTED}"

definition terminal_event :: "RunStatus \<Rightarrow> string" where
  "terminal_event s = ''run.'' @ (case s of QUEUED \<Rightarrow> ''queued'' | RUNNING \<Rightarrow> ''running''
     | CANCELLATION_REQUESTED \<Rightarrow> ''cancellation_requested'' | COMPLETED \<Rightarrow> ''completed'' | FAILED \<Rightarrow> ''failed''
     | CANCELLED \<Rightarrow> ''cancelled'' | INTERRUPTED \<Rightarrow> ''interrupted'')"

record RunRequest =
  rq_client_request_id :: uuid
  rq_conversation_id :: uuid
  rq_expected_revision :: int
  rq_question :: string
  rq_as_of :: instant
  rq_source_fingerprint :: "string option"
  rq_definition_snapshot_id :: string

definition hex64 :: "string \<Rightarrow> bool" where
  "hex64 s \<longleftrightarrow> length s = 64 \<and> set s \<subseteq> set ''0123456789abcdef''"

definition make_run_request :: "RunRequest \<Rightarrow> py_exc + RunRequest" where
  "make_run_request r =
     (let q = py_strip (rq_question r) in
      if 0 \<le> rq_expected_revision r \<and> 3 \<le> length q \<and> length q \<le> 2000 \<and> hex64 (rq_definition_snapshot_id r)
         \<and> (case rq_source_fingerprint r of None \<Rightarrow> True | Some f \<Rightarrow> hex64 f)
      then Inr (r\<lparr>rq_question := q\<rparr>) else Inl ValueError)"

record Conversation =
  cn_conversation_id :: uuid
  cn_revision :: int
  cn_title :: string
  cn_latest_run_id :: "uuid option"
  cn_created_at :: instant

record RunSnapshot =
  rs_run_id :: uuid
  rs_request :: RunRequest
  rs_source_binding :: string
  rs_status :: RunStatus
  rs_sequence :: int
  rs_created_at :: instant
  rs_updated_at :: instant
  rs_progress :: "AgentRunReport option"
  rs_result :: "DemoChatResponse option"
  rs_error_code :: "string option"
  rs_message :: string

record RunEvent =
  ev_run_id :: uuid
  ev_sequence :: int
  ev_type :: string
  ev_status :: RunStatus
  ev_created_at :: instant
  ev_progress :: "AgentRunReport option"

datatype run_failure = RunError string int | RunIntegrity

text \<open>The owner and scope a caller acts under: digests of the identity and of the sorted access context.\<close>

definition principal :: "(string list \<Rightarrow> string) \<Rightarrow> (string list list \<Rightarrow> string) \<Rightarrow> string \<Rightarrow> AccessContext
    \<Rightarrow> string \<times> string" where
  "principal owner_digest scope_digest profile access =
     (owner_digest [profile, ac_tenant_id access, ac_user_id access],
      scope_digest [[ac_tenant_id access], [ac_user_id access], py_sorted (ac_roles access), py_sorted (ac_departments access),
        py_sorted (ac_regions access), py_sorted (ac_business_units access), [nat_str (CLASSIFICATION_RANK (ac_clearance access))],
        py_sorted (ac_actions access)])"

subsection \<open>Tables\<close>

record conversation_row =
  cw_id :: uuid
  cw_owner :: string
  cw_scope :: string
  cw_payload :: Conversation

record run_row =
  rw_id :: uuid
  rw_conversation :: uuid
  rw_request_id :: uuid
  rw_request_hash :: string
  rw_status :: RunStatus
  rw_payload :: RunSnapshot

record event_row =
  ew_run_id :: uuid
  ew_sequence :: int
  ew_payload :: RunEvent

record checkpoint_payload =
  kp_user_id :: string
  kp_expires_wall :: pyfloat
  kp_conversation_id :: uuid
  kp_rest :: string

record run_db =
  rd_conversations :: "conversation_row list"
  rd_runs :: "run_row list"
  rd_events :: "event_row list"
  rd_checkpoints :: "(string \<times> checkpoint_payload) list"

definition empty_runs :: run_db where
  "empty_runs = \<lparr>rd_conversations = [], rd_runs = [], rd_events = [], rd_checkpoints = []\<rparr>"

definition runs_of :: "run_db \<Rightarrow> uuid \<Rightarrow> run_row list" where
  "runs_of db cid = filter (\<lambda>r. rw_conversation r = cid) (rd_runs db)"

definition has_active :: "run_db \<Rightarrow> uuid \<Rightarrow> bool" where
  "has_active db cid \<longleftrightarrow> (\<exists>r\<in>set (rd_runs db). rw_conversation r = cid \<and> rw_status r \<in> ACTIVE)"

subsection \<open>Conversations\<close>

definition create_conversation :: "string \<Rightarrow> string \<Rightarrow> uuid \<Rightarrow> instant \<Rightarrow> run_db \<Rightarrow> run_failure + Conversation \<times> run_db" where
  "create_conversation owner scope cid now db =
     (let conversation = \<lparr>cn_conversation_id = cid, cn_revision = 0, cn_title = ''New conversation'',
            cn_latest_run_id = None, cn_created_at = now\<rparr>
      in if 512 \<le> length (rd_conversations db)
         then Inl (RunError ''Conversation storage is full. Delete old conversations before continuing.'' 429)
         else if 16 \<le> length (filter (\<lambda>c. cw_owner c = owner) (rd_conversations db))
         then Inl (RunError ''This identity has reached its conversation limit.'' 429)
         else if cid \<in> cw_id ` set (rd_conversations db) then Inl RunIntegrity
         else Inr (conversation, db\<lparr>rd_conversations := rd_conversations db
                @ [\<lparr>cw_id = cid, cw_owner = owner, cw_scope = scope, cw_payload = conversation\<rparr>]\<rparr>))"

definition conversation :: "run_db \<Rightarrow> string \<Rightarrow> string \<Rightarrow> uuid \<Rightarrow> run_failure + Conversation" where
  "conversation db owner scope cid =
     (case List.find (\<lambda>c. cw_id c = cid) (rd_conversations db) of
        None \<Rightarrow> Inl (RunError ''Conversation is unavailable to this identity and access scope.'' 404)
      | Some c \<Rightarrow> if cw_owner c \<noteq> owner \<or> cw_scope c \<noteq> scope
                  then Inl (RunError ''Conversation is unavailable to this identity and access scope.'' 404)
                  else Inr (cw_payload c))"

definition conversations :: "run_db \<Rightarrow> string \<Rightarrow> string \<Rightarrow> Conversation list" where
  "conversations db owner scope =
     map cw_payload (rev (filter (\<lambda>c. cw_owner c = owner \<and> cw_scope c = scope) (rd_conversations db)))"

subsection \<open>Reading runs\<close>

definition read_run :: "run_db \<Rightarrow> uuid \<Rightarrow> run_failure + RunSnapshot" where
  "read_run db rid = (case List.find (\<lambda>r. rw_id r = rid) (rd_runs db) of
     None \<Rightarrow> Inl (RunError ''Run is unavailable.'' 404) | Some r \<Rightarrow> Inr (rw_payload r))"

definition read_owned :: "run_db \<Rightarrow> string \<Rightarrow> string \<Rightarrow> uuid \<Rightarrow> run_failure + RunSnapshot" where
  "read_owned db owner scope rid =
     (case read_run db rid of Inl e \<Rightarrow> Inl e
      | Inr run \<Rightarrow> (case conversation db owner scope (rq_conversation_id (rs_request run)) of Inl e \<Rightarrow> Inl e | Inr _ \<Rightarrow> Inr run))"

definition runs_in :: "run_db \<Rightarrow> string \<Rightarrow> string \<Rightarrow> uuid \<Rightarrow> run_failure + RunSnapshot list" where
  "runs_in db owner scope cid =
     (case conversation db owner scope cid of Inl e \<Rightarrow> Inl e | Inr _ \<Rightarrow> Inr (map rw_payload (runs_of db cid)))"

definition existing :: "(RunRequest \<Rightarrow> string) \<Rightarrow> run_db \<Rightarrow> string \<Rightarrow> string \<Rightarrow> RunRequest \<Rightarrow> run_failure + RunSnapshot option" where
  "existing digest db owner scope request =
     (case conversation db owner scope (rq_conversation_id request) of Inl e \<Rightarrow> Inl e
      | Inr _ \<Rightarrow>
        (case List.find (\<lambda>r. rw_request_id r = rq_client_request_id request) (runs_of db (rq_conversation_id request)) of
           None \<Rightarrow> Inr None
         | Some r \<Rightarrow> if rw_request_hash r \<noteq> digest request
             then Inl (RunError ''This request ID already belongs to a different question or revision.'' 409)
             else Inr (Some (rw_payload r))))"

definition events_of :: "run_db \<Rightarrow> uuid \<Rightarrow> event_row list" where
  "events_of db rid = sort_key ew_sequence (filter (\<lambda>e. ew_run_id e = rid) (rd_events db))"

definition events :: "run_db \<Rightarrow> string \<Rightarrow> string \<Rightarrow> uuid \<Rightarrow> int \<Rightarrow> run_failure + RunEvent list" where
  "events db owner scope rid after =
     (case read_owned db owner scope rid of Inl e \<Rightarrow> Inl e
      | Inr run \<Rightarrow> if after < 0 \<or> rs_sequence run < after
          then Inl (RunError ''Replay cursor is outside this run's event history.'' 409)
          else Inr (map ew_payload (filter (\<lambda>e. after < ew_sequence e) (events_of db rid))))"

subsection \<open>Writing runs\<close>

text \<open>\<open>_write\<close>: the next sequence number, the row and its event.\<close>

definition write_run :: "instant \<times> instant \<Rightarrow> RunSnapshot \<Rightarrow> string \<Rightarrow> run_db \<Rightarrow> run_failure + RunSnapshot \<times> run_db" where
  "write_run ts run0 event_type db =
     (let run = run0\<lparr>rs_sequence := rs_sequence run0 + 1, rs_updated_at := fst ts\<rparr>;
          event = \<lparr>ev_run_id = rs_run_id run, ev_sequence = rs_sequence run, ev_type = event_type,
                   ev_status = rs_status run, ev_created_at = snd ts, ev_progress = rs_progress run\<rparr>
      in if (rs_run_id run, rs_sequence run) \<in> (\<lambda>e. (ew_run_id e, ew_sequence e)) ` set (rd_events db)
            \<or> rs_run_id run \<notin> rw_id ` set (rd_runs db) then Inl RunIntegrity
         else Inr (run, db\<lparr>
           rd_runs := map (\<lambda>r. if rw_id r = rs_run_id run then r\<lparr>rw_payload := run, rw_status := rs_status run\<rparr> else r) (rd_runs db),
           rd_events := rd_events db @ [\<lparr>ew_run_id = rs_run_id run, ew_sequence = rs_sequence run, ew_payload = event\<rparr>]\<rparr>))"

definition new_snapshot :: "uuid \<Rightarrow> instant \<times> instant \<Rightarrow> RunRequest \<Rightarrow> string \<Rightarrow> RunSnapshot" where
  "new_snapshot rid ts request binding =
     \<lparr>rs_run_id = rid, rs_request = request, rs_source_binding = binding, rs_status = QUEUED, rs_sequence = 0,
      rs_created_at = fst ts, rs_updated_at = snd ts, rs_progress = None, rs_result = None, rs_error_code = None,
      rs_message = ''Question accepted.''\<rparr>"

definition insert_run :: "(RunRequest \<Rightarrow> string) \<Rightarrow> RunSnapshot \<Rightarrow> run_db \<Rightarrow> run_failure + run_db" where
  "insert_run digest run db =
     (let request = rs_request run in
      if rs_run_id run \<in> rw_id ` set (rd_runs db)
         \<or> rq_client_request_id request \<in> rw_request_id ` set (runs_of db (rq_conversation_id request))
      then Inl RunIntegrity
      else Inr (db\<lparr>rd_runs := rd_runs db @ [\<lparr>rw_id = rs_run_id run, rw_conversation = rq_conversation_id request,
             rw_request_id = rq_client_request_id request, rw_request_hash = digest request,
             rw_status = rs_status run, rw_payload = run\<rparr>]\<rparr>))"

definition enqueue :: "(RunRequest \<Rightarrow> string) \<Rightarrow> uuid \<Rightarrow> instant \<times> instant \<Rightarrow> instant \<times> instant \<Rightarrow> string \<Rightarrow> string
    \<Rightarrow> RunRequest \<Rightarrow> string \<Rightarrow> run_db \<Rightarrow> run_failure + RunSnapshot \<times> run_db" where
  "enqueue digest rid ts ts' owner scope request binding db =
     (let run = new_snapshot rid ts request binding; cid = rq_conversation_id request in
      case conversation db owner scope cid of Inl e \<Rightarrow> Inl e
      | Inr conv \<Rightarrow>
        if cn_revision conv \<noteq> rq_expected_revision request
          then Inl (RunError ''Conversation changed. Refresh before submitting another question.'' 409)
        else if 64 \<le> length (runs_of db cid)
          then Inl (RunError ''This conversation has reached its 64-run limit.'' 429)
        else if has_active db cid
          then Inl (RunError ''This conversation already has an active question.'' 409)
        else (let conv' = conv\<lparr>cn_revision := cn_revision conv + 1, cn_latest_run_id := Some rid,
                    cn_title := take 80 (rq_question request)\<rparr>;
                  db1 = db\<lparr>rd_conversations := map (\<lambda>c. if cw_id c = cn_conversation_id conv' then c\<lparr>cw_payload := conv'\<rparr> else c)
                    (rd_conversations db)\<rparr>
              in case insert_run digest run db1 of Inl e \<Rightarrow> Inl e | Inr db2 \<Rightarrow> write_run ts' run ''run.accepted'' db2))"

definition start :: "instant \<times> instant \<Rightarrow> uuid \<Rightarrow> run_db \<Rightarrow> run_failure + bool \<times> run_db" where
  "start ts rid db =
     (case read_run db rid of Inl e \<Rightarrow> Inl e
      | Inr run \<Rightarrow>
        if rs_status run \<noteq> QUEUED then Inr (False, db)
        else (case write_run ts (run\<lparr>rs_status := RUNNING, rs_message := ''Processing the governed question.''\<rparr>) ''run.started'' db of
            Inl e \<Rightarrow> Inl e | Inr (_, db') \<Rightarrow> Inr (True, db')))"

definition progress :: "instant \<times> instant \<Rightarrow> uuid \<Rightarrow> AgentRunReport \<Rightarrow> run_db \<Rightarrow> run_failure + run_db" where
  "progress ts rid report db =
     (case read_run db rid of Inl e \<Rightarrow> Inl e
      | Inr run \<Rightarrow>
        if rs_status run \<noteq> RUNNING then Inr db
        else if 60 \<le> rs_sequence run then Inl (RunError ''Progress event budget was reached.'' 409)
        else (case write_run ts (run\<lparr>rs_progress := Some report\<rparr>) ''agent.progress'' db of
            Inl e \<Rightarrow> Inl e | Inr (_, db') \<Rightarrow> Inr db'))"

definition finish :: "instant \<times> instant \<Rightarrow> uuid \<Rightarrow> RunStatus \<Rightarrow> DemoChatResponse option \<Rightarrow> string option \<Rightarrow> string
    \<Rightarrow> run_db \<Rightarrow> run_failure + RunSnapshot \<times> run_db" where
  "finish ts rid status result code message db =
     (if status \<notin> TERMINAL then Inl (RunError ''A terminal run state is required.'' 409)
      else case read_run db rid of Inl e \<Rightarrow> Inl e
      | Inr run \<Rightarrow>
        if rs_status run \<in> TERMINAL then Inr (run, db)
        else (let (status, result, code, message) =
                    (if rs_status run = CANCELLATION_REQUESTED \<and> status \<noteq> INTERRUPTED
                     then (CANCELLED, None, None, ''Cancellation confirmed; no answer released.'')
                     else (status, result, code, message));
                  run1 = run\<lparr>rs_status := status, rs_result := result, rs_error_code := code, rs_message := message\<rparr>;
                  run2 = (case result of None \<Rightarrow> run1 | Some r \<Rightarrow> run1\<lparr>rs_progress := rp_agent_run r\<rparr>)
              in write_run ts run2 (terminal_event status) db))"

definition cancel :: "instant \<times> instant \<Rightarrow> string \<Rightarrow> string \<Rightarrow> uuid \<Rightarrow> run_db \<Rightarrow> run_failure + RunSnapshot \<times> run_db" where
  "cancel ts owner scope rid db =
     (case read_owned db owner scope rid of Inl e \<Rightarrow> Inl e
      | Inr run \<Rightarrow>
        if rs_status run \<notin> TERMINAL \<and> rs_status run \<noteq> CANCELLATION_REQUESTED
        then write_run ts (run\<lparr>rs_status := CANCELLATION_REQUESTED, rs_message := ''Cancellation requested.''\<rparr>)
               ''run.cancellation_requested'' db
        else Inr (run, db))"

subsection \<open>Recovery and deletion\<close>

text \<open>One transaction per run; the identifiers are read before.\<close>

fun recover_each :: "instant \<times> instant \<Rightarrow> uuid list \<Rightarrow> run_db \<Rightarrow> run_failure + run_db" where
  "recover_each ts [] db = Inr db"
| "recover_each ts (rid # rest) db =
     (case finish ts rid INTERRUPTED None (Some ''WORKER_RESTARTED'')
             ''Processing was interrupted. Review before submitting a new request.'' db of
        Inl e \<Rightarrow> Inl e | Inr (_, db') \<Rightarrow> recover_each ts rest db')"

definition active_ids :: "run_db \<Rightarrow> uuid list" where
  "active_ids db = map rw_id (filter (\<lambda>r. rw_status r \<in> ACTIVE) (rd_runs db))"

definition recover :: "instant \<times> instant \<Rightarrow> run_db \<Rightarrow> run_failure + run_db" where
  "recover ts db = recover_each ts (active_ids db) db"

text \<open>Deleting a conversation cascades to its runs and their events.\<close>

definition drop_conversation :: "uuid \<Rightarrow> run_db \<Rightarrow> run_db" where
  "drop_conversation cid db =
     (let gone = rw_id ` set (runs_of db cid) in
      db\<lparr>rd_conversations := filter (\<lambda>c. cw_id c \<noteq> cid) (rd_conversations db),
         rd_runs := filter (\<lambda>r. rw_conversation r \<noteq> cid) (rd_runs db),
         rd_events := filter (\<lambda>e. ew_run_id e \<notin> gone) (rd_events db)\<rparr>)"

definition delete_conversation :: "string \<Rightarrow> string \<Rightarrow> uuid \<Rightarrow> run_db \<Rightarrow> run_failure + run_db" where
  "delete_conversation owner scope cid db =
     (case conversation db owner scope cid of Inl e \<Rightarrow> Inl e
      | Inr _ \<Rightarrow> if has_active db cid
          then Inl (RunError ''Cancel the active run before deleting its conversation.'' 409)
          else Inr (drop_conversation cid db))"

subsection \<open>Checkpoints\<close>

definition checkpoint :: "(string \<Rightarrow> string) \<Rightarrow> string \<Rightarrow> checkpoint_payload option \<Rightarrow> run_db \<Rightarrow> run_db" where
  "checkpoint digest token payload db =
     (let key = digest token; rows = rd_checkpoints db in
      db\<lparr>rd_checkpoints := (case payload of
           None \<Rightarrow> filter (\<lambda>r. fst r \<noteq> key) rows
         | Some p \<Rightarrow> if key \<in> fst ` set rows then map (\<lambda>r. if fst r = key then (key, p) else r) rows
                     else rows @ [(key, p)])\<rparr>)"

definition restore :: "(string \<Rightarrow> string) \<Rightarrow> run_db \<Rightarrow> string \<Rightarrow> checkpoint_payload option" where
  "restore digest db token = map_of (rd_checkpoints db) (digest token)"

definition prunable :: "pyfloat \<Rightarrow> run_db \<Rightarrow> checkpoint_payload \<Rightarrow> bool" where
  "prunable wall_time db p \<longleftrightarrow> \<not> fl_less wall_time (kp_expires_wall p) \<and> \<not> has_active db (kp_conversation_id p)"

fun prune_each :: "pyfloat \<Rightarrow> (string \<times> checkpoint_payload) list \<Rightarrow> run_db \<Rightarrow> string list \<times> run_db" where
  "prune_each wall_time [] db = ([], db)"
| "prune_each wall_time ((key, p) # rest) db =
     (if prunable wall_time db p
      then (let db' = (drop_conversation (kp_conversation_id p) db)
                  \<lparr>rd_checkpoints := filter (\<lambda>r. fst r \<noteq> key) (rd_checkpoints db)\<rparr>;
                (users, db'') = prune_each wall_time rest db'
            in (kp_user_id p # users, db''))
      else prune_each wall_time rest db)"

definition prune_checkpoints :: "pyfloat \<Rightarrow> run_db \<Rightarrow> string list \<times> run_db" where
  "prune_checkpoints wall_time db = prune_each wall_time (rd_checkpoints db) db"

end
