(* ===== verification/RunJournal.thy ===== *)
theory RunJournal
  imports RunStore
begin

section \<open>RunJournal: the invariant of the run journal\<close>

text \<open>
  What \<open>services/run_store.py\<close> keeps of its tables, and the maintenance check of
  \<open>operations/database.py\<close> that reads them back.
\<close>

subsection \<open>The invariant\<close>

definition keys :: "run_db \<Rightarrow> (uuid \<times> uuid \<times> uuid) list" where
  "keys db = map (\<lambda>r. (rw_id r, rw_conversation r, rw_request_id r)) (rd_runs db)"

definition ids_in :: "(uuid \<times> uuid \<times> uuid) list \<Rightarrow> uuid \<Rightarrow> uuid list" where
  "ids_in ks cid = map fst (filter (\<lambda>k. fst (snd k) = cid) ks)"

definition conversation_ok :: "(uuid \<times> uuid \<times> uuid) list \<Rightarrow> conversation_row \<Rightarrow> bool" where
  "conversation_ok ks c \<longleftrightarrow> (let ids = ids_in ks (cw_id c) in
     cn_conversation_id (cw_payload c) = cw_id c \<and> cn_revision (cw_payload c) = int (length ids) \<and> length ids \<le> 64
     \<and> cn_latest_run_id (cw_payload c) = (if ids = [] then None else Some (last ids)))"

definition shape_ok :: "conversation_row list \<Rightarrow> (uuid \<times> uuid \<times> uuid) list \<Rightarrow> bool" where
  "shape_ok cs ks \<longleftrightarrow> distinct (map cw_id cs) \<and> distinct (map fst ks) \<and> distinct (map snd ks)
     \<and> (\<forall>k\<in>set ks. fst (snd k) \<in> cw_id ` set cs) \<and> (\<forall>c\<in>set cs. conversation_ok ks c)"

text \<open>The number of conversations, and those of each owner.\<close>

definition owners :: "run_db \<Rightarrow> string list" where
  "owners db = map cw_owner (rd_conversations db)"

definition capacity_ok :: "nat \<Rightarrow> run_db \<Rightarrow> bool" where
  "capacity_ok limit db \<longleftrightarrow> length (owners db) \<le> limit \<and> (\<forall>owner. count_list (owners db) owner \<le> 16)"

definition evs :: "run_db \<Rightarrow> uuid \<Rightarrow> event_row list" where
  "evs db rid = filter (\<lambda>e. ew_run_id e = rid) (rd_events db)"

text \<open>The events of a run are numbered from one to its sequence number, each with its own keys.\<close>

definition history_ok_of :: "(RunRequest \<Rightarrow> string) \<Rightarrow> run_db \<Rightarrow> run_row \<Rightarrow> bool" where
  "history_ok_of digest db r \<longleftrightarrow> (let run = rw_payload r in
     rs_run_id run = rw_id r \<and> rq_conversation_id (rs_request run) = rw_conversation r
     \<and> rq_client_request_id (rs_request run) = rw_request_id r \<and> rw_request_hash r = digest (rs_request run)
     \<and> 0 \<le> rs_sequence run \<and> map ew_sequence (evs db (rw_id r)) = map int [1..<Suc (nat (rs_sequence run))]
     \<and> (\<forall>e\<in>set (evs db (rw_id r)). ev_run_id (ew_payload e) = ew_run_id e \<and> ev_sequence (ew_payload e) = ew_sequence e))"

definition event_budget :: "RunStatus \<Rightarrow> int" where
  "event_budget s = (case s of QUEUED \<Rightarrow> 1 | RUNNING \<Rightarrow> 60 | CANCELLATION_REQUESTED \<Rightarrow> 61 | _ \<Rightarrow> 62)"

text \<open>The last event shows the run's status; only a finished run has a result.\<close>

definition settled :: "run_db \<Rightarrow> run_row \<Rightarrow> bool" where
  "settled db r \<longleftrightarrow> (let run = rw_payload r in
     rw_status r = rs_status run \<and> 1 \<le> rs_sequence run \<and> rs_sequence run \<le> event_budget (rs_status run)
     \<and> ev_status (ew_payload (last (evs db (rw_id r)))) = rs_status run
     \<and> (rs_result run \<noteq> None \<longrightarrow> rs_status run \<in> TERMINAL))"

definition tables_ok :: "(RunRequest \<Rightarrow> string) \<Rightarrow> run_db \<Rightarrow> bool" where
  "tables_ok digest db \<longleftrightarrow> shape_ok (rd_conversations db) (keys db) \<and> (\<forall>r\<in>set (rd_runs db). history_ok_of digest db r)
     \<and> ew_run_id ` set (rd_events db) \<subseteq> rw_id ` set (rd_runs db)
     \<and> distinct (map rw_conversation (filter (\<lambda>r. rw_status r \<in> ACTIVE) (rd_runs db)))"

definition journal_ok :: "(RunRequest \<Rightarrow> string) \<Rightarrow> run_db \<Rightarrow> bool" where
  "journal_ok digest db \<longleftrightarrow> tables_ok digest db \<and> (\<forall>r\<in>set (rd_runs db). settled db r)"

lemma terminal_or_active: "s \<in> TERMINAL \<longleftrightarrow> s \<notin> ACTIVE"
  by (cases s) (simp_all add: TERMINAL_def ACTIVE_def)

lemma distinct_filter_map:
  assumes "distinct (map f (filter P xs))" "\<And>x. x \<in> set xs \<Longrightarrow> f (u x) = f x" "\<And>x. x \<in> set xs \<Longrightarrow> P (u x) \<Longrightarrow> P x"
  shows "distinct (map f (filter P (map u xs)))"
proof -
  have "filter (\<lambda>x. P (u x)) xs = filter (\<lambda>x. P (u x)) (filter P xs)"
    using assms(3) by (auto intro: filter_cong)
  then have "filter P (map u xs) = map u (filter (\<lambda>x. P (u x)) (filter P xs))" by (simp add: filter_map comp_def)
  then have "map f (filter P (map u xs)) = map f (filter (\<lambda>x. P (u x)) (filter P xs))" using assms(2) by simp
  then show ?thesis using distinct_map_filter [OF assms(1)] by simp
qed

lemma length_filter_filter: "length (filter P (filter Q xs)) \<le> length (filter P xs)"
  by (induction xs) auto

lemma find_key:
  assumes "distinct (map key xs)" "x \<in> set xs"
  shows "List.find (\<lambda>y. key y = key x) xs = Some x"
  using assms by (induction xs) auto

lemma find_key_Some: "List.find (\<lambda>y. key y = k) xs = Some x \<Longrightarrow> x \<in> set xs \<and> key x = k"
  by (auto simp: find_Some_iff)

lemma run_ids_distinct: "tables_ok digest db \<Longrightarrow> distinct (map rw_id (rd_runs db))"
  by (simp add: tables_ok_def shape_ok_def keys_def comp_def)

lemma read_run_row:
  assumes "tables_ok digest db" "r \<in> set (rd_runs db)"
  shows "read_run db (rw_id r) = Inr (rw_payload r)"
  using find_key [OF run_ids_distinct [OF assms(1)] assms(2)] by (simp add: read_run_def)

lemma read_run_cases:
  "read_run db rid = Inr run \<Longrightarrow> \<exists>r\<in>set (rd_runs db). rw_id r = rid \<and> rw_payload r = run"
  by (auto simp: read_run_def dest!: find_key_Some split: option.splits)

lemma last_event:
  assumes "map ew_sequence es = map int [1..<Suc n]"
  shows "length es = n" "n \<noteq> 0 \<Longrightarrow> es \<noteq> [] \<and> ew_sequence (last es) = int n"
proof -
  from assms have l: "length es = length [1..<Suc n]" by (metis length_map)
  then show "length es = n" by simp
  assume "n \<noteq> 0"
  with l have "es \<noteq> []" by auto
  moreover have "ew_sequence (last es) = last (map ew_sequence es)" using \<open>es \<noteq> []\<close> by (simp add: last_map)
  ultimately show "es \<noteq> [] \<and> ew_sequence (last es) = int n" using \<open>n \<noteq> 0\<close> unfolding assms by (simp add: last_map)
qed

subsection \<open>One write\<close>

lemma keys_update [simp]:
  "keys (db\<lparr>rd_events := x\<rparr>) = keys db" "keys (db\<lparr>rd_conversations := y\<rparr>) = keys db" "keys (db\<lparr>rd_checkpoints := z\<rparr>) = keys db"
  by (simp_all add: keys_def)

lemma write_run_ok:
  assumes t: "tables_ok digest db" and r: "r \<in> set (rd_runs db)"
    and run1: "rs_run_id run1 = rw_id r" "rs_request run1 = rs_request (rw_payload r)"
      "rs_sequence run1 = rs_sequence (rw_payload r)"
    and others: "\<And>q. q \<in> set (rd_runs db) \<Longrightarrow> rw_id q \<noteq> rw_id r \<Longrightarrow> settled db q"
    and active: "rs_status run1 \<in> ACTIVE \<Longrightarrow> rw_status r \<in> ACTIVE"
    and budget: "rs_sequence run1 + 1 \<le> event_budget (rs_status run1)"
    and result: "rs_result run1 \<noteq> None \<Longrightarrow> rs_status run1 \<in> TERMINAL"
  shows "\<exists>db'. write_run ts run1 event_type db = Inr (run1\<lparr>rs_sequence := rs_sequence run1 + 1, rs_updated_at := fst ts\<rparr>, db')
    \<and> journal_ok digest db' \<and> rd_conversations db' = rd_conversations db \<and> keys db' = keys db
    \<and> read_run db' (rw_id r) = Inr (run1\<lparr>rs_sequence := rs_sequence run1 + 1, rs_updated_at := fst ts\<rparr>)
    \<and> (\<forall>i. i \<noteq> rw_id r \<longrightarrow> read_run db' i = read_run db i)"
proof -
  let ?run = "run1\<lparr>rs_sequence := rs_sequence run1 + 1, rs_updated_at := fst ts\<rparr>"
  let ?u = "\<lambda>q. if rw_id q = rw_id r then q\<lparr>rw_payload := ?run, rw_status := rs_status run1\<rparr> else q"
  let ?ev = "\<lparr>ev_run_id = rw_id r, ev_sequence = rs_sequence run1 + 1, ev_type = event_type, ev_status = rs_status run1,
    ev_created_at = snd ts, ev_progress = rs_progress run1\<rparr>"
  let ?row = "\<lparr>ew_run_id = rw_id r, ew_sequence = rs_sequence run1 + 1, ew_payload = ?ev\<rparr>"
  let ?db = "db\<lparr>rd_runs := map ?u (rd_runs db), rd_events := rd_events db @ [?row]\<rparr>"
  from t r have h: "history_ok_of digest db r" by (simp add: tables_ok_def)
  let ?n = "nat (rs_sequence run1)"
  from h run1 have seqs: "map ew_sequence (evs db (rw_id r)) = map int [1..<Suc ?n]" and nn: "0 \<le> rs_sequence run1"
    by (simp_all add: history_ok_of_def Let_def)
  have fresh: "(rw_id r, rs_sequence run1 + 1) \<notin> (\<lambda>e. (ew_run_id e, ew_sequence e)) ` set (rd_events db)"
  proof
    assume "(rw_id r, rs_sequence run1 + 1) \<in> (\<lambda>e. (ew_run_id e, ew_sequence e)) ` set (rd_events db)"
    then obtain e where "e \<in> set (evs db (rw_id r))" "ew_sequence e = rs_sequence run1 + 1" by (auto simp: evs_def)
    then have "rs_sequence run1 + 1 \<in> set (map ew_sequence (evs db (rw_id r)))" by force
    then show False unfolding seqs using nn by (auto split: if_splits)
  qed
  have w: "write_run ts run1 event_type db = Inr (?run, ?db)"
    using fresh r run1(1) by (auto simp: write_run_def Let_def image_iff)
  have same: "q = r" if "q \<in> set (rd_runs db)" "rw_id q = rw_id r" for q
    using run_ids_distinct [OF t] that r by (auto simp: distinct_map inj_on_def)
  have k: "keys ?db = keys db" by (auto simp: keys_def)
  have ev1: "evs ?db (rw_id r) = evs db (rw_id r) @ [?row]" and
    ev2: "i \<noteq> rw_id r \<Longrightarrow> evs ?db i = evs db i" for i by (simp_all add: evs_def)
  have n1: "map int [1..<Suc (nat (rs_sequence run1 + 1))] = map int [1..<Suc ?n] @ [rs_sequence run1 + 1]"
    using nn by (simp add: nat_add_distrib)
  have hist: "history_ok_of digest ?db (?u q)" if q: "q \<in> set (rd_runs db)" for q
  proof (cases "rw_id q = rw_id r")
    case True
    with same [OF q] have "q = r" by blast
    with h run1(1,2) run1(3) [symmetric] nn show ?thesis
      by (simp add: history_ok_of_def Let_def ev1 n1 [unfolded One_nat_def] seqs [unfolded One_nat_def] del: upt_Suc)
  next
    case False
    with t q show ?thesis by (simp add: tables_ok_def history_ok_of_def ev2)
  qed
  have sett: "settled ?db (?u q)" if q: "q \<in> set (rd_runs db)" for q
  proof (cases "rw_id q = rw_id r")
    case True
    with same [OF q] have "q = r" by blast
    with run1(1,2) run1(3) [symmetric] nn budget result show ?thesis by (simp add: settled_def Let_def ev1)
  next
    case False
    with others [OF q] show ?thesis by (simp add: settled_def ev2)
  qed
  have runs_db: "rd_runs ?db = map ?u (rd_runs db)" by simp
  have act: "distinct (map rw_conversation (filter (\<lambda>r. rw_status r \<in> ACTIVE) (rd_runs ?db)))"
    unfolding runs_db
  proof (rule distinct_filter_map)
    show "distinct (map rw_conversation (filter (\<lambda>r. rw_status r \<in> ACTIVE) (rd_runs db)))"
      using t by (simp add: tables_ok_def)
    show "rw_status q \<in> ACTIVE" if "q \<in> set (rd_runs db)" "rw_status (?u q) \<in> ACTIVE" for q
      using that active same [of q] by (auto split: if_splits)
  qed auto
  have fk: "ew_run_id ` set (rd_events ?db) \<subseteq> rw_id ` set (rd_runs ?db)"
  proof -
    have "map rw_id (rd_runs ?db) = map rw_id (rd_runs db)" by simp
    then have "rw_id ` set (rd_runs ?db) = rw_id ` set (rd_runs db)" by (metis list.set_map)
    moreover have "ew_run_id ` set (rd_events ?db) \<subseteq> rw_id ` set (rd_runs db)"
      using t r by (auto simp: tables_ok_def)
    ultimately show ?thesis by simp
  qed
  have shape: "shape_ok (rd_conversations ?db) (keys ?db)" using t unfolding k by (simp add: tables_ok_def)
  define db' where "db' = ?db"
  have runs: "set (rd_runs db') = ?u ` set (rd_runs db)" by (simp add: db'_def)
  have rows: "\<forall>q\<in>set (rd_runs db'). history_ok_of digest db' q \<and> settled db' q"
    unfolding runs using hist sett unfolding db'_def [symmetric] by blast
  have "journal_ok digest db'"
    using rows act fk shape unfolding db'_def [symmetric] journal_ok_def tables_ok_def by blast
  then have "journal_ok digest ?db" unfolding db'_def .
  moreover have "read_run ?db (rw_id r) = Inr ?run"
  proof -
    have "List.find (\<lambda>q. rw_id q = rw_id r) (map ?u (rd_runs db)) = map_option ?u (List.find (\<lambda>q. rw_id q = rw_id r) (rd_runs db))"
      by (rule find_map_key) simp
    with find_key [OF run_ids_distinct [OF t] r] show ?thesis by (simp add: read_run_def)
  qed
  moreover have "read_run ?db i = read_run db i" if "i \<noteq> rw_id r" for i
  proof -
    have "List.find (\<lambda>q. rw_id q = i) (map ?u (rd_runs db)) = map_option ?u (List.find (\<lambda>q. rw_id q = i) (rd_runs db))"
      by (rule find_map_key) simp
    with that show ?thesis by (auto simp: read_run_def split: option.splits dest: find_key_Some)
  qed
  ultimately show ?thesis using w k by auto
qed

subsection \<open>The moves of a run\<close>

definition transitions :: "(RunStatus \<times> RunStatus) set" where
  "transitions = {(QUEUED, RUNNING), (RUNNING, RUNNING), (QUEUED, CANCELLATION_REQUESTED), (RUNNING, CANCELLATION_REQUESTED)}
     \<union> {QUEUED, RUNNING} \<times> TERMINAL \<union> {CANCELLATION_REQUESTED} \<times> {CANCELLED, INTERRUPTED}"

definition moved :: "RunSnapshot \<Rightarrow> RunSnapshot \<Rightarrow> bool" where
  "moved a b \<longleftrightarrow> (rs_status a, rs_status b) \<in> transitions \<and> rs_run_id b = rs_run_id a \<and> rs_request b = rs_request a
     \<and> rs_source_binding b = rs_source_binding a \<and> rs_sequence b = rs_sequence a + 1
     \<and> (rs_result b \<noteq> None \<longrightarrow> rs_status b = COMPLETED \<and> rs_status a \<noteq> CANCELLATION_REQUESTED)"

lemma transitions_active: "(a, b) \<in> transitions \<Longrightarrow> a \<in> ACTIVE"
  by (auto simp: transitions_def ACTIVE_def)

lemma transitions_budget: "(a, b) \<in> transitions \<Longrightarrow> (a, b) \<noteq> (RUNNING, RUNNING) \<Longrightarrow> event_budget a + 1 \<le> event_budget b"
  by (auto simp: transitions_def event_budget_def TERMINAL_def)

text \<open>What one operation on one run may do: fail, but never on a key of its own tables; leave everything; or
  move that run.\<close>

definition one_write :: "(RunRequest \<Rightarrow> string) \<Rightarrow> run_db \<Rightarrow> uuid \<Rightarrow> run_failure + RunSnapshot \<times> run_db \<Rightarrow> bool" where
  "one_write digest db rid out \<longleftrightarrow> (case out of Inl e \<Rightarrow> e \<noteq> RunIntegrity
     | Inr (run, db') \<Rightarrow> read_run db' rid = Inr run \<and> (db' = db \<or>
         (journal_ok digest db' \<and> rd_conversations db' = rd_conversations db \<and> keys db' = keys db
          \<and> (\<exists>a. read_run db rid = Inr a \<and> moved a run) \<and> (\<forall>i. i \<noteq> rid \<longrightarrow> read_run db' i = read_run db i))))"

lemma row_of_read:
  assumes "journal_ok digest db" "read_run db rid = Inr a"
  obtains r where "r \<in> set (rd_runs db)" "rw_id r = rid" "rw_payload r = a" "rw_status r = rs_status a" "rs_run_id a = rid"
    "1 \<le> rs_sequence a" "rs_sequence a \<le> event_budget (rs_status a)"
proof -
  from read_run_cases [OF assms(2)] obtain r where r: "r \<in> set (rd_runs db)" "rw_id r = rid" "rw_payload r = a" by blast
  from assms(1) r(1) have "settled db r" "history_ok_of digest db r" by (simp_all add: journal_ok_def tables_ok_def)
  with r show thesis by (intro that) (auto simp: settled_def history_ok_of_def Let_def)
qed

lemma result_terminal:
  assumes "journal_ok digest db" "read_run db rid = Inr a" "rs_result a \<noteq> None"
  shows "rs_status a \<in> TERMINAL"
proof -
  from read_run_cases [OF assms(2)] obtain r where "r \<in> set (rd_runs db)" "rw_payload r = a" by blast
  with assms(1,3) show ?thesis by (auto simp: journal_ok_def settled_def Let_def)
qed

lemma write_moves:
  assumes "journal_ok digest db" "read_run db rid = Inr a" "moved a (run1\<lparr>rs_sequence := rs_sequence run1 + 1\<rparr>)"
    and "rs_status a = RUNNING \<Longrightarrow> rs_status run1 = RUNNING \<Longrightarrow> rs_sequence a < 60"
  shows "one_write digest db rid (write_run ts run1 event_type db)"
proof -
  obtain r where r: "r \<in> set (rd_runs db)" "rw_id r = rid" "rw_payload r = a" "rw_status r = rs_status a" "rs_run_id a = rid"
    "1 \<le> rs_sequence a" "rs_sequence a \<le> event_budget (rs_status a)" by (rule row_of_read [OF assms(1,2)])
  from assms(3) have t: "(rs_status a, rs_status run1) \<in> transitions" and m: "rs_run_id run1 = rs_run_id a"
    "rs_request run1 = rs_request a" "rs_sequence run1 = rs_sequence a"
    "rs_result run1 \<noteq> None \<Longrightarrow> rs_status run1 = COMPLETED" by (simp_all add: moved_def)
  have "rs_sequence run1 + 1 \<le> event_budget (rs_status run1)"
  proof (cases "(rs_status a, rs_status run1) = (RUNNING, RUNNING)")
    case True
    with assms(4) m(3) show ?thesis by (simp add: event_budget_def)
  next
    case False
    from transitions_budget [OF t this] r(7) m(3) show ?thesis by linarith
  qed
  with write_run_ok [OF _ r(1), of digest run1 ts event_type] assms(1) r m t transitions_active [OF t]
  obtain db' where "write_run ts run1 event_type db
      = Inr (run1\<lparr>rs_sequence := rs_sequence run1 + 1, rs_updated_at := fst ts\<rparr>, db')"
    "journal_ok digest db'" "rd_conversations db' = rd_conversations db" "keys db' = keys db"
    "read_run db' rid = Inr (run1\<lparr>rs_sequence := rs_sequence run1 + 1, rs_updated_at := fst ts\<rparr>)"
    "\<forall>i. i \<noteq> rid \<longrightarrow> read_run db' i = read_run db i"
    by (auto simp: journal_ok_def TERMINAL_def)
  moreover have "moved a (run1\<lparr>rs_sequence := rs_sequence run1 + 1, rs_updated_at := fst ts\<rparr>)"
    using assms(3) by (simp add: moved_def)
  ultimately show ?thesis using assms(2) by (auto simp: one_write_def)
qed

lemma one_write_same: "read_run db rid = Inr run \<Longrightarrow> one_write digest db rid (Inr (run, db))"
  by (simp add: one_write_def)

lemma read_run_error: "read_run db rid = Inl e \<Longrightarrow> e \<noteq> RunIntegrity"
  by (auto simp: read_run_def split: option.splits)

lemma conversation_error: "conversation db owner scope cid = Inl e \<Longrightarrow> e \<noteq> RunIntegrity"
  by (auto simp: conversation_def split: option.splits if_splits)

lemma read_owned_Inr: "read_owned db owner scope rid = Inr run \<Longrightarrow> read_run db rid = Inr run"
  by (auto simp: read_owned_def split: sum.splits)

lemma read_owned_error: "read_owned db owner scope rid = Inl e \<Longrightarrow> e \<noteq> RunIntegrity"
  by (auto simp: read_owned_def dest: read_run_error conversation_error split: sum.splits)

lemma write_run_error: "write_run ts run event_type db = Inl e \<Longrightarrow> e = RunIntegrity"
  by (auto simp: write_run_def Let_def split: if_splits)

lemma write_run_status: "write_run ts run0 event_type db = Inr (run, db') \<Longrightarrow> rs_status run = rs_status run0 \<and> rs_result run = rs_result run0"
  by (auto simp: write_run_def Let_def split: if_splits)

lemma start_writes:
  assumes "journal_ok digest db"
  shows "case start ts rid db of Inl e \<Rightarrow> e \<noteq> RunIntegrity
     | Inr (b, db') \<Rightarrow> \<exists>run. one_write digest db rid (Inr (run, db')) \<and> (if b then rs_status run = RUNNING else db' = db)"
proof (cases "read_run db rid")
  case (Inl e)
  with read_run_error [OF Inl] show ?thesis by (simp add: start_def)
next
  case (Inr a)
  show ?thesis
  proof (cases "rs_status a = QUEUED")
    case True
    let ?run = "a\<lparr>rs_status := RUNNING, rs_message := ''Processing the governed question.''\<rparr>"
    have "rs_result a = None" using True result_terminal [OF assms Inr] by (cases "rs_result a") (auto simp: TERMINAL_def)
    then have "moved a (?run\<lparr>rs_sequence := rs_sequence ?run + 1\<rparr>)" using True
      by (simp add: moved_def transitions_def TERMINAL_def)
    from write_moves [OF assms Inr this, of ts "''run.started''"] True
    have "one_write digest db rid (write_run ts ?run ''run.started'' db)" by simp
    with True Inr show ?thesis
      by (cases "write_run ts ?run ''run.started'' db") (auto simp: start_def one_write_def dest: write_run_status)
  next
    case False
    with Inr show ?thesis by (auto simp: start_def intro: one_write_same)
  qed
qed

lemma progress_writes:
  assumes "journal_ok digest db"
  shows "case progress ts rid report db of Inl e \<Rightarrow> e \<noteq> RunIntegrity
     | Inr db' \<Rightarrow> \<exists>run. one_write digest db rid (Inr (run, db')) \<and> (rs_status run = RUNNING \<or> db' = db)"
proof (cases "read_run db rid")
  case (Inl e)
  with read_run_error [OF Inl] show ?thesis by (simp add: progress_def)
next
  case (Inr a)
  show ?thesis
  proof (cases "rs_status a = RUNNING \<and> rs_sequence a < 60")
    case True
    let ?run = "a\<lparr>rs_progress := Some report\<rparr>"
    have "rs_result a = None" using True result_terminal [OF assms Inr] by (cases "rs_result a") (auto simp: TERMINAL_def)
    then have "moved a (?run\<lparr>rs_sequence := rs_sequence ?run + 1\<rparr>)" using True
      by (simp add: moved_def transitions_def TERMINAL_def)
    from write_moves [OF assms Inr this, of ts "''agent.progress''"] True
    have "one_write digest db rid (write_run ts ?run ''agent.progress'' db)" by simp
    with True Inr show ?thesis
      by (cases "write_run ts ?run ''agent.progress'' db") (auto simp: progress_def one_write_def dest: write_run_status)
  next
    case False
    with Inr show ?thesis by (auto simp: progress_def intro: one_write_same)
  qed
qed

lemma finish_writes:
  assumes "journal_ok digest db" "result \<noteq> None \<Longrightarrow> status = COMPLETED"
  shows "one_write digest db rid (finish ts rid status result code message db)"
proof (cases "status \<in> TERMINAL")
  case False
  then show ?thesis by (simp add: finish_def one_write_def)
next
  case fin: True
  show ?thesis
  proof (cases "read_run db rid")
    case (Inl e)
    with fin read_run_error [OF Inl] show ?thesis by (simp add: finish_def one_write_def)
  next
    case (Inr a)
    show ?thesis
    proof (cases "rs_status a \<in> TERMINAL")
      case True
      with fin Inr show ?thesis by (simp add: finish_def one_write_same)
    next
      case False
      define force where "force \<longleftrightarrow> rs_status a = CANCELLATION_REQUESTED \<and> status \<noteq> INTERRUPTED"
      define st where "st = (if force then CANCELLED else status)"
      define res where "res = (if force then None else result)"
      define run2 where "run2 = (let run1 = a\<lparr>rs_status := st, rs_result := res, rs_error_code := (if force then None else code),
          rs_message := (if force then ''Cancellation confirmed; no answer released.'' else message)\<rparr>
        in case res of None \<Rightarrow> run1 | Some r \<Rightarrow> run1\<lparr>rs_progress := rp_agent_run r\<rparr>)"
      have f: "finish ts rid status result code message db = write_run ts run2 (terminal_event st) db"
        using fin Inr False by (auto simp: finish_def run2_def st_def res_def force_def Let_def)
      have st: "st \<in> TERMINAL" using fin by (simp add: st_def TERMINAL_def)
      have tr: "(rs_status a, st) \<in> transitions"
        using fin False
        by (cases "rs_status a") (auto simp: transitions_def st_def force_def TERMINAL_def)
      have rr: "res \<noteq> None \<Longrightarrow> st = COMPLETED \<and> rs_status a \<noteq> CANCELLATION_REQUESTED"
        using assms(2) by (auto simp: res_def st_def force_def split: if_splits)
      have p: "rs_status run2 = st" "rs_result run2 = res" "rs_run_id run2 = rs_run_id a" "rs_request run2 = rs_request a"
        "rs_source_binding run2 = rs_source_binding a" "rs_sequence run2 = rs_sequence a"
        by (auto simp: run2_def Let_def split: option.split)
      have "moved a (run2\<lparr>rs_sequence := rs_sequence run2 + 1\<rparr>)" using tr rr p by (simp add: moved_def)
      moreover have "rs_status run2 \<noteq> RUNNING" using st p by (auto simp: TERMINAL_def)
      ultimately show ?thesis unfolding f using write_moves [OF assms(1) Inr] by blast
    qed
  qed
qed

lemma cancel_writes:
  assumes "journal_ok digest db"
  shows "one_write digest db rid (cancel ts owner scope rid db)"
proof (cases "read_owned db owner scope rid")
  case (Inl e)
  with read_owned_error [OF Inl] show ?thesis by (simp add: cancel_def one_write_def)
next
  case (Inr a)
  note a = read_owned_Inr [OF Inr]
  show ?thesis
  proof (cases "rs_status a \<notin> TERMINAL \<and> rs_status a \<noteq> CANCELLATION_REQUESTED")
    case True
    let ?run = "a\<lparr>rs_status := CANCELLATION_REQUESTED, rs_message := ''Cancellation requested.''\<rparr>"
    have "rs_result a = None" using True result_terminal [OF assms a] by (cases "rs_result a") auto
    then have "moved a (?run\<lparr>rs_sequence := rs_sequence ?run + 1\<rparr>)" using True
      by (cases "rs_status a") (auto simp: moved_def transitions_def TERMINAL_def)
    from write_moves [OF assms a this] True Inr show ?thesis by (simp add: cancel_def)
  next
    case False
    with Inr a show ?thesis by (auto simp: cancel_def one_write_same)
  qed
qed

lemma cancel_status:
  "cancel ts owner scope rid db = Inr (run, db') \<Longrightarrow> rs_status run = CANCELLATION_REQUESTED \<or> db' = db"
  by (auto simp: cancel_def dest: write_run_status split: sum.splits if_splits)

subsection \<open>Conversations and deletion\<close>

lemma new_conversation_ok:
  assumes "journal_ok digest db" "cw_id row \<notin> cw_id ` set (rd_conversations db)"
    and "cn_conversation_id (cw_payload row) = cw_id row" "cn_revision (cw_payload row) = 0" "cn_latest_run_id (cw_payload row) = None"
    and db': "db' = db\<lparr>rd_conversations := rd_conversations db @ [row]\<rparr>"
  shows "journal_ok digest db'" "read_run db' = read_run db"
proof -
  from assms(1) have s: "shape_ok (rd_conversations db) (keys db)" by (simp add: journal_ok_def tables_ok_def)
  then have "ids_in (keys db) (cw_id row) = []" using assms(2)
    by (auto simp: shape_ok_def ids_in_def filter_empty_conv)
  with s assms have "shape_ok (rd_conversations db @ [row]) (keys db)"
    by (auto simp: shape_ok_def conversation_ok_def Let_def)
  with assms(1) show "journal_ok digest db'"
    by (simp add: db' journal_ok_def tables_ok_def history_ok_of_def settled_def evs_def)
  show "read_run db' = read_run db" by (simp add: db' read_run_def fun_eq_iff)
qed

lemma create_conversation_ok:
  assumes "journal_ok digest db" "create_conversation owner scope cid now db = Inr (c, db')"
  shows "journal_ok digest db'" "read_run db' = read_run db" "conversation db' owner scope cid = Inr c"
proof -
  let ?row = "\<lparr>cw_id = cid, cw_owner = owner, cw_scope = scope, cw_payload = c\<rparr>"
  from assms(2) have c: "cn_conversation_id c = cid" "cn_revision c = 0" "cn_latest_run_id c = None"
    and db': "db' = db\<lparr>rd_conversations := rd_conversations db @ [?row]\<rparr>"
    and new: "cid \<notin> cw_id ` set (rd_conversations db)"
    by (auto simp: create_conversation_def Let_def split: if_splits)
  from new_conversation_ok [OF assms(1) _ _ _ _ db'] c new
  show "journal_ok digest db'" "read_run db' = read_run db" by simp_all
  have "List.find (\<lambda>c. cw_id c = cid) (rd_conversations db) = None"
    using new by (auto simp: find_None_iff)
  then show "conversation db' owner scope cid = Inr c" by (simp add: db' conversation_def find_append)
qed

lemma drop_conversation_ok:
  assumes "journal_ok digest db"
  shows "journal_ok digest (drop_conversation cid db)"
proof -
  let ?db = "drop_conversation cid db"
  let ?gone = "rw_id ` set (runs_of db cid)"
  from assms have t: "tables_ok digest db" and s: "shape_ok (rd_conversations db) (keys db)"
    by (simp_all add: journal_ok_def tables_ok_def)
  have k: "keys ?db = filter (\<lambda>k. fst (snd k) \<noteq> cid) (keys db)"
    by (simp add: keys_def drop_conversation_def filter_map comp_def)
  have ids: "ids_in (keys ?db) i = ids_in (keys db) i" if "i \<noteq> cid" for i
  proof -
    have "filter (\<lambda>k. fst (snd k) = i \<and> fst (snd k) \<noteq> cid) (keys db) = filter (\<lambda>k. fst (snd k) = i) (keys db)"
      using that by (intro filter_cong) auto
    then show ?thesis by (simp add: ids_in_def k conj_commute)
  qed
  have shape: "shape_ok (rd_conversations ?db) (keys ?db)"
    unfolding shape_ok_def
  proof (intro conjI ballI allI)
    show "distinct (map cw_id (rd_conversations ?db))"
      using s by (simp add: shape_ok_def drop_conversation_def distinct_map_filter)
    show "distinct (map fst (keys ?db))" "distinct (map snd (keys ?db))"
      unfolding k using s by (simp_all add: shape_ok_def distinct_map_filter)
    show "fst (snd q) \<in> cw_id ` set (rd_conversations ?db)" if "q \<in> set (keys ?db)" for q
      using that s unfolding k by (auto simp: shape_ok_def drop_conversation_def image_iff)
    show "conversation_ok (keys ?db) c" if "c \<in> set (rd_conversations ?db)" for c
      using that s ids [of "cw_id c"] by (auto simp: shape_ok_def drop_conversation_def conversation_ok_def)
  qed
  have same: "evs ?db (rw_id r) = evs db (rw_id r)" if "r \<in> set (rd_runs ?db)" for r
  proof -
    have "rw_id r \<notin> ?gone"
      using that run_ids_distinct [OF t] by (auto simp: drop_conversation_def runs_of_def distinct_map inj_on_def)
    then show ?thesis by (auto simp: evs_def drop_conversation_def image_iff intro!: filter_cong)
  qed
  have rows: "\<forall>r\<in>set (rd_runs ?db). history_ok_of digest ?db r \<and> settled ?db r"
  proof
    fix r assume r: "r \<in> set (rd_runs ?db)"
    then have "r \<in> set (rd_runs db)" by (simp add: drop_conversation_def)
    with assms have "history_ok_of digest db r" "settled db r" by (simp_all add: journal_ok_def tables_ok_def)
    then show "history_ok_of digest ?db r \<and> settled ?db r" by (simp add: history_ok_of_def settled_def same [OF r])
  qed
  have fk: "ew_run_id ` set (rd_events ?db) \<subseteq> rw_id ` set (rd_runs ?db)"
    using t by (auto simp: tables_ok_def drop_conversation_def runs_of_def image_iff) blast
  have "distinct (map rw_conversation (filter (\<lambda>r. rw_status r \<in> ACTIVE) (rd_runs ?db)))"
  proof -
    have "filter (\<lambda>r. rw_status r \<in> ACTIVE) (rd_runs ?db)
        = filter (\<lambda>r. rw_conversation r \<noteq> cid) (filter (\<lambda>r. rw_status r \<in> ACTIVE) (rd_runs db))"
      by (simp add: drop_conversation_def conj_commute)
    moreover have "distinct (map rw_conversation (filter (\<lambda>r. rw_status r \<in> ACTIVE) (rd_runs db)))"
      using t by (simp add: tables_ok_def)
    ultimately show ?thesis by (simp only: distinct_map_filter)
  qed
  with shape rows fk show ?thesis by (simp add: journal_ok_def tables_ok_def)
qed

lemma count_list_filter: "count_list (map f xs) y = length (filter (\<lambda>x. f x = y) xs)"
  by (induction xs) auto

lemma create_conversation_capacity:
  assumes "create_conversation owner scope cid now db = Inr (c, db')" "capacity_ok 512 db"
  shows "capacity_ok 512 db'"
proof -
  from assms(1) have "owners db' = owners db @ [owner]" "length (owners db) < 512" "count_list (owners db) owner < 16"
    by (auto simp: create_conversation_def owners_def count_list_filter Let_def split: if_splits)
  with assms(2) show ?thesis by (auto simp: capacity_ok_def less_eq_Suc_le)
qed

lemma drop_capacity:
  assumes "capacity_ok limit db"
  shows "capacity_ok limit (drop_conversation cid db)"
proof -
  have "count_list (owners (drop_conversation cid db)) owner \<le> count_list (owners db) owner" for owner
    by (simp add: owners_def count_list_filter drop_conversation_def length_filter_filter del: filter_filter)
  moreover have "length (owners (drop_conversation cid db)) \<le> length (owners db)"
    by (simp add: owners_def drop_conversation_def)
  ultimately show ?thesis using assms unfolding capacity_ok_def using le_trans by blast
qed

subsection \<open>Accepting a question\<close>

lemma shape_append:
  assumes "shape_ok cs ks" "c \<in> set cs" "cw_payload c = conv" "cw_id c = cid"
    and "rid \<notin> fst ` set ks" "(cid, req) \<notin> snd ` set ks" "length (ids_in ks cid) < 64"
    and "conv' = conv\<lparr>cn_revision := cn_revision conv + 1, cn_latest_run_id := Some rid, cn_title := title\<rparr>"
  shows "shape_ok (map (\<lambda>c. if cw_id c = cn_conversation_id conv' then c\<lparr>cw_payload := conv'\<rparr> else c) cs) (ks @ [(rid, cid, req)])"
proof -
  let ?u = "\<lambda>c. if cw_id c = cn_conversation_id conv' then c\<lparr>cw_payload := conv'\<rparr> else c"
  have c: "conversation_ok ks c" using assms(1,2) by (simp add: shape_ok_def)
  then have cid: "cn_conversation_id conv' = cid" using assms(3,4,8) by (simp add: conversation_ok_def Let_def)
  have ids: "ids_in (ks @ [(rid, cid, req)]) i = ids_in ks i @ (if i = cid then [rid] else [])" for i
    by (simp add: ids_in_def)
  have same: "q = c" if "q \<in> set cs" "cw_id q = cid" for q
    using that assms(1,2,4) by (auto simp: shape_ok_def distinct_map inj_on_def)
  have m: "map cw_id (map ?u cs) = map cw_id cs" by simp
  show ?thesis
    unfolding shape_ok_def m
  proof (intro conjI ballI allI)
    show "distinct (map cw_id cs)" using assms(1) by (simp add: shape_ok_def)
    show "distinct (map fst (ks @ [(rid, cid, req)]))" "distinct (map snd (ks @ [(rid, cid, req)]))"
      using assms(1,5,6) by (auto simp: shape_ok_def)
    have im: "cw_id ` set (map ?u cs) = cw_id ` set cs" using m by (metis list.set_map)
    show "fst (snd k) \<in> cw_id ` set (map ?u cs)" if "k \<in> set (ks @ [(rid, cid, req)])" for k
      unfolding im using that assms(1,2,4) by (auto simp: shape_ok_def)
    show "conversation_ok (ks @ [(rid, cid, req)]) d" if "d \<in> set (map ?u cs)" for d
    proof -
      from that obtain q where q: "q \<in> set cs" "d = ?u q" by auto
      show ?thesis
      proof (cases "cw_id q = cid")
        case True
        with same [OF q(1)] have "q = c" by blast
        with q True c cid assms(3,7,8) show ?thesis by (simp add: conversation_ok_def Let_def ids)
      next
        case False
        with q cid assms(1) show ?thesis by (auto simp: shape_ok_def conversation_ok_def ids)
      qed
    qed
  qed
qed

lemma insert_run_ok:
  assumes j: "journal_ok digest db" and i: "insert_run digest run (db\<lparr>rd_conversations := cs\<rparr>) = Inr db2"
    and run: "rs_status run = QUEUED" "rs_sequence run = 0" "\<not> has_active db (rq_conversation_id (rs_request run))"
    and s: "shape_ok cs (keys db @ [(rs_run_id run, rq_conversation_id (rs_request run), rq_client_request_id (rs_request run))])"
  shows "tables_ok digest db2" "\<exists>r\<in>set (rd_runs db2). rw_id r = rs_run_id run \<and> rw_payload r = run \<and> rw_status r = QUEUED"
    and "\<forall>q\<in>set (rd_runs db2). rw_id q \<noteq> rs_run_id run \<longrightarrow> settled db2 q"
    and "rd_conversations db2 = cs" "keys db2 = keys db @ [(rs_run_id run, rq_conversation_id (rs_request run), rq_client_request_id (rs_request run))]"
    and "\<forall>i. i \<noteq> rs_run_id run \<longrightarrow> read_run db2 i = read_run db i" "read_run db (rs_run_id run) \<noteq> Inr a"
proof -
  let ?row = "\<lparr>rw_id = rs_run_id run, rw_conversation = rq_conversation_id (rs_request run),
    rw_request_id = rq_client_request_id (rs_request run), rw_request_hash = digest (rs_request run),
    rw_status = rs_status run, rw_payload = run\<rparr>"
  from i have new: "rs_run_id run \<notin> rw_id ` set (rd_runs db)" and
    db2: "db2 = db\<lparr>rd_conversations := cs, rd_runs := rd_runs db @ [?row]\<rparr>"
    by (auto simp: insert_run_def Let_def split: if_splits)
  from j have t: "tables_ok digest db" by (simp add: journal_ok_def)
  have e: "evs db2 = evs db" by (simp add: db2 evs_def fun_eq_iff)
  have none: "evs db (rs_run_id run) = []"
    using t new by (auto simp: evs_def tables_ok_def filter_empty_conv image_iff subset_iff) metis
  have fk: "ew_run_id ` set (rd_events db2) \<subseteq> rw_id ` set (rd_runs db2)" using t by (auto simp: db2 tables_ok_def)
  have act: "distinct (map rw_conversation (filter (\<lambda>r. rw_status r \<in> ACTIVE) (rd_runs db2)))"
    using t run by (auto simp: db2 tables_ok_def has_active_def)
  have k: "keys db2 = keys db @ [(rs_run_id run, rq_conversation_id (rs_request run), rq_client_request_id (rs_request run))]"
    by (simp add: db2 keys_def)
  then show "keys db2 = keys db @ [(rs_run_id run, rq_conversation_id (rs_request run), rq_client_request_id (rs_request run))]" .
  have "history_ok_of digest db2 ?row" using none run by (simp add: history_ok_of_def e)
  then have "\<forall>r\<in>set (rd_runs db2). history_ok_of digest db2 r" using t
    by (auto simp: db2 tables_ok_def history_ok_of_def evs_def)
  with fk act s k show "tables_ok digest db2" by (simp add: tables_ok_def db2)
  show "\<exists>r\<in>set (rd_runs db2). rw_id r = rs_run_id run \<and> rw_payload r = run \<and> rw_status r = QUEUED" using run
    by (simp add: db2)
  show "\<forall>q\<in>set (rd_runs db2). rw_id q \<noteq> rs_run_id run \<longrightarrow> settled db2 q"
    using j by (auto simp: db2 journal_ok_def settled_def evs_def)
  show "rd_conversations db2 = cs" by (simp add: db2)
  show "\<forall>i. i \<noteq> rs_run_id run \<longrightarrow> read_run db2 i = read_run db i"
    by (auto simp: db2 read_run_def find_append split: option.split)
  show "read_run db (rs_run_id run) \<noteq> Inr a"
  proof
    assume "read_run db (rs_run_id run) = Inr a"
    from read_run_cases [OF this] new show False by (auto simp: image_iff)
  qed
qed

text \<open>A question is accepted on the caller's own conversation at the revision the client saw, below the limit
  and with nothing active; it becomes the latest run and the only active one.\<close>

lemma enqueue_ok:
  assumes j: "journal_ok digest db" and e: "enqueue digest rid ts ts' owner scope request binding db = Inr (run, db')"
  shows "journal_ok digest db'" "read_run db' rid = Inr run" "\<forall>i. i \<noteq> rid \<longrightarrow> read_run db' i = read_run db i"
    "read_run db rid \<noteq> Inr a" "rs_status run = QUEUED" "rs_request run = request" "rs_source_binding run = binding"
    "\<exists>conv conv'. conversation db owner scope (rq_conversation_id request) = Inr conv
       \<and> cn_revision conv = rq_expected_revision request \<and> conversation db' owner scope (rq_conversation_id request) = Inr conv'
       \<and> cn_revision conv' = cn_revision conv + 1 \<and> cn_latest_run_id conv' = Some rid"
    "keys db' = keys db @ [(rid, rq_conversation_id request, rq_client_request_id request)]" "owners db' = owners db"
proof -
  let ?cid = "rq_conversation_id request" and ?run0 = "new_snapshot rid ts request binding"
  from e obtain conv where conv: "conversation db owner scope ?cid = Inr conv"
    by (auto simp: enqueue_def Let_def split: sum.splits)
  then obtain c where c: "c \<in> set (rd_conversations db)" "cw_id c = ?cid" "cw_payload c = conv" "cw_owner c = owner" "cw_scope c = scope"
    by (auto simp: conversation_def dest!: find_key_Some split: option.splits if_splits)
  define conv' where "conv' = conv\<lparr>cn_revision := cn_revision conv + 1, cn_latest_run_id := Some rid,
    cn_title := take 80 (rq_question request)\<rparr>"
  let ?u = "\<lambda>c. if cw_id c = cn_conversation_id conv' then c\<lparr>cw_payload := conv'\<rparr> else c"
  let ?cs = "map ?u (rd_conversations db)"
  from e [unfolded enqueue_def Let_def conv sum.case, folded conv'_def] obtain db2 where
    g: "cn_revision conv = rq_expected_revision request" "length (runs_of db ?cid) < 64" "\<not> has_active db ?cid" and
    i: "insert_run digest ?run0 (db\<lparr>rd_conversations := ?cs\<rparr>) = Inr db2" and
    w: "write_run ts' ?run0 ''run.accepted'' db2 = Inr (run, db')"
    by (auto split: sum.splits if_splits)
  from j have s: "shape_ok (rd_conversations db) (keys db)" by (simp add: journal_ok_def tables_ok_def)
  have r0: "rs_run_id ?run0 = rid" "rs_request ?run0 = request" "rs_status ?run0 = QUEUED" "rs_sequence ?run0 = 0"
    "rs_source_binding ?run0 = binding" "rs_result ?run0 = None" by (simp_all add: new_snapshot_def)
  from i have new: "rid \<notin> fst ` set (keys db)" "(?cid, rq_client_request_id request) \<notin> snd ` set (keys db)"
    by (auto simp: insert_run_def Let_def r0 keys_def runs_of_def image_iff split: if_splits)
  have "length (ids_in (keys db) ?cid) < 64" using g(2)
    by (simp add: ids_in_def keys_def runs_of_def filter_map comp_def)
  from shape_append [OF s c(1,3,2) new this conv'_def]
  have shape: "shape_ok ?cs (keys db @ [(rid, ?cid, rq_client_request_id request)])" .
  note ins = insert_run_ok [OF j i, unfolded r0, OF refl refl g(3) shape]
  from ins(2) obtain r where r: "r \<in> set (rd_runs db2)" "rw_id r = rid" "rw_payload r = ?run0" "rw_status r = QUEUED" by blast
  have b: "rs_sequence ?run0 + 1 \<le> event_budget (rs_status ?run0)" by (simp add: r0 event_budget_def)
  have o: "settled db2 q" if "q \<in> set (rd_runs db2)" "rw_id q \<noteq> rw_id r" for q using ins(3) that r(2) by simp
  from write_run_ok [OF ins(1) r(1), of ?run0 ts' "''run.accepted''", OF _ _ _ o] w b r r0
  have x: "run = ?run0\<lparr>rs_sequence := rs_sequence ?run0 + 1, rs_updated_at := fst ts'\<rparr>" "journal_ok digest db'"
    "rd_conversations db' = rd_conversations db2" "keys db' = keys db2" "read_run db' rid = Inr run"
    "\<forall>i. i \<noteq> rid \<longrightarrow> read_run db' i = read_run db2 i" by (auto simp: ACTIVE_def)
  show "journal_ok digest db'" "read_run db' rid = Inr run" by (rule x)+
  show "\<forall>i. i \<noteq> rid \<longrightarrow> read_run db' i = read_run db i" using x(6) ins(6) by simp
  show "read_run db rid \<noteq> Inr a" by (rule ins(7))
  show "rs_status run = QUEUED" "rs_request run = request" "rs_source_binding run = binding" by (simp_all add: x r0)
  show "keys db' = keys db @ [(rid, ?cid, rq_client_request_id request)]" using x(4) ins(5) by simp
  show "owners db' = owners db" using x(3) ins(4) by (simp add: owners_def)
  have "cn_conversation_id conv' = ?cid" using s c by (auto simp: shape_ok_def conversation_ok_def Let_def conv'_def)
  moreover have "List.find (\<lambda>c. cw_id c = ?cid) ?cs = map_option ?u (List.find (\<lambda>c. cw_id c = ?cid) (rd_conversations db))"
    by (rule find_map_key) simp
  moreover have "List.find (\<lambda>c. cw_id c = ?cid) (rd_conversations db) = Some c"
    using find_key [of cw_id "rd_conversations db" c] s c by (simp add: shape_ok_def)
  ultimately have "conversation db' owner scope ?cid = Inr conv'" using c
    by (simp add: conversation_def x(3) ins(4))
  then show "\<exists>conv conv'. conversation db owner scope ?cid = Inr conv
       \<and> cn_revision conv = rq_expected_revision request \<and> conversation db' owner scope ?cid = Inr conv'
       \<and> cn_revision conv' = cn_revision conv + 1 \<and> cn_latest_run_id conv' = Some rid"
    using conv g(1) by (intro exI [of _ conv] exI [of _ conv']) (simp add: conv'_def)
qed

end
