(* ===== verification/RunHistory.thy ===== *)
theory RunHistory
  imports RunJournal
begin

section \<open>RunHistory: what the journal promises\<close>

text \<open>
  The operations of \<open>services/run_store.py\<close> as steps of a state machine, its reachable states, and what holds
  in them: the invariant, the forward moves of a run, idempotent requests, gapless replay, recovery, and
  the maintenance check of \<open>operations/database.py\<close>.
\<close>

subsection \<open>Steps\<close>

text \<open>The coordinator finishes a run with a result only as completed.\<close>

inductive run_step :: "(RunRequest \<Rightarrow> string) \<Rightarrow> run_db \<Rightarrow> run_db \<Rightarrow> bool" for digest where
  create: "create_conversation owner scope cid now db = Inr (c, db') \<Longrightarrow> run_step digest db db'"
| enqueue: "enqueue digest rid ts ts' owner scope request binding db = Inr (run, db') \<Longrightarrow> run_step digest db db'"
| start: "start ts rid db = Inr (b, db') \<Longrightarrow> run_step digest db db'"
| progress: "progress ts rid report db = Inr db' \<Longrightarrow> run_step digest db db'"
| finish: "finish ts rid status result code message db = Inr (run, db') \<Longrightarrow> (result \<noteq> None \<Longrightarrow> status = COMPLETED)
    \<Longrightarrow> run_step digest db db'"
| cancel: "cancel ts owner scope rid db = Inr (run, db') \<Longrightarrow> run_step digest db db'"
| recover: "recover ts db = Inr db' \<Longrightarrow> run_step digest db db'"
| delete: "delete_conversation owner scope cid db = Inr db' \<Longrightarrow> run_step digest db db'"
| checkpoint: "run_step digest db (checkpoint dg token payload db)"
| prune: "run_step digest db (snd (prune_checkpoints wall_time db))"

inductive run_reach :: "(RunRequest \<Rightarrow> string) \<Rightarrow> run_db \<Rightarrow> bool" for digest where
  empty: "run_reach digest empty_runs"
| step: "run_reach digest db \<Longrightarrow> run_step digest db db' \<Longrightarrow> run_reach digest db'"

text \<open>A step keeps the invariant, and a run it neither deletes nor leaves alone has moved forward.\<close>

definition steps_to :: "(RunRequest \<Rightarrow> string) \<Rightarrow> run_db \<Rightarrow> run_db \<Rightarrow> bool" where
  "steps_to digest db db' \<longleftrightarrow> journal_ok digest db'
     \<and> (\<forall>i a b. read_run db i = Inr a \<longrightarrow> read_run db' i = Inr b \<longrightarrow> moved\<^sup>*\<^sup>* a b)"

lemma steps_to_same: "journal_ok digest db' \<Longrightarrow> read_run db' = read_run db \<Longrightarrow> steps_to digest db db'"
  by (auto simp: steps_to_def)

lemma one_write_steps:
  assumes "one_write digest db rid (Inr (run, db'))" "journal_ok digest db"
  shows "steps_to digest db db'"
  unfolding steps_to_def
proof (intro conjI allI impI)
  show "journal_ok digest db'" using assms by (auto simp: one_write_def)
  fix i a b assume ab: "read_run db i = Inr a" "read_run db' i = Inr b"
  show "moved\<^sup>*\<^sup>* a b"
  proof (cases "db' = db")
    case True
    with ab show ?thesis by simp
  next
    case False
    with assms(1) have w: "read_run db' rid = Inr run" "\<exists>a. read_run db rid = Inr a \<and> moved a run"
      "\<forall>i. i \<noteq> rid \<longrightarrow> read_run db' i = read_run db i" by (auto simp: one_write_def)
    show ?thesis
    proof (cases "i = rid")
      case True
      with w(1,2) ab show ?thesis by auto
    next
      case False
      with w(3) ab show ?thesis by simp
    qed
  qed
qed

lemma empty_ok: "journal_ok digest empty_runs"
  by (simp add: journal_ok_def tables_ok_def empty_runs_def shape_ok_def keys_def)

lemma checkpoint_irrelevant:
  "journal_ok digest (db\<lparr>rd_checkpoints := cs\<rparr>) = journal_ok digest db" "read_run (db\<lparr>rd_checkpoints := cs\<rparr>) = read_run db"
  by (simp_all add: journal_ok_def tables_ok_def history_ok_of_def settled_def evs_def read_run_def fun_eq_iff)

lemma drop_read: "read_run (drop_conversation cid db) i = Inr b \<Longrightarrow> journal_ok digest db \<Longrightarrow> read_run db i = Inr b"
proof -
  assume b: "read_run (drop_conversation cid db) i = Inr b" and j: "journal_ok digest db"
  from read_run_cases [OF b] obtain r where r: "r \<in> set (rd_runs db)" "rw_id r = i" "rw_payload r = b"
    by (auto simp: drop_conversation_def)
  from j have "tables_ok digest db" by (simp add: journal_ok_def)
  from read_run_row [OF this r(1)] r show ?thesis by simp
qed

lemma drop_steps: "journal_ok digest db \<Longrightarrow> steps_to digest db (drop_conversation cid db)"
  unfolding steps_to_def
proof (intro conjI allI impI)
  assume j: "journal_ok digest db"
  then show "journal_ok digest (drop_conversation cid db)" by (rule drop_conversation_ok)
  fix i a b assume "read_run db i = Inr a" "read_run (drop_conversation cid db) i = Inr b"
  with drop_read [OF _ j, of cid i b] show "moved\<^sup>*\<^sup>* a b" by simp
qed

lemma steps_to_trans_prune:
  assumes "journal_ok digest db"
  shows "journal_ok digest (snd (prune_each w rows db))
    \<and> (\<forall>i b. read_run (snd (prune_each w rows db)) i = Inr b \<longrightarrow> read_run db i = Inr b)"
  using assms
proof (induction w rows db rule: prune_each.induct)
  case (2 w key p rest db)
  let ?db = "(drop_conversation (kp_conversation_id p) db)\<lparr>rd_checkpoints := filter (\<lambda>r. fst r \<noteq> key) (rd_checkpoints db)\<rparr>"
  show ?case
  proof (cases "prunable w db p")
    case True
    have ok: "journal_ok digest ?db" using drop_conversation_ok [OF 2(3)] by (simp add: checkpoint_irrelevant)
    from 2(1) [OF True refl ok] have ih: "journal_ok digest (snd (prune_each w rest ?db))"
      "\<forall>i b. read_run (snd (prune_each w rest ?db)) i = Inr b \<longrightarrow> read_run ?db i = Inr b" by blast+
    have "\<forall>i b. read_run ?db i = Inr b \<longrightarrow> read_run db i = Inr b"
      using drop_read [OF _ 2(3)] by (simp add: checkpoint_irrelevant)
    moreover have "snd (prune_each w ((key, p) # rest) db) = snd (prune_each w rest ?db)"
      using True by (simp add: Let_def case_prod_beta)
    ultimately show ?thesis using ih by simp
  next
    case False
    with 2 show ?thesis by simp
  qed
qed simp

lemma prune_steps: "journal_ok digest db \<Longrightarrow> steps_to digest db (snd (prune_checkpoints w db))"
  using steps_to_trans_prune [of digest db w "rd_checkpoints db"] by (auto simp: steps_to_def prune_checkpoints_def)

subsection \<open>Recovery\<close>

text \<open>After recovery the named runs that were active are interrupted, and every other run is as before.\<close>

definition recovered :: "uuid set \<Rightarrow> run_db \<Rightarrow> run_db \<Rightarrow> bool" where
  "recovered ids db db' \<longleftrightarrow> (\<forall>i a. read_run db i = Inr a \<longrightarrow> (if i \<in> ids \<and> rs_status a \<in> ACTIVE
         then (\<exists>b. read_run db' i = Inr b \<and> moved a b \<and> rs_status b = INTERRUPTED \<and> rs_result b = None
                 \<and> rs_error_code b = Some ''WORKER_RESTARTED'')
         else read_run db' i = Inr a))"

lemma recover_each_ok:
  assumes "journal_ok digest db" "set ids \<subseteq> rw_id ` set (rd_runs db)"
  shows "\<exists>db'. recover_each ts ids db = Inr db' \<and> journal_ok digest db' \<and> keys db' = keys db
    \<and> rd_conversations db' = rd_conversations db \<and> recovered (set ids) db db'"
  using assms
proof (induction ids arbitrary: db)
  case (Cons rid ids)
  let ?m = "''Processing was interrupted. Review before submitting a new request.''"
  let ?out = "finish ts rid INTERRUPTED None (Some ''WORKER_RESTARTED'') ?m db"
  from Cons.prems obtain r where "r \<in> set (rd_runs db)" "rw_id r = rid" by auto
  with Cons.prems(1) obtain a where a: "read_run db rid = Inr a"
    using read_run_row [of digest db r] by (auto simp: journal_ok_def)
  have w: "one_write digest db rid ?out" by (rule finish_writes [OF Cons.prems(1)]) simp
  have "\<exists>b db1. ?out = Inr (b, db1) \<and> journal_ok digest db1 \<and> keys db1 = keys db \<and> rd_conversations db1 = rd_conversations db
    \<and> (\<forall>i. i \<noteq> rid \<longrightarrow> read_run db1 i = read_run db i) \<and> read_run db1 rid = Inr b
    \<and> (if rs_status a \<in> ACTIVE then moved a b \<and> rs_status b = INTERRUPTED \<and> rs_result b = None
         \<and> rs_error_code b = Some ''WORKER_RESTARTED'' else b = a)"
  proof (cases "rs_status a \<in> TERMINAL")
    case True
    with a Cons.prems(1) show ?thesis by (simp add: finish_def TERMINAL_def ACTIVE_def) auto
  next
    case False
    let ?run2 = "a\<lparr>rs_status := INTERRUPTED, rs_result := None, rs_error_code := Some ''WORKER_RESTARTED'', rs_message := ?m\<rparr>"
    have f: "?out = write_run ts ?run2 (terminal_event INTERRUPTED) db"
      using a False by (simp add: finish_def TERMINAL_def)
    have "(rs_status a, INTERRUPTED) \<in> transitions" using False
      by (cases "rs_status a") (simp_all add: transitions_def TERMINAL_def)
    then have "moved a (?run2\<lparr>rs_sequence := rs_sequence ?run2 + 1\<rparr>)" by (simp add: moved_def)
    have "\<exists>b db1. ?out = Inr (b, db1)"
    proof -
      obtain q where q: "q \<in> set (rd_runs db)" "rw_id q = rid" "rw_payload q = a" "rw_status q = rs_status a" "rs_run_id a = rid"
        "1 \<le> rs_sequence a" "rs_sequence a \<le> event_budget (rs_status a)" by (rule row_of_read [OF Cons.prems(1) a])
      have "rs_sequence a + 1 \<le> event_budget INTERRUPTED" using q(7) False by (auto simp: event_budget_def TERMINAL_def split: RunStatus.splits)
      with write_run_ok [OF _ q(1), of digest ?run2 ts "terminal_event INTERRUPTED"] Cons.prems(1) q show ?thesis
        unfolding f by (auto simp: journal_ok_def ACTIVE_def)
    qed
    then obtain b db1 where o: "?out = Inr (b, db1)" by blast
    have b: "b = ?run2\<lparr>rs_sequence := rs_sequence a + 1, rs_updated_at := fst ts\<rparr>"
      using o unfolding f by (auto simp: write_run_def Let_def split: if_splits)
    then have "rs_sequence b = rs_sequence a + 1" by simp
    then have "b \<noteq> a" by auto
    with w o a have "db1 \<noteq> db" by (auto simp: one_write_def)
    with w o have "journal_ok digest db1" "keys db1 = keys db" "rd_conversations db1 = rd_conversations db"
      "\<forall>i. i \<noteq> rid \<longrightarrow> read_run db1 i = read_run db i" "read_run db1 rid = Inr b" "moved a b"
      using a by (auto simp: one_write_def)
    then show ?thesis using o b False by (auto simp: terminal_or_active)
  qed
  then obtain b db1 where o: "?out = Inr (b, db1)" and ok: "journal_ok digest db1" and k: "keys db1 = keys db"
    "rd_conversations db1 = rd_conversations db" and same: "\<forall>i. i \<noteq> rid \<longrightarrow> read_run db1 i = read_run db i"
    and b: "read_run db1 rid = Inr b" "if rs_status a \<in> ACTIVE then moved a b \<and> rs_status b = INTERRUPTED
      \<and> rs_result b = None \<and> rs_error_code b = Some ''WORKER_RESTARTED'' else b = a" by blast
  have "map fst (keys db1) = map fst (keys db)" using k by simp
  then have "rw_id ` set (rd_runs db1) = rw_id ` set (rd_runs db)"
    by (simp add: keys_def comp_def) (metis list.set_map)
  with Cons.prems(2) have "set ids \<subseteq> rw_id ` set (rd_runs db1)" by auto
  from Cons.IH [OF ok this] obtain db' where ih: "recover_each ts ids db1 = Inr db'" "journal_ok digest db'" "keys db' = keys db1"
    "rd_conversations db' = rd_conversations db1"
    "recovered (set ids) db1 db'" by blast
  have "recovered (set (rid # ids)) db db'"
    unfolding recovered_def
  proof (intro allI impI)
    fix i x assume x: "read_run db i = Inr x"
    show "if i \<in> set (rid # ids) \<and> rs_status x \<in> ACTIVE
         then (\<exists>b. read_run db' i = Inr b \<and> moved x b \<and> rs_status b = INTERRUPTED \<and> rs_result b = None
                 \<and> rs_error_code b = Some ''WORKER_RESTARTED'')
         else read_run db' i = Inr x"
    proof (cases "i = rid")
      case True
      with x a have xa: "x = a" by simp
      have "INTERRUPTED \<notin> ACTIVE" by (simp add: ACTIVE_def)
      with True xa b ih(5) show ?thesis unfolding recovered_def by (auto split: if_splits)
    next
      case False
      with same x have "read_run db1 i = Inr x" by simp
      with ih(5) False show ?thesis unfolding recovered_def by auto
    qed
  qed
  with o ih k show ?case by auto
qed (simp add: recovered_def)

lemma active_ids_runs: "set (active_ids db) \<subseteq> rw_id ` set (rd_runs db)"
  by (auto simp: active_ids_def)

lemma active_id_iff:
  assumes "journal_ok digest db" "read_run db i = Inr a"
  shows "i \<in> set (active_ids db) \<longleftrightarrow> rs_status a \<in> ACTIVE"
proof -
  obtain r where r: "r \<in> set (rd_runs db)" "rw_id r = i" "rw_payload r = a" "rw_status r = rs_status a"
    by (rule row_of_read [OF assms])
  from assms(1) have t: "tables_ok digest db" by (simp add: journal_ok_def)
  have u: "rw_id q = i \<longrightarrow> q = r" if "q \<in> set (rd_runs db)" for q
    using that r run_ids_distinct [OF t] by (auto simp: distinct_map inj_on_def)
  have "i \<in> set (active_ids db) \<longleftrightarrow> (\<exists>q\<in>set (rd_runs db). rw_status q \<in> ACTIVE \<and> rw_id q = i)"
    by (auto simp: active_ids_def)
  also have "\<dots> \<longleftrightarrow> rw_status r \<in> ACTIVE" using u r(1,2) by blast
  finally show ?thesis using r(4) by simp
qed

lemma recover_ok:
  assumes "journal_ok digest db"
  shows "\<exists>db'. recover ts db = Inr db' \<and> journal_ok digest db' \<and> keys db' = keys db
    \<and> rd_conversations db' = rd_conversations db \<and> recovered UNIV db db'"
proof -
  from recover_each_ok [OF assms active_ids_runs, of ts] obtain db' where
    r: "recover_each ts (active_ids db) db = Inr db'" "journal_ok digest db'" "keys db' = keys db"
      "rd_conversations db' = rd_conversations db" and x: "recovered (set (active_ids db)) db db'" by blast
  have "recovered UNIV db db'"
    unfolding recovered_def
  proof (intro allI impI)
    fix i a assume a: "read_run db i = Inr a"
    from x [unfolded recovered_def, rule_format, OF a] active_id_iff [OF assms a]
    show "if i \<in> UNIV \<and> rs_status a \<in> ACTIVE
         then (\<exists>b. read_run db' i = Inr b \<and> moved a b \<and> rs_status b = INTERRUPTED \<and> rs_result b = None
                 \<and> rs_error_code b = Some ''WORKER_RESTARTED'')
         else read_run db' i = Inr a" by simp
  qed
  with r show ?thesis unfolding recover_def by blast
qed

lemma recovered_moves:
  assumes "recovered ids db db'" "read_run db i = Inr a" "read_run db' i = Inr b"
  shows "moved\<^sup>*\<^sup>* a b"
proof -
  from assms(1) [unfolded recovered_def, rule_format, OF assms(2)] assms(3) show ?thesis
    by (auto split: if_splits)
qed

lemma run_step_steps:
  assumes "run_step digest db db'" "journal_ok digest db"
  shows "steps_to digest db db'"
  using assms
proof (induction rule: run_step.induct)
  case (create owner scope cid now db c db')
  from create_conversation_ok(1,2) [OF create(2,1)] show ?case by (intro steps_to_same) simp_all
next
  case (enqueue rid ts ts' owner scope request binding db run db')
  note e = enqueue_ok [OF enqueue(2,1)]
  have "moved\<^sup>*\<^sup>* a b" if "read_run db i = Inr a" "read_run db' i = Inr b" for i a b
    using that e(3) e(4) [of a] by (cases "i = rid") auto
  with e(1) show ?case by (auto simp: steps_to_def)
next
  case (start ts rid db b db')
  from start_writes [OF start(2), of rid ts] start(1) show ?case
    by (auto intro: one_write_steps [OF _ start(2)])
next
  case (progress ts rid report db db')
  from progress_writes [OF progress(2), of rid ts report] progress(1) show ?case
    by (auto intro: one_write_steps [OF _ progress(2)])
next
  case (finish ts rid status result code message db run db')
  from finish_writes [OF finish(3), of result status rid ts code message] finish(1,2) show ?case
    by (auto intro: one_write_steps [OF _ finish(3)])
next
  case (cancel ts owner scope rid db run db')
  from cancel_writes [OF cancel(2), of rid ts owner scope] cancel(1) show ?case
    by (auto intro: one_write_steps [OF _ cancel(2)])
next
  case (recover ts db db')
  from recover_ok [OF recover(2), of ts] recover(1) have "journal_ok digest db'" "recovered UNIV db db'" by auto
  with recovered_moves show ?case unfolding steps_to_def by blast
next
  case (delete owner scope cid db db')
  then show ?case by (auto simp: delete_conversation_def intro: drop_steps split: sum.splits if_splits)
next
  case (checkpoint db dg token payload)
  then show ?case by (intro steps_to_same) (simp_all add: checkpoint_def Let_def checkpoint_irrelevant)
next
  case (prune db wall_time)
  then show ?case by (rule prune_steps)
qed

lemma one_write_owners: "one_write digest db rid (Inr (run, db')) \<Longrightarrow> owners db' = owners db"
  by (auto simp: one_write_def owners_def)

lemma capacity_checkpoints [simp]: "capacity_ok n (db\<lparr>rd_checkpoints := cs\<rparr>) = capacity_ok n db"
  by (simp add: capacity_ok_def owners_def)

lemma prune_capacity: "capacity_ok n db \<Longrightarrow> capacity_ok n (snd (prune_each w rows db))"
proof (induction w rows db rule: prune_each.induct)
  case (2 w key p rest db)
  then show ?case by (auto simp: Let_def case_prod_beta intro: drop_capacity)
qed simp

lemma run_step_capacity:
  assumes "run_step digest db db'" "journal_ok digest db" "capacity_ok 512 db"
  shows "capacity_ok 512 db'"
proof -
  have same: "owners db' = owners db \<Longrightarrow> capacity_ok 512 db'" using assms(3) by (simp add: capacity_ok_def)
  from assms(1) show ?thesis
  proof cases
    case (create owner scope cid now c)
    then show ?thesis using create_conversation_capacity assms(3) by blast
  next
    case (enqueue rid ts ts' owner scope request binding run)
    then show ?thesis using same enqueue_ok(10) [OF assms(2)] by blast
  next
    case (start ts rid b)
    with start_writes [OF assms(2), of rid ts] show ?thesis using same one_write_owners by auto
  next
    case (progress ts rid report)
    with progress_writes [OF assms(2), of rid ts report] show ?thesis using same one_write_owners by auto
  next
    case (finish ts rid status result code message run)
    with finish_writes [OF assms(2), of result status rid ts code message] show ?thesis using same one_write_owners by auto
  next
    case (cancel ts owner scope rid run)
    with cancel_writes [OF assms(2), of rid ts owner scope] show ?thesis using same one_write_owners by auto
  next
    case (recover ts)
    with recover_ok [OF assms(2), of ts] show ?thesis using same by (auto simp: owners_def)
  next
    case (delete owner scope cid)
    then show ?thesis using assms(3) by (auto simp: delete_conversation_def intro: drop_capacity split: sum.splits if_splits)
  next
    case (checkpoint dg token payload)
    then show ?thesis using assms(3) by (simp add: checkpoint_def Let_def)
  next
    case (prune wall_time)
    then show ?thesis using assms(3) by (simp add: prune_checkpoints_def prune_capacity)
  qed
qed

lemma run_reach_ok: "run_reach digest db \<Longrightarrow> journal_ok digest db"
  by (induction rule: run_reach.induct) (auto simp: empty_ok dest: run_step_steps simp: steps_to_def)

lemma run_reach_capacity: "run_reach digest db \<Longrightarrow> capacity_ok 512 db"
  by (induction rule: run_reach.induct)
     (auto simp: capacity_ok_def owners_def empty_runs_def dest: run_step_capacity [OF _ run_reach_ok])

subsection \<open>The maintenance check\<close>

text \<open>\<open>validate\<close> of \<open>operations/database.py\<close> for the tables of the state database: the foreign keys, each
  conversation against its runs, each run against its columns and its events.\<close>

definition foreign_keys_ok :: "run_db \<Rightarrow> bool" where
  "foreign_keys_ok db \<longleftrightarrow> (\<forall>r\<in>set (rd_runs db). rw_conversation r \<in> cw_id ` set (rd_conversations db))
     \<and> (\<forall>e\<in>set (rd_events db). ew_run_id e \<in> rw_id ` set (rd_runs db))"

definition conversation_matches :: "run_db \<Rightarrow> conversation_row \<Rightarrow> bool" where
  "conversation_matches db c \<longleftrightarrow>
     (let identifiers = map rw_id (runs_of db (cw_id c)); conversation = cw_payload c in
      cn_conversation_id conversation = cw_id c \<and> cn_revision conversation = int (length identifiers)
      \<and> (if identifiers \<noteq> [] then cn_latest_run_id conversation = Some (last identifiers)
         else cn_latest_run_id conversation = None))"

definition run_matches :: "run_db \<Rightarrow> run_row \<Rightarrow> bool" where
  "run_matches db r \<longleftrightarrow>
     (let run = rw_payload r; records = events_of db (rw_id r); es = map ew_payload records in
      rs_run_id run = rw_id r \<and> rs_status run = rw_status r \<and> rq_conversation_id (rs_request run) = rw_conversation r
      \<and> map ev_sequence es = map int [1..<nat (rs_sequence run + 1)]
      \<and> list_all2 (\<lambda>e row. ev_run_id e = rs_run_id run \<and> ev_sequence e = ew_sequence row) es records
      \<and> es \<noteq> [] \<and> ev_status (last es) = rs_status run)"

definition validate_state :: "run_db \<Rightarrow> string + unit" where
  "validate_state db =
     (if foreign_keys_ok db \<and> list_all (conversation_matches db) (rd_conversations db) \<and> list_all (run_matches db) (rd_runs db)
      then Inr () else Inl ''Database schema or persisted record integrity failed.'')"

lemma sorted_ints: "sorted (map int [m..<n])"
  by (simp add: sorted_map sorted_upt [THEN sorted_wrt_mono_rel [rotated]])

lemma events_of_ok:
  assumes "history_ok_of digest db r"
  shows "events_of db (rw_id r) = evs db (rw_id r)"
proof -
  have "sorted (map ew_sequence (evs db (rw_id r)))"
    using assms sorted_ints by (simp add: history_ok_of_def Let_def del: upt_Suc)
  then show ?thesis unfolding events_of_def evs_def by (rule sort_key_id_if_sorted)
qed

lemma run_matches_ok:
  assumes "history_ok_of digest db r" "settled db r"
  shows "run_matches db r"
proof -
  let ?run = "rw_payload r" and ?es = "evs db (rw_id r)"
  from assms have p: "1 \<le> rs_sequence ?run" and q: "map ew_sequence ?es = map int [1..<Suc (nat (rs_sequence ?run))]"
    and pay: "\<forall>e\<in>set ?es. ev_run_id (ew_payload e) = ew_run_id e \<and> ev_sequence (ew_payload e) = ew_sequence e"
    by (simp_all add: history_ok_of_def settled_def Let_def)
  from p have n: "nat (rs_sequence ?run + 1) = Suc (nat (rs_sequence ?run))" by simp
  from last_event [OF q] p have ne: "?es \<noteq> []" by (cases ?es) auto
  have "map (ev_sequence \<circ> ew_payload) ?es = map ew_sequence ?es" using pay by simp
  moreover have "list_all2 (\<lambda>e row. ev_run_id e = rw_id r \<and> ev_sequence e = ew_sequence row) (map ew_payload ?es) ?es"
    using pay by (auto simp: list_all2_conv_all_nth evs_def dest: nth_mem)
  ultimately show ?thesis using assms ne
    unfolding run_matches_def Let_def events_of_ok [OF assms(1)] n map_map
    by (simp add: history_ok_of_def settled_def q last_map Let_def del: upt_Suc)
qed

lemma validate_ok:
  assumes "journal_ok digest db"
  shows "validate_state db = Inr ()"
proof -
  have t: "tables_ok digest db" using assms by (simp add: journal_ok_def)
  have ids: "map rw_id (runs_of db c) = ids_in (keys db) c" for c
    by (simp add: runs_of_def ids_in_def keys_def filter_map comp_def)
  have "\<forall>k\<in>set (keys db). fst (snd k) \<in> cw_id ` set (rd_conversations db)"
    "ew_run_id ` set (rd_events db) \<subseteq> rw_id ` set (rd_runs db)" using t by (simp_all add: tables_ok_def shape_ok_def)
  then have "foreign_keys_ok db" unfolding foreign_keys_ok_def keys_def by auto
  moreover have "list_all (conversation_matches db) (rd_conversations db)"
  proof -
    have "\<forall>c\<in>set (rd_conversations db). conversation_ok (keys db) c" using t by (simp add: tables_ok_def shape_ok_def)
    moreover have "conversation_ok (keys db) c \<Longrightarrow> conversation_matches db c" for c
      by (simp add: conversation_ok_def conversation_matches_def ids Let_def)
    ultimately show ?thesis unfolding list_all_iff by blast
  qed
  moreover have "list_all (run_matches db) (rd_runs db)"
    unfolding list_all_iff
  proof
    fix r assume "r \<in> set (rd_runs db)"
    with assms have "history_ok_of digest db r" "settled db r" by (simp_all add: journal_ok_def tables_ok_def)
    then show "run_matches db r" by (rule run_matches_ok)
  qed
  ultimately show ?thesis by (simp add: validate_state_def)
qed

subsection \<open>Properties\<close>

text \<open>C30: Whatever the operations and their failures, the journal is well-formed: conversations and runs have
  their own identifiers and limits, a conversation's revision counts its runs and its latest run is the
  last one, at most one run of a conversation is active, and the events of a run are numbered from one
  without a gap up to its sequence number, the last one showing its status, within the event budget.\<close>

theorem journal_is_well_formed: "run_reach digest db \<Longrightarrow> journal_ok digest db \<and> capacity_ok 512 db"
  using run_reach_ok run_reach_capacity by blast

lemma moved_terminal: "moved a b \<Longrightarrow> rs_status a \<notin> TERMINAL"
  by (auto simp: moved_def transitions_def TERMINAL_def)

lemma moves_summary:
  assumes "moved\<^sup>*\<^sup>* a b"
  shows "rs_request b = rs_request a \<and> rs_sequence a \<le> rs_sequence b \<and> (rs_status a \<in> TERMINAL \<longrightarrow> b = a)
    \<and> (rs_status a = CANCELLATION_REQUESTED \<longrightarrow> b = a \<or> rs_status b \<in> {CANCELLED, INTERRUPTED} \<and> rs_result b = None)"
  using assms
proof (induction rule: rtranclp_induct)
  case (step b c)
  have m: "rs_request c = rs_request b" "rs_sequence c = rs_sequence b + 1" "rs_status b \<notin> TERMINAL"
    using step(2) moved_terminal by (auto simp: moved_def)
  have "rs_status a = CANCELLATION_REQUESTED \<longrightarrow> rs_status c \<in> {CANCELLED, INTERRUPTED} \<and> rs_result c = None"
  proof
    assume a: "rs_status a = CANCELLATION_REQUESTED"
    with step(3) m(3) have "b = a" by (auto simp: TERMINAL_def)
    with a step(2) show "rs_status c \<in> {CANCELLED, INTERRUPTED} \<and> rs_result c = None"
      by (auto simp: moved_def transitions_def)
  qed
  with step(3) m show ?case by auto
qed simp

definition present_step :: "(RunRequest \<Rightarrow> string) \<Rightarrow> uuid \<Rightarrow> run_db \<Rightarrow> run_db \<Rightarrow> bool" where
  "present_step digest rid db db' \<longleftrightarrow> run_step digest db db' \<and> is_ok (read_run db' rid)"

lemma present_steps:
  assumes "(present_step digest rid)\<^sup>*\<^sup>* db db'" "journal_ok digest db" "read_run db rid = Inr a"
  shows "journal_ok digest db' \<and> (\<exists>b. read_run db' rid = Inr b \<and> moved\<^sup>*\<^sup>* a b)"
  using assms(1)
proof (induction rule: rtranclp_induct)
  case base
  show ?case using assms by blast
next
  case (step db1 db2)
  then obtain b where b: "journal_ok digest db1" "read_run db1 rid = Inr b" "moved\<^sup>*\<^sup>* a b" by blast
  from step(2) obtain c where c: "run_step digest db1 db2" "read_run db2 rid = Inr c" by (auto simp: present_step_def is_ok_iff)
  from run_step_steps [OF c(1) b(1)] b c(2) show ?case
    unfolding steps_to_def using rtranclp_trans [of moved a b c] by blast
qed

text \<open>C32: As long as a run is not deleted it keeps its request and only moves forward: a finished run never
  changes again, and once its cancellation was requested it can only end cancelled or interrupted,
  without a result.\<close>

theorem runs_move_forward:
  assumes "run_reach digest db" "(present_step digest rid)\<^sup>*\<^sup>* db db'" "read_run db rid = Inr a" "read_run db' rid = Inr b"
  shows "rs_request b = rs_request a \<and> rs_sequence a \<le> rs_sequence b \<and> (rs_status a \<in> TERMINAL \<longrightarrow> b = a)
    \<and> (rs_status a = CANCELLATION_REQUESTED \<longrightarrow> b = a \<or> rs_status b \<in> {CANCELLED, INTERRUPTED} \<and> rs_result b = None)"
  using present_steps [OF assms(2) run_reach_ok [OF assms(1)] assms(3)] assms(4) moves_summary by auto

text \<open>Recovery after a restart always succeeds: every run that was queued, running or being cancelled is
  interrupted without a result, every other run and every conversation is as before, and nothing is left
  active.\<close>

theorem recovery_interrupts_active_runs:
  assumes "run_reach digest db"
  shows "\<exists>db'. recover ts db = Inr db' \<and> recovered UNIV db db' \<and> rd_conversations db' = rd_conversations db \<and> active_ids db' = []"
proof -
  from recover_ok [OF run_reach_ok [OF assms], of ts] obtain db' where
    r: "recover ts db = Inr db'" and j: "journal_ok digest db'" and k: "keys db' = keys db"
    and c: "rd_conversations db' = rd_conversations db" and x: "recovered UNIV db db'" by blast
  have "rw_status q \<notin> ACTIVE" if q: "q \<in> set (rd_runs db')" for q
  proof -
    have "map fst (keys db') = map fst (keys db)" using k by simp
    then have "rw_id ` set (rd_runs db') = rw_id ` set (rd_runs db)"
      by (simp add: keys_def comp_def) (metis list.set_map)
    with q obtain p where p: "p \<in> set (rd_runs db)" "rw_id p = rw_id q" by force
    from run_reach_ok [OF assms] have "tables_ok digest db" by (simp add: journal_ok_def)
    from read_run_row [OF this p(1)] p(2) have a: "read_run db (rw_id q) = Inr (rw_payload p)" by simp
    from j have "tables_ok digest db'" by (simp add: journal_ok_def)
    from read_run_row [OF this q] have b: "read_run db' (rw_id q) = Inr (rw_payload q)" .
    from j q have "rw_status q = rs_status (rw_payload q)" by (simp add: journal_ok_def settled_def Let_def)
    with x [unfolded recovered_def, rule_format, OF a] b show ?thesis by (auto simp: ACTIVE_def split: if_splits)
  qed
  then have "active_ids db' = []" by (simp add: active_ids_def filter_empty_conv)
  with r c x show ?thesis by blast
qed

text \<open>The maintenance check accepts every journal the store can have written.\<close>

theorem maintenance_accepts_journals: "run_reach digest db \<Longrightarrow> validate_state db = Inr ()"
  using validate_ok run_reach_ok by blast

lemma row_of_owned:
  assumes "journal_ok digest db" "read_owned db owner scope rid = Inr run"
  obtains r c where "r \<in> set (rd_runs db)" "rw_id r = rid" "rw_payload r = run"
    "conversation db owner scope (rq_conversation_id (rs_request run)) = Inr c" "rw_request_id r = rq_client_request_id (rs_request run)"
    "rw_conversation r = rq_conversation_id (rs_request run)" "rw_request_hash r = digest (rs_request run)"
proof -
  from assms(2) have read: "read_run db rid = Inr run" by (rule read_owned_Inr)
  from assms(2) read obtain c where c: "conversation db owner scope (rq_conversation_id (rs_request run)) = Inr c"
    by (auto simp: read_owned_def split: sum.splits)
  obtain r where r: "r \<in> set (rd_runs db)" "rw_id r = rid" "rw_payload r = run" by (rule row_of_read [OF assms(1) read])
  from assms(1) r(1) have "history_ok_of digest db r" by (simp add: journal_ok_def tables_ok_def)
  then have "rw_request_id r = rq_client_request_id (rs_request run)"
    "rw_conversation r = rq_conversation_id (rs_request run)" "rw_request_hash r = digest (rs_request run)"
    by (simp_all add: history_ok_of_def Let_def r(3))
  with r c show thesis by (intro that)
qed

text \<open>A request can be sent again: its owner is given the run it was accepted as, in whatever state that is
  now, and the same request identifier with other contents is refused.\<close>

theorem requests_are_idempotent:
  assumes "run_reach digest db" "read_owned db owner scope rid = Inr run"
    and "rq_conversation_id other = rq_conversation_id (rs_request run)"
      "rq_client_request_id other = rq_client_request_id (rs_request run)"
  shows "existing digest db owner scope other = (if digest other = digest (rs_request run) then Inr (Some run)
    else Inl (RunError ''This request ID already belongs to a different question or revision.'' 409))"
proof -
  from assms(1) have j: "journal_ok digest db" by (rule run_reach_ok)
  obtain r c where r: "r \<in> set (rd_runs db)" "rw_id r = rid" "rw_payload r = run"
    "conversation db owner scope (rq_conversation_id (rs_request run)) = Inr c" "rw_request_id r = rq_client_request_id (rs_request run)"
    "rw_conversation r = rq_conversation_id (rs_request run)" "rw_request_hash r = digest (rs_request run)"
    by (rule row_of_owned [OF j assms(2)])
  let ?rows = "runs_of db (rq_conversation_id (rs_request run))"
  from j have "distinct (map snd (keys db))" by (simp add: journal_ok_def tables_ok_def shape_ok_def)
  then have "distinct (map (\<lambda>r. (rw_conversation r, rw_request_id r)) (rd_runs db))" by (simp add: keys_def comp_def)
  then have "distinct (map (\<lambda>r. (rw_conversation r, rw_request_id r)) ?rows)"
    unfolding runs_of_def by (rule distinct_map_filter)
  moreover have "map (\<lambda>r. (rw_conversation r, rw_request_id r)) ?rows
      = map (\<lambda>q. (rq_conversation_id (rs_request run), q)) (map rw_request_id ?rows)" by (simp add: runs_of_def)
  ultimately have "distinct (map rw_request_id ?rows)" by (simp only: distinct_map)
  moreover have "r \<in> set ?rows" using r by (simp add: runs_of_def)
  ultimately have "List.find (\<lambda>q. rw_request_id q = rw_request_id r) ?rows = Some r" by (rule find_key)
  then show ?thesis using r assms(3,4) by (auto simp: existing_def)
qed

lemma filter_upt: "a \<le> n \<Longrightarrow> filter (\<lambda>k. a < k) [1..<Suc n] = [Suc a..<Suc n]"
proof (induction n)
  case (Suc n)
  show ?case
  proof (cases "a = Suc n")
    case True
    then show ?thesis by (auto simp: filter_empty_conv)
  next
    case False
    with Suc show ?thesis by simp
  qed
qed simp

lemma replay_numbers:
  assumes j: "journal_ok digest db" and ev: "events db owner scope rid after = Inr es"
  shows "\<exists>run. read_run db rid = Inr run \<and> map ev_sequence es = map int [Suc (nat after)..<Suc (nat (rs_sequence run))]
    \<and> (\<forall>e\<in>set es. ev_run_id e = rid) \<and> (after < rs_sequence run \<longrightarrow> ev_status (last es) = rs_status run)"
proof -
  from ev obtain run where own: "read_owned db owner scope rid = Inr run" and
    a: "0 \<le> after" "after \<le> rs_sequence run" and
    es: "es = map ew_payload (filter (\<lambda>e. after < ew_sequence e) (events_of db rid))"
    by (auto simp: events_def split: sum.splits if_splits)
  from own have read: "read_run db rid = Inr run" by (rule read_owned_Inr)
  obtain r where r: "r \<in> set (rd_runs db)" "rw_id r = rid" "rw_payload r = run" "rw_status r = rs_status run" "rs_run_id run = rid"
    "1 \<le> rs_sequence run" by (rule row_of_read [OF j read])
  from j r(1) have h: "history_ok_of digest db r" and s: "settled db r" by (simp_all add: journal_ok_def tables_ok_def)
  let ?n = "nat (rs_sequence run)" and ?a = "nat after" and ?E = "evs db rid"
  from h r have q: "map ew_sequence ?E = map int [1..<Suc ?n]" and
    pay: "\<forall>e\<in>set ?E. ev_run_id (ew_payload e) = ew_run_id e \<and> ev_sequence (ew_payload e) = ew_sequence e"
    by (auto simp: history_ok_of_def Let_def simp del: upt_Suc)
  have es: "es = map ew_payload (filter (\<lambda>e. after < ew_sequence e) ?E)" using es events_of_ok [OF h] r(2) by simp
  then have "map ev_sequence es = map ew_sequence (filter (\<lambda>e. after < ew_sequence e) ?E)" using pay by simp
  also have "\<dots> = filter (\<lambda>x. after < x) (map ew_sequence ?E)" by (simp add: filter_map comp_def)
  also have "\<dots> = map int (filter (\<lambda>k. ?a < k) [1..<Suc ?n])"
    unfolding q filter_map comp_def using a by (intro arg_cong [of _ _ "map int"] filter_cong) auto
  also have "\<dots> = map int [Suc ?a..<Suc ?n]" using a by (subst filter_upt) auto
  finally have seq: "map ev_sequence es = map int [Suc ?a..<Suc ?n]" .
  have ids: "\<forall>e\<in>set es. ev_run_id e = rid" using pay es by (auto simp: evs_def)
  have "ev_status (last es) = rs_status run" if lt: "after < rs_sequence run"
  proof -
    have ne: "?E \<noteq> []" and last: "ew_sequence (last ?E) = int ?n" using last_event [OF q] r(6) by auto
    then have "last (filter (\<lambda>e. after < ew_sequence e) ?E) = last ?E"
      using lt a by (cases ?E rule: rev_cases) auto
    moreover have "filter (\<lambda>e. after < ew_sequence e) ?E \<noteq> []"
      using ne last lt a by (cases ?E rule: rev_cases) auto
    ultimately have "last es = ew_payload (last ?E)" by (simp add: es last_map)
    then show ?thesis using s r by (simp add: settled_def Let_def)
  qed
  with read seq ids show ?thesis by blast
qed

text \<open>C36: Replaying a run's events after a cursor gives exactly the events the client has not seen: numbered
  from the cursor up to the run's sequence number without a gap, all of that run, and the last one shows
  the status the run has.\<close>

theorem replay_is_gapless:
  assumes "run_reach digest db" "events db owner scope rid after = Inr es"
  shows "\<exists>run. read_run db rid = Inr run \<and> map ev_sequence es = map int [Suc (nat after)..<Suc (nat (rs_sequence run))]
    \<and> (\<forall>e\<in>set es. ev_run_id e = rid) \<and> (after < rs_sequence run \<longrightarrow> ev_status (last es) = rs_status run)"
  by (rule replay_numbers [OF run_reach_ok [OF assms(1)] assms(2)])

subsection \<open>A conversation with one cancelled question\<close>

definition demo_run_request :: RunRequest where
  "demo_run_request = \<lparr>rq_client_request_id = ''q'', rq_conversation_id = ''c'', rq_expected_revision = 0,
     rq_question = ''show activations'', rq_as_of = 0, rq_source_fingerprint = None, rq_definition_snapshot_id = ''d''\<rparr>"

definition journal0 :: run_db where
  "journal0 = snd (projr (create_conversation ''o'' ''s'' ''c'' 0 empty_runs))"

definition journal1 :: run_db where
  "journal1 = snd (projr (enqueue rq_question ''r'' (1, 1) (2, 2) ''o'' ''s'' demo_run_request ''b'' journal0))"

definition journal2 :: run_db where
  "journal2 = snd (projr (start (3, 3) ''r'' journal1))"

definition journal3 :: run_db where
  "journal3 = snd (projr (cancel (4, 4) ''o'' ''s'' ''r'' journal2))"

definition journal4 :: run_db where
  "journal4 = snd (projr (finish (5, 5) ''r'' COMPLETED None None ''done'' journal3))"

lemma ok_result: "is_ok x \<Longrightarrow> x = Inr (fst (projr x), snd (projr x))"
  by (cases x) auto

lemma journal_results:
  "is_ok (create_conversation ''o'' ''s'' ''c'' 0 empty_runs)"
  "is_ok (enqueue rq_question ''r'' (1, 1) (2, 2) ''o'' ''s'' demo_run_request ''b'' journal0)"
  "is_ok (start (3, 3) ''r'' journal1)"
  "is_ok (cancel (4, 4) ''o'' ''s'' ''r'' journal2)"
  "is_ok (finish (5, 5) ''r'' COMPLETED None None ''done'' journal3)"
  "case read_run journal3 ''r'' of Inl e \<Rightarrow> False | Inr a \<Rightarrow> rs_status a = CANCELLATION_REQUESTED"
  "case read_run journal4 ''r'' of Inl e \<Rightarrow> False | Inr a \<Rightarrow> rs_status a = CANCELLED \<and> rs_request a = demo_run_request"
  "is_ok (events journal4 ''o'' ''s'' ''r'' 1)" "is_ok (read_owned journal4 ''o'' ''s'' ''r'')"
  by code_simp+

lemma journal_steps:
  "run_step rq_question empty_runs journal0" "run_step rq_question journal0 journal1" "run_step rq_question journal1 journal2"
  "run_step rq_question journal2 journal3" "run_step rq_question journal3 journal4"
proof -
  show "run_step rq_question empty_runs journal0"
    using ok_result [OF journal_results(1)] unfolding journal0_def by (rule run_step.create)
  show "run_step rq_question journal0 journal1"
    using ok_result [OF journal_results(2)] unfolding journal1_def by (rule run_step.enqueue)
  show "run_step rq_question journal1 journal2"
    using ok_result [OF journal_results(3)] unfolding journal2_def by (rule run_step.start)
  show "run_step rq_question journal2 journal3"
    using ok_result [OF journal_results(4)] unfolding journal3_def by (rule run_step.cancel)
  show "run_step rq_question journal3 journal4"
    using ok_result [OF journal_results(5)] unfolding journal4_def by (rule run_step.finish) simp
qed

lemma journal_reach: "run_reach rq_question journal3" "run_reach rq_question journal4"
  using run_reach.intros journal_steps by metis+

theorem journal_is_well_formed_witness: "journal_ok rq_question journal4 \<and> capacity_ok 512 journal4"
  by (rule journal_is_well_formed [OF journal_reach(2)])

theorem runs_move_forward_witness:
  "\<exists>b. read_run journal4 ''r'' = Inr b \<and> rs_status b \<in> {CANCELLED, INTERRUPTED} \<and> rs_result b = None"
proof -
  from journal_results(6,7) obtain a b where a: "read_run journal3 ''r'' = Inr a" "rs_status a = CANCELLATION_REQUESTED"
    and b: "read_run journal4 ''r'' = Inr b" "rs_status b = CANCELLED" by (auto split: sum.splits)
  have "(present_step rq_question ''r'')\<^sup>*\<^sup>* journal3 journal4"
    using journal_steps(5) b(1) by (intro r_into_rtranclp) (simp add: present_step_def)
  from runs_move_forward [OF journal_reach(1) this a(1) b(1)] a(2) b show ?thesis by auto
qed

theorem recovery_interrupts_active_runs_witness: "\<exists>db'. recover (9, 9) journal3 = Inr db' \<and> active_ids db' = []"
  using recovery_interrupts_active_runs [OF journal_reach(1), of "(9, 9)"] by blast

theorem maintenance_accepts_journals_witness: "validate_state journal4 = Inr ()"
  by (rule maintenance_accepts_journals [OF journal_reach(2)])

theorem requests_are_idempotent_witness: "is_ok (existing rq_question journal4 ''o'' ''s'' demo_run_request)"
proof -
  from journal_results(9) obtain run where run: "read_owned journal4 ''o'' ''s'' ''r'' = Inr run" by (auto simp: is_ok_iff)
  from read_owned_Inr [OF run] journal_results(7) have "rs_request run = demo_run_request" by simp
  with requests_are_idempotent [OF journal_reach(2) run, of demo_run_request] show ?thesis by simp
qed

theorem replay_is_gapless_witness:
  "\<exists>es. events journal4 ''o'' ''s'' ''r'' 1 = Inr es \<and> list_all (\<lambda>e. ev_run_id e = ''r'') es"
proof -
  from journal_results(8) obtain es where es: "events journal4 ''o'' ''s'' ''r'' 1 = Inr es" by (auto simp: is_ok_iff)
  from replay_is_gapless [OF journal_reach(2) es] es show ?thesis by (auto simp: list_all_iff)
qed

end
