(* ===== verification/RunCoordinator.thy ===== *)
theory RunCoordinator
  imports RunHistory
begin

section \<open>RunCoordinator: accepted questions and their workers\<close>

text \<open>
  \<open>services/run_coordinator.py\<close>: a run accepted by \<open>submit\<close> outlives its HTTP connection in a task.  A task
  is the identifier of its run; its coroutine runs in pieces between which other operations happen:
  \<open>execute_begin\<close> up to the first authorization, one \<open>progress\<close> a report, and \<open>execute_end\<close> with the way the
  work ended.  Callbacks given by the caller (\<open>accepted\<close>, \<open>released\<close>, \<open>authorize\<close>) touch none of the state.
\<close>

record coordinator =
  ck_db :: run_db
  ck_tasks :: "uuid list"
  ck_signalled :: "uuid list"
  ck_closing :: bool

datatype task_outcome = TaskCompleted DemoChatResponse | TaskFailed AgentFailure | TaskRaised | TaskCancelled

definition submit :: "(RunRequest \<Rightarrow> string) \<Rightarrow> nat \<Rightarrow> uuid \<Rightarrow> instant \<times> instant \<Rightarrow> instant \<times> instant \<Rightarrow> string \<Rightarrow> string
    \<Rightarrow> RunRequest \<Rightarrow> string \<Rightarrow> coordinator \<Rightarrow> run_failure + RunSnapshot \<times> coordinator" where
  "submit digest maximum_active rid ts ts' owner scope request binding co =
     (case existing digest (ck_db co) owner scope request of
        Inl e \<Rightarrow> Inl e
      | Inr (Some run) \<Rightarrow> Inr (run, co)
      | Inr None \<Rightarrow>
          if ck_closing co \<or> maximum_active \<le> length (ck_tasks co)
          then Inl (RunError ''Run capacity is occupied. Retry the same request ID later.'' 429)
          else (case enqueue digest rid ts ts' owner scope request binding (ck_db co) of
                  Inl e \<Rightarrow> Inl e
                | Inr (run, db') \<Rightarrow> Inr (run, co\<lparr>ck_db := db', ck_tasks := ck_tasks co @ [rid]\<rparr>)))"

definition after_finish :: "run_db \<Rightarrow> run_failure + RunSnapshot \<times> run_db \<Rightarrow> run_db" where
  "after_finish db r = (case r of Inl _ \<Rightarrow> db | Inr (_, db') \<Rightarrow> db')"

definition finish_failed :: "instant \<times> instant \<Rightarrow> uuid \<Rightarrow> run_db \<Rightarrow> run_db" where
  "finish_failed ts rid db =
     after_finish db (finish ts rid FAILED None (Some ''RUN_FAILED'') ''The run failed; no answer was released.'' db)"

definition end_task :: "uuid \<Rightarrow> run_db \<Rightarrow> coordinator \<Rightarrow> coordinator" where
  "end_task rid db co = co\<lparr>ck_db := db, ck_tasks := filter (\<lambda>t. t \<noteq> rid) (ck_tasks co),
     ck_signalled := filter (\<lambda>t. t \<noteq> rid) (ck_signalled co)\<rparr>"

text \<open>The run starts, or it was cancelled before and the task ends.\<close>

definition execute_begin :: "instant \<times> instant \<Rightarrow> instant \<times> instant \<Rightarrow> uuid \<Rightarrow> coordinator \<Rightarrow> bool \<times> coordinator" where
  "execute_begin ts ts' rid co =
     (case start ts rid (ck_db co) of
        Inl _ \<Rightarrow> (False, end_task rid (finish_failed ts' rid (ck_db co)) co)
      | Inr (True, db') \<Rightarrow> (True, co\<lparr>ck_db := db'\<rparr>)
      | Inr (False, db') \<Rightarrow>
          (False, end_task rid (case finish ts' rid CANCELLED None None ''Cancelled before execution.'' db' of
                     Inl _ \<Rightarrow> finish_failed ts' rid db' | Inr (_, db'') \<Rightarrow> db'') co))"

definition execute_report :: "instant \<times> instant \<Rightarrow> uuid \<Rightarrow> AgentRunReport \<Rightarrow> coordinator \<Rightarrow> run_failure + coordinator" where
  "execute_report ts rid report co =
     (case progress ts rid report (ck_db co) of Inl e \<Rightarrow> Inl e | Inr db' \<Rightarrow> Inr (co\<lparr>ck_db := db'\<rparr>))"

definition settle :: "instant \<times> instant \<Rightarrow> bool \<Rightarrow> uuid \<Rightarrow> task_outcome \<Rightarrow> run_db \<Rightarrow> run_db" where
  "settle ts closing rid res db =
     (case res of
        TaskCompleted response \<Rightarrow>
          (case finish ts rid COMPLETED (Some response) None (rp_message response) db of
             Inl _ \<Rightarrow> finish_failed ts rid db | Inr (_, db') \<Rightarrow> db')
      | TaskFailed f \<Rightarrow> after_finish db (finish ts rid FAILED None (Some (af_code f)) (af_message f) db)
      | TaskRaised \<Rightarrow> finish_failed ts rid db
      | TaskCancelled \<Rightarrow> after_finish db
          (if closing then finish ts rid INTERRUPTED None (Some ''WORKER_STOPPED'') ''Worker stopped; no automatic rerun.'' db
           else finish ts rid CANCELLED None None ''Cancellation confirmed; no answer released.'' db))"

definition execute_end :: "instant \<times> instant \<Rightarrow> uuid \<Rightarrow> task_outcome \<Rightarrow> coordinator \<Rightarrow> coordinator" where
  "execute_end ts rid res co = end_task rid (settle ts (ck_closing co) rid res (ck_db co)) co"

definition cancel_run :: "instant \<times> instant \<Rightarrow> instant \<times> instant \<Rightarrow> string \<Rightarrow> string \<Rightarrow> uuid \<Rightarrow> coordinator
    \<Rightarrow> run_failure + RunSnapshot \<times> coordinator" where
  "cancel_run ts ts' owner scope rid co =
     (case read_owned (ck_db co) owner scope rid of Inl e \<Rightarrow> Inl e
      | Inr before \<Rightarrow>
        (case cancel ts owner scope rid (ck_db co) of Inl e \<Rightarrow> Inl e
         | Inr (run, db') \<Rightarrow>
           if rid \<in> set (ck_tasks co)
           then Inr (run, co\<lparr>ck_db := db', ck_signalled :=
                  (if rs_status before = RUNNING then rid # ck_signalled co else ck_signalled co)\<rparr>)
           else (case finish ts' rid CANCELLED None None ''Cancelled before execution.'' db' of
                   Inl e \<Rightarrow> Inl e | Inr (run', db'') \<Rightarrow> Inr (run', co\<lparr>ck_db := db''\<rparr>))))"

text \<open>Closing cancels every task; those whose coroutine had started write their end, recovery writes the rest.\<close>

fun stop_tasks :: "instant \<times> instant \<Rightarrow> uuid list \<Rightarrow> run_db \<Rightarrow> run_db" where
  "stop_tasks ts [] db = db"
| "stop_tasks ts (rid # rest) db = stop_tasks ts rest (settle ts True rid TaskCancelled db)"

definition close :: "instant \<times> instant \<Rightarrow> uuid list \<Rightarrow> coordinator \<Rightarrow> run_failure + coordinator" where
  "close ts started co =
     (let db = stop_tasks ts (filter (\<lambda>t. t \<in> set started) (ck_tasks co)) (ck_db co) in
      case recover ts db of Inl e \<Rightarrow> Inl e
      | Inr db' \<Rightarrow> Inr (co\<lparr>ck_db := db', ck_tasks := [], ck_signalled := [], ck_closing := True\<rparr>))"

subsection \<open>The active runs\<close>

definition actives :: "run_db \<Rightarrow> uuid set" where
  "actives db = {i. \<exists>a. read_run db i = Inr a \<and> rs_status a \<in> ACTIVE}"

lemma one_write_actives:
  assumes "one_write digest db rid (Inr (run, db'))"
  shows "actives db' = (if rs_status run \<in> ACTIVE then insert rid (actives db) else actives db - {rid})"
proof -
  from assms have run: "read_run db' rid = Inr run" by (auto simp: one_write_def)
  have others: "read_run db' i = read_run db i" if "i \<noteq> rid" for i using assms that by (auto simp: one_write_def)
  have "i \<in> actives db' \<longleftrightarrow> i \<in> (if rs_status run \<in> ACTIVE then insert rid (actives db) else actives db - {rid})" for i
    by (cases "i = rid") (auto simp: actives_def run others)
  then show ?thesis by blast
qed

lemma one_write_was:
  assumes "one_write digest db rid (Inr (run, db'))" "rs_status run \<in> ACTIVE"
  shows "rid \<in> actives db"
proof (cases "db' = db")
  case True
  with assms show ?thesis by (auto simp: one_write_def actives_def)
next
  case False
  with assms(1) obtain a where "read_run db rid = Inr a" "moved a run" by (auto simp: one_write_def)
  then show ?thesis using transitions_active by (auto simp: actives_def moved_def)
qed

lemma terminal_not_active: "s \<in> TERMINAL \<Longrightarrow> s \<notin> ACTIVE"
  by (simp add: terminal_or_active)

lemma active_iff_task: "journal_ok digest db \<Longrightarrow> set (active_ids db) = actives db"
proof (intro set_eqI iffI)
  fix i assume j: "journal_ok digest db"
  { assume i: "i \<in> set (active_ids db)"
    with active_ids_runs obtain r where r: "r \<in> set (rd_runs db)" "rw_id r = i" by blast
    from j have "tables_ok digest db" by (simp add: journal_ok_def)
    from read_run_row [OF this r(1)] r(2) have "read_run db i = Inr (rw_payload r)" by simp
    with active_id_iff [OF j this] i show "i \<in> actives db" by (auto simp: actives_def) }
  { assume "i \<in> actives db"
    with active_id_iff [OF j] show "i \<in> set (active_ids db)" by (auto simp: actives_def) }
qed

text \<open>Finishing a run that is there succeeds, and the run is finished then.\<close>

lemma finish_ends:
  assumes "journal_ok digest db" "read_run db rid = Inr a" "status \<in> TERMINAL" "result \<noteq> None \<Longrightarrow> status = COMPLETED"
  shows "\<exists>run db'. finish ts rid status result code message db = Inr (run, db')
    \<and> one_write digest db rid (Inr (run, db')) \<and> rs_status run \<in> TERMINAL"
proof -
  let ?f = "finish ts rid status result code message db"
  have w: "one_write digest db rid ?f" by (rule finish_writes [OF assms(1,4)])
  show ?thesis
  proof (cases ?f)
    case (Inl e)
    with assms(2,3) have "e = RunIntegrity"
      by (auto simp: finish_def Let_def dest: write_run_error split: if_splits)
    with w Inl show ?thesis by (simp add: one_write_def)
  next
    case (Inr p)
    obtain run db' where p: "p = (run, db')" by fastforce
    have "rs_status run \<in> TERMINAL"
      using Inr p assms(2,3) by (auto simp: finish_def Let_def TERMINAL_def dest!: write_run_status split: if_splits option.splits)
    with w Inr p show ?thesis by auto
  qed
qed

definition ended :: "(RunRequest \<Rightarrow> string) \<Rightarrow> uuid \<Rightarrow> run_db \<Rightarrow> run_db \<Rightarrow> bool" where
  "ended digest rid db db' \<longleftrightarrow> journal_ok digest db' \<and> actives db' = actives db - {rid} \<and> keys db' = keys db
     \<and> (\<forall>i. i \<noteq> rid \<longrightarrow> read_run db' i = read_run db i)
     \<and> (\<exists>a b. read_run db rid = Inr a \<and> read_run db' rid = Inr b \<and> rs_status b \<in> TERMINAL \<and> (b = a \<or> moved a b))"

lemma one_write_ended:
  assumes "journal_ok digest db" "read_run db rid = Inr a" "one_write digest db rid (Inr (run, db'))" "rs_status run \<in> TERMINAL"
  shows "ended digest rid db db'"
proof -
  from assms(3,4) have act: "actives db' = actives db - {rid}" by (simp add: one_write_actives terminal_not_active)
  from assms(3) have run: "read_run db' rid = Inr run" by (simp add: one_write_def)
  show ?thesis
  proof (cases "db' = db")
    case True
    with run assms(1,4) act show ?thesis unfolding ended_def by simp
  next
    case False
    with assms(2,3) have "journal_ok digest db'" "keys db' = keys db" "moved a run"
      and same: "\<forall>i. i \<noteq> rid \<longrightarrow> read_run db' i = read_run db i" by (simp_all add: one_write_def)
    with act run assms(2,4) show ?thesis unfolding ended_def by blast
  qed
qed

lemma finish_ended:
  assumes "journal_ok digest db" "read_run db rid = Inr a" "status \<in> TERMINAL" "result \<noteq> None \<Longrightarrow> status = COMPLETED"
  shows "\<exists>run db'. finish ts rid status result code message db = Inr (run, db') \<and> ended digest rid db db'"
  using finish_ends [OF assms] one_write_ended [OF assms(1,2)] by blast

lemma settle_ended:
  assumes "journal_ok digest db" "read_run db rid = Inr a"
  shows "ended digest rid db (settle ts closing rid res db)"
proof -
  have f: "\<exists>run db'. finish ts rid status result code message db = Inr (run, db') \<and> ended digest rid db db'"
    if "status \<in> {COMPLETED, FAILED, CANCELLED, INTERRUPTED}" "result \<noteq> None \<Longrightarrow> status = COMPLETED" for status result code message
    using that by (intro finish_ended [OF assms]) (auto simp: TERMINAL_def)
  show ?thesis
  proof (cases res)
    case (TaskCompleted response)
    from f [of COMPLETED "Some response" None "rp_message response"] TaskCompleted show ?thesis by (auto simp: settle_def)
  next
    case (TaskFailed x)
    from f [of FAILED None "Some (af_code x)" "af_message x"] TaskFailed show ?thesis by (auto simp: settle_def after_finish_def)
  next
    case TaskRaised
    from f [of FAILED None "Some ''RUN_FAILED''" "''The run failed; no answer was released.''"] TaskRaised
    show ?thesis by (auto simp: settle_def finish_failed_def after_finish_def)
  next
    case TaskCancelled
    show ?thesis
    proof (cases closing)
      case True
      from f [of INTERRUPTED None "Some ''WORKER_STOPPED''" "''Worker stopped; no automatic rerun.''"] True TaskCancelled
      show ?thesis by (auto simp: settle_def after_finish_def)
    next
      case False
      from f [of CANCELLED None None "''Cancellation confirmed; no answer released.''"] False TaskCancelled
      show ?thesis by (auto simp: settle_def after_finish_def)
    qed
  qed
qed

lemma drop_actives:
  assumes "journal_ok digest db" "\<not> has_active db cid"
  shows "actives (drop_conversation cid db) = actives db"
proof (intro set_eqI iffI)
  fix i assume "i \<in> actives (drop_conversation cid db)"
  then show "i \<in> actives db" using drop_read [OF _ assms(1)] by (auto simp: actives_def)
next
  fix i assume "i \<in> actives db"
  then obtain a where a: "read_run db i = Inr a" "rs_status a \<in> ACTIVE" by (auto simp: actives_def)
  obtain r where r: "r \<in> set (rd_runs db)" "rw_id r = i" "rw_payload r = a" "rw_status r = rs_status a"
    by (rule row_of_read [OF assms(1) a(1)])
  with a assms(2) have "rw_conversation r \<noteq> cid" by (auto simp: has_active_def)
  with r have "r \<in> set (rd_runs (drop_conversation cid db))" by (simp add: drop_conversation_def)
  moreover have "tables_ok digest (drop_conversation cid db)"
    using drop_conversation_ok [OF assms(1)] by (simp add: journal_ok_def)
  ultimately have "read_run (drop_conversation cid db) i = Inr a" using read_run_row r by metis
  with a show "i \<in> actives (drop_conversation cid db)" by (auto simp: actives_def)
qed

lemma actives_checkpoints [simp]: "actives (db\<lparr>rd_checkpoints := cs\<rparr>) = actives db"
  by (simp add: actives_def checkpoint_irrelevant)

lemma prune_actives:
  assumes "journal_ok digest db"
  shows "actives (snd (prune_each w rows db)) = actives db"
  using assms
proof (induction w rows db rule: prune_each.induct)
  case (2 w key p rest db)
  let ?db = "(drop_conversation (kp_conversation_id p) db)\<lparr>rd_checkpoints := filter (\<lambda>r. fst r \<noteq> key) (rd_checkpoints db)\<rparr>"
  show ?case
  proof (cases "prunable w db p")
    case True
    have ok: "journal_ok digest ?db" using drop_conversation_ok [OF 2(3)] by (simp add: checkpoint_irrelevant)
    have "\<not> has_active db (kp_conversation_id p)" using True by (simp add: prunable_def)
    with 2(1) [OF True refl ok] drop_actives [OF 2(3)] True show ?thesis by (simp add: Let_def case_prod_beta)
  next
    case False
    with 2 show ?thesis by simp
  qed
qed simp

subsection \<open>The coordinator's steps\<close>

text \<open>The routes also create and delete conversations; checkpoints are pruned between requests.\<close>

inductive coord_reach :: "(RunRequest \<Rightarrow> string) \<Rightarrow> nat \<Rightarrow> coordinator \<Rightarrow> bool" for digest maximum_active where
  open_store: "run_reach digest db \<Longrightarrow> recover ts db = Inr db'
    \<Longrightarrow> coord_reach digest maximum_active \<lparr>ck_db = db', ck_tasks = [], ck_signalled = [], ck_closing = False\<rparr>"
| submit: "coord_reach digest maximum_active co
    \<Longrightarrow> submit digest maximum_active rid ts ts' owner scope request binding co = Inr (run, co') \<Longrightarrow> coord_reach digest maximum_active co'"
| begin_task: "coord_reach digest maximum_active co \<Longrightarrow> rid \<in> set (ck_tasks co)
    \<Longrightarrow> coord_reach digest maximum_active (snd (execute_begin ts ts' rid co))"
| report: "coord_reach digest maximum_active co \<Longrightarrow> execute_report ts rid r co = Inr co' \<Longrightarrow> coord_reach digest maximum_active co'"
| end_task: "coord_reach digest maximum_active co \<Longrightarrow> rid \<in> set (ck_tasks co)
    \<Longrightarrow> coord_reach digest maximum_active (execute_end ts rid res co)"
| cancel: "coord_reach digest maximum_active co \<Longrightarrow> cancel_run ts ts' owner scope rid co = Inr (run, co')
    \<Longrightarrow> coord_reach digest maximum_active co'"
| close_store: "coord_reach digest maximum_active co \<Longrightarrow> close ts started co = Inr co' \<Longrightarrow> coord_reach digest maximum_active co'"
| create: "coord_reach digest maximum_active co \<Longrightarrow> create_conversation owner scope cid now (ck_db co) = Inr (c, db')
    \<Longrightarrow> coord_reach digest maximum_active (co\<lparr>ck_db := db'\<rparr>)"
| delete: "coord_reach digest maximum_active co \<Longrightarrow> delete_conversation owner scope cid (ck_db co) = Inr db'
    \<Longrightarrow> coord_reach digest maximum_active (co\<lparr>ck_db := db'\<rparr>)"
| checkpoint: "coord_reach digest maximum_active co
    \<Longrightarrow> coord_reach digest maximum_active (co\<lparr>ck_db := checkpoint dg token payload (ck_db co)\<rparr>)"
| prune: "coord_reach digest maximum_active co
    \<Longrightarrow> coord_reach digest maximum_active (co\<lparr>ck_db := snd (prune_checkpoints w (ck_db co))\<rparr>)"

text \<open>Every active run has its one task, and every task an active run.\<close>

definition coordinator_ok :: "(RunRequest \<Rightarrow> string) \<Rightarrow> nat \<Rightarrow> coordinator \<Rightarrow> bool" where
  "coordinator_ok digest maximum_active co \<longleftrightarrow> journal_ok digest (ck_db co) \<and> distinct (ck_tasks co)
     \<and> set (ck_tasks co) = actives (ck_db co) \<and> length (ck_tasks co) \<le> maximum_active"

lemma coordinator_okI:
  assumes "coordinator_ok digest m co" "journal_ok digest db'" "actives db' = actives (ck_db co)"
  shows "coordinator_ok digest m (co\<lparr>ck_db := db', ck_signalled := sg\<rparr>)"
  using assms by (simp add: coordinator_ok_def)

lemma coordinator_ended:
  assumes "coordinator_ok digest m co" "ended digest rid (ck_db co) db'"
  shows "coordinator_ok digest m (end_task rid db' co)"
  using assms by (auto simp: coordinator_ok_def ended_def end_task_def intro: le_trans [OF length_filter_le])

lemma task_reads:
  assumes "coordinator_ok digest m co" "rid \<in> set (ck_tasks co)"
  obtains a where "read_run (ck_db co) rid = Inr a" "rs_status a \<in> ACTIVE"
  using assms by (auto simp: coordinator_ok_def actives_def)

lemma one_write_keeps:
  assumes "coordinator_ok digest m co" "one_write digest (ck_db co) rid (Inr (run, db'))" "rs_status run \<in> ACTIVE"
  shows "coordinator_ok digest m (co\<lparr>ck_db := db', ck_signalled := sg\<rparr>)"
proof (rule coordinator_okI [OF assms(1)])
  show "journal_ok digest db'" using assms(1,2) by (auto simp: coordinator_ok_def one_write_def)
  from one_write_was [OF assms(2,3)] show "actives db' = actives (ck_db co)"
    unfolding one_write_actives [OF assms(2)] using assms(3) by auto
qed

lemma submit_ok:
  assumes "coordinator_ok digest m co" "submit digest m rid ts ts' owner scope request binding co = Inr (run, co')"
  shows "coordinator_ok digest m co'"
proof -
  have j: "journal_ok digest (ck_db co)" using assms(1) by (simp add: coordinator_ok_def)
  show ?thesis
  proof (cases "co' = co")
    case True
    with assms(1) show ?thesis by simp
  next
    case False
    with assms(2) obtain db' where room: "length (ck_tasks co) < m" and
      e: "enqueue digest rid ts ts' owner scope request binding (ck_db co) = Inr (run, db')" and
      co': "co' = co\<lparr>ck_db := db', ck_tasks := ck_tasks co @ [rid]\<rparr>"
      by (auto simp: submit_def split: sum.splits option.splits if_splits)
    note q = enqueue_ok [OF j e]
    have "actives db' = insert rid (actives (ck_db co))"
    proof (intro set_eqI)
      fix i show "i \<in> actives db' \<longleftrightarrow> i \<in> insert rid (actives (ck_db co))"
        using q(2,3,5) by (cases "i = rid") (auto simp: actives_def ACTIVE_def)
    qed
    moreover have "rid \<notin> actives (ck_db co)" using q(4) by (auto simp: actives_def)
    ultimately show ?thesis using assms(1) q(1) room by (auto simp: coordinator_ok_def co')
  qed
qed

lemma execute_begin_ok:
  assumes ok: "coordinator_ok digest m co" and rid: "rid \<in> set (ck_tasks co)"
  shows "coordinator_ok digest m (snd (execute_begin ts ts' rid co))"
proof -
  let ?db = "ck_db co"
  have j: "journal_ok digest ?db" using ok by (simp add: coordinator_ok_def)
  obtain a where a: "read_run ?db rid = Inr a" by (rule task_reads [OF ok rid])
  have failed: "ended digest rid ?db (finish_failed ts' rid ?db)"
    using settle_ended [OF j a, of ts' False TaskRaised] by (simp add: settle_def)
  show ?thesis
  proof (cases "start ts rid ?db")
    case (Inl e)
    with coordinator_ended [OF ok failed] show ?thesis by (simp add: execute_begin_def)
  next
    case (Inr p)
    obtain b db' where p: "p = (b, db')" by fastforce
    from start_writes [OF j, of rid ts] Inr p obtain run where w: "one_write digest ?db rid (Inr (run, db'))"
      "if b then rs_status run = RUNNING else db' = ?db" by auto
    show ?thesis
    proof (cases b)
      case True
      with w have "rs_status run \<in> ACTIVE" by (simp add: ACTIVE_def)
      from one_write_keeps [OF ok w(1) this, of "ck_signalled co"] Inr p True show ?thesis
        by (simp add: execute_begin_def)
    next
      case False
      with w have db': "db' = ?db" by simp
      have "\<exists>run db''. finish ts' rid CANCELLED None None ''Cancelled before execution.'' ?db = Inr (run, db'') \<and> ended digest rid ?db db''"
        by (rule finish_ended [OF j a]) (simp_all add: TERMINAL_def)
      then obtain run2 db'' where f: "finish ts' rid CANCELLED None None ''Cancelled before execution.'' ?db = Inr (run2, db'')"
        "ended digest rid ?db db''" by blast
      from coordinator_ended [OF ok f(2)] f(1) Inr p False db' show ?thesis by (simp add: execute_begin_def)
    qed
  qed
qed

lemma execute_report_ok:
  assumes ok: "coordinator_ok digest m co" and r: "execute_report ts rid report co = Inr co'"
  shows "coordinator_ok digest m co'"
proof -
  have j: "journal_ok digest (ck_db co)" using ok by (simp add: coordinator_ok_def)
  from r obtain db' where p: "progress ts rid report (ck_db co) = Inr db'" and co': "co' = co\<lparr>ck_db := db'\<rparr>"
    by (auto simp: execute_report_def split: sum.splits)
  from progress_writes [OF j, of rid ts report] p obtain run where w: "one_write digest (ck_db co) rid (Inr (run, db'))"
    "rs_status run = RUNNING \<or> db' = ck_db co" by auto
  show ?thesis
  proof (cases "db' = ck_db co")
    case True
    with ok co' show ?thesis by simp
  next
    case False
    with w(2) have "rs_status run \<in> ACTIVE" by (simp add: ACTIVE_def)
    from one_write_keeps [OF ok w(1) this, of "ck_signalled co"] co' show ?thesis by simp
  qed
qed

lemma cancel_run_ok:
  assumes ok: "coordinator_ok digest m co" and c: "cancel_run ts ts' owner scope rid co = Inr (run, co')"
  shows "coordinator_ok digest m co'"
proof -
  let ?db = "ck_db co"
  have j: "journal_ok digest ?db" using ok by (simp add: coordinator_ok_def)
  from c obtain before run1 db' where before: "read_owned ?db owner scope rid = Inr before" and
    c1: "cancel ts owner scope rid ?db = Inr (run1, db')"
    by (cases "read_owned ?db owner scope rid"; cases "cancel ts owner scope rid ?db") (auto simp: cancel_run_def)
  from cancel_writes [OF j, of rid ts owner scope] c1 have w: "one_write digest ?db rid (Inr (run1, db'))" by simp
  have j': "journal_ok digest db'" using w j by (auto simp: one_write_def)
  show ?thesis
  proof (cases "rid \<in> set (ck_tasks co)")
    case True
    have sg: "coordinator_ok digest m (co\<lparr>ck_db := db', ck_signalled := sg\<rparr>)" for sg
    proof (cases "db' = ?db")
      case True
      with ok show ?thesis by (simp add: coordinator_ok_def)
    next
      case False
      with cancel_status [OF c1] have "rs_status run1 \<in> ACTIVE" by (simp add: ACTIVE_def)
      from one_write_keeps [OF ok w this] show ?thesis .
    qed
    from c before c1 True have "co' = co\<lparr>ck_db := db', ck_signalled :=
                  (if rs_status before = RUNNING then rid # ck_signalled co else ck_signalled co)\<rparr>"
      by (simp add: cancel_run_def)
    with sg show ?thesis by simp
  next
    case False
    from w have r1: "read_run db' rid = Inr run1" by (simp add: one_write_def)
    have "\<exists>run db''. finish ts' rid CANCELLED None None ''Cancelled before execution.'' db' = Inr (run, db'') \<and> ended digest rid db' db''"
      by (rule finish_ended [OF j' r1]) (simp_all add: TERMINAL_def)
    then obtain run2 db'' where f: "finish ts' rid CANCELLED None None ''Cancelled before execution.'' db' = Inr (run2, db'')"
      "ended digest rid db' db''" by blast
    from c before c1 False f(1) have co': "co' = co\<lparr>ck_db := db''\<rparr>" by (simp add: cancel_run_def)
    have "rid \<notin> actives ?db" using ok False by (simp add: coordinator_ok_def)
    then have "actives db'' = actives ?db" using f(2) one_write_actives [OF w] by (auto simp: ended_def split: if_splits)
    with coordinator_okI [OF ok _ this, of "ck_signalled co"] f(2) co' show ?thesis by (simp add: ended_def)
  qed
qed

lemma stop_tasks_ok:
  assumes "journal_ok digest db" "set ids \<subseteq> rw_id ` set (rd_runs db)"
  shows "journal_ok digest (stop_tasks ts ids db) \<and> keys (stop_tasks ts ids db) = keys db"
  using assms
proof (induction ids arbitrary: db)
  case (Cons rid ids)
  from Cons.prems obtain r where "r \<in> set (rd_runs db)" "rw_id r = rid" by auto
  with Cons.prems(1) have "read_run db rid = Inr (rw_payload r)" using read_run_row by (auto simp: journal_ok_def)
  from settle_ended [OF Cons.prems(1) this, of ts True TaskCancelled]
  have e: "journal_ok digest (settle ts True rid TaskCancelled db)" "keys (settle ts True rid TaskCancelled db) = keys db"
    by (simp_all add: ended_def)
  have "map fst (keys (settle ts True rid TaskCancelled db)) = map fst (keys db)" using e(2) by simp
  then have "rw_id ` set (rd_runs (settle ts True rid TaskCancelled db)) = rw_id ` set (rd_runs db)"
    by (simp add: keys_def comp_def) (metis list.set_map)
  with Cons.IH [OF e(1)] e(2) Cons.prems(2) show ?case by simp
qed simp

lemma reach_actives:
  assumes "journal_ok digest db" "recovered UNIV db db'" "keys db' = keys db" "journal_ok digest db'"
  shows "actives db' = {}"
proof -
  have "rs_status b \<notin> ACTIVE" if b: "read_run db' i = Inr b" for i b
  proof -
    from read_run_cases [OF b] obtain q where q: "q \<in> set (rd_runs db')" "rw_id q = i" by blast
    have "map fst (keys db') = map fst (keys db)" using assms(3) by simp
    then have "rw_id ` set (rd_runs db') = rw_id ` set (rd_runs db)"
      by (simp add: keys_def comp_def) (metis list.set_map)
    with q obtain p where p: "p \<in> set (rd_runs db)" "rw_id p = i" by force
    from assms(1) have "tables_ok digest db" by (simp add: journal_ok_def)
    from read_run_row [OF this p(1)] p(2) have a: "read_run db i = Inr (rw_payload p)" by simp
    from assms(2) [unfolded recovered_def, rule_format, OF a] b show ?thesis by (auto simp: ACTIVE_def split: if_splits)
  qed
  then show ?thesis by (auto simp: actives_def)
qed

lemma close_ok:
  assumes "coordinator_ok digest m co"
  shows "\<exists>co'. close ts started co = Inr co' \<and> coordinator_ok digest m co' \<and> ck_tasks co' = [] \<and> actives (ck_db co') = {}"
proof -
  let ?ids = "filter (\<lambda>t. t \<in> set started) (ck_tasks co)"
  have j: "journal_ok digest (ck_db co)" using assms by (simp add: coordinator_ok_def)
  have "set ?ids \<subseteq> rw_id ` set (rd_runs (ck_db co))"
    using assms active_ids_runs [of "ck_db co"] active_iff_task [OF j] by (auto simp: coordinator_ok_def)
  from stop_tasks_ok [OF j this, of ts] have s: "journal_ok digest (stop_tasks ts ?ids (ck_db co))" by blast
  from recover_ok [OF s, of ts] obtain db' where r: "recover ts (stop_tasks ts ?ids (ck_db co)) = Inr db'" "journal_ok digest db'"
    "keys db' = keys (stop_tasks ts ?ids (ck_db co))" "recovered UNIV (stop_tasks ts ?ids (ck_db co)) db'" by blast
  from reach_actives [OF s r(4,3,2)] r(1,2) show ?thesis by (simp add: close_def coordinator_ok_def)
qed

lemma coord_reach_ok: "coord_reach digest m co \<Longrightarrow> coordinator_ok digest m co"
proof (induction rule: coord_reach.induct)
  case (open_store db ts db')
  note j = run_reach_ok [OF open_store(1)]
  from recover_ok [OF j, of ts] open_store(2) have "journal_ok digest db'" "keys db' = keys db" "recovered UNIV db db'" by auto
  with reach_actives [OF j] show ?case by (simp add: coordinator_ok_def)
next
  case (submit co rid ts ts' owner scope request binding run co')
  then show ?case using submit_ok by blast
next
  case (begin_task co rid ts ts')
  then show ?case using execute_begin_ok by blast
next
  case (report co ts rid r co')
  then show ?case using execute_report_ok by blast
next
  case (end_task co rid ts res)
  have j: "journal_ok digest (ck_db co)" using end_task(3) by (simp add: coordinator_ok_def)
  obtain a where "read_run (ck_db co) rid = Inr a" by (rule task_reads [OF end_task(3,2)])
  from coordinator_ended [OF end_task(3) settle_ended [OF j this]] show ?case by (simp add: execute_end_def)
next
  case (cancel co ts ts' owner scope rid run co')
  then show ?case using cancel_run_ok by blast
next
  case (close_store co ts started co')
  with close_ok [OF close_store(3), of ts started] show ?case by auto
next
  case (create co owner scope cid now c db')
  have j: "journal_ok digest (ck_db co)" using create(3) by (simp add: coordinator_ok_def)
  from create_conversation_ok(1,2) [OF j create(2)]
  have "journal_ok digest db'" "actives db' = actives (ck_db co)" by (simp_all add: actives_def)
  with create(3) show ?case by (simp add: coordinator_ok_def)
next
  case (delete co owner scope cid db')
  have j: "journal_ok digest (ck_db co)" using delete(3) by (simp add: coordinator_ok_def)
  from delete(2) have "db' = drop_conversation cid (ck_db co)" "\<not> has_active (ck_db co) cid"
    by (auto simp: delete_conversation_def split: sum.splits if_splits)
  with delete(3) drop_actives [OF j] drop_conversation_ok [OF j] show ?case by (simp add: coordinator_ok_def)
next
  case (checkpoint co dg token payload)
  then show ?case by (simp add: coordinator_ok_def RunStore.checkpoint_def Let_def checkpoint_irrelevant)
next
  case (prune co w)
  then have j: "journal_ok digest (ck_db co)" by (simp add: coordinator_ok_def)
  with prune(2) prune_actives [OF j] prune_steps [OF j, of w] show ?case
    by (simp add: coordinator_ok_def prune_checkpoints_def steps_to_def)
qed

subsection \<open>Properties\<close>

text \<open>C31: However submissions, starts, reports, endings, cancellations, deletions and restarts interleave, the
  runs that are queued, running or being cancelled are exactly those with a task, one each, at most the
  maximum at a time, and the journal stays well-formed: no question is left active without a worker.\<close>

theorem active_runs_have_workers:
  assumes "coord_reach digest maximum_active co"
  shows "journal_ok digest (ck_db co) \<and> distinct (ck_tasks co)
     \<and> set (ck_tasks co) = set (active_ids (ck_db co)) \<and> length (ck_tasks co) \<le> maximum_active"
  using coord_reach_ok [OF assms] active_iff_task [of digest "ck_db co"] by (simp add: coordinator_ok_def)

text \<open>C33: Every task ends its run: however the work ended, the run is finished afterwards and its task gone;
  and when a cancellation was requested, no result is released even if the work completed.\<close>

theorem tasks_end_their_runs:
  assumes "coord_reach digest maximum_active co" "rid \<in> set (ck_tasks co)"
  shows "\<exists>a b. read_run (ck_db co) rid = Inr a \<and> read_run (ck_db (execute_end ts rid res co)) rid = Inr b
    \<and> rs_status b \<in> TERMINAL \<and> rid \<notin> set (ck_tasks (execute_end ts rid res co))
    \<and> (rs_status a = CANCELLATION_REQUESTED \<longrightarrow> rs_status b \<in> {CANCELLED, INTERRUPTED} \<and> rs_result b = None)"
proof -
  note ok = coord_reach_ok [OF assms(1)]
  have j: "journal_ok digest (ck_db co)" using ok by (simp add: coordinator_ok_def)
  obtain a where a: "read_run (ck_db co) rid = Inr a" "rs_status a \<in> ACTIVE" by (rule task_reads [OF ok assms(2)])
  from settle_ended [OF j a(1), of ts "ck_closing co" res] a(1) obtain b where
    b: "read_run (settle ts (ck_closing co) rid res (ck_db co)) rid = Inr b" "rs_status b \<in> TERMINAL" "b = a \<or> moved a b"
    by (auto simp: ended_def)
  have "rs_status a \<notin> TERMINAL" using a(2) by (simp add: terminal_or_active)
  with b have "moved a b" by auto
  with moves_summary [of a b] b(2) \<open>rs_status a \<notin> TERMINAL\<close> a b(1) show ?thesis
    by (intro exI [of _ a] exI [of _ b]) (auto simp: execute_end_def end_task_def)
qed

text \<open>Closing the coordinator always succeeds and leaves no task and no active run, whichever tasks had
  started.\<close>

theorem closing_leaves_nothing_active:
  assumes "coord_reach digest maximum_active co"
  shows "\<exists>co'. close ts started co = Inr co' \<and> ck_tasks co' = [] \<and> active_ids (ck_db co') = []"
proof -
  from close_ok [OF coord_reach_ok [OF assms], of ts started] obtain co' where
    c: "close ts started co = Inr co'" "coordinator_ok digest maximum_active co'" "ck_tasks co' = []" "actives (ck_db co') = {}" by blast
  from c(2) have "journal_ok digest (ck_db co')" by (simp add: coordinator_ok_def)
  from active_iff_task [OF this] c show ?thesis by auto
qed

subsection \<open>A coordinator with one question\<close>

definition coordinator0 :: coordinator where
  "coordinator0 = \<lparr>ck_db = snd (projr (create_conversation ''o'' ''s'' ''c'' 0 empty_runs)), ck_tasks = [], ck_signalled = [], ck_closing = False\<rparr>"

definition coordinator1 :: coordinator where
  "coordinator1 = snd (projr (submit rq_question 8 ''r'' (1, 1) (2, 2) ''o'' ''s'' demo_run_request ''b'' coordinator0))"

definition coordinator2 :: coordinator where
  "coordinator2 = snd (projr (cancel_run (4, 4) (5, 5) ''o'' ''s'' ''r'' coordinator1))"

lemma coordinator_results:
  "is_ok (submit rq_question 8 ''r'' (1, 1) (2, 2) ''o'' ''s'' demo_run_request ''b'' coordinator0)"
  "is_ok (cancel_run (4, 4) (5, 5) ''o'' ''s'' ''r'' coordinator1)" "ck_tasks coordinator2 = [''r'']"
  "case read_run (ck_db coordinator2) ''r'' of Inl e \<Rightarrow> False | Inr a \<Rightarrow> rs_status a = CANCELLATION_REQUESTED"
  by code_simp+

lemma coordinator2_reach: "coord_reach rq_question 8 coordinator2"
proof -
  have "recover (0, 0) empty_runs = Inr empty_runs" by (simp add: recover_def active_ids_def empty_runs_def)
  from coord_reach.open_store [OF run_reach.empty this]
  have r: "coord_reach rq_question 8 \<lparr>ck_db = empty_runs, ck_tasks = [], ck_signalled = [], ck_closing = False\<rparr>" (is "coord_reach _ _ ?co") .
  have "create_conversation ''o'' ''s'' ''c'' 0 (ck_db ?co)
      = Inr (fst (projr (create_conversation ''o'' ''s'' ''c'' 0 empty_runs)), snd (projr (create_conversation ''o'' ''s'' ''c'' 0 empty_runs)))"
    unfolding coordinator.simps by (rule ok_result [OF journal_results(1)])
  from coord_reach.create [OF r this] have 0: "coord_reach rq_question 8 coordinator0" by (simp add: coordinator0_def)
  have "coord_reach rq_question 8 coordinator1" unfolding coordinator1_def
    by (rule coord_reach.submit [OF 0 ok_result [OF coordinator_results(1)]])
  then show ?thesis unfolding coordinator2_def
    by (rule coord_reach.cancel [OF _ ok_result [OF coordinator_results(2)]])
qed

theorem active_runs_have_workers_witness: "set (active_ids (ck_db coordinator2)) = {''r''}"
  using active_runs_have_workers [OF coordinator2_reach] coordinator_results(3) by simp

theorem tasks_end_their_runs_witness:
  "\<exists>b. read_run (ck_db (execute_end (9, 9) ''r'' TaskRaised coordinator2)) ''r'' = Inr b \<and> rs_status b \<in> {CANCELLED, INTERRUPTED}
     \<and> rs_result b = None"
proof -
  have "''r'' \<in> set (ck_tasks coordinator2)" using coordinator_results(3) by simp
  from tasks_end_their_runs [OF coordinator2_reach this, of "(9, 9)" TaskRaised] coordinator_results(4) show ?thesis by auto
qed

theorem closing_leaves_nothing_active_witness: "\<exists>co'. close (9, 9) [] coordinator2 = Inr co' \<and> ck_tasks co' = []"
  using closing_leaves_nothing_active [OF coordinator2_reach, of "(9, 9)" "[]"] by blast

end
