(* ===== verification/SharedRuns.thy ===== *)
theory SharedRuns
  imports RunHistory
begin

section \<open>SharedRuns: the run journal shared by several workers\<close>

text \<open>
  \<open>services/postgres_runs.py\<close> with \<open>domain/execution.py\<close>, \<open>core/state_config.py\<close> and the transactions of
  \<open>services/postgres_database.py\<close>.  The PostgreSQL tables are lists of rows in insertion order; a run's
  row has the columns of the local journal and those of its lease.  A body is what one transaction does,
  atomically: its row and advisory locks order the transactions.  The readings of \<open>clock_timestamp()\<close>
  are arguments, in microseconds; fresh identifiers, the times \<open>now()\<close> reads and the digests are
  arguments as in \<open>RunStore\<close>.  A constraint violation is \<open>RunIntegrity\<close> inside a body.
\<close>

subsection \<open>Records\<close>

record SharedStateSettings =
  ss_dsn_secret_ref :: string
  ss_allow_insecure_loopback :: bool
  ss_lease_seconds :: int
  ss_heartbeat_seconds :: pyfloat
  ss_poll_seconds :: pyfloat
  ss_maximum_pending :: int
  ss_maximum_running :: int
  ss_maximum_running_per_tenant :: int
  ss_maximum_conversations :: int

definition secret_ref_ok :: "string \<Rightarrow> bool" where
  "secret_ref_ok s \<longleftrightarrow> take 6 s = ''env://'' \<and> (case drop 6 s of [] \<Rightarrow> False
     | c # cs \<Rightarrow> c \<in> set ''ABCDEFGHIJKLMNOPQRSTUVWXYZ'' \<and> set cs \<subseteq> set ''ABCDEFGHIJKLMNOPQRSTUVWXYZ0123456789_'')"

definition make_shared_settings :: "SharedStateSettings \<Rightarrow> py_exc + SharedStateSettings" where
  "make_shared_settings s =
     (if secret_ref_ok (ss_dsn_secret_ref s) \<and> 5 \<le> ss_lease_seconds s \<and> ss_lease_seconds s \<le> 120
         \<and> fl_le (fl_round (1 / 10)) (ss_heartbeat_seconds s) \<and> fl_le (ss_heartbeat_seconds s) (Fin 10)
         \<and> fl_le (fl_round (1 / 20)) (ss_poll_seconds s) \<and> fl_le (ss_poll_seconds s) (Fin 5)
         \<and> 1 \<le> ss_maximum_pending s \<and> ss_maximum_pending s \<le> 4096
         \<and> 1 \<le> ss_maximum_running s \<and> ss_maximum_running s \<le> 128
         \<and> 1 \<le> ss_maximum_running_per_tenant s \<and> ss_maximum_running_per_tenant s \<le> 32
         \<and> 1 \<le> ss_maximum_conversations s \<and> ss_maximum_conversations s \<le> 100000
         \<and> \<not> fl_le (Fin (of_int (ss_lease_seconds s))) (fl_mul (ss_heartbeat_seconds s) (Fin 3))
         \<and> \<not> ss_maximum_running_per_tenant s > ss_maximum_running s
      then Inr s else Inl ValueError)"

record ExecutionGrant =
  eg_access :: AccessContext
  eg_expires_at :: instant

record ClaimedRun =
  cj_run :: RunSnapshot
  cj_grant :: ExecutionGrant
  cj_fence :: uuid

record shared_conversation =
  pc_row :: conversation_row
  pc_created_at :: instant

record leased_run =
  lw_row :: run_row
  lw_grant :: ExecutionGrant
  lw_tenant :: string
  lw_binding :: string
  lw_expires_at :: instant
  lw_created_at :: instant
  lw_fence :: "uuid option"
  lw_lease_until :: "instant option"

record shared_db =
  pg_conversations :: "shared_conversation list"
  pg_runs :: "leased_run list"
  pg_events :: "event_row list"

definition empty_shared :: shared_db where
  "empty_shared = \<lparr>pg_conversations = [], pg_runs = [], pg_events = []\<rparr>"

abbreviation lw_id :: "leased_run \<Rightarrow> uuid" where "lw_id r \<equiv> rw_id (lw_row r)"
abbreviation lw_status :: "leased_run \<Rightarrow> RunStatus" where "lw_status r \<equiv> rw_status (lw_row r)"

text \<open>The columns the two stores have in common; the queries on them alone are those of the local journal.\<close>

definition journal :: "shared_db \<Rightarrow> run_db" where
  "journal db = \<lparr>rd_conversations = map pc_row (pg_conversations db), rd_runs = map lw_row (pg_runs db),
     rd_events = pg_events db, rd_checkpoints = []\<rparr>"

subsection \<open>Transactions\<close>

definition shared_unavailable :: run_failure where
  "shared_unavailable = RunError ''Shared state is temporarily unavailable. Retry the same request ID.'' 503"

definition lease_lost :: run_failure where
  "lease_lost = RunError ''Execution ownership expired or changed; no answer was released.'' 409"

text \<open>An error of the driver rolls the transaction back.\<close>

definition transaction :: "bool \<Rightarrow> run_failure + 'a \<Rightarrow> run_failure + 'a" where
  "transaction reachable body =
     (if \<not> reachable then Inl shared_unavailable
      else case body of Inl RunIntegrity \<Rightarrow> Inl shared_unavailable | _ \<Rightarrow> body)"

subsection \<open>Conversations and reads\<close>

definition pg_create_conversation :: "SharedStateSettings \<Rightarrow> string \<Rightarrow> string \<Rightarrow> uuid \<Rightarrow> instant \<Rightarrow> instant \<Rightarrow> shared_db
    \<Rightarrow> run_failure + Conversation \<times> shared_db" where
  "pg_create_conversation settings owner scope cid now created db =
     (let value = \<lparr>cn_conversation_id = cid, cn_revision = 0, cn_title = ''New conversation'',
            cn_latest_run_id = None, cn_created_at = now\<rparr>;
          total = length (pg_conversations db);
          owned = length (filter (\<lambda>c. cw_owner (pc_row c) = owner) (pg_conversations db))
      in if int total \<ge> ss_maximum_conversations settings \<or> owned \<ge> 16
         then Inl (RunError ''Conversation capacity is occupied. Remove old conversations.'' 429)
         else if cid \<in> (\<lambda>c. cw_id (pc_row c)) ` set (pg_conversations db) then Inl RunIntegrity
         else Inr (value, db\<lparr>pg_conversations := pg_conversations db
                @ [\<lparr>pc_row = \<lparr>cw_id = cid, cw_owner = owner, cw_scope = scope, cw_payload = value\<rparr>, pc_created_at = created\<rparr>]\<rparr>))"

definition pg_conversation :: "shared_db \<Rightarrow> string \<Rightarrow> string \<Rightarrow> uuid \<Rightarrow> run_failure + Conversation" where
  "pg_conversation db owner scope cid = conversation (journal db) owner scope cid"

definition pg_listed :: "shared_db \<Rightarrow> string \<Rightarrow> string \<Rightarrow> Conversation list" where
  "pg_listed db owner scope =
     map (cw_payload \<circ> pc_row) (sort_key (\<lambda>c. - pc_created_at c)
       (sort_key (\<lambda>c. cw_id (pc_row c)) (filter (\<lambda>c. cw_owner (pc_row c) = owner \<and> cw_scope (pc_row c) = scope) (pg_conversations db))))"

definition pg_read_run :: "shared_db \<Rightarrow> uuid \<Rightarrow> run_failure + RunSnapshot" where
  "pg_read_run db rid = read_run (journal db) rid"

text \<open>\<open>read\<close> and the first lines of \<open>cancel\<close>.\<close>

definition pg_read :: "shared_db \<Rightarrow> string \<Rightarrow> string \<Rightarrow> uuid \<Rightarrow> run_failure + RunSnapshot" where
  "pg_read db owner scope rid =
     (case pg_read_run db rid of Inl e \<Rightarrow> Inl e
      | Inr run \<Rightarrow>
        if map_option (\<lambda>c. (cw_owner (pc_row c), cw_scope (pc_row c)))
             (List.find (\<lambda>c. cw_id (pc_row c) = rq_conversation_id (rs_request run)) (pg_conversations db)) \<noteq> Some (owner, scope)
        then Inl (RunError ''Run is unavailable to this identity and access scope.'' 404)
        else Inr run)"

definition pg_runs_in :: "shared_db \<Rightarrow> string \<Rightarrow> string \<Rightarrow> uuid \<Rightarrow> run_failure + RunSnapshot list" where
  "pg_runs_in db owner scope cid =
     (case pg_conversation db owner scope cid of Inl e \<Rightarrow> Inl e
      | Inr _ \<Rightarrow> Inr (map (rw_payload \<circ> lw_row) (sort_key lw_created_at (sort_key lw_id
                    (filter (\<lambda>r. rw_conversation (lw_row r) = cid) (pg_runs db))))))"

definition existing_row :: "(RunRequest \<Rightarrow> string) \<Rightarrow> shared_db \<Rightarrow> RunRequest \<Rightarrow> run_failure + RunSnapshot option" where
  "existing_row digest db request =
     (case List.find (\<lambda>r. rw_conversation r = rq_conversation_id request \<and> rw_request_id r = rq_client_request_id request)
             (map lw_row (pg_runs db)) of
        None \<Rightarrow> Inr None
      | Some r \<Rightarrow> if rw_request_hash r \<noteq> digest request
          then Inl (RunError ''This request ID already belongs to a different question or revision.'' 409)
          else Inr (Some (rw_payload r)))"

definition pg_existing :: "(RunRequest \<Rightarrow> string) \<Rightarrow> shared_db \<Rightarrow> string \<Rightarrow> string \<Rightarrow> RunRequest \<Rightarrow> run_failure + RunSnapshot option" where
  "pg_existing digest db owner scope request =
     (case pg_conversation db owner scope (rq_conversation_id request) of Inl e \<Rightarrow> Inl e
      | Inr _ \<Rightarrow> existing_row digest db request)"

text \<open>Two transactions: the run is read from \<open>db\<close>, its events from a later state \<open>db'\<close>.\<close>

definition pg_replay :: "shared_db \<Rightarrow> shared_db \<Rightarrow> string \<Rightarrow> string \<Rightarrow> uuid \<Rightarrow> int \<Rightarrow> run_failure + RunEvent list" where
  "pg_replay db db' owner scope rid after =
     (case pg_read db owner scope rid of Inl e \<Rightarrow> Inl e
      | Inr run \<Rightarrow> if after < 0 \<or> rs_sequence run < after
          then Inl (RunError ''Replay cursor is outside this run's event history.'' 409)
          else Inr (map ew_payload (filter (\<lambda>e. after < ew_sequence e) (events_of (journal db') rid))))"

subsection \<open>Accepting, cancelling and deleting\<close>

definition set_row :: "RunSnapshot \<Rightarrow> leased_run \<Rightarrow> leased_run" where
  "set_row run r = (if lw_id r = rs_run_id run
     then r\<lparr>lw_row := (lw_row r)\<lparr>rw_payload := run, rw_status := rs_status run\<rparr>\<rparr> else r)"

definition pg_write :: "instant \<times> instant \<Rightarrow> RunSnapshot \<Rightarrow> string \<Rightarrow> shared_db \<Rightarrow> run_failure + RunSnapshot \<times> shared_db" where
  "pg_write ts run0 event_type db =
     (let run = run0\<lparr>rs_sequence := rs_sequence run0 + 1, rs_updated_at := fst ts\<rparr>;
          event = \<lparr>ev_run_id = rs_run_id run, ev_sequence = rs_sequence run, ev_type = event_type,
                   ev_status = rs_status run, ev_created_at = snd ts, ev_progress = rs_progress run\<rparr>
      in if (rs_run_id run, rs_sequence run) \<in> (\<lambda>e. (ew_run_id e, ew_sequence e)) ` set (pg_events db)
            \<or> rs_run_id run \<notin> lw_id ` set (pg_runs db) then Inl RunIntegrity
         else Inr (run, db\<lparr>pg_runs := map (set_row run) (pg_runs db),
           pg_events := pg_events db @ [\<lparr>ew_run_id = rs_run_id run, ew_sequence = rs_sequence run, ew_payload = event\<rparr>]\<rparr>))"

definition insert_leased :: "(RunRequest \<Rightarrow> string) \<Rightarrow> RunSnapshot \<Rightarrow> string \<Rightarrow> ExecutionGrant \<Rightarrow> instant \<Rightarrow> shared_db
    \<Rightarrow> run_failure + shared_db" where
  "insert_leased digest run binding grant created db =
     (let request = rs_request run; row = \<lparr>rw_id = rs_run_id run, rw_conversation = rq_conversation_id request,
            rw_request_id = rq_client_request_id request, rw_request_hash = digest request, rw_status = rs_status run, rw_payload = run\<rparr>
      in if rs_run_id run \<in> lw_id ` set (pg_runs db)
            \<or> (rq_conversation_id request, rq_client_request_id request)
                \<in> (\<lambda>r. (rw_conversation (lw_row r), rw_request_id (lw_row r))) ` set (pg_runs db)
         then Inl RunIntegrity
         else Inr (db\<lparr>pg_runs := pg_runs db @ [\<lparr>lw_row = row, lw_grant = grant, lw_tenant = ac_tenant_id (eg_access grant),
                lw_binding = binding, lw_expires_at = eg_expires_at grant, lw_created_at = created, lw_fence = None,
                lw_lease_until = None\<rparr>]\<rparr>))"

definition set_conversation :: "Conversation \<Rightarrow> shared_conversation \<Rightarrow> shared_conversation" where
  "set_conversation conv c = (if cw_id (pc_row c) = cn_conversation_id conv then c\<lparr>pc_row := (pc_row c)\<lparr>cw_payload := conv\<rparr>\<rparr> else c)"

definition pg_accept :: "SharedStateSettings \<Rightarrow> (RunRequest \<Rightarrow> string) \<Rightarrow> uuid \<Rightarrow> instant \<times> instant \<Rightarrow> instant \<times> instant \<Rightarrow> instant
    \<Rightarrow> Conversation \<Rightarrow> RunRequest \<Rightarrow> string \<Rightarrow> ExecutionGrant \<Rightarrow> shared_db \<Rightarrow> run_failure + RunSnapshot \<times> shared_db" where
  "pg_accept settings digest rid ts ts' created conv request binding grant db =
     (let cid = rq_conversation_id request; mine = filter (\<lambda>r. rw_conversation (lw_row r) = cid) (pg_runs db) in
      if cn_revision conv \<noteq> rq_expected_revision request
        then Inl (RunError ''Conversation changed. Refresh before submitting another question.'' 409)
      else if list_ex (\<lambda>r. lw_status r \<in> ACTIVE) mine
        then Inl (RunError ''This conversation already has an active question.'' 409)
      else if length mine \<ge> 64 \<or> int (length (filter (\<lambda>r. lw_status r = QUEUED) (pg_runs db))) \<ge> ss_maximum_pending settings
        then Inl (RunError ''Run capacity is occupied. Retry the same request ID later.'' 429)
      else (let run = new_snapshot rid ts request binding;
                conv' = conv\<lparr>cn_revision := cn_revision conv + 1, cn_latest_run_id := Some rid, cn_title := take 80 (rq_question request)\<rparr>;
                db1 = db\<lparr>pg_conversations := map (set_conversation conv') (pg_conversations db)\<rparr>
            in case insert_leased digest run binding grant created db1 of Inl e \<Rightarrow> Inl e
               | Inr db2 \<Rightarrow> pg_write ts' run ''run.accepted'' db2))"

definition pg_enqueue :: "(string list \<Rightarrow> string) \<Rightarrow> (string list list \<Rightarrow> string) \<Rightarrow> SharedStateSettings \<Rightarrow> (RunRequest \<Rightarrow> string)
    \<Rightarrow> uuid \<Rightarrow> instant \<times> instant \<Rightarrow> instant \<times> instant \<Rightarrow> instant \<Rightarrow> instant \<Rightarrow> string \<Rightarrow> string \<Rightarrow> RunRequest \<Rightarrow> string
    \<Rightarrow> ExecutionGrant \<Rightarrow> shared_db \<Rightarrow> run_failure + RunSnapshot \<times> shared_db" where
  "pg_enqueue od sd settings digest rid ts ts' created clock owner scope request binding grant db =
     (if principal od sd ''internal'' (eg_access grant) \<noteq> (owner, scope) \<or> rq_source_fingerprint request \<noteq> None
      then Inl (RunError ''Execution authority or internal source binding is invalid.'' 403)
      else case pg_conversation db owner scope (rq_conversation_id request) of Inl e \<Rightarrow> Inl e
      | Inr conv \<Rightarrow>
        (case existing_row digest db request of Inl e \<Rightarrow> Inl e
         | Inr (Some run) \<Rightarrow> Inr (run, db)
         | Inr None \<Rightarrow>
           if \<not> eg_expires_at grant > clock
           then Inl (RunError ''Execution authority expired. Refresh your signed session.'' 401)
           else pg_accept settings digest rid ts ts' created conv request binding grant db))"

definition pg_cancel :: "instant \<times> instant \<Rightarrow> string \<Rightarrow> string \<Rightarrow> uuid \<Rightarrow> shared_db \<Rightarrow> run_failure + RunSnapshot \<times> shared_db" where
  "pg_cancel ts owner scope rid db =
     (case pg_read db owner scope rid of Inl e \<Rightarrow> Inl e
      | Inr run \<Rightarrow>
        if rs_status run \<notin> TERMINAL \<and> rs_status run \<noteq> CANCELLATION_REQUESTED
        then (let status = (if rs_status run = QUEUED then CANCELLED else CANCELLATION_REQUESTED)
              in pg_write ts (run\<lparr>rs_status := status, rs_message := ''Cancellation requested; no answer will be released.''\<rparr>)
                   (terminal_event status) db)
        else Inr (run, db))"

definition pg_delete :: "string \<Rightarrow> string \<Rightarrow> uuid \<Rightarrow> shared_db \<Rightarrow> run_failure + shared_db" where
  "pg_delete owner scope cid db =
     (case pg_conversation db owner scope cid of Inl e \<Rightarrow> Inl e
      | Inr _ \<Rightarrow>
        if list_ex (\<lambda>r. rw_conversation (lw_row r) = cid \<and> lw_status r \<in> ACTIVE) (pg_runs db)
        then Inl (RunError ''Cancel the active run before deleting its conversation.'' 409)
        else (let gone = lw_id ` set (filter (\<lambda>r. rw_conversation (lw_row r) = cid) (pg_runs db))
              in Inr (db\<lparr>pg_conversations := filter (\<lambda>c. cw_id (pc_row c) \<noteq> cid) (pg_conversations db),
                   pg_runs := filter (\<lambda>r. rw_conversation (lw_row r) \<noteq> cid) (pg_runs db),
                   pg_events := filter (\<lambda>e. ew_run_id e \<notin> gone) (pg_events db)\<rparr>)))"

subsection \<open>Leases\<close>

definition RUNNING_STATES :: "RunStatus set" where
  "RUNNING_STATES = {RUNNING, CANCELLATION_REQUESTED}"

text \<open>A column that is null compares as false.\<close>

definition lease_expired :: "instant \<Rightarrow> leased_run \<Rightarrow> bool" where
  "lease_expired clock r \<longleftrightarrow>
     (lw_status r \<in> RUNNING_STATES \<and> (case lw_lease_until r of None \<Rightarrow> False | Some until \<Rightarrow> until \<le> clock))
     \<or> (lw_status r = QUEUED \<and> lw_expires_at r \<le> clock)"

fun expire_each :: "(uuid \<Rightarrow> instant \<times> instant) \<Rightarrow> RunSnapshot list \<Rightarrow> shared_db \<Rightarrow> run_failure + shared_db" where
  "expire_each ts [] db = Inr db"
| "expire_each ts (run # rest) db =
     (case pg_write (ts (rs_run_id run)) (run\<lparr>rs_status := INTERRUPTED, rs_error_code := Some ''EXECUTION_EXPIRED'',
             rs_message := ''Execution authority or worker lease expired. Review before submitting again.''\<rparr>) ''run.interrupted'' db of
        Inl e \<Rightarrow> Inl e | Inr (_, db') \<Rightarrow> expire_each ts rest db')"

definition running :: "shared_db \<Rightarrow> nat" where
  "running db = length (filter (\<lambda>r. lw_status r \<in> RUNNING_STATES) (pg_runs db))"

definition tenant_running :: "shared_db \<Rightarrow> string \<Rightarrow> nat" where
  "tenant_running db tenant = length (filter (\<lambda>r. lw_tenant r = tenant \<and> lw_status r \<in> RUNNING_STATES) (pg_runs db))"

definition claimable :: "SharedStateSettings \<Rightarrow> string \<Rightarrow> shared_db \<Rightarrow> leased_run list" where
  "claimable settings binding db = sort_key lw_created_at (sort_key lw_id
     (filter (\<lambda>q. lw_status q = QUEUED \<and> lw_binding q = binding
        \<and> int (tenant_running db (lw_tenant q)) < ss_maximum_running_per_tenant settings) (pg_runs db)))"

definition lease_row :: "uuid \<Rightarrow> uuid \<Rightarrow> instant \<Rightarrow> leased_run \<Rightarrow> leased_run" where
  "lease_row rid fence until r = (if lw_id r = rid then r\<lparr>lw_fence := Some fence, lw_lease_until := Some until\<rparr> else r)"

definition lease_end :: "SharedStateSettings \<Rightarrow> instant \<Rightarrow> instant" where
  "lease_end settings clock = clock + ss_lease_seconds settings * 1000000"

text \<open>\<open>claim\<close>: expired runs are interrupted, then the oldest run that fits is started, unless another
  transaction has its row locked.\<close>

definition dispatch :: "SharedStateSettings \<Rightarrow> uuid \<Rightarrow> instant \<times> instant \<Rightarrow> instant \<Rightarrow> leased_run \<Rightarrow> shared_db
    \<Rightarrow> run_failure + ClaimedRun option \<times> shared_db" where
  "dispatch settings fence ts clock r db =
     (let run = rw_payload (lw_row r);
          db1 = db\<lparr>pg_runs := map (lease_row (rs_run_id run) fence (lease_end settings clock)) (pg_runs db)\<rparr>
      in case pg_write ts (run\<lparr>rs_status := RUNNING, rs_message := ''Processing the governed question.''\<rparr>) ''run.started'' db1 of
           Inl e \<Rightarrow> Inl e
         | Inr (run', db') \<Rightarrow> Inr (Some \<lparr>cj_run = run', cj_grant = lw_grant r, cj_fence = fence\<rparr>, db'))"

definition claim :: "SharedStateSettings \<Rightarrow> string \<Rightarrow> uuid list \<Rightarrow> uuid \<Rightarrow> (uuid \<Rightarrow> instant \<times> instant) \<Rightarrow> instant \<Rightarrow> instant \<Rightarrow> shared_db
    \<Rightarrow> run_failure + ClaimedRun option \<times> shared_db" where
  "claim settings binding locked fence ts clock clock' db =
     (case expire_each ts (map (rw_payload \<circ> lw_row) (filter (lease_expired clock) (pg_runs db))) db of
        Inl e \<Rightarrow> Inl e
      | Inr db1 \<Rightarrow>
        if int (running db1) \<ge> ss_maximum_running settings then Inr (None, db1)
        else (case filter (\<lambda>r. lw_id r \<notin> set locked) (claimable settings binding db1) of
                [] \<Rightarrow> Inr (None, db1)
              | r # _ \<Rightarrow> dispatch settings fence (ts (lw_id r)) clock' r db1))"

subsection \<open>Work under a lease\<close>

definition owned_run :: "instant \<Rightarrow> ClaimedRun \<Rightarrow> shared_db \<Rightarrow> run_failure + RunSnapshot" where
  "owned_run clock job db =
     (case List.find (\<lambda>r. lw_id r = rs_run_id (cj_run job) \<and> lw_fence r = Some (cj_fence job)) (pg_runs db) of
        None \<Rightarrow> Inl lease_lost
      | Some r \<Rightarrow>
        if \<not> (case lw_lease_until r of None \<Rightarrow> False | Some until \<Rightarrow> until > clock) then Inl lease_lost
        else if rs_status (rw_payload (lw_row r)) \<notin> RUNNING_STATES then Inl lease_lost
        else Inr (rw_payload (lw_row r)))"

definition authority_left :: "instant \<Rightarrow> uuid \<Rightarrow> shared_db \<Rightarrow> bool" where
  "authority_left clock rid db = list_ex (\<lambda>r. lw_id r = rid \<and> lw_expires_at r > clock) (pg_runs db)"

definition renew_row :: "uuid \<Rightarrow> instant \<Rightarrow> instant \<Rightarrow> leased_run \<Rightarrow> leased_run" where
  "renew_row rid clock until r = (if lw_id r = rid \<and> lw_expires_at r > clock then r\<lparr>lw_lease_until := Some until\<rparr> else r)"

definition heartbeat :: "SharedStateSettings \<Rightarrow> instant \<Rightarrow> instant \<Rightarrow> ClaimedRun \<Rightarrow> shared_db \<Rightarrow> run_failure + bool \<times> shared_db" where
  "heartbeat settings clock clock' job db =
     (case owned_run clock job db of Inl e \<Rightarrow> Inl e
      | Inr run \<Rightarrow>
        if rs_status run = CANCELLATION_REQUESTED then Inr (False, db)
        else Inr (authority_left clock' (rs_run_id run) db,
                  db\<lparr>pg_runs := map (renew_row (rs_run_id run) clock' (lease_end settings clock')) (pg_runs db)\<rparr>))"

definition pg_progress :: "instant \<times> instant \<Rightarrow> instant \<Rightarrow> ClaimedRun \<Rightarrow> AgentRunReport \<Rightarrow> shared_db \<Rightarrow> run_failure + shared_db" where
  "pg_progress ts clock job report db =
     (case owned_run clock job db of Inl e \<Rightarrow> Inl e
      | Inr run \<Rightarrow>
        if rs_status run = CANCELLATION_REQUESTED then Inr db
        else if 60 \<le> rs_sequence run then Inl (RunError ''Progress event budget was reached.'' 409)
        else (case pg_write ts (run\<lparr>rs_progress := Some report\<rparr>) ''agent.progress'' db of
                Inl e \<Rightarrow> Inl e | Inr (_, db') \<Rightarrow> Inr db'))"

definition pg_finish :: "instant \<times> instant \<Rightarrow> instant \<Rightarrow> instant \<Rightarrow> ClaimedRun \<Rightarrow> RunStatus \<Rightarrow> DemoChatResponse option
    \<Rightarrow> string option \<Rightarrow> string \<Rightarrow> shared_db \<Rightarrow> run_failure + RunSnapshot \<times> shared_db" where
  "pg_finish ts clock clock' job status result code message db =
     (if status \<notin> TERMINAL then Inl (RunError ''A terminal run state is required.'' 409)
      else case owned_run clock job db of Inl e \<Rightarrow> Inl e
      | Inr run \<Rightarrow>
        (let (status, result, code, message) =
               (if rs_status run = CANCELLATION_REQUESTED
                then (CANCELLED, None, None, ''Cancellation confirmed; no answer released.'')
                else if \<not> authority_left clock' (rs_run_id run) db
                then (INTERRUPTED, None, Some ''AUTHORITY_EXPIRED'', ''Execution authority expired.'')
                else (status, result, code, message));
             run1 = run\<lparr>rs_status := status, rs_result := result, rs_error_code := code, rs_message := message\<rparr>;
             run2 = (case result of None \<Rightarrow> run1 | Some r \<Rightarrow> run1\<lparr>rs_progress := rp_agent_run r\<rparr>)
         in pg_write ts run2 (terminal_event status) db))"

end
