(* ===== verification/SharedJournal.thy ===== *)
theory SharedJournal
  imports SharedRuns
begin

section \<open>SharedJournal: the invariant of the shared journal\<close>

text \<open>
  What \<open>services/postgres_runs.py\<close> keeps of its tables: on the common columns the invariant of the local
  journal, and on the leases the authority of every run, the claims it was handed out to and the limits.
\<close>

lemma journal_sel [simp]:
  "rd_conversations (journal db) = map pc_row (pg_conversations db)" "rd_runs (journal db) = map lw_row (pg_runs db)"
  "rd_events (journal db) = pg_events db" "rd_checkpoints (journal db) = []"
  by (simp_all add: journal_def)

lemma run_db_eqI:
  "rd_conversations a = rd_conversations b \<Longrightarrow> rd_runs a = rd_runs b \<Longrightarrow> rd_events a = rd_events b
    \<Longrightarrow> rd_checkpoints a = rd_checkpoints b \<Longrightarrow> (a :: run_db) = b"
  by simp

subsection \<open>The two journals write the same\<close>

lemma write_run_keeps:
  "write_run ts run0 e db = Inr (run, j) \<Longrightarrow> run = run0\<lparr>rs_sequence := rs_sequence run0 + 1, rs_updated_at := fst ts\<rparr>
    \<and> rd_conversations j = rd_conversations db \<and> rd_checkpoints j = rd_checkpoints db"
  by (auto simp: write_run_def Let_def split: if_splits)

lemma pg_write_journal:
  assumes "write_run ts run0 e (journal db) = Inr (run, j)"
  shows "\<exists>db'. pg_write ts run0 e db = Inr (run, db') \<and> journal db' = j \<and> pg_runs db' = map (set_row run) (pg_runs db)
    \<and> pg_conversations db' = pg_conversations db"
proof -
  have i: "rw_id ` set (map lw_row (pg_runs db)) = lw_id ` set (pg_runs db)" by (simp add: image_image)
  let ?db = "db\<lparr>pg_runs := map (set_row run) (pg_runs db), pg_events := rd_events j\<rparr>"
  from assms have "pg_write ts run0 e db = Inr (run, ?db)"
    unfolding write_run_def pg_write_def Let_def journal_sel i by (auto split: if_splits)
  moreover have "journal ?db = j"
    using assms unfolding write_run_def Let_def journal_sel i
    by (auto simp: journal_def set_row_def split: if_splits)
  ultimately show ?thesis by auto
qed

lemma insert_leased_journal:
  assumes "insert_leased digest run binding grant created db = Inr db2"
  shows "insert_run digest run (journal db) = Inr (journal db2)"
    "\<exists>r. pg_runs db2 = pg_runs db @ [r] \<and> lw_id r = rs_run_id run \<and> lw_grant r = grant \<and> lw_tenant r = ac_tenant_id (eg_access grant)
      \<and> lw_binding r = binding \<and> lw_expires_at r = eg_expires_at grant \<and> lw_fence r = None \<and> lw_lease_until r = None
      \<and> rw_conversation (lw_row r) = rq_conversation_id (rs_request run) \<and> rw_payload (lw_row r) = run \<and> lw_status r = rs_status run"
    "pg_conversations db2 = pg_conversations db"
proof -
  have "(rq_conversation_id (rs_request run), rq_client_request_id (rs_request run))
      \<notin> (\<lambda>r. (rw_conversation (lw_row r), rw_request_id (lw_row r))) ` set (pg_runs db)
    \<Longrightarrow> rq_client_request_id (rs_request run) \<notin> rw_request_id ` set (runs_of (journal db) (rq_conversation_id (rs_request run)))"
    by (auto simp: runs_of_def image_iff)
  with assms show "insert_run digest run (journal db) = Inr (journal db2)"
    by (auto simp: insert_leased_def insert_run_def Let_def journal_def image_image split: if_splits)
qed (use assms in \<open>auto simp: insert_leased_def Let_def split: if_splits\<close>)

lemma pg_accept_journal:
  assumes "pg_conversation db owner scope (rq_conversation_id request) = Inr conv"
    and "pg_accept settings digest rid ts ts' created conv request binding grant db = Inr (run, db')"
  shows "enqueue digest rid ts ts' owner scope request binding (journal db) = Inr (run, journal db')"
    "\<exists>r. pg_runs db' = map (set_row run) (pg_runs db @ [r]) \<and> lw_id r = rid \<and> lw_grant r = grant
      \<and> lw_tenant r = ac_tenant_id (eg_access grant) \<and> lw_binding r = binding \<and> lw_expires_at r = eg_expires_at grant
      \<and> lw_fence r = None \<and> lw_lease_until r = None \<and> rw_conversation (lw_row r) = rq_conversation_id request"
    "\<exists>conv'. pg_conversations db' = map (set_conversation conv') (pg_conversations db)"
    "int (length (filter (\<lambda>r. lw_status r = QUEUED) (pg_runs db))) < ss_maximum_pending settings"
proof -
  let ?cid = "rq_conversation_id request" and ?run0 = "new_snapshot rid ts request binding"
  define conv' where "conv' = conv\<lparr>cn_revision := cn_revision conv + 1, cn_latest_run_id := Some rid,
    cn_title := take 80 (rq_question request)\<rparr>"
  let ?db1 = "db\<lparr>pg_conversations := map (set_conversation conv') (pg_conversations db)\<rparr>"
  have mine: "length (filter (\<lambda>r. rw_conversation (lw_row r) = ?cid) (pg_runs db)) = length (runs_of (journal db) ?cid)"
    by (simp add: runs_of_def filter_map comp_def)
  have act: "list_ex (\<lambda>r. lw_status r \<in> ACTIVE) (filter (\<lambda>r. rw_conversation (lw_row r) = ?cid) (pg_runs db)) = has_active (journal db) ?cid"
    by (auto simp: has_active_def list_ex_iff)
  from assms(2) obtain db2 where g: "cn_revision conv = rq_expected_revision request" "length (runs_of (journal db) ?cid) < 64"
      "\<not> has_active (journal db) ?cid" "int (length (filter (\<lambda>r. lw_status r = QUEUED) (pg_runs db))) < ss_maximum_pending settings"
    and i: "insert_leased digest ?run0 binding grant created ?db1 = Inr db2"
    and w: "pg_write ts' ?run0 ''run.accepted'' db2 = Inr (run, db')"
    unfolding pg_accept_def Let_def mine act conv'_def by (auto split: sum.splits if_splits)
  show "int (length (filter (\<lambda>r. lw_status r = QUEUED) (pg_runs db))) < ss_maximum_pending settings" by (rule g(4))
  have r0: "rs_run_id ?run0 = rid" "rs_request ?run0 = request" by (simp_all add: new_snapshot_def)
  note ins = insert_leased_journal [OF i, unfolded r0]
  have j1: "journal ?db1 = (journal db)\<lparr>rd_conversations := map (\<lambda>c. if cw_id c = cn_conversation_id conv' then c\<lparr>cw_payload := conv'\<rparr> else c)
      (rd_conversations (journal db))\<rparr>"
    by (simp add: journal_def set_conversation_def)
  have wr: "write_run ts' ?run0 ''run.accepted'' (journal db2) = Inr (run, journal db')"
  proof (cases "write_run ts' ?run0 ''run.accepted'' (journal db2)")
    case (Inl x)
    then have False using w unfolding write_run_def pg_write_def Let_def journal_sel
      by (auto simp: image_image split: if_splits)
    then show ?thesis ..
  next
    case (Inr p)
    obtain run2 j where p: "p = (run2, j)" by fastforce
    from pg_write_journal [OF Inr [unfolded p]] w show ?thesis by (auto simp: Inr p)
  qed
  from assms(1) have c: "conversation (journal db) owner scope ?cid = Inr conv" by (simp add: pg_conversation_def)
  show "enqueue digest rid ts ts' owner scope request binding (journal db) = Inr (run, journal db')"
    using g ins(1) wr unfolding enqueue_def Let_def c sum.case conv'_def [symmetric] j1 by simp
  from pg_write_journal [OF wr] w have d: "pg_runs db' = map (set_row run) (pg_runs db2)" "pg_conversations db' = pg_conversations db2"
    by auto
  from ins(2) d(1) show "\<exists>r. pg_runs db' = map (set_row run) (pg_runs db @ [r]) \<and> lw_id r = rid \<and> lw_grant r = grant
      \<and> lw_tenant r = ac_tenant_id (eg_access grant) \<and> lw_binding r = binding \<and> lw_expires_at r = eg_expires_at grant
      \<and> lw_fence r = None \<and> lw_lease_until r = None \<and> rw_conversation (lw_row r) = ?cid" by auto
  show "\<exists>conv'. pg_conversations db' = map (set_conversation conv') (pg_conversations db)"
    using d(2) ins(3) by auto
qed

lemma pg_delete_journal:
  assumes "pg_delete owner scope cid db = Inr db'"
  shows "delete_conversation owner scope cid (journal db) = Inr (journal db')"
    "pg_runs db' = filter (\<lambda>r. rw_conversation (lw_row r) \<noteq> cid) (pg_runs db)"
    "pg_conversations db' = filter (\<lambda>c. cw_id (pc_row c) \<noteq> cid) (pg_conversations db)"
proof -
  have g: "lw_id ` set (filter (\<lambda>r. rw_conversation (lw_row r) = cid) (pg_runs db)) = rw_id ` set (runs_of (journal db) cid)"
    by (auto simp: runs_of_def)
  have a: "list_ex (\<lambda>r. rw_conversation (lw_row r) = cid \<and> lw_status r \<in> ACTIVE) (pg_runs db) = has_active (journal db) cid"
    by (auto simp: has_active_def list_ex_iff)
  from assms obtain conv where c: "conversation (journal db) owner scope cid = Inr conv" and n: "\<not> has_active (journal db) cid"
    and db': "db' = db\<lparr>pg_conversations := filter (\<lambda>c. cw_id (pc_row c) \<noteq> cid) (pg_conversations db),
      pg_runs := filter (\<lambda>r. rw_conversation (lw_row r) \<noteq> cid) (pg_runs db),
      pg_events := filter (\<lambda>e. ew_run_id e \<notin> rw_id ` set (runs_of (journal db) cid)) (pg_events db)\<rparr>"
    unfolding pg_delete_def pg_conversation_def Let_def a g by (auto split: sum.splits if_splits)
  have "journal db' = drop_conversation cid (journal db)"
    by (intro run_db_eqI) (simp_all add: db' drop_conversation_def filter_map comp_def)
  with c n show "delete_conversation owner scope cid (journal db) = Inr (journal db')" by (simp add: delete_conversation_def)
  show "pg_runs db' = filter (\<lambda>r. rw_conversation (lw_row r) \<noteq> cid) (pg_runs db)"
    "pg_conversations db' = filter (\<lambda>c. cw_id (pc_row c) \<noteq> cid) (pg_conversations db)" by (simp_all add: db')
qed

subsection \<open>The invariant\<close>

abbreviation job_id :: "ClaimedRun \<Rightarrow> uuid" where "job_id j \<equiv> rs_run_id (cj_run j)"

text \<open>A run is executed with the authority its own conversation's owner gave it.\<close>

definition authority_ok :: "(string list \<Rightarrow> string) \<Rightarrow> (string list list \<Rightarrow> string) \<Rightarrow> shared_conversation list \<Rightarrow> leased_run \<Rightarrow> bool" where
  "authority_ok od sd cs r \<longleftrightarrow> lw_tenant r = ac_tenant_id (eg_access (lw_grant r)) \<and> lw_expires_at r = eg_expires_at (lw_grant r)
     \<and> lw_binding r = rs_source_binding (rw_payload (lw_row r)) \<and> rq_source_fingerprint (rs_request (rw_payload (lw_row r))) = None
     \<and> (\<exists>c\<in>set cs. cw_id (pc_row c) = rw_conversation (lw_row r)
          \<and> principal od sd ''internal'' (eg_access (lw_grant r)) = (cw_owner (pc_row c), cw_scope (pc_row c)))"

definition dispatch_ok :: "ClaimedRun list \<Rightarrow> leased_run \<Rightarrow> bool" where
  "dispatch_ok claims r \<longleftrightarrow>
     (\<forall>j\<in>set claims. job_id j = lw_id r \<longrightarrow> lw_fence r = Some (cj_fence j) \<and> cj_grant j = lw_grant r \<and> lw_lease_until r \<noteq> None
        \<and> rs_request (cj_run j) = rs_request (rw_payload (lw_row r)))
     \<and> (lw_status r = QUEUED \<longrightarrow> lw_id r \<notin> job_id ` set claims) \<and> (lw_status r \<in> RUNNING_STATES \<longrightarrow> lw_id r \<in> job_id ` set claims)"

definition queued :: "shared_db \<Rightarrow> nat" where
  "queued db = length (filter (\<lambda>r. lw_status r = QUEUED) (pg_runs db))"

definition within_limits :: "SharedStateSettings \<Rightarrow> shared_db \<Rightarrow> bool" where
  "within_limits settings db \<longleftrightarrow> int (running db) \<le> ss_maximum_running settings
     \<and> (\<forall>tenant. int (tenant_running db tenant) \<le> ss_maximum_running_per_tenant settings)
     \<and> int (queued db) \<le> ss_maximum_pending settings \<and> capacity_ok (nat (ss_maximum_conversations settings)) (journal db)"

definition shared_ok :: "(RunRequest \<Rightarrow> string) \<Rightarrow> (string list \<Rightarrow> string) \<Rightarrow> (string list list \<Rightarrow> string) \<Rightarrow> SharedStateSettings
    \<Rightarrow> ClaimedRun list \<Rightarrow> shared_db \<Rightarrow> bool" where
  "shared_ok digest od sd settings claims db \<longleftrightarrow> journal_ok digest (journal db) \<and> within_limits settings db
     \<and> (\<forall>r\<in>set (pg_runs db). authority_ok od sd (pg_conversations db) r \<and> dispatch_ok claims r) \<and> distinct (map job_id claims)"

lemma row_of_shared:
  assumes "journal_ok digest (journal db)" "r \<in> set (pg_runs db)"
  shows "pg_read_run db (lw_id r) = Inr (rw_payload (lw_row r))" "lw_status r = rs_status (rw_payload (lw_row r))"
    "rs_run_id (rw_payload (lw_row r)) = lw_id r" "rq_conversation_id (rs_request (rw_payload (lw_row r))) = rw_conversation (lw_row r)"
proof -
  from assms have t: "tables_ok digest (journal db)" "lw_row r \<in> set (rd_runs (journal db))" by (auto simp: journal_ok_def)
  from read_run_row [OF this] show "pg_read_run db (lw_id r) = Inr (rw_payload (lw_row r))" by (simp add: pg_read_run_def)
  from assms t have "settled (journal db) (lw_row r)" "history_ok_of digest (journal db) (lw_row r)"
    by (auto simp: journal_ok_def tables_ok_def)
  then show "lw_status r = rs_status (rw_payload (lw_row r))" "rs_run_id (rw_payload (lw_row r)) = lw_id r"
    "rq_conversation_id (rs_request (rw_payload (lw_row r))) = rw_conversation (lw_row r)"
    by (simp_all add: settled_def history_ok_of_def Let_def)
qed

lemma shared_ids_distinct: "journal_ok digest (journal db) \<Longrightarrow> distinct (map lw_id (pg_runs db))"
  using run_ids_distinct [of digest "journal db"] by (simp add: journal_ok_def comp_def)

lemma pg_read_run_row:
  assumes "journal_ok digest (journal db)" "pg_read_run db rid = Inr a"
  obtains r where "r \<in> set (pg_runs db)" "lw_id r = rid" "rw_payload (lw_row r) = a" "lw_status r = rs_status a" "rs_run_id a = rid"
proof -
  from read_run_cases [OF assms(2) [unfolded pg_read_run_def]] obtain r where r: "r \<in> set (pg_runs db)" "lw_id r = rid"
    "rw_payload (lw_row r) = a" by auto
  with row_of_shared [OF assms(1) r(1)] that show thesis by auto
qed

lemma filter_map_le:
  assumes "\<And>r. r \<in> set xs \<Longrightarrow> P (u r) \<Longrightarrow> P r"
  shows "length (filter P (map u xs)) \<le> length (filter P xs)"
  using assms by (induction xs) (auto intro: le_SucI)

lemma filter_map_one:
  assumes "distinct (map key xs)"
  shows "length (filter P (map (\<lambda>r. if key r = k then f r else r) xs)) \<le> Suc (length (filter P xs))"
  using assms
proof (induction xs)
  case (Cons x xs)
  show ?case
  proof (cases "key x = k")
    case True
    with Cons.prems have "\<forall>r\<in>set xs. key r \<noteq> k" by (auto simp: image_iff)
    then have "map (\<lambda>r. if key r = k then f r else r) xs = xs" by (intro map_idI) simp
    with True show ?thesis by simp
  next
    case False
    with Cons show ?thesis by auto
  qed
qed simp

lemma set_row_simps [simp]:
  "lw_id (set_row run r) = lw_id r" "lw_grant (set_row run r) = lw_grant r" "lw_tenant (set_row run r) = lw_tenant r"
  "lw_binding (set_row run r) = lw_binding r" "lw_expires_at (set_row run r) = lw_expires_at r"
  "lw_fence (set_row run r) = lw_fence r" "lw_lease_until (set_row run r) = lw_lease_until r"
  "rw_conversation (lw_row (set_row run r)) = rw_conversation (lw_row r)"
  "lw_id r \<noteq> rs_run_id run \<Longrightarrow> set_row run r = r"
  "lw_id r = rs_run_id run \<Longrightarrow> rw_payload (lw_row (set_row run r)) = run"
  "lw_id r = rs_run_id run \<Longrightarrow> lw_status (set_row run r) = rs_status run"
  by (simp_all add: set_row_def)

lemma moved_not_queued: "moved a b \<Longrightarrow> rs_status b \<noteq> QUEUED"
  by (auto simp: moved_def transitions_def TERMINAL_def)

lemma pg_write_moves:
  assumes j: "journal_ok digest (journal db)" and a: "pg_read_run db rid = Inr a"
    and m: "moved a (run1\<lparr>rs_sequence := rs_sequence run1 + 1\<rparr>)"
    and p: "rs_status a = RUNNING \<Longrightarrow> rs_status run1 = RUNNING \<Longrightarrow> rs_sequence a < 60"
  shows "\<exists>run db'. pg_write ts run1 e db = Inr (run, db') \<and> run = run1\<lparr>rs_sequence := rs_sequence run1 + 1, rs_updated_at := fst ts\<rparr>
    \<and> one_write digest (journal db) rid (Inr (run, journal db')) \<and> pg_runs db' = map (set_row run) (pg_runs db)
    \<and> pg_conversations db' = pg_conversations db"
proof -
  have w: "one_write digest (journal db) rid (write_run ts run1 e (journal db))"
    by (rule write_moves [OF j a [unfolded pg_read_run_def] m p])
  show ?thesis
  proof (cases "write_run ts run1 e (journal db)")
    case (Inl x)
    with w write_run_error [OF Inl] show ?thesis by (simp add: one_write_def)
  next
    case (Inr q)
    obtain run jdb where q: "q = (run, jdb)" by fastforce
    from pg_write_journal [OF Inr [unfolded q]] write_run_keeps [OF Inr [unfolded q]] w show ?thesis
      unfolding Inr q by blast
  qed
qed

lemma one_write_ok: "one_write digest db rid (Inr (run, db')) \<Longrightarrow> journal_ok digest db \<Longrightarrow> journal_ok digest db'"
  by (auto simp: one_write_def)

lemma within_limits_mono:
  assumes "within_limits settings db" "running db' \<le> running db" "\<And>tn. tenant_running db' tn \<le> tenant_running db tn"
    "queued db' \<le> queued db" "owners (journal db') = owners (journal db)"
  shows "within_limits settings db'"
proof -
  have "int (tenant_running db' tn) \<le> ss_maximum_running_per_tenant settings" for tn
  proof -
    have "int (tenant_running db tn) \<le> ss_maximum_running_per_tenant settings" using assms(1) by (simp add: within_limits_def)
    with assms(3) [of tn] show ?thesis by linarith
  qed
  with assms(1,2,4,5) show ?thesis by (simp add: within_limits_def capacity_ok_def)
qed

lemma shared_move:
  assumes ok: "shared_ok digest od sd settings claims db" and a: "pg_read_run db rid = Inr a"
    and m: "moved a (run1\<lparr>rs_sequence := rs_sequence run1 + 1\<rparr>)"
    and p: "rs_status a = RUNNING \<Longrightarrow> rs_status run1 = RUNNING \<Longrightarrow> rs_sequence a < 60"
    and nr: "rs_status run1 \<in> RUNNING_STATES \<Longrightarrow> rs_status a \<in> RUNNING_STATES"
  shows "\<exists>run db'. pg_write ts run1 e db = Inr (run, db') \<and> run = run1\<lparr>rs_sequence := rs_sequence run1 + 1, rs_updated_at := fst ts\<rparr>
    \<and> shared_ok digest od sd settings claims db' \<and> one_write digest (journal db) rid (Inr (run, journal db'))
    \<and> pg_runs db' = map (set_row run) (pg_runs db) \<and> pg_conversations db' = pg_conversations db"
proof -
  from ok have j: "journal_ok digest (journal db)" by (simp add: shared_ok_def)
  from pg_write_moves [OF j a m p, of ts e] obtain run db' where w: "pg_write ts run1 e db = Inr (run, db')"
    and run: "run = run1\<lparr>rs_sequence := rs_sequence run1 + 1, rs_updated_at := fst ts\<rparr>"
    and one: "one_write digest (journal db) rid (Inr (run, journal db'))"
    and rows: "pg_runs db' = map (set_row run) (pg_runs db)" and conv: "pg_conversations db' = pg_conversations db" by blast
  have st: "rs_status run = rs_status run1" "rs_source_binding run = rs_source_binding a" "rs_request run = rs_request a"
    and id: "rs_run_id run = rid" and nq: "rs_status run \<noteq> QUEUED"
  proof -
    show "rs_status run = rs_status run1" "rs_source_binding run = rs_source_binding a" "rs_request run = rs_request a"
      using m by (simp_all add: run moved_def)
    obtain r where "rs_run_id a = rid" by (rule pg_read_run_row [OF j a])
    with m show "rs_run_id run = rid" by (simp add: run moved_def)
    from moved_not_queued [OF m] show "rs_status run \<noteq> QUEUED" by (simp add: run)
  qed
  have mine: "rw_payload (lw_row r) = a \<and> lw_status r = rs_status a" if "r \<in> set (pg_runs db)" "lw_id r = rid" for r
    using row_of_shared [OF j that(1)] a that(2) by simp
  have run_st: "lw_status r \<in> RUNNING_STATES" if "r \<in> set (pg_runs db)" "lw_status (set_row run r) \<in> RUNNING_STATES" for r
    using that mine [OF that(1)] nr st(1) id by (cases "lw_id r = rid") auto
  have q_st: "lw_status r = QUEUED" if "r \<in> set (pg_runs db)" "lw_status (set_row run r) = QUEUED" for r
    using that nq id by (cases "lw_id r = rid") auto
  have "within_limits settings db'"
  proof (rule within_limits_mono)
    show "within_limits settings db" using ok by (simp add: shared_ok_def)
    show "running db' \<le> running db" unfolding running_def rows using run_st by (intro filter_map_le)
    show "tenant_running db' tn \<le> tenant_running db tn" for tn
      unfolding tenant_running_def rows using run_st by (intro filter_map_le) auto
    show "queued db' \<le> queued db" unfolding queued_def rows using q_st by (intro filter_map_le)
    show "owners (journal db') = owners (journal db)" by (rule one_write_owners [OF one])
  qed
  moreover have "authority_ok od sd (pg_conversations db') (set_row run r) \<and> dispatch_ok claims (set_row run r)"
    if r: "r \<in> set (pg_runs db)" for r
  proof (cases "lw_id r = rid")
    case True
    from ok r have "authority_ok od sd (pg_conversations db) r" "dispatch_ok claims r" by (simp_all add: shared_ok_def)
    with mine [OF r True] True st id nq nr show ?thesis by (auto simp: authority_ok_def dispatch_ok_def conv)
  next
    case False
    with ok r id conv show ?thesis by (simp add: shared_ok_def)
  qed
  moreover have "journal_ok digest (journal db')" by (rule one_write_ok [OF one j])
  ultimately have "shared_ok digest od sd settings claims db'" using ok by (auto simp: shared_ok_def rows)
  with w run one rows conv show ?thesis by blast
qed

end
