(* ===== verification/SharedLeases.thy ===== *)
theory SharedLeases
  imports SharedJournal
begin

section \<open>SharedLeases: what each transaction of the shared journal keeps\<close>

text \<open>
  The transactions of \<open>services/postgres_runs.py\<close> one by one: each keeps the invariant, and on the common
  columns it is a sequence of moves of the local journal.
\<close>

definition keeps_shared :: "(RunRequest \<Rightarrow> string) \<Rightarrow> (string list \<Rightarrow> string) \<Rightarrow> (string list list \<Rightarrow> string) \<Rightarrow> SharedStateSettings
    \<Rightarrow> ClaimedRun list \<Rightarrow> shared_db \<Rightarrow> ClaimedRun list \<Rightarrow> shared_db \<Rightarrow> bool" where
  "keeps_shared digest od sd settings claims db claims' db' \<longleftrightarrow> shared_ok digest od sd settings claims' db'
     \<and> steps_to digest (journal db) (journal db')"

lemma keeps_same: "shared_ok digest od sd settings claims db \<Longrightarrow> keeps_shared digest od sd settings claims db claims db"
  by (auto simp: keeps_shared_def shared_ok_def steps_to_def)

lemma keeps_trans:
  assumes "keeps_shared digest od sd settings c1 db1 c2 db2" "keeps_shared digest od sd settings c2 db2 c3 db3"
    and "keys (journal db2) = keys (journal db1)"
  shows "keeps_shared digest od sd settings c1 db1 c3 db3"
proof -
  have "moved\<^sup>*\<^sup>* a c" if a: "read_run (journal db1) i = Inr a" and c: "read_run (journal db3) i = Inr c" for i a c
  proof -
    have ids: "map rw_id (rd_runs jdb) = map fst (keys jdb)" for jdb by (simp add: keys_def comp_def)
    from read_run_cases [OF a] have "i \<in> set (map rw_id (rd_runs (journal db1)))" by auto
    then have "i \<in> set (map rw_id (rd_runs (journal db2)))" unfolding ids assms(3) .
    then obtain r where "r \<in> set (rd_runs (journal db2))" "rw_id r = i" by auto
    moreover from assms(1) have "tables_ok digest (journal db2)" by (simp add: keeps_shared_def shared_ok_def journal_ok_def)
    ultimately have "read_run (journal db2) i = Inr (rw_payload r)" using read_run_row by blast
    with assms(1,2) a c show ?thesis unfolding keeps_shared_def steps_to_def by (meson rtranclp_trans)
  qed
  with assms(2) show ?thesis unfolding keeps_shared_def steps_to_def by blast
qed

lemma move_keeps:
  assumes "shared_ok digest od sd settings claims db" "shared_ok digest od sd settings claims' db'"
    "one_write digest (journal db) rid (Inr (run, journal db'))"
  shows "keeps_shared digest od sd settings claims db claims' db'"
  using one_write_steps [OF assms(3)] assms(1,2) by (simp add: keeps_shared_def shared_ok_def)

subsection \<open>Conversations\<close>

lemma pg_create_keeps:
  assumes ok: "shared_ok digest od sd settings claims db"
    and c: "pg_create_conversation settings owner scope cid now created db = Inr (c, db')"
  shows "keeps_shared digest od sd settings claims db claims db'"
proof -
  let ?row = "\<lparr>cw_id = cid, cw_owner = owner, cw_scope = scope, cw_payload = c\<rparr>"
  from c have v: "cn_conversation_id c = cid" "cn_revision c = 0" "cn_latest_run_id c = None"
    and db': "db' = db\<lparr>pg_conversations := pg_conversations db @ [\<lparr>pc_row = ?row, pc_created_at = created\<rparr>]\<rparr>"
    and room: "int (length (pg_conversations db)) < ss_maximum_conversations settings"
      "length (filter (\<lambda>c. cw_owner (pc_row c) = owner) (pg_conversations db)) < 16"
    and new: "cid \<notin> (\<lambda>c. cw_id (pc_row c)) ` set (pg_conversations db)"
    by (auto simp: pg_create_conversation_def Let_def split: if_splits)
  have n: "cw_id ?row \<notin> cw_id ` set (rd_conversations (journal db))" using new by (simp add: image_image)
  have j': "journal db' = (journal db)\<lparr>rd_conversations := rd_conversations (journal db) @ [?row]\<rparr>"
    by (simp add: db' journal_def)
  from ok have j: "journal_ok digest (journal db)" by (simp add: shared_ok_def)
  from new_conversation_ok [OF j n _ _ _ j'] v have x: "journal_ok digest (journal db')" "read_run (journal db') = read_run (journal db)"
    by simp_all
  have o: "owners (journal db') = owners (journal db) @ [owner]" by (simp add: owners_def j')
  have "count_list (owners (journal db)) owner < 16"
    using room(2) by (simp add: owners_def count_list_filter comp_def)
  moreover have "Suc (length (owners (journal db))) \<le> nat (ss_maximum_conversations settings)"
    using room(1) by (simp add: owners_def)
  ultimately have "capacity_ok (nat (ss_maximum_conversations settings)) (journal db')"
    using ok by (auto simp: shared_ok_def within_limits_def capacity_ok_def o)
  then have "within_limits settings db'"
    using ok by (simp add: shared_ok_def within_limits_def running_def tenant_running_def queued_def db')
  moreover have "authority_ok od sd (pg_conversations db) r \<Longrightarrow> authority_ok od sd (pg_conversations db') r" for r
    by (auto simp: authority_ok_def db')
  ultimately have "shared_ok digest od sd settings claims db'" using ok x(1) by (auto simp: shared_ok_def db')
  with x show ?thesis by (simp add: keeps_shared_def steps_to_same)
qed

lemma pg_delete_keeps:
  assumes ok: "shared_ok digest od sd settings claims db" and d: "pg_delete owner scope cid db = Inr db'"
  shows "keeps_shared digest od sd settings claims db claims db'"
proof -
  note del = pg_delete_journal [OF d]
  from ok have j: "journal_ok digest (journal db)" by (simp add: shared_ok_def)
  from del(1) have drop: "journal db' = drop_conversation cid (journal db)"
    by (auto simp: delete_conversation_def split: sum.splits if_splits)
  have "within_limits settings db'"
  proof -
    have "int (tenant_running db' tn) \<le> ss_maximum_running_per_tenant settings" for tn
    proof -
      have "tenant_running db' tn \<le> tenant_running db tn"
        unfolding tenant_running_def del(2) by (rule length_filter_filter)
      moreover have "int (tenant_running db tn) \<le> ss_maximum_running_per_tenant settings"
        using ok by (simp add: shared_ok_def within_limits_def)
      ultimately show ?thesis by linarith
    qed
    moreover have "running db' \<le> running db" unfolding running_def del(2) by (rule length_filter_filter)
    moreover have "queued db' \<le> queued db" unfolding queued_def del(2) by (rule length_filter_filter)
    moreover have "capacity_ok (nat (ss_maximum_conversations settings)) (journal db')"
      unfolding drop using ok by (intro drop_capacity) (simp add: shared_ok_def within_limits_def)
    ultimately show ?thesis using ok by (auto simp: shared_ok_def within_limits_def)
  qed
  moreover have "authority_ok od sd (pg_conversations db') r \<and> dispatch_ok claims r" if "r \<in> set (pg_runs db')" for r
  proof -
    from that have r: "r \<in> set (pg_runs db)" "rw_conversation (lw_row r) \<noteq> cid" unfolding del(2) by auto
    with ok have a: "authority_ok od sd (pg_conversations db) r" and dd: "dispatch_ok claims r" by (auto simp: shared_ok_def)
    from a r(2) have "\<exists>c\<in>set (pg_conversations db'). cw_id (pc_row c) = rw_conversation (lw_row r)
        \<and> principal od sd ''internal'' (eg_access (lw_grant r)) = (cw_owner (pc_row c), cw_scope (pc_row c))"
      unfolding del(3) authority_ok_def by auto
    with a dd show ?thesis unfolding authority_ok_def by blast
  qed
  moreover have "journal_ok digest (journal db')" unfolding drop by (rule drop_conversation_ok [OF j])
  ultimately have "shared_ok digest od sd settings claims db'" using ok by (auto simp: shared_ok_def)
  with drop_steps [OF j] show ?thesis by (simp add: keeps_shared_def drop)
qed

subsection \<open>Accepting and cancelling\<close>

lemma set_conversation_simps [simp]:
  "cw_id (pc_row (set_conversation conv c)) = cw_id (pc_row c)" "cw_owner (pc_row (set_conversation conv c)) = cw_owner (pc_row c)"
  "cw_scope (pc_row (set_conversation conv c)) = cw_scope (pc_row c)"
  by (simp_all add: set_conversation_def)

lemma pg_accept_keeps:
  assumes ok: "shared_ok digest od sd settings claims db"
    and who: "principal od sd ''internal'' (eg_access grant) = (owner, scope)" "rq_source_fingerprint request = None"
    and conv: "pg_conversation db owner scope (rq_conversation_id request) = Inr conv"
    and e: "pg_accept settings digest rid ts ts' created conv request binding grant db = Inr (run, db')"
    and new: "rid \<notin> job_id ` set claims"
  shows "keeps_shared digest od sd settings claims db claims db'"
proof -
  note acc = pg_accept_journal [OF conv e]
  from ok have j: "journal_ok digest (journal db)" by (simp add: shared_ok_def)
  note enq = enqueue_ok [OF j acc(1)]
  obtain q where q: "rs_run_id run = rid" by (rule row_of_read [OF enq(1,2)])
  from acc(2) obtain r where rows: "pg_runs db' = map (set_row run) (pg_runs db @ [r])" and r: "lw_id r = rid" "lw_grant r = grant"
    "lw_tenant r = ac_tenant_id (eg_access grant)" "lw_binding r = binding" "lw_expires_at r = eg_expires_at grant"
    "rw_conversation (lw_row r) = rq_conversation_id request" by blast
  have "lw_id p \<noteq> rid" if "p \<in> set (pg_runs db)" for p
    using row_of_shared(1) [OF j that] enq(4) by (auto simp: pg_read_run_def)
  then have "map (set_row run) (pg_runs db) = pg_runs db" by (intro map_idI) (simp add: q)
  with rows have rows': "pg_runs db' = pg_runs db @ [set_row run r]" by simp
  have st: "lw_status (set_row run r) = QUEUED" "rw_payload (lw_row (set_row run r)) = run"
    using r(1) q enq(5) by simp_all
  from acc(3) obtain conv' where convs: "pg_conversations db' = map (set_conversation conv') (pg_conversations db)" by blast
  have "within_limits settings db'"
  proof -
    have "running db' = running db" "tenant_running db' tn = tenant_running db tn" "queued db' = Suc (queued db)" for tn
      by (simp_all add: running_def tenant_running_def queued_def rows' st RUNNING_STATES_def)
    moreover have "int (Suc (queued db)) \<le> ss_maximum_pending settings" using acc(4) by (simp add: queued_def)
    ultimately show ?thesis using ok enq(10) by (simp add: shared_ok_def within_limits_def capacity_ok_def)
  qed
  moreover have "authority_ok od sd (pg_conversations db') p \<and> dispatch_ok claims p" if p: "p \<in> set (pg_runs db)" for p
    using ok p by (auto simp: shared_ok_def authority_ok_def convs)
  moreover have "authority_ok od sd (pg_conversations db') (set_row run r) \<and> dispatch_ok claims (set_row run r)"
  proof -
    from conv obtain c where "c \<in> set (pg_conversations db)" "cw_id (pc_row c) = rq_conversation_id request"
      "cw_owner (pc_row c) = owner" "cw_scope (pc_row c) = scope"
      by (auto simp: pg_conversation_def conversation_def dest!: find_key_Some split: option.splits if_splits)
    then have "\<exists>c\<in>set (pg_conversations db'). cw_id (pc_row c) = rq_conversation_id request
        \<and> (cw_owner (pc_row c), cw_scope (pc_row c)) = (owner, scope)" by (force simp: convs)
    then have "authority_ok od sd (pg_conversations db') (set_row run r)"
      using who r st enq(6,7) by (auto simp: authority_ok_def)
    moreover have "dispatch_ok claims (set_row run r)"
    proof -
      have "\<forall>j\<in>set claims. job_id j \<noteq> rid" using new by (auto simp: image_iff)
      with new r(1) st show ?thesis by (simp add: dispatch_ok_def RUNNING_STATES_def)
    qed
    ultimately show ?thesis by blast
  qed
  ultimately have "shared_ok digest od sd settings claims db'" using ok enq(1) by (auto simp: shared_ok_def rows')
  with run_step_steps [OF run_step.enqueue [OF acc(1)] j] show ?thesis by (simp add: keeps_shared_def)
qed

lemma pg_enqueue_keeps:
  assumes ok: "shared_ok digest od sd settings claims db" and new: "rid \<notin> job_id ` set claims"
    and e: "pg_enqueue od sd settings digest rid ts ts' created clock owner scope request binding grant db = Inr (run, db')"
  shows "keeps_shared digest od sd settings claims db claims db'"
proof -
  from e have who: "principal od sd ''internal'' (eg_access grant) = (owner, scope)" "rq_source_fingerprint request = None"
    by (auto simp: pg_enqueue_def split: if_splits)
  from e obtain conv where conv: "pg_conversation db owner scope (rq_conversation_id request) = Inr conv"
    by (cases "pg_conversation db owner scope (rq_conversation_id request)") (auto simp: pg_enqueue_def split: if_splits)
  from e have "db' = db \<or> pg_accept settings digest rid ts ts' created conv request binding grant db = Inr (run, db')"
    unfolding pg_enqueue_def conv sum.case
    by (cases "existing_row digest db request") (auto split: option.splits if_splits)
  with pg_accept_keeps [OF ok who conv _ new] keeps_same [OF ok] show ?thesis by blast
qed

lemma pg_read_Inr: "pg_read db owner scope rid = Inr run \<Longrightarrow> pg_read_run db rid = Inr run"
  by (auto simp: pg_read_def split: sum.splits if_splits)

lemma pg_read_error: "pg_read db owner scope rid = Inl e \<Longrightarrow> e \<noteq> RunIntegrity"
  by (auto simp: pg_read_def pg_read_run_def dest: read_run_error split: sum.splits if_splits)

lemma active_no_result:
  assumes "journal_ok digest (journal db)" "pg_read_run db rid = Inr a" "rs_status a \<notin> TERMINAL"
  shows "rs_result a = None"
  using result_terminal [OF assms(1) assms(2) [unfolded pg_read_run_def]] assms(3) by blast

text \<open>What an operation on one run may do.\<close>

definition shared_write :: "(RunRequest \<Rightarrow> string) \<Rightarrow> (string list \<Rightarrow> string) \<Rightarrow> (string list list \<Rightarrow> string) \<Rightarrow> SharedStateSettings
    \<Rightarrow> ClaimedRun list \<Rightarrow> shared_db \<Rightarrow> uuid \<Rightarrow> run_failure + RunSnapshot \<times> shared_db \<Rightarrow> bool" where
  "shared_write digest od sd settings claims db rid out \<longleftrightarrow> (case out of Inl e \<Rightarrow> e \<noteq> RunIntegrity
     | Inr (run, db') \<Rightarrow> shared_ok digest od sd settings claims db' \<and> one_write digest (journal db) rid (Inr (run, journal db'))
         \<and> (db' = db \<or> (\<exists>a. pg_read_run db rid = Inr a \<and> moved a run)))"

lemma shared_write_same:
  "shared_ok digest od sd settings claims db \<Longrightarrow> pg_read_run db rid = Inr run
    \<Longrightarrow> shared_write digest od sd settings claims db rid (Inr (run, db))"
  by (simp add: shared_write_def pg_read_run_def one_write_same)

lemma shared_write_keeps:
  "shared_write digest od sd settings claims db rid (Inr (run, db')) \<Longrightarrow> shared_ok digest od sd settings claims db
    \<Longrightarrow> keeps_shared digest od sd settings claims db claims db'"
  using move_keeps by (auto simp: shared_write_def)

lemma shared_move_writes:
  assumes "shared_ok digest od sd settings claims db" "pg_read_run db rid = Inr a"
    and "moved a (run1\<lparr>rs_sequence := rs_sequence run1 + 1\<rparr>)"
    and "rs_status a = RUNNING \<Longrightarrow> rs_status run1 = RUNNING \<Longrightarrow> rs_sequence a < 60"
    and "rs_status run1 \<in> RUNNING_STATES \<Longrightarrow> rs_status a \<in> RUNNING_STATES"
  shows "shared_write digest od sd settings claims db rid (pg_write ts run1 e db)"
proof -
  from shared_move [OF assms, of ts e] obtain run db' where w: "pg_write ts run1 e db = Inr (run, db')"
    "run = run1\<lparr>rs_sequence := rs_sequence run1 + 1, rs_updated_at := fst ts\<rparr>"
    "shared_ok digest od sd settings claims db'" "one_write digest (journal db) rid (Inr (run, journal db'))" by blast
  moreover have "moved a run" using assms(3) by (simp add: w(2) moved_def)
  ultimately show ?thesis using assms(2) by (auto simp: shared_write_def)
qed

lemma pg_cancel_writes:
  assumes ok: "shared_ok digest od sd settings claims db"
  shows "shared_write digest od sd settings claims db rid (pg_cancel ts owner scope rid db)"
proof (cases "pg_read db owner scope rid")
  case (Inl e)
  with pg_read_error [OF Inl] show ?thesis by (simp add: pg_cancel_def shared_write_def)
next
  case (Inr a)
  note a = pg_read_Inr [OF Inr]
  show ?thesis
  proof (cases "rs_status a \<notin> TERMINAL \<and> rs_status a \<noteq> CANCELLATION_REQUESTED")
    case True
    let ?s = "if rs_status a = QUEUED then CANCELLED else CANCELLATION_REQUESTED"
    let ?run = "a\<lparr>rs_status := ?s, rs_message := ''Cancellation requested; no answer will be released.''\<rparr>"
    from ok have "journal_ok digest (journal db)" by (simp add: shared_ok_def)
    from active_no_result [OF this a] True have "rs_result a = None" by blast
    then have "moved a (?run\<lparr>rs_sequence := rs_sequence ?run + 1\<rparr>)" using True
      by (cases "rs_status a") (simp_all add: moved_def transitions_def TERMINAL_def)
    then have "shared_write digest od sd settings claims db rid (pg_write ts ?run (terminal_event ?s) db)"
      using True by (intro shared_move_writes [OF ok a]) (auto simp: RUNNING_STATES_def TERMINAL_def split: if_splits, cases "rs_status a", auto)
    with True Inr show ?thesis by (simp add: pg_cancel_def Let_def)
  next
    case False
    with Inr shared_write_same [OF ok a] show ?thesis by (auto simp: pg_cancel_def)
  qed
qed

subsection \<open>Work under a lease\<close>

definition lease_open :: "instant \<Rightarrow> leased_run \<Rightarrow> bool" where
  "lease_open clock r \<longleftrightarrow> (\<exists>until. lw_lease_until r = Some until \<and> clock < until)"

lemma owned_run_row:
  assumes j: "journal_ok digest (journal db)" and o: "owned_run clock job db = Inr run"
  obtains r where "r \<in> set (pg_runs db)" "lw_id r = job_id job" "lw_fence r = Some (cj_fence job)" "rw_payload (lw_row r) = run"
    "lw_status r = rs_status run" "lease_open clock r" "rs_status run \<in> RUNNING_STATES" "pg_read_run db (job_id job) = Inr run"
    "rs_run_id run = job_id job"
proof -
  obtain r where f: "List.find (\<lambda>r. lw_id r = job_id job \<and> lw_fence r = Some (cj_fence job)) (pg_runs db) = Some r"
    using o by (cases "List.find (\<lambda>r. lw_id r = job_id job \<and> lw_fence r = Some (cj_fence job)) (pg_runs db)") (auto simp: owned_run_def)
  from o [unfolded owned_run_def f option.case] have l: "case lw_lease_until r of None \<Rightarrow> False | Some until \<Rightarrow> until > clock"
    and s: "rs_status (rw_payload (lw_row r)) \<in> RUNNING_STATES" and run: "rw_payload (lw_row r) = run"
    by (auto split: if_splits)
  from f have r: "r \<in> set (pg_runs db)" "lw_id r = job_id job" "lw_fence r = Some (cj_fence job)" by (auto simp: find_Some_iff)
  from l have "lease_open clock r" by (simp add: lease_open_def split: option.splits)
  note rows = row_of_shared [OF j r(1), unfolded run r(2)]
  show thesis by (rule that [OF r(1,2,3) run rows(2) \<open>lease_open clock r\<close> s [unfolded run] rows(1,3)])
qed

lemma owned_run_error: "owned_run clock job db = Inl e \<Longrightarrow> e = lease_lost"
  by (auto simp: owned_run_def split: option.splits if_splits)

lemma lease_lost_is_error [simp]: "lease_lost \<noteq> RunIntegrity" "RunIntegrity \<noteq> lease_lost"
  by (simp_all add: lease_lost_def)

text \<open>Changing the end of a lease touches nothing else.\<close>

definition leases_changed :: "shared_db \<Rightarrow> shared_db \<Rightarrow> bool" where
  "leases_changed db db' \<longleftrightarrow> (\<exists>u. db' = db\<lparr>pg_runs := map u (pg_runs db)\<rparr> \<and> (\<forall>r. lw_row (u r) = lw_row r \<and> lw_grant (u r) = lw_grant r
     \<and> lw_tenant (u r) = lw_tenant r \<and> lw_binding (u r) = lw_binding r \<and> lw_expires_at (u r) = lw_expires_at r \<and> lw_fence (u r) = lw_fence r
     \<and> (lw_lease_until r \<noteq> None \<longrightarrow> lw_lease_until (u r) \<noteq> None)))"

lemma leases_changed_ok:
  assumes "leases_changed db db'" "shared_ok digest od sd settings claims db"
  shows "journal db' = journal db" "shared_ok digest od sd settings claims db'"
proof -
  from assms(1) obtain u where db': "db' = db\<lparr>pg_runs := map u (pg_runs db)\<rparr>"
    and u: "\<And>r. lw_row (u r) = lw_row r" "\<And>r. lw_grant (u r) = lw_grant r" "\<And>r. lw_tenant (u r) = lw_tenant r"
      "\<And>r. lw_binding (u r) = lw_binding r" "\<And>r. lw_expires_at (u r) = lw_expires_at r" "\<And>r. lw_fence (u r) = lw_fence r"
      "\<And>r. lw_lease_until r \<noteq> None \<longrightarrow> lw_lease_until (u r) \<noteq> None"
    unfolding leases_changed_def by blast
  show j: "journal db' = journal db" by (intro run_db_eqI) (simp_all add: db' u comp_def)
  have rows: "pg_runs db' = map u (pg_runs db)" "pg_conversations db' = pg_conversations db" by (simp_all add: db')
  have "running db' = running db" "tenant_running db' tn = tenant_running db tn" "queued db' = queued db" for tn
    by (simp_all add: running_def tenant_running_def queued_def rows filter_map comp_def u)
  moreover have "authority_ok od sd (pg_conversations db') (u r) = authority_ok od sd (pg_conversations db) r" for r
    by (simp add: authority_ok_def u rows)
  moreover have "dispatch_ok claims r \<Longrightarrow> dispatch_ok claims (u r)" for r
    using u(7) by (simp add: dispatch_ok_def u(1-6))
  ultimately show "shared_ok digest od sd settings claims db'"
    using assms(2) by (auto simp: shared_ok_def j within_limits_def rows)
qed

lemma heartbeat_keeps:
  assumes ok: "shared_ok digest od sd settings claims db"
  shows "case heartbeat settings clock clock' job db of Inl e \<Rightarrow> e = lease_lost
    | Inr (b, db') \<Rightarrow> shared_ok digest od sd settings claims db' \<and> journal db' = journal db"
proof (cases "owned_run clock job db")
  case (Inl e)
  with owned_run_error [OF Inl] show ?thesis by (simp add: heartbeat_def)
next
  case (Inr run)
  let ?db = "db\<lparr>pg_runs := map (renew_row (rs_run_id run) clock' (lease_end settings clock')) (pg_runs db)\<rparr>"
  have "leases_changed db ?db"
    unfolding leases_changed_def by (rule exI, rule conjI, rule refl) (simp add: renew_row_def)
  from leases_changed_ok [OF this ok] Inr ok show ?thesis by (simp add: heartbeat_def)
qed

lemma pg_write_status: "pg_write ts run0 e db = Inr (run, db') \<Longrightarrow> rs_status run = rs_status run0"
  by (auto simp: pg_write_def Let_def split: if_splits)

lemma pg_progress_writes:
  assumes ok: "shared_ok digest od sd settings claims db"
  shows "case pg_progress ts clock job report db of Inl e \<Rightarrow> e \<noteq> RunIntegrity
    | Inr db' \<Rightarrow> \<exists>run. shared_write digest od sd settings claims db (job_id job) (Inr (run, db'))
        \<and> (db' = db \<or> rs_status run = RUNNING)"
proof (cases "owned_run clock job db")
  case (Inl e)
  with owned_run_error [OF Inl] show ?thesis by (simp add: pg_progress_def)
next
  case (Inr a)
  from ok have j: "journal_ok digest (journal db)" by (simp add: shared_ok_def)
  obtain r where s: "rs_status a \<in> RUNNING_STATES" and a: "pg_read_run db (job_id job) = Inr a" by (rule owned_run_row [OF j Inr])
  show ?thesis
  proof (cases "rs_status a = RUNNING \<and> rs_sequence a < 60")
    case True
    let ?run = "a\<lparr>rs_progress := Some report\<rparr>"
    have "rs_result a = None" using active_no_result [OF j a] True by (simp add: TERMINAL_def)
    then have "moved a (?run\<lparr>rs_sequence := rs_sequence ?run + 1\<rparr>)" using True
      by (simp add: moved_def transitions_def TERMINAL_def)
    from shared_move_writes [OF ok a this, of ts "''agent.progress''"] True
    have "shared_write digest od sd settings claims db (job_id job) (pg_write ts ?run ''agent.progress'' db)"
      by (simp add: RUNNING_STATES_def)
    then have w: "case pg_write ts ?run ''agent.progress'' db of Inl e \<Rightarrow> e \<noteq> RunIntegrity
      | Inr (run, db') \<Rightarrow> shared_write digest od sd settings claims db (job_id job) (Inr (run, db')) \<and> rs_status run = RUNNING"
      using True by (cases "pg_write ts ?run ''agent.progress'' db") (auto simp: shared_write_def dest: pg_write_status)
    have "pg_progress ts clock job report db = (case pg_write ts ?run ''agent.progress'' db of Inl e \<Rightarrow> Inl e | Inr (_, db') \<Rightarrow> Inr db')"
      using True Inr by (simp add: pg_progress_def)
    with w show ?thesis by (cases "pg_write ts ?run ''agent.progress'' db") auto
  next
    case False
    with Inr s shared_write_same [OF ok a] show ?thesis by (auto simp: pg_progress_def RUNNING_STATES_def)
  qed
qed

definition finish_code :: "bool \<Rightarrow> bool \<Rightarrow> RunStatus \<times> DemoChatResponse option \<times> string option \<times> string
    \<Rightarrow> RunStatus \<times> DemoChatResponse option \<times> string option \<times> string" where
  "finish_code cancelled authority given =
     (if cancelled then (CANCELLED, None, None, ''Cancellation confirmed; no answer released.'')
      else if \<not> authority then (INTERRUPTED, None, Some ''AUTHORITY_EXPIRED'', ''Execution authority expired.'')
      else given)"

text \<open>Finishing writes the end of the job's own run, as long as its lease is open.\<close>

lemma pg_finish_writes:
  assumes ok: "shared_ok digest od sd settings claims db" and res: "result \<noteq> None \<Longrightarrow> status = COMPLETED"
  shows "shared_write digest od sd settings claims db (job_id job) (pg_finish ts clock clock' job status result code message db)"
    "pg_finish ts clock clock' job status result code message db = Inr (run, db') \<Longrightarrow>
      \<exists>a. owned_run clock job db = Inr a \<and> moved a run \<and> rs_status run \<in> TERMINAL
        \<and> (rs_status run, rs_result run, rs_error_code run, rs_message run)
            = finish_code (rs_status a = CANCELLATION_REQUESTED) (authority_left clock' (job_id job) db) (status, result, code, message)"
    "owned_run clock job db = Inr a \<Longrightarrow> status \<in> TERMINAL \<Longrightarrow> is_ok (pg_finish ts clock clock' job status result code message db)"
proof -
  from ok have j: "journal_ok digest (journal db)" by (simp add: shared_ok_def)
  have key: "shared_write digest od sd settings claims db (job_id job) (pg_finish ts clock clock' job status result code message db)
    \<and> is_ok (pg_finish ts clock clock' job status result code message db)
    \<and> (\<forall>run db'. pg_finish ts clock clock' job status result code message db = Inr (run, db') \<longrightarrow> moved a run \<and> rs_status run \<in> TERMINAL
        \<and> (rs_status run, rs_result run, rs_error_code run, rs_message run)
            = finish_code (rs_status a = CANCELLATION_REQUESTED) (authority_left clock' (job_id job) db) (status, result, code, message))"
    if fin_status: "status \<in> TERMINAL" and own: "owned_run clock job db = Inr a" for a
  proof -
    obtain r where s: "rs_status a \<in> RUNNING_STATES" and a: "pg_read_run db (job_id job) = Inr a" and id: "rs_run_id a = job_id job"
      by (rule owned_run_row [OF j own])
    obtain st re co me where f: "finish_code (rs_status a = CANCELLATION_REQUESTED) (authority_left clock' (job_id job) db)
        (status, result, code, message) = (st, re, co, me)" by (metis prod_cases4)
    define run2 where "run2 = (let run1 = a\<lparr>rs_status := st, rs_result := re, rs_error_code := co, rs_message := me\<rparr>
      in case re of None \<Rightarrow> run1 | Some r \<Rightarrow> run1\<lparr>rs_progress := rp_agent_run r\<rparr>)"
    have fin: "pg_finish ts clock clock' job status result code message db = pg_write ts run2 (terminal_event st) db"
      using fin_status own f unfolding pg_finish_def finish_code_def run2_def by (auto simp: Let_def id split: if_splits)
    have p: "rs_status run2 = st" "rs_result run2 = re" "rs_run_id run2 = rs_run_id a" "rs_request run2 = rs_request a"
      "rs_source_binding run2 = rs_source_binding a" "rs_sequence run2 = rs_sequence a" "rs_error_code run2 = co" "rs_message run2 = me"
      by (auto simp: run2_def Let_def split: option.split)
    have st: "st \<in> TERMINAL" using fin_status f by (auto simp: finish_code_def TERMINAL_def split: if_splits)
    have "(rs_status a, st) \<in> transitions" "re \<noteq> None \<longrightarrow> st = COMPLETED \<and> rs_status a \<noteq> CANCELLATION_REQUESTED"
      using s fin_status f res by (auto simp: finish_code_def transitions_def RUNNING_STATES_def TERMINAL_def split: if_splits)
    then have m: "moved a (run2\<lparr>rs_sequence := rs_sequence run2 + 1\<rparr>)" using p by (simp add: moved_def)
    have n: "rs_status run2 \<noteq> RUNNING" "rs_status run2 \<notin> RUNNING_STATES" using st p(1) by (auto simp: TERMINAL_def RUNNING_STATES_def)
    have w: "shared_write digest od sd settings claims db (job_id job) (pg_write ts run2 (terminal_event st) db)"
      using n by (intro shared_move_writes [OF ok a m]) auto
    from shared_move [OF ok a m, of ts "terminal_event st"] n obtain run db1 where
      "pg_write ts run2 (terminal_event st) db = Inr (run, db1)" "run = run2\<lparr>rs_sequence := rs_sequence run2 + 1, rs_updated_at := fst ts\<rparr>" by blast
    with w m st p f show ?thesis by (simp add: fin moved_def)
  qed
  have err: "pg_finish ts clock clock' job status result code message db = Inl e \<and> e \<noteq> RunIntegrity"
    if "status \<notin> TERMINAL \<and> e = RunError ''A terminal run state is required.'' 409
      \<or> status \<in> TERMINAL \<and> owned_run clock job db = Inl e" for e
    using that owned_run_error [of clock job db e] by (auto simp: pg_finish_def)
  show "shared_write digest od sd settings claims db (job_id job) (pg_finish ts clock clock' job status result code message db)"
    using key err by (cases "owned_run clock job db"; cases "status \<in> TERMINAL") (auto simp: shared_write_def)
  show "\<exists>a. owned_run clock job db = Inr a \<and> moved a run \<and> rs_status run \<in> TERMINAL
      \<and> (rs_status run, rs_result run, rs_error_code run, rs_message run)
          = finish_code (rs_status a = CANCELLATION_REQUESTED) (authority_left clock' (job_id job) db) (status, result, code, message)"
    if out: "pg_finish ts clock clock' job status result code message db = Inr (run, db')"
    using key err out by (cases "owned_run clock job db"; cases "status \<in> TERMINAL") auto
  show "is_ok (pg_finish ts clock clock' job status result code message db)"
    if "owned_run clock job db = Inr a" "status \<in> TERMINAL"
    using key [OF that(2,1)] by blast
qed

end
