(* ===== verification/SharedClaims.thy ===== *)
theory SharedClaims
  imports SharedLeases
begin

section \<open>SharedClaims: expiring and handing out runs\<close>

text \<open>
  \<open>claim\<close> of \<open>services/postgres_runs.py\<close>: the runs whose lease or authority has expired are interrupted, and
  the oldest queued run within the limits is leased to the worker that asked.
\<close>

subsection \<open>The oldest of a table\<close>

lemma sorted_hd_le: "sorted (map f (z # zs)) \<Longrightarrow> q \<in> set (z # zs) \<Longrightarrow> f z \<le> f q"
  by auto

lemma oldest_first:
  assumes "filter P (sort_key f (sort_key g xs)) = z # zs" "q \<in> set xs" "P q"
  shows "f z < f q \<or> f z = f q \<and> g z \<le> g q"
proof -
  let ?zs = "filter P (sort_key f (sort_key g xs))"
  have q: "q \<in> set (z # zs)" using assms(2,3) unfolding assms(1) [symmetric] by simp
  have "sorted (map f ?zs)" by (intro sorted_filter) simp
  with q have le: "f z \<le> f q" unfolding assms(1) by (rule sorted_hd_le [rotated])
  have "g z \<le> g q" if eq: "f q = f z"
  proof -
    have "filter (\<lambda>x. f x = f z) ?zs = filter P (filter (\<lambda>x. f x = f z) (sort_key f (sort_key g xs)))"
      by (simp add: conj_commute)
    also have "\<dots> = filter P (filter (\<lambda>x. f x = f z) (sort_key g xs))" by (simp only: sort_key_stable)
    finally have e: "filter (\<lambda>x. f x = f z) (z # zs) = filter P (filter (\<lambda>x. f x = f z) (sort_key g xs))"
      unfolding assms(1) .
    have "sorted (map g (filter P (filter (\<lambda>x. f x = f z) (sort_key g xs))))" by (intro sorted_filter) simp
    then have "sorted (map g (z # filter (\<lambda>x. f x = f z) zs))" unfolding e [symmetric] by simp
    moreover have "q \<in> set (z # filter (\<lambda>x. f x = f z) zs)" using q eq by auto
    ultimately show ?thesis by (rule sorted_hd_le)
  qed
  with le show ?thesis by force
qed

subsection \<open>Expiry\<close>

definition expired_to :: "uuid set \<Rightarrow> leased_run \<Rightarrow> leased_run \<Rightarrow> bool" where
  "expired_to ids r r' \<longleftrightarrow> lw_id r' = lw_id r \<and> lw_tenant r' = lw_tenant r \<and> lw_binding r' = lw_binding r
     \<and> (if lw_id r \<in> ids then lw_status r' = INTERRUPTED \<and> rs_result (rw_payload (lw_row r')) = None
            \<and> rs_error_code (rw_payload (lw_row r')) = Some ''EXECUTION_EXPIRED''
        else r' = r)"

lemma expire_each_ok:
  assumes "shared_ok digest od sd settings claims db" "distinct (map rs_run_id runs)"
    and "\<forall>a\<in>set runs. pg_read_run db (rs_run_id a) = Inr a \<and> rs_status a \<in> ACTIVE"
  shows "\<exists>db' u. expire_each ts runs db = Inr db' \<and> keeps_shared digest od sd settings claims db claims db'
    \<and> keys (journal db') = keys (journal db) \<and> pg_conversations db' = pg_conversations db
    \<and> pg_runs db' = map u (pg_runs db) \<and> (\<forall>r\<in>set (pg_runs db). expired_to (rs_run_id ` set runs) r (u r))"
  using assms
proof (induction runs arbitrary: db)
  case Nil
  have "expired_to {} r (id r)" for r by (simp add: expired_to_def)
  with keeps_same [OF Nil(1)] show ?case by (intro exI [of _ db] exI [of _ id]) simp
next
  case (Cons a runs)
  let ?run = "a\<lparr>rs_status := INTERRUPTED, rs_error_code := Some ''EXECUTION_EXPIRED'',
    rs_message := ''Execution authority or worker lease expired. Review before submitting again.''\<rparr>"
  let ?id = "rs_run_id a"
  from Cons.prems(3) have a: "pg_read_run db ?id = Inr a" and act: "rs_status a \<in> ACTIVE" by simp_all
  from Cons.prems(1) have j: "journal_ok digest (journal db)" by (simp add: shared_ok_def)
  have "rs_result a = None" using active_no_result [OF j a] act by (simp add: terminal_or_active)
  moreover have "(rs_status a, INTERRUPTED) \<in> transitions"
    using act by (auto simp: transitions_def ACTIVE_def TERMINAL_def)
  ultimately have m: "moved a (?run\<lparr>rs_sequence := rs_sequence ?run + 1\<rparr>)" by (simp add: moved_def)
  from shared_move [OF Cons.prems(1) a m, of "ts ?id" "''run.interrupted''"] obtain run db1 where
    w: "pg_write (ts ?id) ?run ''run.interrupted'' db = Inr (run, db1)" and
    run: "run = ?run\<lparr>rs_sequence := rs_sequence ?run + 1, rs_updated_at := fst (ts ?id)\<rparr>" and
    ok1: "shared_ok digest od sd settings claims db1" and one: "one_write digest (journal db) ?id (Inr (run, journal db1))" and
    rows: "pg_runs db1 = map (set_row run) (pg_runs db)" "pg_conversations db1 = pg_conversations db"
    by (auto simp: RUNNING_STATES_def)
  have keys1: "keys (journal db1) = keys (journal db)" using one by (auto simp: one_write_def)
  have "\<forall>b\<in>set runs. pg_read_run db1 (rs_run_id b) = Inr b \<and> rs_status b \<in> ACTIVE"
  proof
    fix b assume b: "b \<in> set runs"
    with Cons.prems(2) have "rs_run_id b \<noteq> ?id" by (auto simp: image_iff)
    with one have "pg_read_run db1 (rs_run_id b) = pg_read_run db (rs_run_id b)" by (auto simp: one_write_def pg_read_run_def)
    with Cons.prems(3) b show "pg_read_run db1 (rs_run_id b) = Inr b \<and> rs_status b \<in> ACTIVE" by simp
  qed
  from Cons.IH [OF ok1 _ this] Cons.prems(2) obtain db' u where
    ih: "expire_each ts runs db1 = Inr db'" "keeps_shared digest od sd settings claims db1 claims db'"
      "keys (journal db') = keys (journal db1)" "pg_conversations db' = pg_conversations db1" "pg_runs db' = map u (pg_runs db1)"
      "\<forall>r\<in>set (pg_runs db1). expired_to (rs_run_id ` set runs) r (u r)" by auto
  from move_keeps [OF Cons.prems(1) ok1 one] ih(2) keys1
  have "keeps_shared digest od sd settings claims db claims db'" by (rule keeps_trans)
  moreover have "expired_to (rs_run_id ` set (a # runs)) r (u (set_row run r))" if r: "r \<in> set (pg_runs db)" for r
  proof -
    have x: "expired_to (rs_run_id ` set runs) (set_row run r) (u (set_row run r))" using ih(6) r by (simp add: rows)
    have id: "rs_run_id run = ?id" by (simp add: run)
    show ?thesis
    proof (cases "lw_id r = ?id")
      case True
      with Cons.prems(2) have "lw_id r \<notin> rs_run_id ` set runs" by simp
      with x have "u (set_row run r) = set_row run r" by (simp add: expired_to_def)
      then show ?thesis using True id \<open>rs_result a = None\<close> by (simp add: expired_to_def run)
    next
      case False
      then have "set_row run r = r" by (simp add: id)
      with x False show ?thesis by (simp add: expired_to_def)
    qed
  qed
  ultimately show ?case using w ih keys1 rows by (intro exI [of _ db'] exI [of _ "u \<circ> set_row run"]) simp
qed

text \<open>The rows a claim finds expired.\<close>

definition overdue :: "instant \<Rightarrow> shared_db \<Rightarrow> leased_run list" where
  "overdue clock db = filter (lease_expired clock) (pg_runs db)"

lemma expire_overdue:
  assumes ok: "shared_ok digest od sd settings claims db"
  shows "\<exists>db' u. expire_each ts (map (rw_payload \<circ> lw_row) (overdue clock db)) db = Inr db'
    \<and> keeps_shared digest od sd settings claims db claims db' \<and> keys (journal db') = keys (journal db)
    \<and> pg_runs db' = map u (pg_runs db) \<and> (\<forall>r\<in>set (pg_runs db). expired_to (lw_id ` set (overdue clock db)) r (u r))"
proof -
  from ok have j: "journal_ok digest (journal db)" by (simp add: shared_ok_def)
  let ?runs = "map (rw_payload \<circ> lw_row) (overdue clock db)"
  have id: "rs_run_id (rw_payload (lw_row r)) = lw_id r" if "r \<in> set (overdue clock db)" for r
    using row_of_shared(3) [OF j] that by (simp add: overdue_def)
  have "map rs_run_id ?runs = map lw_id (overdue clock db)" using id by simp
  moreover have "distinct (map lw_id (overdue clock db))"
    unfolding overdue_def by (intro distinct_map_filter shared_ids_distinct [OF j])
  ultimately have d: "distinct (map rs_run_id ?runs)" by (simp only:)
  have "\<forall>a\<in>set ?runs. pg_read_run db (rs_run_id a) = Inr a \<and> rs_status a \<in> ACTIVE"
  proof
    fix a assume "a \<in> set ?runs"
    then obtain r where r: "r \<in> set (overdue clock db)" "a = rw_payload (lw_row r)" by auto
    then have rr: "r \<in> set (pg_runs db)" "lw_status r \<in> ACTIVE"
      by (auto simp: overdue_def lease_expired_def RUNNING_STATES_def ACTIVE_def)
    from row_of_shared [OF j rr(1)] rr(2) show "pg_read_run db (rs_run_id a) = Inr a \<and> rs_status a \<in> ACTIVE" by (simp add: r(2))
  qed
  from expire_each_ok [OF ok d this, of ts] obtain db' u where x: "expire_each ts ?runs db = Inr db'"
    "keeps_shared digest od sd settings claims db claims db'" "keys (journal db') = keys (journal db)"
    "pg_runs db' = map u (pg_runs db)" "\<forall>r\<in>set (pg_runs db). expired_to (rs_run_id ` set ?runs) r (u r)" by blast
  moreover have "rs_run_id ` set ?runs = lw_id ` set (overdue clock db)" using id by (force simp: image_image)
  ultimately show ?thesis by auto
qed

subsection \<open>Handing out a run\<close>

lemma lease_row_simps [simp]:
  "lw_row (lease_row rid fence until r) = lw_row r" "lw_grant (lease_row rid fence until r) = lw_grant r"
  "lw_tenant (lease_row rid fence until r) = lw_tenant r" "lw_binding (lease_row rid fence until r) = lw_binding r"
  "lw_expires_at (lease_row rid fence until r) = lw_expires_at r"
  "lw_id r \<noteq> rid \<Longrightarrow> lease_row rid fence until r = r"
  "lw_id r = rid \<Longrightarrow> lw_fence (lease_row rid fence until r) = Some fence"
  "lw_id r = rid \<Longrightarrow> lw_lease_until (lease_row rid fence until r) = Some until"
  by (simp_all add: lease_row_def)

lemma dispatch_keeps:
  assumes ok: "shared_ok digest od sd settings claims db" and r: "r \<in> set (pg_runs db)" and q: "lw_status r = QUEUED"
    and room: "int (running db) < ss_maximum_running settings"
      "int (tenant_running db (lw_tenant r)) < ss_maximum_running_per_tenant settings"
  shows "\<exists>job db'. dispatch settings fence ts clock r db = Inr (Some job, db') \<and> job_id job = lw_id r \<and> cj_grant job = lw_grant r
    \<and> rs_request (cj_run job) = rs_request (rw_payload (lw_row r)) \<and> keys (journal db') = keys (journal db)
    \<and> keeps_shared digest od sd settings claims db (claims @ [job]) db'
    \<and> (\<exists>u. pg_runs db' = map u (pg_runs db) \<and> (\<forall>p\<in>set (pg_runs db). lw_id p \<noteq> lw_id r \<longrightarrow> u p = p)
         \<and> lw_status (u r) = RUNNING \<and> lw_id (u r) = lw_id r)"
proof -
  from ok have j: "journal_ok digest (journal db)" by (simp add: shared_ok_def)
  define a where "a = rw_payload (lw_row r)"
  note ra = row_of_shared [OF j r, folded a_def]
  let ?until = "lease_end settings clock"
  let ?db1 = "db\<lparr>pg_runs := map (lease_row (lw_id r) fence ?until) (pg_runs db)\<rparr>"
  have j1: "journal ?db1 = journal db" by (intro run_db_eqI) (simp_all add: comp_def)
  let ?run = "a\<lparr>rs_status := RUNNING, rs_message := ''Processing the governed question.''\<rparr>"
  have "rs_result a = None" using active_no_result [OF j ra(1)] q ra(2) by (simp add: TERMINAL_def)
  with q ra(2) have m: "moved a (?run\<lparr>rs_sequence := rs_sequence ?run + 1\<rparr>)" by (simp add: moved_def transitions_def)
  have a1: "pg_read_run ?db1 (lw_id r) = Inr a" using ra(1) by (simp add: pg_read_run_def j1)
  from pg_write_moves [OF j [folded j1] a1 m, of ts "''run.started''"] q ra(2) obtain run db' where
    w: "pg_write ts ?run ''run.started'' ?db1 = Inr (run, db')" and
    run: "run = ?run\<lparr>rs_sequence := rs_sequence ?run + 1, rs_updated_at := fst ts\<rparr>" and
    one: "one_write digest (journal db) (lw_id r) (Inr (run, journal db'))" and
    rows: "pg_runs db' = map (set_row run) (map (lease_row (lw_id r) fence ?until) (pg_runs db))" and
    convs: "pg_conversations db' = pg_conversations db" by (auto simp: j1)
  define job where "job = \<lparr>cj_run = run, cj_grant = lw_grant r, cj_fence = fence\<rparr>"
  have id: "rs_run_id run = lw_id r" and st: "rs_status run = RUNNING" and rq: "rs_request run = rs_request a"
    "rs_source_binding run = rs_source_binding a" by (simp_all add: run ra(3))
  let ?u = "\<lambda>p. set_row run (lease_row (lw_id r) fence ?until p)"
  have rows': "pg_runs db' = map ?u (pg_runs db)" by (simp add: rows)
  have other: "?u p = p" if "lw_id p \<noteq> lw_id r" for p using that by (simp add: id)
  have as_if: "?u = (\<lambda>p. if lw_id p = lw_id r then ?u p else p)" using other by (auto simp: fun_eq_iff)
  have same: "p = r" if "p \<in> set (pg_runs db)" "lw_id p = lw_id r" for p
    using shared_ids_distinct [OF j] that r by (auto simp: distinct_map inj_on_def)
  have d: "dispatch settings fence ts clock r db = Inr (Some job, db')"
    unfolding dispatch_def Let_def a_def [symmetric] ra(3) w by (simp add: job_def)
  have new: "lw_id r \<notin> job_id ` set claims" using ok r q by (auto simp: shared_ok_def dispatch_ok_def)
  have "within_limits settings db'"
  proof -
    have "running db' \<le> Suc (running db)"
      unfolding running_def rows' by (subst as_if) (rule filter_map_one [OF shared_ids_distinct [OF j]])
    moreover have "int (tenant_running db' tn) \<le> ss_maximum_running_per_tenant settings" for tn
    proof (cases "tn = lw_tenant r")
      case True
      have "tenant_running db' tn \<le> Suc (tenant_running db tn)"
        unfolding tenant_running_def rows' by (subst as_if) (rule filter_map_one [OF shared_ids_distinct [OF j]])
      with True room(2) show ?thesis by simp
    next
      case False
      have "tenant_running db' tn \<le> tenant_running db tn"
        unfolding tenant_running_def rows'
      proof (rule filter_map_le)
        fix p assume p: "p \<in> set (pg_runs db)" and tn: "lw_tenant (?u p) = tn \<and> lw_status (?u p) \<in> RUNNING_STATES"
        from tn False same [OF p] have "lw_id p \<noteq> lw_id r" by auto
        with other tn show "lw_tenant p = tn \<and> lw_status p \<in> RUNNING_STATES" by metis
      qed
      moreover have "int (tenant_running db tn) \<le> ss_maximum_running_per_tenant settings"
        using ok by (simp add: shared_ok_def within_limits_def)
      ultimately show ?thesis by linarith
    qed
    moreover have "queued db' \<le> queued db"
      unfolding queued_def rows'
    proof (rule filter_map_le)
      fix p assume "lw_status (?u p) = QUEUED"
      then show "lw_status p = QUEUED" using st id by (cases "lw_id p = lw_id r") auto
    qed
    ultimately show ?thesis using ok room(1) one_write_owners [OF one]
      by (auto simp: shared_ok_def within_limits_def capacity_ok_def)
  qed
  moreover have "authority_ok od sd (pg_conversations db') (?u p) \<and> dispatch_ok (claims @ [job]) (?u p)"
    if p: "p \<in> set (pg_runs db)" for p
  proof (cases "lw_id p = lw_id r")
    case True
    with same p have "p = r" by blast
    from ok r have x: "authority_ok od sd (pg_conversations db) r" "dispatch_ok claims r" by (simp_all add: shared_ok_def)
    have none: "\<forall>j\<in>set claims. job_id j \<noteq> lw_id r" using new by (auto simp: image_iff)
    have "authority_ok od sd (pg_conversations db') (?u r)" using x(1) id rq convs by (simp add: authority_ok_def a_def)
    moreover have "dispatch_ok (claims @ [job]) (?u r)"
      using none id st by (simp add: dispatch_ok_def job_def RUNNING_STATES_def)
    ultimately show ?thesis by (simp only: \<open>p = r\<close>)
  next
    case False
    with ok p id have "authority_ok od sd (pg_conversations db) p" "dispatch_ok claims p" "job_id job \<noteq> lw_id p"
      by (simp_all add: shared_ok_def job_def)
    then show ?thesis unfolding other [OF False] by (simp add: convs dispatch_ok_def)
  qed
  moreover have "distinct (map job_id (claims @ [job]))" using ok new by (simp add: shared_ok_def job_def id)
  moreover have "journal_ok digest (journal db')" by (rule one_write_ok [OF one j])
  ultimately have "shared_ok digest od sd settings (claims @ [job]) db'"
    unfolding shared_ok_def rows' by auto
  from move_keeps [OF ok this one] have k: "keeps_shared digest od sd settings claims db (claims @ [job]) db'" .
  have "keys (journal db') = keys (journal db)" using one by (auto simp: one_write_def)
  moreover have "lw_status (?u r) = RUNNING" "lw_id (?u r) = lw_id r" using id st by simp_all
  ultimately show ?thesis using d k rows' other id rq
    by (intro exI [of _ job] exI [of _ db'] conjI exI [of _ ?u]) (simp_all add: job_def a_def)
qed

lemma filter_map_ge:
  assumes "\<And>r. r \<in> set xs \<Longrightarrow> P r \<Longrightarrow> P (u r)"
  shows "length (filter P xs) \<le> length (filter P (map u xs))"
  using assms by (induction xs) (auto intro: le_SucI)

definition given :: "ClaimedRun option \<Rightarrow> ClaimedRun list" where
  "given out = (case out of None \<Rightarrow> [] | Some job \<Rightarrow> [job])"

text \<open>The rows after a claim: those overdue are interrupted, the one handed out runs, the others are as before.\<close>

definition claimed_rows :: "instant \<Rightarrow> ClaimedRun option \<Rightarrow> shared_db \<Rightarrow> shared_db \<Rightarrow> bool" where
  "claimed_rows clock out db db' \<longleftrightarrow> (\<exists>u. pg_runs db' = map u (pg_runs db) \<and> (\<forall>r\<in>set (pg_runs db). lw_id (u r) = lw_id r \<and>
     (if lease_expired clock r then lw_status (u r) = INTERRUPTED \<and> rs_result (rw_payload (lw_row (u r))) = None
          \<and> rs_error_code (rw_payload (lw_row (u r))) = Some ''EXECUTION_EXPIRED''
      else if lw_id r \<in> job_id ` set (given out) then lw_status r = QUEUED \<and> lw_status (u r) = RUNNING
      else u r = r)))"

definition waiting :: "SharedStateSettings \<Rightarrow> string \<Rightarrow> uuid list \<Rightarrow> shared_db \<Rightarrow> leased_run \<Rightarrow> bool" where
  "waiting settings binding locked db q \<longleftrightarrow> lw_status q = QUEUED \<and> lw_binding q = binding \<and> lw_id q \<notin> set locked
     \<and> int (tenant_running db (lw_tenant q)) < ss_maximum_running_per_tenant settings"

text \<open>Nothing is handed out only when the limit is reached or nothing can wait; otherwise the oldest run that can.\<close>

definition claim_fair :: "SharedStateSettings \<Rightarrow> string \<Rightarrow> uuid list \<Rightarrow> instant \<Rightarrow> ClaimedRun option \<Rightarrow> shared_db \<Rightarrow> shared_db \<Rightarrow> bool" where
  "claim_fair settings binding locked clock out db db' \<longleftrightarrow> (case out of
     None \<Rightarrow> ss_maximum_running settings \<le> int (running db') \<or> (\<forall>q\<in>set (pg_runs db'). \<not> waiting settings binding locked db' q)
   | Some job \<Rightarrow> \<exists>r\<in>set (pg_runs db). lw_id r = job_id job \<and> lw_binding r = binding \<and> cj_grant job = lw_grant r
       \<and> clock < eg_expires_at (lw_grant r)
       \<and> (\<forall>q\<in>set (pg_runs db'). waiting settings binding locked db' q \<longrightarrow>
             lw_created_at r < lw_created_at q \<or> lw_created_at r = lw_created_at q \<and> lw_id r \<le> lw_id q))"

lemma claim_keeps:
  assumes ok: "shared_ok digest od sd settings claims db"
  shows "\<exists>out db'. claim settings binding locked fence ts clock clock' db = Inr (out, db')
    \<and> keeps_shared digest od sd settings claims db (claims @ given out) db' \<and> keys (journal db') = keys (journal db)
    \<and> claimed_rows clock out db db' \<and> claim_fair settings binding locked clock out db db'"
proof -
  from ok have j: "journal_ok digest (journal db)" by (simp add: shared_ok_def)
  from expire_overdue [OF ok, of ts clock] obtain db1 u where
    e: "expire_each ts (map (rw_payload \<circ> lw_row) (filter (lease_expired clock) (pg_runs db))) db = Inr db1"
    and k1: "keeps_shared digest od sd settings claims db claims db1" and keys1: "keys (journal db1) = keys (journal db)"
    and rows1: "pg_runs db1 = map u (pg_runs db)" and u: "\<forall>r\<in>set (pg_runs db). expired_to (lw_id ` set (overdue clock db)) r (u r)"
    unfolding overdue_def [symmetric] by blast
  have over: "lw_id r \<in> lw_id ` set (overdue clock db) \<longleftrightarrow> lease_expired clock r" if "r \<in> set (pg_runs db)" for r
    using that shared_ids_distinct [OF j] by (auto simp: overdue_def distinct_map inj_on_def)
  have ur: "lw_id (u r) = lw_id r \<and> (if lease_expired clock r then lw_status (u r) = INTERRUPTED
      \<and> rs_result (rw_payload (lw_row (u r))) = None \<and> rs_error_code (rw_payload (lw_row (u r))) = Some ''EXECUTION_EXPIRED''
      else u r = r)" if "r \<in> set (pg_runs db)" for r
    using u that over [OF that] by (simp add: expired_to_def)
  show ?thesis
  proof (cases "ss_maximum_running settings \<le> int (running db1)")
    case True
    have "claim settings binding locked fence ts clock clock' db = Inr (None, db1)" using e True by (simp add: claim_def)
    moreover have "claimed_rows clock None db db1" unfolding claimed_rows_def given_def using rows1 ur by auto
    ultimately show ?thesis using k1 keys1 True by (intro exI [of _ None] exI [of _ db1]) (simp add: claim_fair_def given_def)
  next
    case room: False
    show ?thesis
    proof (cases "filter (\<lambda>r. lw_id r \<notin> set locked) (claimable settings binding db1)")
      case Nil
      have "claim settings binding locked fence ts clock clock' db = Inr (None, db1)" using e room Nil by (simp add: claim_def)
      moreover have "claimed_rows clock None db db1" unfolding claimed_rows_def given_def using rows1 ur by auto
      moreover have "\<forall>q\<in>set (pg_runs db1). \<not> waiting settings binding locked db1 q"
        using Nil by (auto simp: claimable_def filter_empty_conv waiting_def)
      ultimately show ?thesis using k1 keys1 by (intro exI [of _ None] exI [of _ db1]) (simp add: claim_fair_def given_def)
    next
      case (Cons r rest)
      then have "r \<in> set (filter (\<lambda>r. lw_id r \<notin> set locked) (claimable settings binding db1))" by simp
      then have r: "r \<in> set (pg_runs db1)" "lw_status r = QUEUED" "lw_binding r = binding"
        "int (tenant_running db1 (lw_tenant r)) < ss_maximum_running_per_tenant settings" by (auto simp: claimable_def)
      from k1 have ok1: "shared_ok digest od sd settings claims db1" by (simp add: keeps_shared_def)
      from dispatch_keeps [OF ok1 r(1,2) _ r(4), of fence "ts (lw_id r)" clock'] room obtain job db' v where
        d: "dispatch settings fence (ts (lw_id r)) clock' r db1 = Inr (Some job, db')" and job: "job_id job = lw_id r"
        "cj_grant job = lw_grant r" and keys2: "keys (journal db') = keys (journal db1)"
        and k2: "keeps_shared digest od sd settings claims db1 (claims @ [job]) db'"
        and rows2: "pg_runs db' = map v (pg_runs db1)" "\<forall>p\<in>set (pg_runs db1). lw_id p \<noteq> lw_id r \<longrightarrow> v p = p"
          "lw_status (v r) = RUNNING" "lw_id (v r) = lw_id r" by auto
      have c: "claim settings binding locked fence ts clock clock' db = Inr (Some job, db')" using e room Cons d by (simp add: claim_def)
      from r(1) rows1 obtain r0 where r0: "r0 \<in> set (pg_runs db)" "r = u r0" by auto
      from ur [OF r0(1)] r(2) r0(2) have live: "\<not> lease_expired clock r0" "r = r0" by (auto split: if_splits)
      have same: "p = r" if "p \<in> set (pg_runs db)" "lw_id p = lw_id r" for p
        using shared_ids_distinct [OF j] that r0(1) live(2) by (auto simp: distinct_map inj_on_def)
      have rows': "claimed_rows clock (Some job) db db'"
        unfolding claimed_rows_def
      proof (intro exI [of _ "v \<circ> u"] conjI ballI)
        show "pg_runs db' = map (v \<circ> u) (pg_runs db)" by (simp add: rows2(1) rows1)
        fix p assume p: "p \<in> set (pg_runs db)"
        then have up: "u p \<in> set (pg_runs db1)" by (simp add: rows1)
        note x = ur [OF p]
        have "lw_id ((v \<circ> u) p) = lw_id p \<and> (if lease_expired clock p then (v \<circ> u) p = u p
            else if lw_id p = lw_id r then lw_status p = QUEUED \<and> lw_status ((v \<circ> u) p) = RUNNING else (v \<circ> u) p = p)"
        proof (cases "lw_id p = lw_id r")
          case True
          with same [OF p] have "p = r" by blast
          with x live r(2) rows2(3,4) show ?thesis by auto
        next
          case False
          with x have "lw_id (u p) \<noteq> lw_id r" by simp
          with rows2(2) up have "v (u p) = u p" by blast
          with x False show ?thesis by auto
        qed
        with x show "lw_id ((v \<circ> u) p) = lw_id p" and
          "if lease_expired clock p then lw_status ((v \<circ> u) p) = INTERRUPTED \<and> rs_result (rw_payload (lw_row ((v \<circ> u) p))) = None
              \<and> rs_error_code (rw_payload (lw_row ((v \<circ> u) p))) = Some ''EXECUTION_EXPIRED''
           else if lw_id p \<in> job_id ` set (given (Some job)) then lw_status p = QUEUED \<and> lw_status ((v \<circ> u) p) = RUNNING
           else (v \<circ> u) p = p"
          by (auto simp: given_def job(1) split: if_splits)
      qed
      have "authority_ok od sd (pg_conversations db1) r" using ok1 r(1) by (simp add: shared_ok_def)
      then have exp: "clock < eg_expires_at (lw_grant r)"
        using live r(2) by (auto simp: lease_expired_def authority_ok_def not_le)
      have fair: "lw_created_at r < lw_created_at q \<or> lw_created_at r = lw_created_at q \<and> lw_id r \<le> lw_id q"
        if q: "q \<in> set (pg_runs db')" "waiting settings binding locked db' q" for q
      proof -
        from q(1) rows2(1) obtain q1 where q1: "q1 \<in> set (pg_runs db1)" "q = v q1" by auto
        have "q1 = q"
        proof (cases "lw_id q1 = lw_id r")
          case True
          with q1(1) r(1) have "q1 = r" using shared_ids_distinct [of digest db1] ok1
            by (auto simp: shared_ok_def distinct_map inj_on_def)
          with q q1(2) rows2(3) show ?thesis by (simp add: waiting_def)
        qed (use q1 rows2(2) in simp)
        have "tenant_running db1 (lw_tenant q) \<le> tenant_running db' (lw_tenant q)"
          unfolding tenant_running_def rows2(1)
        proof (rule filter_map_ge)
          fix p assume p: "p \<in> set (pg_runs db1)" and run: "lw_tenant p = lw_tenant q \<and> lw_status p \<in> RUNNING_STATES"
          have "p \<noteq> r" using run r(2) by (auto simp: RUNNING_STATES_def)
          then have "lw_id p \<noteq> lw_id r" using shared_ids_distinct [of digest db1] ok1 p r(1)
            by (auto simp: shared_ok_def distinct_map inj_on_def)
          with rows2(2) p run show "lw_tenant (v p) = lw_tenant q \<and> lw_status (v p) \<in> RUNNING_STATES" by metis
        qed
        with q(2) have "int (tenant_running db1 (lw_tenant q)) < ss_maximum_running_per_tenant settings"
          by (simp add: waiting_def)
        moreover have "q \<in> set (pg_runs db1)" using q1(1) unfolding \<open>q1 = q\<close> .
        ultimately have mem: "q \<in> set (filter (\<lambda>q. lw_status q = QUEUED \<and> lw_binding q = binding
            \<and> int (tenant_running db1 (lw_tenant q)) < ss_maximum_running_per_tenant settings) (pg_runs db1))"
          using q(2) by (simp add: waiting_def)
        have "lw_id q \<notin> set locked" using q(2) by (simp add: waiting_def)
        from oldest_first [OF Cons [unfolded claimable_def] mem this] show ?thesis .
      qed
      have "claim_fair settings binding locked clock (Some job) db db'"
      proof -
        have "r \<in> set (pg_runs db)" using r0(1) unfolding live(2) .
        then show ?thesis unfolding claim_fair_def option.case using job(1) [symmetric] job(2) r(3) exp fair by blast
      qed
      with c rows' keeps_trans [OF k1 k2 keys1] keys1 keys2 show ?thesis
        by (intro exI [of _ "Some job"] exI [of _ db']) (simp add: given_def)
    qed
  qed
qed

end
