(* ===== verification/SharedHistory.thy ===== *)
theory SharedHistory
  imports SharedClaims
begin

section \<open>SharedHistory: what the shared journal promises\<close>

text \<open>
  The transactions of \<open>services/postgres_runs.py\<close> as steps of a state machine that several services and
  workers take in any order while the database's clock advances.  The state keeps, beside the tables, every
  claim that was ever handed out; a fresh run identifier is not that of an earlier claim.
\<close>

record cluster =
  cl_now :: instant
  cl_db :: shared_db
  cl_claims :: "ClaimedRun list"

lemma transaction_Inr [simp]: "transaction up body = Inr x \<longleftrightarrow> up \<and> body = Inr x"
  by (auto simp: transaction_def split: sum.splits run_failure.splits)

text \<open>Workers finish with a result only as completed.\<close>

inductive shared_step :: "(RunRequest \<Rightarrow> string) \<Rightarrow> (string list \<Rightarrow> string) \<Rightarrow> (string list list \<Rightarrow> string) \<Rightarrow> SharedStateSettings
    \<Rightarrow> cluster \<Rightarrow> cluster \<Rightarrow> bool" for digest od sd settings where
  time: "cl_now c \<le> t \<Longrightarrow> shared_step digest od sd settings c (c\<lparr>cl_now := t\<rparr>)"
| create: "transaction up (pg_create_conversation settings owner scope cid now created (cl_db c)) = Inr (v, db')
    \<Longrightarrow> shared_step digest od sd settings c (c\<lparr>cl_db := db'\<rparr>)"
| enqueue: "transaction up (pg_enqueue od sd settings digest rid ts ts' created (cl_now c) owner scope request binding grant (cl_db c))
      = Inr (run, db')
    \<Longrightarrow> rid \<notin> job_id ` set (cl_claims c) \<Longrightarrow> shared_step digest od sd settings c (c\<lparr>cl_db := db'\<rparr>)"
| cancel: "transaction up (pg_cancel ts owner scope rid (cl_db c)) = Inr (run, db')
    \<Longrightarrow> shared_step digest od sd settings c (c\<lparr>cl_db := db'\<rparr>)"
| delete: "transaction up (pg_delete owner scope cid (cl_db c)) = Inr db' \<Longrightarrow> shared_step digest od sd settings c (c\<lparr>cl_db := db'\<rparr>)"
| claim: "transaction up (claim settings binding locked fence tss clock clock' (cl_db c)) = Inr (out, db')
    \<Longrightarrow> cl_now c \<le> clock \<Longrightarrow> clock \<le> clock'
    \<Longrightarrow> shared_step digest od sd settings c (c\<lparr>cl_now := clock', cl_db := db', cl_claims := cl_claims c @ given out\<rparr>)"
| heartbeat: "transaction up (heartbeat settings clock clock' job (cl_db c)) = Inr (b, db') \<Longrightarrow> cl_now c \<le> clock \<Longrightarrow> clock \<le> clock'
    \<Longrightarrow> shared_step digest od sd settings c (c\<lparr>cl_now := clock', cl_db := db'\<rparr>)"
| progress: "transaction up (pg_progress ts (cl_now c) job report (cl_db c)) = Inr db'
    \<Longrightarrow> shared_step digest od sd settings c (c\<lparr>cl_db := db'\<rparr>)"
| finish: "transaction up (pg_finish ts clock clock' job status result code message (cl_db c)) = Inr (run, db')
    \<Longrightarrow> (result \<noteq> None \<Longrightarrow> status = COMPLETED) \<Longrightarrow> cl_now c \<le> clock \<Longrightarrow> clock \<le> clock'
    \<Longrightarrow> shared_step digest od sd settings c (c\<lparr>cl_now := clock', cl_db := db'\<rparr>)"

inductive shared_reach :: "(RunRequest \<Rightarrow> string) \<Rightarrow> (string list \<Rightarrow> string) \<Rightarrow> (string list list \<Rightarrow> string) \<Rightarrow> SharedStateSettings
    \<Rightarrow> cluster \<Rightarrow> bool" for digest od sd settings where
  empty: "make_shared_settings given_settings = Inr settings
    \<Longrightarrow> shared_reach digest od sd settings \<lparr>cl_now = t, cl_db = empty_shared, cl_claims = []\<rparr>"
| step: "shared_reach digest od sd settings c \<Longrightarrow> shared_step digest od sd settings c c' \<Longrightarrow> shared_reach digest od sd settings c'"

lemma heartbeat_same:
  assumes "shared_ok digest od sd settings claims db" "heartbeat settings clock clock' job db = Inr (b, db')"
  shows "shared_ok digest od sd settings claims db'" "journal db' = journal db"
  using heartbeat_keeps [OF assms(1), of clock clock' job] assms(2) by auto

lemma shared_step_keeps:
  assumes "shared_step digest od sd settings c c'" "shared_ok digest od sd settings (cl_claims c) (cl_db c)"
  shows "keeps_shared digest od sd settings (cl_claims c) (cl_db c) (cl_claims c') (cl_db c')"
  using assms
proof cases
  case (time t)
  with keeps_same [OF assms(2)] show ?thesis by simp
next
  case (create up owner scope cid now created v db')
  with pg_create_keeps [OF assms(2), of owner scope cid now created v db'] show ?thesis by simp
next
  case (enqueue up rid ts ts' created owner scope request binding grant run db')
  with pg_enqueue_keeps [OF assms(2), of rid ts ts' created "cl_now c" owner scope request binding grant run db'] show ?thesis by simp
next
  case (cancel up ts owner scope rid run db')
  with pg_cancel_writes [OF assms(2), of rid ts owner scope] shared_write_keeps [OF _ assms(2), of rid run db'] show ?thesis by simp
next
  case (delete up owner scope cid db')
  with pg_delete_keeps [OF assms(2), of owner scope cid db'] show ?thesis by simp
next
  case (claim up binding locked fence tss clock clock' out db')
  with claim_keeps [OF assms(2), of binding locked fence tss clock clock'] show ?thesis by auto
next
  case (heartbeat up clock clock' job b db')
  with heartbeat_same [OF assms(2), of clock clock' job b db'] keeps_same [OF assms(2)] show ?thesis
    by (simp add: keeps_shared_def)
next
  case (progress up ts job report db')
  with pg_progress_writes [OF assms(2), of job ts "cl_now c" report] shared_write_keeps [OF _ assms(2)] show ?thesis by auto
next
  case (finish up ts clock clock' job status result code message run db')
  with pg_finish_writes(1) [OF assms(2), of result status job ts clock clock' code message] shared_write_keeps [OF _ assms(2), of "job_id job" run db']
  show ?thesis by simp
qed

lemma empty_shared_ok:
  assumes "make_shared_settings s = Inr settings"
  shows "shared_ok digest od sd settings [] empty_shared"
proof -
  have "journal empty_shared = empty_runs" by (simp add: journal_def empty_shared_def empty_runs_def)
  moreover have "ss_maximum_running settings \<ge> 1" "ss_maximum_running_per_tenant settings \<ge> 1" "ss_maximum_pending settings \<ge> 1"
    using assms by (auto simp: make_shared_settings_def split: if_splits)
  ultimately show ?thesis using empty_ok [of digest]
    by (simp add: shared_ok_def within_limits_def running_def tenant_running_def queued_def capacity_ok_def owners_def)
       (simp add: empty_shared_def empty_runs_def)
qed

lemma shared_reach_ok: "shared_reach digest od sd settings c \<Longrightarrow> shared_ok digest od sd settings (cl_claims c) (cl_db c)"
proof (induction rule: shared_reach.induct)
  case (empty s t)
  from empty_shared_ok [OF empty] show ?case by simp
next
  case (step c c')
  from shared_step_keeps [OF step(2,3)] show ?case by (simp add: keeps_shared_def)
qed

lemma shared_step_grows:
  assumes "shared_step digest od sd settings c c'"
  shows "set (cl_claims c) \<subseteq> set (cl_claims c')" "cl_now c \<le> cl_now c'"
  using assms by (induction rule: shared_step.induct) auto

subsection \<open>Results\<close>

lemma new_result_completed:
  assumes "moved\<^sup>*\<^sup>* a b" "rs_result a = None" "rs_result b \<noteq> None"
  shows "rs_status b = COMPLETED"
  using assms by (cases rule: rtranclp.cases) (auto simp: moved_def)

lemma shared_write_read:
  assumes "shared_write digest od sd settings claims db rid (Inr (run, db'))"
    and "pg_read_run db i = Inr a" "pg_read_run db' i = Inr b"
  shows "if i = rid then b = run else b = a"
  using assms by (auto simp: shared_write_def one_write_def pg_read_run_def)

lemma result_needs_finish:
  assumes ok: "shared_ok digest od sd settings (cl_claims c) (cl_db c)" and s: "shared_step digest od sd settings c c'"
    and a: "pg_read_run (cl_db c) rid = Inr a" "rs_result a = None" and b: "pg_read_run (cl_db c') rid = Inr b" "rs_result b \<noteq> None"
  shows "\<exists>ts clock clock' job status result code message. cl_now c \<le> clock \<and> clock' = cl_now c' \<and> rid = job_id job
    \<and> (result \<noteq> None \<longrightarrow> status = COMPLETED) \<and> pg_finish ts clock clock' job status result code message (cl_db c) = Inr (b, cl_db c')"
proof -
  from ok have j: "journal_ok digest (journal (cl_db c))" by (simp add: shared_ok_def)
  note k = shared_step_keeps [OF s ok]
  then have "moved\<^sup>*\<^sup>* a b" using a(1) b(1) by (auto simp: keeps_shared_def steps_to_def pg_read_run_def)
  from new_result_completed [OF this a(2) b(2)] have fin: "rs_status b = COMPLETED" .
  have ne: "b \<noteq> a" using a(2) b(2) by auto
  from s show ?thesis
  proof cases
    case (finish up ts clock clock' job status result code message run db')
    from finish have f: "pg_finish ts clock clock' job status result code message (cl_db c) = Inr (run, db')" by simp
    with pg_finish_writes(1) [OF ok, of result status job ts clock clock' code message] finish
    have "shared_write digest od sd settings (cl_claims c) (cl_db c) (job_id job) (Inr (run, db'))" by simp
    from shared_write_read [OF this a(1), of b] b finish ne have "rid = job_id job" "b = run" by (auto split: if_splits)
    with f finish show ?thesis
      by (intro exI [of _ ts] exI [of _ clock] exI [of _ clock'] exI [of _ job] exI [of _ status] exI [of _ result] exI [of _ code]
            exI [of _ message]) simp
  next
    case (create up owner scope cid now created v db')
    have "pg_read_run db' rid = pg_read_run (cl_db c) rid"
      using create by (auto simp: pg_create_conversation_def pg_read_run_def read_run_def Let_def split: if_splits)
    with create a b ne show ?thesis by simp
  next
    case (enqueue up r ts ts' created owner scope request binding grant run db')
    then have e: "pg_enqueue od sd settings digest r ts ts' created (cl_now c) owner scope request binding grant (cl_db c) = Inr (run, db')"
      by simp
    then obtain conv where conv: "pg_conversation (cl_db c) owner scope (rq_conversation_id request) = Inr conv"
      by (cases "pg_conversation (cl_db c) owner scope (rq_conversation_id request)") (auto simp: pg_enqueue_def split: if_splits)
    from e have "db' = cl_db c \<or> pg_accept settings digest r ts ts' created conv request binding grant (cl_db c) = Inr (run, db')"
      unfolding pg_enqueue_def conv sum.case
      by (cases "existing_row digest (cl_db c) request") (auto split: option.splits if_splits)
    then have "pg_read_run db' rid = Inr a"
    proof
      assume "pg_accept settings digest r ts ts' created conv request binding grant (cl_db c) = Inr (run, db')"
      note q = enqueue_ok [OF j pg_accept_journal(1) [OF conv this]]
      from q(4) a(1) have "rid \<noteq> r" by (auto simp: pg_read_run_def)
      with q(3) a(1) show ?thesis by (simp add: pg_read_run_def)
    qed (use a in simp)
    with enqueue b ne show ?thesis by simp
  next
    case (cancel up ts owner scope r run db')
    then have e: "pg_cancel ts owner scope r (cl_db c) = Inr (run, db')" by simp
    with pg_cancel_writes [OF ok, of r ts owner scope]
    have w: "shared_write digest od sd settings (cl_claims c) (cl_db c) r (Inr (run, db'))" by simp
    from e have "db' = cl_db c \<or> rs_status run \<in> {CANCELLED, CANCELLATION_REQUESTED}"
      by (auto simp: pg_cancel_def pg_write_def Let_def split: sum.splits if_splits)
    with shared_write_read [OF w a(1), of b] b cancel ne fin a show ?thesis by (auto split: if_splits)
  next
    case (delete up owner scope cid db')
    with pg_delete_journal(1) [of owner scope cid "cl_db c" db'] have "journal db' = drop_conversation cid (journal (cl_db c))"
      by (auto simp: delete_conversation_def split: sum.splits if_splits)
    with drop_read [OF _ j, of cid rid b] b delete have "pg_read_run (cl_db c) rid = Inr b" by (simp add: pg_read_run_def)
    with a ne show ?thesis by simp
  next
    case (claim up binding locked fence tss clock clock' out db')
    with claim_keeps [OF ok, of binding locked fence tss clock clock'] have rows: "claimed_rows clock out (cl_db c) db'" by auto
    from k have j': "journal_ok digest (journal (cl_db c'))" by (simp add: keeps_shared_def shared_ok_def)
    obtain p where p: "p \<in> set (pg_runs (cl_db c'))" "lw_id p = rid" "rw_payload (lw_row p) = b" "lw_status p = rs_status b"
      by (rule pg_read_run_row [OF j' b(1)])
    from rows [unfolded claimed_rows_def] p(1) claim obtain q where q: "q \<in> set (pg_runs (cl_db c))" "lw_id p = lw_id q"
      "p = q \<or> lw_status p \<in> {INTERRUPTED, RUNNING}" by (auto split: if_splits)
    from q(3) p(4) fin have "p = q" by auto
    with row_of_shared(1) [OF j q(1)] p a(1) ne show ?thesis by simp
  next
    case (heartbeat up clock clock' job x db')
    with heartbeat_same [OF ok, of clock clock' job x db'] a b ne show ?thesis by (simp add: pg_read_run_def)
  next
    case (progress up ts job report db')
    then have e: "pg_progress ts (cl_now c) job report (cl_db c) = Inr db'" by simp
    with pg_progress_writes [OF ok, of job ts "cl_now c" report] obtain run where
      w: "shared_write digest od sd settings (cl_claims c) (cl_db c) (job_id job) (Inr (run, db'))" "db' = cl_db c \<or> rs_status run = RUNNING"
      by auto
    from shared_write_read [OF w(1) a(1), of b] w(2) b progress ne fin a show ?thesis by (auto split: if_splits)
  next
    case (time t)
    with a b ne show ?thesis by simp
  qed
qed

subsection \<open>Properties\<close>

text \<open>C27: Whatever services and workers do in whatever order, the shared tables are well-formed: on the common
  columns the invariant of the local journal; never more runs at work than the limits allow, in all and for
  a tenant, and never more waiting; every run carries the unexpired-until authority that its conversation's
  owner gave it; and a run at work is leased to the one claim that was handed out for it.\<close>

theorem shared_state_is_well_formed:
  "shared_reach digest od sd settings c \<Longrightarrow> shared_ok digest od sd settings (cl_claims c) (cl_db c)"
  by (rule shared_reach_ok)

lemma shared_steps_grow:
  "(shared_step digest od sd settings)\<^sup>*\<^sup>* c c' \<Longrightarrow> set (cl_claims c) \<subseteq> set (cl_claims c')"
  by (induction rule: rtranclp_induct) (use shared_step_grows(1) in blast)+

lemma shared_steps_reach:
  "(shared_step digest od sd settings)\<^sup>*\<^sup>* c c' \<Longrightarrow> shared_reach digest od sd settings c \<Longrightarrow> shared_reach digest od sd settings c'"
  by (induction rule: rtranclp_induct) (auto intro: shared_reach.step)

text \<open>C28: No run is handed out twice, whatever leases expire and workers stop: a later claim of the same run is
  the claim that was already made.\<close>

theorem runs_are_dispatched_once:
  assumes "shared_reach digest od sd settings c" "(shared_step digest od sd settings)\<^sup>*\<^sup>* c c'"
    and "j \<in> set (cl_claims c)" "j' \<in> set (cl_claims c')" "job_id j' = job_id j"
  shows "j' = j"
proof -
  from shared_reach_ok [OF shared_steps_reach [OF assms(2,1)]] have "distinct (map job_id (cl_claims c'))"
    by (simp add: shared_ok_def)
  moreover have "j \<in> set (cl_claims c')" using shared_steps_grow [OF assms(2)] assms(3) by blast
  ultimately show ?thesis using assms(4,5) by (auto simp: distinct_map inj_on_def)
qed

text \<open>A call of \<open>finish\<close> for a job that turns the tables of \<open>c\<close> into those of \<open>c'\<close> and returns the run \<open>b\<close>.\<close>

definition finished_by :: "ClaimedRun \<Rightarrow> cluster \<Rightarrow> cluster \<Rightarrow> RunSnapshot \<Rightarrow> bool" where
  "finished_by job c c' b \<longleftrightarrow> (\<exists>ts clock status result code message. cl_now c \<le> clock \<and> (result \<noteq> None \<longrightarrow> status = COMPLETED)
     \<and> pg_finish ts clock (cl_now c') job status result code message (cl_db c) = Inr (b, cl_db c'))"

lemma new_result_is_finished:
  assumes "shared_ok digest od sd settings (cl_claims c) (cl_db c)" "shared_step digest od sd settings c c'"
    and "pg_read_run (cl_db c) rid = Inr a" "rs_result a = None" "pg_read_run (cl_db c') rid = Inr b" "rs_result b \<noteq> None"
  shows "\<exists>job. finished_by job c c' b"
  using result_needs_finish [OF assms] unfolding finished_by_def by blast

text \<open>Such a call was made for the run itself, with the fence of its row, before the lease ended and while the authority stood.\<close>

lemma finished_by_owner:
  assumes ok: "shared_ok digest od sd settings (cl_claims c) (cl_db c)" and f: "finished_by job c c' b"
    and ab: "pg_read_run (cl_db c) rid = Inr a" "rs_result a = None" "pg_read_run (cl_db c') rid = Inr b" "rs_result b \<noteq> None"
  obtains r where "job_id job = rid" "r \<in> set (pg_runs (cl_db c))" "lw_id r = rid" "lw_fence r = Some (cj_fence job)" "lease_open (cl_now c) r"
    "cl_now c' < lw_expires_at r" "lw_status r = RUNNING" "rs_status a = RUNNING" "rs_status b = COMPLETED"
    "rq_conversation_id (rs_request b) = rw_conversation (lw_row r)"
proof -
  from ok have j: "journal_ok digest (journal (cl_db c))" by (simp add: shared_ok_def)
  from f obtain ts clock status result code message where t: "cl_now c \<le> clock" and res: "result \<noteq> None \<Longrightarrow> status = COMPLETED"
    and e: "pg_finish ts clock (cl_now c') job status result code message (cl_db c) = Inr (b, cl_db c')" unfolding finished_by_def by blast
  note w = pg_finish_writes [OF ok, of result status, OF res]
  from w(1) [of job ts clock "cl_now c'" code message] e
  have "shared_write digest od sd settings (cl_claims c) (cl_db c) (job_id job) (Inr (b, cl_db c'))" by simp
  from shared_write_read [OF this ab(1,3)] ab(2,4) have id: "job_id job = rid" by (auto split: if_splits)
  from w(2) [OF _ e] obtain a' where own: "owned_run clock job (cl_db c) = Inr a'" and m: "moved a' b"
    and code: "(rs_status b, rs_result b, rs_error_code b, rs_message b)
      = finish_code (rs_status a' = CANCELLATION_REQUESTED) (authority_left (cl_now c') (job_id job) (cl_db c)) (status, result, code, message)"
    by blast
  obtain r where r: "r \<in> set (pg_runs (cl_db c))" "lw_id r = job_id job" "lw_fence r = Some (cj_fence job)" "rw_payload (lw_row r) = a'"
    "lw_status r = rs_status a'" "lease_open clock r" "rs_status a' \<in> RUNNING_STATES" "pg_read_run (cl_db c) (job_id job) = Inr a'"
    by (rule owned_run_row [OF j own])
  with ab(1) id have a: "a' = a" by simp
  from code ab(4) have auth: "authority_left (cl_now c') (job_id job) (cl_db c)" and st: "rs_status a \<noteq> CANCELLATION_REQUESTED"
    "rs_status b = status" "rs_result b = result"
    by (auto simp: finish_code_def a split: if_splits)
  from r(7) st(1) have run: "rs_status a = RUNNING" by (simp add: a RUNNING_STATES_def)
  show thesis
  proof (rule that)
    show "cl_now c' < lw_expires_at r" using auth r(1,2) shared_ids_distinct [OF j]
      by (auto simp: authority_left_def list_ex_iff distinct_map inj_on_def)
    show "lease_open (cl_now c) r" using r(6) t by (auto simp: lease_open_def)
    show "rq_conversation_id (rs_request b) = rw_conversation (lw_row r)"
      using m row_of_shared(4) [OF j r(1)] by (simp add: moved_def a r(4))
    show "rs_status b = COMPLETED" using res ab(4) st by simp
  qed (use id r run a in simp_all)
qed

text \<open>C16: A run gets a result only from the worker its claim was handed to: the call that wrote it carried that claim's
  fence, and no call with another fence could have made this step; it was made while the worker's lease was open, its
  authority had not expired and no cancellation was requested; and that authority is the conversation owner's.\<close>

theorem results_are_released_under_lease:
  assumes "shared_reach digest od sd settings c" "shared_step digest od sd settings c c'"
    and "pg_read_run (cl_db c) rid = Inr a" "rs_result a = None" "pg_read_run (cl_db c') rid = Inr b" "rs_result b \<noteq> None"
  shows "rs_status a = RUNNING \<and> rs_status b = COMPLETED \<and> (\<exists>job. finished_by job c c' b)
    \<and> (\<exists>k\<in>set (cl_claims c). job_id k = rid \<and> (\<forall>job. finished_by job c c' b \<longrightarrow> job_id job = rid \<and> cj_fence job = cj_fence k)
      \<and> cl_now c' < eg_expires_at (cj_grant k)
      \<and> (\<exists>r\<in>set (pg_runs (cl_db c)). lw_id r = rid \<and> lw_fence r = Some (cj_fence k) \<and> lease_open (cl_now c) r)
      \<and> (\<exists>v\<in>set (pg_conversations (cl_db c)). cw_id (pc_row v) = rq_conversation_id (rs_request b)
            \<and> principal od sd ''internal'' (eg_access (cj_grant k)) = (cw_owner (pc_row v), cw_scope (pc_row v))))"
proof -
  note ok = shared_reach_ok [OF assms(1)]
  then have j: "journal_ok digest (journal (cl_db c))" by (simp add: shared_ok_def)
  from new_result_is_finished [OF ok assms(2-6)] obtain job where f: "finished_by job c c' b" ..
  obtain r where r: "job_id job = rid" "r \<in> set (pg_runs (cl_db c))" "lw_id r = rid" "lw_fence r = Some (cj_fence job)" "lease_open (cl_now c) r"
    "cl_now c' < lw_expires_at r" "lw_status r = RUNNING" "rs_status a = RUNNING" "rs_status b = COMPLETED"
    "rq_conversation_id (rs_request b) = rw_conversation (lw_row r)"
    by (rule finished_by_owner [OF ok f assms(3-6)])
  from ok r(2) have au: "authority_ok od sd (pg_conversations (cl_db c)) r" and di: "dispatch_ok (cl_claims c) r"
    by (simp_all add: shared_ok_def)
  from di r(7) have "lw_id r \<in> job_id ` set (cl_claims c)" by (simp add: dispatch_ok_def RUNNING_STATES_def)
  then obtain k where k: "k \<in> set (cl_claims c)" "job_id k = rid" using r(3) by auto
  with di r(3) have kk: "lw_fence r = Some (cj_fence k)" "cj_grant k = lw_grant r" by (auto simp: dispatch_ok_def)
  have one: "job_id job' = rid \<and> cj_fence job' = cj_fence k" if g: "finished_by job' c c' b" for job'
  proof -
    obtain q where q: "job_id job' = rid" "q \<in> set (pg_runs (cl_db c))" "lw_id q = rid" "lw_fence q = Some (cj_fence job')"
      by (rule finished_by_owner [OF ok g assms(3-6)])
    with r(2,3) shared_ids_distinct [OF j] have "q = r" by (auto simp: distinct_map inj_on_def)
    with q kk show ?thesis by simp
  qed
  from au r(6,10) kk have "cl_now c' < eg_expires_at (cj_grant k)"
    "\<exists>v\<in>set (pg_conversations (cl_db c)). cw_id (pc_row v) = rq_conversation_id (rs_request b)
        \<and> principal od sd ''internal'' (eg_access (cj_grant k)) = (cw_owner (pc_row v), cw_scope (pc_row v))"
    unfolding authority_ok_def by auto
  with one k kk(1) r f show ?thesis by blast
qed

text \<open>A claim always succeeds: every run whose lease or authority has expired is interrupted without a result,
  nothing else changes but the run handed out, that one is the oldest that may run for the worker's binding
  within its tenant's limit, and none is handed out only when the limit of running work is reached or no
  run may.\<close>

theorem claims_expire_and_dispatch:
  assumes "shared_reach digest od sd settings c"
  shows "\<exists>out db'. claim settings binding locked fence ts clock clock' (cl_db c) = Inr (out, db')
    \<and> claimed_rows clock out (cl_db c) db' \<and> claim_fair settings binding locked clock out (cl_db c) db'"
  using claim_keeps [OF shared_reach_ok [OF assms], of binding locked fence ts clock clock'] by blast

text \<open>On the tables the two stores share, every operation of the shared one is a sequence of moves of the local
  journal: the invariant is kept and every run that stays only moves forward.\<close>

theorem shared_store_refines_journal:
  assumes "shared_reach digest od sd settings c" "shared_step digest od sd settings c c'"
  shows "steps_to digest (journal (cl_db c)) (journal (cl_db c'))"
  using shared_step_keeps [OF assms(2) shared_reach_ok [OF assms(1)]] by (simp add: keeps_shared_def)

subsection \<open>A run on a shared store\<close>

definition demo_settings :: SharedStateSettings where
  "demo_settings = \<lparr>ss_dsn_secret_ref = ''env://STATE'', ss_allow_insecure_loopback = False, ss_lease_seconds = 30,
     ss_heartbeat_seconds = Fin 2, ss_poll_seconds = Fin 1, ss_maximum_pending = 2, ss_maximum_running = 2,
     ss_maximum_running_per_tenant = 1, ss_maximum_conversations = 4\<rparr>"

definition first_text :: "string list \<Rightarrow> string" where
  "first_text xs = concat xs"

definition demo_grant :: ExecutionGrant where
  "demo_grant = \<lparr>eg_access = analyst, eg_expires_at = 50000000\<rparr>"

definition demo_principal :: "string \<times> string" where
  "demo_principal = principal first_text (first_text \<circ> concat) ''internal'' analyst"

definition released :: DemoChatResponse where
  "released = \<lparr>rp_status = CS_ANSWERED, rp_session_id = ''s'', rp_message = ''done'', rp_decision = demo_decision,
     rp_compilation_status = None, rp_query_ir = None, rp_receipt = None, rp_verification = None, rp_answer = None,
     rp_ai_model = None, rp_synthetic_data = True, rp_context_used = False, rp_semantic_context = None, rp_agent_run = None,
     rp_warnings = []\<rparr>"

definition shared1 :: "run_failure + Conversation \<times> shared_db" where
  "shared1 = transaction True (pg_create_conversation demo_settings (fst demo_principal) (snd demo_principal) ''c'' 0 0 empty_shared)"

definition shared2 :: "run_failure + RunSnapshot \<times> shared_db" where
  "shared2 = transaction True (pg_enqueue first_text (first_text \<circ> concat) demo_settings rq_question ''r'' (1, 1) (2, 2) 2 0
     (fst demo_principal) (snd demo_principal) demo_run_request ''b'' demo_grant (snd (projr shared1)))"

definition shared3 :: "run_failure + ClaimedRun option \<times> shared_db" where
  "shared3 = transaction True (claim demo_settings ''b'' [] ''f'' (\<lambda>_. (3, 3)) 3 3 (snd (projr shared2)))"

definition demo_job :: ClaimedRun where
  "demo_job = the (fst (projr shared3))"

definition shared4 :: "run_failure + RunSnapshot \<times> shared_db" where
  "shared4 = transaction True (pg_finish (4, 4) 4 5 demo_job COMPLETED (Some released) None ''done'' (snd (projr shared3)))"

definition cluster1 :: cluster where
  "cluster1 = \<lparr>cl_now = 0, cl_db = snd (projr shared1), cl_claims = []\<rparr>"

definition cluster2 :: cluster where
  "cluster2 = \<lparr>cl_now = 0, cl_db = snd (projr shared2), cl_claims = []\<rparr>"

definition cluster3 :: cluster where
  "cluster3 = \<lparr>cl_now = 3, cl_db = snd (projr shared3), cl_claims = [demo_job]\<rparr>"

definition cluster4 :: cluster where
  "cluster4 = \<lparr>cl_now = 5, cl_db = snd (projr shared4), cl_claims = [demo_job]\<rparr>"

lemma shared_results:
  "make_shared_settings demo_settings = Inr demo_settings"
  "is_ok shared1" "is_ok shared2" "is_ok shared3" "fst (projr shared3) \<noteq> None" "is_ok shared4"
  "case pg_read_run (snd (projr shared3)) ''r'' of Inl e \<Rightarrow> False | Inr a \<Rightarrow> rs_result a = None"
  "case pg_read_run (snd (projr shared4)) ''r'' of Inl e \<Rightarrow> False | Inr a \<Rightarrow> rs_result a \<noteq> None"
  "job_id demo_job = ''r''"
  by code_simp+

lemma is_ok_pair: "is_ok r \<Longrightarrow> r = Inr (fst (projr r), snd (projr r))"
  by (cases r) auto

lemma shared_history:
  "shared_reach rq_question first_text (first_text \<circ> concat) demo_settings cluster3"
  "shared_step rq_question first_text (first_text \<circ> concat) demo_settings cluster3 cluster4"
proof -
  let ?c0 = "\<lparr>cl_now = 0, cl_db = empty_shared, cl_claims = []\<rparr>" and ?sd = "first_text \<circ> concat"
  note ok = is_ok_pair [OF shared_results(2)] is_ok_pair [OF shared_results(3)] is_ok_pair [OF shared_results(4)]
    is_ok_pair [OF shared_results(6)]
  have r0: "shared_reach rq_question first_text ?sd demo_settings ?c0" by (rule shared_reach.empty [OF shared_results(1)])
  have e1: "transaction True (pg_create_conversation demo_settings (fst demo_principal) (snd demo_principal) ''c'' 0 0 (cl_db ?c0))
      = Inr (fst (projr shared1), snd (projr shared1))" using ok(1) by (simp only: shared1_def cluster.simps)
  have "cluster1 = ?c0\<lparr>cl_db := snd (projr shared1)\<rparr>" by (simp only: cluster1_def cluster.simps)
  with shared_step.create [OF e1] r0 have r1: "shared_reach rq_question first_text ?sd demo_settings cluster1"
    by (simp only: shared_reach.step)
  have e2: "transaction True (pg_enqueue first_text ?sd demo_settings rq_question ''r'' (1, 1) (2, 2) 2 (cl_now cluster1)
      (fst demo_principal) (snd demo_principal) demo_run_request ''b'' demo_grant (cl_db cluster1))
      = Inr (fst (projr shared2), snd (projr shared2))" using ok(2) by (simp only: shared2_def cluster1_def cluster.simps)
  have "cluster2 = cluster1\<lparr>cl_db := snd (projr shared2)\<rparr>" by (simp only: cluster1_def cluster2_def cluster.simps)
  moreover have "''r'' \<notin> job_id ` set (cl_claims cluster1)" by (simp add: cluster1_def)
  ultimately have r2: "shared_reach rq_question first_text ?sd demo_settings cluster2"
    using shared_reach.step [OF r1 shared_step.enqueue [OF e2]] by (simp only: not_False_eq_True simp_thms)
  have e3: "transaction True (claim demo_settings ''b'' [] ''f'' (\<lambda>_. (3, 3)) 3 3 (cl_db cluster2))
      = Inr (fst (projr shared3), snd (projr shared3))" using ok(3) by (simp only: shared3_def cluster2_def cluster.simps)
  have "given (fst (projr shared3)) = [demo_job]" using shared_results(5) by (auto simp: given_def demo_job_def)
  then have "cluster3 = cluster2\<lparr>cl_now := 3, cl_db := snd (projr shared3), cl_claims := cl_claims cluster2 @ given (fst (projr shared3))\<rparr>"
    by (simp add: cluster2_def cluster3_def)
  moreover have "cl_now cluster2 \<le> 3" by (simp add: cluster2_def)
  ultimately show "shared_reach rq_question first_text ?sd demo_settings cluster3"
    using shared_reach.step [OF r2 shared_step.claim [OF e3]] by (simp only: order_refl)
  have e4: "transaction True (pg_finish (4, 4) 4 5 demo_job COMPLETED (Some released) None ''done'' (cl_db cluster3))
      = Inr (fst (projr shared4), snd (projr shared4))" using ok(4) by (simp only: shared4_def cluster3_def cluster.simps)
  have "cluster4 = cluster3\<lparr>cl_now := 5, cl_db := snd (projr shared4)\<rparr>" by (simp only: cluster3_def cluster4_def cluster.simps)
  then show "shared_step rq_question first_text ?sd demo_settings cluster3 cluster4"
    using shared_step.finish [OF e4 refl, of rq_question first_text ?sd demo_settings] by (simp add: cluster3_def)
qed

theorem shared_state_is_well_formed_witness:
  "shared_ok rq_question first_text (first_text \<circ> concat) demo_settings [demo_job] (snd (projr shared3))"
  using shared_state_is_well_formed [OF shared_history(1)] by (simp add: cluster3_def)

theorem runs_are_dispatched_once_witness: "{j' \<in> set (cl_claims cluster4). job_id j' = ''r''} \<subseteq> {demo_job}"
proof
  fix j' assume "j' \<in> {j' \<in> set (cl_claims cluster4). job_id j' = ''r''}"
  then have j': "j' \<in> set (cl_claims cluster4)" "job_id j' = ''r''" by simp_all
  then have "job_id j' = job_id demo_job" by (simp only: shared_results(9))
  have "(shared_step rq_question first_text (first_text \<circ> concat) demo_settings)\<^sup>*\<^sup>* cluster3 cluster4"
    using shared_history(2) by (rule r_into_rtranclp)
  moreover have "demo_job \<in> set (cl_claims cluster3)" by (simp add: cluster3_def)
  ultimately show "j' \<in> {demo_job}"
    using runs_are_dispatched_once [OF shared_history(1) _ _ j'(1)] \<open>job_id j' = job_id demo_job\<close> by blast
qed

theorem results_are_released_under_lease_witness:
  "\<exists>k\<in>set (cl_claims cluster3). job_id k = ''r'' \<and> cl_now cluster4 < eg_expires_at (cj_grant k)
     \<and> (\<exists>b. pg_read_run (cl_db cluster4) ''r'' = Inr b \<and> (\<exists>job. finished_by job cluster3 cluster4 b \<and> cj_fence job = cj_fence k))"
proof -
  from shared_results(7,8) obtain a b where ab: "pg_read_run (cl_db cluster3) ''r'' = Inr a" "rs_result a = None"
    "pg_read_run (cl_db cluster4) ''r'' = Inr b" "rs_result b \<noteq> None"
    by (auto simp: cluster3_def cluster4_def split: sum.splits)
  from results_are_released_under_lease [OF shared_history ab] ab(3) show ?thesis by blast
qed

theorem claims_expire_and_dispatch_witness:
  "\<exists>out db'. claim demo_settings ''b'' [] ''g'' (\<lambda>_. (9, 9)) 40000000 40000000 (cl_db cluster3) = Inr (out, db')
    \<and> claimed_rows 40000000 out (cl_db cluster3) db'"
  using claims_expire_and_dispatch [OF shared_history(1)] by blast

theorem shared_store_refines_journal_witness:
  "steps_to rq_question (journal (snd (projr shared3))) (journal (snd (projr shared4)))"
  using shared_store_refines_journal [OF shared_history] by (simp add: cluster3_def cluster4_def)

end
