(* ===== verification/Workers.thy ===== *)
theory Workers
  imports SharedHistory
begin

section \<open>Workers: the coordinator and the workers of a shared store\<close>

text \<open>
  \<open>services/distributed_runs.py\<close>.  A worker is a process of its own: it claims runs, works on each in
  a task, renews the lease while it works and writes the end.  Every transaction is a step of the shared
  store, so that the steps of several workers, of the services and of the clock interleave freely.  What a
  job computes (\<open>operation\<close>), whether its authority still stands (\<open>authorize\<close>) and whether the database
  answers are parameters of the steps; an operation that is cancelled ends cancelled.
\<close>

subsection \<open>Admission\<close>

record distributed_coordinator =
  dc_closing :: bool

definition submit_shared :: "bool \<Rightarrow> (string list \<Rightarrow> string) \<Rightarrow> (string list list \<Rightarrow> string) \<Rightarrow> SharedStateSettings \<Rightarrow> (RunRequest \<Rightarrow> string)
    \<Rightarrow> uuid \<Rightarrow> instant \<times> instant \<Rightarrow> instant \<times> instant \<Rightarrow> instant \<Rightarrow> instant \<Rightarrow> string \<Rightarrow> string \<Rightarrow> RunRequest \<Rightarrow> string \<Rightarrow> ExecutionGrant
    \<Rightarrow> distributed_coordinator \<Rightarrow> shared_db \<Rightarrow> run_failure + RunSnapshot \<times> shared_db" where
  "submit_shared up od sd settings digest rid ts ts' created clock owner scope request binding grant co db =
     (if dc_closing co then Inl (RunError ''Admission is stopping. Retry the same request ID.'' 503)
      else transaction up (pg_enqueue od sd settings digest rid ts ts' created clock owner scope request binding grant db))"

definition close_admission :: "distributed_coordinator \<Rightarrow> distributed_coordinator" where
  "close_admission co = co\<lparr>dc_closing := True\<rparr>"

subsection \<open>A worker\<close>

text \<open>Where a task is: not entered yet; at its first check; awaiting the operation; awaiting the write of the answer,
  of the failure or of the interruption; or cancelled before it was entered.\<close>

datatype task_phase = Created | Checking | Working | Releasing | Failing | Stopping | Dropped

text \<open>A call of \<open>finish\<close> handed to a thread.  The thread goes on when the task that awaits it is cancelled.\<close>

record handed_write =
  hw_job :: ClaimedRun
  hw_status :: RunStatus
  hw_result :: "DemoChatResponse option"
  hw_code :: "string option"
  hw_message :: string

record worker =
  wk_binding :: string
  wk_maximum_active :: int
  wk_tasks :: "(uuid \<times> task_phase) list"
  wk_jobs :: "(uuid \<times> ClaimedRun) list"
  wk_writes :: "handed_write list"
  wk_stop :: bool
  wk_healthy :: bool

definition new_worker :: "string \<Rightarrow> int \<Rightarrow> worker" where
  "new_worker binding maximum = \<lparr>wk_binding = binding, wk_maximum_active = maximum, wk_tasks = [], wk_jobs = [],
     wk_writes = [], wk_stop = False, wk_healthy = False\<rparr>"

definition adopt :: "ClaimedRun \<Rightarrow> worker \<Rightarrow> worker" where
  "adopt job w = w\<lparr>wk_jobs := AList.update (job_id job) job (wk_jobs w), wk_tasks := AList.update (job_id job) Created (wk_tasks w)\<rparr>"

text \<open>One round of the loop of \<open>tick\<close>: whether the loop goes on, the claim that was made and the worker afterwards.\<close>

definition tick_round :: "bool \<Rightarrow> SharedStateSettings \<Rightarrow> uuid list \<Rightarrow> uuid \<Rightarrow> (uuid \<Rightarrow> instant \<times> instant) \<Rightarrow> instant \<Rightarrow> instant
    \<Rightarrow> worker \<Rightarrow> shared_db \<Rightarrow> run_failure + bool \<times> ClaimedRun option \<times> worker \<times> shared_db" where
  "tick_round up settings locked fence ts clock clock' w db =
     (if \<not> (int (length (wk_tasks w)) < wk_maximum_active w \<and> \<not> wk_stop w) then Inr (False, None, w, db)
      else (case transaction up (claim settings (wk_binding w) locked fence ts clock clock' db) of
          Inl e \<Rightarrow> Inl e
        | Inr (None, db') \<Rightarrow> Inr (False, None, w, db')
        | Inr (Some job, db') \<Rightarrow> Inr (True, Some job, adopt job w, db')))"

text \<open>\<open>_poll\<close> records whether a tick went through.\<close>

definition poll_result :: "bool \<Rightarrow> worker \<Rightarrow> worker" where
  "poll_result ok w = w\<lparr>wk_healthy := ok\<rparr>"

subsection \<open>The task of a job\<close>

definition set_phase :: "uuid \<Rightarrow> task_phase \<Rightarrow> worker \<Rightarrow> worker" where
  "set_phase rid p w = w\<lparr>wk_tasks := AList.update rid p (wk_tasks w)\<rparr>"

definition drop_task :: "uuid \<Rightarrow> worker \<Rightarrow> worker" where
  "drop_task rid w = w\<lparr>wk_tasks := AList.delete rid (wk_tasks w), wk_jobs := AList.delete rid (wk_jobs w)\<rparr>"

text \<open>Handing a write to a thread and awaiting it in a phase.\<close>

definition hand_over :: "task_phase \<Rightarrow> handed_write \<Rightarrow> worker \<Rightarrow> worker" where
  "hand_over p h w = (set_phase (job_id (hw_job h)) p w)\<lparr>wk_writes := wk_writes w @ [h]\<rparr>"

text \<open>The two handlers of \<open>_execute\<close>.\<close>

definition fail_task :: "ClaimedRun \<Rightarrow> worker \<Rightarrow> worker" where
  "fail_task job = hand_over Failing \<lparr>hw_job = job, hw_status = FAILED, hw_result = None, hw_code = Some ''RUN_FAILED'',
     hw_message = ''The run failed; no answer was released.''\<rparr>"

definition stop_task :: "ClaimedRun \<Rightarrow> worker \<Rightarrow> worker" where
  "stop_task job = hand_over Stopping \<lparr>hw_job = job, hw_status = INTERRUPTED, hw_result = None, hw_code = Some ''WORKER_STOPPED'',
     hw_message = ''Execution stopped; no automatic rerun.''\<rparr>"

text \<open>Before the operation: the authority and one heartbeat.\<close>

definition begin_task :: "bool \<Rightarrow> bool \<Rightarrow> SharedStateSettings \<Rightarrow> instant \<Rightarrow> instant \<Rightarrow> ClaimedRun \<Rightarrow> worker \<Rightarrow> shared_db \<Rightarrow> worker \<times> shared_db" where
  "begin_task up authorized settings clock clock' job w db =
     (if \<not> authorized then (fail_task job w, db)
      else (case transaction up (heartbeat settings clock clock' job db) of
          Inl e \<Rightarrow> (fail_task job w, db)
        | Inr (alive, db') \<Rightarrow> (if alive then set_phase (job_id job) Working w else fail_task job w, db')))"

text \<open>One round of \<open>_monitor\<close>: a refusal cancels the operation.\<close>

definition monitor_round :: "bool \<Rightarrow> bool \<Rightarrow> SharedStateSettings \<Rightarrow> instant \<Rightarrow> instant \<Rightarrow> ClaimedRun \<Rightarrow> worker \<Rightarrow> shared_db \<Rightarrow> worker \<times> shared_db" where
  "monitor_round up authorized settings clock clock' job w db =
     (if \<not> authorized then (stop_task job w, db)
      else (case transaction up (heartbeat settings clock clock' job db) of
          Inl e \<Rightarrow> (stop_task job w, db)
        | Inr (alive, db') \<Rightarrow> (if alive then w else stop_task job w, db')))"

text \<open>The operation returned: the authority is checked again before the answer is handed to the store.\<close>

definition release_task :: "bool \<Rightarrow> ClaimedRun \<Rightarrow> DemoChatResponse \<Rightarrow> worker \<Rightarrow> worker" where
  "release_task authorized job result w =
     (if \<not> authorized then fail_task job w
      else hand_over Releasing \<lparr>hw_job = job, hw_status = COMPLETED, hw_result = Some result, hw_code = None,
             hw_message = rp_message result\<rparr> w)"

text \<open>Whether the task of a write still awaits it.\<close>

definition expected :: "task_phase \<Rightarrow> handed_write \<Rightarrow> bool" where
  "expected p h = (case p of Releasing \<Rightarrow> hw_status h = COMPLETED | Failing \<Rightarrow> hw_status h = FAILED
     | Stopping \<Rightarrow> hw_status h = INTERRUPTED | _ \<Rightarrow> False)"

definition awaited :: "handed_write \<Rightarrow> worker \<Rightarrow> bool" where
  "awaited h w = (case map_of (wk_tasks w) (job_id (hw_job h)) of None \<Rightarrow> False | Some p \<Rightarrow> expected p h)"

text \<open>A write returned: a refused answer is a failure of the task, the handlers suppress a refusal.\<close>

definition written :: "handed_write \<Rightarrow> bool \<Rightarrow> worker \<Rightarrow> worker" where
  "written h ok w =
     (let w' = w\<lparr>wk_writes := remove1 h (wk_writes w)\<rparr>
      in if \<not> awaited h w then w'
         else if \<not> ok \<and> hw_status h = COMPLETED then fail_task (hw_job h) w'
         else drop_task (job_id (hw_job h)) w')"

definition commit_write :: "bool \<Rightarrow> instant \<times> instant \<Rightarrow> instant \<Rightarrow> instant \<Rightarrow> handed_write \<Rightarrow> worker \<Rightarrow> shared_db \<Rightarrow> worker \<times> shared_db" where
  "commit_write up ts clock clock' h w db =
     (case transaction up (pg_finish ts clock clock' (hw_job h) (hw_status h) (hw_result h) (hw_code h) (hw_message h) db) of
        Inl e \<Rightarrow> (written h False w, db)
      | Inr (run, db') \<Rightarrow> (written h True w, db'))"

subsection \<open>Closing\<close>

definition stop_worker :: "worker \<Rightarrow> worker" where
  "stop_worker w = w\<lparr>wk_stop := True\<rparr>"

text \<open>Cancelling: a task that was not entered never runs, one that waits goes to its handler, one in a handler is
  torn out of it.\<close>

definition cancel_task :: "ClaimedRun \<Rightarrow> worker \<Rightarrow> worker" where
  "cancel_task job w =
     (case map_of (wk_tasks w) (job_id job) of
        Some Created \<Rightarrow> set_phase (job_id job) Dropped w
      | Some Checking \<Rightarrow> stop_task job w
      | Some Working \<Rightarrow> stop_task job w
      | Some Releasing \<Rightarrow> stop_task job w
      | Some Failing \<Rightarrow> drop_task (job_id job) w
      | Some Stopping \<Rightarrow> drop_task (job_id job) w
      | _ \<Rightarrow> w)"

text \<open>The jobs that are left when every task is over.\<close>

definition fence_job :: "bool \<Rightarrow> instant \<times> instant \<Rightarrow> instant \<Rightarrow> instant \<Rightarrow> ClaimedRun \<Rightarrow> worker \<Rightarrow> shared_db \<Rightarrow> worker \<times> shared_db" where
  "fence_job up ts clock clock' job w db =
     (w\<lparr>wk_jobs := AList.delete (job_id job) (wk_jobs w)\<rparr>,
      case transaction up (pg_finish ts clock clock' job INTERRUPTED None (Some ''WORKER_STOPPED'') ''Run finished.'' db) of
        Inl e \<Rightarrow> db | Inr (run, db') \<Rightarrow> db')"

definition closed_worker :: "worker \<Rightarrow> worker" where
  "closed_worker w = w\<lparr>wk_tasks := [], wk_jobs := [], wk_healthy := False\<rparr>"

subsection \<open>The steps of a worker and of a fleet\<close>

text \<open>A step of a worker on the store, with whether the database answers and whether a job's authority stands.  A task
  whose operation raises fails; a write nobody awaits may be lost with the thread pool; a heartbeat handed to a
  thread may go through after its task is over.\<close>

inductive worker_step :: "SharedStateSettings \<Rightarrow> bool \<Rightarrow> (ClaimedRun \<Rightarrow> bool) \<Rightarrow> worker \<times> cluster \<Rightarrow> worker \<times> cluster \<Rightarrow> bool"
    for settings up authority where
  tick: "tick_round up settings locked fence tss clock clock' w (cl_db c) = Inr (go, out, w', db') \<Longrightarrow> cl_now c \<le> clock \<Longrightarrow> clock \<le> clock'
    \<Longrightarrow> worker_step settings up authority (w, c) (w', c\<lparr>cl_now := clock', cl_db := db', cl_claims := cl_claims c @ given out\<rparr>)"
| poll: "worker_step settings up authority (w, c) (poll_result ok w, c)"
| enter: "map_of (wk_tasks w) rid = Some Created \<Longrightarrow> worker_step settings up authority (w, c) (set_phase rid Checking w, c)"
| start: "map_of (wk_tasks w) rid = Some Checking \<Longrightarrow> map_of (wk_jobs w) rid = Some job \<Longrightarrow> cl_now c \<le> clock \<Longrightarrow> clock \<le> clock'
    \<Longrightarrow> begin_task up (authority job) settings clock clock' job w (cl_db c) = (w', db')
    \<Longrightarrow> worker_step settings up authority (w, c) (w', c\<lparr>cl_now := clock', cl_db := db'\<rparr>)"
| monitor: "map_of (wk_tasks w) rid = Some Working \<Longrightarrow> map_of (wk_jobs w) rid = Some job \<Longrightarrow> cl_now c \<le> clock \<Longrightarrow> clock \<le> clock'
    \<Longrightarrow> monitor_round up (authority job) settings clock clock' job w (cl_db c) = (w', db')
    \<Longrightarrow> worker_step settings up authority (w, c) (w', c\<lparr>cl_now := clock', cl_db := db'\<rparr>)"
| progress: "map_of (wk_tasks w) rid = Some Working \<Longrightarrow> map_of (wk_jobs w) rid = Some job
    \<Longrightarrow> transaction up (pg_progress ts (cl_now c) job report (cl_db c)) = Inr db'
    \<Longrightarrow> worker_step settings up authority (w, c) (w, c\<lparr>cl_db := db'\<rparr>)"
| raised: "map_of (wk_tasks w) rid = Some Working \<Longrightarrow> map_of (wk_jobs w) rid = Some job
    \<Longrightarrow> worker_step settings up authority (w, c) (fail_task job w, c)"
| release: "map_of (wk_tasks w) rid = Some Working \<Longrightarrow> map_of (wk_jobs w) rid = Some job
    \<Longrightarrow> worker_step settings up authority (w, c) (release_task (authority job) job result w, c)"
| commit: "h \<in> set (wk_writes w) \<Longrightarrow> cl_now c \<le> clock \<Longrightarrow> clock \<le> clock' \<Longrightarrow> commit_write up ts clock clock' h w (cl_db c) = (w', db')
    \<Longrightarrow> worker_step settings up authority (w, c) (w', c\<lparr>cl_now := clock', cl_db := db'\<rparr>)"
| lost: "\<not> awaited h w \<Longrightarrow> worker_step settings up authority (w, c) (w\<lparr>wk_writes := remove1 h (wk_writes w)\<rparr>, c)"
| renew: "job \<in> set (cl_claims c) \<Longrightarrow> transaction up (heartbeat settings clock clock' job (cl_db c)) = Inr (b, db') \<Longrightarrow> cl_now c \<le> clock
    \<Longrightarrow> clock \<le> clock' \<Longrightarrow> worker_step settings up authority (w, c) (w, c\<lparr>cl_now := clock', cl_db := db'\<rparr>)"
| stop: "worker_step settings up authority (w, c) (stop_worker w, c)"
| cancel: "wk_stop w \<Longrightarrow> map_of (wk_jobs w) rid = Some job \<Longrightarrow> worker_step settings up authority (w, c) (cancel_task job w, c)"
| fence: "wk_stop w \<Longrightarrow> snd ` set (wk_tasks w) \<subseteq> {Dropped} \<Longrightarrow> map_of (wk_jobs w) rid = Some job \<Longrightarrow> cl_now c \<le> clock \<Longrightarrow> clock \<le> clock'
    \<Longrightarrow> fence_job up ts clock clock' job w (cl_db c) = (w', db')
    \<Longrightarrow> worker_step settings up authority (w, c) (w', c\<lparr>cl_now := clock', cl_db := db'\<rparr>)"
| close: "wk_stop w \<Longrightarrow> wk_jobs w = [] \<Longrightarrow> worker_step settings up authority (w, c) (closed_worker w, c)"

record fleet =
  fl_cluster :: cluster
  fl_workers :: "worker list"
  fl_up :: bool
  fl_authority :: "ClaimedRun \<Rightarrow> bool"

text \<open>The world moves the clock, the database and the authority; services admit, cancel and delete; workers start and
  step.\<close>

inductive fleet_step :: "(RunRequest \<Rightarrow> string) \<Rightarrow> (string list \<Rightarrow> string) \<Rightarrow> (string list list \<Rightarrow> string) \<Rightarrow> SharedStateSettings
    \<Rightarrow> fleet \<Rightarrow> fleet \<Rightarrow> bool" for digest od sd settings where
  world: "cl_now (fl_cluster f) \<le> t
    \<Longrightarrow> fleet_step digest od sd settings f (f\<lparr>fl_cluster := (fl_cluster f)\<lparr>cl_now := t\<rparr>, fl_up := up, fl_authority := authority\<rparr>)"
| started: "fleet_step digest od sd settings f (f\<lparr>fl_workers := fl_workers f @ [new_worker binding maximum]\<rparr>)"
| create: "transaction (fl_up f) (pg_create_conversation settings owner scope cid now created (cl_db (fl_cluster f))) = Inr (v, db')
    \<Longrightarrow> fleet_step digest od sd settings f (f\<lparr>fl_cluster := (fl_cluster f)\<lparr>cl_db := db'\<rparr>\<rparr>)"
| submit: "submit_shared (fl_up f) od sd settings digest rid ts ts' created (cl_now (fl_cluster f)) owner scope request binding grant co
      (cl_db (fl_cluster f)) = Inr (run, db')
    \<Longrightarrow> rid \<notin> job_id ` set (cl_claims (fl_cluster f))
    \<Longrightarrow> fleet_step digest od sd settings f (f\<lparr>fl_cluster := (fl_cluster f)\<lparr>cl_db := db'\<rparr>\<rparr>)"
| withdraw: "transaction (fl_up f) (pg_cancel ts owner scope rid (cl_db (fl_cluster f))) = Inr (run, db')
    \<Longrightarrow> fleet_step digest od sd settings f (f\<lparr>fl_cluster := (fl_cluster f)\<lparr>cl_db := db'\<rparr>\<rparr>)"
| delete: "transaction (fl_up f) (pg_delete owner scope cid (cl_db (fl_cluster f))) = Inr db'
    \<Longrightarrow> fleet_step digest od sd settings f (f\<lparr>fl_cluster := (fl_cluster f)\<lparr>cl_db := db'\<rparr>\<rparr>)"
| work: "i < length (fl_workers f) \<Longrightarrow> worker_step settings (fl_up f) (fl_authority f) (fl_workers f ! i, fl_cluster f) (w', c')
    \<Longrightarrow> fleet_step digest od sd settings f (f\<lparr>fl_workers := (fl_workers f)[i := w'], fl_cluster := c'\<rparr>)"

inductive fleet_reach :: "(RunRequest \<Rightarrow> string) \<Rightarrow> (string list \<Rightarrow> string) \<Rightarrow> (string list list \<Rightarrow> string) \<Rightarrow> SharedStateSettings
    \<Rightarrow> fleet \<Rightarrow> bool" for digest od sd settings where
  empty: "make_shared_settings given_settings = Inr settings
    \<Longrightarrow> fleet_reach digest od sd settings \<lparr>fl_cluster = \<lparr>cl_now = t, cl_db = empty_shared, cl_claims = []\<rparr>, fl_workers = [],
          fl_up = up, fl_authority = authority\<rparr>"
| step: "fleet_reach digest od sd settings f \<Longrightarrow> fleet_step digest od sd settings f f' \<Longrightarrow> fleet_reach digest od sd settings f'"

subsection \<open>The invariant of a worker\<close>

definition held :: "worker \<Rightarrow> uuid set" where
  "held w = dom (map_of (wk_jobs w)) \<union> (\<lambda>h. job_id (hw_job h)) ` set (wk_writes w)"

definition write_ok :: "ClaimedRun list \<Rightarrow> handed_write \<Rightarrow> bool" where
  "write_ok claims h \<longleftrightarrow> hw_job h \<in> set claims \<and> hw_status h \<in> TERMINAL \<and> (hw_result h \<noteq> None \<longrightarrow> hw_status h = COMPLETED)"

text \<open>Jobs are claims, a task has its job and is within the limit, and one in a handler has its write handed over.\<close>

definition worker_ok :: "ClaimedRun list \<Rightarrow> worker \<Rightarrow> bool" where
  "worker_ok claims w \<longleftrightarrow> (\<forall>i j. map_of (wk_jobs w) i = Some j \<longrightarrow> i = job_id j \<and> j \<in> set claims)
     \<and> (\<forall>i p. map_of (wk_tasks w) i = Some p \<longrightarrow> p = Dropped \<or> i \<in> dom (map_of (wk_jobs w)))
     \<and> (\<forall>i p. map_of (wk_tasks w) i = Some p \<longrightarrow> p \<in> {Releasing, Failing, Stopping}
          \<longrightarrow> (\<exists>h\<in>set (wk_writes w). job_id (hw_job h) = i \<and> expected p h))
     \<and> (\<forall>h\<in>set (wk_writes w). write_ok claims h)
     \<and> (wk_tasks w = [] \<or> int (length (wk_tasks w)) \<le> wk_maximum_active w)"

lemma worker_okI:
  assumes "\<And>i j. map_of (wk_jobs w) i = Some j \<Longrightarrow> i = job_id j \<and> j \<in> set claims"
    and "\<And>i p. map_of (wk_tasks w) i = Some p \<Longrightarrow> p = Dropped \<or> i \<in> dom (map_of (wk_jobs w))"
    and "\<And>i p. map_of (wk_tasks w) i = Some p \<Longrightarrow> p \<in> {Releasing, Failing, Stopping}
          \<Longrightarrow> \<exists>h\<in>set (wk_writes w). job_id (hw_job h) = i \<and> expected p h"
    and "\<And>h. h \<in> set (wk_writes w) \<Longrightarrow> write_ok claims h"
    and "wk_tasks w = [] \<or> int (length (wk_tasks w)) \<le> wk_maximum_active w"
  shows "worker_ok claims w"
  using assms unfolding worker_ok_def by blast

lemma worker_okD:
  assumes "worker_ok claims w"
  shows "map_of (wk_jobs w) i = Some j \<Longrightarrow> i = job_id j \<and> j \<in> set claims"
    "map_of (wk_tasks w) i = Some p \<Longrightarrow> p = Dropped \<or> i \<in> dom (map_of (wk_jobs w))"
    "map_of (wk_tasks w) i = Some p \<Longrightarrow> p \<in> {Releasing, Failing, Stopping}
       \<Longrightarrow> \<exists>h\<in>set (wk_writes w). job_id (hw_job h) = i \<and> expected p h"
    "h \<in> set (wk_writes w) \<Longrightarrow> write_ok claims h"
    "wk_tasks w = [] \<or> int (length (wk_tasks w)) \<le> wk_maximum_active w"
  using assms unfolding worker_ok_def by blast+

lemma length_update: "length (AList.update k v xs) = (if k \<in> fst ` set xs then length xs else Suc (length xs))"
  by (induction xs) auto

lemma length_delete: "length (AList.delete k xs) \<le> length xs"
  by (simp add: AList.delete_eq)

lemma map_of_some_key: "map_of xs k = Some v \<Longrightarrow> k \<in> fst ` set xs"
  by (auto dest!: map_of_SomeD intro: rev_image_eqI)

lemma expected_phase: "expected p h \<Longrightarrow> p \<in> {Releasing, Failing, Stopping}"
  by (cases p) (simp_all add: expected_def)

lemma worker_ok_mono: "worker_ok claims w \<Longrightarrow> worker_ok (claims @ new) w"
  by (auto simp: worker_ok_def write_ok_def)

lemma new_worker_ok: "worker_ok claims (new_worker binding maximum)"
  by (simp add: worker_ok_def new_worker_def)

lemma held_claims: "worker_ok claims w \<Longrightarrow> held w \<subseteq> job_id ` set claims"
  by (auto simp: worker_ok_def held_def write_ok_def)

text \<open>What keeps the invariant of a worker and takes no job that was not new.\<close>

definition keeps_worker :: "ClaimedRun list \<Rightarrow> worker \<Rightarrow> worker \<Rightarrow> bool" where
  "keeps_worker claims w w' \<longleftrightarrow> worker_ok claims w' \<and> held w' \<subseteq> held w"

lemma held_job: "map_of (wk_jobs w) i = Some j \<Longrightarrow> i \<in> held w"
  by (auto simp: held_def)

lemma keeps_fields:
  assumes "worker_ok claims w" "wk_jobs w' = wk_jobs w" "wk_tasks w' = wk_tasks w" "wk_writes w' = wk_writes w"
    "wk_maximum_active w' = wk_maximum_active w"
  shows "keeps_worker claims w w'"
  using assms by (simp add: keeps_worker_def worker_ok_def held_def)

lemma keeps_set_phase:
  assumes ok: "worker_ok claims w" and t: "map_of (wk_tasks w) i = Some q" and p: "p \<in> {Checking, Working, Dropped}"
    and q: "q \<noteq> Dropped \<or> p = Dropped"
  shows "keeps_worker claims w (set_phase i p w)"
proof -
  have "worker_ok claims (set_phase i p w)"
  proof (rule worker_okI)
    show "k = job_id j \<and> j \<in> set claims" if "map_of (wk_jobs (set_phase i p w)) k = Some j" for k j
      using worker_okD(1) [OF ok, of k j] that by (simp add: set_phase_def)
    show "r = Dropped \<or> k \<in> dom (map_of (wk_jobs (set_phase i p w)))" if "map_of (wk_tasks (set_phase i p w)) k = Some r" for k r
      using that worker_okD(2) [OF ok, of k r] worker_okD(2) [OF ok t] q by (auto simp: set_phase_def update_conv' split: if_splits)
    show "\<exists>h\<in>set (wk_writes (set_phase i p w)). job_id (hw_job h) = k \<and> expected r h"
      if "map_of (wk_tasks (set_phase i p w)) k = Some r" "r \<in> {Releasing, Failing, Stopping}" for k r
      using that worker_okD(3) [OF ok, of k r] p by (auto simp: set_phase_def update_conv' split: if_splits)
    show "write_ok claims h" if "h \<in> set (wk_writes (set_phase i p w))" for h
      using worker_okD(4) [OF ok] that by (simp add: set_phase_def)
    show "wk_tasks (set_phase i p w) = [] \<or> int (length (wk_tasks (set_phase i p w))) \<le> wk_maximum_active (set_phase i p w)"
      using worker_okD(5) [OF ok] map_of_some_key [OF t] by (auto simp: set_phase_def length_update)
  qed
  then show ?thesis by (simp add: keeps_worker_def held_def set_phase_def)
qed

lemma keeps_hand_over:
  assumes ok: "worker_ok claims w" and t: "map_of (wk_tasks w) (job_id (hw_job h)) = Some q" and j: "job_id (hw_job h) \<in> dom (map_of (wk_jobs w))"
    and h: "write_ok claims h" "expected p h"
  shows "keeps_worker claims w (hand_over p h w)"
proof -
  let ?w = "hand_over p h w"
  have s [simp]: "wk_jobs ?w = wk_jobs w" "wk_writes ?w = wk_writes w @ [h]" "wk_maximum_active ?w = wk_maximum_active w"
    "wk_tasks ?w = AList.update (job_id (hw_job h)) p (wk_tasks w)" by (simp_all add: hand_over_def set_phase_def)
  have "worker_ok claims ?w"
  proof (rule worker_okI)
    show "k = job_id j \<and> j \<in> set claims" if "map_of (wk_jobs ?w) k = Some j" for k j
      using worker_okD(1) [OF ok, of k j] that by simp
    show "r = Dropped \<or> k \<in> dom (map_of (wk_jobs ?w))" if "map_of (wk_tasks ?w) k = Some r" for k r
      using that worker_okD(2) [OF ok, of k r] j by (auto simp: update_conv' split: if_splits)
    show "\<exists>h\<in>set (wk_writes ?w). job_id (hw_job h) = k \<and> expected r h"
      if "map_of (wk_tasks ?w) k = Some r" "r \<in> {Releasing, Failing, Stopping}" for k r
      using that worker_okD(3) [OF ok, of k r] h(2) by (auto simp: update_conv' split: if_splits)
    show "write_ok claims h'" if "h' \<in> set (wk_writes ?w)" for h'
      using worker_okD(4) [OF ok, of h'] that h(1) by auto
    show "wk_tasks ?w = [] \<or> int (length (wk_tasks ?w)) \<le> wk_maximum_active ?w"
      using worker_okD(5) [OF ok] map_of_some_key [OF t] by (auto simp: length_update)
  qed
  with j show ?thesis by (auto simp: keeps_worker_def held_def)
qed

lemma keeps_handlers:
  assumes ok: "worker_ok claims w" and t: "map_of (wk_tasks w) i = Some q" and j: "map_of (wk_jobs w) i = Some job"
  shows "keeps_worker claims w (fail_task job w)" "keeps_worker claims w (stop_task job w)"
    "keeps_worker claims w (release_task b job result w)"
proof -
  note i = worker_okD(1) [OF ok j]
  from t i have t': "map_of (wk_tasks w) (job_id job) = Some q" by simp
  from j i have j': "job_id job \<in> dom (map_of (wk_jobs w))" by auto
  show f: "keeps_worker claims w (fail_task job w)" "keeps_worker claims w (stop_task job w)"
    unfolding fail_task_def stop_task_def
    by (rule keeps_hand_over [OF ok]; use t' j' i in \<open>simp add: write_ok_def expected_def TERMINAL_def\<close>)+
  show "keeps_worker claims w (release_task b job result w)"
  proof (cases b)
    case True
    have "keeps_worker claims w (hand_over Releasing \<lparr>hw_job = job, hw_status = COMPLETED, hw_result = Some result, hw_code = None,
             hw_message = rp_message result\<rparr> w)"
      by (rule keeps_hand_over [OF ok]) (use t' j' i in \<open>simp_all add: write_ok_def expected_def TERMINAL_def\<close>)
    with True show ?thesis by (simp add: release_task_def)
  qed (use f in \<open>simp add: release_task_def\<close>)
qed

lemma keeps_drop:
  assumes ok: "worker_ok claims w"
  shows "keeps_worker claims w (drop_task i w)"
proof -
  let ?w = "drop_task i w"
  have s: "map_of (wk_jobs ?w) = (map_of (wk_jobs w))(i := None)" "map_of (wk_tasks ?w) = (map_of (wk_tasks w))(i := None)"
    "wk_writes ?w = wk_writes w" "wk_maximum_active ?w = wk_maximum_active w"
    by (simp_all add: drop_task_def delete_conv' fun_eq_iff)
  have "worker_ok claims ?w"
  proof (rule worker_okI)
    show "k = job_id j \<and> j \<in> set claims" if "map_of (wk_jobs ?w) k = Some j" for k j
      using worker_okD(1) [OF ok, of k j] that by (simp add: s split: if_splits)
    show "r = Dropped \<or> k \<in> dom (map_of (wk_jobs ?w))" if "map_of (wk_tasks ?w) k = Some r" for k r
      using that worker_okD(2) [OF ok, of k r] by (auto simp: s split: if_splits)
    show "\<exists>h\<in>set (wk_writes ?w). job_id (hw_job h) = k \<and> expected r h"
      if "map_of (wk_tasks ?w) k = Some r" "r \<in> {Releasing, Failing, Stopping}" for k r
      using that worker_okD(3) [OF ok, of k r] by (auto simp: s split: if_splits)
    show "write_ok claims h" if "h \<in> set (wk_writes ?w)" for h
      using worker_okD(4) [OF ok, of h] that by (simp add: s)
    show "wk_tasks ?w = [] \<or> int (length (wk_tasks ?w)) \<le> wk_maximum_active ?w"
      using worker_okD(5) [OF ok] length_delete [of i "wk_tasks w"] by (auto simp: drop_task_def)
  qed
  then show ?thesis by (auto simp: keeps_worker_def held_def s)
qed

text \<open>A write leaves when no task waits for it.\<close>

lemma keeps_unawaited:
  assumes ok: "worker_ok claims w" and n: "\<not> awaited h w"
  shows "keeps_worker claims w (w\<lparr>wk_writes := remove1 h (wk_writes w)\<rparr>)"
proof -
  have keep: "\<exists>h'\<in>set (remove1 h (wk_writes w)). job_id (hw_job h') = k \<and> expected r h'"
    if "map_of (wk_tasks w) k = Some r" "r \<in> {Releasing, Failing, Stopping}" for k r
  proof -
    from worker_okD(3) [OF ok that] obtain h' where h': "h' \<in> set (wk_writes w)" "job_id (hw_job h') = k" "expected r h'" by blast
    with n that(1) have "h' \<noteq> h" by (auto simp: awaited_def)
    with h' show ?thesis by auto
  qed
  have "worker_ok claims (w\<lparr>wk_writes := remove1 h (wk_writes w)\<rparr>)"
    by (rule worker_okI) (use worker_okD [OF ok] keep set_remove1_subset [of h "wk_writes w"] in \<open>auto dest: worker_okD(1) [OF ok]\<close>)
  then show ?thesis using set_remove1_subset [of h "wk_writes w"] by (auto simp: keeps_worker_def held_def)
qed

lemma keeps_worker_trans: "keeps_worker claims w w' \<Longrightarrow> keeps_worker claims w' w'' \<Longrightarrow> keeps_worker claims w w''"
  by (auto simp: keeps_worker_def)

lemma keeps_worker_ok: "keeps_worker claims w w' \<Longrightarrow> worker_ok claims w'"
  by (simp add: keeps_worker_def)

lemma keeps_written:
  assumes ok: "worker_ok claims w" and h: "h \<in> set (wk_writes w)"
  shows "keeps_worker claims w (written h b w)"
proof (cases "awaited h w")
  case False
  with keeps_unawaited [OF ok False] show ?thesis by (simp add: written_def)
next
  case True
  then obtain p where t: "map_of (wk_tasks w) (job_id (hw_job h)) = Some p" and e: "expected p h"
    by (auto simp: awaited_def split: option.splits)
  from worker_okD(2) [OF ok t] expected_phase [OF e] have j: "job_id (hw_job h) \<in> dom (map_of (wk_jobs w))" by auto
  show ?thesis
  proof (cases "\<not> b \<and> hw_status h = COMPLETED")
    case failed: True
    let ?f = "\<lparr>hw_job = hw_job h, hw_status = FAILED, hw_result = None, hw_code = Some ''RUN_FAILED'',
      hw_message = ''The run failed; no answer was released.''\<rparr>"
    have "write_ok claims ?f" using worker_okD(4) [OF ok h] by (simp add: write_ok_def TERMINAL_def)
    then have k: "keeps_worker claims w (hand_over Failing ?f w)" using t j by (intro keeps_hand_over [OF ok]) (simp_all add: expected_def)
    have "\<not> awaited h (hand_over Failing ?f w)"
      using failed by (simp add: awaited_def hand_over_def set_phase_def update_conv' expected_def)
    note keeps_worker_trans [OF k keeps_unawaited [OF keeps_worker_ok [OF k] this]]
    moreover have "written h b w = (hand_over Failing ?f w)\<lparr>wk_writes := remove1 h (wk_writes (hand_over Failing ?f w))\<rparr>"
      using True failed h by (simp add: written_def fail_task_def hand_over_def set_phase_def remove1_append)
    ultimately show ?thesis by simp
  next
    case False
    note k = keeps_drop [OF ok, of "job_id (hw_job h)"]
    have "\<not> awaited h (drop_task (job_id (hw_job h)) w)" by (simp add: awaited_def drop_task_def delete_conv')
    note keeps_worker_trans [OF k keeps_unawaited [OF keeps_worker_ok [OF k] this]]
    moreover have "written h b w = (drop_task (job_id (hw_job h)) w)
        \<lparr>wk_writes := remove1 h (wk_writes (drop_task (job_id (hw_job h)) w))\<rparr>"
      using True False by (auto simp: written_def drop_task_def Let_def)
    ultimately show ?thesis by simp
  qed
qed

lemma keeps_cancel:
  assumes ok: "worker_ok claims w" and j: "map_of (wk_jobs w) i = Some job"
  shows "keeps_worker claims w (cancel_task job w)"
proof -
  have same: "keeps_worker claims w w" using ok by (simp add: keeps_worker_def)
  from worker_okD(1) [OF ok j] have i: "i = job_id job" by simp
  show ?thesis
  proof (cases "map_of (wk_tasks w) i")
    case (Some p)
    show ?thesis
      using keeps_handlers(2) [OF ok Some j] keeps_drop [OF ok, of i] keeps_set_phase [OF ok Some, of Dropped] same Some
      by (cases p) (auto simp: cancel_task_def i)
  qed (use same i in \<open>simp add: cancel_task_def\<close>)
qed

lemma keeps_fence:
  assumes ok: "worker_ok claims w" and d: "snd ` set (wk_tasks w) \<subseteq> {Dropped}"
  shows "keeps_worker claims w (w\<lparr>wk_jobs := AList.delete i (wk_jobs w)\<rparr>)"
proof -
  let ?w = "w\<lparr>wk_jobs := AList.delete i (wk_jobs w)\<rparr>"
  have p: "p = Dropped" if "map_of (wk_tasks w) k = Some p" for k p using map_of_SomeD [OF that] d by force
  have "worker_ok claims ?w"
    by (rule worker_okI) (use worker_okD [OF ok] p in \<open>auto simp: delete_conv' split: if_splits\<close>)
  then show ?thesis by (auto simp: keeps_worker_def held_def delete_conv')
qed

lemma adopt_ok:
  assumes ok: "worker_ok claims w" and room: "int (length (wk_tasks w)) < wk_maximum_active w"
  shows "worker_ok (claims @ [job]) (adopt job w)" "held (adopt job w) \<subseteq> insert (job_id job) (held w)"
proof -
  let ?w = "adopt job w"
  have s: "map_of (wk_jobs ?w) = (map_of (wk_jobs w))(job_id job \<mapsto> job)" "map_of (wk_tasks ?w) = (map_of (wk_tasks w))(job_id job \<mapsto> Created)"
    "wk_writes ?w = wk_writes w" "wk_maximum_active ?w = wk_maximum_active w"
    by (simp_all add: adopt_def update_conv')
  note ok' = worker_okD [OF worker_ok_mono [OF ok, of "[job]"]]
  show "worker_ok (claims @ [job]) ?w"
  proof (rule worker_okI)
    show "k = job_id j \<and> j \<in> set (claims @ [job])" if "map_of (wk_jobs ?w) k = Some j" for k j
      using ok'(1) [of k j] that by (auto simp: s split: if_splits)
    show "r = Dropped \<or> k \<in> dom (map_of (wk_jobs ?w))" if "map_of (wk_tasks ?w) k = Some r" for k r
      using that ok'(2) [of k r] by (auto simp: s split: if_splits)
    show "\<exists>h\<in>set (wk_writes ?w). job_id (hw_job h) = k \<and> expected r h"
      if "map_of (wk_tasks ?w) k = Some r" "r \<in> {Releasing, Failing, Stopping}" for k r
      using that ok'(3) [of k r] by (auto simp: s split: if_splits)
    show "write_ok (claims @ [job]) h" if "h \<in> set (wk_writes ?w)" for h using ok'(4) [of h] that by (simp add: s)
    show "wk_tasks ?w = [] \<or> int (length (wk_tasks ?w)) \<le> wk_maximum_active ?w"
      using room by (simp add: s) (simp add: adopt_def length_update)
  qed
  show "held ?w \<subseteq> insert (job_id job) (held w)" by (auto simp: held_def s split: if_splits)
qed

subsection \<open>A step of a worker is steps of the store\<close>

lemma shared_time: "cl_now c \<le> t \<Longrightarrow> (shared_step digest od sd settings)\<^sup>*\<^sup>* c (c\<lparr>cl_now := t\<rparr>)"
  by (rule r_into_rtranclp) (rule shared_step.time)

lemma tick_round_cases:
  assumes "tick_round up settings locked fence tss clock clock' w db = Inr (go, out, w', db')"
  obtains "out = None" "w' = w" "db' = db"
    | "transaction up (claim settings (wk_binding w) locked fence tss clock clock' db) = Inr (None, db')" "out = None" "w' = w"
    | job where "transaction up (claim settings (wk_binding w) locked fence tss clock clock' db) = Inr (Some job, db')" "out = Some job"
        "w' = adopt job w" "int (length (wk_tasks w)) < wk_maximum_active w" "\<not> wk_stop w"
proof (cases "int (length (wk_tasks w)) < wk_maximum_active w \<and> \<not> wk_stop w")
  case True
  note e = assms [unfolded tick_round_def if_not_P [OF not_not [THEN iffD2, OF True]]]
  show thesis
  proof (cases "transaction up (claim settings (wk_binding w) locked fence tss clock clock' db)")
    case (Inr x)
    obtain o1 db1 where x: "x = (o1, db1)" by (cases x)
    note e = e [unfolded Inr x sum.case prod.case]
    show thesis
    proof (cases o1)
      case None
      show thesis by (rule that(2)) (use e None Inr x in simp_all)
    next
      case (Some job)
      show thesis by (rule that(3) [of job]) (use e Some Inr x True in simp_all)
    qed
  next
    case (Inl x)
    from e [unfolded Inl sum.case] show thesis by simp
  qed
next
  case False
  show thesis by (rule that(1)) (use assms False in \<open>simp_all add: tick_round_def split: if_splits\<close>)
qed

lemma heartbeat_round:
  assumes "case transaction up (heartbeat settings clock clock' job (cl_db c)) of
      Inl e \<Rightarrow> w' = w1 \<and> db' = cl_db c | Inr (b, db1) \<Rightarrow> w' = (if b then w2 else w1) \<and> db' = db1"
    and "cl_now c \<le> clock" "clock \<le> clock'"
  shows "(shared_step digest od sd settings)\<^sup>*\<^sup>* c (c\<lparr>cl_now := clock', cl_db := db'\<rparr>)" "w' \<in> {w1, w2}"
proof -
  show "(shared_step digest od sd settings)\<^sup>*\<^sup>* c (c\<lparr>cl_now := clock', cl_db := db'\<rparr>)"
  proof (cases "transaction up (heartbeat settings clock clock' job (cl_db c))")
    case (Inl e)
    with assms(1) have "c\<lparr>cl_now := clock', cl_db := db'\<rparr> = c\<lparr>cl_now := clock'\<rparr>" by simp
    with shared_time [of c clock'] assms(2,3) show ?thesis by simp
  next
    case (Inr x)
    obtain b db1 where x: "x = (b, db1)" by (cases x)
    with Inr assms(1) have "db' = db1" by (simp del: transaction_Inr)
    with shared_step.heartbeat [OF Inr [unfolded x] assms(2,3)] show ?thesis by blast
  qed
  show "w' \<in> {w1, w2}" using assms(1) by (auto split: sum.splits prod.splits if_splits)
qed

lemma begin_task_round:
  assumes "begin_task up a settings clock clock' job w (cl_db c) = (w', db')" "cl_now c \<le> clock" "clock \<le> clock'"
  shows "(shared_step digest od sd settings)\<^sup>*\<^sup>* c (c\<lparr>cl_now := clock', cl_db := db'\<rparr>)"
    "w' \<in> {fail_task job w, set_phase (job_id job) Working w}"
proof -
  consider "w' = fail_task job w" "db' = cl_db c"
    | "case transaction up (heartbeat settings clock clock' job (cl_db c)) of Inl e \<Rightarrow> w' = fail_task job w \<and> db' = cl_db c
        | Inr (b, db1) \<Rightarrow> w' = (if b then set_phase (job_id job) Working w else fail_task job w) \<and> db' = db1"
    using assms(1) unfolding begin_task_def by (cases "\<not> a") (auto split: sum.splits prod.splits)
  then have "(shared_step digest od sd settings)\<^sup>*\<^sup>* c (c\<lparr>cl_now := clock', cl_db := db'\<rparr>)
    \<and> w' \<in> {fail_task job w, set_phase (job_id job) Working w}"
  proof cases
    case 1
    moreover have "c\<lparr>cl_now := clock', cl_db := cl_db c\<rparr> = c\<lparr>cl_now := clock'\<rparr>" by simp
    ultimately show ?thesis using shared_time [of c clock'] assms(2,3) by simp
  next
    case 2
    from heartbeat_round [OF 2 assms(2,3)] show ?thesis by blast
  qed
  then show "(shared_step digest od sd settings)\<^sup>*\<^sup>* c (c\<lparr>cl_now := clock', cl_db := db'\<rparr>)"
    "w' \<in> {fail_task job w, set_phase (job_id job) Working w}" by blast+
qed

lemma monitor_round_round:
  assumes "monitor_round up a settings clock clock' job w (cl_db c) = (w', db')" "cl_now c \<le> clock" "clock \<le> clock'"
  shows "(shared_step digest od sd settings)\<^sup>*\<^sup>* c (c\<lparr>cl_now := clock', cl_db := db'\<rparr>)" "w' \<in> {stop_task job w, w}"
proof -
  consider "w' = stop_task job w" "db' = cl_db c"
    | "case transaction up (heartbeat settings clock clock' job (cl_db c)) of Inl e \<Rightarrow> w' = stop_task job w \<and> db' = cl_db c
        | Inr (b, db1) \<Rightarrow> w' = (if b then w else stop_task job w) \<and> db' = db1"
    using assms(1) unfolding monitor_round_def by (cases "\<not> a") (auto split: sum.splits prod.splits)
  then have "(shared_step digest od sd settings)\<^sup>*\<^sup>* c (c\<lparr>cl_now := clock', cl_db := db'\<rparr>) \<and> w' \<in> {stop_task job w, w}"
  proof cases
    case 1
    moreover have "c\<lparr>cl_now := clock', cl_db := cl_db c\<rparr> = c\<lparr>cl_now := clock'\<rparr>" by simp
    ultimately show ?thesis using shared_time [of c clock'] assms(2,3) by simp
  next
    case 2
    from heartbeat_round [OF 2 assms(2,3)] show ?thesis by blast
  qed
  then show "(shared_step digest od sd settings)\<^sup>*\<^sup>* c (c\<lparr>cl_now := clock', cl_db := db'\<rparr>)" "w' \<in> {stop_task job w, w}" by blast+
qed

lemma finish_round:
  assumes "case transaction up (pg_finish ts clock clock' job status result code message (cl_db c)) of
      Inl e \<Rightarrow> db' = cl_db c | Inr (run, db1) \<Rightarrow> db' = db1"
    and "cl_now c \<le> clock" "clock \<le> clock'" "result \<noteq> None \<Longrightarrow> status = COMPLETED"
  shows "(shared_step digest od sd settings)\<^sup>*\<^sup>* c (c\<lparr>cl_now := clock', cl_db := db'\<rparr>)"
proof (cases "transaction up (pg_finish ts clock clock' job status result code message (cl_db c))")
  case (Inl e)
  with assms(1) have "c\<lparr>cl_now := clock', cl_db := db'\<rparr> = c\<lparr>cl_now := clock'\<rparr>" by simp
  with shared_time [of c clock'] assms(2,3) show ?thesis by simp
next
  case (Inr x)
  obtain run db1 where x: "x = (run, db1)" by (cases x)
  with Inr assms(1) have "db' = db1" by (simp del: transaction_Inr)
  with shared_step.finish [OF Inr [unfolded x] assms(4) assms(2,3)] show ?thesis by blast
qed

lemma worker_step_store:
  assumes "worker_step settings up au (w, c) (w', c')" and ok: "worker_ok (cl_claims c) w"
  shows "(shared_step digest od sd settings)\<^sup>*\<^sup>* c c' \<and> (\<exists>new. cl_claims c' = cl_claims c @ new
    \<and> worker_ok (cl_claims c') w' \<and> held w' \<subseteq> held w \<union> job_id ` set new)"
proof -
  have same: "(shared_step digest od sd settings)\<^sup>*\<^sup>* c c" by simp
  have kept: ?thesis if "(shared_step digest od sd settings)\<^sup>*\<^sup>* c c'" "cl_claims c' = cl_claims c" "keeps_worker (cl_claims c) w w'"
    using that by (intro conjI exI [of _ "[]"]) (simp_all add: keeps_worker_def)
  have self: "keeps_worker (cl_claims c) w w" using ok by (simp add: keeps_worker_def)
  from assms(1) show ?thesis
  proof cases
    case (tick locked fence tss clock clock' db' go out)
    from tick(2) show ?thesis
    proof (cases rule: tick_round_cases)
      case 1
      with tick shared_time [of c clock'] self show ?thesis by (intro kept) (simp_all add: given_def)
    next
      case 2
      from shared_step.claim [OF 2(1) tick(3,4)] tick(1) 2 self show ?thesis
        by (intro kept) (auto simp: given_def intro: r_into_rtranclp)
    next
      case (3 job)
      from shared_step.claim [OF 3(1) tick(3,4)] tick(1) 3 adopt_ok [OF ok 3(4), of job] show ?thesis
        by (intro conjI exI [of _ "[job]"]) (auto simp: given_def intro: r_into_rtranclp)
    qed
  next
    case (poll b)
    then have "keeps_worker (cl_claims c) w w'" by (intro keeps_fields [OF ok]) (simp_all add: poll_result_def)
    with poll same show ?thesis by (intro kept) simp_all
  next
    case (enter rid)
    with keeps_set_phase [OF ok, of rid Created Checking] same show ?thesis by (intro kept) simp_all
  next
    case (start rid job clock clock' db')
    from worker_okD(1) [OF ok start(3)] start(2) have t: "map_of (wk_tasks w) (job_id job) = Some Checking" by simp
    from begin_task_round [OF start(6,4,5)] start(1) keeps_handlers(1) [OF ok start(2,3)] keeps_set_phase [OF ok t, of Working]
    show ?thesis by (intro kept) auto
  next
    case (monitor rid job clock clock' db')
    from monitor_round_round [OF monitor(6,4,5)] monitor(1) keeps_handlers(2) [OF ok monitor(2,3)] self
    show ?thesis by (intro kept) auto
  next
    case (progress rid job ts report db')
    from shared_step.progress [OF progress(5)] progress self show ?thesis by (intro kept) auto
  next
    case (raised rid job)
    with keeps_handlers(1) [OF ok raised(3,4)] same show ?thesis by (intro kept) simp_all
  next
    case (release rid job result)
    with keeps_handlers(3) [OF ok release(3,4)] same show ?thesis by (intro kept) simp_all
  next
    case (commit h clock clock' ts db')
    have "hw_result h \<noteq> None \<Longrightarrow> hw_status h = COMPLETED" using worker_okD(4) [OF ok commit(2)] by (auto simp: write_ok_def)
    moreover have "case transaction up (pg_finish ts clock clock' (hw_job h) (hw_status h) (hw_result h) (hw_code h) (hw_message h) (cl_db c)) of
      Inl e \<Rightarrow> db' = cl_db c | Inr (run, db1) \<Rightarrow> db' = db1" and "\<exists>b. w' = written h b w"
      using commit(5) unfolding commit_write_def by (auto simp del: transaction_Inr split: sum.splits prod.splits)
    ultimately show ?thesis using finish_round [OF _ commit(3,4)] keeps_written [OF ok commit(2)] commit(1)
      by (intro kept) auto
  next
    case (lost h)
    with keeps_unawaited [OF ok, of h] same show ?thesis by (intro kept) simp_all
  next
    case (renew job clock clock' b db')
    from shared_step.heartbeat [OF renew(4,5,6)] renew self show ?thesis by (intro kept) auto
  next
    case stop
    then have "keeps_worker (cl_claims c) w w'" by (intro keeps_fields [OF ok]) (simp_all add: stop_worker_def)
    with stop same show ?thesis by (intro kept) simp_all
  next
    case (cancel rid job)
    with keeps_cancel [OF ok, of rid job] same show ?thesis by (intro kept) simp_all
  next
    case (fence rid job clock clock' ts db')
    have "case transaction up (pg_finish ts clock clock' job INTERRUPTED None (Some ''WORKER_STOPPED'') ''Run finished.'' (cl_db c)) of
      Inl e \<Rightarrow> db' = cl_db c | Inr (run, db1) \<Rightarrow> db' = db1" and w': "w' = w\<lparr>wk_jobs := AList.delete (job_id job) (wk_jobs w)\<rparr>"
      using fence(7) unfolding fence_job_def by (auto simp del: transaction_Inr split: sum.splits prod.splits)
    from finish_round [OF this(1) fence(5,6)] w' keeps_fence [OF ok fence(3)] fence(1) show ?thesis
      by (intro kept) auto
  next
    case close
    have "worker_ok (cl_claims c) w'" "held w' \<subseteq> held w" using close worker_okD(4) [OF ok]
      by (auto simp: worker_ok_def closed_worker_def held_def)
    with close same show ?thesis by (intro kept) (simp_all add: keeps_worker_def)
  qed
qed

subsection \<open>A fleet on the store\<close>

definition fleet_ok :: "(RunRequest \<Rightarrow> string) \<Rightarrow> (string list \<Rightarrow> string) \<Rightarrow> (string list list \<Rightarrow> string) \<Rightarrow> SharedStateSettings
    \<Rightarrow> fleet \<Rightarrow> bool" where
  "fleet_ok digest od sd settings f \<longleftrightarrow> shared_reach digest od sd settings (fl_cluster f)
     \<and> (\<forall>w\<in>set (fl_workers f). worker_ok (cl_claims (fl_cluster f)) w)
     \<and> (\<forall>i k. i < length (fl_workers f) \<longrightarrow> k < length (fl_workers f) \<longrightarrow> i \<noteq> k \<longrightarrow> held (fl_workers f ! i) \<inter> held (fl_workers f ! k) = {})"

lemma fleet_okD:
  assumes "fleet_ok digest od sd settings f"
  shows "shared_reach digest od sd settings (fl_cluster f)" "i < length (fl_workers f) \<Longrightarrow> worker_ok (cl_claims (fl_cluster f)) (fl_workers f ! i)"
    "i < length (fl_workers f) \<Longrightarrow> k < length (fl_workers f) \<Longrightarrow> i \<noteq> k \<Longrightarrow> held (fl_workers f ! i) \<inter> held (fl_workers f ! k) = {}"
  using assms by (simp_all add: fleet_ok_def)

text \<open>A step of the fleet is steps of the store; only a worker's step adds claims, and it changes that worker alone.\<close>

lemma fleet_step_store:
  assumes "fleet_step digest od sd settings f f'" and ok: "fleet_ok digest od sd settings f"
  shows "(shared_step digest od sd settings)\<^sup>*\<^sup>* (fl_cluster f) (fl_cluster f')"
  using assms(1)
proof cases
  case (world t up authority)
  with shared_time show ?thesis by simp
next
  case (create owner scope cid now created v db')
  from shared_step.create [OF create(2)] create(1) show ?thesis by (auto intro: r_into_rtranclp)
next
  case (submit rid ts ts' created owner scope request binding grant co run db')
  then have "transaction (fl_up f) (pg_enqueue od sd settings digest rid ts ts' created (cl_now (fl_cluster f)) owner scope request
      binding grant (cl_db (fl_cluster f))) = Inr (run, db')"
    by (simp only: submit_shared_def split: if_splits) simp_all
  from shared_step.enqueue [OF this submit(3)] submit(1) show ?thesis by (auto intro: r_into_rtranclp)
next
  case (withdraw ts owner scope rid run db')
  from shared_step.cancel [OF withdraw(2)] withdraw(1) show ?thesis by (auto intro: r_into_rtranclp)
next
  case (delete owner scope cid db')
  from shared_step.delete [OF delete(2)] delete(1) show ?thesis by (auto intro: r_into_rtranclp)
next
  case (work i w' c')
  from worker_step_store [OF work(3) fleet_okD(2) [OF ok work(2)]] work(1) show ?thesis by simp
qed simp

lemma same_fleet:
  assumes ok: "fleet_ok digest od sd settings f" and s: "fleet_step digest od sd settings f f'"
    and "fl_workers f' = fl_workers f" "cl_claims (fl_cluster f') = cl_claims (fl_cluster f)"
  shows "fleet_ok digest od sd settings f'"
  using ok shared_steps_reach [OF fleet_step_store [OF s ok] fleet_okD(1) [OF ok]] by (simp add: fleet_ok_def assms(3,4))

lemma fleet_step_ok:
  assumes s: "fleet_step digest od sd settings f f'" and ok: "fleet_ok digest od sd settings f"
  shows "fleet_ok digest od sd settings f'"
proof -
  note keep = same_fleet [OF ok s]
  note reach = shared_steps_reach [OF fleet_step_store [OF s ok] fleet_okD(1) [OF ok]]
  from s show ?thesis
  proof cases
    case (started binding maximum)
    have "held (new_worker binding maximum) = {}" by (simp add: held_def new_worker_def)
    moreover have "held ((fl_workers f @ [new_worker binding maximum]) ! i) \<inter> held ((fl_workers f @ [new_worker binding maximum]) ! k) = {}"
      if "i < Suc (length (fl_workers f))" "k < Suc (length (fl_workers f))" "i \<noteq> k" for i k
      using that calculation fleet_okD(3) [OF ok, of i k]
      by (cases "i = length (fl_workers f)"; cases "k = length (fl_workers f)") (simp_all add: nth_append)
    ultimately show ?thesis using ok reach started new_worker_ok by (simp add: fleet_ok_def)
  next
    case (work i w' c')
    let ?ws = "fl_workers f" and ?claims = "cl_claims (fl_cluster f)"
    from worker_step_store [OF work(3) fleet_okD(2) [OF ok work(2)]] obtain new where
      new: "cl_claims c' = ?claims @ new" "worker_ok (cl_claims c') w'" "held w' \<subseteq> held (?ws ! i) \<union> job_id ` set new" by blast
    from shared_reach_ok [OF reach] have "distinct (map job_id (cl_claims c'))" using work(1) by (simp add: shared_ok_def)
    then have fresh: "job_id ` set new \<inter> job_id ` set ?claims = {}" by (auto simp: new(1))
    have other: "held w' \<inter> held (?ws ! k) = {}" if "k < length ?ws" "k \<noteq> i" for k
    proof -
      have d: "held (?ws ! i) \<inter> held (?ws ! k) = {}" by (rule fleet_okD(3) [OF ok work(2) that(1)]) (use that(2) in simp)
      have "held (?ws ! k) \<subseteq> job_id ` set ?claims" by (rule held_claims [OF fleet_okD(2) [OF ok that(1)]])
      with fresh have "job_id ` set new \<inter> held (?ws ! k) = {}" by blast
      with d new(3) show ?thesis by blast
    qed
    have "worker_ok (cl_claims c') w" if "w \<in> set (?ws[i := w'])" for w
    proof -
      from set_update_subset_insert that consider "w = w'" | "w \<in> set ?ws" by fast
      then show ?thesis
      proof cases
        case 2
        with ok have "worker_ok ?claims w" by (simp add: fleet_ok_def)
        from worker_ok_mono [OF this, of new] show ?thesis by (simp add: new(1))
      qed (use new(2) in simp)
    qed
    moreover have "held (?ws[i := w'] ! j) \<inter> held (?ws[i := w'] ! k) = {}"
      if "j < length ?ws" "k < length ?ws" "j \<noteq> k" for j k
      using that other [OF that(1)] other [OF that(2)] fleet_okD(3) [OF ok that]
      by (cases "j = i"; cases "k = i") (simp_all add: Int_commute)
    ultimately show ?thesis using reach work(1) by (simp add: fleet_ok_def)
  qed (rule keep; simp)+
qed

lemma fleet_reach_ok: "fleet_reach digest od sd settings f \<Longrightarrow> fleet_ok digest od sd settings f"
proof (induction rule: fleet_reach.induct)
  case (empty s t up authority)
  from shared_reach.empty [OF empty] show ?case by (simp add: fleet_ok_def)
next
  case (step f f')
  from fleet_step_ok [OF step(2,3)] show ?case .
qed

lemma fleet_steps_reach:
  "(fleet_step digest od sd settings)\<^sup>*\<^sup>* f f' \<Longrightarrow> fleet_reach digest od sd settings f \<Longrightarrow> fleet_reach digest od sd settings f'"
  by (induction rule: rtranclp_induct) (auto intro: fleet_reach.step)

subsection \<open>Jobs are not dropped\<close>

lemma finish_ends_run:
  assumes ok: "shared_ok digest od sd settings claims db" and f: "pg_finish ts clock clock' job status result code message db = Inr (run, db')"
    and res: "result \<noteq> None \<Longrightarrow> status = COMPLETED"
  shows "pg_read_run db' (job_id job) = Inr run \<and> rs_status run \<in> TERMINAL"
proof -
  from pg_finish_writes(2) [OF ok _ f] res obtain a where own: "owned_run clock job db = Inr a" and t: "rs_status run \<in> TERMINAL" by blast
  from ok have j: "journal_ok digest (journal db)" by (simp add: shared_ok_def)
  obtain r where a: "pg_read_run db (job_id job) = Inr a" by (rule owned_run_row [OF j own])
  from pg_finish_writes(1) [OF ok, of result status job ts clock clock' code message, OF res] f
  have w: "shared_write digest od sd settings claims db (job_id job) (Inr (run, db'))" by simp
  have "\<exists>b. pg_read_run db' (job_id job) = Inr b" using w a by (auto simp: shared_write_def one_write_def pg_read_run_def)
  with shared_write_read [OF w a] t show ?thesis by auto
qed

text \<open>A write of the job's end goes to the store in this step: one that was handed to a thread, or the last one of a worker that
  is closing and whose tasks are over.\<close>

definition end_sent :: "ClaimedRun \<Rightarrow> worker \<Rightarrow> bool" where
  "end_sent job w \<longleftrightarrow> (\<exists>h\<in>set (wk_writes w). hw_job h = job \<and> hw_status h \<in> TERMINAL)
     \<or> wk_stop w \<and> snd ` set (wk_tasks w) \<subseteq> {Dropped}"

text \<open>What may end a job of a worker \<open>w\<close> in a step that ends at \<open>now\<close>: its run has ended, its end was sent to a database that does
  not answer, the store no longer takes the job for the holder of the run's lease, or the write of its end is still in a
  thread.\<close>

definition job_over :: "bool \<Rightarrow> instant \<Rightarrow> ClaimedRun \<Rightarrow> shared_db \<Rightarrow> shared_db \<Rightarrow> worker \<Rightarrow> worker \<Rightarrow> bool" where
  "job_over up now job db db' w w' \<longleftrightarrow> (\<exists>run. pg_read_run db' (job_id job) = Inr run \<and> rs_status run \<in> TERMINAL)
     \<or> \<not> up \<and> end_sent job w \<or> owned_run now job db = Inl lease_lost
     \<or> (\<exists>h\<in>set (wk_writes w'). job_id (hw_job h) = job_id job \<and> hw_status h \<in> {FAILED, INTERRUPTED})"

lemma lease_stays_lost: "owned_run t job db = Inl lease_lost \<Longrightarrow> t \<le> now \<Longrightarrow> owned_run now job db = Inl lease_lost"
  by (auto simp: owned_run_def split: option.splits if_splits)

lemma finish_over:
  assumes ok: "shared_ok digest od sd settings claims db" and t: "t \<le> now" and st: "status \<in> TERMINAL"
    and res: "result \<noteq> None \<Longrightarrow> status = COMPLETED"
    and sent: "end_sent job w"
    and db': "case transaction up (pg_finish ts t t' job status result code message db) of Inl e \<Rightarrow> db' = db | Inr (run, db1) \<Rightarrow> db' = db1"
  shows "job_over up now job db db' w w'"
proof (cases "up \<and> is_ok (owned_run t job db)")
  case True
  then obtain a where "owned_run t job db = Inr a" by (cases "owned_run t job db") auto
  from pg_finish_writes(3) [OF ok, of result status t job a ts t' code message, OF res this st] obtain run db1 where
    f: "pg_finish ts t t' job status result code message db = Inr (run, db1)"
    by (cases "pg_finish ts t t' job status result code message db") auto
  with True have "transaction up (pg_finish ts t t' job status result code message db) = Inr (run, db1)" by simp
  with db' have "db' = db1" by (simp del: transaction_Inr)
  with finish_ends_run [OF ok f res] show ?thesis by (auto simp: job_over_def)
next
  case False
  with sent lease_stays_lost [OF _ t, of job db] owned_run_error [of t job db] show ?thesis
    by (cases "owned_run t job db") (auto simp: job_over_def)
qed

lemma terminal_stays:
  assumes "moved\<^sup>*\<^sup>* a b" "rs_status a \<in> TERMINAL"
  shows "b = a"
  using assms by (induction rule: converse_rtranclp_induct) (auto simp: moved_def transitions_def TERMINAL_def)

lemma worker_keeps_or_ends:
  assumes ok: "worker_ok (cl_claims c) w" and sh: "shared_ok digest od sd settings (cl_claims c) (cl_db c)"
    and s: "worker_step settings up au (w, c) (w', c')" and j: "map_of (wk_jobs w) rid = Some job" and gone: "map_of (wk_jobs w') rid = None"
  shows "job_over up (cl_now c') job (cl_db c) (cl_db c') w w'"
proof -
  from worker_okD(1) [OF ok j] have id: "rid = job_id job" and mem: "job \<in> set (cl_claims c)" by simp_all
  have same: "job' = job" if "job' \<in> set (cl_claims c)" "job_id job' = rid" for job'
    using sh mem that id by (auto simp: shared_ok_def distinct_map inj_on_def)
  have keep: "wk_jobs (fail_task k w0) = wk_jobs w0" "wk_jobs (stop_task k w0) = wk_jobs w0" "wk_jobs (set_phase i p w0) = wk_jobs w0"
    "wk_jobs (release_task b k r w0) = wk_jobs w0" for k w0 i p b r
    by (simp_all add: fail_task_def stop_task_def hand_over_def set_phase_def release_task_def)
  from s show ?thesis
  proof cases
    case (tick locked fence tss clock clock' db' go out)
    from tick(2) gone j have False
      by (cases rule: tick_round_cases) (auto simp: adopt_def update_conv' split: if_splits)
    then show ?thesis ..
  next
    case (start rid' job' clock clock' db')
    from begin_task_round(2) [OF start(6,4,5)] gone j show ?thesis by (auto simp: keep)
  next
    case (monitor rid' job' clock clock' db')
    from monitor_round_round(2) [OF monitor(6,4,5)] gone j show ?thesis by (auto simp: keep)
  next
    case (commit h clock clock' ts db')
    let ?w = "w\<lparr>wk_writes := remove1 h (wk_writes w)\<rparr>"
    have d: "case transaction up (pg_finish ts clock clock' (hw_job h) (hw_status h) (hw_result h) (hw_code h) (hw_message h) (cl_db c)) of
      Inl e \<Rightarrow> db' = cl_db c | Inr (run, db1) \<Rightarrow> db' = db1" and "\<exists>b. w' = written h b w"
      using commit(5) unfolding commit_write_def by (auto simp del: transaction_Inr split: sum.splits prod.splits)
    then have "job_id (hw_job h) = rid" using gone j
      by (auto simp: written_def Let_def keep drop_task_def delete_conv' split: if_splits)
    moreover have hok: "write_ok (cl_claims c) h" by (rule worker_okD(4) [OF ok commit(2)])
    ultimately have "hw_job h = job" using same [of "hw_job h"] by (simp add: write_ok_def)
    then have "end_sent job w" using commit(2) hok by (auto simp: end_sent_def write_ok_def)
    with d hok \<open>hw_job h = job\<close> have "job_over up clock' job (cl_db c) db' w w'"
      by (intro finish_over [OF sh commit(4), of "hw_status h" "hw_result h" job w db' up ts clock' "hw_code h" "hw_message h"])
         (auto simp: write_ok_def)
    then show ?thesis using commit(1) by simp
  next
    case (cancel rid' job')
    from worker_okD(1) [OF ok cancel(4)] have id': "rid' = job_id job'" and mem': "job' \<in> set (cl_claims c)" by simp_all
    have "map_of (wk_tasks w) rid' \<in> {Some Failing, Some Stopping} \<and> w' = drop_task rid' w"
      using cancel(1) gone j by (auto simp: cancel_task_def keep id' split: option.splits task_phase.splits)
    then obtain p where p: "map_of (wk_tasks w) rid' = Some p" "p \<in> {Failing, Stopping}" "w' = drop_task rid' w" by blast
    with gone j have "rid' = rid" by (auto simp: drop_task_def delete_conv' split: if_splits)
    from worker_okD(3) [OF ok p(1)] p(2) obtain h where "h \<in> set (wk_writes w)" "job_id (hw_job h) = rid'" "expected p h" by blast
    with p(2,3) \<open>rid' = rid\<close> id show ?thesis by (auto simp: job_over_def drop_task_def expected_def)
  next
    case (fence rid' job' clock clock' ts db')
    have d: "case transaction up (pg_finish ts clock clock' job' INTERRUPTED None (Some ''WORKER_STOPPED'') ''Run finished.'' (cl_db c)) of
      Inl e \<Rightarrow> db' = cl_db c | Inr (run, db1) \<Rightarrow> db' = db1" and w': "w' = w\<lparr>wk_jobs := AList.delete (job_id job') (wk_jobs w)\<rparr>"
      using fence(7) unfolding fence_job_def by (auto simp del: transaction_Inr split: sum.splits prod.splits)
    from w' gone j have "job_id job' = rid" by (auto simp: delete_conv' split: if_splits)
    with same [of job'] worker_okD(1) [OF ok fence(4)] have "job' = job" by simp
    moreover have "end_sent job w" using fence(2,3) by (simp add: end_sent_def)
    ultimately have "job_over up clock' job (cl_db c) db' w w'"
      using d by (intro finish_over [OF sh fence(6), of INTERRUPTED None job w db' up ts clock' "Some ''WORKER_STOPPED''" "''Run finished.''"])
         (auto simp: TERMINAL_def)
    then show ?thesis using fence(1) by simp
  qed (use gone j in \<open>auto simp: keep poll_result_def stop_worker_def\<close>)
qed

subsection \<open>Where results come from\<close>

text \<open>What writes no result.\<close>

definition no_result :: "shared_db \<Rightarrow> shared_db \<Rightarrow> bool" where
  "no_result db db' \<longleftrightarrow> (\<forall>rid b. pg_read_run db' rid = Inr b \<longrightarrow> rs_result b \<noteq> None \<longrightarrow> pg_read_run db rid = Inr b)"

lemma no_result_same [simp]: "no_result db db"
  by (simp add: no_result_def)

lemma no_result_write:
  assumes "shared_write digest od sd settings claims db rid (Inr (run, db'))" "db' = db \<or> rs_result run = None"
  shows "no_result db db'"
proof (cases "db' = db")
  case False
  with assms have other: "\<forall>i. i \<noteq> rid \<longrightarrow> pg_read_run db' i = pg_read_run db i" and run: "pg_read_run db' rid = Inr run" "rs_result run = None"
    by (auto simp: shared_write_def one_write_def pg_read_run_def)
  have "pg_read_run db i = Inr b" if "pg_read_run db' i = Inr b" "rs_result b \<noteq> None" for i b
    using that other run by (cases "i = rid") auto
  then show ?thesis by (simp add: no_result_def)
qed simp

lemma no_result_enqueue:
  assumes ok: "shared_ok digest od sd settings claims db" and e: "pg_enqueue od sd settings digest rid ts ts' created clock owner scope request binding grant db = Inr (run, db')"
  shows "no_result db db'"
proof -
  from ok have j: "journal_ok digest (journal db)" by (simp add: shared_ok_def)
  from e obtain conv where conv: "pg_conversation db owner scope (rq_conversation_id request) = Inr conv"
    by (cases "pg_conversation db owner scope (rq_conversation_id request)") (auto simp: pg_enqueue_def split: if_splits)
  from e have "db' = db \<or> pg_accept settings digest rid ts ts' created conv request binding grant db = Inr (run, db')"
    unfolding pg_enqueue_def conv sum.case by (cases "existing_row digest db request") (auto split: option.splits if_splits)
  then show ?thesis
  proof
    assume "pg_accept settings digest rid ts ts' created conv request binding grant db = Inr (run, db')"
    note q = enqueue_ok [OF j pg_accept_journal(1) [OF conv this]]
    from q(2) have "pg_read_run db' rid = Inr run" by (simp add: pg_read_run_def)
    from active_no_result [OF q(1) this] q(5) have none: "rs_result run = None" by (simp add: TERMINAL_def)
    have "pg_read_run db i = Inr b" if "pg_read_run db' i = Inr b" "rs_result b \<noteq> None" for i b
      using that q(2,3) none by (cases "i = rid") (auto simp: pg_read_run_def)
    then show ?thesis by (simp add: no_result_def)
  qed simp
qed

lemma no_result_cancel:
  assumes ok: "shared_ok digest od sd settings claims db" and e: "pg_cancel ts owner scope rid db = Inr (run, db')"
  shows "no_result db db'"
proof -
  from pg_cancel_writes [OF ok, of rid ts owner scope] e have w: "shared_write digest od sd settings claims db rid (Inr (run, db'))" by simp
  from e have "db' = db \<or> rs_status run \<in> {CANCELLED, CANCELLATION_REQUESTED}"
    by (auto simp: pg_cancel_def pg_write_def Let_def split: sum.splits if_splits)
  moreover from w have "db' = db \<or> (\<exists>a. moved a run)" by (auto simp: shared_write_def)
  ultimately have "db' = db \<or> rs_result run = None" by (auto simp: moved_def)
  with w show ?thesis by (rule no_result_write)
qed

lemma no_result_delete:
  assumes ok: "shared_ok digest od sd settings claims db" and e: "pg_delete owner scope cid db = Inr db'"
  shows "no_result db db'"
proof -
  from ok have j: "journal_ok digest (journal db)" by (simp add: shared_ok_def)
  from pg_delete_journal(1) [OF e] have "journal db' = drop_conversation cid (journal db)"
    by (auto simp: delete_conversation_def split: sum.splits if_splits)
  with drop_read [OF _ j, of cid] show ?thesis by (simp add: no_result_def pg_read_run_def)
qed

lemma no_result_claim:
  assumes ok: "shared_ok digest od sd settings claims db" and e: "claim settings binding locked fence tss clock clock' db = Inr (out, db')"
  shows "no_result db db'"
  unfolding no_result_def
proof (intro allI impI)
  fix rid b assume b: "pg_read_run db' rid = Inr b" "rs_result b \<noteq> None"
  from ok have j: "journal_ok digest (journal db)" by (simp add: shared_ok_def)
  from claim_keeps [OF ok, of binding locked fence tss clock clock'] e have rows: "claimed_rows clock out db db'"
    and j': "journal_ok digest (journal db')" by (auto simp: keeps_shared_def shared_ok_def)
  obtain p where p: "p \<in> set (pg_runs db')" "lw_id p = rid" "rw_payload (lw_row p) = b" "lw_status p = rs_status b"
    by (rule pg_read_run_row [OF j' b(1)])
  from active_no_result [OF j' b(1)] b(2) p(4) have st: "lw_status p \<noteq> RUNNING" by (auto simp: TERMINAL_def)
  from rows [unfolded claimed_rows_def] p(1) obtain q where q: "q \<in> set (pg_runs db)" "lw_id p = lw_id q"
    "p = q \<or> rs_result (rw_payload (lw_row p)) = None \<or> lw_status p = RUNNING" by (auto split: if_splits)
  with b(2) p(3) st have "p = q" by auto
  with row_of_shared(1) [OF j q(1)] p show "pg_read_run db rid = Inr b" by simp
qed

lemma no_result_progress:
  assumes ok: "shared_ok digest od sd settings claims db" and e: "pg_progress ts clock job report db = Inr db'"
  shows "no_result db db'"
proof -
  from pg_progress_writes [OF ok, of job ts clock report] e obtain run where
    w: "shared_write digest od sd settings claims db (job_id job) (Inr (run, db'))" "db' = db \<or> rs_status run = RUNNING" by auto
  from w(1) have "db' = db \<or> (\<exists>a. moved a run)" by (auto simp: shared_write_def)
  with w(2) have "db' = db \<or> rs_result run = None" by (auto simp: moved_def)
  with w(1) show ?thesis by (rule no_result_write)
qed

lemma no_result_heartbeat:
  "shared_ok digest od sd settings claims db \<Longrightarrow> heartbeat settings clock clock' job db = Inr (b, db') \<Longrightarrow> no_result db db'"
  using heartbeat_same(2) [of digest od sd settings claims db clock clock' job b db'] by (simp add: no_result_def pg_read_run_def)

lemma result_of_finish:
  assumes ok: "shared_ok digest od sd settings claims db" and e: "pg_finish ts clock clock' job status result code message db = Inr (run, db')"
    and res: "result \<noteq> None \<Longrightarrow> status = COMPLETED" and b: "pg_read_run db' rid = Inr b" "rs_result b = Some r"
  shows "pg_read_run db rid = Inr b \<or> rid = job_id job \<and> result = Some r"
proof -
  from pg_finish_writes(1) [OF ok, of result status job ts clock clock' code message, OF res] e
  have w: "shared_write digest od sd settings claims db (job_id job) (Inr (run, db'))" by simp
  from pg_finish_writes(2) [OF ok _ e] res have "rs_result run = None \<or> rs_result run = result"
    by (auto simp: finish_code_def split: if_splits)
  moreover have "pg_read_run db rid = Inr b \<or> rid = job_id job \<and> b = run"
    using w b(1) by (cases "rid = job_id job") (auto simp: shared_write_def one_write_def pg_read_run_def)
  ultimately show ?thesis using b(2) by auto
qed

lemma tick_no_result:
  assumes ok: "shared_ok digest od sd settings claims db" and t: "tick_round up settings locked fence tss clock clock' w db = Inr (go, out, w', db')"
  shows "no_result db db'" "wk_writes w' = wk_writes w"
proof -
  from t have "no_result db db' \<and> wk_writes w' = wk_writes w"
    by (cases rule: tick_round_cases) (auto simp: adopt_def dest: no_result_claim [OF ok])
  then show "no_result db db'" "wk_writes w' = wk_writes w" by simp_all
qed

lemma round_no_result:
  assumes ok: "shared_ok digest od sd settings claims db"
  shows "begin_task up a settings clock clock' job w db = (w', db') \<Longrightarrow> no_result db db'"
    "monitor_round up a settings clock clock' job w db = (w', db') \<Longrightarrow> no_result db db'"
proof -
  have hb: "no_result db db1" if "transaction up (heartbeat settings clock clock' job db) = Inr (b, db1)" for b db1
  proof -
    from that have "heartbeat settings clock clock' job db = Inr (b, db1)" by simp
    then show ?thesis by (rule no_result_heartbeat [OF ok])
  qed
  show "begin_task up a settings clock clock' job w db = (w', db') \<Longrightarrow> no_result db db'"
    unfolding begin_task_def using hb by (auto simp del: transaction_Inr split: if_splits sum.splits)
  show "monitor_round up a settings clock clock' job w db = (w', db') \<Longrightarrow> no_result db db'"
    unfolding monitor_round_def using hb by (auto simp del: transaction_Inr split: if_splits sum.splits)
qed

definition releases :: "(ClaimedRun \<Rightarrow> bool) \<Rightarrow> uuid \<Rightarrow> DemoChatResponse \<Rightarrow> worker \<Rightarrow> worker \<Rightarrow> bool" where
  "releases authority rid result w w' \<longleftrightarrow> (\<exists>job. map_of (wk_jobs w) rid = Some job \<and> map_of (wk_tasks w) rid = Some Working
     \<and> authority job \<and> w' = release_task True job result w)"

lemma handler_writes:
  "h \<in> set (wk_writes (fail_task job w)) \<Longrightarrow> hw_result h \<noteq> None \<Longrightarrow> h \<in> set (wk_writes w)"
  "h \<in> set (wk_writes (stop_task job w)) \<Longrightarrow> hw_result h \<noteq> None \<Longrightarrow> h \<in> set (wk_writes w)"
  "wk_writes (set_phase i p w) = wk_writes w" "wk_writes (drop_task i w) = wk_writes w"
  by (auto simp: fail_task_def stop_task_def hand_over_def set_phase_def drop_task_def)

lemma release_writes:
  assumes "h \<in> set (wk_writes (release_task a job result w))" "hw_result h = Some r"
  shows "h \<in> set (wk_writes w) \<or> a \<and> r = result \<and> hw_job h = job"
  using assms handler_writes(1) [of h job w] by (auto simp: release_task_def hand_over_def set_phase_def split: if_splits)

lemma written_writes: "h' \<in> set (wk_writes (written h b w)) \<Longrightarrow> hw_result h' \<noteq> None \<Longrightarrow> h' \<in> set (wk_writes w)"
  using set_remove1_subset [of h "wk_writes w"] handler_writes(1) [of h' "hw_job h" "w\<lparr>wk_writes := remove1 h (wk_writes w)\<rparr>"]
  by (auto simp: written_def Let_def handler_writes(4) split: if_splits)

lemma worker_step_writes:
  assumes ok: "worker_ok (cl_claims c) w" and sh: "shared_ok digest od sd settings (cl_claims c) (cl_db c)"
    and s: "worker_step settings up au (w, c) (w', c')" and h: "h \<in> set (wk_writes w')" "hw_result h = Some r"
  shows "h \<in> set (wk_writes w) \<or> releases au (job_id (hw_job h)) r w w'"
  using s
proof cases
  case (tick locked fence tss clock clock' db' go out)
  with tick_no_result(2) [OF sh tick(2)] h show ?thesis by simp
next
  case (start rid job clock clock' db')
  from begin_task_round(2) [OF start(6,4,5)] h have "h \<in> set (wk_writes (fail_task job w)) \<or> h \<in> set (wk_writes w)"
    by (auto simp: handler_writes(3))
  with handler_writes(1) [of h job w] h(2) show ?thesis by auto
next
  case (monitor rid job clock clock' db')
  from monitor_round_round(2) [OF monitor(6,4,5)] h handler_writes(2) [of h job w] show ?thesis by auto
next
  case (raised rid job)
  with h handler_writes(1) [of h job w] show ?thesis by simp
next
  case (release rid job result)
  from worker_okD(1) [OF ok release(4)] have id: "rid = job_id job" by simp
  from h(1) release(1) have "h \<in> set (wk_writes (release_task (au job) job result w))" by simp
  from release_writes [OF this h(2)] release id show ?thesis unfolding releases_def by auto
next
  case (commit h' clock clock' ts db')
  then have "\<exists>b. w' = written h' b w" unfolding commit_write_def by (auto simp del: transaction_Inr split: sum.splits prod.splits)
  with h written_writes show ?thesis by auto
next
  case (lost h')
  with h set_remove1_subset [of h' "wk_writes w"] show ?thesis by auto
next
  case (cancel rid job)
  with h handler_writes(2) [of h job w] handler_writes(3,4) show ?thesis by (auto simp: cancel_task_def split: option.splits task_phase.splits)
next
  case (fence rid job clock clock' ts db')
  then have "w' = w\<lparr>wk_jobs := AList.delete (job_id job) (wk_jobs w)\<rparr>" by (simp add: fence_job_def)
  with h show ?thesis by simp
qed (use h in \<open>simp_all add: poll_result_def handler_writes(3) stop_worker_def closed_worker_def\<close>)

lemma worker_step_results:
  assumes ok: "worker_ok (cl_claims c) w" and sh: "shared_ok digest od sd settings (cl_claims c) (cl_db c)"
    and s: "worker_step settings up au (w, c) (w', c')" and b: "pg_read_run (cl_db c') rid = Inr b" "rs_result b = Some r"
  shows "pg_read_run (cl_db c) rid = Inr b \<or> (\<exists>h\<in>set (wk_writes w). job_id (hw_job h) = rid \<and> hw_result h = Some r)"
proof -
  have old: ?thesis if "no_result (cl_db c) (cl_db c')" using that b by (auto simp: no_result_def)
  have fin: "pg_read_run (cl_db c) rid = Inr b \<or> rid = job_id job \<and> result = Some r"
    if "case transaction up (pg_finish ts clock clock' job status result code message (cl_db c)) of
        Inl e \<Rightarrow> cl_db c' = cl_db c | Inr (run, db1) \<Rightarrow> cl_db c' = db1" "result \<noteq> None \<Longrightarrow> status = COMPLETED"
    for ts clock clock' job status result code message
  proof (cases "transaction up (pg_finish ts clock clock' job status result code message (cl_db c))")
    case (Inl e)
    with that(1) b show ?thesis by simp
  next
    case (Inr x)
    obtain run db1 where x: "x = (run, db1)" by (cases x)
    with Inr that(1) have "cl_db c' = db1" by (simp del: transaction_Inr)
    moreover have "pg_finish ts clock clock' job status result code message (cl_db c) = Inr (run, db1)" using Inr x by simp
    ultimately show ?thesis using result_of_finish [OF sh _ that(2) b] by blast
  qed
  from s show ?thesis
  proof cases
    case (tick locked fence tss clock clock' db' go out)
    with tick_no_result(1) [OF sh tick(2)] old show ?thesis by simp
  next
    case (start rid job clock clock' db')
    with round_no_result(1) [OF sh start(6)] old show ?thesis by simp
  next
    case (monitor rid job clock clock' db')
    with round_no_result(2) [OF sh monitor(6)] old show ?thesis by simp
  next
    case (progress rid job ts report db')
    then have "pg_progress ts (cl_now c) job report (cl_db c) = Inr (cl_db c')" by simp
    from old [OF no_result_progress [OF sh this]] show ?thesis .
  next
    case (renew job clock clock' b db')
    then have "heartbeat settings clock clock' job (cl_db c) = Inr (b, cl_db c')" by simp
    from old [OF no_result_heartbeat [OF sh this]] show ?thesis .
  next
    case (commit h clock clock' ts db')
    have "case transaction up (pg_finish ts clock clock' (hw_job h) (hw_status h) (hw_result h) (hw_code h) (hw_message h) (cl_db c)) of
      Inl e \<Rightarrow> cl_db c' = cl_db c | Inr (run, db1) \<Rightarrow> cl_db c' = db1"
      using commit(1,5) unfolding commit_write_def by (auto simp del: transaction_Inr split: sum.splits prod.splits)
    then have "pg_read_run (cl_db c) rid = Inr b \<or> rid = job_id (hw_job h) \<and> hw_result h = Some r"
      using worker_okD(4) [OF ok commit(2)]
      by (intro fin [of ts clock clock' "hw_job h" "hw_status h" "hw_result h" "hw_code h" "hw_message h"])
         (simp_all add: write_ok_def del: transaction_Inr)
    with commit(2) show ?thesis by auto
  next
    case (fence rid' job clock clock' ts db')
    have "case transaction up (pg_finish ts clock clock' job INTERRUPTED None (Some ''WORKER_STOPPED'') ''Run finished.'' (cl_db c)) of
      Inl e \<Rightarrow> cl_db c' = cl_db c | Inr (run, db1) \<Rightarrow> cl_db c' = db1"
      using fence(1,7) unfolding fence_job_def by (auto simp del: transaction_Inr split: sum.splits prod.splits)
    then have "pg_read_run (cl_db c) rid = Inr b \<or> rid = job_id job \<and> None = Some r"
      by (intro fin [of ts clock clock' job INTERRUPTED None "Some ''WORKER_STOPPED''" "''Run finished.''"])
        (simp_all del: transaction_Inr)
    then show ?thesis by simp
  qed (use old in simp_all)
qed

text \<open>A release in the past of a fleet.\<close>

definition was_released :: "(RunRequest \<Rightarrow> string) \<Rightarrow> (string list \<Rightarrow> string) \<Rightarrow> (string list list \<Rightarrow> string) \<Rightarrow> SharedStateSettings
    \<Rightarrow> fleet \<Rightarrow> uuid \<Rightarrow> DemoChatResponse \<Rightarrow> bool" where
  "was_released digest od sd settings f rid result \<longleftrightarrow> (\<exists>g g' i. fleet_reach digest od sd settings g \<and> fleet_step digest od sd settings g g'
     \<and> (fleet_step digest od sd settings)\<^sup>*\<^sup>* g' f \<and> i < length (fl_workers g)
     \<and> releases (fl_authority g) rid result (fl_workers g ! i) (fl_workers g' ! i))"

lemma was_released_step:
  "was_released digest od sd settings f rid r \<Longrightarrow> fleet_step digest od sd settings f f' \<Longrightarrow> was_released digest od sd settings f' rid r"
  unfolding was_released_def by (meson rtranclp.rtrancl_into_rtrancl)

lemma fleet_results_released:
  assumes "fleet_reach digest od sd settings f"
  shows "(\<forall>i<length (fl_workers f). \<forall>h\<in>set (wk_writes (fl_workers f ! i)). \<forall>r. hw_result h = Some r
        \<longrightarrow> was_released digest od sd settings f (job_id (hw_job h)) r)
    \<and> (\<forall>rid b r. pg_read_run (cl_db (fl_cluster f)) rid = Inr b \<longrightarrow> rs_result b = Some r \<longrightarrow> was_released digest od sd settings f rid r)"
  (is "?writes f \<and> ?results f")
  using assms
proof (induction rule: fleet_reach.induct)
  case (empty s t up authority)
  have "pg_read_run empty_shared rid \<noteq> Inr b" for rid b
    by (simp add: pg_read_run_def read_run_def journal_def empty_shared_def)
  then show ?case by simp
next
  case (step f f')
  note ok = fleet_reach_ok [OF step(1)]
  from shared_reach_ok [OF fleet_okD(1) [OF ok]] have sh: "shared_ok digest od sd settings (cl_claims (fl_cluster f)) (cl_db (fl_cluster f))" .
  note past = was_released_step [OF _ step(2)]
  have kept: "?writes f' \<and> ?results f'" if "fl_workers f' = fl_workers f" "no_result (cl_db (fl_cluster f)) (cl_db (fl_cluster f'))"
    using that step(3) past unfolding no_result_def by (metis option.distinct(1))
  from step(2) show ?case
  proof cases
    case (started binding maximum)
    with step(3) past show ?thesis by (auto simp: nth_append less_Suc_eq new_worker_def)
  next
    case (submit rid ts ts' created owner scope request binding grant co run db')
    then have "pg_enqueue od sd settings digest rid ts ts' created (cl_now (fl_cluster f)) owner scope request binding grant
        (cl_db (fl_cluster f)) = Inr (run, db')"
      by (simp only: submit_shared_def split: if_splits) simp_all
    from no_result_enqueue [OF sh this] submit(1) show ?thesis by (intro kept) simp_all
  next
    case (create owner scope cid now created v db')
    then have "no_result (cl_db (fl_cluster f)) db'"
      by (auto simp: no_result_def pg_create_conversation_def pg_read_run_def read_run_def journal_def Let_def split: if_splits)
    with create(1) show ?thesis by (intro kept) simp_all
  next
    case (withdraw ts owner scope rid run db')
    with no_result_cancel [OF sh, of ts owner scope rid run db'] show ?thesis by (intro kept) simp_all
  next
    case (delete owner scope cid db')
    with no_result_delete [OF sh, of owner scope cid db'] show ?thesis by (intro kept) simp_all
  next
    case (work i w' c')
    note wok = fleet_okD(2) [OF ok work(2)]
    have "was_released digest od sd settings f' (job_id (hw_job h)) r"
      if k: "k < length (fl_workers f')" "h \<in> set (wk_writes (fl_workers f' ! k))" "hw_result h = Some r" for k h r
    proof (cases "k = i")
      case True
      with k work(1,2) have "h \<in> set (wk_writes w')" by simp
      from worker_step_writes [OF wok sh work(3) this k(3)] show ?thesis
      proof
        assume "releases (fl_authority f) (job_id (hw_job h)) r (fl_workers f ! i) w'"
        with step(1,2) work(1,2) show ?thesis unfolding was_released_def
          by (intro exI [of _ f] exI [of _ f'] exI [of _ i]) simp
      qed (use step(3) work(2) k(3) past in blast)
    next
      case False
      with k work(1) have "k < length (fl_workers f)" "h \<in> set (wk_writes (fl_workers f ! k))" by simp_all
      with step(3) k(3) past show ?thesis by blast
    qed
    moreover have "was_released digest od sd settings f' rid r"
      if b: "pg_read_run (cl_db (fl_cluster f')) rid = Inr b" "rs_result b = Some r" for rid b r
    proof -
      from b(1) work(1) have "pg_read_run (cl_db c') rid = Inr b" by simp
      from worker_step_results [OF wok sh work(3) this b(2)] step(3) b(2) work(2) past show ?thesis by blast
    qed
    ultimately show ?thesis by blast
  next
    case (world t up authority)
    then show ?thesis by (intro kept) simp_all
  qed
qed

subsection \<open>Properties\<close>

text \<open>C18: Whatever workers, services and clocks do in whatever order, no run is worked on by two workers, a worker
  works on nothing that was not handed to it, and never on more than its limit.\<close>

theorem runs_have_one_worker:
  assumes "fleet_reach digest od sd settings f" "i < length (fl_workers f)" "k < length (fl_workers f)"
    and "map_of (wk_jobs (fl_workers f ! i)) rid = Some job" "map_of (wk_jobs (fl_workers f ! k)) rid = Some job'"
  shows "i = k \<and> job_id job = rid \<and> job \<in> set (cl_claims (fl_cluster f))
    \<and> (wk_tasks (fl_workers f ! i) = [] \<or> int (length (wk_tasks (fl_workers f ! i))) \<le> wk_maximum_active (fl_workers f ! i))"
proof -
  note ok = fleet_reach_ok [OF assms(1)]
  note w = fleet_okD(2) [OF ok assms(2)]
  have "rid \<in> held (fl_workers f ! i) \<inter> held (fl_workers f ! k)" using held_job assms(4,5) by blast
  then have "i = k" using fleet_okD(3) [OF ok assms(2,3)] by auto
  with worker_okD(1) [OF w assms(4)] worker_okD(5) [OF w] show ?thesis by simp
qed

text \<open>C19: A job leaves its worker only when its run has ended, the write of its end was sent to a database that does not answer, the
  store no longer takes the job, at the instant of that very step, for the holder of the run's lease, or the write of its
  end is still in a thread: closing a worker drops no run silently.\<close>

theorem no_job_is_dropped:
  assumes "fleet_reach digest od sd settings f" "fleet_step digest od sd settings f f'" "i < length (fl_workers f)"
    and "map_of (wk_jobs (fl_workers f ! i)) rid = Some job" "map_of (wk_jobs (fl_workers f' ! i)) rid = None"
  shows "job_over (fl_up f) (cl_now (fl_cluster f')) job (cl_db (fl_cluster f)) (cl_db (fl_cluster f'))
    (fl_workers f ! i) (fl_workers f' ! i)"
proof -
  note ok = fleet_reach_ok [OF assms(1)]
  note sh = shared_reach_ok [OF fleet_okD(1) [OF ok]]
  from assms(2) show ?thesis
  proof cases
    case (work k w' c')
    with assms(3-5) have "k = i" by (cases "k = i") auto
    with work assms(5) have "map_of (wk_jobs w') rid = None" by simp
    from worker_keeps_or_ends [OF fleet_okD(2) [OF ok assms(3)] sh work(3) [unfolded \<open>k = i\<close>] assms(4) this]
    show ?thesis using work \<open>k = i\<close> by simp
  qed (use assms(3-5) in \<open>simp_all add: nth_append\<close>)
qed

text \<open>C17: Every answer in the shared tables was released by a worker that held the run's job, whose operation had
  returned that very answer and for which the authority still stood at that moment.\<close>

theorem answers_need_release:
  assumes "fleet_reach digest od sd settings f" "pg_read_run (cl_db (fl_cluster f)) rid = Inr run" "rs_result run = Some result"
  shows "was_released digest od sd settings f rid result"
  using fleet_results_released [OF assms(1)] assms(2,3) by blast

subsection \<open>A worker on a shared store\<close>

definition demo_fleet :: "cluster \<Rightarrow> worker list \<Rightarrow> fleet" where
  "demo_fleet c ws = \<lparr>fl_cluster = c, fl_workers = ws, fl_up = True, fl_authority = \<lambda>_. True\<rparr>"

lemma demo_fleet_simps [simp]:
  "fl_cluster (demo_fleet c ws) = c" "fl_workers (demo_fleet c ws) = ws" "fl_up (demo_fleet c ws)" "fl_authority (demo_fleet c ws) job"
  "(demo_fleet c ws)\<lparr>fl_cluster := c'\<rparr> = demo_fleet c' ws" "(demo_fleet c ws)\<lparr>fl_workers := ws'\<rparr> = demo_fleet c ws'"
  by (simp_all add: demo_fleet_def)

definition worker1 :: worker where
  "worker1 = new_worker ''b'' 1"

definition worker2 :: worker where
  "worker2 = adopt demo_job worker1"

definition worker3 :: worker where
  "worker3 = set_phase ''r'' Checking worker2"

definition shared5 :: "worker \<times> shared_db" where
  "shared5 = begin_task True True demo_settings 3 3 demo_job worker3 (cl_db cluster3)"

definition worker5 :: worker where
  "worker5 = release_task True demo_job released (fst shared5)"

definition shared6 :: "worker \<times> shared_db" where
  "shared6 = commit_write True (4, 4) 4 5 (hd (wk_writes worker5)) worker5 (snd shared5)"

definition cluster5 :: cluster where
  "cluster5 = \<lparr>cl_now = 3, cl_db = snd shared5, cl_claims = [demo_job]\<rparr>"

definition cluster6 :: cluster where
  "cluster6 = \<lparr>cl_now = 5, cl_db = snd shared6, cl_claims = [demo_job]\<rparr>"

lemma worker_results:
  "wk_jobs worker2 = [(job_id demo_job, demo_job)]" "wk_jobs worker3 = [(job_id demo_job, demo_job)]"
  "map_of (wk_tasks worker2) ''r'' = Some Created" "map_of (wk_tasks worker3) ''r'' = Some Checking"
  "wk_jobs (fst shared5) = [(job_id demo_job, demo_job)]" "map_of (wk_tasks (fst shared5)) ''r'' = Some Working"
  "wk_writes worker5 \<noteq> []" "wk_jobs worker5 = [(job_id demo_job, demo_job)]" "wk_jobs (fst shared6) = []"
  "case pg_read_run (snd shared6) ''r'' of Inl e \<Rightarrow> False | Inr a \<Rightarrow> rs_result a = Some released"
  by code_simp+

abbreviation demo_step :: "fleet \<Rightarrow> fleet \<Rightarrow> bool" where
  "demo_step \<equiv> fleet_step rq_question first_text (first_text \<circ> concat) demo_settings"

abbreviation demo_reach :: "fleet \<Rightarrow> bool" where
  "demo_reach \<equiv> fleet_reach rq_question first_text (first_text \<circ> concat) demo_settings"

lemma demo_work:
  assumes "worker_step demo_settings True (\<lambda>_. True) (w, c) (w', c')"
  shows "demo_step (demo_fleet c [w]) (demo_fleet c' [w'])"
proof -
  have "worker_step demo_settings (fl_up (demo_fleet c [w])) (fl_authority (demo_fleet c [w]))
      (fl_workers (demo_fleet c [w]) ! 0, fl_cluster (demo_fleet c [w])) (w', c')" using assms by (simp add: demo_fleet_def)
  from fleet_step.work [OF _ this, of rq_question first_text "first_text \<circ> concat"] show ?thesis by (simp add: demo_fleet_def)
qed

lemma demo_admitted: "demo_reach (demo_fleet cluster2 [worker1])"
proof -
  let ?c0 = "\<lparr>cl_now = 0, cl_db = empty_shared, cl_claims = []\<rparr>" and ?sd = "first_text \<circ> concat"
  note ok = is_ok_pair [OF shared_results(2)] is_ok_pair [OF shared_results(3)]
  have r0: "demo_reach (demo_fleet ?c0 [])"
    unfolding demo_fleet_def by (rule fleet_reach.empty [OF shared_results(1)])
  have e1: "transaction (fl_up (demo_fleet ?c0 [])) (pg_create_conversation demo_settings (fst demo_principal) (snd demo_principal) ''c'' 0 0
      (cl_db (fl_cluster (demo_fleet ?c0 [])))) = Inr (fst (projr shared1), snd (projr shared1))"
    using ok(1) by (simp only: shared1_def cluster.simps demo_fleet_def fleet.simps)
  have c1: "(demo_fleet ?c0 [])\<lparr>fl_cluster := (fl_cluster (demo_fleet ?c0 []))\<lparr>cl_db := snd (projr shared1)\<rparr>\<rparr> = demo_fleet cluster1 []"
    by (simp add: cluster1_def)
  from fleet_reach.step [OF r0 fleet_step.create [OF e1]] have r1: "demo_reach (demo_fleet cluster1 [])" unfolding c1 .
  have e2: "submit_shared (fl_up (demo_fleet cluster1 [])) first_text ?sd demo_settings rq_question ''r'' (1, 1) (2, 2) 2
      (cl_now (fl_cluster (demo_fleet cluster1 []))) (fst demo_principal) (snd demo_principal) demo_run_request ''b'' demo_grant
      \<lparr>dc_closing = False\<rparr> (cl_db (fl_cluster (demo_fleet cluster1 []))) = Inr (fst (projr shared2), snd (projr shared2))"
    using ok(2) by (simp only: submit_shared_def shared2_def cluster1_def cluster.simps demo_fleet_def fleet.simps
        distributed_coordinator.simps if_False)
  have c2: "(demo_fleet cluster1 [])\<lparr>fl_cluster := (fl_cluster (demo_fleet cluster1 []))\<lparr>cl_db := snd (projr shared2)\<rparr>\<rparr>
      = demo_fleet cluster2 []" by (simp add: cluster1_def cluster2_def)
  have "''r'' \<notin> job_id ` set (cl_claims (fl_cluster (demo_fleet cluster1 [])))" by (simp add: cluster1_def)
  from fleet_reach.step [OF r1 fleet_step.submit [OF e2 this]] have r2: "demo_reach (demo_fleet cluster2 [])" unfolding c2 .
  have c3: "(demo_fleet cluster2 [])\<lparr>fl_workers := fl_workers (demo_fleet cluster2 []) @ [new_worker ''b'' 1]\<rparr> = demo_fleet cluster2 [worker1]"
    by (simp add: worker1_def)
  from fleet_reach.step [OF r2 fleet_step.started [of _ _ _ _ _ "''b''" 1]] show ?thesis unfolding c3 .
qed

lemma demo_claimed: "demo_reach (demo_fleet cluster3 [worker2])"
proof -
  define db where "db = snd (projr shared3)"
  from shared_results(5) have "fst (projr shared3) = Some demo_job" by (simp add: demo_job_def)
  with is_ok_pair [OF shared_results(4)] have e: "shared3 = Inr (Some demo_job, db)" "snd (projr shared3) = db"
    by (simp_all add: db_def)
  have "tick_round True demo_settings [] ''f'' (\<lambda>_. (3, 3)) 3 3 worker1 (cl_db cluster2) = Inr (True, Some demo_job, worker2, db)"
    using e(1) unfolding tick_round_def shared3_def
    by (simp add: worker1_def new_worker_def worker2_def cluster2_def del: transaction_Inr)
  from worker_step.tick [OF this, of "\<lambda>_. True"]
  have "worker_step demo_settings True (\<lambda>_. True) (worker1, cluster2) (worker2, cluster3)"
    by (simp add: cluster2_def cluster3_def given_def e(2))
  from fleet_reach.step [OF demo_admitted demo_work [OF this]] show ?thesis .
qed

lemma demo_worked: "demo_reach (demo_fleet cluster5 [fst shared5])"
proof -
  have job: "map_of (wk_jobs worker3) ''r'' = Some demo_job" using worker_results(2) shared_results(9) by simp
  from worker_step.enter [OF worker_results(3), of demo_settings True "\<lambda>_. True" cluster3]
  have "worker_step demo_settings True (\<lambda>_. True) (worker2, cluster3) (worker3, cluster3)" by (simp only: worker3_def)
  from fleet_reach.step [OF demo_claimed demo_work [OF this]] have r: "demo_reach (demo_fleet cluster3 [worker3])" .
  have "begin_task True ((\<lambda>_. True) demo_job) demo_settings 3 3 demo_job worker3 (cl_db cluster3) = (fst shared5, snd shared5)"
    by (simp add: shared5_def)
  from worker_step.start [OF worker_results(4) job _ _ this]
  have "worker_step demo_settings True (\<lambda>_. True) (worker3, cluster3) (fst shared5, cluster5)" by (simp add: cluster3_def cluster5_def)
  from fleet_reach.step [OF r demo_work [OF this]] show ?thesis .
qed

lemma demo_released:
  "demo_reach (demo_fleet cluster5 [worker5])" "demo_step (demo_fleet cluster5 [worker5]) (demo_fleet cluster6 [fst shared6])"
proof -
  have "map_of (wk_jobs (fst shared5)) ''r'' = Some demo_job" using worker_results(5) shared_results(9) by simp
  from worker_step.release [OF worker_results(6) this, of demo_settings True "\<lambda>_. True" cluster5 released]
  have "worker_step demo_settings True (\<lambda>_. True) (fst shared5, cluster5) (worker5, cluster5)" by (simp only: worker5_def)
  from fleet_reach.step [OF demo_worked demo_work [OF this]] show "demo_reach (demo_fleet cluster5 [worker5])" .
  have c: "commit_write True (4, 4) 4 5 (hd (wk_writes worker5)) worker5 (cl_db cluster5) = (fst shared6, snd shared6)"
    by (simp add: shared6_def cluster5_def)
  have h: "hd (wk_writes worker5) \<in> set (wk_writes worker5)" using worker_results(7) by simp
  from worker_step.commit [OF h _ _ c] have "worker_step demo_settings True (\<lambda>_. True) (worker5, cluster5) (fst shared6, cluster6)"
    by (simp add: cluster5_def cluster6_def)
  from demo_work [OF this] show "demo_step (demo_fleet cluster5 [worker5]) (demo_fleet cluster6 [fst shared6])" .
qed

theorem runs_have_one_worker_witness: "demo_job \<in> set (cl_claims cluster3) \<and> int (length (wk_tasks worker2)) \<le> 1"
proof -
  have j: "map_of (wk_jobs (fl_workers (demo_fleet cluster3 [worker2]) ! 0)) ''r'' = Some demo_job"
    using worker_results(1) shared_results(9) by simp
  from runs_have_one_worker [OF demo_claimed _ _ j j] worker_results(3) show ?thesis
    by (auto simp: worker2_def worker1_def adopt_def new_worker_def)
qed

theorem no_job_is_dropped_witness:
  "job_over True (cl_now cluster6) demo_job (cl_db cluster5) (cl_db cluster6) worker5 (fst shared6)"
proof -
  have "map_of (wk_jobs (fl_workers (demo_fleet cluster5 [worker5]) ! 0)) ''r'' = Some demo_job"
    "map_of (wk_jobs (fl_workers (demo_fleet cluster6 [fst shared6]) ! 0)) ''r'' = None"
    using worker_results(8,9) shared_results(9) by simp_all
  from no_job_is_dropped [OF demo_released _ this] show ?thesis by (simp only: demo_fleet_simps nth_Cons_0 simp_thms length_Cons zero_less_Suc)
qed

theorem answers_need_release_witness:
  "was_released rq_question first_text (first_text \<circ> concat) demo_settings (demo_fleet cluster6 [fst shared6]) ''r'' released"
proof -
  from worker_results(10) obtain run where "pg_read_run (cl_db (fl_cluster (demo_fleet cluster6 [fst shared6]))) ''r'' = Inr run"
    "rs_result run = Some released" by (auto simp: cluster6_def split: sum.splits)
  from answers_need_release [OF fleet_reach.step [OF demo_released] this] show ?thesis .
qed

end
