(* ===== verification/Authority.thy ===== *)
theory Authority
  imports DefinitionStore Workers
begin

section \<open>Authority: identities, grants and shared definitions\<close>

text \<open>
  \<open>services/identity.py\<close>, \<open>services/postgres_governance.py\<close>, the identity settings of
  \<open>core/internal_config.py\<close> and the authority checks of \<open>internal/worker.py\<close> and \<open>internal/runs.py\<close>.
  Parameters: the JWT library \<open>lib\<close> (parsing a token's header, finding its signing key, decoding), the
  splitting of a URL \<open>trusted\<close>, the texts pydantic writes and validates (\<open>grant_codec\<close>, \<open>None\<close> for a
  validation error) and the digest of a grant file.  Instants are in microseconds.
\<close>

subsection \<open>Failures\<close>

datatype authority_failure = IdentityRejected string | IdentityUnavailable string | GrantsChanged string | ClaimMissing
  | TimestampRange | RunFailed run_failure | DefinitionsFailed gov_error | WorkspaceMissing

subsection \<open>Identity settings\<close>

datatype token_header = AUTHORIZATION_HEADER | IAP_HEADER

record IdentitySettings =
  is_issuer :: string
  is_audience :: string
  is_jwks_url :: string
  is_algorithm :: string
  is_token_header :: token_header
  is_maximum_token_lifetime_seconds :: int
  is_leeway_seconds :: int
  is_key_cache_seconds :: int

definition signed_iap_contract :: "IdentitySettings \<Rightarrow> bool" where
  "signed_iap_contract s \<longleftrightarrow> is_token_header s = IAP_HEADER \<longrightarrow>
     is_algorithm s = ''ES256'' \<and> is_issuer s = ''https://cloud.google.com/iap''
     \<and> is_jwks_url s = ''https://www.gstatic.com/iap/verify/public_key-jwk''
     \<and> is_maximum_token_lifetime_seconds s \<le> 600 + 2 * is_leeway_seconds s"

definition make_identity_settings :: "(string \<Rightarrow> bool) \<Rightarrow> IdentitySettings \<Rightarrow> py_exc + IdentitySettings" where
  "make_identity_settings trusted s =
     (if 1 \<le> length (is_audience s) \<and> length (is_audience s) \<le> 512 \<and> is_algorithm s \<in> {''RS256'', ''ES256''}
         \<and> 60 \<le> is_maximum_token_lifetime_seconds s \<and> is_maximum_token_lifetime_seconds s \<le> 3600
         \<and> 0 \<le> is_leeway_seconds s \<and> is_leeway_seconds s \<le> 30
         \<and> 1 \<le> is_key_cache_seconds s \<and> is_key_cache_seconds s \<le> 300
         \<and> trusted (is_issuer s) \<and> trusted (is_jwks_url s) \<and> signed_iap_contract s
      then Inr s else Inl ValueError)"

subsection \<open>Entitlements\<close>

record EntitlementFile =
  ef_version :: string
  ef_issuer :: string
  ef_bindings :: "AccessContext list"

definition make_entitlements :: "EntitlementFile \<Rightarrow> py_exc + EntitlementFile" where
  "make_entitlements f = (if ef_version f \<noteq> [] \<and> distinct (map ac_user_id (ef_bindings f)) then Inr f else Inl ValueError)"

record 'p grant_codec =
  gx_dump :: "EntitlementFile \<Rightarrow> 'p"
  gx_load :: "'p \<Rightarrow> EntitlementFile option"

definition access_of :: "string \<Rightarrow> EntitlementFile \<Rightarrow> authority_failure + AccessContext" where
  "access_of subject grants =
     (case List.find (\<lambda>a. ac_user_id a = subject) (ef_bindings grants) of
        None \<Rightarrow> Inl (IdentityRejected ''No active authorization grant exists for this identity.'')
      | Some a \<Rightarrow> Inr a)"

text \<open>\<open>EntitlementStore.resolve\<close>: the bytes of the private file, \<open>None\<close> when it cannot be read.\<close>

definition file_resolve :: "string grant_codec \<Rightarrow> string \<Rightarrow> string option \<Rightarrow> string \<Rightarrow> authority_failure + AccessContext" where
  "file_resolve gx issuer payload subject =
     (case payload of None \<Rightarrow> Inl (IdentityUnavailable ''Authorization configuration is unavailable.'')
      | Some bytes \<Rightarrow>
        if length bytes > 1000000 then Inl (IdentityUnavailable ''Authorization configuration is unavailable.'')
        else (case gx_load gx bytes of None \<Rightarrow> Inl (IdentityUnavailable ''Authorization configuration is unavailable.'')
          | Some grants \<Rightarrow> if ef_issuer grants \<noteq> issuer then Inl (IdentityUnavailable ''Authorization configuration is unavailable.'')
              else access_of subject grants))"

subsection \<open>Published grants\<close>

record 'p grant_tables =
  gt_grants :: "string \<rightharpoonup> int \<times> 'p"
  gt_audit :: "(string \<times> int \<times> string) list"

definition no_grants :: "'p grant_tables" where
  "no_grants = \<lparr>gt_grants = Map.empty, gt_audit = []\<rparr>"

definition in_transaction :: "bool \<Rightarrow> authority_failure + 'a \<Rightarrow> authority_failure + 'a" where
  "in_transaction up body = (if \<not> up then Inl (RunFailed shared_unavailable)
     else case body of Inl (RunFailed RunIntegrity) \<Rightarrow> Inl (RunFailed shared_unavailable) | _ \<Rightarrow> body)"

definition grant_revision :: "string \<Rightarrow> 'p grant_tables \<Rightarrow> int" where
  "grant_revision issuer db = (case gt_grants db issuer of None \<Rightarrow> 0 | Some (revision, _) \<Rightarrow> revision)"

definition publish_body :: "'p grant_codec \<Rightarrow> (EntitlementFile \<Rightarrow> string) \<Rightarrow> string \<Rightarrow> EntitlementFile \<Rightarrow> int \<Rightarrow> 'p grant_tables
    \<Rightarrow> authority_failure + int \<times> 'p grant_tables" where
  "publish_body gx gd issuer grants base db =
     (if grant_revision issuer db \<noteq> base
      then Inl (GrantsChanged ''Authorization changed. Refresh before publishing.'')
      else (let revision = base + 1
            in if (issuer, revision) \<in> (\<lambda>(i, r, d). (i, r)) ` set (gt_audit db) then Inl (RunFailed RunIntegrity)
               else Inr (revision, \<lparr>gt_grants = (gt_grants db)(issuer \<mapsto> (revision, gx_dump gx grants)),
                                    gt_audit = gt_audit db @ [(issuer, revision, gd grants)]\<rparr>)))"

definition publish_grants :: "bool \<Rightarrow> 'p grant_codec \<Rightarrow> (EntitlementFile \<Rightarrow> string) \<Rightarrow> string \<Rightarrow> EntitlementFile \<Rightarrow> int \<Rightarrow> 'p grant_tables
    \<Rightarrow> authority_failure + int \<times> 'p grant_tables" where
  "publish_grants up gx gd issuer grants base db =
     (if ef_issuer grants \<noteq> issuer then Inl (IdentityUnavailable ''Authorization issuer does not match the trust root.'')
      else in_transaction up (publish_body gx gd issuer grants base db))"

definition pg_resolve :: "bool \<Rightarrow> 'p grant_codec \<Rightarrow> string \<Rightarrow> 'p grant_tables \<Rightarrow> string \<Rightarrow> authority_failure + AccessContext" where
  "pg_resolve up gx issuer db subject =
     (case in_transaction up (Inr (gt_grants db issuer)) of Inl e \<Rightarrow> Inl e
      | Inr None \<Rightarrow> Inl (IdentityUnavailable ''Authorization has not been published.'')
      | Inr (Some (_, payload)) \<Rightarrow>
        (case gx_load gx payload of None \<Rightarrow> Inl (IdentityUnavailable ''Authorization configuration is unavailable.'')
         | Some grants \<Rightarrow> if ef_issuer grants \<noteq> issuer then Inl (IdentityUnavailable ''Authorization configuration is unavailable.'')
             else access_of subject grants))"

subsection \<open>Signed tokens\<close>

text \<open>A value in a token: a string, a whole number (not a Boolean), or anything else.\<close>

datatype claim_value = ClaimText string | ClaimInt int | ClaimOther

datatype jwt_failure = KeyServiceDown | TokenInvalid

record 'k jwt_library =
  jw_header :: "string \<Rightarrow> jwt_failure + (string \<times> claim_value) list"
  jw_key :: "string \<Rightarrow> jwt_failure + 'k"
  jw_decode :: "string \<Rightarrow> 'k \<Rightarrow> string \<Rightarrow> string \<Rightarrow> string \<Rightarrow> int \<Rightarrow> jwt_failure + (string \<times> claim_value) list"

definition jwt_error :: "jwt_failure \<Rightarrow> authority_failure" where
  "jwt_error e = (case e of KeyServiceDown \<Rightarrow> IdentityUnavailable ''The identity key service is unavailable.''
     | TokenInvalid \<Rightarrow> IdentityRejected ''The signed identity token was rejected.'')"

definition header_error :: "IdentitySettings \<Rightarrow> (string \<times> claim_value) list \<Rightarrow> authority_failure option" where
  "header_error s header =
     (case (map_of header ''alg'', map_of header ''kid'') of
        (Some (ClaimText alg), Some (ClaimText kid)) \<Rightarrow>
          if alg \<noteq> is_algorithm s then Some (IdentityRejected ''The identity token has an unsupported signature contract.'')
          else if kid = [] \<or> length kid > 256 \<or> list_ex (\<lambda>k. k \<in> fst ` set header) [''jku'', ''jwk'', ''x5u'', ''crit'']
          then Some (IdentityRejected ''The identity token has an unsupported key contract.'')
          else None
      | _ \<Rightarrow> Some (IdentityRejected ''The identity token has an unsupported signature contract.''))"

text \<open>The decoded claims: the subject and the expiry in seconds.\<close>

definition checked_claims :: "IdentitySettings \<Rightarrow> (string \<times> claim_value) list \<Rightarrow> authority_failure + string \<times> int" where
  "checked_claims s claims =
     (case (map_of claims ''iat'', map_of claims ''exp'') of
        (None, _) \<Rightarrow> Inl ClaimMissing
      | (Some (ClaimInt iat), None) \<Rightarrow> Inl ClaimMissing
      | (Some (ClaimInt iat), Some (ClaimInt expiry)) \<Rightarrow>
          if \<not> (0 < expiry - iat \<and> expiry - iat \<le> is_maximum_token_lifetime_seconds s)
          then Inl (IdentityRejected ''The identity token lifetime exceeds the approved limit.'')
          else (case map_of claims ''sub'' of None \<Rightarrow> Inl ClaimMissing
            | Some (ClaimText subject) \<Rightarrow> if 0 < length subject \<and> length subject \<le> 256 then Inr (subject, expiry)
                else Inl (IdentityRejected ''The identity subject is invalid.'')
            | Some _ \<Rightarrow> Inl (IdentityRejected ''The identity subject is invalid.''))
      | _ \<Rightarrow> Inl (IdentityRejected ''Identity timestamps must be integer NumericDate claims.''))"

definition token_claims :: "'k jwt_library \<Rightarrow> IdentitySettings \<Rightarrow> string \<Rightarrow> authority_failure + string \<times> int" where
  "token_claims lib s token =
     (if token = [] \<or> length token > 16384 then Inl (IdentityRejected ''A bounded signed identity token is required.'')
      else case jw_header lib token of Inl e \<Rightarrow> Inl (jwt_error e)
      | Inr header \<Rightarrow>
        (case header_error s header of Some e \<Rightarrow> Inl e
         | None \<Rightarrow>
           (case jw_key lib token of Inl e \<Rightarrow> Inl (jwt_error e)
            | Inr k \<Rightarrow>
              (case jw_decode lib token k (is_algorithm s) (is_audience s) (is_issuer s) (is_leeway_seconds s) of
                 Inl e \<Rightarrow> Inl (jwt_error e)
               | Inr claims \<Rightarrow> checked_claims s claims))))"

text \<open>Verification and the grant of an execution; \<open>entitled\<close> is the \<open>resolve\<close> of either entitlement store.\<close>

definition verify_token :: "'k jwt_library \<Rightarrow> IdentitySettings \<Rightarrow> (string \<Rightarrow> authority_failure + AccessContext) \<Rightarrow> string
    \<Rightarrow> authority_failure + AccessContext" where
  "verify_token lib s entitled token =
     (case token_claims lib s token of Inl e \<Rightarrow> Inl e | Inr (subject, _) \<Rightarrow> entitled subject)"

text \<open>The seconds \<open>datetime.fromtimestamp\<close> accepts for UTC.\<close>

definition timestamp_ok :: "int \<Rightarrow> bool" where
  "timestamp_ok seconds \<longleftrightarrow> - 62135596800 \<le> seconds \<and> seconds \<le> 253402300799"

definition grant_execution :: "'k jwt_library \<Rightarrow> IdentitySettings \<Rightarrow> (string \<Rightarrow> authority_failure + AccessContext) \<Rightarrow> string
    \<Rightarrow> authority_failure + ExecutionGrant" where
  "grant_execution lib s entitled token =
     (case token_claims lib s token of Inl e \<Rightarrow> Inl e
      | Inr (subject, expiry) \<Rightarrow>
        (case entitled subject of Inl e \<Rightarrow> Inl e
         | Inr access \<Rightarrow> if \<not> timestamp_ok expiry then Inl TimestampRange
             else Inr \<lparr>eg_access = access, eg_expires_at = expiry * 1000000\<rparr>))"

subsection \<open>Definitions in the shared store\<close>

text \<open>The table \<open>t2d_definitions\<close> and the port's operations on it; a transaction wraps each.\<close>

definition pg_seed :: "'p codec \<Rightarrow> string \<Rightarrow> GovernanceState \<Rightarrow> 'p definition_streams \<Rightarrow> 'p definition_streams" where
  "pg_seed cx ns st db = (case db ns of None \<Rightarrow> db(ns \<mapsto> (gs_revision st, cx_dump cx st)) | Some _ \<Rightarrow> db)"

definition pg_read_definitions :: "'p codec \<Rightarrow> (TenantDomainPack \<Rightarrow> string) \<Rightarrow> string \<Rightarrow> 'p definition_streams \<Rightarrow> gov_error + GovernanceState" where
  "pg_read_definitions cx ph ns db =
     (case db ns of None \<Rightarrow> Inl (Unavailable ''Definition workspace is unavailable.'')
      | Some (revision, payload) \<Rightarrow>
        (case cx_load cx payload of None \<Rightarrow> Inl (Unavailable ''Definition snapshot integrity failed.'')
         | Some st \<Rightarrow> if gs_revision st \<noteq> revision \<or> gs_snapshots st = []
                        \<or> list_ex (\<lambda>s. sn_snapshot_id s \<noteq> ph (sn_pack s)) (gs_snapshots st)
                     then Inl (Unavailable ''Definition snapshot integrity failed.'') else Inr st))"

definition pg_save :: "'p codec \<Rightarrow> string \<Rightarrow> GovernanceState \<Rightarrow> int \<Rightarrow> 'p definition_streams \<Rightarrow> gov_error + 'p definition_streams" where
  "pg_save cx ns st base db =
     (let st = st\<lparr>gs_revision := base + 1\<rparr>;
          changed = (case db ns of None \<Rightarrow> False | Some (revision, _) \<Rightarrow> revision = base)
      in if \<not> changed then Inl (Conflict ''Definitions changed. Refresh before retrying.'')
         else Inr (db(ns \<mapsto> (gs_revision st, cx_dump cx st))))"

definition pg_delete_definitions :: "string \<Rightarrow> 'p definition_streams \<Rightarrow> 'p definition_streams" where
  "pg_delete_definitions ns db = db(ns := None)"

definition postgres_journal :: "'p codec \<Rightarrow> (TenantDomainPack \<Rightarrow> string) \<Rightarrow> 'p definition_streams journal" where
  "postgres_journal cx ph = \<lparr>j_seed = pg_seed cx, j_read = pg_read_definitions cx ph, j_save = pg_save cx, j_delete = pg_delete_definitions\<rparr>"

text \<open>On a database that answers, a call of the port is what its body does.\<close>

definition shared_definitions :: "bool \<Rightarrow> gov_error + 'a \<Rightarrow> authority_failure + 'a" where
  "shared_definitions up body = in_transaction up (case body of Inl e \<Rightarrow> Inl (DefinitionsFailed e) | Inr x \<Rightarrow> Inr x)"

subsection \<open>The authority of a job\<close>

text \<open>The environment of an authority check: what is entitled now, the definition journal and its state, the tenants'
  workspaces, whether the database answers and the source binding of the deployment.\<close>

record 'd authority_world =
  aw_entitled :: "string \<Rightarrow> authority_failure + AccessContext"
  aw_journal :: "'d journal"
  aw_definitions :: 'd
  aw_workspaces :: "string \<rightharpoonup> governance"
  aw_up :: bool
  aw_binding :: string

definition resolved_snapshot :: "'d authority_world \<Rightarrow> (nat \<Rightarrow> instant) \<Rightarrow> AccessContext \<Rightarrow> string \<Rightarrow> bool
    \<Rightarrow> authority_failure + DefinitionSnapshot" where
  "resolved_snapshot aw clk access sid require_current =
     (case aw_workspaces aw (ac_tenant_id access) of None \<Rightarrow> Inl WorkspaceMissing
      | Some gv \<Rightarrow> shared_definitions (aw_up aw) (resolve (aw_journal aw) gv clk access (Some sid) require_current (aw_definitions aw)))"

text \<open>\<open>authorize\<close> of \<open>internal/worker.py\<close>.\<close>

definition authorize_job :: "(string list \<Rightarrow> string) \<Rightarrow> (string list list \<Rightarrow> string) \<Rightarrow> 'd authority_world \<Rightarrow> instant \<Rightarrow> (nat \<Rightarrow> instant)
    \<Rightarrow> shared_db \<Rightarrow> ClaimedRun \<Rightarrow> authority_failure + unit" where
  "authorize_job od sd aw now clk db job =
     (let original = eg_access (cj_grant job)
      in case aw_entitled aw (ac_user_id original) of Inl e \<Rightarrow> Inl e
      | Inr present \<Rightarrow>
        if present \<noteq> original \<or> eg_expires_at (cj_grant job) \<le> now \<or> rs_source_binding (cj_run job) \<noteq> aw_binding aw
        then Inl (RunFailed (RunError ''Execution authorization expired or changed.'' 403))
        else (let (owner, scope) = principal od sd ''internal'' present
              in case transaction (aw_up aw) (pg_read db owner scope (job_id job)) of Inl e \<Rightarrow> Inl (RunFailed e)
              | Inr _ \<Rightarrow>
                (case resolved_snapshot aw clk present (rq_definition_snapshot_id (rs_request (cj_run job))) False of
                   Inl e \<Rightarrow> Inl e | Inr _ \<Rightarrow> Inr ())))"

subsection \<open>The context of an internal request\<close>

record internal_context =
  ic_access :: AccessContext
  ic_owner :: string
  ic_scope :: string

definition internal_context_of :: "(string list \<Rightarrow> string) \<Rightarrow> (string list list \<Rightarrow> string) \<Rightarrow> AccessContext
    \<Rightarrow> authority_failure + internal_context" where
  "internal_context_of od sd access =
     (if \<not> {ASK_ACTION, READ_DATA_ACTION} \<subseteq> ac_actions access
      then Inl (RunFailed (RunError ''Question and data access must both be authorized.'' 403))
      else (let (owner, scope) = principal od sd ''internal'' access
            in Inr \<lparr>ic_access = access, ic_owner = owner, ic_scope = scope\<rparr>))"

text \<open>\<open>authorize\<close> of the context: the token is verified again on every read.\<close>

definition authorize_run :: "'k jwt_library \<Rightarrow> IdentitySettings \<Rightarrow> 'd authority_world \<Rightarrow> (nat \<Rightarrow> instant) \<Rightarrow> string \<Rightarrow> internal_context
    \<Rightarrow> RunSnapshot \<Rightarrow> authority_failure + unit" where
  "authorize_run lib s aw clk token ctx run =
     (case verify_token lib s (aw_entitled aw) token of Inl e \<Rightarrow> Inl e
      | Inr present \<Rightarrow>
        if present \<noteq> ic_access ctx \<or> rs_source_binding run \<noteq> aw_binding aw
        then Inl (RunFailed (RunError ''Authorization or the approved source binding changed.'' 403))
        else (case resolved_snapshot aw clk (ic_access ctx) (rq_definition_snapshot_id (rs_request run)) False of
                Inl e \<Rightarrow> Inl e | Inr _ \<Rightarrow> Inr ()))"

text \<open>\<open>read\<close> of the run routes.\<close>

definition context_read :: "'k jwt_library \<Rightarrow> IdentitySettings \<Rightarrow> 'd authority_world \<Rightarrow> (nat \<Rightarrow> instant) \<Rightarrow> string \<Rightarrow> internal_context
    \<Rightarrow> shared_db \<Rightarrow> uuid \<Rightarrow> authority_failure + RunSnapshot" where
  "context_read lib s aw clk token ctx db rid =
     (case transaction (aw_up aw) (pg_read db (ic_owner ctx) (ic_scope ctx) rid) of Inl e \<Rightarrow> Inl (RunFailed e)
      | Inr run \<Rightarrow> (case authorize_run lib s aw clk token ctx run of Inl e \<Rightarrow> Inl e | Inr _ \<Rightarrow> Inr run))"

text \<open>\<open>submit\<close> on the shared store: a repeated request is given its run, a new one is admitted under the caller's
  grant.\<close>

definition internal_submit :: "(string list \<Rightarrow> string) \<Rightarrow> (string list list \<Rightarrow> string) \<Rightarrow> SharedStateSettings \<Rightarrow> (RunRequest \<Rightarrow> string)
    \<Rightarrow> 'd authority_world \<Rightarrow> (nat \<Rightarrow> instant) \<Rightarrow> uuid \<Rightarrow> instant \<times> instant \<Rightarrow> instant \<times> instant \<Rightarrow> instant \<Rightarrow> instant \<Rightarrow> internal_context
    \<Rightarrow> ExecutionGrant \<Rightarrow> RunRequest \<Rightarrow> shared_db \<Rightarrow> authority_failure + RunSnapshot \<times> shared_db" where
  "internal_submit od sd settings digest aw clk rid ts ts' created clock ctx grant request db =
     (case transaction (aw_up aw) (pg_existing digest db (ic_owner ctx) (ic_scope ctx) request) of Inl e \<Rightarrow> Inl (RunFailed e)
      | Inr (Some run) \<Rightarrow>
        if rs_source_binding run \<noteq> aw_binding aw then Inl (RunFailed (RunError ''The approved internal source changed.'' 409))
        else (case resolved_snapshot aw clk (ic_access ctx) (rq_definition_snapshot_id (rs_request run)) False of
                Inl e \<Rightarrow> Inl e | Inr _ \<Rightarrow> Inr (run, db))
      | Inr None \<Rightarrow>
        if rq_source_fingerprint request \<noteq> None
        then Inl (RunFailed (RunError ''Internal runs use only the server-owned BigQuery binding.'' 422))
        else (case resolved_snapshot aw clk (ic_access ctx) (rq_definition_snapshot_id request) True of Inl e \<Rightarrow> Inl e
          | Inr _ \<Rightarrow>
            (case transaction (aw_up aw) (pg_enqueue od sd settings digest rid ts ts' created clock (ic_owner ctx) (ic_scope ctx)
                    request (aw_binding aw) grant db) of
               Inl e \<Rightarrow> Inl (RunFailed e) | Inr r \<Rightarrow> Inr r)))"


subsection \<open>The shared definitions are the local ones\<close>

lemma pg_definitions_agree:
  "pg_seed cx = store_seed cx" "pg_read_definitions cx ph = store_read cx ph" "pg_save cx = store_save cx"
  "pg_delete_definitions = store_delete"
  by (auto simp: fun_eq_iff pg_seed_def store_seed_def pg_read_definitions_def store_read_def integrity_ok_def list_ex_iff
      pg_save_def store_save_def pg_delete_definitions_def store_delete_def Let_def split: option.splits)

interpretation pj: definition_journal "postgres_journal cx ph" "\<lambda>ns db. db ns \<noteq> None" "storable_in cx ph"
proof -
  have same: "postgres_journal cx ph = sqlite_journal cx ph" for cx :: "'p codec" and ph
    by (simp add: postgres_journal_def sqlite_journal_def pg_definitions_agree)
  show "definition_journal (postgres_journal cx ph) (\<lambda>ns db. db ns \<noteq> None) (storable_in cx ph)"
    unfolding same by (rule sq.definition_journal_axioms)
qed

subsection \<open>Histories of publications\<close>

text \<open>Anyone may publish at any time, with any revision in mind, against a database that may not answer.\<close>

inductive grants_reach :: "'p grant_codec \<Rightarrow> (EntitlementFile \<Rightarrow> string) \<Rightarrow> 'p grant_tables \<Rightarrow> bool" for gx gd where
  empty: "grants_reach gx gd no_grants"
| publish: "grants_reach gx gd db \<Longrightarrow> publish_grants up gx gd issuer grants base db = Inr (revision, db') \<Longrightarrow> grants_reach gx gd db'"

definition revisions_of :: "string \<Rightarrow> 'p grant_tables \<Rightarrow> int list" where
  "revisions_of issuer db = map (\<lambda>(i, r, d). r) (filter (\<lambda>(i, r, d). i = issuer) (gt_audit db))"

lemma publish_body_Inr:
  "publish_body gx gd issuer grants base db = Inr (revision, db') \<longleftrightarrow>
     grant_revision issuer db = base \<and> revision = base + 1 \<and> base + 1 \<notin> set (revisions_of issuer db)
     \<and> db' = \<lparr>gt_grants = (gt_grants db)(issuer \<mapsto> (base + 1, gx_dump gx grants)), gt_audit = gt_audit db @ [(issuer, base + 1, gd grants)]\<rparr>"
  by (auto simp: publish_body_def revisions_of_def Let_def image_iff)

lemma in_transaction_Inr: "in_transaction up body = Inr x \<longleftrightarrow> up \<and> body = Inr x"
  by (auto simp: in_transaction_def split: sum.splits authority_failure.splits run_failure.splits)

lemma publish_grants_Inr:
  "publish_grants up gx gd issuer grants base db = Inr r \<longleftrightarrow>
     ef_issuer grants = issuer \<and> up \<and> publish_body gx gd issuer grants base db = Inr r"
  by (simp add: publish_grants_def in_transaction_Inr)

text \<open>The revisions of an issuer are counted without gaps, one audit entry each.\<close>

definition grants_ok :: "'p grant_tables \<Rightarrow> bool" where
  "grants_ok db \<longleftrightarrow> (\<forall>issuer. revisions_of issuer db = [1..grant_revision issuer db] \<and> 0 \<le> grant_revision issuer db)"

lemma publish_ok:
  assumes "grants_ok db" "publish_body gx gd issuer grants base db = Inr (revision, db')"
  shows "grants_ok db'"
proof -
  from assms(2) have p: "grant_revision issuer db = base" "db' = \<lparr>gt_grants = (gt_grants db)(issuer \<mapsto> (base + 1, gx_dump gx grants)),
      gt_audit = gt_audit db @ [(issuer, base + 1, gd grants)]\<rparr>" by (simp_all add: publish_body_Inr)
  have "revisions_of i db' = [1..grant_revision i db'] \<and> 0 \<le> grant_revision i db'" for i
  proof (cases "i = issuer")
    case True
    from assms(1) p(1) have "revisions_of issuer db = [1..base]" "0 \<le> base" by (auto simp: grants_ok_def)
    moreover from this have "[1..base + 1] = [1..base] @ [base + 1]" by (simp add: upto_rec2)
    ultimately show ?thesis using True by (simp add: p(2) revisions_of_def grant_revision_def)
  next
    case False
    then have "revisions_of i db' = revisions_of i db" "grant_revision i db' = grant_revision i db"
      by (simp_all add: p(2) revisions_of_def grant_revision_def)
    with assms(1) show ?thesis by (simp add: grants_ok_def)
  qed
  then show ?thesis by (simp add: grants_ok_def)
qed

lemma grants_reach_ok: "grants_reach gx gd db \<Longrightarrow> grants_ok db"
proof (induction rule: grants_reach.induct)
  case empty
  show ?case by (simp add: grants_ok_def no_grants_def revisions_of_def grant_revision_def)
next
  case (publish db up issuer grants base revision db')
  with publish_ok show ?case by (auto simp: publish_grants_Inr)
qed

text \<open>Named hypothesis on pydantic: the text of a valid grant file loads back to it.\<close>

definition grants_faithful :: "'p grant_codec \<Rightarrow> bool" where
  "grants_faithful gx \<longleftrightarrow> (\<forall>f. make_entitlements f = Inr f \<longrightarrow> gx_load gx (gx_dump gx f) = Some f)"

lemma access_of_Inr: "access_of subject grants = Inr a \<Longrightarrow> a \<in> set (ef_bindings grants) \<and> ac_user_id a = subject"
  by (auto simp: access_of_def find_Some_iff split: option.splits)

lemma published_resolve:
  assumes "grants_faithful gx" "make_entitlements grants = Inr grants"
    and "publish_grants up gx gd issuer grants base db = Inr (revision, db')"
  shows "pg_resolve up' gx issuer db' subject = (if up' then access_of subject grants else Inl (RunFailed shared_unavailable))"
    "other \<noteq> issuer \<Longrightarrow> pg_resolve up' gx other db' subject = pg_resolve up' gx other db subject"
  using assms by (simp_all add: publish_grants_Inr publish_body_Inr pg_resolve_def in_transaction_def grants_faithful_def)

subsection \<open>What an authority check passes\<close>

lemma shared_definitions_Inr: "shared_definitions up body = Inr x \<longleftrightarrow> up \<and> body = Inr x"
  by (auto simp: shared_definitions_def in_transaction_Inr split: sum.splits)

lemma resolved_snapshot_Inr:
  "resolved_snapshot aw clk access sid b = Inr s \<longleftrightarrow> (\<exists>gv. aw_workspaces aw (ac_tenant_id access) = Some gv \<and> aw_up aw
     \<and> resolve (aw_journal aw) gv clk access (Some sid) b (aw_definitions aw) = Inr s)"
  by (auto simp: resolved_snapshot_def shared_definitions_Inr split: option.splits)

lemma authorize_job_Inr:
  assumes "authorize_job od sd aw now clk db job = Inr u"
  shows "aw_entitled aw (ac_user_id (eg_access (cj_grant job))) = Inr (eg_access (cj_grant job))" "now < eg_expires_at (cj_grant job)"
    "rs_source_binding (cj_run job) = aw_binding aw" "aw_up aw"
    "\<exists>run. pg_read db (fst (principal od sd ''internal'' (eg_access (cj_grant job)))) (snd (principal od sd ''internal'' (eg_access (cj_grant job))))
       (job_id job) = Inr run"
    "\<exists>s. resolved_snapshot aw clk (eg_access (cj_grant job)) (rq_definition_snapshot_id (rs_request (cj_run job))) False = Inr s"
  using assms by (auto simp: authorize_job_def Let_def not_le split: sum.splits if_splits prod.splits)

lemma resolve_Inr:
  assumes "resolve J gv clk access (Some sid) b db = Inr s"
  shows "\<exists>st. j_read J (gv_namespace gv) db = Inr st \<and> s \<in> set (gs_snapshots st) \<and> sn_snapshot_id s = sid \<and> sid \<notin> gs_revoked st
    \<and> ac_tenant_id access = gv_tenant_id gv \<and> READ_DATA_ACTION \<in> ac_actions access"
proof -
  from assms obtain st where st: "j_read J (gv_namespace gv) db = Inr st" "resolve_in clk (Some sid) b st = Inr s"
    "authorize gv access READ_DATA_ACTION = None" by (auto simp: resolve_def split: sum.splits option.splits)
  from st(2) have "find_snapshot sid st = Some s" "sid \<notin> gs_revoked st"
    by (auto simp: resolve_in_def find_snapshot_def find_Some_iff split: sum.splits option.splits if_splits)
  then show ?thesis using st(1,3) by (auto simp: find_snapshot_def find_Some_iff authorize_def split: if_splits)
qed

subsection \<open>Tokens\<close>

lemma checked_claims_Inr:
  assumes "checked_claims s claims = Inr (subject, expiry)"
  shows "\<exists>iat. map_of claims ''iat'' = Some (ClaimInt iat) \<and> map_of claims ''exp'' = Some (ClaimInt expiry)
    \<and> map_of claims ''sub'' = Some (ClaimText subject) \<and> 0 < expiry - iat \<and> expiry - iat \<le> is_maximum_token_lifetime_seconds s
    \<and> 0 < length subject \<and> length subject \<le> 256"
  using assms unfolding checked_claims_def by (auto split: option.splits claim_value.splits if_splits)

lemma header_error_None:
  "header_error s header = None \<longleftrightarrow> map_of header ''alg'' = Some (ClaimText (is_algorithm s))
     \<and> (\<exists>kid. map_of header ''kid'' = Some (ClaimText kid) \<and> kid \<noteq> [] \<and> length kid \<le> 256)
     \<and> fst ` set header \<inter> {''jku'', ''jwk'', ''x5u'', ''crit''} = {}"
  unfolding header_error_def by (auto split: option.splits claim_value.splits if_splits)

lemma token_claims_Inr:
  assumes "token_claims lib s token = Inr (subject, expiry)"
  obtains header k claims where "jw_header lib token = Inr header" "header_error s header = None" "jw_key lib token = Inr k"
    "jw_decode lib token k (is_algorithm s) (is_audience s) (is_issuer s) (is_leeway_seconds s) = Inr claims"
    "checked_claims s claims = Inr (subject, expiry)" "token \<noteq> []" "length token \<le> 16384"
  using assms unfolding token_claims_def by (auto split: if_splits sum.splits option.splits)


subsection \<open>Properties\<close>

text \<open>C21: An execution is granted only for a token that is bounded, names the configured algorithm and its key by a text
  identifier of 1 to 256 characters and by nothing else (no \<open>jku\<close>, \<open>jwk\<close>, \<open>x5u\<close> or \<open>crit\<close>), decodes for the configured audience and issuer, lives no longer than the settings allow and
  names a bounded subject; the authority granted is what the server holds for that subject, whatever else the
  token says, and it ends when the token does.\<close>

theorem granted_authority_is_server_owned:
  assumes "grant_execution lib s entitled token = Inr g"
  shows "\<exists>header k claims subject iat expiry. jw_header lib token = Inr header \<and> jw_key lib token = Inr k
    \<and> jw_decode lib token k (is_algorithm s) (is_audience s) (is_issuer s) (is_leeway_seconds s) = Inr claims
    \<and> token \<noteq> [] \<and> length token \<le> 16384
    \<and> (\<exists>kid. map_of header ''kid'' = Some (ClaimText kid) \<and> kid \<noteq> [] \<and> length kid \<le> 256)
    \<and> map_of header ''alg'' = Some (ClaimText (is_algorithm s)) \<and> fst ` set header \<inter> {''jku'', ''jwk'', ''x5u'', ''crit''} = {}
    \<and> map_of claims ''iat'' = Some (ClaimInt iat) \<and> map_of claims ''exp'' = Some (ClaimInt expiry)
    \<and> map_of claims ''sub'' = Some (ClaimText subject) \<and> 0 < length subject \<and> length subject \<le> 256
    \<and> iat < expiry \<and> expiry \<le> iat + is_maximum_token_lifetime_seconds s
    \<and> entitled subject = Inr (eg_access g) \<and> eg_expires_at g = expiry * 1000000"
proof -
  from assms obtain subject expiry where c: "token_claims lib s token = Inr (subject, expiry)"
    and e: "entitled subject = Inr (eg_access g)" "eg_expires_at g = expiry * 1000000"
    by (auto simp: grant_execution_def split: sum.splits if_splits)
  show ?thesis
  proof (rule token_claims_Inr [OF c])
    fix header k claims
    assume "jw_header lib token = Inr header" "header_error s header = None" "jw_key lib token = Inr k"
      "jw_decode lib token k (is_algorithm s) (is_audience s) (is_issuer s) (is_leeway_seconds s) = Inr claims"
      "checked_claims s claims = Inr (subject, expiry)" "token \<noteq> []" "length token \<le> 16384"
    with checked_claims_Inr [OF this(5)] e show ?thesis by (auto simp: header_error_None)
  qed
qed

text \<open>C22: Publishing needs the revision the issuer is at and then always succeeds on a database that answers; from then
  on the issuer's subjects have exactly the bindings of the published file, other issuers are as before, and
  every revision since the first has one audit entry.\<close>

theorem published_grants_take_effect:
  assumes "grants_faithful gx" "grants_reach gx gd db" "make_entitlements grants = Inr grants" "ef_issuer grants = issuer"
  shows "if base = grant_revision issuer db
    then \<exists>db'. publish_grants True gx gd issuer grants base db = Inr (base + 1, db') \<and> revisions_of issuer db' = [1..base + 1]
      \<and> (\<forall>subject. pg_resolve True gx issuer db' subject = access_of subject grants)
      \<and> (\<forall>i subject. i = issuer \<or> pg_resolve True gx i db' subject = pg_resolve True gx i db subject)
    else publish_grants True gx gd issuer grants base db = Inl (GrantsChanged ''Authorization changed. Refresh before publishing.'')"
proof (cases "base = grant_revision issuer db")
  case True
  note ok = grants_reach_ok [OF assms(2)]
  then have "base + 1 \<notin> set (revisions_of issuer db)" using True by (auto simp: grants_ok_def)
  then obtain db' where b: "publish_body gx gd issuer grants base db = Inr (base + 1, db')" using True by (simp add: publish_body_Inr)
  then have p: "publish_grants True gx gd issuer grants base db = Inr (base + 1, db')" using assms(4) by (simp add: publish_grants_Inr)
  from publish_ok [OF ok b] b have "revisions_of issuer db' = [1..base + 1]"
    by (simp add: grants_ok_def publish_body_Inr grant_revision_def)
  with p True published_resolve [OF assms(1,3) p] show ?thesis by auto
next
  case False
  with assms(4) show ?thesis by (simp add: publish_grants_def publish_body_def in_transaction_def)
qed

lemma revoked_is_unauthorized:
  assumes "grants_faithful gx" "make_entitlements grants = Inr grants" "publish_grants up gx gd issuer grants base db0 = Inr (revision, db1)"
    and "eg_access (cj_grant job) \<notin> set (ef_bindings grants)" "aw_entitled aw = pg_resolve up' gx issuer db1"
  shows "authorize_job od sd aw now clk db job \<noteq> Inr u"
proof
  assume "authorize_job od sd aw now clk db job = Inr u"
  from authorize_job_Inr(1) [OF this] assms(5) published_resolve(1) [OF assms(1-3), of up' "ac_user_id (eg_access (cj_grant job))"]
  have "access_of (ac_user_id (eg_access (cj_grant job))) grants = Inr (eg_access (cj_grant job))" by (simp split: if_splits)
  with access_of_Inr assms(4) show False by blast
qed

text \<open>C20: Once a published file no longer has a job's access, unchanged, among its bindings, no worker of the fleet hands
  an answer for that job to the store any more, whatever the job's token, lease or grant still allow.\<close>

theorem revocation_stops_releases:
  assumes "grants_faithful gx" "make_entitlements grants = Inr grants" "publish_grants up gx gd issuer grants base db0 = Inr (revision, db1)"
    and "eg_access (cj_grant job) \<notin> set (ef_bindings grants)" "aw_entitled aw = pg_resolve up' gx issuer db1"
    and "fleet_reach digest od sd settings f" "fleet_step digest od sd settings f f'"
    and "fl_authority f = (\<lambda>job. is_ok (authorize_job od sd aw now clk (cl_db (fl_cluster f)) job))"
    and "i < length (fl_workers f)" "h \<in> set (wk_writes (fl_workers f' ! i))" "hw_job h = job" "hw_result h = Some r"
  shows "h \<in> set (wk_writes (fl_workers f ! i))"
proof -
  note ok = fleet_reach_ok [OF assms(6)]
  have no: "\<not> fl_authority f job"
    using revoked_is_unauthorized [OF assms(1-5)] by (auto simp: assms(8) is_ok_iff)
  from assms(7) show ?thesis
  proof cases
    case (work k w' c')
    show ?thesis
    proof (cases "k = i")
      case True
      with work assms(9,10) have "h \<in> set (wk_writes w')" by simp
      from worker_step_writes [OF fleet_okD(2) [OF ok work(2)] shared_reach_ok [OF fleet_okD(1) [OF ok]] work(3) this assms(12)]
      show ?thesis
      proof
        assume "releases (fl_authority f) (job_id (hw_job h)) r (fl_workers f ! k) w'"
        then obtain j where j: "map_of (wk_jobs (fl_workers f ! k)) (job_id job) = Some j" "fl_authority f j"
          by (auto simp: releases_def assms(11))
        from worker_okD(1) [OF fleet_okD(2) [OF ok work(2)] j(1)]
        have "j \<in> set (cl_claims (fl_cluster f))" "job_id j = job_id job" by simp_all
        moreover have "job \<in> set (cl_claims (fl_cluster f'))"
        proof -
          from worker_step_store [OF work(3) fleet_okD(2) [OF ok work(2)]] have "worker_ok (cl_claims c') w'" by blast
          from worker_okD(4) [OF this \<open>h \<in> set (wk_writes w')\<close>] show ?thesis using work(1) by (simp add: write_ok_def assms(11))
        qed
        moreover have "set (cl_claims (fl_cluster f)) \<subseteq> set (cl_claims (fl_cluster f'))"
          by (rule shared_steps_grow [OF fleet_step_store [OF assms(7) ok]])
        moreover have "distinct (map job_id (cl_claims (fl_cluster f')))"
          using shared_reach_ok [OF fleet_okD(1) [OF fleet_step_ok [OF assms(7) ok]]] by (simp add: shared_ok_def)
        ultimately have "j = job" by (auto simp: distinct_map inj_on_def)
        with j(2) no show ?thesis by simp
      qed (use True in simp)
    next
      case False
      with work assms(10) show ?thesis by simp
    qed
  qed (use assms(9,10) in \<open>simp_all add: nth_append\<close>)
qed

text \<open>A worker works for exactly the authority that stands now: the same bindings, an unexpired grant, the same source
  binding, a run the caller still owns, and a published, unrevoked snapshot of the caller's own tenant.\<close>

theorem authorized_jobs_are_current:
  assumes "authorize_job od sd aw now clk db job = Inr u"
  shows "aw_entitled aw (ac_user_id (eg_access (cj_grant job))) = Inr (eg_access (cj_grant job)) \<and> now < eg_expires_at (cj_grant job)
    \<and> rs_source_binding (cj_run job) = aw_binding aw
    \<and> (\<exists>gv st s. aw_workspaces aw (ac_tenant_id (eg_access (cj_grant job))) = Some gv
         \<and> ac_tenant_id (eg_access (cj_grant job)) = gv_tenant_id gv \<and> READ_DATA_ACTION \<in> ac_actions (eg_access (cj_grant job))
         \<and> j_read (aw_journal aw) (gv_namespace gv) (aw_definitions aw) = Inr st \<and> s \<in> set (gs_snapshots st)
         \<and> sn_snapshot_id s = rq_definition_snapshot_id (rs_request (cj_run job)) \<and> sn_snapshot_id s \<notin> gs_revoked st)"
proof -
  from authorize_job_Inr(6) [OF assms] obtain gv s where
    g: "aw_workspaces aw (ac_tenant_id (eg_access (cj_grant job))) = Some gv"
    and r: "resolve (aw_journal aw) gv clk (eg_access (cj_grant job)) (Some (rq_definition_snapshot_id (rs_request (cj_run job)))) False
        (aw_definitions aw) = Inr s"
    by (auto simp: resolved_snapshot_Inr)
  from resolve_Inr [OF r] g authorize_job_Inr(1-3) [OF assms] show ?thesis by metis
qed

text \<open>However many services load, compute and save concurrently on the shared database, the stored workspace is always
  one that operations applied one after another could have produced.\<close>

theorem shared_stewards_serialize:
  assumes "codec_faithful cx ph" "gov_world (postgres_journal cx ph) ph gv db flights"
  shows "\<exists>cur. pg_read_definitions cx ph (gv_namespace gv) db = Inr cur \<and> gov_reach ph gv cur
    \<and> (\<forall>st st'. (st, st') \<in> flights \<longrightarrow> gs_revision st < gs_revision cur \<or> st = cur)"
proof -
  from pj.world_serial [OF assms(2) faithful_storable [OF assms(1)]] obtain cur where
    cur: "pg_read_definitions cx ph (gv_namespace gv) db = Inr cur" "gov_reach ph gv cur"
    and fl: "\<forall>(st, st')\<in>flights. gov_step ph gv st st' \<and> gs_revision st \<le> gs_revision cur
         \<and> (gs_revision st = gs_revision cur \<longrightarrow> st = cur)" by (auto simp: postgres_journal_def)
  moreover have "gs_revision st < gs_revision cur \<or> st = cur" if "(st, st') \<in> flights" for st st' using fl that by force
  ultimately show ?thesis by blast
qed


subsection \<open>An identity, its grant and its revocation\<close>

definition demo_identity :: IdentitySettings where
  "demo_identity = \<lparr>is_issuer = ''https://issuer'', is_audience = ''talk2data'', is_jwks_url = ''https://issuer/keys'',
     is_algorithm = ''RS256'', is_token_header = AUTHORIZATION_HEADER, is_maximum_token_lifetime_seconds = 3600,
     is_leeway_seconds = 30, is_key_cache_seconds = 60\<rparr>"

definition demo_lib :: "unit jwt_library" where
  "demo_lib = \<lparr>jw_header = \<lambda>t. Inr [(''alg'', ClaimText ''RS256''), (''kid'', ClaimText ''k1'')], jw_key = \<lambda>t. Inr (),
     jw_decode = \<lambda>t k a aud iss leeway. Inr [(''sub'', ClaimText ''ana''), (''iat'', ClaimInt 1000), (''exp'', ClaimInt 1600),
        (''roles'', ClaimText ''TALK2DATA_ADMIN'')]\<rparr>"

definition demo_file :: EntitlementFile where
  "demo_file = \<lparr>ef_version = ''1'', ef_issuer = ''https://issuer'', ef_bindings = [analyst]\<rparr>"

definition emptied_file :: EntitlementFile where
  "emptied_file = demo_file\<lparr>ef_bindings := [visitor]\<rparr>"

definition plain_grants :: "EntitlementFile grant_codec" where
  "plain_grants = \<lparr>gx_dump = \<lambda>f. f, gx_load = Some\<rparr>"

lemma plain_grants_faithful: "grants_faithful plain_grants"
  by (simp add: grants_faithful_def plain_grants_def)

lemma demo_files: "make_entitlements demo_file = Inr demo_file" "make_entitlements emptied_file = Inr emptied_file"
  by (simp_all add: make_entitlements_def demo_file_def emptied_file_def)

definition published1 :: "authority_failure + int \<times> EntitlementFile grant_tables" where
  "published1 = publish_grants True plain_grants ef_version ''https://issuer'' emptied_file 0 no_grants"

lemma published1_Inr: "published1 = Inr (1, snd (projr published1))"
  by (simp add: published1_def publish_grants_def publish_body_def no_grants_def grant_revision_def in_transaction_def
      emptied_file_def demo_file_def Let_def)

theorem granted_authority_is_server_owned_witness:
  "\<exists>g. grant_execution demo_lib demo_identity (\<lambda>u. access_of u demo_file) ''token'' = Inr g \<and> eg_access g = analyst
    \<and> ac_roles (eg_access g) = {''ANALYST''} \<and> eg_expires_at g = 1600000000"
proof -
  have "grant_execution demo_lib demo_identity (\<lambda>u. access_of u demo_file) ''token''
      = Inr \<lparr>eg_access = analyst, eg_expires_at = 1600000000\<rparr>"
    by (simp add: grant_execution_def token_claims_def demo_lib_def demo_identity_def header_error_def checked_claims_def
        access_of_def demo_file_def analyst_def timestamp_ok_def)
  note this granted_authority_is_server_owned [OF this]
  then show ?thesis by (auto simp: analyst_def access_of_def demo_file_def)
qed

theorem published_grants_take_effect_witness:
  "\<exists>db'. publish_grants True plain_grants ef_version ''https://issuer'' emptied_file 0 no_grants = Inr (1, db')
    \<and> pg_resolve True plain_grants ''https://issuer'' db' ''vic'' = Inr visitor"
proof -
  have r: "grants_reach plain_grants ef_version no_grants" by (rule grants_reach.empty)
  have i: "ef_issuer emptied_file = ''https://issuer''" by (simp add: emptied_file_def demo_file_def)
  have "grant_revision ''https://issuer'' (no_grants :: EntitlementFile grant_tables) = 0"
    by (simp add: grant_revision_def no_grants_def)
  with published_grants_take_effect [OF plain_grants_faithful r demo_files(2) i, of 0] show ?thesis
    by (auto simp: access_of_def emptied_file_def demo_file_def visitor_def analyst_def)
qed

definition demo_workspace_state :: GovernanceState where
  "demo_workspace_state = demo_seed\<lparr>gs_snapshots := map (\<lambda>s. s\<lparr>sn_snapshot_id := rq_definition_snapshot_id demo_run_request\<rparr>)
     (gs_snapshots demo_seed)\<rparr>"

definition demo_world :: "(string \<Rightarrow> authority_failure + AccessContext) \<Rightarrow> GovernanceState definition_streams authority_world" where
  "demo_world entitled = \<lparr>aw_entitled = entitled, aw_journal = postgres_journal identity_codec (\<lambda>p. rq_definition_snapshot_id demo_run_request),
     aw_definitions = [''demo'' \<mapsto> (1, demo_workspace_state)], aw_workspaces = [''demo-telecom'' \<mapsto> demo_governance],
     aw_up = True, aw_binding = ''b''\<rparr>"

definition demo_authorized :: "authority_failure + unit" where
  "demo_authorized = authorize_job first_text (first_text \<circ> concat) (demo_world (\<lambda>u. access_of u demo_file)) 4 (\<lambda>k. 50)
     (cl_db cluster3) demo_job"

lemma demo_authorized_ok: "is_ok demo_authorized"
  by code_simp

theorem authorized_jobs_are_current_witness:
  "access_of ''ana'' demo_file = Inr analyst \<and> 4 < eg_expires_at (cj_grant demo_job)"
proof -
  from demo_authorized_ok obtain u where "demo_authorized = Inr u" by (auto simp: is_ok_iff)
  from authorized_jobs_are_current [OF this [unfolded demo_authorized_def]]
  show ?thesis by (simp add: access_of_def demo_file_def analyst_def)
qed

definition revoked_authority :: "ClaimedRun \<Rightarrow> bool" where
  "revoked_authority = (\<lambda>job. is_ok (authorize_job first_text (first_text \<circ> concat)
     (demo_world (pg_resolve True plain_grants ''https://issuer'' (snd (projr published1)))) 4 (\<lambda>k. 50) (cl_db cluster5) job))"

definition revoked_fleet :: fleet where
  "revoked_fleet = \<lparr>fl_cluster = cluster5, fl_workers = [worker5], fl_up = True, fl_authority = revoked_authority\<rparr>"

lemma revoked_fleet_steps:
  "demo_reach revoked_fleet" "demo_step revoked_fleet (revoked_fleet\<lparr>fl_workers := [poll_result True worker5]\<rparr>)"
proof -
  have "cl_now (fl_cluster (demo_fleet cluster5 [worker5])) \<le> cl_now cluster5" by simp
  from fleet_step.world [OF this, where up = True and authority = revoked_authority and digest = rq_question and od = first_text
      and sd = "first_text \<circ> concat" and settings = demo_settings]
  have "demo_step (demo_fleet cluster5 [worker5]) revoked_fleet" by (simp add: demo_fleet_def revoked_fleet_def)
  from fleet_reach.step [OF demo_released(1) this] show "demo_reach revoked_fleet" .
  have "worker_step demo_settings (fl_up revoked_fleet) (fl_authority revoked_fleet) (fl_workers revoked_fleet ! 0, fl_cluster revoked_fleet)
      (poll_result True worker5, cluster5)"
    by (simp add: revoked_fleet_def worker_step.poll)
  from fleet_step.work [OF _ this, of rq_question first_text "first_text \<circ> concat"]
  show "demo_step revoked_fleet (revoked_fleet\<lparr>fl_workers := [poll_result True worker5]\<rparr>)" by (simp add: revoked_fleet_def)
qed

lemma demo_job_access: "eg_access (cj_grant demo_job) = analyst" "map (\<lambda>h. (hw_job h = demo_job, hw_result h = Some released)) (wk_writes worker5) = [(True, True)]"
  by code_simp+

theorem revocation_stops_releases_witness: "hd (wk_writes worker5) \<in> set (wk_writes (fl_workers revoked_fleet ! 0))"
proof -
  from demo_job_access(2) obtain h where h: "wk_writes worker5 = [h]" "hw_job h = demo_job" "hw_result h = Some released"
    by (auto simp: map_eq_Cons_conv)
  have gone: "eg_access (cj_grant demo_job) \<notin> set (ef_bindings emptied_file)"
    by (simp add: demo_job_access(1) emptied_file_def visitor_def analyst_def)
  have ent: "aw_entitled (demo_world e) = e" for e by (simp add: demo_world_def)
  have fl: "fl_authority revoked_fleet = (\<lambda>job. is_ok (authorize_job first_text (first_text \<circ> concat)
     (demo_world (pg_resolve True plain_grants ''https://issuer'' (snd (projr published1)))) 4 (\<lambda>k. 50) (cl_db (fl_cluster revoked_fleet)) job))"
    by (simp add: revoked_fleet_def revoked_authority_def)
  have mem: "h \<in> set (wk_writes (fl_workers (revoked_fleet\<lparr>fl_workers := [poll_result True worker5]\<rparr>) ! 0))"
    by (simp add: poll_result_def h(1))
  from revocation_stops_releases [OF plain_grants_faithful demo_files(2) published1_Inr [unfolded published1_def] gone
      ent [unfolded published1_def] revoked_fleet_steps fl [unfolded published1_def] _ mem h(2,3)]
  show ?thesis by (simp add: h(1) revoked_fleet_def)
qed

theorem shared_stewards_serialize_witness:
  "\<exists>cur. pg_read_definitions identity_codec version_digest ''demo'' [''demo'' \<mapsto> (1, demo_seed)] = Inr cur
    \<and> gov_reach version_digest demo_governance cur"
proof -
  have "j_read (postgres_journal identity_codec version_digest) (gv_namespace demo_governance) [''demo'' \<mapsto> (1, demo_seed)] = Inr demo_seed"
    using history_integrity [OF reach_history [OF demo_seed_reach]]
    by (simp add: demo_governance_def postgres_journal_def pg_definitions_agree store_read_def identity_codec_def demo_seed_def seed_state_def)
  from shared_stewards_serialize [OF identity_codec_faithful gov_world.start [OF this demo_seed_reach]]
  show ?thesis by (auto simp: demo_governance_def)
qed

end
