(* ===== verification/PhysicalMapping.thy ===== *)
theory PhysicalMapping
  imports Semantic Regex "HOL-Library.AList"
begin

section \<open>PhysicalMapping: approved physical objects behind the governed metrics\<close>

text \<open>
  \<open>domain/physical_mapping.py\<close>: the mapping of metrics and dimensions to columns of a table, its
  validation, the expansion of an access scope to physical values, and the registry of approved packs.
  A \<open>dict\<close> is an association list with distinct keys, in insertion order (\<open>AList.update\<close> is the
  assignment to a key).  Where pydantic collects every error of a model, the model returns the first.
  Reading and parsing YAML is outside the model, as in \<open>Semantic\<close>.
\<close>

datatype mapping_error =
    FieldInvalid string
  | MappingInvalid string
  | MappingRefused string
  | MappingNotFound string

subsection \<open>Identifiers\<close>

text \<open>\<open>^[A-Za-z_][A-Za-z0-9_]*$\<close> and \<open>^env://[A-Z_][A-Z0-9_]*$\<close> under \<open>fullmatch\<close>.\<close>

fun is_identifier :: "string \<Rightarrow> bool" where
  "is_identifier [] = False"
| "is_identifier (c # cs) = ((is_lower c \<or> is_upper c \<or> c = CHR ''_'') \<and> list_all is_word_char cs)"

fun is_env_name :: "string \<Rightarrow> bool" where
  "is_env_name [] = False"
| "is_env_name (c # cs) = ((is_upper c \<or> c = CHR ''_'')
     \<and> list_all (\<lambda>d. is_upper d \<or> is_digit d \<or> d = CHR ''_'') cs)"

definition is_secret_reference :: "string \<Rightarrow> bool" where
  "is_secret_reference s = (starts_with ''env://'' s \<and> is_env_name (drop 6 s))"

definition require_identifier :: "string \<Rightarrow> string \<Rightarrow> mapping_error + string" where
  "require_identifier value field_name =
     (let normalized = py_strip value
      in if is_identifier normalized then Inr normalized
         else Inl (MappingInvalid (field_name @ '' must be a simple SQL identifier'')))"

subsection \<open>Metric mappings\<close>

record PhysicalMetricMapping =
  pm_metric_id :: string
  pm_source_value :: string
  pm_aggregation :: MetricAggregation
  pm_amount_column :: "string option"
  pm_numerator_column :: "string option"
  pm_denominator_column :: "string option"
  pm_allowed_dimensions :: "string set"

definition validate_optional_identifier :: "string option \<Rightarrow> mapping_error + string option" where
  "validate_optional_identifier value =
     (case value of None \<Rightarrow> Inr None
      | Some v \<Rightarrow> (case require_identifier v ''physical metric column'' of Inl e \<Rightarrow> Inl e | Inr c \<Rightarrow> Inr (Some c)))"

definition text_within :: "nat \<Rightarrow> string \<Rightarrow> bool" where
  "text_within n s = (1 \<le> length s \<and> length s \<le> n)"

definition validate_aggregation_columns :: "PhysicalMetricMapping \<Rightarrow> mapping_error option" where
  "validate_aggregation_columns m =
     (if pm_aggregation m = RATIO then
        (if pm_numerator_column m = None \<or> pm_denominator_column m = None
         then Some (MappingInvalid ''ratio mappings require numerator_column and denominator_column'') else None)
      else if pm_aggregation m = AGG_SUM then
        (if pm_amount_column m = None then Some (MappingInvalid ''SUM mappings require amount_column'') else None)
      else Some (MappingInvalid ''the PostgreSQL physical mapping currently supports only SUM and RATIO''))"

definition make_metric_mapping :: "PhysicalMetricMapping \<Rightarrow> mapping_error + PhysicalMetricMapping" where
  "make_metric_mapping m =
     (if \<not> text_within 128 (pm_metric_id m) then Inl (FieldInvalid ''metric_id'')
      else if \<not> text_within 256 (pm_source_value m) then Inl (FieldInvalid ''source_value'')
      else (case validate_optional_identifier (pm_amount_column m) of Inl e \<Rightarrow> Inl e
      | Inr a \<Rightarrow> (case validate_optional_identifier (pm_numerator_column m) of Inl e \<Rightarrow> Inl e
      | Inr n \<Rightarrow> (case validate_optional_identifier (pm_denominator_column m) of Inl e \<Rightarrow> Inl e
      | Inr d \<Rightarrow>
          (let m' = m\<lparr>pm_amount_column := a, pm_numerator_column := n, pm_denominator_column := d,
                      pm_allowed_dimensions := normalize_set_values (pm_allowed_dimensions m)\<rparr>
           in case validate_aggregation_columns m' of Some e \<Rightarrow> Inl e | None \<Rightarrow> Inr m')))))"

definition metric_columns :: "PhysicalMetricMapping \<Rightarrow> string set" where
  "metric_columns m = set (concat (map (\<lambda>c. case c of None \<Rightarrow> [] | Some v \<Rightarrow> [v])
     [pm_amount_column m, pm_numerator_column m, pm_denominator_column m]))"

subsection \<open>Connector mappings\<close>

record PhysicalConnectorMapping =
  px_connector_id :: string
  px_connector_type :: string
  px_schema_name :: string
  px_table_name :: string
  px_secret_ref :: string
  px_fact_date_column :: string
  px_period_end_column :: string
  px_metric_id_column :: string
  px_dimensions :: "(string \<times> string) list"
  px_scope_value_allowlists :: "(string \<times> string set) list"
  px_scope_value_mappings :: "(string \<times> (string \<times> string set) list) list"
  px_metrics :: "PhysicalMetricMapping list"
  px_maximum_rows :: int
  px_query_timeout_seconds :: int
  px_expected_refresh :: string

definition normalize_connector_type :: "string \<Rightarrow> mapping_error + string" where
  "normalize_connector_type value =
     (let normalized = py_upper (py_strip value)
      in if normalized \<noteq> ''POSTGRESQL''
         then Inl (MappingInvalid ''this physical mapping slice supports POSTGRESQL connectors'')
         else Inr normalized)"

definition validate_secret_reference :: "string \<Rightarrow> mapping_error + string" where
  "validate_secret_reference value =
     (let normalized = py_strip value
      in if is_secret_reference normalized then Inr normalized
         else Inl (MappingInvalid ''secret_ref must use env://NAME and cannot contain a credential''))"

fun normalize_each_dimension ::
  "(string \<times> string) list \<Rightarrow> (string \<times> string) list \<Rightarrow> mapping_error + (string \<times> string) list" where
  "normalize_each_dimension normalized [] = Inr normalized"
| "normalize_each_dimension normalized ((semantic_id, physical_column) # rest) =
     (let key = py_upper (py_strip semantic_id)
      in if key = [] then Inl (MappingInvalid ''dimension IDs cannot be blank'')
         else (case require_identifier physical_column ''dimension column'' of Inl e \<Rightarrow> Inl e
           | Inr column \<Rightarrow> normalize_each_dimension (AList.update key column normalized) rest))"

definition normalize_dimensions :: "(string \<times> string) list \<Rightarrow> mapping_error + (string \<times> string) list" where
  "normalize_dimensions values =
     (case normalize_each_dimension [] values of Inl e \<Rightarrow> Inl e
      | Inr normalized \<Rightarrow>
          if \<not> distinct (map snd normalized)
          then Inl (MappingInvalid ''each semantic dimension must map to a distinct physical column'')
          else Inr normalized)"

text \<open>\<open>{key.strip().upper(): f(value) for key, value in values.items() if key.strip()}\<close>\<close>

definition normalize_keys :: "('a \<Rightarrow> 'b) \<Rightarrow> (string \<times> 'a) list \<Rightarrow> (string \<times> 'b) list" where
  "normalize_keys f values = fold (\<lambda>(k, v) out. if py_strip k = [] then out
      else AList.update (py_upper (py_strip k)) (f v) out) values []"

definition normalize_scope_values :: "(string \<times> string set) list \<Rightarrow> (string \<times> string set) list" where
  "normalize_scope_values values = normalize_keys normalize_set_values values"

definition normalize_scope_mappings ::
  "(string \<times> (string \<times> string set) list) list \<Rightarrow> (string \<times> (string \<times> string set) list) list" where
  "normalize_scope_mappings values = normalize_keys (normalize_keys normalize_set_values) values"

definition dict_get :: "('k \<times> 'a) list \<Rightarrow> 'k \<Rightarrow> 'a \<Rightarrow> 'a" where
  "dict_get d k otherwise = (case map_of d k of None \<Rightarrow> otherwise | Some v \<Rightarrow> v)"

definition dict_keys :: "('k \<times> 'a) list \<Rightarrow> 'k set" where
  "dict_keys d = set (map fst d)"

definition metric_dimension_error :: "string set \<Rightarrow> PhysicalMetricMapping \<Rightarrow> mapping_error option" where
  "metric_dimension_error known m =
     (let unknown = pm_allowed_dimensions m - known
      in if unknown = {} then None
         else Some (MappingInvalid (''metric '' @ py_repr (pm_metric_id m) @ '' references unmapped dimensions: ''
                @ py_join '', '' (py_sorted unknown))))"

definition scope_mapping_error ::
  "(string \<times> string set) list \<Rightarrow> string \<times> (string \<times> string set) list \<Rightarrow> mapping_error option" where
  "scope_mapping_error allowlists entry =
     (let allowed_values = dict_get allowlists (fst entry) {};
          unknown_values = \<Union> (set (map snd (snd entry))) - allowed_values
      in if allowed_values = {}
         then Some (MappingInvalid (''scope mappings for '' @ py_repr (fst entry) @ '' require a physical value allowlist''))
         else if unknown_values \<noteq> {}
         then Some (MappingInvalid (''scope mappings for '' @ py_repr (fst entry)
                @ '' contain values outside the allowlist: '' @ py_join '', '' (py_sorted unknown_values)))
         else None)"

definition mapping_reference_error :: "PhysicalConnectorMapping \<Rightarrow> mapping_error option" where
  "mapping_reference_error c =
     (let known = dict_keys (px_dimensions c);
          unknown_scope = (dict_keys (px_scope_value_allowlists c) \<union> dict_keys (px_scope_value_mappings c)) - known
      in if \<not> distinct (map pm_metric_id (px_metrics c))
         then Some (MappingInvalid ''duplicate metric mappings are not allowed within a connector'')
         else (case first_error (metric_dimension_error known) (px_metrics c) of Some e \<Rightarrow> Some e
           | None \<Rightarrow>
               if unknown_scope \<noteq> {}
               then Some (MappingInvalid (''scope rules reference unmapped dimensions: '' @ py_join '', '' (py_sorted unknown_scope)))
               else first_error (scope_mapping_error (px_scope_value_allowlists c)) (px_scope_value_mappings c)))"

fun make_each_metric :: "PhysicalMetricMapping list \<Rightarrow> mapping_error + PhysicalMetricMapping list" where
  "make_each_metric [] = Inr []"
| "make_each_metric (m # ms) =
     (case make_metric_mapping m of Inl e \<Rightarrow> Inl e
      | Inr m' \<Rightarrow> (case make_each_metric ms of Inl e \<Rightarrow> Inl e | Inr ms' \<Rightarrow> Inr (m' # ms')))"

text \<open>The fields are validated in the order of their declaration, then the references between them.\<close>

definition make_connector_mapping :: "PhysicalConnectorMapping \<Rightarrow> mapping_error + PhysicalConnectorMapping" where
  "make_connector_mapping c =
     (if \<not> text_within 128 (px_connector_id c) then Inl (FieldInvalid ''connector_id'')
      else (case normalize_connector_type (px_connector_type c) of Inl e \<Rightarrow> Inl e | Inr ct \<Rightarrow>
      (case require_identifier (px_schema_name c) ''physical mapping identifier'' of Inl e \<Rightarrow> Inl e | Inr sn \<Rightarrow>
      (case require_identifier (px_table_name c) ''physical mapping identifier'' of Inl e \<Rightarrow> Inl e | Inr tn \<Rightarrow>
      (case validate_secret_reference (px_secret_ref c) of Inl e \<Rightarrow> Inl e | Inr sr \<Rightarrow>
      (case require_identifier (px_fact_date_column c) ''physical mapping identifier'' of Inl e \<Rightarrow> Inl e | Inr fd \<Rightarrow>
      (case require_identifier (px_period_end_column c) ''physical mapping identifier'' of Inl e \<Rightarrow> Inl e | Inr pe \<Rightarrow>
      (case require_identifier (px_metric_id_column c) ''physical mapping identifier'' of Inl e \<Rightarrow> Inl e | Inr mi \<Rightarrow>
      (case normalize_dimensions (px_dimensions c) of Inl e \<Rightarrow> Inl e | Inr ds \<Rightarrow>
      (case make_each_metric (px_metrics c) of Inl e \<Rightarrow> Inl e | Inr ms \<Rightarrow>
      if px_maximum_rows c < 1 \<or> 10000 < px_maximum_rows c then Inl (FieldInvalid ''maximum_rows'')
      else if px_query_timeout_seconds c < 1 \<or> 1800 < px_query_timeout_seconds c then Inl (FieldInvalid ''query_timeout_seconds'')
      else (let c' = c\<lparr>px_connector_type := ct, px_schema_name := sn, px_table_name := tn, px_secret_ref := sr,
                px_fact_date_column := fd, px_period_end_column := pe, px_metric_id_column := mi, px_dimensions := ds,
                px_scope_value_allowlists := normalize_scope_values (px_scope_value_allowlists c),
                px_scope_value_mappings := normalize_scope_mappings (px_scope_value_mappings c), px_metrics := ms\<rparr>
            in case mapping_reference_error c' of Some e \<Rightarrow> Inl e | None \<Rightarrow> Inr c')))))))))))"

definition px_metric_ids :: "PhysicalConnectorMapping \<Rightarrow> string set" where
  "px_metric_ids c = pm_metric_id ` set (px_metrics c)"

definition px_metric :: "PhysicalConnectorMapping \<Rightarrow> string \<Rightarrow> mapping_error + PhysicalMetricMapping" where
  "px_metric c metric_id =
     (case List.find (\<lambda>m. pm_metric_id m = metric_id) (px_metrics c) of Some m \<Rightarrow> Inr m
      | None \<Rightarrow> Inl (MappingNotFound (''connector '' @ py_repr (px_connector_id c) @ '' has no mapping for metric ''
                 @ py_repr metric_id)))"

definition scope_expansion :: "(string \<times> string set) list \<Rightarrow> string \<Rightarrow> string set" where
  "scope_expansion mappings v = (case map_of mappings v of Some physical \<Rightarrow> physical | None \<Rightarrow> {v})"

definition resolve_scope_values ::
  "PhysicalConnectorMapping \<Rightarrow> string \<Rightarrow> string set \<Rightarrow> mapping_error + string set" where
  "resolve_scope_values c dimension_id access_values =
     (let dimension = py_upper (py_strip dimension_id);
          normalized_values = normalize_set_values access_values;
          allowed_values = dict_get (px_scope_value_allowlists c) dimension {};
          mappings = dict_get (px_scope_value_mappings c) dimension []
      in if dimension \<notin> dict_keys (px_dimensions c) then Inr {}
         else if normalized_values = {} then Inr {}
         else if \<exists>v\<in>normalized_values. v \<notin> dict_keys mappings \<and> v \<notin> allowed_values
         then Inl (MappingRefused (''access scope for dimension '' @ py_repr dimension @ '' has no approved physical mapping''))
         else Inr (\<Union> (scope_expansion mappings ` normalized_values)))"

definition metric_dimension_columns :: "PhysicalConnectorMapping \<Rightarrow> PhysicalMetricMapping \<Rightarrow> string set" where
  "metric_dimension_columns c m = (\<lambda>d. the (map_of (px_dimensions c) d)) ` pm_allowed_dimensions m"

text \<open>A dimension of a metric that is not mapped raises \<open>KeyError\<close>.\<close>

definition required_columns :: "PhysicalConnectorMapping \<Rightarrow> py_exc + string set" where
  "required_columns c =
     (if \<exists>m\<in>set (px_metrics c). \<not> pm_allowed_dimensions m \<subseteq> dict_keys (px_dimensions c) then Inl KeyError
      else Inr ({px_fact_date_column c, px_period_end_column c, px_metric_id_column c}
             \<union> \<Union> (metric_columns ` set (px_metrics c)) \<union> \<Union> (metric_dimension_columns c ` set (px_metrics c))))"

subsection \<open>Mapping packs and their registry\<close>

record TenantPhysicalMappingPack =
  pp_tenant_id :: string
  pp_version :: string
  pp_status :: string
  pp_effective_from :: instant
  pp_connectors :: "PhysicalConnectorMapping list"

fun make_each_connector :: "PhysicalConnectorMapping list \<Rightarrow> mapping_error + PhysicalConnectorMapping list" where
  "make_each_connector [] = Inr []"
| "make_each_connector (c # cs) =
     (case make_connector_mapping c of Inl e \<Rightarrow> Inl e
      | Inr c' \<Rightarrow> (case make_each_connector cs of Inl e \<Rightarrow> Inl e | Inr cs' \<Rightarrow> Inr (c' # cs')))"

text \<open>The metric identifiers of a connector are a set: the code meets them in any order, here sorted.\<close>

fun own_metrics :: "string \<Rightarrow> string list \<Rightarrow> (string \<rightharpoonup> string) \<Rightarrow> mapping_error + (string \<rightharpoonup> string)" where
  "own_metrics cid [] owners = Inr owners"
| "own_metrics cid (m # ms) owners =
     (case owners m of
        Some existing \<Rightarrow> Inl (MappingInvalid (''metric '' @ py_repr m @ '' is mapped by both '' @ py_repr existing
                              @ '' and '' @ py_repr cid))
      | None \<Rightarrow> own_metrics cid ms (owners(m \<mapsto> cid)))"

fun metric_owners :: "PhysicalConnectorMapping list \<Rightarrow> (string \<rightharpoonup> string) \<Rightarrow> mapping_error + (string \<rightharpoonup> string)" where
  "metric_owners [] owners = Inr owners"
| "metric_owners (c # cs) owners =
     (case own_metrics (px_connector_id c) (py_sorted (px_metric_ids c)) owners of Inl e \<Rightarrow> Inl e
      | Inr owners' \<Rightarrow> metric_owners cs owners')"

definition make_mapping_pack :: "TenantPhysicalMappingPack \<Rightarrow> mapping_error + TenantPhysicalMappingPack" where
  "make_mapping_pack p =
     (if \<not> text_within 128 (pp_tenant_id p) then Inl (FieldInvalid ''tenant_id'')
      else if \<not> text_within 64 (pp_version p) then Inl (FieldInvalid ''version'')
      else (case make_each_connector (pp_connectors p) of Inl e \<Rightarrow> Inl e
        | Inr cs \<Rightarrow>
            if \<not> distinct (map px_connector_id cs) then Inl (MappingInvalid ''duplicate connector IDs are not allowed'')
            else (case metric_owners cs Map.empty of Inl e \<Rightarrow> Inl e
              | Inr _ \<Rightarrow> Inr (p\<lparr>pp_status := normalize_status (pp_status p), pp_connectors := cs\<rparr>))))"

definition pp_connector :: "TenantPhysicalMappingPack \<Rightarrow> string \<Rightarrow> mapping_error + PhysicalConnectorMapping" where
  "pp_connector p cid =
     (case List.find (\<lambda>c. px_connector_id c = cid) (pp_connectors p) of Some c \<Rightarrow> Inr c
      | None \<Rightarrow> Inl (MappingNotFound (''tenant '' @ py_repr (pp_tenant_id p) @ '' has no physical mapping for connector ''
                 @ py_repr cid)))"

type_synonym mapping_registry = "string \<rightharpoonup> TenantPhysicalMappingPack"

fun load_each_mapping :: "(string + TenantPhysicalMappingPack) list \<Rightarrow> mapping_registry \<Rightarrow> mapping_error + mapping_registry" where
  "load_each_mapping [] packs = Inr packs"
| "load_each_mapping (raw # raws) packs =
     (case raw of Inl msg \<Rightarrow> Inl (MappingRefused msg)
      | Inr r \<Rightarrow>
        (case make_mapping_pack r of Inl e \<Rightarrow> Inl e
         | Inr p \<Rightarrow>
           if pp_status p \<noteq> ''APPROVED'' then load_each_mapping raws packs
           else (case packs (pp_tenant_id p) of
               Some existing \<Rightarrow> Inl (MappingRefused (''multiple approved physical mapping packs found for tenant ''
                 @ py_repr (pp_tenant_id p) @ '': '' @ py_repr (pp_version existing) @ '' and '' @ py_repr (pp_version p)))
             | None \<Rightarrow> load_each_mapping raws (packs(pp_tenant_id p \<mapsto> p)))))"

definition load_mappings :: "(string + TenantPhysicalMappingPack) list \<Rightarrow> mapping_error + mapping_registry" where
  "load_mappings raws =
     (if raws = [] then Inl (MappingRefused ''no physical mapping files were found'')
      else (case load_each_mapping raws Map.empty of Inl e \<Rightarrow> Inl e
        | Inr packs \<Rightarrow> if packs = Map.empty then Inl (MappingRefused ''no approved physical mapping packs were loaded'')
                       else Inr packs))"

definition mapping_get :: "mapping_registry \<Rightarrow> string \<Rightarrow> mapping_error + TenantPhysicalMappingPack" where
  "mapping_get packs tenant_id =
     (case packs tenant_id of Some p \<Rightarrow> Inr p
      | None \<Rightarrow> Inl (MappingNotFound (''no approved physical mapping pack exists for tenant '' @ py_repr tenant_id)))"

definition metric_mapping_failures :: "TenantPhysicalMappingPack \<Rightarrow> MetricDefinition \<Rightarrow> string list" where
  "metric_mapping_failures p m =
     (if ds_status (md_source m) \<noteq> SRC_AVAILABLE then []
      else (case pp_connector p (ds_connector_id (md_source m)) of
          Inl _ \<Rightarrow> [''MISSING_PHYSICAL_MAPPING:'' @ md_id m]
        | Inr c \<Rightarrow> (case px_metric c (md_id m) of
            Inl _ \<Rightarrow> [''MISSING_PHYSICAL_MAPPING:'' @ md_id m]
          | Inr pm \<Rightarrow>
              (if pm_aggregation pm \<noteq> md_aggregation m then [''AGGREGATION_MISMATCH:'' @ md_id m] else [])
              @ (if pm_allowed_dimensions pm \<noteq> set (md_allowed_dimensions m)
                 then [''DIMENSION_MAPPING_MISMATCH:'' @ md_id m] else []))))"

definition validate_domain_pack :: "mapping_registry \<Rightarrow> TenantDomainPack \<Rightarrow> mapping_error + string list" where
  "validate_domain_pack packs domain_pack =
     (case mapping_get packs (pk_tenant_id domain_pack) of Inl e \<Rightarrow> Inl e
      | Inr p \<Rightarrow> Inr (concat (map (metric_mapping_failures p) (pk_metrics domain_pack))))"

subsection \<open>What validation establishes\<close>

lemma word_char_no_ws: "is_word_char c \<Longrightarrow> \<not> is_ws c"
  by (auto simp: is_word_char_def is_ws_def is_digit_def is_lower_def is_upper_def Let_def)

lemma identifier_word: "is_identifier s \<Longrightarrow> s \<noteq> [] \<and> (\<forall>c\<in>set s. is_word_char c)"
  by (cases s) (auto simp: list_all_iff is_word_char_def)

lemma identifier_strip: "is_identifier s \<Longrightarrow> py_strip s = s"
  by (rule py_strip_no_ws) (use identifier_word word_char_no_ws in blast)

lemma require_identifier_Inr:
  "require_identifier v f = Inr w \<longleftrightarrow> w = py_strip v \<and> is_identifier w"
  by (auto simp: require_identifier_def Let_def)

lemma require_identifier_id: "is_identifier v \<Longrightarrow> require_identifier v f = Inr v"
  by (simp add: require_identifier_Inr identifier_strip)

definition normal_text :: "string \<Rightarrow> bool" where
  "normal_text k \<longleftrightarrow> k \<noteq> [] \<and> py_upper (py_strip k) = k"

lemma normal_text_strip: "normal_text k \<Longrightarrow> py_strip k = k"
  by (metis normal_text_def strip_upper_strip)

lemma normal_text_upper: "normal_text k \<Longrightarrow> py_upper k = k"
  by (metis normal_text_def normal_text_strip)

lemma normal_text_made: "py_strip k \<noteq> [] \<Longrightarrow> normal_text (py_upper (py_strip k))"
  by (simp add: normal_text_def)

definition normal_set :: "string set \<Rightarrow> bool" where
  "normal_set S \<longleftrightarrow> normalize_set_values S = S"

lemma normal_set_made [simp]: "normal_set (normalize_set_values S)"
  by (simp add: normal_set_def)

text \<open>A dictionary whose keys are distinct and normalised.\<close>

definition normal_dict :: "(string \<times> 'a) list \<Rightarrow> bool" where
  "normal_dict d \<longleftrightarrow> distinct (map fst d) \<and> (\<forall>k\<in>dict_keys d. normal_text k)"

lemma dict_keys_simps [simp]: "dict_keys [] = {}" "dict_keys ((k, v) # d) = insert k (dict_keys d)"
  by (simp_all add: dict_keys_def)

lemma dict_keys_update [simp]: "dict_keys (AList.update k v d) = insert k (dict_keys d)"
  by (auto simp: dict_keys_def update_keys)

lemma update_fresh: "k \<notin> dict_keys d \<Longrightarrow> AList.update k v d = d @ [(k, v)]"
  by (induction d) auto

lemma update_entries: "set (AList.update k v d) \<subseteq> insert (k, v) (set d)"
  by (induction d) auto

lemma update_entriesD: "e \<in> set (AList.update k v d) \<Longrightarrow> e = (k, v) \<or> e \<in> set d"
  using update_entries [of k v d] by blast

lemma normal_dict_update:
  "normal_dict d \<Longrightarrow> normal_text k \<Longrightarrow> normal_dict (AList.update k v d)"
  by (auto simp: normal_dict_def distinct_update)

lemma normal_dict_Nil [simp]: "normal_dict []"
  by (simp add: normal_dict_def)

lemma dict_keys_map_of: "k \<in> dict_keys d \<longleftrightarrow> (\<exists>v. map_of d k = Some v)"
  unfolding dict_keys_def by (metis map_of_eq_None_iff not_None_eq set_map)

lemma dict_get_in: "k \<in> dict_keys d \<Longrightarrow> (k, dict_get d k x) \<in> set d"
  by (auto simp: dict_get_def dict_keys_map_of dest: map_of_SomeD)

lemma normal_dict_get: "normal_dict d \<Longrightarrow> (k, v) \<in> set d \<Longrightarrow> dict_get d k x = v"
  by (simp add: normal_dict_def dict_get_def)

text \<open>One entry at a time: \<open>normalize_keys\<close> is a fold of this step.\<close>

definition normalize_entry :: "('a \<Rightarrow> 'b) \<Rightarrow> string \<times> 'a \<Rightarrow> (string \<times> 'b) list \<Rightarrow> (string \<times> 'b) list" where
  "normalize_entry f e d = (if py_strip (fst e) = [] then d
     else AList.update (py_upper (py_strip (fst e))) (f (snd e)) d)"

lemma normalize_keys_fold: "normalize_keys f vals = fold (normalize_entry f) vals []"
proof -
  have "normalize_entry f = (\<lambda>(k, v) d. if py_strip k = [] then d else AList.update (py_upper (py_strip k)) (f v) d)"
    by (simp add: fun_eq_iff normalize_entry_def)
  then show ?thesis by (simp add: normalize_keys_def)
qed

lemma normalize_entry_dict: "normal_dict d \<Longrightarrow> normal_dict (normalize_entry f e d)"
  by (simp add: normalize_entry_def normal_dict_update normal_text_made)

lemma normalize_keys_dict: "normal_dict (normalize_keys f vals)"
proof -
  have "normal_dict d \<Longrightarrow> normal_dict (fold (normalize_entry f) vals d)" for d
    by (induction vals arbitrary: d) (simp_all add: normalize_entry_dict)
  then show ?thesis by (simp add: normalize_keys_fold)
qed

lemma normalize_keys_values:
  assumes "(k, v) \<in> set (normalize_keys f vals)"
  shows "\<exists>w. v = f w"
proof -
  have "\<forall>e\<in>set (fold (normalize_entry f) vals d). \<exists>w. snd e = f w" if "\<forall>e\<in>set d. \<exists>w. snd e = f w" for d
    using that
  proof (induction vals arbitrary: d)
    case (Cons x vals)
    have "\<exists>w. snd e = f w" if "e \<in> set (normalize_entry f x d)" for e
      using that Cons.prems update_entriesD [of e "py_upper (py_strip (fst x))" "f (snd x)" d]
      by (cases "py_strip (fst x) = []") (auto simp: normalize_entry_def)
    with Cons.IH [of "normalize_entry f x d"] show ?case by simp
  qed simp
  from this [of "[]"] assms show ?thesis by (force simp: normalize_keys_fold)
qed

lemma normalize_entries_append:
  assumes "\<forall>e\<in>set vals. f (snd e) = snd e" "distinct (map fst (d @ vals))" "\<forall>k\<in>dict_keys vals. normal_text k"
  shows "fold (normalize_entry f) vals d = d @ vals"
  using assms
proof (induction vals arbitrary: d)
  case (Cons e vals)
  have n: "normal_text (fst e)" and fresh: "fst e \<notin> dict_keys d"
    using Cons.prems by (auto simp: dict_keys_def)
  then have "normalize_entry f e d = d @ [e]"
    using Cons.prems(1) update_fresh [OF fresh, of "snd e"]
    by (auto simp: normalize_entry_def normal_text_strip normal_text_upper) (simp add: normal_text_def)
  moreover have "fold (normalize_entry f) vals (d @ [e]) = (d @ [e]) @ vals"
    by (rule Cons.IH) (use Cons.prems in \<open>auto simp: dict_keys_def\<close>)
  ultimately show ?case by simp
qed simp

lemma normalize_keys_id:
  "normal_dict d \<Longrightarrow> (\<And>k v. (k, v) \<in> set d \<Longrightarrow> f v = v) \<Longrightarrow> normalize_keys f d = d"
  unfolding normalize_keys_fold
  by (subst normalize_entries_append) (auto simp: normal_dict_def)

definition metric_mapping_ok :: "PhysicalMetricMapping \<Rightarrow> bool" where
  "metric_mapping_ok m \<longleftrightarrow> text_within 128 (pm_metric_id m) \<and> text_within 256 (pm_source_value m)
     \<and> (\<forall>c\<in>metric_columns m. is_identifier c) \<and> normal_set (pm_allowed_dimensions m)
     \<and> (pm_aggregation m = RATIO \<and> pm_numerator_column m \<noteq> None \<and> pm_denominator_column m \<noteq> None
        \<or> pm_aggregation m = AGG_SUM \<and> pm_amount_column m \<noteq> None)"

lemma validate_optional_identifier_Inr:
  "validate_optional_identifier v = Inr w \<longleftrightarrow> w = map_option py_strip v \<and> (\<forall>c. w = Some c \<longrightarrow> is_identifier c)"
  by (cases v) (auto simp: validate_optional_identifier_def require_identifier_Inr)

lemma metric_columns_ok:
  "(\<forall>c\<in>metric_columns m. is_identifier c) \<longleftrightarrow> (\<forall>c. pm_amount_column m = Some c \<longrightarrow> is_identifier c)
    \<and> (\<forall>c. pm_numerator_column m = Some c \<longrightarrow> is_identifier c)
    \<and> (\<forall>c. pm_denominator_column m = Some c \<longrightarrow> is_identifier c)"
  by (auto simp: metric_columns_def split: option.splits)

lemma aggregation_columns_None:
  "validate_aggregation_columns m = None \<longleftrightarrow>
     pm_aggregation m = RATIO \<and> pm_numerator_column m \<noteq> None \<and> pm_denominator_column m \<noteq> None
     \<or> pm_aggregation m = AGG_SUM \<and> pm_amount_column m \<noteq> None"
  by (auto simp: validate_aggregation_columns_def)

lemma make_metric_mapping_ok: "make_metric_mapping m = Inr m' \<Longrightarrow> metric_mapping_ok m'"
  by (auto simp: make_metric_mapping_def Let_def validate_optional_identifier_Inr metric_mapping_ok_def
      metric_columns_ok aggregation_columns_None)

lemma strip_optional_identifier:
  "(\<forall>c. v = Some c \<longrightarrow> is_identifier c) \<Longrightarrow> map_option py_strip v = v"
  by (cases v) (simp_all add: identifier_strip)

lemma make_metric_mapping_id:
  assumes "metric_mapping_ok m"
  shows "make_metric_mapping m = Inr m"
proof -
  have "validate_optional_identifier v = Inr v" if "\<forall>c. v = Some c \<longrightarrow> is_identifier c" for v
    using that by (simp add: validate_optional_identifier_Inr strip_optional_identifier)
  moreover have "m\<lparr>pm_amount_column := pm_amount_column m, pm_numerator_column := pm_numerator_column m,
      pm_denominator_column := pm_denominator_column m, pm_allowed_dimensions := pm_allowed_dimensions m\<rparr> = m" by simp
  ultimately show ?thesis
    using assms by (simp add: make_metric_mapping_def metric_mapping_ok_def metric_columns_ok aggregation_columns_None normal_set_def)
qed

lemma make_each_metric_Inr:
  "make_each_metric ms = Inr ms' \<Longrightarrow> \<forall>m\<in>set ms'. metric_mapping_ok m"
  by (induction ms arbitrary: ms') (auto simp: make_metric_mapping_ok)

lemma make_each_metric_id: "\<forall>m\<in>set ms. metric_mapping_ok m \<Longrightarrow> make_each_metric ms = Inr ms"
  by (induction ms) (simp_all add: make_metric_mapping_id)

lemma normalize_each_dimension_ok:
  assumes "normalize_each_dimension d vals = Inr d'" "normal_dict d" "\<forall>c\<in>set (map snd d). is_identifier c"
  shows "normal_dict d' \<and> (\<forall>c\<in>set (map snd d'). is_identifier c)"
  using assms
proof (induction d vals rule: normalize_each_dimension.induct)
  case (2 d k v rest)
  let ?key = "py_upper (py_strip k)"
  from "2.prems"(1) obtain c where k: "?key \<noteq> []" and c: "require_identifier v ''dimension column'' = Inr c"
    and r: "normalize_each_dimension (AList.update ?key c d) rest = Inr d'" by (auto simp: Let_def)
  have "normal_dict (AList.update ?key c d)" using "2.prems"(2) k by (simp add: normal_dict_update normal_text_made)
  moreover have "\<forall>x\<in>set (map snd (AList.update ?key c d)). is_identifier x"
    using "2.prems"(3) c by (auto simp: require_identifier_Inr dest!: update_entriesD)
  ultimately show ?case using "2.IH" [OF refl k c] r by blast
qed simp

lemma normalize_each_dimension_id:
  "distinct (map fst (d @ vals)) \<Longrightarrow> \<forall>k\<in>dict_keys vals. normal_text k \<Longrightarrow> \<forall>c\<in>set (map snd vals). is_identifier c \<Longrightarrow>
    normalize_each_dimension d vals = Inr (d @ vals)"
proof (induction d vals rule: normalize_each_dimension.induct)
  case (2 d k v rest)
  then have n: "normal_text k" and v: "is_identifier v" and fresh: "k \<notin> dict_keys d" by (auto simp: dict_keys_def)
  then have key: "py_upper (py_strip k) = k" and c: "require_identifier v ''dimension column'' = Inr v"
    by (simp_all add: normal_text_def require_identifier_id)
  have "py_upper (py_strip k) \<noteq> []" using n by (simp add: normal_text_def)
  from "2.IH" [OF refl this c] 2(2-) key update_fresh [OF fresh, of v] c n show ?case
    by (simp add: normal_text_def)
qed simp

lemma normalize_dimensions_ok:
  "normalize_dimensions vals = Inr d \<Longrightarrow>
    normal_dict d \<and> (\<forall>c\<in>set (map snd d). is_identifier c) \<and> distinct (map snd d)"
  using normalize_each_dimension_ok [of "[]" vals]
  by (auto simp: normalize_dimensions_def split: sum.splits if_splits)

lemma normalize_dimensions_id:
  "normal_dict d \<Longrightarrow> \<forall>c\<in>set (map snd d). is_identifier c \<Longrightarrow> distinct (map snd d) \<Longrightarrow> normalize_dimensions d = Inr d"
  using normalize_each_dimension_id [of "[]" d] by (simp add: normalize_dimensions_def normal_dict_def)

definition normal_sets :: "(string \<times> string set) list \<Rightarrow> bool" where
  "normal_sets d \<longleftrightarrow> normal_dict d \<and> (\<forall>S\<in>set (map snd d). normal_set S)"

lemma normal_sets_made: "normal_sets (normalize_keys normalize_set_values vals)"
  using normalize_keys_values [of _ _ normalize_set_values vals]
  by (auto simp: normal_sets_def normalize_keys_dict) (metis normal_set_made)

lemma normal_sets_id: "normal_sets d \<Longrightarrow> normalize_keys normalize_set_values d = d"
  by (rule normalize_keys_id) (auto simp: normal_sets_def normal_set_def)

definition mapping_references_ok :: "PhysicalConnectorMapping \<Rightarrow> bool" where
  "mapping_references_ok c \<longleftrightarrow> distinct (map pm_metric_id (px_metrics c))
     \<and> (\<forall>m\<in>set (px_metrics c). pm_allowed_dimensions m \<subseteq> dict_keys (px_dimensions c))
     \<and> dict_keys (px_scope_value_allowlists c) \<union> dict_keys (px_scope_value_mappings c) \<subseteq> dict_keys (px_dimensions c)
     \<and> (\<forall>(d, mappings)\<in>set (px_scope_value_mappings c).
          dict_get (px_scope_value_allowlists c) d {} \<noteq> {}
          \<and> (\<forall>S\<in>set (map snd mappings). S \<subseteq> dict_get (px_scope_value_allowlists c) d {}))"

definition connector_mapping_ok :: "PhysicalConnectorMapping \<Rightarrow> bool" where
  "connector_mapping_ok c \<longleftrightarrow> text_within 128 (px_connector_id c) \<and> px_connector_type c = ''POSTGRESQL''
     \<and> is_identifier (px_schema_name c) \<and> is_identifier (px_table_name c) \<and> is_identifier (px_fact_date_column c)
     \<and> is_identifier (px_period_end_column c) \<and> is_identifier (px_metric_id_column c)
     \<and> is_secret_reference (px_secret_ref c)
     \<and> normal_dict (px_dimensions c) \<and> (\<forall>col\<in>set (map snd (px_dimensions c)). is_identifier col)
     \<and> distinct (map snd (px_dimensions c))
     \<and> normal_sets (px_scope_value_allowlists c)
     \<and> normal_dict (px_scope_value_mappings c) \<and> (\<forall>d\<in>set (map snd (px_scope_value_mappings c)). normal_sets d)
     \<and> (\<forall>m\<in>set (px_metrics c). metric_mapping_ok m)
     \<and> 1 \<le> px_maximum_rows c \<and> px_maximum_rows c \<le> 10000
     \<and> 1 \<le> px_query_timeout_seconds c \<and> px_query_timeout_seconds c \<le> 1800
     \<and> mapping_references_ok c"

lemma first_error_None_iff: "first_error g xs = None \<longleftrightarrow> (\<forall>x\<in>set xs. g x = None)"
  by (induction xs) (auto split: option.splits)

lemma mapping_reference_error_None: "mapping_reference_error c = None \<longleftrightarrow> mapping_references_ok c"
proof -
  have m: "metric_dimension_error known m = None \<longleftrightarrow> pm_allowed_dimensions m \<subseteq> known" for known m
    by (auto simp: metric_dimension_error_def Let_def)
  have e: "scope_mapping_error al entry = None \<longleftrightarrow> dict_get al (fst entry) {} \<noteq> {}
      \<and> (\<forall>S\<in>set (map snd (snd entry)). S \<subseteq> dict_get al (fst entry) {})" for al entry
    by (auto simp: scope_mapping_error_def Let_def)
  have s: "(X :: string set) - K \<noteq> {} \<longleftrightarrow> \<not> X \<subseteq> K" for X K by auto
  show ?thesis
    unfolding mapping_reference_error_def mapping_references_ok_def Let_def
    by (auto simp: first_error_None_iff m e s case_prod_unfold)
qed

lemma secret_reference_strip:
  assumes "is_secret_reference s"
  shows "py_strip s = s"
proof -
  from assms obtain t where s: "s = ''env://'' @ t" and t: "is_env_name t"
    by (auto simp: is_secret_reference_def starts_with_iff)
  have "\<forall>c\<in>set t. is_word_char c"
    using t by (cases t) (auto simp: list_all_iff is_word_char_def)
  then have "\<forall>c\<in>set s. \<not> is_ws c"
    unfolding s by (auto simp: word_char_no_ws) (simp_all add: is_ws_def)
  then show ?thesis by (rule py_strip_no_ws)
qed

lemma validate_secret_reference_Inr:
  "validate_secret_reference v = Inr w \<longleftrightarrow> w = py_strip v \<and> is_secret_reference w"
  by (auto simp: validate_secret_reference_def Let_def)

lemma normalize_connector_type_Inr:
  "normalize_connector_type v = Inr w \<longleftrightarrow> py_upper (py_strip v) = ''POSTGRESQL'' \<and> w = ''POSTGRESQL''"
  by (auto simp: normalize_connector_type_def Let_def)

lemma make_connector_mapping_ok:
  assumes "make_connector_mapping c = Inr c'"
  shows "connector_mapping_ok c'"
proof -
  from assms obtain ct sn tn sr fd pe mi ds ms where
    parts: "text_within 128 (px_connector_id c)" "normalize_connector_type (px_connector_type c) = Inr ct"
      "is_identifier sn" "is_identifier tn" "is_secret_reference sr" "is_identifier fd" "is_identifier pe" "is_identifier mi"
    and ds: "normalize_dimensions (px_dimensions c) = Inr ds" and ms: "make_each_metric (px_metrics c) = Inr ms"
    and bounds: "1 \<le> px_maximum_rows c" "px_maximum_rows c \<le> 10000" "1 \<le> px_query_timeout_seconds c" "px_query_timeout_seconds c \<le> 1800"
    and c': "c' = c\<lparr>px_connector_type := ct, px_schema_name := sn, px_table_name := tn, px_secret_ref := sr,
                px_fact_date_column := fd, px_period_end_column := pe, px_metric_id_column := mi, px_dimensions := ds,
                px_scope_value_allowlists := normalize_scope_values (px_scope_value_allowlists c),
                px_scope_value_mappings := normalize_scope_mappings (px_scope_value_mappings c), px_metrics := ms\<rparr>"
    and refs: "mapping_reference_error c' = None"
    by (auto simp: make_connector_mapping_def Let_def require_identifier_Inr validate_secret_reference_Inr not_less)
  have "ct = ''POSTGRESQL''" using parts(2) by (simp add: normalize_connector_type_Inr)
  moreover have "\<forall>d\<in>set (map snd (px_scope_value_mappings c')). normal_sets d"
    using normalize_keys_values [of _ _ "normalize_keys normalize_set_values" "px_scope_value_mappings c"]
    by (auto simp: c' normalize_scope_mappings_def) (metis normal_sets_made)
  moreover have "normal_dict (px_scope_value_mappings c')"
    by (simp add: c' normalize_scope_mappings_def normalize_keys_dict)
  moreover have "normal_sets (px_scope_value_allowlists c')"
    by (simp add: c' normalize_scope_values_def normal_sets_made)
  moreover have "mapping_references_ok c'" using refs mapping_reference_error_None by blast
  ultimately show ?thesis
    unfolding connector_mapping_ok_def
    using parts bounds normalize_dimensions_ok [OF ds] make_each_metric_Inr [OF ms] by (simp add: c')
qed

lemma make_connector_mapping_id:
  assumes "connector_mapping_ok c"
  shows "make_connector_mapping c = Inr c"
proof -
  have ids: "require_identifier v f = Inr v" if "is_identifier v" for v f
    using that by (rule require_identifier_id)
  have ct: "normalize_connector_type ''POSTGRESQL'' = Inr ''POSTGRESQL''" by code_simp
  have sr: "validate_secret_reference (px_secret_ref c) = Inr (px_secret_ref c)"
    using assms by (simp add: validate_secret_reference_Inr connector_mapping_ok_def secret_reference_strip)
  have ds: "normalize_dimensions (px_dimensions c) = Inr (px_dimensions c)"
    using assms by (simp add: connector_mapping_ok_def normalize_dimensions_id)
  have ms: "make_each_metric (px_metrics c) = Inr (px_metrics c)"
    using assms by (simp add: connector_mapping_ok_def make_each_metric_id)
  have al: "normalize_scope_values (px_scope_value_allowlists c) = px_scope_value_allowlists c"
    using assms by (simp add: connector_mapping_ok_def normalize_scope_values_def normal_sets_id)
  have mp: "normalize_scope_mappings (px_scope_value_mappings c) = px_scope_value_mappings c"
    unfolding normalize_scope_mappings_def
    by (rule normalize_keys_id) (use assms in \<open>auto simp: connector_mapping_ok_def normal_sets_id\<close>)
  have refs: "mapping_reference_error c = None"
    using assms by (simp add: mapping_reference_error_None connector_mapping_ok_def)
  have same: "c\<lparr>px_connector_type := ''POSTGRESQL''\<rparr> = c"
    using assms by (cases c) (simp add: connector_mapping_ok_def)
  show ?thesis
    using assms refs unfolding make_connector_mapping_def connector_mapping_ok_def Let_def
    by (simp add: ids ct sr ds ms al mp same)
qed

subsection \<open>Scopes\<close>

lemma scope_expansion_within:
  assumes "connector_mapping_ok c" "v \<in> dict_keys (dict_get (px_scope_value_mappings c) d [])
      \<or> v \<in> dict_get (px_scope_value_allowlists c) d {}"
  shows "scope_expansion (dict_get (px_scope_value_mappings c) d []) v \<subseteq> dict_get (px_scope_value_allowlists c) d {}"
proof (cases "map_of (dict_get (px_scope_value_mappings c) d []) v")
  case None
  then show ?thesis using assms(2) by (simp add: scope_expansion_def dict_keys_map_of)
next
  case (Some S)
  then have "dict_get (px_scope_value_mappings c) d [] \<noteq> []" by auto
  then have "d \<in> dict_keys (px_scope_value_mappings c)"
    by (auto simp: dict_get_def dict_keys_map_of split: option.splits)
  from dict_get_in [OF this, of "[]"] assms(1)
  have "\<forall>S\<in>set (map snd (dict_get (px_scope_value_mappings c) d [])). S \<subseteq> dict_get (px_scope_value_allowlists c) d {}"
    unfolding connector_mapping_ok_def mapping_references_ok_def by blast
  moreover have "S \<in> set (map snd (dict_get (px_scope_value_mappings c) d []))"
    using map_of_SomeD [OF Some] by force
  ultimately have "S \<subseteq> dict_get (px_scope_value_allowlists c) d {}" by blast
  with Some show ?thesis by (simp add: scope_expansion_def)
qed

lemma resolve_scope_values_Inr:
  assumes "dimension = py_upper (py_strip dimension_id)" "dimension \<in> dict_keys (px_dimensions c)"
    "normalize_set_values access_values \<noteq> {}"
  shows "resolve_scope_values c dimension_id access_values = Inr S \<longleftrightarrow>
    (\<forall>v\<in>normalize_set_values access_values. v \<in> dict_keys (dict_get (px_scope_value_mappings c) dimension [])
        \<or> v \<in> dict_get (px_scope_value_allowlists c) dimension {})
    \<and> S = \<Union> (scope_expansion (dict_get (px_scope_value_mappings c) dimension []) ` normalize_set_values access_values)"
  using assms by (auto simp: resolve_scope_values_def Let_def)

lemma resolve_scope_values_within:
  assumes ok: "connector_mapping_ok c" and r: "resolve_scope_values c dimension_id access_values = Inr S"
  shows "S \<subseteq> dict_get (px_scope_value_allowlists c) (py_upper (py_strip dimension_id)) {}"
proof (cases "py_upper (py_strip dimension_id) \<in> dict_keys (px_dimensions c) \<and> normalize_set_values access_values \<noteq> {}")
  case False
  then have "S = {}" using r unfolding resolve_scope_values_def Let_def by (auto split: if_splits)
  then show ?thesis by simp
next
  case True
  with r resolve_scope_values_Inr [OF refl, of dimension_id c access_values S] scope_expansion_within [OF ok]
  show ?thesis by blast
qed

subsection \<open>Packs and registry\<close>

definition mapping_pack_ok :: "TenantPhysicalMappingPack \<Rightarrow> bool" where
  "mapping_pack_ok p \<longleftrightarrow> text_within 128 (pp_tenant_id p) \<and> text_within 64 (pp_version p)
     \<and> (\<forall>c\<in>set (pp_connectors p). connector_mapping_ok c) \<and> distinct (map px_connector_id (pp_connectors p))
     \<and> distinct (concat (map (\<lambda>c. map pm_metric_id (px_metrics c)) (pp_connectors p)))"

lemma make_each_connector_ok: "make_each_connector cs = Inr cs' \<Longrightarrow> \<forall>c\<in>set cs'. connector_mapping_ok c"
  by (induction cs arbitrary: cs') (auto simp: make_connector_mapping_ok)

lemma own_metrics_Inr:
  "own_metrics cid ms owners = Inr owners' \<Longrightarrow> set ms \<inter> dom owners = {} \<and> dom owners' = dom owners \<union> set ms"
  by (induction cid ms owners arbitrary: owners' rule: own_metrics.induct) (auto split: option.splits)

lemma metric_owners_Inr:
  "metric_owners cs owners = Inr owners' \<Longrightarrow> \<forall>c\<in>set cs. distinct (map pm_metric_id (px_metrics c)) \<Longrightarrow>
    distinct (concat (map (\<lambda>c. map pm_metric_id (px_metrics c)) cs))
    \<and> set (concat (map (\<lambda>c. map pm_metric_id (px_metrics c)) cs)) \<inter> dom owners = {}"
proof (induction cs owners arbitrary: owners' rule: metric_owners.induct)
  case (2 c cs owners)
  from "2.prems"(1) obtain o1 where o1: "own_metrics (px_connector_id c) (py_sorted (px_metric_ids c)) owners = Inr o1"
    and rest: "metric_owners cs o1 = Inr owners'" by auto
  from own_metrics_Inr [OF o1] have "px_metric_ids c \<inter> dom owners = {}" "dom o1 = dom owners \<union> px_metric_ids c"
    by (simp_all add: px_metric_ids_def)
  with "2.IH" [OF o1 rest] "2.prems"(2) show ?case by (simp add: px_metric_ids_def) blast
qed simp

lemma make_mapping_pack_ok:
  assumes "make_mapping_pack p = Inr p'"
  shows "mapping_pack_ok p'"
proof -
  from assms obtain cs owners where cs: "make_each_connector (pp_connectors p) = Inr cs"
    and own: "metric_owners cs Map.empty = Inr owners" and d: "distinct (map px_connector_id cs)"
    and t: "text_within 128 (pp_tenant_id p)" "text_within 64 (pp_version p)"
    and p': "p' = p\<lparr>pp_status := normalize_status (pp_status p), pp_connectors := cs\<rparr>"
    by (auto simp: make_mapping_pack_def)
  have ok: "\<forall>c\<in>set cs. connector_mapping_ok c" using make_each_connector_ok [OF cs] .
  then have "\<forall>c\<in>set cs. distinct (map pm_metric_id (px_metrics c))"
    by (simp add: connector_mapping_ok_def mapping_references_ok_def)
  from metric_owners_Inr [OF own this] ok d t show ?thesis by (simp add: mapping_pack_ok_def p')
qed

definition mapping_registry_ok :: "mapping_registry \<Rightarrow> bool" where
  "mapping_registry_ok packs \<longleftrightarrow>
     (\<forall>t p. packs t = Some p \<longrightarrow> pp_tenant_id p = t \<and> pp_status p = ''APPROVED'' \<and> mapping_pack_ok p)"

lemma load_each_mapping_ok:
  "mapping_registry_ok packs \<Longrightarrow> load_each_mapping raws packs = Inr out \<Longrightarrow> mapping_registry_ok out"
proof (induction raws packs arbitrary: out rule: load_each_mapping.induct)
  case (2 raw raws packs)
  from "2.prems"(2) obtain r where r: "raw = Inr r" by (cases raw) auto
  with "2.prems"(2) obtain p where p: "make_mapping_pack r = Inr p" by (cases "make_mapping_pack r") auto
  then have wf: "mapping_pack_ok p" by (rule make_mapping_pack_ok)
  show ?case
  proof (cases "pp_status p = ''APPROVED''")
    case False
    then show ?thesis using "2.IH"(1) [OF r p] "2.prems" r p by simp
  next
    case True
    then have none: "packs (pp_tenant_id p) = None" and
      rest: "load_each_mapping raws (packs(pp_tenant_id p \<mapsto> p)) = Inr out"
      using "2.prems"(2) r p by (auto split: option.splits)
    have ok: "mapping_registry_ok (packs(pp_tenant_id p \<mapsto> p))"
      using "2.prems"(1) True wf by (simp add: mapping_registry_ok_def)
    from True have "\<not> pp_status p \<noteq> ''APPROVED''" by simp
    from "2.IH"(2) [OF r p this none ok rest] show ?thesis .
  qed
qed simp

lemma load_mappings_ok: "load_mappings raws = Inr packs \<Longrightarrow> mapping_registry_ok packs"
  using load_each_mapping_ok [of Map.empty raws]
  by (auto simp: load_mappings_def mapping_registry_ok_def [of Map.empty] split: if_splits sum.splits)

text \<open>A governed metric with an available source agrees with its physical mapping.\<close>

definition metric_mapped :: "TenantPhysicalMappingPack \<Rightarrow> MetricDefinition \<Rightarrow> bool" where
  "metric_mapped p m \<longleftrightarrow> (\<exists>c\<in>set (pp_connectors p). \<exists>pm\<in>set (px_metrics c).
     px_connector_id c = ds_connector_id (md_source m) \<and> pm_metric_id pm = md_id m
     \<and> pm_aggregation pm = md_aggregation m \<and> pm_allowed_dimensions pm = set (md_allowed_dimensions m))"

lemma pp_connector_Inr:
  assumes "mapping_pack_ok p"
  shows "pp_connector p cid = Inr c \<longleftrightarrow> c \<in> set (pp_connectors p) \<and> px_connector_id c = cid"
proof -
  have "distinct (map px_connector_id (pp_connectors p))" using assms by (simp add: mapping_pack_ok_def)
  from find_distinct_key [OF this, of c] show ?thesis
    by (auto simp: pp_connector_def split: option.splits dest: find_SomeD)
qed

lemma px_metric_Inr:
  assumes "connector_mapping_ok c"
  shows "px_metric c mid = Inr m \<longleftrightarrow> m \<in> set (px_metrics c) \<and> pm_metric_id m = mid"
proof -
  have "distinct (map pm_metric_id (px_metrics c))"
    using assms by (simp add: connector_mapping_ok_def mapping_references_ok_def)
  from find_distinct_key [OF this, of m] show ?thesis
    by (auto simp: px_metric_def split: option.splits dest: find_SomeD)
qed

lemma metric_mapping_failures_Nil:
  assumes "mapping_pack_ok p"
  shows "metric_mapping_failures p m = [] \<longleftrightarrow> (ds_status (md_source m) = SRC_AVAILABLE \<longrightarrow> metric_mapped p m)"
proof (cases "pp_connector p (ds_connector_id (md_source m))")
  case (Inl e)
  then have "\<not> metric_mapped p m" using pp_connector_Inr [OF assms, of "ds_connector_id (md_source m)"]
    by (auto simp: metric_mapped_def)
  then show ?thesis using Inl by (simp add: metric_mapping_failures_def)
next
  case (Inr c)
  then have c: "c \<in> set (pp_connectors p)" "px_connector_id c = ds_connector_id (md_source m)"
    using pp_connector_Inr [OF assms] by auto
  have ok: "connector_mapping_ok c" and only: "\<And>c'. c' \<in> set (pp_connectors p) \<Longrightarrow> px_connector_id c' = px_connector_id c \<Longrightarrow> c' = c"
    using assms c(1) by (auto simp: mapping_pack_ok_def distinct_map inj_on_def)
  have mapped: "metric_mapped p m \<longleftrightarrow> (\<exists>pm. px_metric c (md_id m) = Inr pm \<and> pm_aggregation pm = md_aggregation m
      \<and> pm_allowed_dimensions pm = set (md_allowed_dimensions m))"
    unfolding metric_mapped_def px_metric_Inr [OF ok] using c only by metis
  show ?thesis
    unfolding mapped metric_mapping_failures_def using Inr by (cases "px_metric c (md_id m)") auto
qed

subsection \<open>A mapping for the witnesses\<close>

text \<open>The warehouse of \<open>resources/physical_mappings/telecom-demo.yaml\<close>, with two of its dimensions.\<close>

definition activations_mapping :: PhysicalMetricMapping where
  "activations_mapping = \<lparr>pm_metric_id = ''MOBILE_ACTIVATIONS'', pm_source_value = ''MOBILE_ACTIVATIONS'',
     pm_aggregation = AGG_SUM, pm_amount_column = Some ''amount'', pm_numerator_column = None,
     pm_denominator_column = None, pm_allowed_dimensions = {''STORE'', ''REGION''}\<rparr>"

definition churn_mapping :: PhysicalMetricMapping where
  "churn_mapping = \<lparr>pm_metric_id = ''POSTPAID_CHURN'', pm_source_value = ''POSTPAID_CHURN'',
     pm_aggregation = RATIO, pm_amount_column = None, pm_numerator_column = Some ''numerator'',
     pm_denominator_column = Some ''denominator'', pm_allowed_dimensions = {''REGION''}\<rparr>"

definition warehouse_mapping :: PhysicalConnectorMapping where
  "warehouse_mapping = \<lparr>px_connector_id = ''telecom_semantic_warehouse'', px_connector_type = ''POSTGRESQL'',
     px_schema_name = ''talk2data'', px_table_name = ''metric_facts'', px_secret_ref = ''env://T2D_POSTGRES_DSN'',
     px_fact_date_column = ''fact_date'', px_period_end_column = ''period_end'', px_metric_id_column = ''metric_id'',
     px_dimensions = [(''REGION'', ''region_id''), (''STORE'', ''store_id'')],
     px_scope_value_allowlists = [(''REGION'', {''NORTHEAST'', ''SOUTHEAST'', ''CENTRAL'', ''WEST''})],
     px_scope_value_mappings = [(''REGION'', [(''NORTH_AMERICA'', {''NORTHEAST'', ''SOUTHEAST'', ''CENTRAL'', ''WEST''}),
       (''WEST'', {''WEST''})])],
     px_metrics = [churn_mapping, activations_mapping], px_maximum_rows = 1000, px_query_timeout_seconds = 60,
     px_expected_refresh = ''Source-managed certified reporting periods''\<rparr>"

text \<open>The same file with the spelling its validators normalise.\<close>

definition untidy_mapping :: PhysicalConnectorMapping where
  "untidy_mapping = warehouse_mapping\<lparr>px_connector_type := '' postgresql'', px_table_name := ''metric_facts '',
     px_dimensions := [('' region'', '' region_id''), (''Store'', ''store_id'')],
     px_scope_value_allowlists := [(''region'', {''northeast'', ''SOUTHEAST'', '' '', ''CENTRAL'', '' West''})]\<rparr>"

lemma untidy_mapping_made: "make_connector_mapping untidy_mapping = Inr warehouse_mapping"
  by code_simp

lemma warehouse_mapping_ok: "connector_mapping_ok warehouse_mapping"
  using untidy_mapping_made by (rule make_connector_mapping_ok)

definition warehouse_pack :: TenantPhysicalMappingPack where
  "warehouse_pack = \<lparr>pp_tenant_id = ''demo-telecom'', pp_version = ''2026.08.2'', pp_status = ''APPROVED'',
     pp_effective_from = 0, pp_connectors = [warehouse_mapping]\<rparr>"

lemma warehouse_pack_made:
  "make_mapping_pack (warehouse_pack\<lparr>pp_status := '' approved'', pp_connectors := [untidy_mapping]\<rparr>) = Inr warehouse_pack"
  by code_simp

lemma warehouse_loaded:
  "load_mappings [Inr (warehouse_pack\<lparr>pp_status := '' approved'', pp_connectors := [untidy_mapping]\<rparr>)]
     = Inr [''demo-telecom'' \<mapsto> warehouse_pack]"
  unfolding load_mappings_def by (simp add: warehouse_pack_made) (simp add: warehouse_pack_def)

lemma warehouse_pack_ok: "mapping_pack_ok warehouse_pack"
  using warehouse_pack_made by (rule make_mapping_pack_ok)

subsection \<open>Properties\<close>

text \<open>C37: An accepted mapping names only simple SQL identifiers (schema, table and every column it
  can place in a query), refers to its secret by the name of an environment variable, keeps its metrics'
  dimensions and its scope rules within the mapped dimensions and its scope expansions within the
  allowlists; and validating it again, as the connector does, changes nothing.\<close>

theorem accepted_mapping_is_sound:
  assumes "make_connector_mapping c = Inr c'"
  shows "connector_mapping_ok c' \<and> make_connector_mapping c' = Inr c'
    \<and> (\<exists>cols. required_columns c' = Inr cols \<and> (\<forall>col\<in>cols. is_identifier col))"
proof -
  have ok: "connector_mapping_ok c'" using assms by (rule make_connector_mapping_ok)
  then have known: "\<forall>m\<in>set (px_metrics c'). pm_allowed_dimensions m \<subseteq> dict_keys (px_dimensions c')"
    and cols: "\<forall>col\<in>set (map snd (px_dimensions c')). is_identifier col"
    and ms: "\<forall>m\<in>set (px_metrics c'). \<forall>col\<in>metric_columns m. is_identifier col"
    by (simp_all add: connector_mapping_ok_def mapping_references_ok_def metric_mapping_ok_def)
  have "is_identifier col" if "m \<in> set (px_metrics c')" "col \<in> metric_dimension_columns c' m" for m col
  proof -
    from that known obtain d v where "map_of (px_dimensions c') d = Some v" "col = v"
      unfolding metric_dimension_columns_def by (force simp: dict_keys_map_of dest: subsetD)
    with cols show ?thesis by (force dest: map_of_SomeD)
  qed
  with ok known ms make_connector_mapping_id [OF ok] show ?thesis
    by (auto simp: required_columns_def connector_mapping_ok_def)
qed

theorem accepted_mapping_is_sound_witness:
  "connector_mapping_ok warehouse_mapping \<and> make_connector_mapping warehouse_mapping = Inr warehouse_mapping"
  using accepted_mapping_is_sound [OF untidy_mapping_made] by blast

text \<open>The scope a caller's access values resolve to never leaves the approved allowlist of the dimension;
  for a mapped dimension and a scope that is not blank it is refused exactly when some value is neither
  mapped nor allowed, and is otherwise the union of the approved expansions.\<close>

theorem resolved_scope_is_approved:
  assumes "connector_mapping_ok c"
  shows "(resolve_scope_values c d vs = Inr S \<longrightarrow> S \<subseteq> dict_get (px_scope_value_allowlists c) (py_upper (py_strip d)) {})
    \<and> (py_upper (py_strip d) \<in> dict_keys (px_dimensions c) \<longrightarrow> normalize_set_values vs \<noteq> {} \<longrightarrow>
        (is_ok (resolve_scope_values c d vs) \<longleftrightarrow>
          normalize_set_values vs \<subseteq> dict_keys (dict_get (px_scope_value_mappings c) (py_upper (py_strip d)) [])
            \<union> dict_get (px_scope_value_allowlists c) (py_upper (py_strip d)) {}))"
  using resolve_scope_values_within [OF assms] resolve_scope_values_Inr [OF refl, of d c vs]
  by (auto simp: is_ok_iff)

theorem resolved_scope_is_approved_witness:
  "{''NORTHEAST'', ''SOUTHEAST'', ''CENTRAL'', ''WEST''} \<subseteq> dict_get (px_scope_value_allowlists warehouse_mapping) (py_upper (py_strip ''region'')) {}"
proof -
  have "resolve_scope_values warehouse_mapping ''region'' {'' north_america ''} = Inr {''NORTHEAST'', ''SOUTHEAST'', ''CENTRAL'', ''WEST''}"
    by code_simp
  then show ?thesis using resolved_scope_is_approved [OF warehouse_mapping_ok] by blast
qed

text \<open>Loading registers, per tenant, one approved pack whose metrics have one owner each; a domain pack
  passes the cross-check against it exactly when every metric with an available source is mapped by the
  connector it names, with the same aggregation and the same dimensions.\<close>

theorem domain_pack_is_mapped:
  assumes "load_mappings raws = Inr packs"
  shows "mapping_registry_ok packs \<and> (validate_domain_pack packs dp = Inr [] \<longleftrightarrow>
    (\<exists>p. packs (pk_tenant_id dp) = Some p
       \<and> (\<forall>m\<in>set (pk_metrics dp). ds_status (md_source m) = SRC_AVAILABLE \<longrightarrow> metric_mapped p m)))"
proof -
  have reg: "mapping_registry_ok packs" using assms by (rule load_mappings_ok)
  have "validate_domain_pack packs dp = Inr [] \<longleftrightarrow>
      (\<exists>p. packs (pk_tenant_id dp) = Some p \<and> (\<forall>m\<in>set (pk_metrics dp). metric_mapping_failures p m = []))"
    by (auto simp: validate_domain_pack_def mapping_get_def split: option.splits)
  moreover have "mapping_pack_ok p" if "packs (pk_tenant_id dp) = Some p" for p
    using reg that by (simp add: mapping_registry_ok_def)
  ultimately show ?thesis using reg metric_mapping_failures_Nil by blast
qed

theorem domain_pack_is_mapped_witness:
  "mapping_registry_ok [''demo-telecom'' \<mapsto> warehouse_pack] \<and> metric_mapped warehouse_pack churn"
proof -
  have "validate_domain_pack [''demo-telecom'' \<mapsto> warehouse_pack] demo_pack = Inr []"
  proof -
    have "concat (map (metric_mapping_failures warehouse_pack) (pk_metrics demo_pack)) = []" by code_simp
    then show ?thesis by (simp add: validate_domain_pack_def mapping_get_def)
  qed
  with domain_pack_is_mapped [OF warehouse_loaded, of demo_pack] show ?thesis by (simp add: demo_pack_def churn_def warehouse_def)
qed

end
