(* ===== verification/Canonical.thy ===== *)
theory Canonical
  imports PhysicalMapping
begin

section \<open>Canonical: the canonical text of a mapping and the digest that pins it\<close>

text \<open>
  \<open>_canonicalize\<close>, \<open>json.dumps(sort_keys=True, separators=(",", ":"))\<close> and
  \<open>physical_connector_hash\<close> of \<open>domain/physical_mapping.py\<close>.  The digest of the text is a parameter.
  The text determines the value it was printed from, so an injective digest pins the mapping.
\<close>

datatype pyobj = ONone | OStr string | OInt int | OList "pyobj list" | OSet "pyobj list" | ODict "(string \<times> pyobj) list"

datatype json = JNull | JStr string | JInt int | JList "json list" | JDict "(string \<times> json) list"

subsection \<open>Text\<close>

text \<open>\<open>json.dumps\<close> of a character under \<open>ensure_ascii\<close>.\<close>

definition json_char :: "char \<Rightarrow> string" where
  "json_char c = (let n = (of_char c :: nat) in
     if n = 34 \<or> n = 92 then [CHR 0x5C, c]
     else if n = 10 then [CHR 0x5C, CHR ''n''] else if n = 13 then [CHR 0x5C, CHR ''r'']
     else if n = 9 then [CHR 0x5C, CHR ''t''] else if n = 8 then [CHR 0x5C, CHR ''b'']
     else if n = 12 then [CHR 0x5C, CHR ''f'']
     else if 32 \<le> n \<and> n \<le> 126 then [c]
     else [CHR 0x5C, CHR ''u'', CHR ''0'', CHR ''0'', hex_digit (n div 16), hex_digit (n mod 16)])"

definition json_string :: "string \<Rightarrow> string" where
  "json_string s = [CHR 0x22] @ concat (map json_char s) @ [CHR 0x22]"

definition json_member :: "string \<times> string \<Rightarrow> string" where
  "json_member m = json_string (fst m) @ '':'' @ snd m"

primrec json_text :: "json \<Rightarrow> string" where
  "json_text JNull = ''null''"
| "json_text (JStr s) = json_string s"
| "json_text (JInt n) = int_str n"
| "json_text (JList xs) = ''['' @ py_join '','' (map json_text xs) @ '']''"
| "json_text (JDict kvs) =
     ''{'' @ py_join '','' (map json_member (sort_key fst (map (map_prod id json_text) kvs))) @ ''}''"

primrec canonicalize :: "pyobj \<Rightarrow> json" where
  "canonicalize ONone = JNull"
| "canonicalize (OStr s) = JStr s"
| "canonicalize (OInt n) = JInt n"
| "canonicalize (OList xs) = JList (map canonicalize xs)"
| "canonicalize (OSet xs) = JList (sort_key json_text (map canonicalize xs))"
| "canonicalize (ODict kvs) = JDict (sort_key fst (map (map_prod id canonicalize) kvs))"

subsection \<open>Mappings as objects\<close>

text \<open>\<open>model_dump(mode="python")\<close>: the fields in the order of their declaration; an \<open>Enum\<close> is its value,
  the elements of a set come in any order, here sorted.\<close>

fun aggregation_value :: "MetricAggregation \<Rightarrow> string" where
  "aggregation_value AGG_SUM = ''SUM''"
| "aggregation_value AGG_COUNT = ''COUNT''"
| "aggregation_value DISTINCT_COUNT = ''DISTINCT_COUNT''"
| "aggregation_value AVERAGE = ''AVERAGE''"
| "aggregation_value RATIO = ''RATIO''"
| "aggregation_value LAST_VALUE = ''LAST_VALUE''"

definition optional_text :: "string option \<Rightarrow> pyobj" where
  "optional_text v = (case v of None \<Rightarrow> ONone | Some s \<Rightarrow> OStr s)"

definition set_object :: "string set \<Rightarrow> pyobj" where
  "set_object S = OSet (map OStr (py_sorted S))"

definition dict_object :: "('a \<Rightarrow> pyobj) \<Rightarrow> (string \<times> 'a) list \<Rightarrow> pyobj" where
  "dict_object f d = ODict (map (map_prod id f) d)"

definition metric_object :: "PhysicalMetricMapping \<Rightarrow> pyobj" where
  "metric_object m = ODict
     [(''metric_id'', OStr (pm_metric_id m)), (''source_value'', OStr (pm_source_value m)),
      (''aggregation'', OStr (aggregation_value (pm_aggregation m))),
      (''amount_column'', optional_text (pm_amount_column m)),
      (''numerator_column'', optional_text (pm_numerator_column m)),
      (''denominator_column'', optional_text (pm_denominator_column m)),
      (''allowed_dimensions'', set_object (pm_allowed_dimensions m))]"

definition connector_object :: "PhysicalConnectorMapping \<Rightarrow> pyobj" where
  "connector_object c = ODict
     [(''connector_id'', OStr (px_connector_id c)), (''connector_type'', OStr (px_connector_type c)),
      (''schema_name'', OStr (px_schema_name c)), (''table_name'', OStr (px_table_name c)),
      (''secret_ref'', OStr (px_secret_ref c)), (''fact_date_column'', OStr (px_fact_date_column c)),
      (''period_end_column'', OStr (px_period_end_column c)), (''metric_id_column'', OStr (px_metric_id_column c)),
      (''dimensions'', dict_object OStr (px_dimensions c)),
      (''scope_value_allowlists'', dict_object set_object (px_scope_value_allowlists c)),
      (''scope_value_mappings'', dict_object (dict_object set_object) (px_scope_value_mappings c)),
      (''metrics'', OList (map metric_object (px_metrics c))), (''maximum_rows'', OInt (px_maximum_rows c)),
      (''query_timeout_seconds'', OInt (px_query_timeout_seconds c)),
      (''expected_refresh'', OStr (px_expected_refresh c))]"

definition physical_connector_hash :: "(string \<Rightarrow> string) \<Rightarrow> string \<Rightarrow> string \<Rightarrow> PhysicalConnectorMapping \<Rightarrow> string" where
  "physical_connector_hash digest tenant_id version c =
     digest (json_text (canonicalize (ODict
       [(''tenant_id'', OStr tenant_id), (''version'', OStr version), (''connector'', connector_object c)])))"

definition connector_hash :: "(string \<Rightarrow> string) \<Rightarrow> TenantPhysicalMappingPack \<Rightarrow> string \<Rightarrow> mapping_error + string" where
  "connector_hash digest p cid =
     (case pp_connector p cid of Inl e \<Rightarrow> Inl e
      | Inr c \<Rightarrow> Inr (physical_connector_hash digest (pp_tenant_id p) (pp_version p) c))"

text \<open>\<open>canonical_hash\<close> of a pack; the text of its effective date (\<open>isoformat\<close>) is a parameter.\<close>

definition pack_canonical_hash :: "(instant \<Rightarrow> string) \<Rightarrow> (string \<Rightarrow> string) \<Rightarrow> TenantPhysicalMappingPack \<Rightarrow> string" where
  "pack_canonical_hash date_text digest p = digest (json_text (canonicalize (ODict
     [(''tenant_id'', OStr (pp_tenant_id p)), (''version'', OStr (pp_version p)), (''status'', OStr (pp_status p)),
      (''effective_from'', OStr (date_text (pp_effective_from p))),
      (''connectors'', OList (map connector_object (pp_connectors p)))])))"

definition public_view :: "PhysicalConnectorMapping \<Rightarrow> (string \<times> json) list" where
  "public_view c =
     [(''connector_id'', JStr (px_connector_id c)), (''connector_type'', JStr (px_connector_type c)),
      (''schema_name'', JStr (px_schema_name c)), (''table_name'', JStr (px_table_name c)),
      (''fact_date_column'', JStr (px_fact_date_column c)), (''period_end_column'', JStr (px_period_end_column c)),
      (''metric_id_column'', JStr (px_metric_id_column c)),
      (''dimensions'', canonicalize (dict_object OStr (px_dimensions c))),
      (''scope_value_allowlists'', canonicalize (dict_object set_object (px_scope_value_allowlists c))),
      (''scope_value_mappings'', canonicalize (dict_object (dict_object set_object) (px_scope_value_mappings c))),
      (''metrics'', JList (map (canonicalize \<circ> metric_object) (px_metrics c))), (''maximum_rows'', JInt (px_maximum_rows c)),
      (''query_timeout_seconds'', JInt (px_query_timeout_seconds c)),
      (''expected_refresh'', JStr (px_expected_refresh c)),
      (''secret_provider'', JStr (before_sep ''://'' (px_secret_ref c)))]"

subsection \<open>The text can be read back\<close>

lemma of_char_less [simp]: "(of_char c :: nat) < 256"
  by (metis of_char_mod_256 mod_less_divisor zero_less_numeral)

lemma hex_digit_inj: "m < 16 \<Longrightarrow> n < 16 \<Longrightarrow> hex_digit m = hex_digit n \<Longrightarrow> m = n"
proof -
  assume a: "m < 16" "n < 16" "hex_digit m = hex_digit n"
  have h: "(of_char (hex_digit k) :: nat) = (if k < 10 then 48 + k else 87 + k)" if "k < 16" for k
    using that by (simp add: hex_digit_def)
  from a(3) have "(of_char (hex_digit m) :: nat) = of_char (hex_digit n)" by simp
  then show "m = n" using a(1,2) by (simp add: h split: if_splits)
qed

lemma json_char_first: "json_char c = d # s \<Longrightarrow> d = CHR 0x5C \<or> d = c \<and> s = []"
  by (auto simp: json_char_def Let_def split: if_splits)

lemma json_char_nonempty: "json_char c \<noteq> []"
  by (simp add: json_char_def Let_def)

lemma of_char_inj: "(of_char c :: nat) = of_char d \<longleftrightarrow> c = d"
  by (metis char_of_char)

lemma json_char_quote: "hd (json_char c) \<noteq> CHR 0x22"
  by (auto simp: json_char_def Let_def)

text \<open>Reading one character back.\<close>

definition hex_value :: "char \<Rightarrow> nat" where
  "hex_value c = (let n = (of_char c :: nat) in if n < 58 then n - 48 else n - 87)"

definition json_unchar :: "string \<Rightarrow> char \<times> string" where
  "json_unchar s = (if hd s \<noteq> CHR 0x5C then (hd s, tl s)
     else if s ! 1 = CHR ''n'' then (char_of (10 :: nat), drop 2 s) else if s ! 1 = CHR ''r'' then (char_of (13 :: nat), drop 2 s)
     else if s ! 1 = CHR ''t'' then (char_of (9 :: nat), drop 2 s) else if s ! 1 = CHR ''b'' then (char_of (8 :: nat), drop 2 s)
     else if s ! 1 = CHR ''f'' then (char_of (12 :: nat), drop 2 s)
     else if s ! 1 = CHR ''u'' then (char_of (16 * hex_value (s ! 4) + hex_value (s ! 5)), drop 6 s)
     else (s ! 1, drop 2 s))"

lemma hex_value_digit [simp]: "k < 16 \<Longrightarrow> hex_value (hex_digit k) = k"
  by (simp add: hex_value_def hex_digit_def)

lemma char_of_number: "(of_char c :: nat) = n \<Longrightarrow> char_of n = c"
  by (metis char_of_char)

lemma json_unchar_char: "json_unchar (json_char c @ u) = (c, u)"
proof -
  let ?n = "of_char c :: nat"
  have bs: "(of_char (CHR 0x5C) :: nat) = 92" by simp
  consider "?n = 34 \<or> ?n = 92" | "?n \<in> {8, 9, 10, 12, 13}"
    | "?n \<notin> {34, 92, 8, 9, 10, 12, 13}" "32 \<le> ?n" "?n \<le> 126"
    | "?n \<notin> {34, 92, 8, 9, 10, 12, 13}" "\<not> (32 \<le> ?n \<and> ?n \<le> 126)" by blast
  then show ?thesis
  proof cases
    case 1
    then have "c = char_of (34 :: nat) \<or> c = char_of (92 :: nat)" by (metis char_of_number)
    then show ?thesis by (auto simp: json_char_def json_unchar_def)
  next
    case 2
    then have "c \<in> char_of ` {8, 9, 10, 12, 13 :: nat}" by (metis char_of_char imageI)
    then show ?thesis by (auto simp: json_char_def json_unchar_def)
  next
    case 3
    then have "c \<noteq> CHR 0x5C" using bs by auto
    then show ?thesis using 3 by (simp add: json_char_def json_unchar_def Let_def)
  next
    case 4
    have m: "?n div 16 < 16" "?n mod 16 < 16" by (simp_all add: less_mult_imp_div_less)
    have "16 * (?n div 16) + ?n mod 16 = ?n" by simp
    moreover have "json_char c = [CHR 0x5C, CHR ''u'', CHR ''0'', CHR ''0'', hex_digit (?n div 16), hex_digit (?n mod 16)]"
      using 4 unfolding json_char_def Let_def by auto
    ultimately show ?thesis using m by (simp add: json_unchar_def)
  qed
qed

lemma json_char_unique: "json_char c @ u = json_char d @ v \<Longrightarrow> c = d \<and> u = v"
  by (metis json_unchar_char prod.inject)

lemma json_chars_unique:
  "concat (map json_char s) @ CHR 0x22 # u = concat (map json_char t) @ CHR 0x22 # v \<Longrightarrow> s = t \<and> u = v"
proof (induction s arbitrary: t)
  case Nil
  then show ?case
  proof (cases t)
    case (Cons d t')
    with Nil have "hd (json_char d) = CHR 0x22" using json_char_nonempty [of d] by (cases "json_char d") auto
    then show ?thesis using json_char_quote by simp
  qed simp
next
  case (Cons c s)
  show ?case
  proof (cases t)
    case Nil
    with Cons.prems have "hd (json_char c) = CHR 0x22" using json_char_nonempty [of c] by (cases "json_char c") auto
    then show ?thesis using json_char_quote by simp
  next
    case (Cons d t')
    with Cons.prems json_char_unique [of c _ d] have "c = d"
      and r: "concat (map json_char s) @ CHR 0x22 # u = concat (map json_char t') @ CHR 0x22 # v" by auto
    with Cons.IH [OF r] Cons show ?thesis by simp
  qed
qed

lemma json_string_unique: "json_string s @ u = json_string t @ v \<Longrightarrow> s = t \<and> u = v"
  using json_chars_unique [of s u t v] by (simp add: json_string_def)

text \<open>The text of a number stops at the first character that is not a digit.\<close>

lemma nat_str_digits: "0 \<le> n \<Longrightarrow> nat_str n \<noteq> [] \<and> (\<forall>c\<in>set (nat_str n). is_digit c)"
proof (induction n rule: nat_str.induct)
  case (1 n)
  have d: "is_digit (char_of (nat (48 + k)))" if "0 \<le> k" "k < 10" for k :: int
  proof -
    have "k \<in> {0, 1, 2, 3, 4, 5, 6, 7, 8, 9}" using that by simp presburger
    then show ?thesis by (auto simp: is_digit_def)
  qed
  show ?case
  proof (cases "n < 10")
    case True
    with 1 d show ?thesis by (simp add: nat_str.simps [of n])
  next
    case False
    then have "nat_str n = nat_str (n div 10) @ [char_of (nat (48 + n mod 10))]" by (simp add: nat_str.simps [of n])
    with False 1 d [of "n mod 10"] show ?thesis by simp
  qed
qed

definition digits_int :: "string \<Rightarrow> int" where
  "digits_int s = foldl (\<lambda>a c. 10 * a + (int (of_char c) - 48)) 0 s"

lemma digits_int_nat_str: "0 \<le> n \<Longrightarrow> digits_int (nat_str n) = n"
proof (induction n rule: nat_str.induct)
  case (1 n)
  have d: "int (of_char (char_of (nat (48 + k)) :: char)) - 48 = k" if "0 \<le> k" "k < 10" for k :: int
  proof -
    have "k \<in> {0, 1, 2, 3, 4, 5, 6, 7, 8, 9}" using that by simp presburger
    then show ?thesis by auto
  qed
  show ?case
  proof (cases "n < 10")
    case True
    with 1 d [of n] show ?thesis by (simp add: nat_str.simps [of n] digits_int_def)
  next
    case False
    with 1 have "digits_int (nat_str (n div 10)) = n div 10" by simp
    moreover have "nat_str n = nat_str (n div 10) @ [char_of (nat (48 + n mod 10))]"
      using False by (simp add: nat_str.simps [of n])
    ultimately show ?thesis using d [of "n mod 10"] by (simp add: digits_int_def)
  qed
qed

lemma nat_str_inj: "0 \<le> m \<Longrightarrow> 0 \<le> n \<Longrightarrow> nat_str m = nat_str n \<Longrightarrow> m = n"
  by (metis digits_int_nat_str)

definition ends_value :: "string \<Rightarrow> bool" where
  "ends_value u \<longleftrightarrow> u = [] \<or> hd u \<in> {CHR '','', CHR '']'', CHR ''}''}"

lemma ends_value_no_digit: "ends_value u \<Longrightarrow> u = [] \<or> \<not> is_digit (hd u)"
  by (auto simp: ends_value_def is_digit_def)

lemma digits_unique:
  assumes "\<forall>c\<in>set s. is_digit c" "\<forall>c\<in>set t. is_digit c" "s @ u = t @ v" "ends_value u" "ends_value v"
  shows "s = t \<and> u = v"
proof -
  have take: "takeWhile is_digit (w @ x) = w" if "\<forall>c\<in>set w. is_digit c" "ends_value x" for w x
    using that ends_value_no_digit [OF that(2)] by (cases x) (simp_all add: takeWhile_append)
  have "s = t" using take [OF assms(1,4)] take [OF assms(2,5)] assms(3) by metis
  with assms(3) show ?thesis by simp
qed

lemma int_str_unique: "int_str m @ u = int_str n @ v \<Longrightarrow> ends_value u \<Longrightarrow> ends_value v \<Longrightarrow> m = n \<and> u = v"
proof -
  assume a: "int_str m @ u = int_str n @ v" and e: "ends_value u" "ends_value v"
  have minus: "\<not> is_digit (CHR ''-'')" by (simp add: is_digit_def)
  have first: "hd (nat_str k @ w) \<noteq> CHR ''-''" if "0 \<le> k" for k w
    using nat_str_digits [OF that] minus by (cases "nat_str k") auto
  have minus_first: "hd (int_str k @ w) = CHR ''-'' \<longleftrightarrow> k < 0" for k w
    using first [of k w] by (cases "k < 0") (simp_all add: int_str_def)
  then have sign: "m < 0 \<longleftrightarrow> n < 0" using a by metis
  show ?thesis
  proof (cases "m < 0")
    case True
    then have "n < 0" using sign by simp
    with True a have "nat_str (- m) @ u = nat_str (- n) @ v" by (simp add: int_str_def)
    with digits_unique [OF _ _ this e] nat_str_digits [of "- m"] nat_str_digits [of "- n"] nat_str_inj [of "- m" "- n"]
      True \<open>n < 0\<close> show ?thesis by simp
  next
    case False
    then have "\<not> n < 0" using sign by simp
    with False a have "nat_str m @ u = nat_str n @ v" by (simp add: int_str_def)
    with digits_unique [OF _ _ this e] nat_str_digits [of m] nat_str_digits [of n] nat_str_inj [of m n]
      False \<open>\<not> n < 0\<close> show ?thesis by simp
  qed
qed

text \<open>The first character of a value tells its kind.\<close>

definition json_first :: "json \<Rightarrow> char \<Rightarrow> bool" where
  "json_first a c \<longleftrightarrow> (case a of JNull \<Rightarrow> c = CHR ''n'' | JStr _ \<Rightarrow> c = CHR 0x22
     | JInt _ \<Rightarrow> is_digit c \<or> c = CHR ''-'' | JList _ \<Rightarrow> c = CHR ''['' | JDict _ \<Rightarrow> c = CHR ''{'')"

lemma json_text_first: "\<exists>c s. json_text a = c # s \<and> json_first a c"
proof (cases a)
  case (JInt n)
  then show ?thesis
    using nat_str_digits [of n] nat_str_digits [of "- n"]
    by (cases "n < 0"; cases "nat_str n") (auto simp: json_first_def int_str_def)
qed (simp_all add: json_first_def json_string_def)

lemma join_unique:
  assumes "\<And>x y u v. x \<in> set xs \<Longrightarrow> y \<in> set ys \<Longrightarrow> ends_value u \<Longrightarrow> ends_value v \<Longrightarrow> f x @ u = f y @ v \<Longrightarrow> x = y \<and> u = v"
    and "\<And>x. f x \<noteq> [] \<and> \<not> ends_value (f x)" and "close \<in> {CHR '']'', CHR ''}''}"
    and "py_join '','' (map f xs) @ close # u = py_join '','' (map f ys) @ close # v"
  shows "xs = ys \<and> u = v"
  using assms(1,4)
proof (induction xs arbitrary: ys)
  case Nil
  show ?case
  proof (cases ys)
    case (Cons y ys')
    have "hd (py_join '','' (map f ys)) = hd (f y)" and "f y \<noteq> []"
      using assms(2) [of y] by (cases ys'; simp add: Cons)+
    then have "hd (f y) = close" using Nil.prems(2) Cons by (cases "f y") (cases ys'; auto)+
    then show ?thesis using assms(2) [of y] assms(3) by (auto simp: ends_value_def)
  qed (use Nil in simp)
next
  case (Cons x xs)
  define tail where "tail zs w = (case zs of [] \<Rightarrow> close # w | _ \<Rightarrow> CHR '','' # py_join '','' (map f zs) @ close # w)" for zs w
  have split: "py_join '','' (map f (z # zs)) @ close # w = f z @ tail zs w" for z zs w
    by (cases zs) (simp_all add: tail_def)
  have ends: "ends_value (tail zs w)" for zs w using assms(3) by (auto simp: tail_def ends_value_def split: list.splits)
  show ?case
  proof (cases ys)
    case Nil
    have "hd (f x @ tail xs u) = close" using Cons.prems(2) unfolding split Nil by simp
    then show ?thesis using assms(2) [of x] assms(3) by (auto simp: ends_value_def)
  next
    case ys: (Cons y ys')
    from Cons.prems(2) have "f x @ tail xs u = f y @ tail ys' v" unfolding ys split .
    then have "x = y \<and> tail xs u = tail ys' v" by (intro Cons.prems(1) ends) (simp_all add: ys)
    then have "x = y" and t: "tail xs u = tail ys' v" by simp_all
    have "xs = ys' \<and> u = v"
    proof (cases "xs = [] \<or> ys' = []")
      case True
      then show ?thesis using t assms(3) by (cases xs; cases ys') (auto simp: tail_def)
    next
      case False
      then have "py_join '','' (map f xs) @ close # u = py_join '','' (map f ys') @ close # v"
        using t by (cases xs; cases ys') (simp_all add: tail_def)
      from Cons.IH [OF _ this] Cons.prems(1) ys show ?thesis by auto
    qed
    with \<open>x = y\<close> ys show ?thesis by simp
  qed
qed

primrec json_sorted :: "json \<Rightarrow> bool" where
  "json_sorted JNull = True"
| "json_sorted (JStr s) = True"
| "json_sorted (JInt n) = True"
| "json_sorted (JList xs) = list_all (\<lambda>b. b) (map json_sorted xs)"
| "json_sorted (JDict kvs) = (sorted (map fst kvs) \<and> list_all snd (map (map_prod id json_sorted) kvs))"

lemma canonicalize_sorted: "json_sorted (canonicalize x)"
proof (induction x)
  case (ODict kvs)
  then show ?case by (fastforce simp: list_all_iff)
qed (auto simp: list_all_iff)

lemma json_same_first:
  assumes "json_text a @ u = json_text b @ v"
  shows "\<exists>c. json_first a c \<and> json_first b c"
proof -
  from json_text_first [of a] json_text_first [of b] obtain c s d t where
    "json_text a = c # s" "json_first a c" "json_text b = d # t" "json_first b d" by blast
  with assms show ?thesis by auto
qed

lemma json_text_ends: "json_text a \<noteq> [] \<and> \<not> ends_value (json_text a)"
  using json_text_first [of a] by (cases a) (auto simp: json_first_def ends_value_def is_digit_def)

lemma json_member_ends: "json_member m \<noteq> [] \<and> \<not> ends_value (json_member m)"
  by (simp add: json_member_def json_string_def ends_value_def)

text \<open>Values with sorted keys and the same text are equal, whatever follows them.\<close>

lemma json_text_unique:
  "json_text a @ u = json_text b @ v \<Longrightarrow> json_sorted a \<Longrightarrow> json_sorted b \<Longrightarrow> ends_value u \<Longrightarrow> ends_value v \<Longrightarrow>
    a = b \<and> u = v"
proof (induction a arbitrary: b u v)
  case JNull
  then show ?case using json_text_first [of b] by (cases b) (auto simp: json_first_def is_digit_def)
next
  case (JStr s)
  then obtain t where b: "b = JStr t"
    using json_text_first [of b] by (cases b) (auto simp: json_first_def is_digit_def json_string_def)
  with JStr.prems(1) json_string_unique [of s u t v] show ?case by simp
next
  case (JInt n)
  then obtain m where b: "b = JInt m"
    using json_same_first [OF JInt.prems(1)] by (cases b) (auto simp: json_first_def is_digit_def)
  with JInt.prems int_str_unique [of n u m v] show ?case by simp
next
  case (JList xs)
  then obtain ys where b: "b = JList ys"
    using json_text_first [of b] by (cases b) (auto simp: json_first_def is_digit_def)
  have "xs = ys \<and> u = v"
  proof (rule join_unique [of xs ys json_text])
    show "x = y \<and> u' = v'" if "x \<in> set xs" "y \<in> set ys" "ends_value u'" "ends_value v'" "json_text x @ u' = json_text y @ v'"
      for x y u' v'
      using JList.IH [OF that(1,5) _ _ that(3,4)] JList.prems(2,3) that(1,2) b by (auto simp: list_all_iff)
    show "py_join '','' (map json_text xs) @ CHR '']'' # u = py_join '','' (map json_text ys) @ CHR '']'' # v"
      using JList.prems(1) b by simp
  qed (simp_all add: json_text_ends)
  with b show ?case by simp
next
  case (JDict kvs)
  then obtain ls where b: "b = JDict ls"
    using json_text_first [of b] by (cases b) (auto simp: json_first_def is_digit_def)
  let ?f = "\<lambda>e. json_member (map_prod id json_text e)"
  have keep: "sort_key fst (map (map_prod id json_text) d) = map (map_prod id json_text) d" if "sorted (map fst d)"
    for d :: "(string \<times> json) list"
    by (rule sort_key_id_if_sorted) (use that in \<open>simp add: comp_def\<close>)
  have "kvs = ls \<and> u = v"
  proof (rule join_unique [of kvs ls ?f])
    show "x = y \<and> u' = v'" if "x \<in> set kvs" "y \<in> set ls" "ends_value u'" "ends_value v'" "?f x @ u' = ?f y @ v'"
      for x y u' v'
    proof -
      have "json_string (fst x) @ '':'' @ json_text (snd x) @ u' = json_string (fst y) @ '':'' @ json_text (snd y) @ v'"
        using that(5) by (simp add: json_member_def)
      from json_string_unique [OF this] have k: "fst x = fst y" and t: "json_text (snd x) @ u' = json_text (snd y) @ v'"
        by simp_all
      have "json_sorted (snd x)" "json_sorted (snd y)"
        using JDict.prems(2,3) that(1,2) b by (auto simp: list_all_iff)
      with JDict.IH [OF that(1) _ t _ _ that(3,4)] have "snd x = snd y \<and> u' = v'" by (simp add: snds.intros)
      with k show ?thesis by (simp add: prod_eq_iff)
    qed
    show "py_join '','' (map ?f kvs) @ CHR ''}'' # u = py_join '','' (map ?f ls) @ CHR ''}'' # v"
      using JDict.prems(1-3) b keep [of kvs] keep [of ls] by (simp add: comp_def)
  qed (simp_all add: json_member_ends)
  with b show ?case by simp
qed

lemma json_text_inj: "json_sorted a \<Longrightarrow> json_sorted b \<Longrightarrow> json_text a = json_text b \<Longrightarrow> a = b"
  using json_text_unique [of a "[]" b "[]"] by (simp add: ends_value_def)

subsection \<open>Equal texts, equal mappings\<close>

lemma canonical_objects: "json_text (canonicalize x) = json_text (canonicalize y) \<longleftrightarrow> canonicalize x = canonicalize y"
  using json_text_inj [OF canonicalize_sorted canonicalize_sorted] by auto

lemma canonical_set:
  assumes "finite S" "finite T"
  shows "canonicalize (set_object S) = canonicalize (set_object T) \<longleftrightarrow> S = T"
proof
  assume "canonicalize (set_object S) = canonicalize (set_object T)"
  then have "set (sort_key json_text (map JStr (py_sorted S))) = set (sort_key json_text (map JStr (py_sorted T)))"
    by (simp add: set_object_def comp_def)
  then have "JStr ` S = JStr ` T" using assms by simp
  then show "S = T" by (simp add: inj_image_eq_iff inj_def)
qed simp

text \<open>The entries of a dictionary with distinct keys, in the order of the keys.\<close>

lemma sorted_entries:
  assumes "distinct (map fst d)"
  shows "sort_key fst d = map (\<lambda>k. (k, the (map_of d k))) (sorted_list_of_set (dict_keys d))"
proof -
  have "sorted (map fst (sort_key fst d))" "distinct (map fst (sort_key fst d))"
    using assms by (simp_all add: distinct_map inj_on_def)
  moreover have "set (map fst (sort_key fst d)) = dict_keys d" by (simp add: dict_keys_def)
  ultimately have keys: "map fst (sort_key fst d) = sorted_list_of_set (dict_keys d)"
    by (metis List.finite_set sorted_list_of_set.idem_if_sorted_distinct)
  have e: "(fst e, the (map_of d (fst e))) = e" if "e \<in> set d" for e
    using map_of_is_SomeI [OF assms, of "fst e" "snd e"] that by (simp add: prod_eq_iff)
  have "sort_key fst d = map (\<lambda>e. (fst e, the (map_of d (fst e)))) (sort_key fst d)"
    by (rule map_idI [symmetric]) (rule e, simp)
  also have "\<dots> = map (\<lambda>k. (k, the (map_of d k))) (map fst (sort_key fst d))" by (simp add: comp_def)
  finally show ?thesis using keys by simp
qed

lemma sorted_entries_eq:
  assumes "distinct (map fst d)" "distinct (map fst e)"
  shows "sort_key fst d = sort_key fst e \<longleftrightarrow> map_of d = map_of e"
proof
  assume "sort_key fst d = sort_key fst e"
  then have "set d = set e" by (metis set_sort)
  then show "map_of d = map_of e" using assms map_of_inject_set by blast
next
  assume m: "map_of d = map_of e"
  then have "dict_keys d = dict_keys e" by (metis dict_keys_map_of set_eqI)
  with m show "sort_key fst d = sort_key fst e" by (simp add: sorted_entries assms)
qed

lemma canonical_dict:
  assumes "distinct (map fst d)" "distinct (map fst e)"
  shows "canonicalize (dict_object f d) = canonicalize (dict_object f e) \<longleftrightarrow>
    (\<forall>k. map_option (canonicalize \<circ> f) (map_of d k) = map_option (canonicalize \<circ> f) (map_of e k))"
proof -
  have m: "map_of (map (map_prod id g) x) = (\<lambda>k. map_option g (map_of x k))" for g :: "'a \<Rightarrow> json" and x :: "(string \<times> 'a) list"
    by (induction x) (auto simp: fun_eq_iff)
  have k: "distinct (map fst (map (map_prod id g) x)) = distinct (map fst x)" for g :: "'a \<Rightarrow> json" and x :: "(string \<times> 'a) list"
    by (simp add: comp_def)
  have c: "canonicalize (dict_object f x) = JDict (sort_key fst (map (map_prod id (canonicalize \<circ> f)) x))" for x
    by (simp add: dict_object_def comp_def map_prod_def case_prod_unfold)
  show ?thesis unfolding c json.inject
    by (subst sorted_entries_eq) (simp_all only: k m assms fun_eq_iff)
qed

definition finite_sets :: "(string \<times> string set) list \<Rightarrow> bool" where
  "finite_sets d \<longleftrightarrow> (\<forall>S\<in>set (map snd d). finite S)"

text \<open>A Python set is finite.\<close>

definition finite_mapping :: "PhysicalConnectorMapping \<Rightarrow> bool" where
  "finite_mapping c \<longleftrightarrow> finite_sets (px_scope_value_allowlists c)
     \<and> (\<forall>d\<in>set (map snd (px_scope_value_mappings c)). finite_sets d)
     \<and> (\<forall>m\<in>set (px_metrics c). finite (pm_allowed_dimensions m))"

definition same_mapping :: "PhysicalConnectorMapping \<Rightarrow> PhysicalConnectorMapping \<Rightarrow> bool" where
  "same_mapping c c' \<longleftrightarrow>
     px_connector_id c = px_connector_id c' \<and> px_connector_type c = px_connector_type c'
     \<and> px_schema_name c = px_schema_name c' \<and> px_table_name c = px_table_name c' \<and> px_secret_ref c = px_secret_ref c'
     \<and> px_fact_date_column c = px_fact_date_column c' \<and> px_period_end_column c = px_period_end_column c'
     \<and> px_metric_id_column c = px_metric_id_column c' \<and> map_of (px_dimensions c) = map_of (px_dimensions c')
     \<and> map_of (px_scope_value_allowlists c) = map_of (px_scope_value_allowlists c')
     \<and> (\<forall>d. map_option map_of (map_of (px_scope_value_mappings c) d) = map_option map_of (map_of (px_scope_value_mappings c') d))
     \<and> px_metrics c = px_metrics c' \<and> px_maximum_rows c = px_maximum_rows c'
     \<and> px_query_timeout_seconds c = px_query_timeout_seconds c' \<and> px_expected_refresh c = px_expected_refresh c'"

lemma canonical_text_dict:
  "distinct (map fst d) \<Longrightarrow> distinct (map fst e) \<Longrightarrow>
    canonicalize (dict_object OStr d) = canonicalize (dict_object OStr e) \<longleftrightarrow> map_of d = map_of e"
proof -
  have "map_option (canonicalize \<circ> OStr) x = map_option (canonicalize \<circ> OStr) y \<longleftrightarrow> x = y" for x y
    by (cases x; cases y) simp_all
  then show "distinct (map fst d) \<Longrightarrow> distinct (map fst e) \<Longrightarrow> ?thesis" by (simp add: canonical_dict fun_eq_iff)
qed

lemma finite_sets_get: "finite_sets d \<Longrightarrow> map_of d k = Some S \<Longrightarrow> finite S"
  by (force simp: finite_sets_def dest: map_of_SomeD)

lemma canonical_sets:
  assumes "distinct (map fst d)" "distinct (map fst e)" "finite_sets d" "finite_sets e"
  shows "canonicalize (dict_object set_object d) = canonicalize (dict_object set_object e) \<longleftrightarrow> map_of d = map_of e"
proof -
  have "map_option (canonicalize \<circ> set_object) (map_of d k) = map_option (canonicalize \<circ> set_object) (map_of e k)
      \<longleftrightarrow> map_of d k = map_of e k" for k
    using finite_sets_get [OF assms(3), of k] finite_sets_get [OF assms(4), of k]
    by (cases "map_of d k"; cases "map_of e k") (simp_all add: canonical_set)
  then show ?thesis by (simp add: canonical_dict assms(1,2) fun_eq_iff)
qed

text \<open>Two records of one class: the same keys in the same order.\<close>

lemma canonical_record:
  assumes "map fst d = map fst e" "distinct (map fst d)"
  shows "canonicalize (ODict d) = canonicalize (ODict e) \<longleftrightarrow> map (canonicalize \<circ> snd) d = map (canonicalize \<circ> snd) e"
proof -
  have z: "map (map_prod id canonicalize) x = zip (map fst x) (map (canonicalize \<circ> snd) x)" for x :: "(string \<times> pyobj) list"
    by (induction x) auto
  have k: "distinct (map fst (map (map_prod id canonicalize) x)) = distinct (map fst x)" for x :: "(string \<times> pyobj) list"
    by (simp add: comp_def)
  have "canonicalize (ODict d) = canonicalize (ODict e) \<longleftrightarrow>
      map_of (map (map_prod id canonicalize) d) = map_of (map (map_prod id canonicalize) e)"
    unfolding canonicalize.simps json.inject by (rule sorted_entries_eq) (use assms in \<open>simp_all only: k\<close>)
  also have "\<dots> \<longleftrightarrow> map (canonicalize \<circ> snd) d = map (canonicalize \<circ> snd) e"
    using assms map_of_zip_inject [of "map (canonicalize \<circ> snd) d" "map fst d" "map (canonicalize \<circ> snd) e"]
    unfolding z by (metis length_map)
  finally show ?thesis .
qed

lemma canonical_optional_text: "canonicalize (optional_text v) = canonicalize (optional_text w) \<longleftrightarrow> v = w"
  by (cases v; cases w) (simp_all add: optional_text_def)

lemma aggregation_value_inj: "aggregation_value a = aggregation_value b \<longleftrightarrow> a = b"
  by (cases a; cases b) simp_all

lemma canonical_metric:
  assumes "finite (pm_allowed_dimensions m)" "finite (pm_allowed_dimensions n)"
  shows "canonicalize (metric_object m) = canonicalize (metric_object n) \<longleftrightarrow> m = n"
proof -
  have "canonicalize (metric_object m) = canonicalize (metric_object n) \<longleftrightarrow>
      pm_metric_id m = pm_metric_id n \<and> pm_source_value m = pm_source_value n \<and> pm_aggregation m = pm_aggregation n
      \<and> pm_amount_column m = pm_amount_column n \<and> pm_numerator_column m = pm_numerator_column n
      \<and> pm_denominator_column m = pm_denominator_column n \<and> pm_allowed_dimensions m = pm_allowed_dimensions n"
    unfolding metric_object_def
    by (subst canonical_record)
       (simp_all add: canonical_optional_text aggregation_value_inj canonical_set assms del: canonicalize.simps(5,6)
         optional_text_def)
  also have "\<dots> \<longleftrightarrow> m = n" by (cases m; cases n) auto
  finally show ?thesis .
qed

lemma canonical_metrics:
  assumes "\<forall>m\<in>set ms. finite (pm_allowed_dimensions m)" "\<forall>m\<in>set ns. finite (pm_allowed_dimensions m)"
  shows "map (canonicalize \<circ> metric_object) ms = map (canonicalize \<circ> metric_object) ns \<longleftrightarrow> ms = ns"
  using assms
proof (induction ms arbitrary: ns)
  case (Cons m ms)
  then show ?case by (cases ns) (auto simp: canonical_metric)
qed auto

lemma canonical_scope_mappings:
  assumes "distinct (map fst d)" "distinct (map fst e)"
    and "\<forall>x\<in>set (map snd d) \<union> set (map snd e). distinct (map fst x) \<and> finite_sets x"
  shows "canonicalize (dict_object (dict_object set_object) d) = canonicalize (dict_object (dict_object set_object) e)
    \<longleftrightarrow> (\<forall>k. map_option map_of (map_of d k) = map_option map_of (map_of e k))"
proof -
  have ok: "distinct (map fst x) \<and> finite_sets x" if "map_of d k = Some x \<or> map_of e k = Some x" for k x
    using assms(3) that by (force dest: map_of_SomeD)
  have "map_option (canonicalize \<circ> dict_object set_object) (map_of d k) = map_option (canonicalize \<circ> dict_object set_object) (map_of e k)
      \<longleftrightarrow> map_option map_of (map_of d k) = map_option map_of (map_of e k)" for k
    using ok [of k] by (cases "map_of d k"; cases "map_of e k") (simp_all add: canonical_sets)
  then show ?thesis by (simp add: canonical_dict assms(1,2))
qed

lemma canonical_connector:
  assumes c: "connector_mapping_ok c" "finite_mapping c" and c': "connector_mapping_ok c'" "finite_mapping c'"
  shows "canonicalize (connector_object c) = canonicalize (connector_object c') \<longleftrightarrow> same_mapping c c'"
proof -
  have d: "distinct (map fst (px_dimensions x))" "distinct (map fst (px_scope_value_allowlists x))"
    "distinct (map fst (px_scope_value_mappings x))" "\<forall>y\<in>set (map snd (px_scope_value_mappings x)). distinct (map fst y)"
    if "connector_mapping_ok x" for x
    using that by (auto simp: connector_mapping_ok_def normal_dict_def normal_sets_def)
  have dims: "canonicalize (dict_object OStr (px_dimensions c)) = canonicalize (dict_object OStr (px_dimensions c'))
      \<longleftrightarrow> map_of (px_dimensions c) = map_of (px_dimensions c')"
    by (rule canonical_text_dict) (use d c c' in blast)+
  have allow: "canonicalize (dict_object set_object (px_scope_value_allowlists c))
        = canonicalize (dict_object set_object (px_scope_value_allowlists c'))
      \<longleftrightarrow> map_of (px_scope_value_allowlists c) = map_of (px_scope_value_allowlists c')"
    by (rule canonical_sets) (use d c c' in \<open>auto simp: finite_mapping_def\<close>)
  have scope: "canonicalize (dict_object (dict_object set_object) (px_scope_value_mappings c))
        = canonicalize (dict_object (dict_object set_object) (px_scope_value_mappings c'))
      \<longleftrightarrow> (\<forall>k. map_option map_of (map_of (px_scope_value_mappings c) k) = map_option map_of (map_of (px_scope_value_mappings c') k))"
    by (rule canonical_scope_mappings) (use d [OF c(1)] d [OF c'(1)] c(2) c'(2) in \<open>auto simp: finite_mapping_def\<close>)
  have ms: "map (canonicalize \<circ> metric_object) (px_metrics c) = map (canonicalize \<circ> metric_object) (px_metrics c')
      \<longleftrightarrow> px_metrics c = px_metrics c'"
    by (rule canonical_metrics) (use c c' in \<open>auto simp: finite_mapping_def\<close>)
  show ?thesis
    unfolding connector_object_def same_mapping_def
    by (subst canonical_record) (simp_all add: dims allow scope ms [unfolded comp_def] comp_def del: canonicalize.simps(5,6))
qed

text \<open>C38: The digest of a connector's mapping pins it: with a collision-free digest, two accepted mappings have
  the same hash exactly when tenant, version and every field agree, the order in which dimensions,
  scope rules and the elements of sets were written apart.\<close>

theorem mapping_hash_pins_mapping:
  assumes "inj digest" "connector_mapping_ok c" "finite_mapping c" "connector_mapping_ok c'" "finite_mapping c'"
  shows "physical_connector_hash digest t v c = physical_connector_hash digest t' v' c'
    \<longleftrightarrow> t = t' \<and> v = v' \<and> same_mapping c c'"
proof -
  have "physical_connector_hash digest t v c = physical_connector_hash digest t' v' c' \<longleftrightarrow>
      canonicalize (ODict [(''tenant_id'', OStr t), (''version'', OStr v), (''connector'', connector_object c)])
      = canonicalize (ODict [(''tenant_id'', OStr t'), (''version'', OStr v'), (''connector'', connector_object c')])"
    unfolding physical_connector_hash_def inj_eq [OF assms(1)] by (rule canonical_objects)
  also have "\<dots> \<longleftrightarrow> t = t' \<and> v = v' \<and> canonicalize (connector_object c) = canonicalize (connector_object c')"
    by (subst canonical_record) simp_all
  finally show ?thesis by (simp only: canonical_connector [OF assms(2-5)])
qed

definition reordered_mapping :: PhysicalConnectorMapping where
  "reordered_mapping = warehouse_mapping\<lparr>px_dimensions := [(''STORE'', ''store_id''), (''REGION'', ''region_id'')]\<rparr>"

theorem mapping_hash_pins_mapping_witness:
  "physical_connector_hash rev ''demo-telecom'' ''2026.08.2'' warehouse_mapping
    = physical_connector_hash rev ''demo-telecom'' ''2026.08.2'' reordered_mapping"
proof -
  have "make_connector_mapping reordered_mapping = Inr reordered_mapping" by code_simp
  then have ok: "connector_mapping_ok reordered_mapping" by (rule make_connector_mapping_ok)
  have "finite_mapping warehouse_mapping" "finite_mapping reordered_mapping"
    by (simp_all add: finite_mapping_def finite_sets_def reordered_mapping_def warehouse_mapping_def
        churn_mapping_def activations_mapping_def)
  moreover have "same_mapping warehouse_mapping reordered_mapping"
    by (auto simp: same_mapping_def reordered_mapping_def warehouse_mapping_def fun_eq_iff)
  moreover have "inj (rev :: string \<Rightarrow> string)" by (simp add: inj_def)
  ultimately show ?thesis using mapping_hash_pins_mapping [of rev, OF _ warehouse_mapping_ok _ ok] by blast
qed

end
