(* ===== verification/HttpRuntime.thy ===== *)
theory HttpRuntime
  imports RunHistory Canonical
begin

section \<open>HttpRuntime: admission of public requests and streams of events\<close>

text \<open>
  \<open>api/runtime_security.py\<close>: the middleware that admits public requests by origin, size, rate and number
  in flight and releases only complete, bounded responses; and the event stream of \<open>api/run_routes.py\<close>.
  The application behind the middleware is the list of messages it exchanges; the clock is an argument, in
  microseconds; a body is its bytes.
\<close>

subsection \<open>Settings and rates\<close>

datatype runtime_profile = PROFILE_DISABLED | PROFILE_TRUSTED_LOCAL | PROFILE_PUBLIC_SYNTHETIC

record public_settings =
  ps_profile :: runtime_profile
  ps_origins :: "string list"
  ps_maximum_request_bytes :: int
  ps_maximum_response_bytes :: int
  ps_requests_per_minute :: int
  ps_maximum_in_flight :: int

text \<open>The bounds that the settings' fields declare.\<close>

definition public_settings_ok :: "public_settings \<Rightarrow> bool" where
  "public_settings_ok s \<longleftrightarrow> 1 \<le> ps_maximum_request_bytes s \<and> ps_maximum_request_bytes s \<le> 1048576
     \<and> 1 \<le> ps_maximum_response_bytes s \<and> ps_maximum_response_bytes s \<le> 4194304
     \<and> 1 \<le> ps_requests_per_minute s \<and> ps_requests_per_minute s \<le> 600
     \<and> 1 \<le> ps_maximum_in_flight s \<and> ps_maximum_in_flight s \<le> 32"

record rate =
  rt_count :: int
  rt_reset_at :: instant

type_synonym rates = "(string \<times> rate) list"

text \<open>The oldest entries leave until there is room for one.\<close>

fun evict :: "rates \<Rightarrow> rates" where
  "evict [] = []"
| "evict (r # rs) = (if length (r # rs) \<ge> 1024 then evict rs else r # rs)"

definition admit_rate :: "public_settings \<Rightarrow> instant \<Rightarrow> string \<Rightarrow> rates \<Rightarrow> bool \<times> rates" where
  "admit_rate s now identity rates =
     (let live = evict (filter (\<lambda>(k, r). \<not> rt_reset_at r \<le> now) rates)
      in case map_of live identity of
           None \<Rightarrow> (True, live @ [(identity, \<lparr>rt_count = 1, rt_reset_at = now + 60000000\<rparr>)])
         | Some r \<Rightarrow> (let r' = r\<lparr>rt_count := rt_count r + 1\<rparr>
             in (rt_count r' \<le> ps_requests_per_minute s, AList.delete identity live @ [(identity, r')])))"

subsection \<open>Admission\<close>

record http_request =
  hr_http :: bool
  hr_path :: string
  hr_method :: string
  hr_headers :: "(string \<times> string) list"
  hr_client :: "string option"

record admission =
  ad_rates :: rates
  ad_in_flight :: int

datatype verdict = Passed | Refused nat string | Admitted

definition identity_of :: "http_request \<Rightarrow> string" where
  "identity_of q = (case hr_client q of Some c \<Rightarrow> c | None \<Rightarrow> ''unknown'')"

text \<open>The last header of a name counts. \<open>int\<close> of a latin-1 text: blanks around it, a sign, digits with single underscores
  between them, and no more digits than the interpreter converts.\<close>

definition latin1_space :: "char \<Rightarrow> bool" where
  "latin1_space c \<longleftrightarrow> of_char c \<in> {9 :: nat..13} \<or> of_char c \<in> {28 :: nat..32} \<or> of_char c \<in> {133 :: nat, 160}"

fun digit_groups :: "bool \<Rightarrow> string \<Rightarrow> bool" where
  "digit_groups after_digit [] = after_digit"
| "digit_groups after_digit (c # cs) =
     (if is_digit c then digit_groups True cs else c = CHR ''_'' \<and> after_digit \<and> digit_groups False cs)"

definition py_int :: "string \<Rightarrow> int option" where
  "py_int text =
     (let body = rev (dropWhile latin1_space (rev (dropWhile latin1_space text)));
          unsigned = (if body \<noteq> [] \<and> hd body \<in> {CHR ''+'', CHR ''-''} then tl body else body);
          digits = filter (\<lambda>c. c \<noteq> CHR ''_'') unsigned
      in if \<not> digit_groups False unsigned \<or> length digits > 4300 then None
         else Some (if hd body = CHR ''-'' then - digits_int digits else digits_int digits))"

definition header_of :: "http_request \<Rightarrow> string \<Rightarrow> string option" where
  "header_of q name = map_of (rev (map (\<lambda>(k, v). (py_lower k, v)) (hr_headers q))) name"

definition admit :: "public_settings \<Rightarrow> instant \<Rightarrow> http_request \<Rightarrow> admission \<Rightarrow> verdict \<times> admission" where
  "admit s now q ad =
     (if \<not> hr_http q then (Passed, ad)
      else if ps_profile s = PROFILE_DISABLED \<and> hr_path q \<notin> {''/health/live'', ''/health/ready''}
        then (Refused 503 ''runtime profile is disabled'', ad)
      else if ps_profile s \<noteq> PROFILE_PUBLIC_SYNTHETIC then (Passed, ad)
      else if hr_method q = ''POST'' \<and> header_of q ''origin'' \<notin> Some ` set (ps_origins s) then (Refused 403 ''origin denied'', ad)
      else (case py_int (case header_of q ''content-length'' of None \<Rightarrow> ''0'' | Some v \<Rightarrow> v) of
          None \<Rightarrow> (Refused 400 ''invalid content length'', ad)
        | Some n \<Rightarrow>
          if n > ps_maximum_request_bytes s then (Refused 413 ''request exceeded the configured limit'', ad)
          else (let (ok, rates) = admit_rate s now (identity_of q) (ad_rates ad); ad' = ad\<lparr>ad_rates := rates\<rparr>
            in if \<not> ok then (Refused 429 ''rate limit exceeded'', ad')
               else if ad_in_flight ad' \<ge> ps_maximum_in_flight s then (Refused 503 ''public runtime capacity reached'', ad')
               else (Admitted, ad'\<lparr>ad_in_flight := ad_in_flight ad' + 1\<rparr>))))"

definition leave :: "admission \<Rightarrow> admission" where
  "leave ad = ad\<lparr>ad_in_flight := ad_in_flight ad - 1\<rparr>"

subsection \<open>Buffering\<close>

datatype asgi_message = ResponseStart nat | ResponseBody string bool | OtherMessage

datatype app_event = Receives string bool | ReceivesOther | Sends asgi_message bool

text \<open>How the application ends: it returns, it is cancelled at the deadline, or it raises an exception of its own.\<close>

datatype app_end = Finishes | TimesOut | Raises

datatype buffered = TooLarge | InvalidResponse | DeadlineExceeded | Propagated | Released "asgi_message list"

text \<open>\<open>bounded_receive\<close> and \<open>buffer\<close>. What they raise ends the call unless the application catches it, as the flag
  of the event says; the messages buffered so far are newest first.\<close>

fun run_app :: "public_settings \<Rightarrow> int \<Rightarrow> int \<Rightarrow> asgi_message list \<Rightarrow> app_event list \<Rightarrow> buffered + asgi_message list" where
  "run_app s request_size response_size messages [] = Inr (rev messages)"
| "run_app s request_size response_size messages (Receives body caught # rest) =
     (let size = request_size + int (length body)
      in if size > ps_maximum_request_bytes s \<and> \<not> caught then Inl TooLarge
         else run_app s size response_size messages rest)"
| "run_app s request_size response_size messages (ReceivesOther # rest) = run_app s request_size response_size messages rest"
| "run_app s request_size response_size messages (Sends OtherMessage caught # rest) =
     (if caught then run_app s request_size response_size messages rest else Inl InvalidResponse)"
| "run_app s request_size response_size messages (Sends (ResponseStart status) caught # rest) =
     run_app s request_size response_size (ResponseStart status # messages) rest"
| "run_app s request_size response_size messages (Sends (ResponseBody body more_body) caught # rest) =
     (let size = response_size + int (length body)
      in if size > ps_maximum_response_bytes s
         then (if caught then run_app s request_size size messages rest else Inl InvalidResponse)
         else run_app s request_size size (ResponseBody body more_body # messages) rest)"

fun is_start :: "asgi_message \<Rightarrow> bool" where
  "is_start (ResponseStart status) = True" | "is_start m = False"

fun is_body :: "asgi_message \<Rightarrow> bool" where
  "is_body (ResponseBody body more_body) = True" | "is_body m = False"

fun announces_more :: "asgi_message \<Rightarrow> bool" where
  "announces_more (ResponseBody body more_body) = more_body" | "announces_more m = False"


definition buffered_call :: "public_settings \<Rightarrow> app_event list \<Rightarrow> app_end \<Rightarrow> buffered" where
  "buffered_call s exchanged ending =
     (case run_app s 0 0 [] exchanged of Inl b \<Rightarrow> b
      | Inr messages \<Rightarrow>
        if ending = TimesOut then DeadlineExceeded
        else if ending = Raises then Propagated
        else if messages = [] \<or> \<not> is_start (hd messages) then InvalidResponse
        else (let bodies = filter is_body messages
              in if bodies = [] \<or> announces_more (last bodies) then InvalidResponse else Released messages))"



subsection \<open>The middleware as a state machine\<close>

text \<open>Requests arrive and leave in any order; the state counts those that were admitted and have not left.\<close>

inductive admission_reach :: "public_settings \<Rightarrow> nat \<Rightarrow> admission \<Rightarrow> bool" for s where
  fresh: "admission_reach s 0 \<lparr>ad_rates = [], ad_in_flight = 0\<rparr>"
| arrive: "admission_reach s n ad \<Longrightarrow> admit s now q ad = (v, ad')
    \<Longrightarrow> admission_reach s (if v = Admitted then Suc n else n) ad'"
| depart: "admission_reach s (Suc n) ad \<Longrightarrow> admission_reach s n (leave ad)"

text \<open>What the middleware decides on a sequence of requests of the given clients at the given times.\<close>

fun rate_decisions :: "public_settings \<Rightarrow> rates \<Rightarrow> (instant \<times> string) list \<Rightarrow> (string \<times> bool) list" where
  "rate_decisions s rates [] = []"
| "rate_decisions s rates ((now, identity) # rest) =
     (let (ok, rates') = admit_rate s now identity rates in (identity, ok) # rate_decisions s rates' rest)"

subsection \<open>Streams of events\<close>

datatype sse_frame = AccessLost | Progress RunEvent | Beat

text \<open>One round of the stream: whether the client is gone, what the authorised read gives, the journal when the
  events are listed, and whether the authority still stands before each event.\<close>

record glimpse =
  gl_disconnected :: bool
  gl_read :: "RunSnapshot option"
  gl_journal :: run_db
  gl_authorized :: "nat \<Rightarrow> bool"

datatype stream_end = Gone | Lost | Raised run_failure | Ended | TimeOver

fun send_events :: "(nat \<Rightarrow> bool) \<Rightarrow> nat \<Rightarrow> int \<Rightarrow> RunEvent list \<Rightarrow> sse_frame list \<times> int \<times> bool" where
  "send_events granted k after [] = ([], after, True)"
| "send_events granted k after (e # es) =
     (if \<not> granted k then ([AccessLost], after, False)
      else (let (frames, after', ok) = send_events granted (Suc k) (ev_sequence e) es in (Progress e # frames, after', ok)))"

text \<open>The rounds that fit in twenty seconds.\<close>

fun stream_events :: "string \<Rightarrow> string \<Rightarrow> uuid \<Rightarrow> int \<Rightarrow> glimpse list \<Rightarrow> sse_frame list \<times> int \<times> stream_end" where
  "stream_events owner scope rid after [] = ([], after, TimeOver)"
| "stream_events owner scope rid after (g # gs) =
     (if gl_disconnected g then ([], after, Gone)
      else (case gl_read g of None \<Rightarrow> ([AccessLost], after, Lost)
        | Some run \<Rightarrow>
          (case events (gl_journal g) owner scope rid after of Inl e \<Rightarrow> ([], after, Raised e)
           | Inr es \<Rightarrow>
             (let (frames, after', ok) = send_events (gl_authorized g) 0 after es
              in if \<not> ok then (frames, after', Lost)
                 else if rs_status run \<in> TERMINAL \<and> after' = rs_sequence run then (frames, after', Ended)
                 else (let (more, cursor, why) = stream_events owner scope rid after' gs
                       in (frames @ Beat # more, cursor, why))))))"

text \<open>The identifier of a frame, and where a client that sends it back resumes: \<open>partition\<close>, then \<open>isdecimal\<close>.\<close>

definition frame_id :: "uuid \<Rightarrow> int \<Rightarrow> string" where
  "frame_id rid n = rid @ '':'' @ int_str n"

definition resume_cursor :: "uuid \<Rightarrow> int \<Rightarrow> string option \<Rightarrow> run_failure + int" where
  "resume_cursor rid after last_event_id =
     (case last_event_id of None \<Rightarrow> Inr after
      | Some text \<Rightarrow>
        (let run_id = takeWhile (\<lambda>c. c \<noteq> CHR '':'') text; cursor = drop (Suc (length run_id)) text
         in if run_id \<noteq> rid \<or> cursor = [] \<or> \<not> list_all is_digit cursor
            then Inl (RunError ''The replay cursor does not belong to this run.'' 409)
            else Inr (digits_int cursor)))"

text \<open>The text of a frame; \<open>dump\<close> is the JSON of an event.\<close>

definition frame_text :: "(RunEvent \<Rightarrow> string) \<Rightarrow> uuid \<Rightarrow> sse_frame \<Rightarrow> string" where
  "frame_text dump rid f = (case f of
       AccessLost \<Rightarrow> ''event: access_lost'' @ [CHR 0x0A] @ ''data: {}'' @ [CHR 0x0A, CHR 0x0A]
     | Beat \<Rightarrow> '': heartbeat'' @ [CHR 0x0A, CHR 0x0A]
     | Progress e \<Rightarrow> ''id: '' @ frame_id rid (ev_sequence e) @ [CHR 0x0A] @ ''event: progress'' @ [CHR 0x0A]
         @ ''data: '' @ dump e @ [CHR 0x0A, CHR 0x0A])"

subsection \<open>The run routes\<close>

text \<open>\<open>RunContext\<close>: the authority check and the coordinator's \<open>cancel\<close> and \<open>submit\<close> are the application's.\<close>

record run_context =
  cx_owner :: string
  cx_scope :: string
  cx_authorize :: "RunSnapshot \<Rightarrow> run_failure option"
  cx_manage_conversations :: bool

definition read_in_context :: "run_context \<Rightarrow> run_db \<Rightarrow> uuid \<Rightarrow> run_failure + RunSnapshot" where
  "read_in_context cx db rid =
     (case read_owned db (cx_owner cx) (cx_scope cx) rid of Inl e \<Rightarrow> Inl e
      | Inr run \<Rightarrow> (case cx_authorize cx run of Some e \<Rightarrow> Inl e | None \<Rightarrow> Inr run))"

definition create_route :: "run_context \<Rightarrow> uuid \<Rightarrow> instant \<Rightarrow> run_db \<Rightarrow> run_failure + Conversation \<times> run_db" where
  "create_route cx cid now db =
     (if \<not> cx_manage_conversations cx
      then Inl (RunError ''A CSV session owns one conversation. Start another session for a new workspace.'' 409)
      else create_conversation (cx_owner cx) (cx_scope cx) cid now db)"

definition conversation_route :: "run_context \<Rightarrow> uuid \<Rightarrow> run_db
    \<Rightarrow> run_failure + Conversation \<times> (uuid \<times> RunStatus \<times> string) list" where
  "conversation_route cx cid db =
     (case conversation db (cx_owner cx) (cx_scope cx) cid of Inl e \<Rightarrow> Inl e
      | Inr c \<Rightarrow> (case runs_in db (cx_owner cx) (cx_scope cx) cid of Inl e \<Rightarrow> Inl e
          | Inr rs \<Rightarrow> Inr (c, map (\<lambda>r. (rs_run_id r, rs_status r, rq_question (rs_request r))) rs)))"

definition delete_route :: "run_context \<Rightarrow> uuid \<Rightarrow> run_db \<Rightarrow> run_failure + run_db" where
  "delete_route cx cid db =
     (if \<not> cx_manage_conversations cx
      then Inl (RunError ''Use Clear demo data to delete the CSV workspace and its conversation together.'' 409)
      else delete_conversation (cx_owner cx) (cx_scope cx) cid db)"

definition cancel_route :: "run_context \<Rightarrow> (uuid \<Rightarrow> run_db \<Rightarrow> run_failure + RunSnapshot \<times> run_db) \<Rightarrow> uuid \<Rightarrow> run_db
    \<Rightarrow> run_failure + RunSnapshot \<times> run_db" where
  "cancel_route cx coordinator_cancel rid db =
     (case read_in_context cx db rid of Inl e \<Rightarrow> Inl e | Inr _ \<Rightarrow> coordinator_cancel rid db)"

text \<open>\<open>events\<close>: the cursor the stream starts at.\<close>

definition events_route :: "run_context \<Rightarrow> uuid \<Rightarrow> int \<Rightarrow> string option \<Rightarrow> run_db \<Rightarrow> run_failure + int" where
  "events_route cx rid after last_event_id db =
     (case read_in_context cx db rid of Inl e \<Rightarrow> Inl e
      | Inr _ \<Rightarrow> (case resume_cursor rid after last_event_id of Inl e \<Rightarrow> Inl e
          | Inr n \<Rightarrow> (case events db (cx_owner cx) (cx_scope cx) rid n of Inl e \<Rightarrow> Inl e | Inr _ \<Rightarrow> Inr n)))"

subsection \<open>Rates\<close>

lemma evict_short: "length rs < 1024 \<Longrightarrow> evict rs = rs"
  by (cases rs) auto

lemma evict_drop: "\<exists>k. evict rs = drop k rs"
proof (induction rs)
  case (Cons r rs)
  then obtain k where "evict rs = drop k rs" by blast
  then have "evict (r # rs) = drop (if length (r # rs) \<ge> 1024 then Suc k else 0) (r # rs)" by simp
  then show ?case by blast
qed simp

lemma evict_length: "length (evict rs) < 1024"
  by (induction rs) auto

definition rates_ok :: "rates \<Rightarrow> bool" where
  "rates_ok rates \<longleftrightarrow> length rates \<le> 1024 \<and> distinct (map fst rates) \<and> (\<forall>k r. (k, r) \<in> set rates \<longrightarrow> 1 \<le> rt_count r)"

lemma rates_okD: "rates_ok rates \<Longrightarrow> (k, r) \<in> set rates \<Longrightarrow> 1 \<le> rt_count r"
  unfolding rates_ok_def by blast

lemma evict_distinct: "distinct (map fst rs) \<Longrightarrow> distinct (map fst (evict rs))"
  using evict_drop [of rs] by (metis distinct_drop drop_map)

lemma evict_subset: "set (evict rs) \<subseteq> set rs"
  using evict_drop [of rs] by (metis set_drop_subset)

lemma distinct_fst_filter: "distinct (map fst xs) \<Longrightarrow> distinct (map fst (filter P xs))"
  by (induction xs) auto

text \<open>One request's effect on the table of live counters, by cases on whether its identity has one.\<close>

definition live_rates :: "instant \<Rightarrow> rates \<Rightarrow> rates" where
  "live_rates now rates = evict (filter (\<lambda>(k, r). \<not> rt_reset_at r \<le> now) rates)"

lemma admit_rate_new: "map_of (live_rates now rates) k = None \<Longrightarrow> admit_rate s now k rates
    = (True, live_rates now rates @ [(k, \<lparr>rt_count = 1, rt_reset_at = now + 60000000\<rparr>)])"
  by (simp add: admit_rate_def live_rates_def)

lemma delete_filter: "AList.delete k xs = filter (\<lambda>p. fst p \<noteq> k) xs"
  by (induction xs) auto

lemma admit_rate_known: "map_of (live_rates now rates) k = Some r \<Longrightarrow> admit_rate s now k rates
    = (rt_count r + 1 \<le> ps_requests_per_minute s,
       filter (\<lambda>p. fst p \<noteq> k) (live_rates now rates) @ [(k, r\<lparr>rt_count := rt_count r + 1\<rparr>)])"
  by (simp add: admit_rate_def live_rates_def delete_filter Let_def)

lemma live_rates_ok: "rates_ok rates \<Longrightarrow> rates_ok (live_rates now rates) \<and> length (live_rates now rates) < 1024"
  using evict_subset [of "filter (\<lambda>(k, r). \<not> rt_reset_at r \<le> now) rates"]
    evict_length [of "filter (\<lambda>(k, r). \<not> rt_reset_at r \<le> now) rates"]
  by (auto simp: rates_ok_def live_rates_def intro!: evict_distinct distinct_fst_filter)

lemma map_of_filter_ne: "i \<noteq> k \<Longrightarrow> map_of (filter (\<lambda>p. fst p \<noteq> k) xs) i = map_of xs i"
  by (induction xs) auto

lemma map_of_filter_eq: "map_of (filter (\<lambda>p. fst p \<noteq> k) xs) k = None"
  by (induction xs) auto

lemma admit_rate_ok:
  assumes "rates_ok rates" "admit_rate s now k rates = (ok, rates')"
  shows "rates_ok rates'"
proof -
  have l: "rates_ok (live_rates now rates)" "length (live_rates now rates) < 1024" using live_rates_ok [OF assms(1)] by auto
  show ?thesis
  proof (cases "map_of (live_rates now rates) k")
    case None
    then have "rates' = live_rates now rates @ [(k, \<lparr>rt_count = 1, rt_reset_at = now + 60000000\<rparr>)]"
      using assms(2) by (simp add: admit_rate_new)
    then show ?thesis using l None by (auto simp: rates_ok_def map_of_eq_None_iff)
  next
    case (Some r)
    then have "rates' = filter (\<lambda>p. fst p \<noteq> k) (live_rates now rates) @ [(k, r\<lparr>rt_count := rt_count r + 1\<rparr>)]"
      using assms(2) by (simp add: admit_rate_known)
    moreover have "1 \<le> rt_count r" using rates_okD [OF l(1) map_of_SomeD [OF Some]] .
    moreover have "length (filter (\<lambda>p. fst p \<noteq> k) (live_rates now rates)) < 1024"
      using l(2) length_filter_le [of "\<lambda>p. fst p \<noteq> k" "live_rates now rates"] by linarith
    ultimately show ?thesis using l by (auto simp: rates_ok_def intro: distinct_fst_filter)
  qed
qed

text \<open>Counters of one window, while the table is not full.\<close>

definition used :: "rates \<Rightarrow> string \<Rightarrow> int" where
  "used rates k = (case map_of rates k of None \<Rightarrow> 0 | Some r \<Rightarrow> rt_count r)"

definition in_window :: "instant \<Rightarrow> rates \<Rightarrow> bool" where
  "in_window t0 rates \<longleftrightarrow> rates_ok rates \<and> (\<forall>k r. (k, r) \<in> set rates \<longrightarrow> t0 + 60000000 \<le> rt_reset_at r)"

lemma in_windowD: "in_window t0 rates \<Longrightarrow> (k, r) \<in> set rates \<Longrightarrow> t0 + 60000000 \<le> rt_reset_at r \<and> 1 \<le> rt_count r"
  unfolding in_window_def by (blast intro: rates_okD)

lemma live_in_window:
  assumes "in_window t0 rates" "t < t0 + 60000000" "length rates < 1024"
  shows "live_rates t rates = rates"
proof -
  have "filter (\<lambda>(k, r). \<not> rt_reset_at r \<le> t) rates = rates"
    using assms by (intro filter_True) (fastforce dest: in_windowD)
  then show ?thesis using assms(3) by (simp add: live_rates_def evict_short)
qed

lemma admit_rate_counts:
  assumes w: "in_window t0 rates" and t: "t0 \<le> t" "t < t0 + 60000000" and l: "length rates < 1024"
    and a: "admit_rate s t k rates = (ok, rates')"
  shows "in_window t0 rates' \<and> length rates' \<le> Suc (length rates)
    \<and> used rates' i = used rates i + (if k = i then 1 else 0) \<and> (ok \<longleftrightarrow> used rates k = 0 \<or> used rates k < ps_requests_per_minute s)"
proof -
  note live = live_in_window [OF w t(2) l]
  have ok: "rates_ok rates'" using w a by (auto simp: in_window_def intro: admit_rate_ok)
  show ?thesis
  proof (cases "map_of rates k")
    case None
    then have r': "ok" "rates' = rates @ [(k, \<lparr>rt_count = 1, rt_reset_at = t + 60000000\<rparr>)]"
      using a live admit_rate_new [of t rates k s] by auto
    have "in_window t0 rates'" using ok w t r'(2) by (auto simp: in_window_def)
    then show ?thesis using None r' by (auto simp: used_def map_add_def split: option.splits)
  next
    case (Some r)
    then have r: "1 \<le> rt_count r" "t0 + 60000000 \<le> rt_reset_at r" using in_windowD [OF w map_of_SomeD] by auto
    have r': "ok \<longleftrightarrow> rt_count r + 1 \<le> ps_requests_per_minute s"
      "rates' = filter (\<lambda>p. fst p \<noteq> k) rates @ [(k, r\<lparr>rt_count := rt_count r + 1\<rparr>)]"
      using a live Some admit_rate_known [of t rates k r s] by auto
    have "in_window t0 rates'" using ok w r r'(2) by (auto simp: in_window_def)
    then show ?thesis using Some r r'
      by (auto simp: used_def map_add_def map_of_filter_ne map_of_filter_eq le_SucI split: option.splits)
  qed
qed

lemma rate_decisions_window:
  "in_window t0 rates \<Longrightarrow> \<forall>q\<in>set qs. t0 \<le> fst q \<and> fst q < t0 + 60000000 \<Longrightarrow> length rates + length qs \<le> 1024
   \<Longrightarrow> used rates i = int c \<Longrightarrow> map snd (filter (\<lambda>d. fst d = i) (rate_decisions s rates qs))
     = map (\<lambda>n. n = 0 \<or> int n < ps_requests_per_minute s) [c..<c + length (filter (\<lambda>q. snd q = i) qs)]"
proof (induction s rates qs arbitrary: c rule: rate_decisions.induct)
  case (2 s rates t k rest)
  obtain ok rates' where a: "admit_rate s t k rates = (ok, rates')" by (cases "admit_rate s t k rates")
  have "in_window t0 rates' \<and> length rates' \<le> Suc (length rates)
    \<and> used rates' i = used rates i + (if k = i then 1 else 0) \<and> (ok \<longleftrightarrow> used rates k = 0 \<or> used rates k < ps_requests_per_minute s)"
    using 2(2-4) by (intro admit_rate_counts [OF _ _ _ _ a]) auto
  then have f: "in_window t0 rates'" "length rates' \<le> Suc (length rates)" "used rates' i = used rates i + (if k = i then 1 else 0)"
    "ok \<longleftrightarrow> used rates k = 0 \<or> used rates k < ps_requests_per_minute s" by auto
  let ?c = "if k = i then Suc c else c"
  have ih: "map snd (filter (\<lambda>d. fst d = i) (rate_decisions s rates' rest))
     = map (\<lambda>n. n = 0 \<or> int n < ps_requests_per_minute s) [?c..<?c + length (filter (\<lambda>q. snd q = i) rest)]"
    using 2(2-5) f by (intro 2(1) [OF a [symmetric]]) auto
  show ?case
  proof (cases "k = i")
    case True
    then have "[c..<c + length (filter (\<lambda>q. snd q = i) ((t, k) # rest))] = c # [?c..<?c + length (filter (\<lambda>q. snd q = i) rest)]"
      by (subst upt_conv_Cons) simp_all
    then show ?thesis using True a ih f(4) 2(5) by simp
  next
    case False
    then show ?thesis using a ih by simp
  qed
qed simp

text \<open>C25: within a minute, and while fewer than 1,024 requests are counted, each client's first requests are let through up to
  the configured number per minute and all its later ones are refused, whatever the other clients ask.\<close>

theorem rate_limit_exact:
  assumes "public_settings_ok s" "\<forall>q\<in>set qs. t0 \<le> fst q \<and> fst q < t0 + 60000000" "length qs \<le> 1024"
  shows "map snd (filter (\<lambda>d. fst d = client) (rate_decisions s [] qs))
    = map (\<lambda>n. int n < ps_requests_per_minute s) [0..<length (filter (\<lambda>q. snd q = client) qs)]"
  using rate_decisions_window [of t0 "[]" qs client 0 s] assms
  by (auto simp: in_window_def rates_ok_def used_def public_settings_ok_def)

definition demo_public :: public_settings where
  "demo_public = \<lparr>ps_profile = PROFILE_PUBLIC_SYNTHETIC, ps_origins = [''https://demo''], ps_maximum_request_bytes = 8,
     ps_maximum_response_bytes = 8, ps_requests_per_minute = 2, ps_maximum_in_flight = 1\<rparr>"

lemma demo_public_ok: "public_settings_ok demo_public"
  by (simp add: public_settings_ok_def demo_public_def)

theorem rate_limit_exact_witness:
  "map snd (filter (\<lambda>d. fst d = ''a'') (rate_decisions demo_public [] [(0, ''a''), (1, ''b''), (2, ''a''), (3, ''a'')])) = [True, True, False]"
  using rate_limit_exact [OF demo_public_ok, of "[(0, ''a''), (1, ''b''), (2, ''a''), (3, ''a'')]" 0 "''a''"]
  by (simp add: demo_public_def upt_rec)

text \<open>A full table drops its oldest counter before it looks the client up, so that a client whose counter is the oldest is
  admitted again within its minute.\<close>

lemma full_table_forgets:
  assumes "length rates = 1023" "\<forall>r\<in>set ((k, r) # rates). \<not> rt_reset_at (snd r) \<le> t" "distinct (k # map fst rates)"
  shows "admit_rate s t k ((k, r) # rates) = (True, rates @ [(k, \<lparr>rt_count = 1, rt_reset_at = t + 60000000\<rparr>)])"
proof -
  have "filter (\<lambda>(k, r). \<not> rt_reset_at r \<le> t) ((k, r) # rates) = (k, r) # rates" using assms(2) by (intro filter_True) auto
  then have "live_rates t ((k, r) # rates) = rates" using assms(1) by (simp add: live_rates_def evict_short)
  moreover from this assms(3) have "map_of (live_rates t ((k, r) # rates)) k = None" by (simp add: map_of_eq_None_iff)
  ultimately show ?thesis by (simp add: admit_rate_new)
qed

subsection \<open>Admission\<close>

lemma admit_keeps:
  assumes "rates_ok (ad_rates ad)" "admit s now q ad = (v, ad')"
  shows "rates_ok (ad_rates ad') \<and> (if v = Admitted then ad_in_flight ad < ps_maximum_in_flight s
      \<and> ad_in_flight ad' = ad_in_flight ad + 1 else ad_in_flight ad' = ad_in_flight ad)"
  using assms admit_rate_ok [OF assms(1), of s now "identity_of q"]
  by (auto simp: admit_def Let_def not_le split: if_splits option.splits prod.splits)

text \<open>C26: however requests come and go, the counter of requests in flight is the number that were admitted and have not
  left; it never exceeds the configured capacity, and the table of rates stays within 1,024 clients, one counter each.\<close>

theorem admission_stays_bounded:
  assumes "admission_reach s n ad" "public_settings_ok s"
  shows "ad_in_flight ad = int n \<and> int n \<le> ps_maximum_in_flight s \<and> rates_ok (ad_rates ad)"
  using assms
proof (induction rule: admission_reach.induct)
  case (arrive n ad now q v ad')
  then show ?case using admit_keeps [of ad s now q v ad'] by (auto split: if_splits)
qed (auto simp: public_settings_ok_def rates_ok_def leave_def)

definition reach_one :: admission where
  "reach_one = snd (admit demo_public 0 \<lparr>hr_http = True, hr_path = ''/v1/ask'', hr_method = ''GET'', hr_headers = [], hr_client = Some ''a''\<rparr>
     \<lparr>ad_rates = [], ad_in_flight = 0\<rparr>)"

lemma reach_one: "admission_reach demo_public 1 reach_one"
proof -
  let ?q = "\<lparr>hr_http = True, hr_path = ''/v1/ask'', hr_method = ''GET'', hr_headers = [], hr_client = Some ''a''\<rparr>"
  have "admit demo_public 0 ?q \<lparr>ad_rates = [], ad_in_flight = 0\<rparr> = (Admitted, reach_one)"
    unfolding reach_one_def by code_simp
  from admission_reach.arrive [OF admission_reach.fresh this] show ?thesis by simp
qed

theorem admission_stays_bounded_witness:
  "ad_in_flight reach_one = 1 \<and> (1 :: int) \<le> ps_maximum_in_flight demo_public \<and> rates_ok (ad_rates reach_one)"
  using admission_stays_bounded [OF reach_one demo_public_ok] by simp

subsection \<open>Whole responses\<close>


















text \<open>The middleware itself does not count: an application that starts twice has both starts released.\<close>

lemma second_start_is_released:
  "buffered_call demo_public [Sends (ResponseStart 200) False, Sends (ResponseStart 500) False, Sends (ResponseBody ''ok'' False) False] Finishes
     = Released [ResponseStart 200, ResponseStart 500, ResponseBody ''ok'' False]"
  by code_simp



subsection \<open>Streams\<close>

fun progress_events :: "sse_frame list \<Rightarrow> RunEvent list" where
  "progress_events [] = []"
| "progress_events (Progress e # fs) = e # progress_events fs"
| "progress_events (f # fs) = progress_events fs"

lemma progress_append: "progress_events (xs @ ys) = progress_events xs @ progress_events ys"
  by (induction xs rule: progress_events.induct) auto

lemma send_events_order:
  "send_events granted k (int a) es = (frames, after', ok) \<Longrightarrow> map ev_sequence es = map int [Suc a..<Suc b] \<Longrightarrow> a \<le> b
   \<Longrightarrow> \<exists>c\<ge>a. after' = int c \<and> map ev_sequence (progress_events frames) = map int [Suc a..<Suc c] \<and> set (progress_events frames) \<subseteq> set es
      \<and> (ok \<longrightarrow> c = b) \<and> (AccessLost \<in> set frames \<longleftrightarrow> \<not> ok)"
proof (induction es arbitrary: k a frames after' ok)
  case Nil
  then have "a = b" by (simp split: if_splits)
  then show ?case using Nil by (intro exI [of _ a]) auto
next
  case (Cons e es)
  have ab: "a < b" using Cons.prems(2,3) by (cases "a = b") auto
  then have "[Suc a..<Suc b] = Suc a # [Suc (Suc a)..<Suc b]" by (subst upt_conv_Cons) simp_all
  then have e: "ev_sequence e = int (Suc a)" "map ev_sequence es = map int [Suc (Suc a)..<Suc b]" using Cons.prems(2) by auto
  show ?case
  proof (cases "granted k")
    case False
    then show ?thesis using Cons.prems(1) by (intro exI [of _ a]) auto
  next
    case True
    obtain fs x y where f: "send_events granted (Suc k) (int (Suc a)) es = (fs, x, y)"
      by (cases "send_events granted (Suc k) (int (Suc a)) es")
    from Cons.IH [OF f e(2)] ab obtain c where c: "c \<ge> Suc a" "x = int c" "map ev_sequence (progress_events fs) = map int [Suc (Suc a)..<Suc c]"
      "set (progress_events fs) \<subseteq> set es" "y \<longrightarrow> c = b" "AccessLost \<in> set fs \<longleftrightarrow> \<not> y" by (metis Suc_leI)
    have "[Suc a..<Suc c] = Suc a # [Suc (Suc a)..<Suc c]" using c(1) by (subst upt_conv_Cons) simp_all
    then show ?thesis using Cons.prems(1) True f c e by (intro exI [of _ c]) (auto simp del: upt_Suc)
  qed
qed

lemma stream_order:
  assumes "stream_events owner scope rid (int a) gs = (frames, cursor, why)"
    "\<forall>g\<in>set gs. journal_ok digest (gl_journal g)"
  shows "\<exists>c\<ge>a. cursor = int c \<and> map ev_sequence (progress_events frames) = map int [Suc a..<Suc c]
    \<and> (\<forall>e\<in>set (progress_events frames). ev_run_id e = rid) \<and> (AccessLost \<in> set frames \<longleftrightarrow> why = Lost)
    \<and> (why = Ended \<longrightarrow> (\<exists>g\<in>set gs. \<exists>run. gl_read g = Some run \<and> rs_status run \<in> TERMINAL \<and> rs_sequence run = cursor))"
  using assms
proof (induction gs arbitrary: a frames cursor why)
  case Nil
  then show ?case by (intro exI [of _ a]) auto
next
  case (Cons g gs)
  show ?case
  proof (cases "gl_disconnected g \<or> gl_read g = None \<or> (\<exists>e. events (gl_journal g) owner scope rid (int a) = Inl e)")
    case True
    then show ?thesis using Cons.prems(1) by (intro exI [of _ a]) (auto split: option.splits if_splits)
  next
    case False
    then obtain run es where g: "\<not> gl_disconnected g" "gl_read g = Some run" "events (gl_journal g) owner scope rid (int a) = Inr es"
      by (cases "events (gl_journal g) owner scope rid (int a)") auto
    obtain fs x y where f: "send_events (gl_authorized g) 0 (int a) es = (fs, x, y)" by (cases "send_events (gl_authorized g) 0 (int a) es")
    have j: "journal_ok digest (gl_journal g)" using Cons.prems(2) by simp
    from replay_numbers [OF j g(3)] obtain r :: RunSnapshot where r: "map ev_sequence es = map int [Suc a..<Suc (nat (rs_sequence r))]" "\<forall>e\<in>set es. ev_run_id e = rid"
      unfolding nat_int by blast
    let ?b = "if a \<le> nat (rs_sequence r) then nat (rs_sequence r) else a"
    have b: "map ev_sequence es = map int [Suc a..<Suc ?b]" "a \<le> ?b" using r(1) by auto
    from send_events_order [OF f b] obtain c where c: "c \<ge> a" "x = int c" "map ev_sequence (progress_events fs) = map int [Suc a..<Suc c]"
      "set (progress_events fs) \<subseteq> set es" "AccessLost \<in> set fs \<longleftrightarrow> \<not> y" by blast
    show ?thesis
    proof (cases "y \<and> \<not> (rs_status run \<in> TERMINAL \<and> x = rs_sequence run)")
      case False
      then show ?thesis using Cons.prems(1) g f c r(2) by (intro exI [of _ c]) (auto split: if_splits)
    next
      case True
      obtain more cur w where m: "stream_events owner scope rid (int c) gs = (more, cur, w)" by (cases "stream_events owner scope rid (int c) gs")
      from Cons.IH [OF m] Cons.prems(2) obtain d where d: "d \<ge> c" "cur = int d" "map ev_sequence (progress_events more) = map int [Suc c..<Suc d]"
        "\<forall>e\<in>set (progress_events more). ev_run_id e = rid" "AccessLost \<in> set more \<longleftrightarrow> w = Lost"
        "w = Ended \<longrightarrow> (\<exists>g\<in>set gs. \<exists>run. gl_read g = Some run \<and> rs_status run \<in> TERMINAL \<and> rs_sequence run = cur)" by auto
      have out: "frames = fs @ Beat # more" "cursor = cur" "why = w" using Cons.prems(1) g f m True c(2) by auto
      have "[Suc a..<Suc c] @ [Suc c..<Suc d] = [Suc a..<Suc d]" using c(1) d(1) upt_add_eq_append [of "Suc a" "Suc c" "d - c"] by simp
      then have "map int [Suc a..<Suc c] @ map int [Suc c..<Suc d] = map int [Suc a..<Suc d]" by (metis map_append)
      then have "map ev_sequence (progress_events frames) = map int [Suc a..<Suc d]"
        using c(3) d(3) by (simp add: out progress_append del: upt_Suc)
      then show ?thesis using c d r(2) True unfolding out(2,3) by (intro exI [of _ d]) (auto simp: out(1) progress_append simp del: upt_Suc)
    qed
  qed
qed

text \<open>C23: a stream sends the events of its run and no others, each exactly once, in sequence and without a gap from the
  cursor it started at, over however many rounds; it says that access was lost exactly when it stops for that; and when it
  ends of itself, it has delivered every event of a run that is over.\<close>

theorem stream_is_gapless:
  assumes "stream_events owner scope rid (int a) gs = (frames, cursor, why)"
    "\<forall>g\<in>set gs. run_reach digest (gl_journal g)"
  shows "\<exists>c\<ge>a. cursor = int c \<and> map ev_sequence (progress_events frames) = map int [Suc a..<Suc c]
    \<and> (\<forall>e\<in>set (progress_events frames). ev_run_id e = rid) \<and> (AccessLost \<in> set frames \<longleftrightarrow> why = Lost)
    \<and> (why = Ended \<longrightarrow> (\<exists>g\<in>set gs. \<exists>run. gl_read g = Some run \<and> rs_status run \<in> TERMINAL \<and> rs_sequence run = cursor))"
  by (rule stream_order [OF assms(1)]) (use assms(2) run_reach_ok in blast)

definition demo_glimpses :: "glimpse list" where
  "demo_glimpses = map (\<lambda>db. \<lparr>gl_disconnected = False, gl_read = Some (projr (read_run db ''r'')), gl_journal = db,
     gl_authorized = \<lambda>k. True\<rparr>) [journal1, journal3, journal4]"

lemma journal_reach1: "run_reach rq_question journal1"
  using run_reach.intros journal_steps by metis

lemma demo_stream:
  "(case stream_events ''o'' ''s'' ''r'' (int 0) demo_glimpses of (frames, cursor, why) \<Rightarrow>
     why = Ended \<and> cursor = 4 \<and> map ev_sequence (progress_events frames) = [1, 2, 3, 4])"
  by code_simp

theorem stream_is_gapless_witness:
  "\<exists>frames. stream_events ''o'' ''s'' ''r'' (int 0) demo_glimpses = (frames, 4, Ended)
     \<and> map ev_sequence (progress_events frames) = map int [1..<5] \<and> AccessLost \<notin> set frames"
proof -
  obtain frames where f: "stream_events ''o'' ''s'' ''r'' (int 0) demo_glimpses = (frames, 4, Ended)"
    using demo_stream by (cases "stream_events ''o'' ''s'' ''r'' (int 0) demo_glimpses") auto
  have "\<forall>g\<in>set demo_glimpses. run_reach rq_question (gl_journal g)"
    by (simp add: demo_glimpses_def journal_reach journal_reach1)
  from stream_is_gapless [OF f this] show ?thesis using f by (auto simp del: upt_Suc)
qed

text \<open>the identifier of a frame, sent back by the client, resumes the stream right after that frame.\<close>

theorem resumes_after_the_frame:
  assumes "CHR '':'' \<notin> set rid" "0 \<le> n"
  shows "resume_cursor rid after (Some (frame_id rid n)) = Inr n"
proof -
  have "takeWhile (\<lambda>c. c \<noteq> CHR '':'') (frame_id rid n) = rid" using assms(1)
    unfolding frame_id_def by (subst takeWhile_append2) auto
  moreover have "int_str n = nat_str n" using assms(2) by (simp add: int_str_def)
  moreover have "list_all is_digit (nat_str n) \<and> nat_str n \<noteq> []" using nat_str_digits [OF assms(2)] by (simp add: list_all_iff)
  ultimately show ?thesis using assms(2) by (simp add: resume_cursor_def frame_id_def digits_int_nat_str)
qed

theorem resumes_after_the_frame_witness: "resume_cursor ''r1'' 0 (Some (frame_id ''r1'' 12)) = Inr 12"
  by (rule resumes_after_the_frame) simp_all

end
