(* ===== verification/CsvImport.thy ===== *)
theory CsvImport
  imports Compiler DemoConnector Canonical
begin

section \<open>CsvImport: strict, bounded CSV ingestion\<close>

text \<open>
  \<open>services/csv_import.py\<close> with the \<open>csv.reader\<close> it drives: the lines of \<open>io.StringIO(newline="")\<close>, the
  reader's automaton in its strict mode, and the checks that make a file a dataset.  Decoding the bytes, the
  digest and the clock are parameters.
\<close>

subsection \<open>Lines\<close>

text \<open>A line ends after a line feed, a carriage return, or the pair of them.\<close>

fun take_line :: "string \<Rightarrow> string \<times> string" where
  "take_line [] = ([], [])"
| "take_line (c # cs) =
     (if c = CHR 0x0A then ([c], cs)
      else if c = CHR 0x0D then (if cs \<noteq> [] \<and> hd cs = CHR 0x0A then ([c, CHR 0x0A], tl cs) else ([c], cs))
      else (let (l, rest) = take_line cs in (c # l, rest)))"

lemma take_line_le: "length (snd (take_line cs)) \<le> length cs"
  by (induction cs) (auto split: prod.splits)

lemma take_line_shorter: "take_line (c # cs) = (l, rest) \<Longrightarrow> length rest < length (c # cs)"
  using take_line_le [of cs] by (auto split: if_splits prod.splits)

function split_lines :: "string \<Rightarrow> string list" where
  "split_lines [] = []"
| "split_lines (c # cs) = (let (l, rest) = take_line (c # cs) in l # split_lines rest)"
  by pat_completeness auto
termination
  by (relation "measure length") (simp, metis take_line_shorter in_measure)

declare split_lines.simps(2) [simp del]

subsection \<open>The reader\<close>

datatype csv_state = START_RECORD | START_FIELD | IN_FIELD | IN_QUOTED_FIELD | QUOTE_IN_QUOTED_FIELD | EAT_CRNL

record csv_parse =
  cp_state :: csv_state
  cp_field :: string
  cp_fields :: "string list"

definition csv_field_limit :: int where "csv_field_limit = 131072"

text \<open>\<open>None\<close> is a \<open>csv.Error\<close>. The end of a line is read as the character \<open>None\<close>.\<close>

definition add_char :: "csv_parse \<Rightarrow> char \<Rightarrow> csv_state \<Rightarrow> csv_parse option" where
  "add_char p c next =
     (if int (length (cp_field p)) \<ge> csv_field_limit then None
      else Some (p\<lparr>cp_state := next, cp_field := cp_field p @ [c]\<rparr>))"

definition save_field :: "csv_parse \<Rightarrow> csv_state \<Rightarrow> csv_parse" where
  "save_field p next = p\<lparr>cp_state := next, cp_field := [], cp_fields := cp_fields p @ [cp_field p]\<rparr>"

definition is_newline :: "char \<Rightarrow> bool" where
  "is_newline c \<longleftrightarrow> c = CHR 0x0A \<or> c = CHR 0x0D"

definition start_field :: "csv_parse \<Rightarrow> char option \<Rightarrow> csv_parse option" where
  "start_field p ch =
     (case ch of None \<Rightarrow> Some (save_field p START_RECORD)
      | Some c \<Rightarrow>
        if is_newline c then Some (save_field p EAT_CRNL)
        else if c = CHR 0x22 then Some (p\<lparr>cp_state := IN_QUOTED_FIELD\<rparr>)
        else if c = CHR '','' then Some (save_field p START_FIELD)
        else add_char p c IN_FIELD)"

definition process_char :: "csv_parse \<Rightarrow> char option \<Rightarrow> csv_parse option" where
  "process_char p ch =
     (case cp_state p of
        START_RECORD \<Rightarrow>
          (case ch of None \<Rightarrow> Some p
           | Some c \<Rightarrow> if is_newline c then Some (p\<lparr>cp_state := EAT_CRNL\<rparr>) else start_field p ch)
      | START_FIELD \<Rightarrow> start_field p ch
      | IN_FIELD \<Rightarrow>
          (case ch of None \<Rightarrow> Some (save_field p START_RECORD)
           | Some c \<Rightarrow>
             if is_newline c then Some (save_field p EAT_CRNL)
             else if c = CHR '','' then Some (save_field p START_FIELD)
             else add_char p c IN_FIELD)
      | IN_QUOTED_FIELD \<Rightarrow>
          (case ch of None \<Rightarrow> Some p
           | Some c \<Rightarrow> if c = CHR 0x22 then Some (p\<lparr>cp_state := QUOTE_IN_QUOTED_FIELD\<rparr>) else add_char p c IN_QUOTED_FIELD)
      | QUOTE_IN_QUOTED_FIELD \<Rightarrow>
          (case ch of None \<Rightarrow> Some (save_field p START_RECORD)
           | Some c \<Rightarrow>
             if c = CHR 0x22 then add_char p c IN_QUOTED_FIELD
             else if c = CHR '','' then Some (save_field p START_FIELD)
             else if is_newline c then Some (save_field p EAT_CRNL)
             else None)
      | EAT_CRNL \<Rightarrow>
          (case ch of None \<Rightarrow> Some (p\<lparr>cp_state := START_RECORD\<rparr>)
           | Some c \<Rightarrow> if is_newline c then Some p else None))"

fun process_chars :: "csv_parse \<Rightarrow> char option list \<Rightarrow> csv_parse option" where
  "process_chars p [] = Some p"
| "process_chars p (ch # chs) = (case process_char p ch of None \<Rightarrow> None | Some p' \<Rightarrow> process_chars p' chs)"

definition process_line :: "csv_parse \<Rightarrow> string \<Rightarrow> csv_parse option" where
  "process_line p l = process_chars p (map Some l @ [None])"

datatype read_result = CsvError | NoMore | Record "string list" "string list"

text \<open>\<open>__next__\<close>: lines are read until a record is complete; a file may not end inside a quoted field.\<close>

fun read_record :: "csv_parse \<Rightarrow> string list \<Rightarrow> read_result" where
  "read_record p [] = (if cp_field p \<noteq> [] \<or> cp_state p = IN_QUOTED_FIELD then CsvError else NoMore)"
| "read_record p (l # ls) =
     (case process_line p l of None \<Rightarrow> CsvError
      | Some p' \<Rightarrow> if cp_state p' = START_RECORD then Record (cp_fields p') ls else read_record p' ls)"

definition fresh_record :: csv_parse where
  "fresh_record = \<lparr>cp_state = START_RECORD, cp_field = [], cp_fields = []\<rparr>"

lemma read_record_shorter: "read_record p ls = Record cells rest \<Longrightarrow> length rest < length ls"
  by (induction p ls rule: read_record.induct) (auto split: option.splits if_splits)

subsection \<open>Datasets\<close>

definition REQUIRED_COLUMNS :: "string set" where
  "REQUIRED_COLUMNS = {''date'', ''region'', ''channel'', ''activations''}"

definition CSV_DIMENSION_COLUMNS :: "(string \<times> string) list" where
  "CSV_DIMENSION_COLUMNS = [(''REGION'', ''region''), (''CHANNEL'', ''channel''), (''MARKET'', ''market''),
     (''STORE'', ''store''), (''PLAN'', ''plan'')]"

definition ALLOWED_COLUMNS :: "string set" where
  "ALLOWED_COLUMNS = REQUIRED_COLUMNS \<union> snd ` set CSV_DIMENSION_COLUMNS"

definition REGIONS :: "string set" where
  "REGIONS = {''NORTHEAST'', ''SOUTHEAST'', ''CENTRAL'', ''WEST''}"

definition CHANNELS :: "string set" where
  "CHANNELS = {''RETAIL'', ''DIGITAL'', ''CARE''}"

definition safe_value :: "string \<Rightarrow> bool" where
  "safe_value s = (case s of [] \<Rightarrow> False
     | c # cs \<Rightarrow> (is_letter c \<or> is_digit c) \<and> length cs \<le> 79
         \<and> list_all (\<lambda>d. is_letter d \<or> is_digit d \<or> d \<in> {CHR '' '', CHR ''_'', CHR ''.'', CHR ''-''}) cs)"

datatype csv_cell = CellText string | CellInt int

record CsvDataset =
  cs_columns :: "string list"
  cs_rows :: "csv_cell list list"
  cs_dates :: "date set"
  cs_fingerprint :: string
  cs_uploaded_at :: instant

definition coverage_start :: "CsvDataset \<Rightarrow> date" where
  "coverage_start ds = Min (cs_dates ds)"

definition coverage_end :: "CsvDataset \<Rightarrow> date" where
  "coverage_end ds = Max (cs_dates ds)"

definition dataset_dimensions :: "CsvDataset \<Rightarrow> string list" where
  "dataset_dimensions ds = map fst (filter (\<lambda>(k, column). column \<in> set (cs_columns ds)) CSV_DIMENSION_COLUMNS)"

subsection \<open>Rows\<close>

definition cell_of :: "string list \<Rightarrow> 'a list \<Rightarrow> string \<Rightarrow> 'a option" where
  "cell_of header cells column = map_of (zip header cells) column"

definition text_of :: "string list \<Rightarrow> string list \<Rightarrow> string \<Rightarrow> string" where
  "text_of header cells column = (case cell_of header cells column of None \<Rightarrow> [] | Some s \<Rightarrow> s)"

text \<open>\<open>date.fromisoformat\<close> reads more shapes than this one, but the text must be its own \<open>isoformat()\<close>.\<close>

definition csv_date :: "string \<Rightarrow> date option" where
  "csv_date raw =
     (if length raw = 10 \<and> raw ! 4 = CHR ''-'' \<and> raw ! 7 = CHR ''-''
         \<and> list_all is_digit (take 4 raw @ take 2 (drop 5 raw) @ drop 8 raw)
      then (case date_fromisoformat raw of Inl e \<Rightarrow> None | Inr d \<Rightarrow> if raw = isoformat d then Some d else None)
      else None)"

definition csv_count :: "string \<Rightarrow> bool" where
  "csv_count amount \<longleftrightarrow> list_all is_digit amount \<and> 1 \<le> length amount \<and> length amount \<le> 10
     \<and> \<not> digits_int amount > 1000000000"

definition in_row :: "int \<Rightarrow> string \<Rightarrow> string" where
  "in_row n problem = ''Row '' @ int_str n @ '' '' @ problem"

definition dimension_value :: "string list \<Rightarrow> string list \<Rightarrow> string \<Rightarrow> string" where
  "dimension_value header cells column = py_upper (py_strip (text_of header cells column))"

definition checked_cell :: "string list \<Rightarrow> string list \<Rightarrow> string \<Rightarrow> csv_cell" where
  "checked_cell header cells column =
     (if column = ''date'' then CellText (text_of header cells column)
      else if column = ''activations'' then CellInt (digits_int (text_of header cells column))
      else CellText (dimension_value header cells column))"

definition check_row :: "string list \<Rightarrow> int \<Rightarrow> string list \<Rightarrow> string + date \<times> csv_cell list" where
  "check_row header n cells =
     (if length cells \<noteq> length header then Inl (in_row n ''has the wrong number of cells.'')
      else (case csv_date (text_of header cells ''date'') of None \<Rightarrow> Inl (in_row n ''needs a YYYY-MM-DD date.'')
        | Some d \<Rightarrow>
          if \<not> csv_count (text_of header cells ''activations'')
            then Inl (in_row n ''needs a non-negative integer activation count.'')
          else if \<not> list_all (\<lambda>column. column \<in> {''date'', ''activations''} \<or> safe_value (dimension_value header cells column)) header
            then Inl (in_row n ''has an invalid dimension value.'')
          else if dimension_value header cells ''region'' \<notin> REGIONS \<or> dimension_value header cells ''channel'' \<notin> CHANNELS
            then Inl (in_row n ''has an unknown demo region or channel.'')
          else Inr (d, map (checked_cell header cells) header)))"

definition csv_key :: "string list \<Rightarrow> csv_cell list \<Rightarrow> csv_cell option list" where
  "csv_key header cells = map (cell_of header cells) (filter (\<lambda>c. c \<noteq> ''activations'') (sort header))"

subsection \<open>Files\<close>

definition csv_error_message :: string where
  "csv_error_message = ''CSV has invalid quoting or an oversized cell.''"

function parse_rows :: "string list \<Rightarrow> int \<Rightarrow> int \<Rightarrow> csv_cell list list \<Rightarrow> date set \<Rightarrow> csv_cell option list set \<Rightarrow> string list
    \<Rightarrow> string + csv_cell list list \<times> date set" where
  "parse_rows header maximum_rows n rows dates keys lines =
     (case read_record fresh_record lines of CsvError \<Rightarrow> Inl csv_error_message
      | NoMore \<Rightarrow> Inr (rows, dates)
      | Record cells rest \<Rightarrow>
        if int (length rows) \<ge> maximum_rows then Inl ''CSV exceeds the row limit.''
        else (case check_row header n cells of Inl e \<Rightarrow> Inl e
          | Inr (d, row) \<Rightarrow>
            if csv_key header row \<in> keys then Inl (in_row n ''repeats a date/dimension key.'')
            else parse_rows header maximum_rows (n + 1) (rows @ [row]) (insert d dates) (insert (csv_key header row) keys) rest))"
  by pat_completeness auto
termination
  by (relation "measure (\<lambda>(header, maximum_rows, n, rows, dates, keys, lines). length lines)") (auto dest: read_record_shorter)

declare parse_rows.simps [simp del]

definition parse_table :: "string \<Rightarrow> int \<Rightarrow> string + string list \<times> csv_cell list list \<times> date set" where
  "parse_table text maximum_rows =
     (let first_row = read_record fresh_record (split_lines text);
          (header, rest) = (case first_row of Record header rest \<Rightarrow> (header, rest) | _ \<Rightarrow> ([], []))
      in if first_row = CsvError then Inl csv_error_message
         else if \<not> distinct header \<or> \<not> REQUIRED_COLUMNS \<subseteq> set header
           then Inl ''CSV needs unique date, region, channel, activations headers.''
         else if \<not> set header \<subseteq> ALLOWED_COLUMNS
           then Inl ''CSV contains unsupported columns; use the supplied template.''
         else (case parse_rows header maximum_rows 2 [] {} {} rest of Inl e \<Rightarrow> Inl e
           | Inr (rows, dates) \<Rightarrow> if rows = [] then Inl ''CSV needs at least one data row.'' else Inr (header, rows, dates)))"

definition parse_csv :: "(string \<Rightarrow> string option) \<Rightarrow> (string \<Rightarrow> string) \<Rightarrow> instant \<Rightarrow> string \<Rightarrow> int \<Rightarrow> int \<Rightarrow> string + CsvDataset" where
  "parse_csv decode digest now raw maximum_bytes maximum_rows =
     (if raw = [] \<or> int (length raw) > maximum_bytes then Inl ''CSV is empty or exceeds the upload byte limit.''
      else (case decode raw of None \<Rightarrow> Inl ''CSV must be UTF-8 text.''
        | Some text \<Rightarrow>
          if CHR 0x00 \<in> set text then Inl ''CSV must not contain null bytes.''
          else (case parse_table text maximum_rows of Inl e \<Rightarrow> Inl e
            | Inr (header, rows, dates) \<Rightarrow>
                Inr \<lparr>cs_columns = header, cs_rows = rows, cs_dates = dates, cs_fingerprint = digest raw, cs_uploaded_at = now\<rparr>)))"

subsection \<open>Dates as text\<close>

lemma digit_value: "0 \<le> k \<Longrightarrow> k < 10 \<Longrightarrow> is_digit (char_of (nat (48 + k))) \<and> int (of_char (char_of (nat (48 + k)) :: char)) = 48 + k"
proof -
  assume "0 \<le> k" "k < 10"
  then have "k \<in> {0, 1, 2, 3, 4, 5, 6, 7, 8, 9}" by simp presburger
  then show ?thesis by (auto simp: is_digit_def)
qed

lemma nat_str_length: "0 \<le> n \<Longrightarrow> n < 10 ^ Suc k \<Longrightarrow> length (nat_str n) \<le> Suc k"
proof (induction n arbitrary: k rule: nat_str.induct)
  case (1 n)
  show ?case
  proof (cases "n < 10")
    case True
    then show ?thesis by (simp add: nat_str.simps [of n])
  next
    case False
    then obtain j where k: "k = Suc j" using 1(3) by (cases k) auto
    have "length (nat_str (n div 10)) \<le> Suc j" using False 1(2,3) k by (intro 1(1)) auto
    then show ?thesis using False k by (simp add: nat_str.simps [of n])
  qed
qed

lemma digits_int_zeros: "digits_int (replicate k (CHR ''0'') @ s) = digits_int s"
  by (induction k) (simp_all add: digits_int_def)

lemma padded:
  assumes "0 \<le> n" "n < 10 ^ Suc k"
  shows "length (pad_left (Suc k) (nat_str n)) = Suc k" "\<forall>c\<in>set (pad_left (Suc k) (nat_str n)). is_digit c"
    "digits_int (pad_left (Suc k) (nat_str n)) = n"
  using nat_str_length [OF assms] nat_str_digits [OF assms(1)] digits_int_nat_str [OF assms(1)]
  by (auto simp: pad_left_def digits_int_zeros is_digit_def)

lemma digits_int_snoc: "digits_int (s @ [c]) = 10 * digits_int s + (int (of_char c) - 48)"
  by (simp add: digits_int_def)

text \<open>The order of dates is the order of their texts.\<close>

lemma append_le_iff: "length a = length b \<Longrightarrow> a @ u \<le> b @ (v :: 'a :: linorder list) \<longleftrightarrow> a < b \<or> a = b \<and> u \<le> v"
  by (induction a b rule: list_induct2) auto

lemma append_less_iff: "length a = length b \<Longrightarrow> a @ u < b @ (v :: 'a :: linorder list) \<longleftrightarrow> a < b \<or> a = b \<and> u < v"
  by (induction a b rule: list_induct2) auto

lemma digits_less_iff:
  "length a = length b \<Longrightarrow> \<forall>c\<in>set a. is_digit c \<Longrightarrow> \<forall>c\<in>set b. is_digit c \<Longrightarrow>
    (a < b \<longleftrightarrow> digits_int a < digits_int b) \<and> (a = b \<longleftrightarrow> digits_int a = digits_int b)"
proof (induction a arbitrary: b rule: rev_induct)
  case (snoc c a)
  then obtain d b' where b: "b = b' @ [d]" "length a = length b'" by (cases b rule: rev_cases) auto
  have v: "0 \<le> int (of_char e) - 48 \<and> int (of_char e) - 48 \<le> 9" if "is_digit e" for e
    using that by (auto simp: is_digit_def Let_def)
  have cd: "c < d \<longleftrightarrow> int (of_char c) < int (of_char d)" by (simp add: less_char_def)
  have dec: "10 * x + i < 10 * y + j \<longleftrightarrow> x < y \<or> x = y \<and> i < j" "10 * x + i = 10 * y + j \<longleftrightarrow> x = y \<and> i = j"
    if "0 \<le> i \<and> i \<le> 9" "0 \<le> j \<and> j \<le> 9" for x y i j :: int using that by (cases x y rule: linorder_cases; auto)+
  have "is_digit c" "is_digit d" using snoc.prems b by auto
  note n = dec [OF v [OF this(1)] v [OF this(2)], of "digits_int a" "digits_int b'"]
  have ih: "a < b' \<longleftrightarrow> digits_int a < digits_int b'" "a = b' \<longleftrightarrow> digits_int a = digits_int b'"
  proof -
    have "\<forall>c\<in>set a. is_digit c" "\<forall>c\<in>set b'. is_digit c" using snoc.prems(2,3) by (simp_all add: b(1))
    from snoc.IH [OF b(2) this] show "a < b' \<longleftrightarrow> digits_int a < digits_int b'" "a = b' \<longleftrightarrow> digits_int a = digits_int b'"
      by blast+
  qed
  show ?case unfolding b(1) append_less_iff [OF b(2)] digits_int_snoc n by (simp add: ih cd)
qed (simp add: digits_int_def)

definition date_ok :: "date \<Rightarrow> bool" where
  "date_ok d \<longleftrightarrow> 0 \<le> year d \<and> year d < 10 ^ 4 \<and> 0 \<le> month d \<and> month d < 10 ^ 2 \<and> 0 \<le> day d \<and> day d < 10 ^ 2"

lemma valid_date_ok: "valid_date d \<Longrightarrow> date_ok d"
  using days_in_month_bounds(2) [of "year d" "month d"] by (auto simp: valid_date_def date_ok_def)

lemma padded_order:
  assumes "0 \<le> m" "m < 10 ^ Suc k" "0 \<le> n" "n < 10 ^ Suc k"
  shows "pad_left (Suc k) (nat_str m) < pad_left (Suc k) (nat_str n) \<longleftrightarrow> m < n"
    "pad_left (Suc k) (nat_str m) = pad_left (Suc k) (nat_str n) \<longleftrightarrow> m = n"
    "length (pad_left (Suc k) (nat_str m)) = length (pad_left (Suc k) (nat_str n))"
  using digits_less_iff [of "pad_left (Suc k) (nat_str m)" "pad_left (Suc k) (nat_str n)"] padded [OF assms(1,2)] padded [OF assms(3,4)]
  by simp_all

lemma isoformat_order:
  assumes "valid_date d" "valid_date e"
  shows "isoformat d < isoformat e \<longleftrightarrow> d < e" "isoformat d = isoformat e \<longleftrightarrow> d = e"
proof -
  note d = valid_date_ok [OF assms(1), unfolded date_ok_def] and e = valid_date_ok [OF assms(2), unfolded date_ok_def]
  have n: "(4 :: nat) = Suc 3" "(2 :: nat) = Suc 1" by simp_all
  have y: "0 \<le> year d" "year d < 10 ^ Suc 3" "0 \<le> year e" "year e < 10 ^ Suc 3"
    and m: "0 \<le> month d" "month d < 10 ^ Suc 1" "0 \<le> month e" "month e < 10 ^ Suc 1"
    and t: "0 \<le> day d" "day d < 10 ^ Suc 1" "0 \<le> day e" "day e < 10 ^ Suc 1" using d e by auto
  note p = padded_order [OF y] padded_order [OF m] padded_order [OF t]
  show "isoformat d < isoformat e \<longleftrightarrow> d < e" "isoformat d = isoformat e \<longleftrightarrow> d = e"
    unfolding isoformat_def n using p by (cases d; cases e; auto simp: append_less_iff less_date_def)+
qed

lemma isoformat_le: "valid_date d \<Longrightarrow> valid_date e \<Longrightarrow> isoformat d \<le> isoformat e \<longleftrightarrow> d \<le> e"
  using isoformat_order [of d e] by (simp add: order.order_iff_strict)

subsection \<open>What an accepted file is\<close>

definition cell_ok :: "string \<Rightarrow> csv_cell \<Rightarrow> bool" where
  "cell_ok column v =
     (if column = ''date'' then \<exists>d. valid_date d \<and> v = CellText (isoformat d)
      else if column = ''activations'' then \<exists>n. v = CellInt n \<and> 0 \<le> n \<and> n \<le> 1000000000
      else \<exists>t. v = CellText t \<and> safe_value t \<and> py_upper (py_strip t) = t
        \<and> (column = ''region'' \<longrightarrow> t \<in> REGIONS) \<and> (column = ''channel'' \<longrightarrow> t \<in> CHANNELS))"

definition columns_ok :: "string list \<Rightarrow> bool" where
  "columns_ok columns \<longleftrightarrow> distinct columns \<and> REQUIRED_COLUMNS \<subseteq> set columns \<and> set columns \<subseteq> ALLOWED_COLUMNS"

definition csv_row_ok :: "string list \<Rightarrow> csv_cell list \<Rightarrow> bool" where
  "csv_row_ok columns row \<longleftrightarrow> list_all2 cell_ok columns row"

definition row_dates :: "string list \<Rightarrow> csv_cell list list \<Rightarrow> date set" where
  "row_dates columns rows = {d. valid_date d \<and> (\<exists>row\<in>set rows. cell_of columns row ''date'' = Some (CellText (isoformat d)))}"

definition dataset_ok :: "int \<Rightarrow> CsvDataset \<Rightarrow> bool" where
  "dataset_ok maximum_rows ds \<longleftrightarrow> columns_ok (cs_columns ds) \<and> cs_rows ds \<noteq> [] \<and> int (length (cs_rows ds)) \<le> maximum_rows
     \<and> list_all (csv_row_ok (cs_columns ds)) (cs_rows ds) \<and> distinct (map (csv_key (cs_columns ds)) (cs_rows ds))
     \<and> cs_dates ds = row_dates (cs_columns ds) (cs_rows ds)"

lemma digits_value_digits: "digits_value s = digits_int s"
  by (simp add: digits_value_def digits_int_def digit_value_def)

lemma csv_date_Some: "csv_date raw = Some d \<Longrightarrow> valid_date d \<and> raw = isoformat d"
  by (auto simp: csv_date_def date_fromisoformat_def mk_date_def split: if_splits sum.splits)

lemma foldl_digits_nonneg: "\<forall>c\<in>set s. is_digit c \<Longrightarrow> 0 \<le> (a :: int) \<Longrightarrow> 0 \<le> foldl (\<lambda>a c. 10 * a + (int (of_char c) - 48)) a s"
  by (induction s arbitrary: a) (auto simp: is_digit_def Let_def)

lemma digits_int_nonneg: "\<forall>c\<in>set s. is_digit c \<Longrightarrow> 0 \<le> digits_int s"
  unfolding digits_int_def by (rule foldl_digits_nonneg) auto

lemma check_row_Inr:
  "check_row header n cells = Inr (d, row) \<longleftrightarrow> length cells = length header \<and> csv_date (text_of header cells ''date'') = Some d
     \<and> csv_count (text_of header cells ''activations'')
     \<and> list_all (\<lambda>column. column \<in> {''date'', ''activations''} \<or> safe_value (dimension_value header cells column)) header
     \<and> dimension_value header cells ''region'' \<in> REGIONS \<and> dimension_value header cells ''channel'' \<in> CHANNELS
     \<and> row = map (checked_cell header cells) header"
  by (auto simp: check_row_def split: option.splits if_splits)

lemma dimension_value_normal: "py_upper (py_strip (dimension_value header cells c)) = dimension_value header cells c"
  by (simp add: dimension_value_def)

lemma cell_of_map: "column \<in> set header \<Longrightarrow> cell_of header (map f header) column = Some (f column)"
  unfolding cell_of_def by (induction header) auto

lemma list_all2_cell_of:
  "list_all2 P columns row \<Longrightarrow> column \<in> set columns \<Longrightarrow> \<exists>v. cell_of columns row column = Some v \<and> P column v"
  unfolding cell_of_def by (induction rule: list_all2_induct) auto

lemma check_row_ok:
  assumes "check_row header n cells = Inr (d, row)" "columns_ok header"
  shows "csv_row_ok header row \<and> cell_of header row ''date'' = Some (CellText (isoformat d)) \<and> valid_date d"
proof -
  note c = assms(1) [unfolded check_row_Inr]
  have d: "valid_date d" "text_of header cells ''date'' = isoformat d" using csv_date_Some c by auto
  have "cell_ok column (checked_cell header cells column)" if "column \<in> set header" for column
    using c d that digits_int_nonneg [of "text_of header cells ''activations''"] dimension_value_normal [of header cells column]
    by (auto simp: cell_ok_def checked_cell_def csv_count_def list_all_iff)
  then have "csv_row_ok header row" using c by (simp add: csv_row_ok_def list_all2_map2 list_all2_same)
  moreover have "cell_of header row ''date'' = Some (checked_cell header cells ''date'')"
    using c assms(2) by (simp add: cell_of_map columns_ok_def REQUIRED_COLUMNS_def)
  ultimately show ?thesis using d by (simp add: checked_cell_def)
qed

lemma row_dates_snoc:
  assumes "cell_of header row ''date'' = Some (CellText (isoformat d))" "valid_date d"
  shows "row_dates header (rows @ [row]) = insert d (row_dates header rows)"
proof -
  have "{e. valid_date e \<and> cell_of header row ''date'' = Some (CellText (isoformat e))} = {d}"
  proof -
    have "e = d" if "valid_date e" "isoformat d = isoformat e" for e using isoformat_order(2) [OF assms(2) that(1)] that by simp
    then show ?thesis using assms by auto
  qed
  moreover have "row_dates header (rows @ [row])
      = row_dates header rows \<union> {e. valid_date e \<and> cell_of header row ''date'' = Some (CellText (isoformat e))}"
    unfolding row_dates_def by auto
  ultimately show ?thesis by simp
qed

lemma parse_rows_ok:
  assumes "parse_rows header maximum n rows dates keys lines = Inr (rows', dates')" "columns_ok header"
    "list_all (csv_row_ok header) rows" "dates = row_dates header rows" "keys = csv_key header ` set rows"
    "distinct (map (csv_key header) rows)" "int (length rows) \<le> max 0 maximum"
  shows "list_all (csv_row_ok header) rows' \<and> dates' = row_dates header rows' \<and> distinct (map (csv_key header) rows')
    \<and> int (length rows') \<le> max 0 maximum"
  using assms
proof (induction header maximum n rows dates keys lines rule: parse_rows.induct)
  case (1 header maximum n rows dates keys lines)
  show ?case
  proof (cases "read_record fresh_record lines")
    case CsvError
    then show ?thesis using 1(2) by (simp add: parse_rows.simps [of header maximum n rows dates keys lines])
  next
    case NoMore
    then have "rows = rows' \<and> dates = dates'" using 1(2) by (simp add: parse_rows.simps [of header maximum n rows dates keys lines])
    then show ?thesis using 1(4-) by auto
  next
    case (Record cells rest)
    from 1(2) Record obtain d row where m: "\<not> int (length rows) \<ge> maximum" and c: "check_row header n cells = Inr (d, row)"
      and k: "csv_key header row \<notin> keys"
      and p: "parse_rows header maximum (n + 1) (rows @ [row]) (insert d dates) (insert (csv_key header row) keys) rest = Inr (rows', dates')"
      by (auto simp: parse_rows.simps [of header maximum n rows dates keys lines] split: if_splits sum.splits)
    note ok = check_row_ok [OF c 1(3)]
    have "insert d dates = row_dates header (rows @ [row])" using row_dates_snoc [of header row d rows] 1(5) ok by metis
    moreover have "insert (csv_key header row) keys = csv_key header ` set (rows @ [row])" using 1(6) by simp
    moreover have "list_all (csv_row_ok header) (rows @ [row])" using 1(4) ok by simp
    moreover have "distinct (map (csv_key header) (rows @ [row]))" using 1(6,7) k by simp
    moreover have "int (length (rows @ [row])) \<le> max 0 maximum" using m by simp
    ultimately show ?thesis using 1(1) [OF Record m c refl k p 1(3)] by blast
  qed
qed

lemma parse_csv_Inr:
  "parse_csv decode digest now raw maximum_bytes maximum_rows = Inr ds \<longleftrightarrow> raw \<noteq> [] \<and> int (length raw) \<le> maximum_bytes
     \<and> (\<exists>text. decode raw = Some text \<and> CHR 0x00 \<notin> set text
        \<and> parse_table text maximum_rows = Inr (cs_columns ds, cs_rows ds, cs_dates ds)) \<and> cs_fingerprint ds = digest raw \<and> cs_uploaded_at ds = now"
  by (cases ds) (auto simp: parse_csv_def not_less split: option.splits sum.splits)

lemma parse_table_Inr:
  "parse_table text maximum_rows = Inr (header, rows, dates) \<longleftrightarrow> columns_ok header \<and> rows \<noteq> []
     \<and> (\<exists>rest. read_record fresh_record (split_lines text) = Record header rest
        \<and> parse_rows header maximum_rows 2 [] {} {} rest = Inr (rows, dates))"
  by (cases "read_record fresh_record (split_lines text)")
    (auto simp: parse_table_def columns_ok_def REQUIRED_COLUMNS_def split: sum.splits if_splits)

lemma parsed_dataset:
  assumes "parse_csv decode digest now raw maximum_bytes maximum_rows = Inr ds"
  shows "dataset_ok maximum_rows ds \<and> cs_fingerprint ds = digest raw \<and> int (length raw) \<le> maximum_bytes \<and> cs_dates ds \<noteq> {}"
proof -
  note a = assms [unfolded parse_csv_Inr parse_table_Inr]
  then obtain rest where c: "columns_ok (cs_columns ds)" and n: "cs_rows ds \<noteq> []"
    and p: "parse_rows (cs_columns ds) maximum_rows 2 [] {} {} rest = Inr (cs_rows ds, cs_dates ds)" by blast
  have ok: "list_all (csv_row_ok (cs_columns ds)) (cs_rows ds) \<and> cs_dates ds = row_dates (cs_columns ds) (cs_rows ds)
      \<and> distinct (map (csv_key (cs_columns ds)) (cs_rows ds)) \<and> int (length (cs_rows ds)) \<le> max 0 maximum_rows"
    by (rule parse_rows_ok [OF p c]) (simp_all add: row_dates_def)
  moreover have "1 \<le> length (cs_rows ds)" using n by (cases "cs_rows ds") auto
  moreover have "row_dates (cs_columns ds) (cs_rows ds) \<noteq> {}"
  proof -
    obtain row rows where r: "cs_rows ds = row # rows" using n by (cases "cs_rows ds") auto
    then have "list_all2 cell_ok (cs_columns ds) row" using ok by (simp add: csv_row_ok_def)
    moreover have "''date'' \<in> set (cs_columns ds)" using c by (auto simp: columns_ok_def REQUIRED_COLUMNS_def)
    ultimately obtain v where "cell_of (cs_columns ds) row ''date'' = Some v" "cell_ok ''date'' v"
      using list_all2_cell_of by metis
    then show ?thesis using r by (auto simp: cell_ok_def row_dates_def)
  qed
  ultimately show ?thesis using a c n by (auto simp: dataset_ok_def)
qed

text \<open>C7: an accepted upload is a sound dataset: unique, allowed and complete columns, at least one row and at most the
  limit, canonical dates, bounded counts, normalised safe values of known regions and channels, no repeated key; its dates
  are those of its rows and it is pinned by the digest of the very bytes that were uploaded.\<close>

theorem accepted_csv_is_sound:
  assumes "parse_csv decode digest now raw maximum_bytes maximum_rows = Inr ds"
  shows "dataset_ok maximum_rows ds \<and> cs_fingerprint ds = digest raw \<and> int (length raw) \<le> maximum_bytes \<and> cs_dates ds \<noteq> {}"
  by (rule parsed_dataset [OF assms])

subsection \<open>Sound datasets are accepted\<close>

definition CRLF :: string where "CRLF = [CHR 0x0D, CHR 0x0A]"

fun cell_text :: "csv_cell \<Rightarrow> string" where
  "cell_text (CellText t) = t"
| "cell_text (CellInt n) = int_str n"

definition csv_line :: "string list \<Rightarrow> string" where
  "csv_line cells = py_join '','' cells @ CRLF"

definition csv_text :: "CsvDataset \<Rightarrow> string" where
  "csv_text ds = concat (map csv_line (cs_columns ds # map (map cell_text) (cs_rows ds)))"

definition plain_char :: "char \<Rightarrow> bool" where
  "plain_char c \<longleftrightarrow> \<not> is_newline c \<and> c \<noteq> CHR '','' \<and> c \<noteq> CHR 0x22 \<and> c \<noteq> CHR 0x00"

definition plain :: "string \<Rightarrow> bool" where
  "plain s \<longleftrightarrow> s \<noteq> [] \<and> int (length s) \<le> csv_field_limit \<and> (\<forall>c\<in>set s. plain_char c)"

lemma process_in_field:
  "cp_state p = IN_FIELD \<Longrightarrow> \<forall>c\<in>set s. plain_char c \<Longrightarrow> int (length (cp_field p) + length s) \<le> csv_field_limit
   \<Longrightarrow> process_chars p (map Some s @ chs) = process_chars (p\<lparr>cp_field := cp_field p @ s\<rparr>) chs"
proof (induction s arbitrary: p)
  case (Cons c s)
  let ?p = "p\<lparr>cp_state := IN_FIELD, cp_field := cp_field p @ [c]\<rparr>"
  have "process_char p (Some c) = Some ?p" using Cons.prems by (simp add: process_char_def plain_char_def add_char_def)
  then have "process_chars p (map Some (c # s) @ chs) = process_chars ?p (map Some s @ chs)" by simp
  also have "\<dots> = process_chars (?p\<lparr>cp_field := cp_field ?p @ s\<rparr>) chs" using Cons.prems by (intro Cons.IH) auto
  also have "?p\<lparr>cp_field := cp_field ?p @ s\<rparr> = p\<lparr>cp_field := cp_field p @ c # s\<rparr>" using Cons.prems(1) by simp
  finally show ?case .
qed simp

definition at_cell :: "csv_parse \<Rightarrow> bool" where
  "at_cell p \<longleftrightarrow> cp_state p \<in> {START_RECORD, START_FIELD} \<and> cp_field p = []"

lemma process_plain:
  assumes "at_cell p" "plain s"
  shows "process_chars p (map Some s @ chs) = process_chars \<lparr>cp_state = IN_FIELD, cp_field = s, cp_fields = cp_fields p\<rparr> chs"
proof -
  obtain c t where s: "s = c # t" using assms(2) by (cases s) (auto simp: plain_def)
  let ?p = "\<lparr>cp_state = IN_FIELD, cp_field = [c], cp_fields = cp_fields p\<rparr>"
  have c: "plain_char c" and l: "\<not> csv_field_limit \<le> 0" using assms(2) s by (auto simp: plain_def)
  have f: "start_field p (Some c) = Some ?p" using assms(1) c l
    by (simp add: at_cell_def start_field_def plain_char_def add_char_def)
  have "process_char p (Some c) = Some ?p"
  proof (cases "cp_state p = START_RECORD")
    case True
    then show ?thesis using f c by (simp add: process_char_def plain_char_def)
  next
    case False
    then have "cp_state p = START_FIELD" using assms(1) by (simp add: at_cell_def)
    then show ?thesis using f by (simp add: process_char_def)
  qed
  then have "process_chars p (map Some s @ chs) = process_chars ?p (map Some t @ chs)" using s by simp
  also have "\<dots> = process_chars (?p\<lparr>cp_field := cp_field ?p @ t\<rparr>) chs"
    using assms(2) s by (intro process_in_field) (auto simp: plain_def)
  finally show ?thesis using s by simp
qed

lemma process_cells:
  "cells \<noteq> [] \<Longrightarrow> list_all plain cells \<Longrightarrow> at_cell p
   \<Longrightarrow> process_line p (csv_line cells) = Some \<lparr>cp_state = START_RECORD, cp_field = [], cp_fields = cp_fields p @ cells\<rparr>"
proof (induction cells arbitrary: p)
  case (Cons s cells)
  let ?p = "\<lparr>cp_state = IN_FIELD, cp_field = s, cp_fields = cp_fields p\<rparr>"
  have s: "process_chars p (map Some s @ chs) = process_chars ?p chs" for chs using Cons.prems by (intro process_plain) auto
  show ?case
  proof (cases cells)
    case Nil
    then show ?thesis using s
      by (simp add: process_line_def csv_line_def CRLF_def process_char_def is_newline_def save_field_def)
  next
    case (Cons t ts)
    let ?q = "\<lparr>cp_state = START_FIELD, cp_field = [], cp_fields = cp_fields p @ [s]\<rparr>"
    have "process_line p (csv_line (s # cells)) = process_chars ?p (Some (CHR '','') # map Some (csv_line cells) @ [None])"
      using s [of "Some (CHR '','') # map Some (csv_line cells) @ [None]"] by (simp add: process_line_def csv_line_def Cons)
    also have "\<dots> = process_line ?q (csv_line cells)" by (simp add: process_line_def process_char_def is_newline_def save_field_def)
    also have "\<dots> = Some \<lparr>cp_state = START_RECORD, cp_field = [], cp_fields = cp_fields ?q @ cells\<rparr>"
      using Cons.prems Cons by (intro Cons.IH) (auto simp: at_cell_def)
    finally show ?thesis by simp
  qed
qed simp

lemma read_line:
  "cells \<noteq> [] \<Longrightarrow> list_all plain cells \<Longrightarrow> read_record fresh_record (csv_line cells # ls) = Record cells ls"
  using process_cells [of cells fresh_record] by (simp add: fresh_record_def at_cell_def)

lemma take_line_plain: "\<forall>c\<in>set l. \<not> is_newline c \<Longrightarrow> take_line (l @ CRLF @ rest) = (l @ CRLF, rest)"
  by (induction l) (auto simp: CRLF_def is_newline_def)

lemma join_chars_of: "\<forall>s\<in>set cells. \<forall>c\<in>set s. P c \<Longrightarrow> P (CHR '','') \<Longrightarrow> \<forall>c\<in>set (py_join '','' cells). P c"
  by (induction "'','' :: string" cells rule: py_join.induct) auto

lemma split_csv_line: "list_all plain cells \<Longrightarrow> split_lines (csv_line cells @ rest) = csv_line cells # split_lines rest"
proof -
  assume "list_all plain cells"
  then have "\<forall>c\<in>set (py_join '','' cells). \<not> is_newline c"
    by (intro join_chars_of) (auto simp: list_all_iff plain_def plain_char_def is_newline_def)
  from take_line_plain [OF this] have t: "take_line (csv_line cells @ rest) = (csv_line cells, rest)" by (simp add: csv_line_def)
  obtain c cs where "csv_line cells @ rest = c # cs" by (cases "csv_line cells @ rest") (auto simp: csv_line_def CRLF_def)
  then show ?thesis using t by (simp add: split_lines.simps(2))
qed

lemma split_csv_text: "list_all (list_all plain) lines \<Longrightarrow> split_lines (concat (map csv_line lines)) = map csv_line lines"
  by (induction lines) (simp_all add: split_csv_line)

lemma field_limit: "k \<le> 100000 \<Longrightarrow> k \<le> csv_field_limit"
  by (simp add: csv_field_limit_def)

lemma digit_plain: "is_digit c \<Longrightarrow> plain_char c"
  by (auto simp: is_digit_def plain_char_def is_newline_def)

lemma isoformat_parts:
  assumes "valid_date d"
  obtains y m t where "isoformat d = y @ ''-'' @ m @ ''-'' @ t" "length y = 4" "length m = 2" "length t = 2"
    "\<forall>c\<in>set (y @ m @ t). is_digit c" "digits_int y = year d" "digits_int m = month d" "digits_int t = day d"
proof -
  note d = valid_date_ok [OF assms(1), unfolded date_ok_def, simplified]
  note p = padded [of "year d" 3, simplified] padded [of "month d" 1, simplified] padded [of "day d" 1, simplified]
  have n: "pad_left (Suc (Suc 0)) = pad_left 2" by (simp add: numeral_2_eq_2)
  show ?thesis using d p
    by (intro that [of "pad_left 4 (nat_str (year d))" "pad_left 2 (nat_str (month d))" "pad_left 2 (nat_str (day d))"])
      (auto simp: isoformat_def n)
qed

lemma isoformat_plain: "valid_date d \<Longrightarrow> plain (isoformat d)"
  by (erule isoformat_parts) (auto simp: plain_def digit_plain field_limit, auto simp: plain_char_def is_newline_def)

lemma csv_date_isoformat:
  assumes "valid_date d"
  shows "csv_date (isoformat d) = Some d"
proof -
  obtain y m t where i: "isoformat d = y @ ''-'' @ m @ ''-'' @ t" and l: "length y = 4" "length m = 2" "length t = 2"
    and c: "\<forall>c\<in>set (y @ m @ t). is_digit c" and v: "digits_int y = year d" "digits_int m = month d" "digits_int t = day d"
    using isoformat_parts [OF assms] by blast
  have "date_fromisoformat (isoformat d) = Inr d" using assms l v
    by (simp add: date_fromisoformat_def i digits_value_digits mk_date_def)
  then show ?thesis using l c by (simp add: csv_date_def i nth_append list_all_iff)
qed

lemma safe_plain: "safe_value s \<Longrightarrow> plain s"
  by (cases s) (auto simp: safe_value_def plain_def plain_char_def is_newline_def is_letter_def is_digit_def list_all_iff Let_def
      intro!: field_limit)

lemma count_plain:
  assumes "0 \<le> n" "n \<le> 1000000000"
  shows "plain (int_str n)" "csv_count (int_str n)" "digits_int (int_str n) = n"
proof -
  have l: "length (nat_str n) \<le> 10" using nat_str_length [of n 9] assms by simp
  have t: "int_str n = nat_str n" using assms(1) by (simp add: int_str_def)
  show "plain (int_str n)" using nat_str_digits [OF assms(1)] l digit_plain by (auto simp: plain_def t intro: field_limit)
  show "digits_int (int_str n) = n" using assms(1) by (simp add: t digits_int_nat_str)
  then show "csv_count (int_str n)" using nat_str_digits [OF assms(1)] l assms(2)
    by (cases "nat_str n") (auto simp: csv_count_def t list_all_iff)
qed

lemma cell_ok_plain: "cell_ok column v \<Longrightarrow> plain (cell_text v)"
  by (auto simp: cell_ok_def split: if_splits intro: isoformat_plain count_plain safe_plain)

lemma column_plain: "column \<in> ALLOWED_COLUMNS \<Longrightarrow> plain column"
  by (auto simp: ALLOWED_COLUMNS_def REQUIRED_COLUMNS_def CSV_DIMENSION_COLUMNS_def plain_def plain_char_def is_newline_def
      intro: field_limit)

lemma cell_of_some: "length row = length header \<Longrightarrow> column \<in> set header \<Longrightarrow> \<exists>v. cell_of header row column = Some v"
  unfolding cell_of_def by (induction row header rule: list_induct2) auto

lemma cell_of_text: "cell_of header (map cell_text row) column = map_option cell_text (cell_of header row column)"
proof -
  have "map_of (map (\<lambda>p. (fst p, f (snd p))) xs) k = map_option f (map_of xs k)" for f :: "csv_cell \<Rightarrow> string" and xs :: "(string \<times> csv_cell) list" and k
    by (induction xs) auto
  then show ?thesis by (simp add: cell_of_def zip_map2 case_prod_unfold)
qed

lemma row_of_cells:
  assumes "distinct header" "length row = length header"
  shows "map (\<lambda>column. the (cell_of header row column)) header = row"
proof -
  have "map_of (zip header row) (header ! i) = Some (row ! i)" if "i < length header" for i
    using assms that by (intro map_of_is_SomeI) (auto simp: in_set_zip)
  then show ?thesis using assms(2) by (intro nth_equalityI) (auto simp: cell_of_def)
qed

lemma check_row_prints:
  assumes "columns_ok header" "csv_row_ok header row"
  shows "\<exists>d. check_row header n (map cell_text row) = Inr (d, row) \<and> valid_date d
    \<and> cell_of header row ''date'' = Some (CellText (isoformat d))"
proof -
  have len: "length row = length header" using assms(2) by (auto simp: csv_row_ok_def list_all2_lengthD)
  have cell: "\<exists>v. cell_of header row column = Some v \<and> cell_ok column v" if "column \<in> set header" for column
    using list_all2_cell_of [of cell_ok header row column] assms(2) that by (simp add: csv_row_ok_def)
  have mem: "''date'' \<in> set header" "''region'' \<in> set header" "''channel'' \<in> set header" "''activations'' \<in> set header"
    using assms(1) by (auto simp: columns_ok_def REQUIRED_COLUMNS_def)
  have tx: "text_of header (map cell_text row) column = cell_text (the (cell_of header row column))" if "column \<in> set header" for column
    using cell [OF that] by (auto simp: text_of_def cell_of_text)
  obtain d where d: "valid_date d" "cell_of header row ''date'' = Some (CellText (isoformat d))"
    using cell [OF mem(1)] by (auto simp: cell_ok_def)
  obtain k where k: "cell_of header row ''activations'' = Some (CellInt k)" "0 \<le> k" "k \<le> 1000000000"
    using cell [OF mem(4)] by (auto simp: cell_ok_def)
  have dim: "\<exists>t. cell_of header row column = Some (CellText t) \<and> dimension_value header (map cell_text row) column = t \<and> safe_value t
      \<and> (column = ''region'' \<longrightarrow> t \<in> REGIONS) \<and> (column = ''channel'' \<longrightarrow> t \<in> CHANNELS)"
    if c: "column \<in> set header" "column \<noteq> ''date''" "column \<noteq> ''activations''" for column
  proof -
    obtain v where v: "cell_of header row column = Some v" "cell_ok column v" using cell [OF c(1)] by blast
    obtain t where t: "v = CellText t" "safe_value t" "py_upper (py_strip t) = t" "column = ''region'' \<longrightarrow> t \<in> REGIONS"
      "column = ''channel'' \<longrightarrow> t \<in> CHANNELS" using v(2) c(2,3) unfolding cell_ok_def by (simp only: if_False) blast
    have "text_of header (map cell_text row) column = t" using tx [OF c(1)] v(1) t(1) by simp
    then show ?thesis using v(1) t by (simp only: dimension_value_def) blast
  qed
  have checked: "checked_cell header (map cell_text row) column = the (cell_of header row column)" if "column \<in> set header" for column
    using that d k tx [OF that] dim [OF that] count_plain(3) by (auto simp: checked_cell_def)
  have "map (checked_cell header (map cell_text row)) header = row"
    using row_of_cells [OF _ len] assms(1) checked by (simp add: columns_ok_def cong: map_cong)
  moreover have "csv_date (text_of header (map cell_text row) ''date'') = Some d" using tx [OF mem(1)] d csv_date_isoformat by simp
  moreover have "csv_count (text_of header (map cell_text row) ''activations'')" using tx [OF mem(4)] k count_plain(2) by simp
  moreover have "list_all (\<lambda>column. column \<in> {''date'', ''activations''} \<or> safe_value (dimension_value header (map cell_text row) column)) header"
    using dim by (fastforce simp: list_all_iff)
  moreover have "dimension_value header (map cell_text row) ''region'' \<in> REGIONS"
    "dimension_value header (map cell_text row) ''channel'' \<in> CHANNELS" using dim [OF mem(2)] dim [OF mem(3)] by auto
  ultimately show ?thesis using d len by (auto simp: check_row_Inr)
qed

lemma row_plain:
  assumes "columns_ok header" "csv_row_ok header row"
  shows "map cell_text row \<noteq> [] \<and> list_all plain (map cell_text row)"
proof -
  have "header \<noteq> []" using assms(1) by (auto simp: columns_ok_def REQUIRED_COLUMNS_def)
  then show ?thesis using assms(2) unfolding csv_row_ok_def
    by (auto simp: list_all2_conv_all_nth list_all_length intro: cell_ok_plain)
qed

lemma line_no_nul: "list_all plain cells \<Longrightarrow> CHR 0x00 \<notin> set (csv_line cells)"
  using join_chars_of [of cells "\<lambda>c. c \<noteq> CHR 0x00"] by (auto simp: csv_line_def CRLF_def list_all_iff plain_def plain_char_def)

lemma parse_rows_prints:
  assumes "columns_ok header" "list_all (csv_row_ok header) new" "distinct (map (csv_key header) (rows @ new))"
    "int (length rows + length new) \<le> maximum" "dates = row_dates header rows" "keys = csv_key header ` set rows"
  shows "parse_rows header maximum n rows dates keys (map csv_line (map (map cell_text) new)) = Inr (rows @ new, row_dates header (rows @ new))"
  using assms
proof (induction new arbitrary: n rows dates keys)
  case Nil
  then show ?case by (subst parse_rows.simps) (simp add: fresh_record_def)
next
  case (Cons row new)
  let ?lines = "map csv_line (map (map cell_text) (row # new))"
  have ok: "csv_row_ok header row" using Cons.prems(2) by simp
  obtain d where c: "check_row header n (map cell_text row) = Inr (d, row)" and d: "valid_date d"
    "cell_of header row ''date'' = Some (CellText (isoformat d))" using check_row_prints [OF Cons.prems(1) ok] by blast
  have r: "read_record fresh_record ?lines = Record (map cell_text row) (map csv_line (map (map cell_text) new))"
    using read_line [of "map cell_text row"] row_plain [OF Cons.prems(1) ok] by simp
  have k: "csv_key header row \<notin> keys" using Cons.prems(3,6) by auto
  have m: "\<not> int (length rows) \<ge> maximum" using Cons.prems(4) by simp
  have "parse_rows header maximum n rows dates keys ?lines
      = parse_rows header maximum (n + 1) (rows @ [row]) (insert d dates) (insert (csv_key header row) keys) (map csv_line (map (map cell_text) new))"
    unfolding parse_rows.simps [of header maximum n rows dates keys ?lines] r using m c k by simp
  also have "\<dots> = Inr ((rows @ [row]) @ new, row_dates header ((rows @ [row]) @ new))"
    using Cons.prems row_dates_snoc [OF d(2,1), of rows] by (intro Cons.IH) auto
  finally show ?case by simp
qed

text \<open>C8: the checks refuse nothing that is sound: the comma-separated text of a sound dataset is parsed back into its columns,
  its rows and its dates, so that only the bytes, their number and their number of rows decide.\<close>

theorem sound_datasets_are_accepted:
  assumes "dataset_ok maximum_rows ds" "decode raw = Some (csv_text ds)" "raw \<noteq> []" "int (length raw) \<le> maximum_bytes"
  shows "parse_csv decode digest now raw maximum_bytes maximum_rows = Inr (ds\<lparr>cs_fingerprint := digest raw, cs_uploaded_at := now\<rparr>)"
proof -
  note ds = assms(1) [unfolded dataset_ok_def]
  let ?lines = "cs_columns ds # map (map cell_text) (cs_rows ds)"
  have columns: "cs_columns ds \<noteq> [] \<and> list_all plain (cs_columns ds)"
    using ds by (auto simp: columns_ok_def REQUIRED_COLUMNS_def list_all_iff intro!: column_plain)
  have plain: "list_all (list_all plain) (map (map cell_text) (cs_rows ds))"
    using ds row_plain [of "cs_columns ds"] by (auto simp: list_all_iff)
  with columns have lines: "split_lines (csv_text ds) = map csv_line ?lines" unfolding csv_text_def by (intro split_csv_text) simp
  have "CHR 0x00 \<notin> set (csv_text ds)" using columns plain line_no_nul by (auto simp: csv_text_def list_all_iff)
  moreover have table: "parse_table (csv_text ds) maximum_rows = Inr (cs_columns ds, cs_rows ds, cs_dates ds)"
  proof -
    have "read_record fresh_record (split_lines (csv_text ds)) = Record (cs_columns ds) (map csv_line (map (map cell_text) (cs_rows ds)))"
      using columns by (simp add: lines read_line del: read_record.simps map_map)
    moreover have "parse_rows (cs_columns ds) maximum_rows 2 [] {} {} (map csv_line (map (map cell_text) (cs_rows ds)))
        = Inr (cs_rows ds, cs_dates ds)"
      using ds parse_rows_prints [of "cs_columns ds" "cs_rows ds" "[]" maximum_rows "{}" "{}" 2] by (simp add: row_dates_def)
    ultimately show ?thesis using ds by (auto simp: parse_table_Inr)
  qed
  ultimately show ?thesis using assms(2-4) by (simp add: parse_csv_Inr)
qed

definition demo_dataset :: CsvDataset where
  "demo_dataset = \<lparr>cs_columns = [''date'', ''region'', ''channel'', ''activations''],
     cs_rows = [[CellText ''2026-07-01'', CellText ''WEST'', CellText ''RETAIL'', CellInt 12],
       [CellText ''2026-07-01'', CellText ''WEST'', CellText ''CARE'', CellInt 3]],
     cs_dates = {Date 2026 7 1}, cs_fingerprint = ''date'', cs_uploaded_at = 7\<rparr>"

lemma demo_csv: "parse_csv Some (take 4) 7 (csv_text demo_dataset) 200 10 = Inr demo_dataset"
  by code_simp

theorem accepted_csv_is_sound_witness: "dataset_ok 10 demo_dataset \<and> cs_fingerprint demo_dataset = ''date''"
  using accepted_csv_is_sound [OF demo_csv] by (simp add: demo_dataset_def)

lemma demo_dataset_ok: "dataset_ok 10 demo_dataset"
  using parsed_dataset [OF demo_csv] by simp

lemma demo_text_length: "csv_text demo_dataset \<noteq> [] \<and> int (length (csv_text demo_dataset)) \<le> 200 \<and> take 3 (csv_text demo_dataset) = ''dat''"
  by code_simp

theorem sound_datasets_are_accepted_witness:
  "parse_csv Some (take 3) 8 (csv_text demo_dataset) 200 10 = Inr (demo_dataset\<lparr>cs_fingerprint := ''dat'', cs_uploaded_at := 8\<rparr>)"
  using sound_datasets_are_accepted [OF demo_dataset_ok, of Some "csv_text demo_dataset" 200 "take 3" 8] demo_text_length by simp

end
