(* ===== verification/CsvConnector.thy ===== *)
theory CsvConnector
  imports CsvImport Certification
begin

section \<open>CsvConnector: questions answered from an uploaded file\<close>

text \<open>
  \<open>connectors/csv_demo.py\<close>: the connector of one session's dataset, from the validation of a plan to its
  receipt.  The one statement it sends to an in-memory SQLite table is modelled by its parts: its text and
  parameters, and what SQLite answers: the rows that meet every condition, grouped and ordered by the
  dimensions, with the sum of their counts and the number of their days.  The digests are parameters.
\<close>

subsection \<open>The connector\<close>

record csv_connector =
  kc_descriptor :: ConnectorDescriptor
  kc_dataset :: CsvDataset
  kc_tenant_id :: string
  kc_user_id :: string

definition make_csv_connector :: "CsvDataset \<Rightarrow> string \<Rightarrow> string \<Rightarrow> string \<Rightarrow> csv_connector" where
  "make_csv_connector ds cid tenant user =
     \<lparr>kc_descriptor = \<lparr>cd_connector_id = cid, cd_connector_type = ''CSV_DEMO'', cd_dialect = Some ''sqlite'',
        cd_capabilities = {AGGREGATION, PARAMETERIZED_FILTERS}, cd_read_only = True, cd_maximum_rows = 100,
        cd_query_timeout_seconds = 5, cd_mapping_version = None, cd_mapping_hash = None\<rparr>,
      kc_dataset = ds, kc_tenant_id = tenant, kc_user_id = user\<rparr>"

definition csv_test_connection :: "bool \<times> string" where
  "csv_test_connection = (True, ''Validated CSV is available in this demo session only.'')"

text \<open>\<open>describe\<close> of a dataset; \<open>iso_text\<close> is \<open>isoformat\<close> of an instant.\<close>

definition describe :: "(instant \<Rightarrow> string) \<Rightarrow> CsvDataset \<Rightarrow> pyobj" where
  "describe iso_text ds = ODict
     [(''source_kind'', OStr ''csv_demo''), (''metric_ids'', OList [OStr ''MOBILE_ACTIVATIONS'']),
      (''dimensions'', OList (map OStr (dataset_dimensions ds))), (''row_count'', OInt (int (length (cs_rows ds)))),
      (''coverage_start'', OStr (isoformat (coverage_start ds))), (''coverage_end'', OStr (isoformat (coverage_end ds))),
      (''source_fingerprint'', OStr (cs_fingerprint ds)), (''uploaded_at'', OStr (iso_text (cs_uploaded_at ds)))]"

datatype csv_failure = CsvValidation string | CsvNotReady string | CsvRaised py_exc | CsvSqlError

subsection \<open>Validation\<close>

definition csv_access_error :: "csv_connector \<Rightarrow> AccessContext \<Rightarrow> string option" where
  "csv_access_error con access =
     (if ac_tenant_id access \<noteq> kc_tenant_id con \<or> ac_user_id access \<noteq> kc_user_id con \<or> READ_DATA_ACTION \<notin> ac_actions access
      then Some ''CSV session access denied.''
      else if ac_regions access = {} \<or> \<not> ac_regions access \<subseteq> REGIONS
      then Some ''CSV requires explicit, recognized region scope.'' else None)"

definition csv_discover_catalog :: "(instant \<Rightarrow> string) \<Rightarrow> csv_connector \<Rightarrow> AccessContext \<Rightarrow> csv_failure + pyobj list" where
  "csv_discover_catalog iso_text con access =
     (case csv_access_error con access of Some e \<Rightarrow> Inl (CsvValidation e) | None \<Rightarrow> Inr [describe iso_text (kc_dataset con)])"

definition csv_filter_errors :: "CsvDataset \<Rightarrow> AccessContext \<Rightarrow> QueryFilter \<Rightarrow> string list" where
  "csv_filter_errors ds access f =
     (if qf_dimension_id f \<notin> set (dataset_dimensions ds) \<or> qf_operator f \<notin> {OP_IN, EQUALS} \<or> qf_values f = []
      then [''CSV filter is not supported.''] else [])
     @ (if qf_dimension_id f = ''REGION'' \<and> \<not> set (qf_values f) \<subseteq> ac_regions access
        then [''CSV filter exceeds the user's region scope.''] else [])"

definition csv_validate_plan :: "csv_connector \<Rightarrow> StructuredQueryPlan \<Rightarrow> AccessContext \<Rightarrow> string list" where
  "csv_validate_plan con plan access =
     (case csv_access_error con access of Some e \<Rightarrow> [e] | None \<Rightarrow> [])
     @ (if pl_tenant_id plan \<noteq> kc_tenant_id con \<or> pl_connector_id plan \<noteq> cd_connector_id (kc_descriptor con)
        then [''Plan does not belong to this CSV connection.''] else [])
     @ (if pl_metric_id plan \<noteq> ''MOBILE_ACTIVATIONS'' \<or> pl_aggregation plan \<noteq> AGG_SUM
        then [''CSV demo currently supports only the governed Mobile Activations sum.''] else [])
     @ (if pl_row_limit plan > cd_maximum_rows (kc_descriptor con) then [''Plan exceeds the CSV result limit.''] else [])
     @ (if \<not> set (pl_dimensions plan) \<subseteq> set (dataset_dimensions (kc_dataset con))
        then [''The CSV does not supply the requested dimensions.''] else [])
     @ concat (map (csv_filter_errors (kc_dataset con) access) (pl_filters plan))"

subsection \<open>The statement\<close>

record csv_query =
  cq_dimensions :: "(string \<times> string) list"
  cq_start :: string
  cq_end :: string
  cq_in :: "(string \<times> string list) list"
  cq_limit :: int

definition csv_sql :: "StructuredQueryPlan \<Rightarrow> AccessContext \<Rightarrow> ResolvedRange \<Rightarrow> py_exc + csv_query" where
  "csv_sql plan access period =
     (case lookup_all (map_of CSV_DIMENSION_COLUMNS) (pl_dimensions plan) of Inl e \<Rightarrow> Inl e
      | Inr columns \<Rightarrow>
        (case lookup_all (map_of CSV_DIMENSION_COLUMNS) (map qf_dimension_id (pl_filters plan)) of Inl e \<Rightarrow> Inl e
         | Inr filter_columns \<Rightarrow>
           Inr \<lparr>cq_dimensions = zip columns (pl_dimensions plan),
                cq_start = isoformat (rr_start period), cq_end = isoformat (rr_end period),
                cq_in = (''region'', py_sorted (ac_regions access)) # zip filter_columns (map qf_values (pl_filters plan)),
                cq_limit = pl_row_limit plan + 1\<rparr>))"

definition csv_sql_text :: "csv_query \<Rightarrow> string" where
  "csv_sql_text q =
     ''SELECT '' @ py_join '', '' (map (\<lambda>(c, a). c @ '' AS '' @ a) (cq_dimensions q)
       @ [''SUM(activations) AS value'', ''COUNT(DISTINCT date) AS observed_days''])
     @ '' FROM facts WHERE '' @ py_join '' AND '' ([''date >= ?'', ''date <= ?'']
       @ map (\<lambda>(c, vs). c @ '' IN ('' @ placeholders vs @ '')'') (cq_in q))
     @ (if cq_dimensions q \<noteq> [] then '' GROUP BY '' @ py_join '', '' (map fst (cq_dimensions q))
          @ '' ORDER BY '' @ py_join '', '' (map fst (cq_dimensions q)) else [])
     @ '' LIMIT ?''"

definition csv_sql_params :: "csv_query \<Rightarrow> sql_param list" where
  "csv_sql_params q = [PStr (cq_start q), PStr (cq_end q)] @ concat (map (\<lambda>(c, vs). map PStr vs) (cq_in q)) @ [PInt (cq_limit q)]"

subsection \<open>What SQLite answers\<close>

definition fact_text :: "string list \<Rightarrow> csv_cell list \<Rightarrow> string \<Rightarrow> string" where
  "fact_text columns obs column = (case cell_of columns obs column of None \<Rightarrow> [] | Some v \<Rightarrow> cell_text v)"

definition fact_count :: "string list \<Rightarrow> csv_cell list \<Rightarrow> int" where
  "fact_count columns obs = (case cell_of columns obs ''activations'' of Some (CellInt n) \<Rightarrow> n | _ \<Rightarrow> 0)"

definition fact_matches :: "csv_query \<Rightarrow> string list \<Rightarrow> csv_cell list \<Rightarrow> bool" where
  "fact_matches q columns obs \<longleftrightarrow> cq_start q \<le> fact_text columns obs ''date'' \<and> fact_text columns obs ''date'' \<le> cq_end q
     \<and> list_all (\<lambda>(c, vs). fact_text columns obs c \<in> set vs) (cq_in q)"

definition group_key :: "csv_query \<Rightarrow> string list \<Rightarrow> csv_cell list \<Rightarrow> string list" where
  "group_key q columns obs = map (fact_text columns obs) (map fst (cq_dimensions q))"

text \<open>\<open>dict(row)\<close> of the row of one group; the sum of no rows is \<open>NULL\<close>.\<close>

definition group_row :: "csv_query \<Rightarrow> string list \<Rightarrow> string list \<Rightarrow> csv_cell list list \<Rightarrow> row" where
  "group_row q columns key observations =
     row_set ''observed_days'' (VInt (int (card ((\<lambda>f. fact_text columns f ''date'') ` set observations))))
      (row_set ''value'' (if observations = [] then VNone else VInt (sum_list (map (fact_count columns) observations)))
        (fold (\<lambda>(alias, v). row_set alias (VStr v)) (zip (map snd (cq_dimensions q)) key) []))"

definition query_groups :: "csv_query \<Rightarrow> string list \<Rightarrow> csv_cell list list \<Rightarrow> (string list \<times> csv_cell list list) list" where
  "query_groups q columns observations =
     (let matching = filter (fact_matches q columns) observations
      in if cq_dimensions q = [] then [([], matching)]
         else map (\<lambda>key. (key, filter (\<lambda>f. group_key q columns f = key) matching))
                (sorted_list_of_set (set (map (group_key q columns) matching))))"

text \<open>\<open>None\<close>: an unknown column or a sum beyond 64 bits; a negative limit is none.\<close>

definition run_query :: "csv_query \<Rightarrow> string list \<Rightarrow> csv_cell list list \<Rightarrow> row list option" where
  "run_query q columns observations =
     (let groups = query_groups q columns observations
      in if \<not> set (map fst (cq_dimensions q) @ map fst (cq_in q)) \<subseteq> set columns
            \<or> \<not> list_all (\<lambda>(key, fs). sum_list (map (fact_count columns) fs) < 2 ^ 63) groups then None
         else Some (map (\<lambda>(key, fs). group_row q columns key fs)
                (if cq_limit q < 0 then groups else take (nat (cq_limit q)) groups)))"

subsection \<open>Execution\<close>

definition period_days :: "ResolvedRange \<Rightarrow> int" where
  "period_days period = to_ord (rr_end period) - to_ord (rr_start period) + 1"

definition check_coverage :: "CsvDataset \<Rightarrow> ResolvedRange \<Rightarrow> csv_failure option" where
  "check_coverage ds period =
     (if int (card (Set.filter (\<lambda>d. rr_start period \<le> d \<and> d \<le> rr_end period) (cs_dates ds))) \<noteq> period_days period
      then Some (CsvNotReady (''CSV needs at least one row for every requested day, including comparison days; ''
        @ ''missing dates are not treated as zero. No other data source was queried.'')) else None)"

text \<open>The rows of a query once the number of days is popped from each.\<close>

fun pop_days :: "int \<Rightarrow> row list \<Rightarrow> csv_failure + row list" where
  "pop_days n [] = Inr []"
| "pop_days n (r # rs) =
     (case row_get r ''observed_days'' of
        VInt k \<Rightarrow> if k \<noteq> 0 \<and> k \<noteq> n then Inl (CsvNotReady ''A CSV result group has missing days; add explicit zeros.'')
          else (case pop_days n rs of Inl e \<Rightarrow> Inl e | Inr out \<Rightarrow> Inr (AList.delete ''observed_days'' r # out))
      | _ \<Rightarrow> Inl (CsvRaised KeyError))"

fun finite_error :: "row list \<Rightarrow> csv_failure option" where
  "finite_error [] = None"
| "finite_error (r # rs) =
     (case to_float (row_get r ''value'') of Inl e \<Rightarrow> Some (CsvRaised e)
      | Inr x \<Rightarrow> if \<not> is_finite x then Some (CsvValidation ''CSV aggregation is not finite.'') else finite_error rs)"

definition csv_query_rows :: "CsvDataset \<Rightarrow> StructuredQueryPlan \<Rightarrow> AccessContext \<Rightarrow> ResolvedRange \<Rightarrow> csv_failure + row list \<times> string" where
  "csv_query_rows ds plan access period =
     (case csv_sql plan access period of Inl e \<Rightarrow> Inl (CsvRaised e)
      | Inr q \<Rightarrow>
        (case run_query q (cs_columns ds) (cs_rows ds) of None \<Rightarrow> Inl CsvSqlError
         | Some rows \<Rightarrow>
           if int (length rows) > pl_row_limit plan then Inl (CsvValidation ''Result is too large; narrow the question.'')
           else (case pop_days (period_days period) rows of Inl e \<Rightarrow> Inl e
             | Inr out \<Rightarrow>
               if out = [] \<or> list_ex (\<lambda>r. row_get r ''value'' = VNone) out
               then Inl (CsvNotReady ''No CSV observations match the requested scope.'')
               else (case finite_error out of Some e \<Rightarrow> Inl e | None \<Rightarrow> Inr (out, csv_sql_text q)))))"

definition csv_receipt :: "sql_environment \<Rightarrow> uuid \<Rightarrow> instant \<Rightarrow> CsvDataset \<Rightarrow> StructuredQueryPlan \<Rightarrow> ResolvedRange
    \<Rightarrow> ResolvedRange option \<Rightarrow> string list \<Rightarrow> row list \<Rightarrow> string \<Rightarrow> QueryReceipt" where
  "csv_receipt env rid now ds plan cur cmp statements rows result_hash =
     \<lparr>rc_source_kind = ''csv_demo'', rc_source_fingerprint = Some (cs_fingerprint ds), rc_cloud_job = None,
      rc_definition_snapshot_id = None, rc_receipt_id = rid, rc_query_id = pl_query_id plan,
      rc_decision_id = pl_decision_id plan, rc_plan_hash = pl_plan_hash plan, rc_connector_id = pl_connector_id plan,
      rc_executed_at = now, rc_source_snapshot = cs_uploaded_at ds, rc_coverage_start = coverage_start ds,
      rc_coverage_end = coverage_end ds, rc_resolved_start = rr_start cur, rc_resolved_end = rr_end cur,
      rc_comparison_start = map_option rr_start cmp, rc_comparison_end = map_option rr_end cmp,
      rc_row_count = int (length rows), rc_result_rows = rows, rc_result_hash = result_hash,
      rc_sql_hash = se_sql_digest env (py_join [CHR 0x0A] statements),
      rc_physical_mapping_version = None, rc_physical_mapping_hash = None, rc_data_quality_status = ''EXECUTED'',
      rc_data_quality_checks = [''PARAMETERIZED_SQL'', ''READ_ONLY_SOURCE'', ''NO_TRUNCATION'', ''DAILY_COVERAGE_CHECKED'',
        ''EXPLICIT_REGION_SCOPE''],
      rc_policy_decision_id = pl_decision_id plan,
      rc_warnings = [''UPLOADED_DEMO_DATA'', ''BUSINESS_COMPLETENESS_NOT_INDEPENDENTLY_VERIFIED'']\<rparr>"

definition comparison_query :: "CsvDataset \<Rightarrow> StructuredQueryPlan \<Rightarrow> AccessContext \<Rightarrow> ResolvedRange option
    \<Rightarrow> csv_failure + row list \<times> string list" where
  "comparison_query ds plan access cmp =
     (case cmp of None \<Rightarrow> Inr ([], [])
      | Some period \<Rightarrow> (case csv_query_rows ds plan access period of Inl e \<Rightarrow> Inl e | Inr (rows, sql) \<Rightarrow> Inr (rows, [sql])))"

definition csv_execute :: "sql_environment \<Rightarrow> uuid \<Rightarrow> instant \<Rightarrow> CsvDataset \<Rightarrow> StructuredQueryPlan \<Rightarrow> AccessContext
    \<Rightarrow> ResolvedRange \<Rightarrow> ResolvedRange option \<Rightarrow> csv_failure + QueryReceipt" where
  "csv_execute env rid now ds plan access cur cmp =
     (case csv_query_rows ds plan access cur of Inl e \<Rightarrow> Inl e
      | Inr (current_rows, sql) \<Rightarrow>
        (case comparison_query ds plan access cmp of Inl e \<Rightarrow> Inl e
         | Inr (comparison_rows, csql) \<Rightarrow>
           if cmp \<noteq> None \<and> row_key (pl_dimensions plan) ` set current_rows \<noteq> row_key (pl_dimensions plan) ` set comparison_rows
           then Inl (CsvNotReady ''CSV comparison groups differ; missing groups are not zero.'')
           else (case merge_comparison_rows current_rows comparison_rows (pl_dimensions plan) of Inl e \<Rightarrow> Inl (CsvRaised e)
             | Inr rows \<Rightarrow>
               (case canonical_rows rows of Inl e \<Rightarrow> Inl (CsvRaised e)
                | Inr canonical \<Rightarrow>
                    Inr (csv_receipt env rid now ds plan cur cmp (sql # csql) rows (se_result_digest env canonical))))))"

definition csv_periods :: "StructuredQueryPlan \<Rightarrow> csv_failure + ResolvedRange \<times> ResolvedRange option" where
  "csv_periods plan =
     (case resolve_window (pl_time_window plan) of
        Inl ValueError \<Rightarrow> Inl (CsvValidation ''Unsupported CSV time window.'')
      | Inl e \<Rightarrow> Inl (CsvRaised e)
      | Inr cur \<Rightarrow> (case resolve_comparison_range cur (pl_comparison plan) of
            Inl ValueError \<Rightarrow> Inl (CsvValidation ''Unsupported CSV time window.'')
          | Inl e \<Rightarrow> Inl (CsvRaised e)
          | Inr cmp \<Rightarrow> Inr (cur, cmp)))"

definition csv_execute_read_only :: "csv_connector \<Rightarrow> sql_environment \<Rightarrow> uuid \<Rightarrow> instant \<Rightarrow> StructuredQueryPlan \<Rightarrow> AccessContext
    \<Rightarrow> csv_failure + QueryReceipt" where
  "csv_execute_read_only con env rid now plan access =
     (let errors = csv_validate_plan con plan access
      in if errors \<noteq> [] then Inl (CsvValidation (py_join ''; '' errors))
         else (case csv_periods plan of Inl e \<Rightarrow> Inl e
           | Inr (cur, cmp) \<Rightarrow>
             (case check_coverage (kc_dataset con) cur of Some e \<Rightarrow> Inl e
              | None \<Rightarrow> (case Option.bind cmp (check_coverage (kc_dataset con)) of Some e \<Rightarrow> Inl e
                  | None \<Rightarrow> csv_execute env rid now (kc_dataset con) plan access cur cmp))))"

definition csv_estimate_cost :: "csv_connector \<Rightarrow> pyobj" where
  "csv_estimate_cost con = ODict [(''source_kind'', OStr ''csv_demo''), (''input_rows'', OInt (int (length (cs_rows (kc_dataset con))))),
     (''billable_bytes'', OInt 0)]"

definition csv_cancel_query :: "string \<Rightarrow> bool" where
  "csv_cancel_query execution = False"

subsection \<open>What a query's rows are\<close>

lemma resolved_dates:
  assumes "window_valid w" "resolve_window w = Inr r"
  shows "valid_date (rr_start r) \<and> valid_date (rr_end r)"
  using assms by (cases "tw_preset w")
    (auto simp: resolve_window_def window_valid_def mk_date_def Let_def dest: date_add_InrD(1) split: sum.splits option.splits if_splits)

lemma row_get_delete: "row_get (AList.delete k r) k' = (if k' = k then VNone else row_get r k')"
  by (simp add: row_get_def delete_conv)

lemma row_get_dimensions:
  "row_get (fold (\<lambda>(a, v). row_set a (VStr v)) (map (\<lambda>a. (a, g a)) dims) r) k = (if k \<in> set dims then VStr (g k) else row_get r k)"
  by (induction dims arbitrary: r) auto

text \<open>The dimensions of a plan and the observations in its scope.\<close>

definition column_of :: "string \<Rightarrow> string" where
  "column_of dimension = (case map_of CSV_DIMENSION_COLUMNS dimension of None \<Rightarrow> [] | Some c \<Rightarrow> c)"

definition in_scope :: "string list \<Rightarrow> StructuredQueryPlan \<Rightarrow> AccessContext \<Rightarrow> ResolvedRange \<Rightarrow> csv_cell list \<Rightarrow> bool" where
  "in_scope columns plan access period obs \<longleftrightarrow>
     (case csv_date (fact_text columns obs ''date'') of None \<Rightarrow> False
      | Some d \<Rightarrow> rr_start period \<le> d \<and> d \<le> rr_end period \<and> fact_text columns obs ''region'' \<in> ac_regions access
          \<and> list_all (\<lambda>f. fact_text columns obs (column_of (qf_dimension_id f)) \<in> set (qf_values f)) (pl_filters plan))"

definition of_key :: "string list \<Rightarrow> string list \<Rightarrow> row \<Rightarrow> csv_cell list \<Rightarrow> bool" where
  "of_key columns dims r obs \<longleftrightarrow> list_all (\<lambda>d. row_get r d = VStr (fact_text columns obs (column_of d))) dims"

lemma lookup_columns: "lookup_all (map_of CSV_DIMENSION_COLUMNS) ds = Inr cs \<Longrightarrow> cs = map column_of ds"
  by (drule lookup_all_InrD) (auto simp: column_of_def)

lemma csv_sql_Inr:
  assumes "csv_sql plan access period = Inr q"
  shows "q = \<lparr>cq_dimensions = map (\<lambda>d. (column_of d, d)) (pl_dimensions plan), cq_start = isoformat (rr_start period),
    cq_end = isoformat (rr_end period), cq_in = (''region'', py_sorted (ac_regions access))
      # map (\<lambda>f. (column_of (qf_dimension_id f), qf_values f)) (pl_filters plan), cq_limit = pl_row_limit plan + 1\<rparr>"
  using assms by (auto simp: csv_sql_def map_zip_map2 zip_map1 zip_same_conv_map zip_map2 comp_def
      dest!: lookup_columns split: sum.splits)

lemma matches_in_scope:
  assumes q: "csv_sql plan access period = Inr q" and v: "valid_date (rr_start period)" "valid_date (rr_end period)"
    and r: "csv_row_ok columns obs" "''date'' \<in> set columns" and f: "finite (ac_regions access)"
  shows "fact_matches q columns obs \<longleftrightarrow> in_scope columns plan access period obs"
proof -
  obtain c where "cell_of columns obs ''date'' = Some c" "cell_ok ''date'' c"
    using list_all2_cell_of [OF r(1) [unfolded csv_row_ok_def] r(2)] by blast
  then obtain d where d: "valid_date d" "fact_text columns obs ''date'' = isoformat d" by (auto simp: cell_ok_def fact_text_def)
  show ?thesis using d f isoformat_le [OF v(1) d(1)] isoformat_le [OF d(1) v(2)]
    by (auto simp: fact_matches_def in_scope_def csv_sql_Inr [OF q] csv_date_isoformat list_all_iff)
qed

definition row_amount :: "row \<Rightarrow> int" where
  "row_amount r = (case row_get r ''value'' of VInt n \<Rightarrow> n | _ \<Rightarrow> 0)"

lemma sum_one_key:
  "distinct ks \<Longrightarrow> k0 \<in> set ks \<Longrightarrow> sum_list (map (\<lambda>k. (if k0 = k then (n :: int) else 0) + g k) ks) = n + sum_list (map g ks)"
proof (induction ks)
  case (Cons k ks)
  have "k0 \<notin> set ks \<Longrightarrow> sum_list (map (\<lambda>k. (if k0 = k then n else 0) + g k) ks) = sum_list (map g ks)"
    by (rule arg_cong [of _ _ sum_list], rule map_cong) auto
  then show ?case using Cons by auto
qed simp

lemma sum_by_key:
  assumes "distinct ks" "\<forall>x\<in>set xs. key x \<in> set ks"
  shows "sum_list (map (\<lambda>k. sum_list (map g (filter (\<lambda>x. key x = k) xs))) ks) = sum_list (map (g :: 'a \<Rightarrow> int) xs)"
  using assms(2)
proof (induction xs)
  case (Cons x xs)
  have "sum_list (map (\<lambda>k. sum_list (map g (filter (\<lambda>y. key y = k) (x # xs)))) ks)
      = sum_list (map (\<lambda>k. (if key x = k then g x else 0) + sum_list (map g (filter (\<lambda>y. key y = k) xs))) ks)"
    by (rule arg_cong [of _ _ sum_list], rule map_cong) auto
  then show ?case using sum_one_key [OF assms(1), of "key x" "g x"] Cons by simp
qed simp

definition group_keys :: "csv_query \<Rightarrow> string list \<Rightarrow> csv_cell list list \<Rightarrow> string list list" where
  "group_keys q columns matching = (if cq_dimensions q = [] then [[]] else sorted_list_of_set (set (map (group_key q columns) matching)))"

lemma query_groups_alt:
  "query_groups q columns observations = (let matching = filter (fact_matches q columns) observations
     in map (\<lambda>key. (key, filter (\<lambda>f. group_key q columns f = key) matching)) (group_keys q columns matching))"
  by (simp add: query_groups_def group_keys_def group_key_def Let_def filter_empty_conv cong: filter_cong)

lemma group_keys_ok: "distinct (group_keys q columns matching)"
  "\<forall>f\<in>set matching. group_key q columns f \<in> set (group_keys q columns matching)"
  by (auto simp: group_keys_def group_key_def)

lemma group_row_gets:
  assumes "cq_dimensions q = map (\<lambda>d. (column_of d, d)) dims" "f \<in> set fs" "group_key q columns f = key"
    "''value'' \<notin> set dims" "''observed_days'' \<notin> set dims"
  shows "row_get (group_row q columns key fs) k =
    (if k = ''observed_days'' then VInt (int (card ((\<lambda>f. fact_text columns f ''date'') ` set fs)))
     else if k = ''value'' then VInt (sum_list (map (fact_count columns) fs))
     else if k \<in> set dims then VStr (fact_text columns f (column_of k)) else VNone)"
proof -
  have "zip (map snd (cq_dimensions q)) key = map (\<lambda>d. (d, fact_text columns f (column_of d))) dims"
    using assms(1,3) by (auto simp: group_key_def zip_map2 zip_map1 zip_same_conv_map comp_def)
  moreover have "fs \<noteq> []" using assms(2) by auto
  ultimately show ?thesis by (simp add: group_row_def row_get_dimensions) (simp add: row_get_def)
qed

lemma pop_days_Inr:
  "pop_days n rows = Inr out \<Longrightarrow> out = map (AList.delete ''observed_days'') rows
     \<and> (\<forall>r\<in>set rows. \<exists>k. row_get r ''observed_days'' = VInt k \<and> (k = 0 \<or> k = n))"
  by (induction rows arbitrary: out) (auto split: pyval.splits if_splits sum.splits)

lemma csv_query_rows_Inr:
  assumes "csv_query_rows ds plan access period = Inr (out, sql)"
  obtains q where "csv_sql plan access period = Inr q" "sql = csv_sql_text q"
    "out = map (\<lambda>(key, fs). AList.delete ''observed_days'' (group_row q (cs_columns ds) key fs)) (query_groups q (cs_columns ds) (cs_rows ds))"
    "\<forall>(key, fs)\<in>set (query_groups q (cs_columns ds) (cs_rows ds)). \<exists>k. row_get (group_row q (cs_columns ds) key fs) ''observed_days'' = VInt k
       \<and> (k = 0 \<or> k = period_days period)"
    "out \<noteq> []" "\<forall>r\<in>set out. row_get r ''value'' \<noteq> VNone" "finite_error out = None"
proof -
  from assms obtain q rows where q: "csv_sql plan access period = Inr q" and rows: "run_query q (cs_columns ds) (cs_rows ds) = Some rows"
    and len: "int (length rows) \<le> pl_row_limit plan" and pop: "pop_days (period_days period) rows = Inr out"
    and out: "out \<noteq> []" "\<not> list_ex (\<lambda>r. row_get r ''value'' = VNone) out" "finite_error out = None" "sql = csv_sql_text q"
    by (auto simp: csv_query_rows_def split: sum.splits option.splits if_splits)
  let ?gs = "query_groups q (cs_columns ds) (cs_rows ds)" and ?row = "\<lambda>(key, fs). group_row q (cs_columns ds) key fs"
  have lim: "cq_limit q = pl_row_limit plan + 1" using csv_sql_Inr [OF q] by simp
  have "rows = map ?row (if cq_limit q < 0 then ?gs else take (nat (cq_limit q)) ?gs)"
    using rows by (auto simp: run_query_def Let_def split: if_splits)
  then have "rows = map ?row (take (nat (cq_limit q)) ?gs)" using len lim by auto
  moreover from this len lim have "length ?gs < nat (cq_limit q)" by auto
  ultimately have rows: "rows = map ?row ?gs" by simp
  note p = pop_days_Inr [OF pop]
  show ?thesis
    by (rule that [OF q out(4) _ _ out(1) _ out(3)]) (use p out(2) in \<open>auto simp: rows list_ex_iff case_prod_unfold\<close>)
qed

lemma interval_card:
  assumes "valid_date s" "valid_date e"
  shows "finite {d. valid_date d \<and> s \<le> d \<and> d \<le> e}" "int (card {d. valid_date d \<and> s \<le> d \<and> d \<le> e}) \<le> max 0 (to_ord e - to_ord s + 1)"
proof -
  let ?I = "{d. valid_date d \<and> s \<le> d \<and> d \<le> e}"
  have inj: "inj_on to_ord ?I" by (rule inj_onI) (metis (mono_tags) from_ord_to_ord mem_Collect_eq)
  have sub: "to_ord ` ?I \<subseteq> {to_ord s..to_ord e}" using assms to_ord_le_iff by auto
  then have fin: "finite (to_ord ` ?I)" by (rule finite_subset) simp
  then show "finite ?I" using inj by (rule finite_imageD)
  have "card ?I = card (to_ord ` ?I)" using inj by (simp add: card_image)
  also have "\<dots> \<le> card {to_ord s..to_ord e}" using sub by (intro card_mono) simp_all
  finally show "int (card ?I) \<le> max 0 (to_ord e - to_ord s + 1)" by simp
qed

definition csv_scope :: "CsvDataset \<Rightarrow> StructuredQueryPlan \<Rightarrow> AccessContext \<Rightarrow> ResolvedRange \<Rightarrow> csv_cell list list" where
  "csv_scope ds plan access period = filter (in_scope (cs_columns ds) plan access period) (cs_rows ds)"

text \<open>A row is exact when its value is the sum of the observations of its key, which has one for every day.\<close>

definition exact_row :: "string list \<Rightarrow> string list \<Rightarrow> csv_cell list list \<Rightarrow> ResolvedRange \<Rightarrow> row \<Rightarrow> bool" where
  "exact_row columns dims scope period r \<longleftrightarrow>
     row_get r ''value'' = VInt (sum_list (map (fact_count columns) (filter (of_key columns dims r) scope)))
     \<and> (\<forall>d. valid_date d \<longrightarrow> rr_start period \<le> d \<longrightarrow> d \<le> rr_end period \<longrightarrow>
          (\<exists>f\<in>set scope. of_key columns dims r f \<and> fact_text columns f ''date'' = isoformat d))"

lemma csv_dimension_names: "d \<in> set (dataset_dimensions ds) \<Longrightarrow> d \<notin> {''value'', ''observed_days'', ''comparison_value'', ''absolute_change'', ''percent_change''}"
  by (auto simp: dataset_dimensions_def CSV_DIMENSION_COLUMNS_def split: if_splits)

lemma scope_days:
  assumes "\<forall>f\<in>set fs. \<exists>d. valid_date d \<and> rr_start period \<le> d \<and> d \<le> rr_end period \<and> fact_text columns f ''date'' = isoformat d"
    "valid_date (rr_start period)" "valid_date (rr_end period)" "fs \<noteq> []"
    "int (card ((\<lambda>f. fact_text columns f ''date'') ` set fs)) = period_days period"
    "valid_date d" "rr_start period \<le> d" "d \<le> rr_end period"
  shows "\<exists>f\<in>set fs. fact_text columns f ''date'' = isoformat d"
proof -
  let ?I = "{d. valid_date d \<and> rr_start period \<le> d \<and> d \<le> rr_end period}" and ?D = "(\<lambda>f. fact_text columns f ''date'') ` set fs"
  note I = interval_card [OF assms(2,3)]
  have sub: "?D \<subseteq> isoformat ` ?I" using assms(1) by fastforce
  have "card ?D \<noteq> 0" using assms(4) by simp
  then have "int (card ?I) \<le> int (card ?D)" using I(2) assms(5) unfolding period_days_def by linarith
  moreover have "card (isoformat ` ?I) \<le> card ?I" using I(1) by (rule card_image_le)
  ultimately have "card (isoformat ` ?I) \<le> card ?D" by linarith
  then have "?D = isoformat ` ?I" using card_seteq [OF finite_imageI [OF I(1)] sub] by blast
  moreover have "isoformat d \<in> isoformat ` ?I" using assms(6-8) by blast
  ultimately have "isoformat d \<in> ?D" by simp
  then show ?thesis by (elim imageE) (rule bexI, simp_all)
qed

lemma csv_rows_exact:
  assumes qr: "csv_query_rows ds plan access period = Inr (out, sql)" and ok: "dataset_ok m ds"
    and v: "valid_date (rr_start period)" "valid_date (rr_end period)"
    and acc: "ac_regions access \<subseteq> REGIONS" and dims: "set (pl_dimensions plan) \<subseteq> set (dataset_dimensions ds)"
  shows "(\<forall>r\<in>set out. exact_row (cs_columns ds) (pl_dimensions plan) (csv_scope ds plan access period) period r)
    \<and> sum_list (map row_amount out) = sum_list (map (fact_count (cs_columns ds)) (csv_scope ds plan access period))"
proof -
  let ?c = "cs_columns ds" and ?dims = "pl_dimensions plan"
  define scope where "scope = csv_scope ds plan access period"
  obtain q where q: "csv_sql plan access period = Inr q"
    and out: "out = map (\<lambda>(key, fs). AList.delete ''observed_days'' (group_row q ?c key fs)) (query_groups q ?c (cs_rows ds))"
    and days: "\<forall>(key, fs)\<in>set (query_groups q ?c (cs_rows ds)). \<exists>k. row_get (group_row q ?c key fs) ''observed_days'' = VInt k \<and> (k = 0 \<or> k = period_days period)"
    and none: "\<forall>r\<in>set out. row_get r ''value'' \<noteq> VNone" by (rule csv_query_rows_Inr [OF qr], rule that, assumption+)
  have fin: "finite (ac_regions access)" using acc by (rule finite_subset) (simp add: REGIONS_def)
  have date: "''date'' \<in> set ?c" using ok by (auto simp: dataset_ok_def columns_ok_def REQUIRED_COLUMNS_def)
  have rows: "csv_row_ok ?c f" if "f \<in> set (cs_rows ds)" for f using ok that by (auto simp: dataset_ok_def list_all_iff)
  have scope: "filter (fact_matches q ?c) (cs_rows ds) = scope" unfolding scope_def csv_scope_def
    by (rule filter_cong [OF refl]) (rule matches_in_scope [OF q v rows date fin])
  have gs: "query_groups q ?c (cs_rows ds) = map (\<lambda>key. (key, filter (\<lambda>f. group_key q ?c f = key) scope)) (group_keys q ?c scope)"
    by (simp add: query_groups_alt scope Let_def)
  have names: "''value'' \<notin> set ?dims" "''observed_days'' \<notin> set ?dims" using dims csv_dimension_names by auto
  have qd: "cq_dimensions q = map (\<lambda>d. (column_of d, d)) ?dims" using csv_sql_Inr [OF q] by simp
  have dates: "\<exists>d. valid_date d \<and> rr_start period \<le> d \<and> d \<le> rr_end period \<and> fact_text ?c f ''date'' = isoformat d" if "f \<in> set scope" for f
    using that csv_date_Some by (auto simp: scope_def csv_scope_def in_scope_def split: option.splits)
  have row: "exact_row ?c ?dims scope period r \<and> row_amount r = sum_list (map (fact_count ?c) (filter (\<lambda>f. group_key q ?c f = key) scope))"
    if key: "key \<in> set (group_keys q ?c scope)" and r: "r = AList.delete ''observed_days'' (group_row q ?c key (filter (\<lambda>f. group_key q ?c f = key) scope))"
    for key r
  proof -
    let ?fs = "filter (\<lambda>f. group_key q ?c f = key) scope"
    have "r \<in> set out" using key r by (auto simp: out gs)
    then have "row_get r ''value'' \<noteq> VNone" using none by blast
    then have "?fs \<noteq> []" by (auto simp: r row_get_delete group_row_def)
    then obtain f where f: "f \<in> set ?fs" by (cases ?fs) auto
    note get = group_row_gets [OF qd f _ names, of ?c key]
    have k: "group_key q ?c f = key" using f by simp
    have of: "of_key ?c ?dims r g \<longleftrightarrow> group_key q ?c g = key" for g
      using get [OF k] names by (auto simp: of_key_def r row_get_delete list_all_iff group_key_def qd k [symmetric])
    have val: "row_get r ''value'' = VInt (sum_list (map (fact_count ?c) ?fs))" using get [OF k] by (simp add: r row_get_delete)
    have "int (card ((\<lambda>f. fact_text ?c f ''date'') ` set ?fs)) = period_days period"
    proof -
      have "(key, ?fs) \<in> set (query_groups q ?c (cs_rows ds))" using key by (auto simp: gs)
      then obtain n where "row_get (group_row q ?c key ?fs) ''observed_days'' = VInt n" "n = 0 \<or> n = period_days period" using days by blast
      moreover have "card ((\<lambda>f. fact_text ?c f ''date'') ` set ?fs) \<noteq> 0" using f by (auto simp: card_eq_0_iff)
      ultimately show ?thesis using get [OF k] by auto
    qed
    then have "\<exists>g\<in>set ?fs. fact_text ?c g ''date'' = isoformat d" if "valid_date d" "rr_start period \<le> d" "d \<le> rr_end period" for d
      using scope_days [OF _ v \<open>?fs \<noteq> []\<close> _ that] dates by auto
    moreover have "of_key ?c ?dims r = (\<lambda>g. group_key q ?c g = key)" using of by (intro ext)
    ultimately show ?thesis using val by (auto simp: exact_row_def row_amount_def)
  qed
  have "\<forall>r\<in>set out. exact_row ?c ?dims scope period r" using row by (auto simp: out gs)
  moreover have "sum_list (map row_amount out) = sum_list (map (\<lambda>key. sum_list (map (fact_count ?c) (filter (\<lambda>f. group_key q ?c f = key) scope))) (group_keys q ?c scope))"
    unfolding out gs by (simp add: comp_def) (rule arg_cong [of _ _ sum_list], rule map_cong, use row in auto)
  moreover have "\<dots> = sum_list (map (fact_count ?c) scope)" by (rule sum_by_key) (use group_keys_ok in auto)
  ultimately show ?thesis by (simp add: scope_def)
qed

subsection \<open>Answers\<close>

definition COMPARISON_KEYS :: "string set" where
  "COMPARISON_KEYS = {''comparison_value'', ''absolute_change'', ''percent_change''}"

lemma merge_keeps:
  "merge_rows cmp dims rs = Inr out \<Longrightarrow> finite_error rs = None \<Longrightarrow> \<forall>r\<in>set rs. row_get r ''value'' \<noteq> VNone
   \<Longrightarrow> list_all2 (\<lambda>r r'. (\<forall>k. k \<notin> COMPARISON_KEYS \<longrightarrow> row_get r' k = row_get r k)
     \<and> (\<forall>c. cmp (row_key dims r) = Some c \<longrightarrow> row_get c ''value'' \<noteq> VNone
          \<longrightarrow> (\<exists>x. to_float (row_get c ''value'') = Inr x \<and> row_get r' ''comparison_value'' = VFloat x))) rs out"
proof (induction rs arbitrary: out)
  case (Cons r rs)
  from Cons.prems(1) obtain o1 o2 where o1: "merge_row cmp dims r = Inr o1" and o2: "merge_rows cmp dims rs = Inr o2"
    and out: "out = o1 @ o2" by (auto split: sum.splits)
  obtain x where x: "to_float (row_get r ''value'') = Inr x" "is_finite x" using Cons.prems(2) by (auto split: sum.splits if_splits)
  have v: "row_get r ''value'' \<noteq> VNone" using Cons.prems(3) by simp
  have "\<exists>r'. o1 = [r'] \<and> (\<forall>k. k \<notin> COMPARISON_KEYS \<longrightarrow> row_get r' k = row_get r k)
     \<and> (\<forall>c. cmp (row_key dims r) = Some c \<longrightarrow> row_get c ''value'' \<noteq> VNone
          \<longrightarrow> (\<exists>x. to_float (row_get c ''value'') = Inr x \<and> row_get r' ''comparison_value'' = VFloat x))"
    using o1 x v by (auto simp: merge_row_def COMPARISON_KEYS_def Let_def split: option.splits sum.splits if_splits)
  moreover have "finite_error rs = None" using Cons.prems(2) by (auto split: sum.splits if_splits)
  ultimately show ?case using Cons.IH [OF o2] Cons.prems(3) out by auto
qed simp

lemma exact_row_cong:
  assumes "\<forall>k\<in>insert ''value'' (set dims). row_get r' k = row_get r k"
  shows "exact_row columns dims scope period r' = exact_row columns dims scope period r" "row_amount r' = row_amount r"
    "of_key columns dims r' = of_key columns dims r" "row_key dims r' = row_key dims r"
proof -
  show "of_key columns dims r' = of_key columns dims r" using assms by (intro ext) (simp add: of_key_def list_all_iff)
  then show "exact_row columns dims scope period r' = exact_row columns dims scope period r" using assms by (simp add: exact_row_def)
  show "row_amount r' = row_amount r" "row_key dims r' = row_key dims r" using assms by (simp_all add: row_amount_def row_key_def)
qed

lemma csv_validate_plan_Nil:
  "csv_validate_plan con plan access = [] \<longleftrightarrow> csv_access_error con access = None
     \<and> pl_tenant_id plan = kc_tenant_id con \<and> pl_connector_id plan = cd_connector_id (kc_descriptor con)
     \<and> pl_metric_id plan = ''MOBILE_ACTIVATIONS'' \<and> pl_aggregation plan = AGG_SUM
     \<and> pl_row_limit plan \<le> cd_maximum_rows (kc_descriptor con) \<and> set (pl_dimensions plan) \<subseteq> set (dataset_dimensions (kc_dataset con))
     \<and> (\<forall>f\<in>set (pl_filters plan). csv_filter_errors (kc_dataset con) access f = [])"
  by (auto simp: csv_validate_plan_def split: option.splits)

lemma csv_access_error_None:
  "csv_access_error con access = None \<longleftrightarrow> ac_tenant_id access = kc_tenant_id con \<and> ac_user_id access = kc_user_id con
     \<and> READ_DATA_ACTION \<in> ac_actions access \<and> ac_regions access \<noteq> {} \<and> ac_regions access \<subseteq> REGIONS"
  by (auto simp: csv_access_error_def)

lemma comparison_dates:
  "resolve_comparison_range r c = Inr (Some p) \<Longrightarrow> valid_date (rr_start p) \<and> valid_date (rr_end p)"
  by (cases c) (auto simp: resolve_comparison_range_def shift_year_def mk_date_def Let_def dest: date_add_InrD(1) split: sum.splits if_splits)

lemma csv_periods_Inr:
  "csv_periods plan = Inr (cur, cmp) \<longleftrightarrow> resolve_window (pl_time_window plan) = Inr cur
     \<and> resolve_comparison_range cur (pl_comparison plan) = Inr cmp"
  by (auto simp: csv_periods_def split: sum.splits py_exc.splits)

lemma csv_execute_read_only_Inr:
  assumes "csv_execute_read_only con env rid now plan access = Inr receipt"
  obtains cur cmp where "csv_validate_plan con plan access = []" "csv_periods plan = Inr (cur, cmp)"
    "check_coverage (kc_dataset con) cur = None" "csv_execute env rid now (kc_dataset con) plan access cur cmp = Inr receipt"
  using assms by (auto simp: csv_execute_read_only_def Let_def split: if_splits sum.splits option.splits)

lemma csv_execute_Inr:
  assumes "csv_execute env rid now ds plan access cur cmp = Inr receipt"
  obtains current_rows sql comparison_rows csql rows canonical where
    "csv_query_rows ds plan access cur = Inr (current_rows, sql)" "comparison_query ds plan access cmp = Inr (comparison_rows, csql)"
    "cmp \<noteq> None \<Longrightarrow> row_key (pl_dimensions plan) ` set current_rows = row_key (pl_dimensions plan) ` set comparison_rows"
    "merge_rows (dict_of (row_key (pl_dimensions plan)) comparison_rows) (pl_dimensions plan) current_rows = Inr rows"
    "canonical_rows rows = Inr canonical"
    "receipt = csv_receipt env rid now ds plan cur cmp (sql # csql) rows (se_result_digest env canonical)"
proof (cases "csv_query_rows ds plan access cur")
  case (Inr a)
  obtain current_rows sql where a: "csv_query_rows ds plan access cur = Inr (current_rows, sql)" using Inr by (cases a) auto
  obtain comparison_rows csql where b: "comparison_query ds plan access cmp = Inr (comparison_rows, csql)"
    using assms a by (cases "comparison_query ds plan access cmp") (auto simp: csv_execute_def)
  have k: "cmp \<noteq> None \<Longrightarrow> row_key (pl_dimensions plan) ` set current_rows = row_key (pl_dimensions plan) ` set comparison_rows"
    using assms a b by (auto simp: csv_execute_def split: if_splits)
  then obtain rows where m: "merge_rows (dict_of (row_key (pl_dimensions plan)) comparison_rows) (pl_dimensions plan) current_rows = Inr rows"
    using assms a b by (cases "merge_comparison_rows current_rows comparison_rows (pl_dimensions plan)")
      (auto simp: csv_execute_def merge_comparison_rows_def split: if_splits)
  obtain canonical where c: "canonical_rows rows = Inr canonical"
    using assms a b k m by (cases "canonical_rows rows") (auto simp: csv_execute_def merge_comparison_rows_def split: if_splits)
  have "receipt = csv_receipt env rid now ds plan cur cmp (sql # csql) rows (se_result_digest env canonical)"
    using assms a b k m c by (auto simp: csv_execute_def merge_comparison_rows_def split: if_splits)
  with a b k m c show ?thesis by (rule that)
qed (use assms in \<open>simp add: csv_execute_def\<close>)

lemma dimensions_not_comparison: "set (dataset_dimensions ds) \<inter> COMPARISON_KEYS = {}"
proof -
  have "set (dataset_dimensions ds) \<subseteq> set (map fst CSV_DIMENSION_COLUMNS)" by (auto simp: dataset_dimensions_def)
  moreover have "set (map fst CSV_DIMENSION_COLUMNS) \<inter> COMPARISON_KEYS = {}" by (simp add: CSV_DIMENSION_COLUMNS_def COMPARISON_KEYS_def)
  ultimately show ?thesis by blast
qed

lemma list_all2_right: "list_all2 P xs ys \<Longrightarrow> y \<in> set ys \<Longrightarrow> \<exists>x\<in>set xs. P x y"
  by (induction rule: list_all2_induct) auto

lemma merged_amounts:
  assumes "list_all2 (\<lambda>r r'. \<forall>k. k \<notin> COMPARISON_KEYS \<longrightarrow> row_get r' k = row_get r k) rs out" "set dims \<inter> COMPARISON_KEYS = {}"
    "\<forall>r\<in>set rs. exact_row columns dims scope period r"
  shows "(\<forall>r\<in>set out. exact_row columns dims scope period r) \<and> sum_list (map row_amount out) = sum_list (map row_amount rs)"
proof -
  have same: "\<forall>k\<in>insert ''value'' (set dims). row_get r' k = row_get r k"
    if "\<forall>k. k \<notin> COMPARISON_KEYS \<longrightarrow> row_get r' k = row_get r k" for r r'
  proof
    have "''value'' \<notin> COMPARISON_KEYS" by (simp add: COMPARISON_KEYS_def)
    fix k
    assume "k \<in> insert ''value'' (set dims)"
    then have "k \<notin> COMPARISON_KEYS" using assms(2) \<open>''value'' \<notin> COMPARISON_KEYS\<close> by blast
    then show "row_get r' k = row_get r k" using that by blast
  qed
  show ?thesis using assms(1,3)
  proof (induction rule: list_all2_induct)
    case (Cons r rs r' out)
    show ?case using Cons.IH Cons.prems exact_row_cong(1,2) [OF same [OF Cons(1)]] by simp
  qed simp
qed

lemma csv_query_values:
  assumes "csv_query_rows ds plan access period = Inr (out, sql)"
  shows "finite_error out = None" "\<forall>r\<in>set out. row_get r ''value'' \<noteq> VNone"
  by (rule csv_query_rows_Inr [OF assms], assumption)+

text \<open>The comparison value of a row is the float of the sum of its key's observations of the comparison period.\<close>

definition exact_comparison :: "string list \<Rightarrow> string list \<Rightarrow> csv_cell list list \<Rightarrow> row \<Rightarrow> bool" where
  "exact_comparison columns dims scope r \<longleftrightarrow>
     (\<exists>x. fl_of_int (sum_list (map (fact_count columns) (filter (of_key columns dims r) scope))) = Inr x
        \<and> row_get r ''comparison_value'' = VFloat x)"

lemma csv_answer:
  assumes e: "csv_execute_read_only con env rid now plan access = Inr receipt" and ok: "dataset_ok m (kc_dataset con)"
    and w: "window_valid (pl_time_window plan)"
  obtains cur cmp where "csv_validate_plan con plan access = []"
    "rc_resolved_start receipt = rr_start cur" "rc_resolved_end receipt = rr_end cur"
    "\<forall>r\<in>set (rc_result_rows receipt). exact_row (cs_columns (kc_dataset con)) (pl_dimensions plan) (csv_scope (kc_dataset con) plan access cur) cur r"
    "sum_list (map row_amount (rc_result_rows receipt))
       = sum_list (map (fact_count (cs_columns (kc_dataset con))) (csv_scope (kc_dataset con) plan access cur))"
    "rc_comparison_start receipt = map_option rr_start cmp" "rc_comparison_end receipt = map_option rr_end cmp"
    "\<And>p r. cmp = Some p \<Longrightarrow> r \<in> set (rc_result_rows receipt)
       \<Longrightarrow> exact_comparison (cs_columns (kc_dataset con)) (pl_dimensions plan) (csv_scope (kc_dataset con) plan access p) r"
proof -
  let ?ds = "kc_dataset con" and ?dims = "pl_dimensions plan"
  let ?c = "cs_columns ?ds"
  obtain cur cmp where val: "csv_validate_plan con plan access = []" and per: "csv_periods plan = Inr (cur, cmp)"
    and ex: "csv_execute env rid now ?ds plan access cur cmp = Inr receipt"
    by (rule csv_execute_read_only_Inr [OF e], rule that, assumption+)
  obtain rows0 sql rows1 csql rows canonical where
    q: "csv_query_rows ?ds plan access cur = Inr (rows0, sql)" and q1: "comparison_query ?ds plan access cmp = Inr (rows1, csql)"
    and keys: "cmp \<noteq> None \<Longrightarrow> row_key ?dims ` set rows0 = row_key ?dims ` set rows1"
    and mg: "merge_rows (dict_of (row_key ?dims) rows1) ?dims rows0 = Inr rows"
    and rc: "receipt = csv_receipt env rid now ?ds plan cur cmp (sql # csql) rows (se_result_digest env canonical)"
    by (rule csv_execute_Inr [OF ex], rule that, assumption+)
  have acc: "ac_regions access \<subseteq> REGIONS" and dims: "set ?dims \<subseteq> set (dataset_dimensions ?ds)"
    using val by (auto simp: csv_validate_plan_Nil csv_access_error_None)
  have cd: "set ?dims \<inter> COMPARISON_KEYS = {}" using dims dimensions_not_comparison by blast
  have v: "valid_date (rr_start cur)" "valid_date (rr_end cur)" using resolved_dates [OF w] per by (auto simp: csv_periods_Inr)
  note x0 = csv_rows_exact [OF q ok v acc dims]
  note keep = merge_keeps [OF mg csv_query_values [OF q]]
  have all: "(\<forall>r\<in>set rows. exact_row ?c ?dims (csv_scope ?ds plan access cur) cur r) \<and> sum_list (map row_amount rows) = sum_list (map row_amount rows0)"
    by (rule merged_amounts [OF list_all2_mono [OF keep] cd]) (use x0 in auto)
  have cmpx: "exact_comparison ?c ?dims (csv_scope ?ds plan access p) r'" if p: "cmp = Some p" and r': "r' \<in> set rows" for p r'
  proof -
    have vp: "valid_date (rr_start p)" "valid_date (rr_end p)" using per p comparison_dates by (auto simp: csv_periods_Inr)
    obtain sql1 where q2: "csv_query_rows ?ds plan access p = Inr (rows1, sql1)" using q1 p by (auto simp: comparison_query_def)
    obtain r where r: "r \<in> set rows0" and same: "\<forall>k. k \<notin> COMPARISON_KEYS \<longrightarrow> row_get r' k = row_get r k"
      and to: "\<forall>c. dict_of (row_key ?dims) rows1 (row_key ?dims r) = Some c \<longrightarrow> row_get c ''value'' \<noteq> VNone
        \<longrightarrow> (\<exists>x. to_float (row_get c ''value'') = Inr x \<and> row_get r' ''comparison_value'' = VFloat x)"
      using list_all2_right [OF keep r'] by blast
    have "row_key ?dims r \<in> row_key ?dims ` set rows1" using keys p r by auto
    then obtain c where c: "dict_of (row_key ?dims) rows1 (row_key ?dims r) = Some c" using dict_of_ex by metis
    have cin: "c \<in> set rows1" "row_key ?dims c = row_key ?dims r" using dict_of_SomeD [OF c] by auto
    have xc: "row_get c ''value'' = VInt (sum_list (map (fact_count ?c) (filter (of_key ?c ?dims c) (csv_scope ?ds plan access p))))"
      using csv_rows_exact [OF q2 ok vp acc dims] cin(1) by (auto simp: exact_row_def)
    have "\<forall>d\<in>set ?dims. row_get c d = row_get r' d" using cin(2) same cd by (auto simp: row_key_def)
    then have "of_key ?c ?dims c = of_key ?c ?dims r'" by (intro ext) (simp add: of_key_def list_all_iff)
    with to c xc show ?thesis by (auto simp: exact_comparison_def)
  qed
  show ?thesis
    by (rule that [OF val, of cur cmp]) (use rc all x0 cmpx in \<open>auto simp: csv_receipt_def\<close>)
qed

definition receipt_period :: "QueryReceipt \<Rightarrow> ResolvedRange" where
  "receipt_period receipt = \<lparr>rr_start = rc_resolved_start receipt, rr_end = rc_resolved_end receipt\<rparr>"

definition receipt_comparison :: "QueryReceipt \<Rightarrow> ResolvedRange option" where
  "receipt_comparison receipt =
     (case (rc_comparison_start receipt, rc_comparison_end receipt) of
        (Some s, Some e) \<Rightarrow> Some \<lparr>rr_start = s, rr_end = e\<rparr> | _ \<Rightarrow> None)"

text \<open>C5: an answer from an uploaded file is exact: each of its rows carries the sum of the counts of the file's rows of its
  group that lie in the caller's regions, the plan's filters and the resolved period, and the group has a row for every
  day of it; together the rows account for every row in scope, none lost and none counted twice; and a comparison value
  is the same sum over the comparison period.\<close>

theorem csv_answers_are_exact:
  assumes "csv_execute_read_only con env rid now plan access = Inr receipt" "dataset_ok m (kc_dataset con)"
    "window_valid (pl_time_window plan)"
  shows "(\<forall>r\<in>set (rc_result_rows receipt). exact_row (cs_columns (kc_dataset con)) (pl_dimensions plan)
        (csv_scope (kc_dataset con) plan access (receipt_period receipt)) (receipt_period receipt) r)
    \<and> sum_list (map row_amount (rc_result_rows receipt))
        = sum_list (map (fact_count (cs_columns (kc_dataset con))) (csv_scope (kc_dataset con) plan access (receipt_period receipt)))
    \<and> (\<forall>period\<in>set_option (receipt_comparison receipt). \<forall>r\<in>set (rc_result_rows receipt).
        exact_comparison (cs_columns (kc_dataset con)) (pl_dimensions plan) (csv_scope (kc_dataset con) plan access period) r)"
proof (rule csv_answer [OF assms])
  fix cur cmp
  let ?c = "cs_columns (kc_dataset con)" and ?scope = "csv_scope (kc_dataset con) plan access"
  assume r: "rc_resolved_start receipt = rr_start cur" "rc_resolved_end receipt = rr_end cur"
    "\<forall>r\<in>set (rc_result_rows receipt). exact_row ?c (pl_dimensions plan) (?scope cur) cur r"
    "sum_list (map row_amount (rc_result_rows receipt)) = sum_list (map (fact_count ?c) (?scope cur))"
    and c: "rc_comparison_start receipt = map_option rr_start cmp" "rc_comparison_end receipt = map_option rr_end cmp"
    "\<And>p r. cmp = Some p \<Longrightarrow> r \<in> set (rc_result_rows receipt) \<Longrightarrow> exact_comparison ?c (pl_dimensions plan) (?scope p) r"
  have "receipt_period receipt = cur" "receipt_comparison receipt = cmp"
    using r(1,2) c(1,2) by (cases cur; simp add: receipt_period_def) (cases cmp; simp add: receipt_comparison_def c)
  with r(3,4) c(3) show ?thesis by (cases cmp) auto
qed

lemma csv_query_within_limit:
  "csv_query_rows ds plan access period = Inr (out, sql) \<Longrightarrow> int (length out) \<le> pl_row_limit plan"
  by (auto simp: csv_query_rows_def dest!: pop_days_Inr split: sum.splits option.splits if_splits)

lemma csv_answer_within_limit:
  assumes "csv_execute env rid now ds plan access cur cmp = Inr receipt"
  shows "rc_row_count receipt = int (length (rc_result_rows receipt)) \<and> rc_row_count receipt \<le> pl_row_limit plan"
proof (rule csv_execute_Inr [OF assms])
  fix current_rows sql comparison_rows csql rows canonical
  assume q: "csv_query_rows ds plan access cur = Inr (current_rows, sql)"
    and m: "merge_rows (dict_of (row_key (pl_dimensions plan)) comparison_rows) (pl_dimensions plan) current_rows = Inr rows"
    and rc: "receipt = csv_receipt env rid now ds plan cur cmp (sql # csql) rows (se_result_digest env canonical)"
  from merge_keeps [OF m csv_query_values [OF q]] have "length rows = length current_rows"
    by (auto dest: list_all2_lengthD)
  with csv_query_within_limit [OF q] rc show ?thesis by (simp add: csv_receipt_def)
qed

text \<open>A plan is executed on an uploaded file only for the user and tenant of its session, with the right to read data and
  within explicit, known regions, its region filters among them, for dimensions of the uploaded file; and the answer holds no
  more rows than the plan's limit: a result beyond it is refused.\<close>

theorem csv_execution_is_permitted:
  assumes "csv_execute_read_only con env rid now plan access = Inr receipt"
  shows "ac_tenant_id access = kc_tenant_id con \<and> ac_user_id access = kc_user_id con \<and> pl_tenant_id plan = kc_tenant_id con
    \<and> READ_DATA_ACTION \<in> ac_actions access \<and> ac_regions access \<noteq> {} \<and> ac_regions access \<subseteq> REGIONS
    \<and> list_all (\<lambda>f. qf_dimension_id f = ''REGION'' \<longrightarrow> set (qf_values f) \<subseteq> ac_regions access) (pl_filters plan)
    \<and> set (pl_dimensions plan) \<subseteq> set (dataset_dimensions (kc_dataset con))
    \<and> rc_row_count receipt = int (length (rc_result_rows receipt)) \<and> rc_row_count receipt \<le> pl_row_limit plan"
proof (rule csv_execute_read_only_Inr [OF assms])
  fix cur cmp
  assume v: "csv_validate_plan con plan access = []" and e: "csv_execute env rid now (kc_dataset con) plan access cur cmp = Inr receipt"
  from v csv_answer_within_limit [OF e] show ?thesis
    by (auto simp: csv_validate_plan_Nil csv_access_error_None csv_filter_errors_def list_all_iff split: if_splits)
qed

definition demo_csv_connector :: csv_connector where
  "demo_csv_connector = make_csv_connector demo_dataset ''csv'' ''demo-telecom'' (ac_user_id western)"

definition demo_csv_plan :: StructuredQueryPlan where
  "demo_csv_plan = demo_plan\<lparr>pl_connector_id := ''csv'', pl_comparison := NO_COMPARISON, pl_time_window := (pl_time_window demo_plan)
     \<lparr>tw_preset := CUSTOM, tw_start_date := Some (Date 2026 7 1), tw_end_date := Some (Date 2026 7 1)\<rparr>\<rparr>"

lemma demo_csv_executed:
  "is_ok (csv_execute_read_only demo_csv_connector demo_env ''r1'' 0 demo_csv_plan western)"
  "map row_amount (rc_result_rows (projr (csv_execute_read_only demo_csv_connector demo_env ''r1'' 0 demo_csv_plan western))) = [15]"
  by code_simp+

lemma demo_csv_receipt:
  obtains receipt where "csv_execute_read_only demo_csv_connector demo_env ''r1'' 0 demo_csv_plan western = Inr receipt"
    "map row_amount (rc_result_rows receipt) = [15]"
  using demo_csv_executed by (auto simp: is_ok_iff)

theorem csv_answers_are_exact_witness:
  "\<exists>receipt. csv_execute_read_only demo_csv_connector demo_env ''r1'' 0 demo_csv_plan western = Inr receipt
    \<and> sum_list (map (fact_count (cs_columns demo_dataset)) (csv_scope demo_dataset demo_csv_plan western (receipt_period receipt))) = 15"
proof -
  obtain receipt where r: "csv_execute_read_only demo_csv_connector demo_env ''r1'' 0 demo_csv_plan western = Inr receipt"
    "map row_amount (rc_result_rows receipt) = [15]" by (rule demo_csv_receipt)
  have ds: "kc_dataset demo_csv_connector = demo_dataset" by (simp add: demo_csv_connector_def make_csv_connector_def)
  have w: "window_valid (pl_time_window demo_csv_plan)"
    by (simp add: demo_csv_plan_def demo_plan_def window_valid_def valid_date_def days_in_month_def validate_dates_def less_eq_date_def less_date_def)
  have ok: "dataset_ok 10 (kc_dataset demo_csv_connector)" using demo_dataset_ok by (simp add: ds)
  from csv_answers_are_exact [OF r(1) ok w] r show ?thesis unfolding ds by auto
qed

theorem csv_execution_is_permitted_witness:
  "ac_user_id western = kc_user_id demo_csv_connector \<and> ac_regions western \<subseteq> REGIONS"
proof -
  obtain receipt where r: "csv_execute_read_only demo_csv_connector demo_env ''r1'' 0 demo_csv_plan western = Inr receipt"
    by (rule demo_csv_receipt)
  from csv_execution_is_permitted [OF r] show ?thesis by blast
qed

end
