(* ===== verification/CsvWorkspace.thy ===== *)
theory CsvWorkspace
  imports CsvConnector Authority ChatRuns RunCoordinator
begin

section \<open>CsvWorkspace: anonymous workspaces over an uploaded file\<close>

text \<open>
  \<open>services/csv_workspace.py\<close> with \<open>core/csv_config.py\<close>, \<open>services/csv_checkpoint.py\<close>,
  \<open>services/ephemeral_run.py\<close> and \<open>services/semantic_context.py\<close>.  A workspace is the sessions in memory, the
  coordinator with its run store, and the definition store.  A session object that an operation holds is the
  entry of its token, which is never removed while the session is busy.  The readings of the two clocks are
  floats and arguments; so are the digests, the texts of checkpoints, the journal and the chat environment.
\<close>

subsection \<open>Settings\<close>

record csv_settings =
  ct_enabled :: bool
  ct_maximum_bytes :: int
  ct_maximum_rows :: int
  ct_maximum_sessions :: int
  ct_maximum_language_questions :: int
  ct_state_database_path :: "string option"
  ct_session_ttl_seconds :: int

definition make_csv_settings :: "(string \<Rightarrow> bool) \<Rightarrow> csv_settings \<Rightarrow> py_exc + csv_settings" where
  "make_csv_settings is_absolute s =
     (if \<not> (1 \<le> ct_maximum_bytes s \<and> ct_maximum_bytes s \<le> 5000000)
         \<or> \<not> (1 \<le> ct_maximum_rows s \<and> ct_maximum_rows s \<le> 50000)
         \<or> \<not> (1 \<le> ct_maximum_sessions s \<and> ct_maximum_sessions s \<le> 64)
         \<or> \<not> (1 \<le> ct_maximum_language_questions s \<and> ct_maximum_language_questions s \<le> 20)
         \<or> \<not> (1 \<le> ct_session_ttl_seconds s \<and> ct_session_ttl_seconds s \<le> 3600)
         \<or> (case ct_state_database_path s of None \<Rightarrow> False | Some path \<Rightarrow> \<not> is_absolute path)
      then Inl ValueError else Inr s)"

subsection \<open>Sessions\<close>

record saved_csv_run =
  sv_dataset :: CsvDataset
  sv_question :: string
  sv_as_of :: datetime
  sv_snapshot_id :: string
  sv_interpretation :: "InterpretationResult option"
  sv_model :: "string option"

record demo_session =
  dw_user_id :: string
  dw_expires_at :: pyfloat
  dw_definitions :: governance
  dw_dataset :: "CsvDataset option"
  dw_last_response :: "DemoChatResponse option"
  dw_busy :: bool
  dw_history :: "(string \<times> saved_csv_run) list"
  dw_language_questions :: int
  dw_expires_wall :: pyfloat
  dw_conversation_id :: uuid

datatype ws_failure = DemoExpired string | DemoBusy string | UploadInvalid string | RunFailure run_failure
  | DefinitionFailure gov_error | LanguageBudget AgentFailure | ChatFailure "chat_exc agent_exc" | CheckpointInvalid
  | CitationMissing

text \<open>What a checkpoint keeps of a session beside its user, its conversation and its expiry.\<close>

record saved_session =
  sx_version :: int
  sx_dataset :: "CsvDataset option"
  sx_history :: "(string \<times> saved_csv_run) list"
  sx_last_response :: "DemoChatResponse option"
  sx_language_questions :: int

record 'd csv_site =
  si_settings :: csv_settings
  si_pack :: TenantDomainPack
  si_pack_hash :: "TenantDomainPack \<Rightarrow> string"
  si_owner_digest :: "string list \<Rightarrow> string"
  si_scope_digest :: "string list list \<Rightarrow> string"
  si_token_digest :: "string \<Rightarrow> string"
  si_language_enabled :: bool
  si_language_model :: "string option"
  si_sql :: sql_environment
  si_request_digest :: "RunRequest \<Rightarrow> string"
  si_dump :: "saved_session \<Rightarrow> string"
  si_load :: "string \<Rightarrow> saved_session option"
  si_journal :: "'d journal"
  si_decode :: "string \<Rightarrow> string option"
  si_bytes_digest :: "string \<Rightarrow> string"

record 'd csv_workspace =
  wo_sessions :: "(string \<times> demo_session) list"
  wo_runs :: coordinator
  wo_definitions :: 'd

text \<open>\<open>_access\<close>: everything the demonstration grants.\<close>

definition csv_access :: "'d csv_site \<Rightarrow> demo_session \<Rightarrow> AccessContext" where
  "csv_access si item = \<lparr>ac_tenant_id = pk_tenant_id (si_pack si), ac_user_id = dw_user_id item, ac_roles = {''BI_MANAGER''},
     ac_departments = {''SALES''}, ac_regions = REGIONS, ac_business_units = {''CONSUMER''}, ac_clearance = RESTRICTED,
     ac_actions = {ASK_ACTION, READ_DATA_ACTION, EDIT, REVIEW, PUBLISH, REVOKE}\<rparr>"

definition csv_principal :: "'d csv_site \<Rightarrow> demo_session \<Rightarrow> string \<times> string" where
  "csv_principal si item = principal (si_owner_digest si) (si_scope_digest si) ''csv'' (csv_access si item)"

definition wo_db :: "'d csv_workspace \<Rightarrow> run_db" where
  "wo_db w = ck_db (wo_runs w)"

definition with_db :: "run_db \<Rightarrow> 'd csv_workspace \<Rightarrow> 'd csv_workspace" where
  "with_db db w = w\<lparr>wo_runs := (wo_runs w)\<lparr>ck_db := db\<rparr>\<rparr>"

definition put_session :: "string \<Rightarrow> demo_session \<Rightarrow> 'd csv_workspace \<Rightarrow> 'd csv_workspace" where
  "put_session token item w = w\<lparr>wo_sessions := AList.update token item (wo_sessions w)\<rparr>"

subsection \<open>Checkpoints\<close>

definition saved_of :: "demo_session \<Rightarrow> saved_session" where
  "saved_of item = \<lparr>sx_version = 1, sx_dataset = dw_dataset item, sx_history = dw_history item,
     sx_last_response = dw_last_response item, sx_language_questions = dw_language_questions item\<rparr>"

definition payload_of :: "'d csv_site \<Rightarrow> demo_session \<Rightarrow> checkpoint_payload" where
  "payload_of si item = \<lparr>kp_user_id = dw_user_id item, kp_expires_wall = dw_expires_wall item,
     kp_conversation_id = dw_conversation_id item, kp_rest = si_dump si (saved_of item)\<rparr>"

definition persist :: "'d csv_site \<Rightarrow> string \<Rightarrow> demo_session \<Rightarrow> 'd csv_workspace \<Rightarrow> 'd csv_workspace" where
  "persist si token item w = with_db (checkpoint (si_token_digest si) token (Some (payload_of si item)) (wo_db w)) w"

subsection \<open>Pruning\<close>

text \<open>The expired sessions that are not busy give up their definitions, their conversation and their checkpoint, in order; the
  error of one ends the pruning where it is.\<close>

definition expired :: "pyfloat \<Rightarrow> demo_session \<Rightarrow> bool" where
  "expired now item \<longleftrightarrow> fl_le (dw_expires_at item) now"

fun prune_sessions :: "'d csv_site \<Rightarrow> pyfloat \<Rightarrow> (string \<times> demo_session) list \<Rightarrow> 'd csv_workspace \<Rightarrow> ws_failure option \<times> 'd csv_workspace" where
  "prune_sessions si now [] w = (None, w)"
| "prune_sessions si now ((token, item) # rest) w =
     (if expired now item \<and> \<not> dw_busy item
      then (let w1 = w\<lparr>wo_definitions := j_delete (si_journal si) (gv_namespace (dw_definitions item)) (wo_definitions w)\<rparr>;
                (owner, scope) = csv_principal si item
            in case delete_conversation owner scope (dw_conversation_id item) (wo_db w1) of
                 Inl e \<Rightarrow> (Some (RunFailure e), w1)
               | Inr db \<Rightarrow> prune_sessions si now rest (with_db (checkpoint (si_token_digest si) token None db) w1))
      else prune_sessions si now rest w)"

definition namespace_of :: "string \<Rightarrow> string" where
  "namespace_of user = ''csv:'' @ user"

definition prune_workspace :: "'d csv_site \<Rightarrow> pyfloat \<Rightarrow> pyfloat \<Rightarrow> 'd csv_workspace \<Rightarrow> ws_failure option \<times> 'd csv_workspace" where
  "prune_workspace si now wall w =
     (case prune_sessions si now (wo_sessions w) w of
        (Some e, w1) \<Rightarrow> (Some e, w1)
      | (None, w1) \<Rightarrow>
        (let (users, db) = prune_checkpoints wall (wo_db w1); w2 = with_db db w1
         in (None, w2\<lparr>wo_definitions := fold (\<lambda>u. j_delete (si_journal si) (namespace_of u)) users (wo_definitions w2),
                    wo_sessions := filter (\<lambda>(t, item). fl_less now (dw_expires_at item) \<or> dw_busy item) (wo_sessions w2)\<rparr>)))"

subsection \<open>Creating, finding and clearing sessions\<close>

definition create_demo :: "'d csv_site \<Rightarrow> pyfloat \<Rightarrow> pyfloat \<Rightarrow> (nat \<Rightarrow> instant) \<Rightarrow> string \<Rightarrow> string \<Rightarrow> uuid \<Rightarrow> 'd csv_workspace
    \<Rightarrow> (ws_failure + string) \<times> 'd csv_workspace" where
  "create_demo si now wall clk token user cid w =
     (case prune_workspace si now wall w of (Some e, w1) \<Rightarrow> (Inl e, w1)
      | (None, w1) \<Rightarrow>
        if int (length (rd_checkpoints (wo_db w1))) \<ge> ct_maximum_sessions (si_settings si)
        then (Inl (DemoBusy ''Demo capacity reached; retry after an existing session expires.''), w1)
        else (case open_governance (si_journal si) (si_pack_hash si) (namespace_of user) (si_pack si) False clk (wo_definitions w1) of
                Inl e \<Rightarrow> (Inl (DefinitionFailure e), w1)
              | Inr (d, gv) \<Rightarrow>
                (let ttl = Fin (of_int (ct_session_ttl_seconds (si_settings si)));
                     item = \<lparr>dw_user_id = user, dw_expires_at = fl_add now ttl, dw_definitions = gv, dw_dataset = None,
                       dw_last_response = None, dw_busy = False, dw_history = [], dw_language_questions = 0,
                       dw_expires_wall = fl_add wall ttl, dw_conversation_id = cid\<rparr>;
                     w2 = put_session token item (w1\<lparr>wo_definitions := d\<rparr>);
                     (owner, scope) = csv_principal si item
                 in case create_conversation owner scope cid (clk 2) (wo_db w2) of
                      Inl e \<Rightarrow> (Inl (RunFailure e), w2)
                    | Inr (c, db) \<Rightarrow> (Inr token, persist si token item (with_db db w2)))))"

text \<open>The session of a checkpoint.\<close>

definition restored :: "'d csv_site \<Rightarrow> pyfloat \<Rightarrow> pyfloat \<Rightarrow> governance \<Rightarrow> checkpoint_payload \<Rightarrow> saved_session \<Rightarrow> demo_session" where
  "restored si now wall gv p saved = \<lparr>dw_user_id = kp_user_id p,
     dw_expires_at = fl_sub (fl_add now (kp_expires_wall p)) wall, dw_definitions = gv, dw_dataset = sx_dataset saved,
     dw_last_response = sx_last_response saved, dw_busy = False, dw_history = sx_history saved,
     dw_language_questions = sx_language_questions saved, dw_expires_wall = kp_expires_wall p,
     dw_conversation_id = kp_conversation_id p\<rparr>"

definition restore_session :: "'d csv_site \<Rightarrow> pyfloat \<Rightarrow> pyfloat \<Rightarrow> (nat \<Rightarrow> instant) \<Rightarrow> string \<Rightarrow> 'd csv_workspace
    \<Rightarrow> (ws_failure + demo_session option) \<times> 'd csv_workspace" where
  "restore_session si now wall clk token w =
     (case restore (si_token_digest si) (wo_db w) token of None \<Rightarrow> (Inr None, w)
      | Some p \<Rightarrow>
        (case si_load si (kp_rest p) of None \<Rightarrow> (Inl CheckpointInvalid, w)
         | Some saved \<Rightarrow>
           if sx_version saved \<noteq> 1 then (Inl (DemoExpired ''The saved workspace version is unsupported.''), w)
           else (case open_governance (si_journal si) (si_pack_hash si) (namespace_of (kp_user_id p)) (si_pack si) False clk (wo_definitions w) of
                   Inl e \<Rightarrow> (Inl (DefinitionFailure e), w)
                 | Inr (d, gv) \<Rightarrow>
                   (let item = restored si now wall gv p saved
                    in (Inr (Some item), put_session token item (w\<lparr>wo_definitions := d\<rparr>))))))"

definition session_expired :: ws_failure where
  "session_expired = DemoExpired ''Demo session expired or is unknown. Start a new demo session.''"

definition get_demo :: "'d csv_site \<Rightarrow> pyfloat \<Rightarrow> pyfloat \<Rightarrow> (nat \<Rightarrow> instant) \<Rightarrow> string \<Rightarrow> 'd csv_workspace
    \<Rightarrow> (ws_failure + demo_session) \<times> 'd csv_workspace" where
  "get_demo si now wall clk token w =
     (case prune_workspace si now wall w of (Some e, w1) \<Rightarrow> (Inl e, w1)
      | (None, w1) \<Rightarrow>
        (let (found, w2) = (case map_of (wo_sessions w1) token of
             Some item \<Rightarrow> (Inr (Some item), w1) | None \<Rightarrow> restore_session si now wall clk token w1)
         in case found of Inl e \<Rightarrow> (Inl e, w2)
            | Inr None \<Rightarrow> (Inl session_expired, w2)
            | Inr (Some item) \<Rightarrow> if expired now item then (Inl session_expired, w2) else (Inr item, w2)))"

text \<open>\<open>lease\<close>: what happens on entering the block and on leaving it.\<close>

definition begin_lease :: "'d csv_site \<Rightarrow> pyfloat \<Rightarrow> pyfloat \<Rightarrow> (nat \<Rightarrow> instant) \<Rightarrow> string \<Rightarrow> 'd csv_workspace
    \<Rightarrow> (ws_failure + demo_session) \<times> 'd csv_workspace" where
  "begin_lease si now wall clk token w =
     (case get_demo si now wall clk token w of (Inl e, w1) \<Rightarrow> (Inl e, w1)
      | (Inr item, w1) \<Rightarrow>
        if dw_busy item then (Inl (DemoBusy ''This demo session already has an operation in progress.''), w1)
        else (let item' = item\<lparr>dw_busy := True\<rparr> in (Inr item', put_session token item' w1)))"

definition end_lease :: "'d csv_site \<Rightarrow> string \<Rightarrow> 'd csv_workspace \<Rightarrow> 'd csv_workspace" where
  "end_lease si token w =
     (case map_of (wo_sessions w) token of None \<Rightarrow> w
      | Some item \<Rightarrow> (let item' = item\<lparr>dw_busy := False\<rparr> in persist si token item' (put_session token item' w)))"

definition clear_demo :: "'d csv_site \<Rightarrow> pyfloat \<Rightarrow> pyfloat \<Rightarrow> (nat \<Rightarrow> instant) \<Rightarrow> string \<Rightarrow> 'd csv_workspace
    \<Rightarrow> (ws_failure + unit) \<times> 'd csv_workspace" where
  "clear_demo si now wall clk token w =
     (case get_demo si now wall clk token w of (Inl e, w1) \<Rightarrow> (Inl e, w1)
      | (Inr item, w1) \<Rightarrow>
        if dw_busy item then (Inl (DemoBusy ''Wait for the current operation before clearing the session.''), w1)
        else (let (owner, scope) = csv_principal si item
              in case delete_conversation owner scope (dw_conversation_id item) (wo_db w1) of
                   Inl e \<Rightarrow> (Inl (RunFailure e), w1)
                 | Inr db \<Rightarrow>
                   (let w2 = with_db (checkpoint (si_token_digest si) token None db) w1
                    in (Inr (), w2\<lparr>wo_sessions := AList.delete token (wo_sessions w2),
                      wo_definitions := j_delete (si_journal si) (gv_namespace (dw_definitions item)) (wo_definitions w2)\<rparr>))))"

subsection \<open>Uploads\<close>

definition upload :: "'d csv_site \<Rightarrow> instant \<Rightarrow> string \<Rightarrow> demo_session \<Rightarrow> ws_failure + demo_session" where
  "upload si now raw item =
     (case parse_csv (si_decode si) (si_bytes_digest si) now raw (ct_maximum_bytes (si_settings si)) (ct_maximum_rows (si_settings si)) of
        Inl message \<Rightarrow> Inl (UploadInvalid message)
      | Inr ds \<Rightarrow> Inr (item\<lparr>dw_dataset := Some ds, dw_last_response := None\<rparr>))"

subsection \<open>The evidence of a single run\<close>

text \<open>\<open>EphemeralRunStore\<close>: one session, whose owner is the last caller that created it.\<close>

record ephemeral_run =
  er_session_id :: uuid
  er_owner :: "(string \<times> string) option"
  er_question :: "string option"
  er_decision :: "QuestionDecision option"
  er_query_ir :: "BusinessQueryIR option"

definition ephemeral_create :: "uuid \<Rightarrow> instant \<Rightarrow> AccessContext \<Rightarrow> ephemeral_run \<Rightarrow> session_error + ephemeral_run" where
  "ephemeral_create sid now access er =
     Inr (er\<lparr>er_owner := Some (ac_tenant_id access, ac_user_id access), er_session_id := sid\<rparr>)"

definition ephemeral_ensure :: "uuid \<Rightarrow> AccessContext \<Rightarrow> ephemeral_run \<Rightarrow> session_error + unit" where
  "ephemeral_ensure sid access er =
     (if sid \<noteq> er_session_id er \<or> er_owner er \<noteq> Some (ac_tenant_id access, ac_user_id access)
      then Inl SessionAccessDenied else Inr ())"

definition ephemeral_evaluation :: "uuid \<times> uuid \<Rightarrow> instant \<Rightarrow> uuid \<Rightarrow> string \<Rightarrow> QuestionDecision \<Rightarrow> ephemeral_run
    \<Rightarrow> session_error + ephemeral_run" where
  "ephemeral_evaluation ids now sid question decision er =
     (if sid \<noteq> er_session_id er then Inl SessionAccessDenied
      else Inr (er\<lparr>er_question := Some question, er_decision := Some decision\<rparr>))"

definition ephemeral_plan :: "instant \<Rightarrow> uuid \<Rightarrow> BusinessQueryIR \<Rightarrow> ephemeral_run \<Rightarrow> session_error + ephemeral_run" where
  "ephemeral_plan now sid ir er =
     (if sid \<noteq> er_session_id er then Inl SessionAccessDenied else Inr (er\<lparr>er_query_ir := Some ir\<rparr>))"

definition ephemeral_runs :: "ephemeral_run session_port" where
  "ephemeral_runs = \<lparr>sn_create = ephemeral_create, sn_ensure = ephemeral_ensure, sn_evaluation = ephemeral_evaluation,
     sn_plan = ephemeral_plan\<rparr>"

definition new_ephemeral :: "uuid \<Rightarrow> ephemeral_run" where
  "new_ephemeral sid = \<lparr>er_session_id = sid, er_owner = None, er_question = None, er_decision = None, er_query_ir = None\<rparr>"

subsection \<open>Citations\<close>

text \<open>\<open>cite_definitions\<close>: a query is answered with the definitions it was planned with; a metric that the snapshot lacks is an
  exhausted iterator.\<close>

definition cite_definitions :: "DemoChatResponse \<Rightarrow> DefinitionSnapshot \<Rightarrow> ws_failure + DemoChatResponse" where
  "cite_definitions rp s =
     (case rp_query_ir rp of None \<Rightarrow> Inr rp
      | Some ir \<Rightarrow>
        (case List.find (\<lambda>m. md_id m = q_metric_id ir) (pk_metrics (sn_pack s)) of None \<Rightarrow> Inl CitationMissing
         | Some metric \<Rightarrow>
           (let ids = set (q_dimensions ir) \<union> qf_dimension_id ` set (q_filters ir)
            in Inr (rp\<lparr>rp_semantic_context := Some \<lparr>sc_snapshot_id = sn_snapshot_id s, sc_snapshot_hash = sn_snapshot_id s,
                 sc_publication_sequence = sn_sequence s, sc_effective_from = pk_effective_from (sn_pack s), sc_metric = metric,
                 sc_dimensions = filter (\<lambda>d. be_id d \<in> ids) (pk_entities (sn_pack s))\<rparr>,
               rp_receipt := map_option (\<lambda>rc. rc\<lparr>rc_definition_snapshot_id := Some (sn_snapshot_id s)\<rparr>) (rp_receipt rp)\<rparr>))))"

subsection \<open>Executing a question\<close>

text \<open>The only error of SQLite is an integer overflow.\<close>

definition csv_port :: "csv_connector \<Rightarrow> sql_environment \<Rightarrow> uuid \<Rightarrow> instant \<Rightarrow> connector" where
  "csv_port con senv rid now = \<lparr>co_descriptor = kc_descriptor con,
     co_execute = (\<lambda>plan access. case csv_execute_read_only con senv rid now plan access of
        Inr rc \<Rightarrow> Inr rc
      | Inl (CsvNotReady message) \<Rightarrow> Inl (NotReady message)
      | Inl (CsvValidation message) \<Rightarrow> Inl (Rejected message)
      | Inl (CsvRaised e) \<Rightarrow> Inl (ConnectorRaised e)
      | Inl CsvSqlError \<Rightarrow> Inl (ConnectorRaised OverflowError))\<rparr>"

text \<open>The service of one run: the packs of the snapshot, and a connector over the file for each source that its metrics name.
  The identifiers, the clocks and the bound interpreter of the run are in \<open>env\<close>.\<close>

definition run_env :: "'d csv_site \<Rightarrow> chat_env \<Rightarrow> demo_session \<Rightarrow> CsvDataset \<Rightarrow> DefinitionSnapshot \<Rightarrow> InterpretationResult option
    \<Rightarrow> string option \<Rightarrow> chat_env" where
  "run_env si env item ds s replay replay_model = env\<lparr>ce_packs := from_snapshot (sn_pack s),
     ce_connectors := (\<lambda>cid. if cid \<in> (\<lambda>m. ds_connector_id (md_source m)) ` set (pk_metrics (sn_pack s))
       then Some (csv_port (make_csv_connector ds cid (ac_tenant_id (csv_access si item)) (ac_user_id (csv_access si item)))
              (si_sql si) (ce_query_id env) (ce_now env 5))
       else None),
     ce_ai_model := (if replay \<noteq> None then replay_model else si_language_model si), ce_synthetic_data := False\<rparr>"

definition run_request :: "'d csv_site \<Rightarrow> demo_session \<Rightarrow> string \<Rightarrow> datetime \<Rightarrow> DemoChatRequest" where
  "run_request si item question as_of =
     \<lparr>cr_request = \<lparr>qr_question = question, qr_access = csv_access si item, qr_session_id = None, qr_use_llm = si_language_enabled si\<rparr>,
      cr_as_of = as_of, dr_include_debug = True\<rparr>"

definition charge_language :: "'d csv_site \<Rightarrow> InterpretationResult option \<Rightarrow> demo_session \<Rightarrow> ws_failure + demo_session" where
  "charge_language si replay item =
     (if si_language_enabled si \<and> replay = None
      then (if dw_language_questions item \<ge> ct_maximum_language_questions (si_settings si)
            then Inl (LanguageBudget (agent_failure ''SESSION_LANGUAGE_BUDGET''
                   ''This demo session has reached its language question limit.'' 429))
            else Inr (item\<lparr>dw_language_questions := dw_language_questions item + 1\<rparr>))
      else Inr item)"

text \<open>What the bound interpreter left in the run.\<close>

definition interpretation_of :: "chat_env \<Rightarrow> TenantDomainPack \<Rightarrow> string \<Rightarrow> bool \<Rightarrow> InterpretationResult option" where
  "interpretation_of env pack question use_llm =
     (case ce_interpreter env question pack use_llm of Inl _ \<Rightarrow> None | Inr r \<Rightarrow> Some r)"

definition keep_four :: "('k \<times> 'v) list \<Rightarrow> ('k \<times> 'v) list" where
  "keep_four h = drop (length h - 4) h"

definition remember :: "DemoChatResponse \<Rightarrow> saved_csv_run \<Rightarrow> bool \<Rightarrow> demo_session \<Rightarrow> demo_session" where
  "remember rp saved save_result item =
     (let item1 = (case (rp_status rp = CS_ANSWERED, rp_receipt rp) of
            (True, Some rc) \<Rightarrow> item\<lparr>dw_history := keep_four (AList.update (rc_query_id rc) saved (dw_history item))\<rparr>
          | _ \<Rightarrow> item)
      in if save_result \<and> (case dw_dataset item of None \<Rightarrow> False | Some ds \<Rightarrow> cs_fingerprint ds = cs_fingerprint (sv_dataset saved))
         then item1\<lparr>dw_last_response := Some rp\<rparr> else item1)"

text \<open>\<open>_execute\<close>; \<open>later\<close> is the state of the definitions when the service has answered.\<close>

definition execute_csv :: "'d csv_site \<Rightarrow> chat_env \<Rightarrow> agent_run \<Rightarrow> (nat \<Rightarrow> instant) \<Rightarrow> demo_session \<Rightarrow> CsvDataset \<Rightarrow> string \<Rightarrow> datetime
    \<Rightarrow> DefinitionSnapshot \<Rightarrow> InterpretationResult option \<Rightarrow> string option \<Rightarrow> bool \<Rightarrow> 'd \<Rightarrow> (ws_failure + DemoChatResponse) \<times> demo_session" where
  "execute_csv si env run clk item ds question as_of s replay replay_model save_result later =
     (case charge_language si replay item of Inl e \<Rightarrow> (Inl e, item)
      | Inr item1 \<Rightarrow>
        (case normalize_question question of Inl e \<Rightarrow> (Inl (ChatFailure (OtherError (ChatRaised e))), item1)
         | Inr asked \<Rightarrow>
           (let env1 = run_env si env item1 ds s replay replay_model
            in case fst (answer env1 ephemeral_runs (run_request si item1 asked as_of)
                      \<lparr>cs_sessions = new_ephemeral (ce_session_id env), cs_run = Some run\<rparr>) of
                 Inl e \<Rightarrow> (Inl (ChatFailure e), item1)
               | Inr rp \<Rightarrow>
                 (case resolve (si_journal si) (dw_definitions item1) clk (csv_access si item1) (Some (sn_snapshot_id s)) False later of
                    Inl e \<Rightarrow> (Inl (DefinitionFailure e), item1)
                  | Inr _ \<Rightarrow>
                    (case cite_definitions rp s of Inl e \<Rightarrow> (Inl e, item1)
                     | Inr cited \<Rightarrow>
                       (Inr cited, remember cited \<lparr>sv_dataset = ds, sv_question = question, sv_as_of = as_of,
                          sv_snapshot_id = sn_snapshot_id s,
                          sv_interpretation = interpretation_of env1 (sn_pack s) asked (si_language_enabled si),
                          sv_model = rp_ai_model cited\<rparr> save_result item1))))))"

definition answer_csv :: "'d csv_site \<Rightarrow> chat_env \<Rightarrow> agent_run \<Rightarrow> (nat \<Rightarrow> instant) \<Rightarrow> (nat \<Rightarrow> instant) \<Rightarrow> demo_session \<Rightarrow> string \<Rightarrow> datetime
    \<Rightarrow> string \<Rightarrow> string option \<Rightarrow> 'd \<Rightarrow> 'd \<Rightarrow> (ws_failure + DemoChatResponse) \<times> demo_session" where
  "answer_csv si env run clk clk' item question as_of fingerprint sid earlier later =
     (case dw_dataset item of None \<Rightarrow> (Inl (UploadInvalid ''Upload a CSV before asking a question.''), item)
      | Some ds \<Rightarrow>
        if fingerprint \<noteq> cs_fingerprint ds then (Inl (DemoBusy ''The CSV changed. Refresh the source before asking again.''), item)
        else (case resolve (si_journal si) (dw_definitions item) clk (csv_access si item) sid True earlier of
                Inl e \<Rightarrow> (Inl (DefinitionFailure e), item)
              | Inr s \<Rightarrow> execute_csv si env run clk' (item\<lparr>dw_last_response := None\<rparr>) ds question as_of s None None True later))"

definition rerun_csv :: "'d csv_site \<Rightarrow> chat_env \<Rightarrow> agent_run \<Rightarrow> (nat \<Rightarrow> instant) \<Rightarrow> (nat \<Rightarrow> instant) \<Rightarrow> demo_session \<Rightarrow> string \<Rightarrow> 'd \<Rightarrow> 'd
    \<Rightarrow> (ws_failure + DemoChatResponse) \<times> demo_session" where
  "rerun_csv si env run clk clk' item rid earlier later =
     (case map_of (dw_history item) rid of
        None \<Rightarrow> (Inl (DefinitionFailure (Unavailable ''The saved run is not available in this demo session.'')), item)
      | Some saved \<Rightarrow>
        (case resolve (si_journal si) (dw_definitions item) clk (csv_access si item) (Some (sv_snapshot_id saved)) False earlier of
           Inl e \<Rightarrow> (Inl (DefinitionFailure e), item)
         | Inr s \<Rightarrow> execute_csv si env run clk' item (sv_dataset saved) (sv_question saved) (sv_as_of saved) s
             (sv_interpretation saved) (sv_model saved) True later))"

text \<open>The refresh of \<open>state\<close>: a response whose definitions are no longer usable is not shown again.\<close>

definition refresh_response :: "'d csv_site \<Rightarrow> (nat \<Rightarrow> instant) \<Rightarrow> 'd \<Rightarrow> demo_session \<Rightarrow> ws_failure + demo_session" where
  "refresh_response si clk d item =
     (case Option.bind (dw_last_response item) rp_semantic_context of None \<Rightarrow> Inr item
      | Some c \<Rightarrow>
        (case resolve (si_journal si) (dw_definitions item) clk (csv_access si item) (Some (sc_snapshot_id c)) False d of
           Inr _ \<Rightarrow> Inr item
         | Inl (Unavailable _) \<Rightarrow> Inr (item\<lparr>dw_last_response := None\<rparr>)
         | Inl e \<Rightarrow> Inl (DefinitionFailure e)))"

subsection \<open>Durable runs of a workspace\<close>

definition check_run :: "'d csv_site \<Rightarrow> pyfloat \<Rightarrow> pyfloat \<Rightarrow> (nat \<Rightarrow> instant) \<Rightarrow> string \<Rightarrow> uuid \<Rightarrow> 'd csv_workspace
    \<Rightarrow> (ws_failure + RunSnapshot) \<times> 'd csv_workspace" where
  "check_run si now wall clk token rid w =
     (case get_demo si now wall clk token w of (Inl e, w1) \<Rightarrow> (Inl e, w1)
      | (Inr item, w1) \<Rightarrow>
        (let (owner, scope) = csv_principal si item
         in case read_owned (wo_db w1) owner scope rid of Inl e \<Rightarrow> (Inl (RunFailure e), w1)
            | Inr run \<Rightarrow>
              if rq_conversation_id (rs_request run) \<noteq> dw_conversation_id item
              then (Inl (RunFailure (RunError ''The run does not belong to this workspace.'' 404)), w1)
              else (case resolve (si_journal si) (dw_definitions item) clk (csv_access si item)
                        (Some (rq_definition_snapshot_id (rs_request run))) False (wo_definitions w1) of
                      Inl e \<Rightarrow> (Inl (DefinitionFailure e), w1) | Inr _ \<Rightarrow> (Inr run, w1))))"

text \<open>\<open>submit_run\<close>; an accepted run holds the session until it is released, and drops the last response.\<close>

definition submit_csv :: "'d csv_site \<Rightarrow> nat \<Rightarrow> pyfloat \<Rightarrow> pyfloat \<Rightarrow> (nat \<Rightarrow> instant) \<Rightarrow> uuid \<Rightarrow> instant \<times> instant \<Rightarrow> instant \<times> instant
    \<Rightarrow> string \<Rightarrow> RunRequest \<Rightarrow> 'd csv_workspace \<Rightarrow> (ws_failure + RunSnapshot) \<times> 'd csv_workspace" where
  "submit_csv si maximum_active now wall clk rid ts ts' token request w =
     (case get_demo si now wall clk token w of (Inl e, w1) \<Rightarrow> (Inl e, w1)
      | (Inr item, w1) \<Rightarrow>
        (let (owner, scope) = csv_principal si item
         in if rq_conversation_id request \<noteq> dw_conversation_id item
            then (Inl (RunFailure (RunError ''The conversation does not belong to this workspace.'' 404)), w1)
            else (case existing (si_request_digest si) (wo_db w1) owner scope request of Inl e \<Rightarrow> (Inl (RunFailure e), w1)
              | Inr (Some run) \<Rightarrow>
                (case check_run si now wall clk token (rs_run_id run) w1 of (Inl e, w2) \<Rightarrow> (Inl e, w2) | (Inr _, w2) \<Rightarrow> (Inr run, w2))
              | Inr None \<Rightarrow>
                if dw_busy item then (Inl (DemoBusy ''This demo session already has an operation in progress.''), w1)
                else if (case dw_dataset item of None \<Rightarrow> True | Some ds \<Rightarrow> rq_source_fingerprint request \<noteq> Some (cs_fingerprint ds))
                then (Inl (RunFailure (RunError ''The selected CSV changed. Refresh before submitting.'' 409)), w1)
                else (case resolve (si_journal si) (dw_definitions item) clk (csv_access si item)
                        (Some (rq_definition_snapshot_id request)) True (wo_definitions w1) of
                    Inl e \<Rightarrow> (Inl (DefinitionFailure e), w1)
                  | Inr _ \<Rightarrow>
                    (case submit (si_request_digest si) maximum_active rid ts ts' owner scope request
                        (cs_fingerprint (the (dw_dataset item))) (wo_runs w1) of
                       Inl e \<Rightarrow> (Inl (RunFailure e), w1)
                     | Inr (run, co) \<Rightarrow>
                       (let item' = item\<lparr>dw_busy := True, dw_last_response := None\<rparr>
                        in (Inr run, persist si token item' (put_session token item' (w1\<lparr>wo_runs := co\<rparr>)))))))))"

text \<open>\<open>authorized\<close>: asked for before and after the work of a run.\<close>

definition authorized_csv :: "'d csv_site \<Rightarrow> pyfloat \<Rightarrow> pyfloat \<Rightarrow> (nat \<Rightarrow> instant) \<Rightarrow> string \<Rightarrow> CsvDataset \<Rightarrow> DefinitionSnapshot
    \<Rightarrow> 'd csv_workspace \<Rightarrow> (ws_failure + unit) \<times> 'd csv_workspace" where
  "authorized_csv si now wall clk token ds s w =
     (case get_demo si now wall clk token w of (Inl e, w1) \<Rightarrow> (Inl e, w1)
      | (Inr item, w1) \<Rightarrow>
        (case resolve (si_journal si) (dw_definitions item) clk (csv_access si item) (Some (sn_snapshot_id s)) False (wo_definitions w1) of
           Inl e \<Rightarrow> (Inl (DefinitionFailure e), w1)
         | Inr _ \<Rightarrow>
           if (case dw_dataset item of None \<Rightarrow> True | Some now_ds \<Rightarrow> cs_fingerprint now_ds \<noteq> cs_fingerprint ds)
           then (Inl (RunFailure (RunError ''The selected CSV changed during execution.'' 409)), w1) else (Inr (), w1)))"

definition failed_task :: "ws_failure \<Rightarrow> task_outcome" where
  "failed_task e = (case e of LanguageBudget f \<Rightarrow> TaskFailed f | ChatFailure (AgentFailed f) \<Rightarrow> TaskFailed f
     | ChatFailure CancelledError \<Rightarrow> TaskCancelled | _ \<Rightarrow> TaskRaised)"

text \<open>The operation of a run between its two authorizations, on the session as it is then.\<close>

definition work_csv :: "'d csv_site \<Rightarrow> chat_env \<Rightarrow> agent_run \<Rightarrow> pyfloat \<Rightarrow> pyfloat \<Rightarrow> (nat \<Rightarrow> instant) \<Rightarrow> string \<Rightarrow> CsvDataset \<Rightarrow> string
    \<Rightarrow> datetime \<Rightarrow> DefinitionSnapshot \<Rightarrow> 'd csv_workspace \<Rightarrow> task_outcome \<times> 'd csv_workspace" where
  "work_csv si env run now wall clk token ds question as_of s w =
     (case map_of (wo_sessions w) token of None \<Rightarrow> (TaskRaised, w)
      | Some item \<Rightarrow>
        (let (r, item1) = execute_csv si env run clk item ds question as_of s None None False (wo_definitions w);
             w1 = put_session token item1 w
         in case r of Inl e \<Rightarrow> (failed_task e, w1)
            | Inr rp \<Rightarrow>
              (case authorized_csv si now wall clk token ds s w1 of (Inl e, w2) \<Rightarrow> (failed_task e, w2)
               | (Inr _, w2) \<Rightarrow> (TaskCompleted rp, w2))))"

text \<open>\<open>released\<close>: the response of a completed run becomes the last one; any other end takes the history back.\<close>

definition released_csv :: "'d csv_site \<Rightarrow> RunRequest \<Rightarrow> (string \<times> saved_csv_run) list \<Rightarrow> string \<Rightarrow> 'd csv_workspace \<Rightarrow> 'd csv_workspace" where
  "released_csv si request before token w =
     (case map_of (wo_sessions w) token of None \<Rightarrow> w
      | Some item \<Rightarrow>
        (let item1 = item\<lparr>dw_busy := False\<rparr>; (owner, scope) = csv_principal si item
         in case existing (si_request_digest si) (wo_db w) owner scope request of Inl _ \<Rightarrow> put_session token item1 w
            | Inr found \<Rightarrow>
              (let item2 = (case found of
                     Some run \<Rightarrow> if rs_status run = COMPLETED then item1\<lparr>dw_last_response := rs_result run\<rparr>
                       else item1\<lparr>dw_history := before\<rparr>
                   | None \<Rightarrow> item1\<lparr>dw_history := before\<rparr>)
               in persist si token item2 (put_session token item2 w))))"

definition finish_csv :: "'d csv_site \<Rightarrow> instant \<times> instant \<Rightarrow> uuid \<Rightarrow> RunRequest \<Rightarrow> (string \<times> saved_csv_run) list \<Rightarrow> string
    \<Rightarrow> task_outcome \<Rightarrow> 'd csv_workspace \<Rightarrow> 'd csv_workspace" where
  "finish_csv si ts rid request before token res w =
     released_csv si request before token (w\<lparr>wo_runs := execute_end ts rid res (wo_runs w)\<rparr>)"

subsection \<open>What a workspace releases\<close>



lemma charge_language_Inr:
  assumes "charge_language si replay item = Inr item1"
  shows "dw_definitions item1 = dw_definitions item" "dw_user_id item1 = dw_user_id item" "dw_history item1 = dw_history item"
    "dw_dataset item1 = dw_dataset item" "csv_access si item1 = csv_access si item"
    "dw_language_questions item1 = dw_language_questions item + (if si_language_enabled si \<and> replay = None then 1 else 0)"
    "si_language_enabled si \<and> replay = None \<Longrightarrow> dw_language_questions item1 \<le> ct_maximum_language_questions (si_settings si)"
  using assms by (auto simp: charge_language_def csv_access_def split: if_splits)











subsection \<open>The bounds of a workspace\<close>

definition session_bounded :: "'d csv_site \<Rightarrow> demo_session \<Rightarrow> bool" where
  "session_bounded si item \<longleftrightarrow> length (dw_history item) \<le> 4 \<and> 0 \<le> dw_language_questions item
     \<and> dw_language_questions item \<le> ct_maximum_language_questions (si_settings si)"

definition saved_bounded :: "'d csv_site \<Rightarrow> checkpoint_payload \<Rightarrow> bool" where
  "saved_bounded si p \<longleftrightarrow> (\<forall>saved. si_load si (kp_rest p) = Some saved \<longrightarrow> length (sx_history saved) \<le> 4
     \<and> 0 \<le> sx_language_questions saved \<and> sx_language_questions saved \<le> ct_maximum_language_questions (si_settings si))"

definition workspace_bounded :: "'d csv_site \<Rightarrow> 'd csv_workspace \<Rightarrow> bool" where
  "workspace_bounded si w \<longleftrightarrow> (\<forall>(t, item)\<in>set (wo_sessions w). session_bounded si item)
     \<and> (\<forall>(k, p)\<in>set (rd_checkpoints (wo_db w)). saved_bounded si p)"

text \<open>A text that loads, loads what was dumped into it.\<close>

definition loads_dumped :: "'d csv_site \<Rightarrow> bool" where
  "loads_dumped si \<longleftrightarrow> (\<forall>x y. si_load si (si_dump si x) = Some y \<longrightarrow> y = x)"

lemma workspace_boundedI:
  assumes "workspace_bounded si w" "set (wo_sessions w') \<subseteq> set (wo_sessions w)"
    "set (rd_checkpoints (wo_db w')) \<subseteq> set (rd_checkpoints (wo_db w))"
  shows "workspace_bounded si w'"
  using assms unfolding workspace_bounded_def by blast

lemma wo_simps [simp]:
  "wo_db (with_db db w) = db" "wo_sessions (with_db db w) = wo_sessions w" "wo_definitions (with_db db w) = wo_definitions w"
  "wo_db (put_session t item w) = wo_db w" "wo_db (w\<lparr>wo_definitions := d\<rparr>) = wo_db w" "wo_db (w\<lparr>wo_sessions := ss\<rparr>) = wo_db w"
  "wo_definitions (put_session t item w) = wo_definitions w"
  by (simp_all add: wo_db_def with_db_def put_session_def)

lemma drop_conversation_checkpoints [simp]: "rd_checkpoints (drop_conversation cid db) = rd_checkpoints db"
  by (simp add: drop_conversation_def Let_def)

lemma delete_conversation_checkpoints: "delete_conversation owner scope cid db = Inr db' \<Longrightarrow> rd_checkpoints db' = rd_checkpoints db"
  by (auto simp: delete_conversation_def split: sum.splits if_splits)

lemma create_conversation_checkpoints: "create_conversation owner scope cid now db = Inr (c, db') \<Longrightarrow> rd_checkpoints db' = rd_checkpoints db"
  by (auto simp: create_conversation_def Let_def split: if_splits)

lemma checkpoint_None: "set (rd_checkpoints (checkpoint dg token None db)) \<subseteq> set (rd_checkpoints db)"
  by (auto simp: checkpoint_def)

lemma checkpoint_Some: "set (rd_checkpoints (checkpoint dg token (Some p) db)) \<subseteq> insert (dg token, p) (set (rd_checkpoints db))"
  by (auto simp: checkpoint_def Let_def)

lemma prune_each_checkpoints: "set (rd_checkpoints (snd (prune_each t rows db))) \<subseteq> set (rd_checkpoints db)"
  by (induction t rows db rule: prune_each.induct) (auto simp: Let_def split: prod.splits)

lemma prune_sessions_keeps:
  assumes "prune_sessions si now items w = (e, w')"
  shows "wo_sessions w' = wo_sessions w \<and> set (rd_checkpoints (wo_db w')) \<subseteq> set (rd_checkpoints (wo_db w))"
  using assms
proof (induction si now items w arbitrary: rule: prune_sessions.induct)
  case (2 si now token item rest w)
  show ?case
  proof (cases "expired now item \<and> \<not> dw_busy item")
    case True
    let ?w1 = "w\<lparr>wo_definitions := j_delete (si_journal si) (gv_namespace (dw_definitions item)) (wo_definitions w)\<rparr>"
    obtain owner scope where p: "csv_principal si item = (owner, scope)" by fastforce
    show ?thesis
    proof (cases "delete_conversation owner scope (dw_conversation_id item) (wo_db ?w1)")
      case (Inl f)
      with 2(3) True p show ?thesis by (simp add: Let_def split: if_splits) auto
    next
      case (Inr db)
      with 2(3) True p have r: "prune_sessions si now rest (with_db (checkpoint (si_token_digest si) token None db) ?w1) = (e, w')"
        by (simp add: Let_def)
      from 2(1) [OF True refl p [symmetric] refl Inr r]
      show ?thesis using checkpoint_None [of "si_token_digest si" token db] delete_conversation_checkpoints [OF Inr] by auto
    qed
  next
    case False
    with 2(3) have "prune_sessions si now rest w = (e, w')" by (simp only: prune_sessions.simps if_False)
    from 2(2) [OF False this] show ?thesis .
  qed
qed simp

lemma prune_workspace_keeps:
  assumes "prune_workspace si now wall w = (e, w')"
  shows "set (wo_sessions w') \<subseteq> set (wo_sessions w)" "set (rd_checkpoints (wo_db w')) \<subseteq> set (rd_checkpoints (wo_db w))"
proof -
  obtain e1 w1 where 1: "prune_sessions si now (wo_sessions w) w = (e1, w1)" by fastforce
  note k = prune_sessions_keeps [OF this]
  obtain users db where 2: "prune_checkpoints wall (wo_db w1) = (users, db)" by fastforce
  then have "set (rd_checkpoints db) \<subseteq> set (rd_checkpoints (wo_db w1))"
    using prune_each_checkpoints [of wall "rd_checkpoints (wo_db w1)" "wo_db w1"] by (simp add: prune_checkpoints_def)
  with assms 1 2 k show "set (wo_sessions w') \<subseteq> set (wo_sessions w)" "set (rd_checkpoints (wo_db w')) \<subseteq> set (rd_checkpoints (wo_db w))"
    by (auto simp: prune_workspace_def split: option.splits)
qed

lemma prune_bounded: "workspace_bounded si w \<Longrightarrow> prune_workspace si now wall w = (e, w') \<Longrightarrow> workspace_bounded si w'"
  using workspace_boundedI prune_workspace_keeps by metis

lemma set_update_subset: "set (AList.update k v xs) \<subseteq> insert (k, v) (set xs)"
  by (induction xs) auto

lemma put_bounded: "workspace_bounded si w \<Longrightarrow> session_bounded si item \<Longrightarrow> workspace_bounded si (put_session token item w)"
  using set_update_subset [of token item "wo_sessions w"] unfolding workspace_bounded_def put_session_def wo_db_def by auto

lemma persist_bounded:
  assumes "workspace_bounded si w" "session_bounded si item" "loads_dumped si"
  shows "workspace_bounded si (persist si token item w)"
proof -
  have "saved = saved_of item" if "si_load si (kp_rest (payload_of si item)) = Some saved" for saved
    using that assms(3) by (simp add: loads_dumped_def payload_of_def)
  then have "saved_bounded si (payload_of si item)"
    using assms(2) by (auto simp: saved_bounded_def session_bounded_def saved_of_def)
  then show ?thesis using assms(1) checkpoint_Some [of "si_token_digest si" token "payload_of si item" "wo_db w"]
    unfolding workspace_bounded_def persist_def by auto
qed

lemma find_bounded: "workspace_bounded si w \<Longrightarrow> map_of (wo_sessions w) token = Some item \<Longrightarrow> session_bounded si item"
  by (auto simp: workspace_bounded_def dest: map_of_SomeD)

lemma restore_session_bounded:
  assumes "workspace_bounded si w" "restore_session si now wall clk token w = (r, w')"
  shows "workspace_bounded si w'" "\<And>item. r = Inr (Some item) \<Longrightarrow> session_bounded si item"
proof -
  have b: "session_bounded si (restored si now wall gv p saved)"
    if "map_of (rd_checkpoints (wo_db w)) (si_token_digest si token) = Some p" "si_load si (kp_rest p) = Some saved" for p saved gv
    using assms(1) map_of_SomeD [OF that(1)] that(2)
    by (auto simp: workspace_bounded_def saved_bounded_def session_bounded_def restored_def)
  have d: "workspace_bounded si (w\<lparr>wo_definitions := d\<rparr>)" for d using assms(1) by (simp add: workspace_bounded_def)
  show "workspace_bounded si w'" "\<And>item. r = Inr (Some item) \<Longrightarrow> session_bounded si item"
    using assms b d by (auto simp: restore_session_def restore_def Let_def intro!: put_bounded split: option.splits sum.splits if_splits)
qed

lemma get_demo_bounded:
  assumes "workspace_bounded si w" "get_demo si now wall clk token w = (r, w')"
  shows "workspace_bounded si w' \<and> (\<forall>item. r = Inr item \<longrightarrow> session_bounded si item)"
proof -
  obtain e w1 where 1: "prune_workspace si now wall w = (e, w1)" by fastforce
  note b = prune_bounded [OF assms(1) this]
  show ?thesis
  proof (cases "e = None \<and> map_of (wo_sessions w1) token = None")
    case True
    obtain r2 w2 where 2: "restore_session si now wall clk token w1 = (r2, w2)" by fastforce
    with True assms(2) 1 restore_session_bounded [OF b 2] show ?thesis
      by (auto simp: get_demo_def split: sum.splits option.splits if_splits)
  next
    case False
    with assms(2) 1 b find_bounded [OF b] show ?thesis
      by (auto simp: get_demo_def split: sum.splits option.splits if_splits)
  qed
qed

lemma remember_bounded: "session_bounded si item \<Longrightarrow> session_bounded si (remember rp saved b item)"
  by (auto simp: session_bounded_def remember_def Let_def keep_four_def split: option.splits bool.splits)

lemma execute_csv_bounded:
  assumes "session_bounded si item"
  shows "session_bounded si (snd (execute_csv si env run clk item ds question as_of s replay replay_model b later))"
proof -
  have c: "session_bounded si item1" if "charge_language si replay item = Inr item1" for item1
    using assms charge_language_Inr [OF that] by (auto simp: session_bounded_def charge_language_def split: if_splits)
  show ?thesis using assms c remember_bounded
    by (auto simp: execute_csv_def Let_def split: sum.splits)
qed

lemma dropped_response_bounded [simp]: "session_bounded si (item\<lparr>dw_last_response := x\<rparr>) = session_bounded si item"
    "session_bounded si (item\<lparr>dw_busy := busy\<rparr>) = session_bounded si item"
    "session_bounded si (item\<lparr>dw_dataset := ds\<rparr>) = session_bounded si item"
  by (simp_all add: session_bounded_def)

lemma answer_csv_bounded:
  "session_bounded si item \<Longrightarrow> session_bounded si (snd (answer_csv si env run clk clk' item question as_of fingerprint sid earlier later))"
  by (auto simp: answer_csv_def intro!: execute_csv_bounded split: option.splits sum.splits)

lemma rerun_csv_bounded:
  "session_bounded si item \<Longrightarrow> session_bounded si (snd (rerun_csv si env run clk clk' item rid earlier later))"
  by (auto simp: rerun_csv_def intro!: execute_csv_bounded split: option.splits sum.splits)

text \<open>The runs of a coordinator leave the checkpoints alone.\<close>

lemma write_run_checkpoints: "write_run ts run e db = Inr (r, db') \<Longrightarrow> rd_checkpoints db' = rd_checkpoints db"
  by (auto simp: write_run_def Let_def split: if_splits)

lemma start_checkpoints: "start ts rid db = Inr (b, db') \<Longrightarrow> rd_checkpoints db' = rd_checkpoints db"
proof (cases "read_run db rid")
  case (Inr run)
  assume "start ts rid db = Inr (b, db')"
  with Inr show ?thesis
    by (cases "rs_status run = QUEUED") (auto simp: start_def dest: write_run_checkpoints split: sum.splits)
qed (simp add: start_def)

lemma progress_checkpoints: "progress ts rid report db = Inr db' \<Longrightarrow> rd_checkpoints db' = rd_checkpoints db"
proof (cases "read_run db rid")
  case (Inr run)
  assume "progress ts rid report db = Inr db'"
  with Inr show ?thesis
    by (cases "rs_status run = RUNNING") (auto simp: progress_def dest: write_run_checkpoints split: sum.splits if_splits)
qed (simp add: progress_def)

lemma finish_checkpoints: "finish ts rid st res code m db = Inr (r, db') \<Longrightarrow> rd_checkpoints db' = rd_checkpoints db"
  by (auto simp: finish_def Let_def dest: write_run_checkpoints split: sum.splits if_splits prod.splits)

lemma cancel_checkpoints: "cancel ts owner scope rid db = Inr (r, db') \<Longrightarrow> rd_checkpoints db' = rd_checkpoints db"
  by (auto simp: cancel_def dest: write_run_checkpoints split: sum.splits if_splits)

lemma enqueue_checkpoints: "enqueue digest rid ts ts' owner scope request binding db = Inr (r, db') \<Longrightarrow> rd_checkpoints db' = rd_checkpoints db"
  by (auto simp: enqueue_def insert_run_def Let_def dest!: write_run_checkpoints split: sum.splits if_splits)

lemma submit_checkpoints: "submit digest n rid ts ts' owner scope request binding co = Inr (r, co') \<Longrightarrow> rd_checkpoints (ck_db co') = rd_checkpoints (ck_db co)"
  by (auto simp: submit_def dest: enqueue_checkpoints split: sum.splits option.splits if_splits)

lemma after_finish_checkpoints: "rd_checkpoints (after_finish db (finish ts rid st res code m db)) = rd_checkpoints db"
  by (auto simp: after_finish_def dest: finish_checkpoints split: sum.splits)

lemma settle_checkpoints: "rd_checkpoints (settle ts closing rid res db) = rd_checkpoints db"
  by (auto simp: settle_def finish_failed_def after_finish_checkpoints dest: finish_checkpoints split: task_outcome.splits sum.splits)

lemma execute_end_checkpoints: "rd_checkpoints (ck_db (execute_end ts rid res co)) = rd_checkpoints (ck_db co)"
  by (simp add: execute_end_def end_task_def settle_checkpoints)

lemma execute_begin_checkpoints: "rd_checkpoints (ck_db (snd (execute_begin ts ts' rid co))) = rd_checkpoints (ck_db co)"
  by (auto simp: execute_begin_def end_task_def finish_failed_def after_finish_checkpoints
      dest!: start_checkpoints finish_checkpoints split: sum.splits bool.splits)

lemma execute_report_checkpoints: "execute_report ts rid report co = Inr co' \<Longrightarrow> rd_checkpoints (ck_db co') = rd_checkpoints (ck_db co)"
  by (auto simp: execute_report_def dest: progress_checkpoints split: sum.splits)

lemma cancel_run_checkpoints: "cancel_run ts ts' owner scope rid co = Inr (r, co') \<Longrightarrow> rd_checkpoints (ck_db co') = rd_checkpoints (ck_db co)"
  by (cases "rid \<in> set (ck_tasks co)")
    (auto simp: cancel_run_def dest!: cancel_checkpoints finish_checkpoints split: sum.splits)

lemma runs_bounded: "workspace_bounded si w \<Longrightarrow> rd_checkpoints (ck_db co) = rd_checkpoints (wo_db w) \<Longrightarrow> workspace_bounded si (w\<lparr>wo_runs := co\<rparr>)"
  by (simp add: workspace_bounded_def wo_db_def)

subsection \<open>A workspace at work\<close>

text \<open>The operations of the routes, each followed by what the next reads: \<open>captured\<close> holds, of each accepted run, the token, the
  request and the history that \<open>released\<close> may put back.  An operation inside a lease works on the session held busy.\<close>

type_synonym captured_run = "uuid \<times> string \<times> RunRequest \<times> (string \<times> saved_csv_run) list"

inductive csv_reach :: "'d csv_site \<Rightarrow> nat \<Rightarrow> captured_run list \<Rightarrow> 'd csv_workspace \<Rightarrow> bool" for si maximum_active where
  opened: "run_reach (si_request_digest si) db \<Longrightarrow> recover ts db = Inr db'
    \<Longrightarrow> \<forall>(k, p)\<in>set (rd_checkpoints db'). saved_bounded si p
    \<Longrightarrow> csv_reach si maximum_active [] \<lparr>wo_sessions = [], wo_runs = \<lparr>ck_db = db', ck_tasks = [], ck_signalled = [], ck_closing = False\<rparr>,
          wo_definitions = d\<rparr>"
| definitions: "csv_reach si maximum_active cap w \<Longrightarrow> csv_reach si maximum_active cap (w\<lparr>wo_definitions := d\<rparr>)"
| create: "csv_reach si maximum_active cap w \<Longrightarrow> create_demo si now wall clk token user cid w = (r, w') \<Longrightarrow> csv_reach si maximum_active cap w'"
| read: "csv_reach si maximum_active cap w \<Longrightarrow> get_demo si now wall clk token w = (r, w') \<Longrightarrow> csv_reach si maximum_active cap w'"
| clear: "csv_reach si maximum_active cap w \<Longrightarrow> clear_demo si now wall clk token w = (r, w') \<Longrightarrow> csv_reach si maximum_active cap w'"
| lease: "csv_reach si maximum_active cap w \<Longrightarrow> begin_lease si now wall clk token w = (r, w') \<Longrightarrow> csv_reach si maximum_active cap w'"
| uploaded: "csv_reach si maximum_active cap w \<Longrightarrow> map_of (wo_sessions w) token = Some item \<Longrightarrow> dw_busy item
    \<Longrightarrow> upload si t raw item = Inr item' \<Longrightarrow> csv_reach si maximum_active cap (put_session token item' w)"
| answered: "csv_reach si maximum_active cap w \<Longrightarrow> map_of (wo_sessions w) token = Some item \<Longrightarrow> dw_busy item
    \<Longrightarrow> answer_csv si env run clk clk' item question as_of fingerprint sid earlier (wo_definitions w) = (r', item')
    \<Longrightarrow> csv_reach si maximum_active cap (put_session token item' w)"
| rerun: "csv_reach si maximum_active cap w \<Longrightarrow> map_of (wo_sessions w) token = Some item \<Longrightarrow> dw_busy item
    \<Longrightarrow> rerun_csv si env run clk clk' item key earlier (wo_definitions w) = (r', item')
    \<Longrightarrow> csv_reach si maximum_active cap (put_session token item' w)"
| refreshed: "csv_reach si maximum_active cap w \<Longrightarrow> map_of (wo_sessions w) token = Some item
    \<Longrightarrow> refresh_response si clk (wo_definitions w) item = Inr item' \<Longrightarrow> csv_reach si maximum_active cap (put_session token item' w)"
| leave: "csv_reach si maximum_active cap w \<Longrightarrow> csv_reach si maximum_active cap (end_lease si token w)"
| submitted: "csv_reach si maximum_active cap w
    \<Longrightarrow> submit_csv si maximum_active now wall clk rid ts ts' token request w = (r', w') \<Longrightarrow> map_of (wo_sessions w') token = Some item
    \<Longrightarrow> csv_reach si maximum_active ((rid, token, request, dw_history item) # cap) w'"
| refused: "csv_reach si maximum_active cap w
    \<Longrightarrow> submit_csv si maximum_active now wall clk rid ts ts' token request w = (r', w') \<Longrightarrow> csv_reach si maximum_active cap w'"
| begin_run: "csv_reach si maximum_active cap w \<Longrightarrow> rid \<in> set (ck_tasks (wo_runs w))
    \<Longrightarrow> csv_reach si maximum_active cap (w\<lparr>wo_runs := snd (execute_begin ts ts' rid (wo_runs w))\<rparr>)"
| report: "csv_reach si maximum_active cap w \<Longrightarrow> execute_report ts rid report (wo_runs w) = Inr co
    \<Longrightarrow> csv_reach si maximum_active cap (w\<lparr>wo_runs := co\<rparr>)"
| work: "csv_reach si maximum_active cap w \<Longrightarrow> work_csv si env run now wall clk token ds question as_of s w = (res, w')
    \<Longrightarrow> csv_reach si maximum_active cap w'"
| finish: "csv_reach si maximum_active cap w \<Longrightarrow> (rid, token, request, before) \<in> set cap \<Longrightarrow> rid \<in> set (ck_tasks (wo_runs w))
    \<Longrightarrow> csv_reach si maximum_active cap (finish_csv si ts rid request before token res w)"
| cancel: "csv_reach si maximum_active cap w \<Longrightarrow> cancel_run ts ts' owner scope rid (wo_runs w) = Inr (run', co)
    \<Longrightarrow> csv_reach si maximum_active cap (w\<lparr>wo_runs := co\<rparr>)"

text \<open>Every operation of a workspace moves its run store by steps of the coordinator.\<close>

lemma ck_with_db: "wo_runs (with_db db w) = (wo_runs w)\<lparr>ck_db := db\<rparr>" "wo_runs (put_session t item w) = wo_runs w"
  by (simp_all add: with_db_def put_session_def)

lemma coord_checkpoint: "coord_reach dg n (wo_runs w) \<Longrightarrow> coord_reach dg n (wo_runs (with_db (checkpoint g token p (wo_db w)) w))"
  by (simp add: ck_with_db wo_db_def coord_reach.checkpoint)

lemma coord_persist: "coord_reach dg n (wo_runs w) \<Longrightarrow> coord_reach dg n (wo_runs (persist si token item w))"
  unfolding persist_def by (rule coord_checkpoint)

lemma coord_delete:
  assumes "coord_reach dg n (wo_runs w)" "delete_conversation owner scope cid (wo_db w) = Inr db"
  shows "coord_reach dg n (wo_runs (with_db (checkpoint g token p db) w))"
  using coord_reach.checkpoint [OF coord_reach.delete [OF assms(1) assms(2) [unfolded wo_db_def]], of g token p]
  by (simp add: ck_with_db)

lemma coord_prune_sessions:
  assumes "prune_sessions si now items w = (e, w')" "coord_reach dg n (wo_runs w)"
  shows "coord_reach dg n (wo_runs w')"
  using assms
proof (induction si now items w arbitrary: rule: prune_sessions.induct)
  case (2 si now token item rest w)
  show ?case
  proof (cases "expired now item \<and> \<not> dw_busy item")
    case True
    let ?w1 = "w\<lparr>wo_definitions := j_delete (si_journal si) (gv_namespace (dw_definitions item)) (wo_definitions w)\<rparr>"
    obtain owner scope where p: "csv_principal si item = (owner, scope)" by fastforce
    show ?thesis
    proof (cases "delete_conversation owner scope (dw_conversation_id item) (wo_db ?w1)")
      case (Inl f)
      with 2(3,4) True p show ?thesis by (simp add: Let_def) auto
    next
      case (Inr db)
      with 2(3) True p have r: "prune_sessions si now rest (with_db (checkpoint (si_token_digest si) token None db) ?w1) = (e, w')"
        by (simp add: Let_def)
      have "coord_reach dg n (wo_runs ?w1)" using 2(4) by simp
      from coord_delete [OF this Inr] show ?thesis by (rule 2(1) [OF True refl p [symmetric] refl Inr r])
    qed
  next
    case False
    with 2(3) have "prune_sessions si now rest w = (e, w')" by (simp only: prune_sessions.simps if_False)
    from 2(2) [OF False this 2(4)] show ?thesis .
  qed
qed simp

lemma coord_prune:
  assumes "prune_workspace si now wall w = (e, w')" "coord_reach dg n (wo_runs w)"
  shows "coord_reach dg n (wo_runs w')"
proof -
  obtain e1 w1 where 1: "prune_sessions si now (wo_sessions w) w = (e1, w1)" by fastforce
  note c = coord_prune_sessions [OF this assms(2)]
  obtain users db where 2: "prune_checkpoints wall (wo_db w1) = (users, db)" by fastforce
  have "coord_reach dg n (wo_runs (with_db db w1))"
    using coord_reach.prune [OF c, of wall] 2 by (simp add: ck_with_db wo_db_def)
  with assms(1) 1 2 c show ?thesis by (auto simp: prune_workspace_def split: option.splits)
qed

definition workspace_ok :: "'d csv_site \<Rightarrow> nat \<Rightarrow> 'd csv_workspace \<Rightarrow> bool" where
  "workspace_ok si n w \<longleftrightarrow> workspace_bounded si w \<and> coord_reach (si_request_digest si) n (wo_runs w)"

lemma workspace_ok_simps [simp]:
  "workspace_ok si n (w\<lparr>wo_definitions := d\<rparr>) = workspace_ok si n w"
  by (simp add: workspace_ok_def workspace_bounded_def)

lemma put_ok: "workspace_ok si n w \<Longrightarrow> session_bounded si item \<Longrightarrow> workspace_ok si n (put_session token item w)"
  by (simp add: workspace_ok_def put_bounded ck_with_db)

lemma persist_ok:
  "workspace_ok si n w \<Longrightarrow> session_bounded si item \<Longrightarrow> loads_dumped si \<Longrightarrow> workspace_ok si n (persist si token item w)"
  by (simp add: workspace_ok_def persist_bounded coord_persist)

lemma prune_ok: "workspace_ok si n w \<Longrightarrow> prune_workspace si now wall w = (e, w') \<Longrightarrow> workspace_ok si n w'"
  by (auto simp: workspace_ok_def intro: prune_bounded coord_prune)

lemma get_demo_runs:
  assumes "get_demo si now wall clk token w = (r, w')" "coord_reach dg n (wo_runs w)"
  shows "coord_reach dg n (wo_runs w')"
proof -
  obtain e w1 where 1: "prune_workspace si now wall w = (e, w1)" by fastforce
  have "wo_runs (snd (restore_session si now wall clk token w1)) = wo_runs w1"
    by (auto simp: restore_session_def Let_def ck_with_db split: option.splits sum.splits)
  with assms(1) 1 coord_prune [OF 1 assms(2)] show ?thesis
    by (auto simp: get_demo_def split: option.splits sum.splits prod.splits if_splits)
qed

lemma get_demo_ok:
  assumes "workspace_ok si n w" "get_demo si now wall clk token w = (r, w')"
  shows "workspace_ok si n w'" "\<And>item. r = Inr item \<Longrightarrow> session_bounded si item"
  using assms get_demo_bounded [OF _ assms(2)] get_demo_runs [OF assms(2)] by (auto simp: workspace_ok_def)

lemma with_db_ok:
  assumes "workspace_ok si n w" "set (rd_checkpoints db) \<subseteq> set (rd_checkpoints (wo_db w))"
    "coord_reach (si_request_digest si) n ((wo_runs w)\<lparr>ck_db := db\<rparr>)"
  shows "workspace_ok si n (with_db db w)"
  using assms workspace_boundedI [of si w "with_db db w"] by (simp add: workspace_ok_def ck_with_db)

lemma create_demo_ok:
  assumes "workspace_ok si n w" "create_demo si now wall clk token user cid w = (r, w')"
    "loads_dumped si" "0 \<le> ct_maximum_language_questions (si_settings si)"
  shows "workspace_ok si n w'"
proof -
  obtain e w1 where 1: "prune_workspace si now wall w = (e, w1)" by fastforce
  note ok1 = prune_ok [OF assms(1) 1]
  have new: "session_bounded si item" if "dw_history item = []" "dw_language_questions item = 0" for item
    using that assms(4) by (simp add: session_bounded_def)
  have db: "workspace_ok si n (with_db db v)" if "workspace_ok si n v" "create_conversation owner scope cid t (wo_db v) = Inr (c, db)" for owner scope t c db v
    using that create_conversation_checkpoints [OF that(2)]
    by (intro with_db_ok) (auto simp: workspace_ok_def wo_db_def intro: coord_reach.create)
  show ?thesis using assms(2) 1 ok1
    by (auto simp: create_demo_def Let_def split: option.splits sum.splits prod.splits if_splits
        intro!: persist_ok assms(3) db put_ok new)
qed

lemma clear_demo_ok:
  assumes "workspace_ok si n w" "clear_demo si now wall clk token w = (r, w')"
  shows "workspace_ok si n w'"
proof -
  obtain r1 w1 where 1: "get_demo si now wall clk token w = (r1, w1)" by fastforce
  note ok1 = get_demo_ok(1) [OF assms(1) 1]
  have del: "workspace_ok si n (with_db (checkpoint g token None db) w1)"
    if "delete_conversation owner scope cid (wo_db w1) = Inr db" for owner scope cid db g
    using ok1 delete_conversation_checkpoints [OF that] checkpoint_None [of g token db] coord_delete [OF _ that, of _ n g token None]
    by (intro with_db_ok) (auto simp: workspace_ok_def ck_with_db)
  have sub: "set (AList.delete token xs) \<subseteq> set xs" for xs :: "(string \<times> demo_session) list"
    by (auto simp: AList.delete_eq)
  have fewer: "workspace_ok si n (v\<lparr>wo_sessions := AList.delete token (wo_sessions v)\<rparr>)" if "workspace_ok si n v" for v
    using that workspace_boundedI [of si v "v\<lparr>wo_sessions := AList.delete token (wo_sessions v)\<rparr>"] sub
    by (simp add: workspace_ok_def)
  show ?thesis
  proof (cases r1)
    case (Inl e)
    with assms(2) 1 ok1 show ?thesis by (simp add: clear_demo_def)
  next
    case (Inr item)
    obtain owner scope where p: "csv_principal si item = (owner, scope)" by fastforce
    show ?thesis
      using assms(2) 1 Inr p ok1 fewer [OF del]
      by (auto simp: clear_demo_def Let_def split: sum.splits if_splits)
  qed
qed

lemma begin_lease_ok:
  assumes "workspace_ok si n w" "begin_lease si now wall clk token w = (r, w')"
  shows "workspace_ok si n w'"
proof -
  obtain r1 w1 where 1: "get_demo si now wall clk token w = (r1, w1)" by fastforce
  note ok1 = get_demo_ok [OF assms(1) 1]
  with assms(2) 1 show ?thesis
    by (auto simp: begin_lease_def Let_def intro!: put_ok split: sum.splits if_splits)
qed

lemma end_lease_ok:
  assumes "workspace_ok si n w" "loads_dumped si"
  shows "workspace_ok si n (end_lease si token w)"
proof (cases "map_of (wo_sessions w) token")
  case (Some item)
  then have "session_bounded si item" using assms(1) by (auto simp: workspace_ok_def intro: find_bounded)
  with Some assms show ?thesis by (simp add: end_lease_def Let_def persist_ok put_ok)
qed (simp add: end_lease_def assms)

lemma runs_ok:
  "workspace_ok si n w \<Longrightarrow> rd_checkpoints (ck_db co) = rd_checkpoints (ck_db (wo_runs w)) \<Longrightarrow> coord_reach (si_request_digest si) n co
    \<Longrightarrow> workspace_ok si n (w\<lparr>wo_runs := co\<rparr>)"
  by (simp add: workspace_ok_def runs_bounded wo_db_def)

lemma check_run_ok:
  assumes "workspace_ok si n w" "check_run si now wall clk token rid w = (r, w')"
  shows "workspace_ok si n w'"
proof -
  obtain r1 w1 where 1: "get_demo si now wall clk token w = (r1, w1)" by fastforce
  with assms(2) get_demo_ok(1) [OF assms(1) 1] show ?thesis
    by (auto simp: check_run_def Let_def split: sum.splits if_splits prod.splits)
qed

lemma submit_csv_ok:
  assumes "workspace_ok si n w" "submit_csv si n now wall clk rid ts ts' token request w = (r, w')"
    "loads_dumped si"
  shows "workspace_ok si n w'"
proof -
  obtain r1 w1 where 1: "get_demo si now wall clk token w = (r1, w1)" by fastforce
  note ok1 = get_demo_ok [OF assms(1) 1]
  show ?thesis
  proof (cases r1)
    case (Inl e)
    with assms(2) 1 ok1 show ?thesis by (simp add: submit_csv_def)
  next
    case (Inr item)
    obtain owner scope where p: "csv_principal si item = (owner, scope)" by fastforce
    have held: "workspace_ok si n (persist si token item' (put_session token item' (w1\<lparr>wo_runs := co\<rparr>)))"
      if "submit (si_request_digest si) n rid ts ts' owner scope request b (wo_runs w1) = Inr (run, co)"
        "item' = item\<lparr>dw_busy := True, dw_last_response := None\<rparr>" for item' b run co
      using ok1(1) ok1(2) [OF Inr] submit_checkpoints [OF that(1)] that(2) coord_reach.submit [OF _ that(1)]
      by (intro persist_ok put_ok runs_ok assms(3)) (auto simp: workspace_ok_def)
    show ?thesis
    proof (cases "rq_conversation_id request \<noteq> dw_conversation_id item")
      case True
      with assms(2) 1 Inr p ok1(1) show ?thesis by (simp add: submit_csv_def)
    next
      case False
      show ?thesis
      proof (cases "existing (si_request_digest si) (wo_db w1) owner scope request")
        case (Inl e)
        with assms(2) 1 Inr p ok1(1) False show ?thesis by (simp add: submit_csv_def)
      next
        case ex: (Inr found)
        show ?thesis
        proof (cases found)
          case (Some run)
          obtain r2 w2 where 2: "check_run si now wall clk token (rs_run_id run) w1 = (r2, w2)" by fastforce
          with assms(2) 1 Inr p False ex Some check_run_ok [OF ok1(1) 2] show ?thesis
            by (auto simp: submit_csv_def split: sum.splits)
        next
          case None
          with assms(2) 1 Inr p False ex ok1(1) held show ?thesis
            by (auto simp: submit_csv_def Let_def split: sum.splits if_splits)
        qed
      qed
    qed
  qed
qed

lemma work_csv_ok:
  assumes "workspace_ok si n w" "work_csv si env run now wall clk token ds question as_of s w = (res, w')"
  shows "workspace_ok si n w'"
proof (cases "map_of (wo_sessions w) token")
  case (Some item)
  obtain r item1 where e: "execute_csv si env run clk item ds question as_of s None None False (wo_definitions w) = (r, item1)" by fastforce
  have "session_bounded si item" using assms(1) Some by (auto simp: workspace_ok_def intro: find_bounded)
  from execute_csv_bounded [OF this] have "session_bounded si item1" using e by (metis snd_conv)
  with assms(1) have ok1: "workspace_ok si n (put_session token item1 w)" by (rule put_ok)
  obtain r2 w2 where 2: "authorized_csv si now wall clk token ds s (put_session token item1 w) = (r2, w2)" by fastforce
  obtain r3 w3 where 3: "get_demo si now wall clk token (put_session token item1 w) = (r3, w3)" by fastforce
  have "w2 = w3" using 2 3 by (auto simp: authorized_csv_def split: sum.splits if_splits option.splits)
  with get_demo_ok(1) [OF ok1 3] have "workspace_ok si n w2" by simp
  with assms(2) Some e 2 ok1 show ?thesis by (auto simp: work_csv_def Let_def split: sum.splits)
qed (use assms in \<open>simp add: work_csv_def\<close>)

lemma released_csv_ok:
  assumes "workspace_ok si n w" "length before \<le> 4" "loads_dumped si"
  shows "workspace_ok si n (released_csv si request before token w)"
proof (cases "map_of (wo_sessions w) token")
  case (Some item)
  then have b: "session_bounded si item" using assms(1) by (auto simp: workspace_ok_def intro: find_bounded)
  with assms(2) have h: "session_bounded si (item\<lparr>dw_busy := x, dw_history := before\<rparr>)" for x by (simp add: session_bounded_def)
  obtain owner scope where p: "csv_principal si item = (owner, scope)" by fastforce
  show ?thesis using assms(1,3) b h
    by (auto simp: released_csv_def Some p Let_def split: sum.splits option.splits intro!: persist_ok put_ok)
qed (simp add: released_csv_def assms)

lemma csv_reach_ok:
  assumes "csv_reach si n cap w" and load: "loads_dumped si"
    and m: "0 \<le> ct_maximum_language_questions (si_settings si)"
  shows "workspace_ok si n w \<and> (\<forall>(rid, token, request, before)\<in>set cap. length before \<le> 4)"
  using assms(1)
proof (induction rule: csv_reach.induct)
  case (opened db ts db' d)
  then show ?case by (simp add: workspace_ok_def workspace_bounded_def wo_db_def coord_reach.open_store)
next
  case (definitions cap w d)
  then show ?case by simp
next
  case (create cap w now wall clk token user cid r w')
  then show ?case using create_demo_ok [OF _ create(2) load m] by simp
next
  case (read cap w now wall clk token r w')
  then show ?case using get_demo_ok(1) by blast
next
  case (clear cap w now wall clk token r w')
  then show ?case using clear_demo_ok by blast
next
  case (lease cap w now wall clk token r w')
  then show ?case using begin_lease_ok by blast
next
  case (uploaded cap w token item t raw item')
  then have "session_bounded si item" by (auto simp: workspace_ok_def intro: find_bounded)
  then have "session_bounded si item'" using uploaded(4) by (auto simp: upload_def split: sum.splits)
  with uploaded(5) show ?case by (auto intro: put_ok)
next
  case (answered cap w token item env run clk clk' question as_of fingerprint sid earlier r' item')
  then have "session_bounded si item" by (auto simp: workspace_ok_def intro: find_bounded)
  from answer_csv_bounded [OF this] have "session_bounded si item'" using answered(4) by (metis snd_conv)
  with answered(5) show ?case by (auto intro: put_ok)
next
  case (rerun cap w token item env run clk clk' key earlier r' item')
  then have "session_bounded si item" by (auto simp: workspace_ok_def intro: find_bounded)
  from rerun_csv_bounded [OF this] have "session_bounded si item'" using rerun(4) by (metis snd_conv)
  with rerun(5) show ?case by (auto intro: put_ok)
next
  case (refreshed cap w token item clk item')
  then have "session_bounded si item" by (auto simp: workspace_ok_def intro: find_bounded)
  then have "session_bounded si item'" using refreshed(3)
    by (auto simp: refresh_response_def split: option.splits sum.splits gov_error.splits)
  with refreshed(4) show ?case by (auto intro: put_ok)
next
  case (leave cap w token)
  then show ?case using end_lease_ok load by blast
next
  case (submitted cap w now wall clk rid ts ts' token request r' w' item)
  then have ok: "workspace_ok si n w'" using submit_csv_ok load by blast
  then have "session_bounded si item" using submitted(3) by (auto simp: workspace_ok_def intro: find_bounded)
  with ok submitted(4) show ?case by (simp add: session_bounded_def)
next
  case (refused cap w now wall clk rid ts ts' token request r' w')
  then show ?case using submit_csv_ok load by blast
next
  case (begin_run cap w rid ts ts')
  then have "coord_reach (si_request_digest si) n (snd (execute_begin ts ts' rid (wo_runs w)))"
    by (auto simp: workspace_ok_def intro: coord_reach.begin_task)
  with begin_run show ?case by (auto intro: runs_ok simp: execute_begin_checkpoints)
next
  case (report cap w ts rid report co)
  then have "coord_reach (si_request_digest si) n co" by (auto simp: workspace_ok_def intro: coord_reach.report)
  with report show ?case by (auto intro: runs_ok simp: execute_report_checkpoints)
next
  case (work cap w env run now wall clk token ds question as_of s res w')
  then show ?case using work_csv_ok by blast
next
  case (finish cap w rid token request before ts res)
  then have b: "length before \<le> 4" by auto
  have "coord_reach (si_request_digest si) n (execute_end ts rid res (wo_runs w))"
    using finish by (auto simp: workspace_ok_def intro: coord_reach.end_task)
  with finish have "workspace_ok si n (w\<lparr>wo_runs := execute_end ts rid res (wo_runs w)\<rparr>)"
    by (auto intro: runs_ok simp: execute_end_checkpoints)
  from released_csv_ok [OF this b load] finish show ?case by (simp add: finish_csv_def)
next
  case (cancel cap w ts ts' owner scope rid run' co)
  then have "coord_reach (si_request_digest si) n co" by (auto simp: workspace_ok_def intro: coord_reach.cancel)
  with cancel show ?case by (auto intro: runs_ok simp: cancel_run_checkpoints)
qed

text \<open>Whatever requests, runs, uploads, restarts and cancellations meet in the demonstration, a session keeps at most the four
  last answers and never asks the language provider more often than the budget allows, in memory and in every checkpoint
  it could be restored from; and its runs have one task each, at most as many as the coordinator admits.\<close>

theorem workspaces_stay_bounded:
  assumes "csv_reach si maximum_active cap w" "loads_dumped si"
    "make_csv_settings is_absolute (si_settings si) = Inr (si_settings si)"
  shows "(\<forall>(token, item)\<in>set (wo_sessions w). length (dw_history item) \<le> 4
        \<and> dw_language_questions item \<le> ct_maximum_language_questions (si_settings si))
    \<and> (\<forall>(key, p)\<in>set (rd_checkpoints (wo_db w)). \<forall>saved. si_load si (kp_rest p) = Some saved
        \<longrightarrow> length (sx_history saved) \<le> 4 \<and> sx_language_questions saved \<le> ct_maximum_language_questions (si_settings si))
    \<and> set (active_ids (wo_db w)) = set (ck_tasks (wo_runs w)) \<and> length (ck_tasks (wo_runs w)) \<le> maximum_active"
proof -
  have "0 \<le> ct_maximum_language_questions (si_settings si)" using assms(3) by (auto simp: make_csv_settings_def split: if_splits)
  from csv_reach_ok [OF assms(1,2) this] have b: "workspace_bounded si w" and c: "coord_reach (si_request_digest si) maximum_active (wo_runs w)"
    by (auto simp: workspace_ok_def)
  have "coordinator_ok (si_request_digest si) maximum_active (wo_runs w)" by (rule coord_reach_ok [OF c])
  then have "set (active_ids (wo_db w)) = set (ck_tasks (wo_runs w))" "length (ck_tasks (wo_runs w)) \<le> maximum_active"
    using active_iff_task [of "si_request_digest si" "wo_db w"] by (auto simp: coordinator_ok_def wo_db_def)
  with b show ?thesis
    by (auto simp: workspace_bounded_def session_bounded_def saved_bounded_def)
qed

text \<open>A workspace survives a restart: a checkpoint that a lease wrote restores, in a process that has no sessions, the session as
  it was, free again, with the same expiry in wall-clock time.\<close>

theorem checkpoints_restore_sessions:
  assumes "si_load si (si_dump si (saved_of item)) = Some (saved_of item)" "restore (si_token_digest si) (wo_db w') token = restore (si_token_digest si) (wo_db (persist si token item w)) token"
    "open_governance (si_journal si) (si_pack_hash si) (namespace_of (dw_user_id item)) (si_pack si) False clk (wo_definitions w') = Inr (d, gv)"
    "wo_sessions w' = []"
  shows "restore_session si now wall clk token w' =
    (Inr (Some (item\<lparr>dw_expires_at := fl_sub (fl_add now (dw_expires_wall item)) wall, dw_definitions := gv, dw_busy := False\<rparr>)),
     w'\<lparr>wo_sessions := [(token, item\<lparr>dw_expires_at := fl_sub (fl_add now (dw_expires_wall item)) wall, dw_definitions := gv, dw_busy := False\<rparr>)],
        wo_definitions := d\<rparr>)"
proof -
  have "map_of (map (\<lambda>r. if fst r = k then (k, p) else r) rows) k = Some p" if "k \<in> fst ` set rows" for k p and rows :: "(string \<times> checkpoint_payload) list"
    using that by (induction rows) auto
  moreover have "map_of (rows @ [(k, p)]) k = Some p" if "k \<notin> fst ` set rows" for k p and rows :: "(string \<times> checkpoint_payload) list"
    using that by (induction rows) auto
  ultimately have r: "restore (si_token_digest si) (wo_db (persist si token item w)) token = Some (payload_of si item)"
    by (simp add: restore_def persist_def checkpoint_def Let_def)
  have e: "restored si now wall gv (payload_of si item) (saved_of item)
      = item\<lparr>dw_expires_at := fl_sub (fl_add now (dw_expires_wall item)) wall, dw_definitions := gv, dw_busy := False\<rparr>"
    by (simp add: restored_def payload_of_def saved_of_def)
  have k: "kp_rest (payload_of si item) = si_dump si (saved_of item)" "kp_user_id (payload_of si item) = dw_user_id item"
    "sx_version (saved_of item) = 1" by (simp_all add: payload_of_def saved_of_def)
  show ?thesis
    using assms(1,3,4) by (simp add: restore_session_def assms(2) r k e put_session_def Let_def)
qed

text \<open>While the conversation of an expired session is missing, no request can be answered, and the session stays.\<close>

lemma missing_conversation_wedges:
  assumes "wo_sessions w = (token, item) # rest" "expired now item" "\<not> dw_busy item"
    "conversation (wo_db w) (fst (csv_principal si item)) (snd (csv_principal si item)) (dw_conversation_id item) = Inl e"
  shows "\<exists>w'. prune_workspace si now wall w = (Some (RunFailure e), w') \<and> wo_sessions w' = wo_sessions w \<and> wo_db w' = wo_db w"
  using assms by (simp add: prune_workspace_def delete_conversation_def case_prod_unfold Let_def)

subsection \<open>A demonstration\<close>

definition empty_saved :: saved_session where
  "empty_saved = \<lparr>sx_version = 1, sx_dataset = None, sx_history = [], sx_last_response = None, sx_language_questions = 0\<rparr>"

definition demo_site :: "GovernanceState definition_streams csv_site" where
  "demo_site = \<lparr>si_settings = \<lparr>ct_enabled = True, ct_maximum_bytes = 200, ct_maximum_rows = 10, ct_maximum_sessions = 2,
       ct_maximum_language_questions = 2, ct_state_database_path = None, ct_session_ttl_seconds = 60\<rparr>,
     si_pack = demo_pack, si_pack_hash = version_digest, si_owner_digest = concat, si_scope_digest = (\<lambda>xs. concat (concat xs)),
     si_token_digest = (\<lambda>t. t),
     si_language_enabled = False, si_language_model = None, si_sql = demo_env, si_request_digest = rq_question,
     si_dump = (\<lambda>x. if x = empty_saved then ''empty'' else ''session''), si_load = (\<lambda>x. if x = ''empty'' then Some empty_saved else None),
     si_journal = sqlite_journal identity_codec version_digest, si_decode = Some, si_bytes_digest = take 4\<rparr>"

definition demo_workspace0 :: "GovernanceState definition_streams csv_workspace" where
  "demo_workspace0 = \<lparr>wo_sessions = [], wo_runs = \<lparr>ck_db = empty_runs, ck_tasks = [], ck_signalled = [], ck_closing = False\<rparr>,
     wo_definitions = (\<lambda>_. None)\<rparr>"

definition late :: "nat \<Rightarrow> instant" where
  "late k = 4000000000000000"

definition demo_workspace1 :: "GovernanceState definition_streams csv_workspace" where
  "demo_workspace1 = snd (create_demo demo_site (Fin 0) (Fin 1000) late ''token'' ''user'' ''c1'' demo_workspace0)"

lemma demo_created: "fst (create_demo demo_site (Fin 0) (Fin 1000) late ''token'' ''user'' ''c1'' demo_workspace0) = Inr ''token''"
  by code_simp

text \<open>A question that is still being answered when its session expires: another request prunes the conversation, the lease's end
  writes the checkpoint again, and from then on no session can be read or created.\<close>

definition demo_wedged :: "bool" where
  "demo_wedged =
     (let w2 = snd (begin_lease demo_site (Fin 59) (Fin 1059) late ''token'' demo_workspace1);
          w3 = snd (create_demo demo_site (Fin 61) (Fin 1061) late ''token2'' ''user2'' ''c2'' w2);
          w4 = end_lease demo_site ''token'' w3;
          (r, w5) = get_demo demo_site (Fin 62) (Fin 1062) late ''token2'' w4;
          (r', w6) = create_demo demo_site (Fin 99999) (Fin 100999) late ''token3'' ''user3'' ''c3'' w5
      in (case (r, r') of (Inl (RunFailure (RunError _ a)), Inl (RunFailure (RunError _ b))) \<Rightarrow> a = 404 \<and> b = 404 | _ \<Rightarrow> False)
         \<and> map fst (wo_sessions w6) = [''token'', ''token2''])"

lemma demo_workspace_wedges: demo_wedged
  by code_simp

text \<open>A question over a file of two days.\<close>

definition two_days :: CsvDataset where
  "two_days = \<lparr>cs_columns = [''date'', ''region'', ''channel'', ''activations''],
     cs_rows = [[CellText ''2026-06-30'', CellText ''WEST'', CellText ''RETAIL'', CellInt 12],
       [CellText ''2026-07-01'', CellText ''WEST'', CellText ''CARE'', CellInt 3]],
     cs_dates = {Date 2026 6 30, Date 2026 7 1}, cs_fingerprint = ''date'', cs_uploaded_at = 7\<rparr>"


definition asking :: demo_session where
  "asking = \<lparr>dw_user_id = ''user'', dw_expires_at = Fin 60, dw_definitions = \<lparr>gv_namespace = ''csv:user'', gv_tenant_id = ''demo-telecom'',
       gv_separate_reviewer = False\<rparr>, dw_dataset = Some two_days, dw_last_response = None, dw_busy = True, dw_history = [],
     dw_language_questions = 0, dw_expires_wall = Fin 1060, dw_conversation_id = ''c1''\<rparr>"








lemma demo_loads: "loads_dumped demo_site"
  by (simp add: loads_dumped_def demo_site_def)

lemma demo_settings: "make_csv_settings (\<lambda>_. True) (si_settings demo_site) = Inr (si_settings demo_site)"
  by (simp add: demo_site_def make_csv_settings_def)

lemma demo_workspace0_reach: "csv_reach demo_site 2 [] demo_workspace0"
proof -
  have "recover (0, 0) empty_runs = Inr empty_runs" by code_simp
  show ?thesis unfolding demo_workspace0_def
    by (rule csv_reach.opened [OF run_reach.empty \<open>recover (0, 0) empty_runs = Inr empty_runs\<close>]) (simp add: empty_runs_def)
qed

theorem workspaces_stay_bounded_witness:
  "\<forall>(token, item)\<in>set (wo_sessions demo_workspace1). length (dw_history item) \<le> 4"
proof -
  have "csv_reach demo_site 2 [] demo_workspace1"
    by (rule csv_reach.create [OF demo_workspace0_reach]) (simp add: demo_workspace1_def prod_eq_iff)
  from workspaces_stay_bounded [OF this demo_loads demo_settings] show ?thesis by auto
qed

definition waiting :: demo_session where
  "waiting = asking\<lparr>dw_dataset := None\<rparr>"

lemma demo_reopens: "is_ok (open_governance (si_journal demo_site) (si_pack_hash demo_site) (namespace_of (dw_user_id waiting)) (si_pack demo_site)
    False late (wo_definitions demo_workspace0))"
  by code_simp

theorem checkpoints_restore_sessions_witness:
  "\<exists>s w. restore_session demo_site (Fin 5) (Fin 1005) late ''token'' (persist demo_site ''token'' waiting demo_workspace0) = (Inr (Some s), w)
    \<and> dw_user_id s = ''user'' \<and> dw_conversation_id s = ''c1'' \<and> \<not> dw_busy s"
proof -
  have k: "wo_definitions (persist demo_site ''token'' waiting demo_workspace0) = wo_definitions demo_workspace0"
    "wo_sessions (persist demo_site ''token'' waiting demo_workspace0) = []" by (simp_all add: persist_def demo_workspace0_def)
  obtain d gv where o: "open_governance (si_journal demo_site) (si_pack_hash demo_site) (namespace_of (dw_user_id waiting)) (si_pack demo_site)
    False late (wo_definitions (persist demo_site ''token'' waiting demo_workspace0)) = Inr (d, gv)"
    using demo_reopens unfolding k by (auto simp: is_ok_iff)
  have "saved_of waiting = empty_saved" by (simp add: saved_of_def waiting_def asking_def empty_saved_def)
  then have "si_load demo_site (si_dump demo_site (saved_of waiting)) = Some (saved_of waiting)" by (simp add: demo_site_def)
  from checkpoints_restore_sessions [OF this refl o k(2)] show ?thesis by (auto simp: waiting_def asking_def)
qed

end
