(* ===== verification/PostgresConnector.thy ===== *)
theory PostgresConnector
  imports Certification Canonical
begin

section \<open>PostgresConnector: the read-only adapter over a physical mapping\<close>

text \<open>
  \<open>connectors/postgres.py\<close> and \<open>connectors/factory.py\<close>.  A statement is the sequence of its
  literal SQL and its quoted identifiers, as \<open>psycopg.sql\<close> composes it, so that what reaches the database
  as code and what as data can be told apart.  The database is a parameter: it answers a query from the
  statements the transaction has run so far (a repeatable-read transaction), or fails with a driver error.
\<close>

datatype sql_part = SqlText string | SqlIdent string

type_synonym statement = "sql_part list"

datatype pg_param = PgText string | PgInt int | PgDate date | PgTexts "string list"

type_synonym transcript = "(statement \<times> pg_param list) list"

datatype source_fault = DriverError | OsError

datatype pg_error =
    PlanRefused string
  | PeriodNotReady string
  | SourceUnavailable string
  | SourceFault source_fault
  | PgRaised py_exc

text \<open>The database and the library functions around it: \<open>ps_text\<close> is \<open>as_string\<close>, the digests are SHA-256
  of the canonical rows and of the SQL text.\<close>

record pg_source =
  ps_open :: "transcript \<Rightarrow> source_fault option"
  ps_state :: "transcript \<Rightarrow> source_fault + (instant \<times> date option \<times> date option) option"
  ps_rows :: "transcript \<Rightarrow> source_fault + row list"
  ps_columns :: "transcript \<Rightarrow> source_fault + string list"
  ps_one :: "transcript \<Rightarrow> source_fault + int option"
  ps_text :: "statement \<Rightarrow> string"
  ps_result_digest :: "row list \<Rightarrow> string"
  ps_sql_digest :: "string \<Rightarrow> string"

subsection \<open>The connector\<close>

record pg_connector =
  pc_descriptor :: ConnectorDescriptor
  pc_mapping :: PhysicalConnectorMapping
  pc_mapping_version :: string
  pc_mapping_hash :: string

datatype construction_error = MappingError mapping_error | BadArgument string

text \<open>\<open>value or default\<close> of an optional integer.\<close>

definition int_or :: "int option \<Rightarrow> int \<Rightarrow> int" where
  "int_or v d = (case v of None \<Rightarrow> d | Some n \<Rightarrow> if n = 0 then d else n)"

definition make_pg_connector :: "PhysicalConnectorMapping \<Rightarrow> string \<Rightarrow> string \<Rightarrow> string \<Rightarrow> int option \<Rightarrow> int option
    \<Rightarrow> construction_error + pg_connector" where
  "make_pg_connector mapping version hash dsn maximum_rows timeout =
     (case make_connector_mapping mapping of Inl e \<Rightarrow> Inl (MappingError e)
      | Inr m \<Rightarrow>
        if py_strip dsn = [] then Inl (BadArgument ''PostgreSQL DSN cannot be blank'')
        else if py_strip version = [] then Inl (BadArgument ''physical mapping version cannot be blank'')
        else if length hash \<noteq> 64 then Inl (BadArgument ''physical mapping hash must be a SHA-256 hex digest'')
        else (let rows = min (int_or maximum_rows (px_maximum_rows m)) (px_maximum_rows m);
                  seconds = min (int_or timeout (px_query_timeout_seconds m)) (px_query_timeout_seconds m)
          in if rows < 1 then Inl (BadArgument ''maximum_rows'')
             else if seconds < 1 then Inl (BadArgument ''query_timeout_seconds'')
             else Inr \<lparr>pc_descriptor = \<lparr>cd_connector_id = px_connector_id m, cd_connector_type = ''POSTGRESQL_MAPPED'',
                    cd_dialect = Some ''PostgreSQL'',
                    cd_capabilities = {CATALOG_DISCOVERY, SCHEMA_INTROSPECTION, PARAMETERIZED_FILTERS, AGGREGATION,
                      WINDOW_FUNCTIONS, QUERY_CANCELLATION, SECURITY_PUSHDOWN},
                    cd_read_only = True, cd_maximum_rows = rows, cd_query_timeout_seconds = seconds,
                    cd_mapping_version = Some version, cd_mapping_hash = Some hash\<rparr>,
                  pc_mapping = m, pc_mapping_version = version, pc_mapping_hash = hash\<rparr>))"

definition pc_metric :: "pg_connector \<Rightarrow> string \<Rightarrow> PhysicalMetricMapping option" where
  "pc_metric con mid = dict_of pm_metric_id (px_metrics (pc_mapping con)) mid"

subsection \<open>Validation of a plan\<close>

definition pq_scope_errors :: "pg_connector \<Rightarrow> StructuredQueryPlan \<Rightarrow> AccessContext \<Rightarrow> string list" where
  "pq_scope_errors con plan access =
     (if pl_connector_id plan \<noteq> cd_connector_id (pc_descriptor con) then [''CONNECTOR_ID_MISMATCH''] else [])
     @ (if pl_tenant_id plan \<noteq> ac_tenant_id access then [''TENANT_SCOPE_MISMATCH''] else [])
     @ (if READ_DATA_ACTION \<notin> ac_actions access \<and> ADMIN_ROLE \<notin> ac_roles access
        then [''DATA_ACTION_NOT_ALLOWED''] else [])
     @ (if ac_regions access = {} then [''REGION_SCOPE_REQUIRED''] else [])"

definition pq_contract_errors :: "pg_connector \<Rightarrow> PhysicalMetricMapping \<Rightarrow> StructuredQueryPlan \<Rightarrow> string list" where
  "pq_contract_errors con m plan =
     (if pl_aggregation plan \<noteq> pm_aggregation m then [''AGGREGATION_CONTRACT_MISMATCH''] else [])
     @ (if set (pl_dimensions plan) - pm_allowed_dimensions m \<noteq> {} then [''DIMENSION_NOT_ALLOWED''] else [])
     @ (if pl_row_limit plan > cd_maximum_rows (pc_descriptor con) then [''ROW_LIMIT_EXCEEDED''] else [])"

definition scoped_values :: "pg_connector \<Rightarrow> AccessContext \<Rightarrow> mapping_error + string set" where
  "scoped_values con access = resolve_scope_values (pc_mapping con) ''REGION'' (ac_regions access)"

definition pq_filter_errors :: "PhysicalMetricMapping \<Rightarrow> AccessContext \<Rightarrow> string set \<Rightarrow> QueryFilter \<Rightarrow> string list" where
  "pq_filter_errors m access scoped f =
     (if qf_dimension_id f \<notin> pm_allowed_dimensions m then [''FILTER_DIMENSION_NOT_ALLOWED''] else [])
     @ (if qf_operator f \<notin> {OP_IN, EQUALS} then [''FILTER_OPERATOR_NOT_SUPPORTED''] else [])
     @ (if qf_dimension_id f = ''REGION'' \<and> ac_regions access \<noteq> {} \<and> set (qf_values f) - scoped \<noteq> {}
        then [''REGION_SCOPE_VIOLATION''] else [])"

definition pq_validate_plan :: "pg_connector \<Rightarrow> StructuredQueryPlan \<Rightarrow> AccessContext \<Rightarrow> py_exc + string list" where
  "pq_validate_plan con plan access =
     (case pc_metric con (pl_metric_id plan) of
        None \<Rightarrow> Inr (pq_scope_errors con plan access @ [''METRIC_NOT_AVAILABLE_ON_CONNECTOR''])
      | Some m \<Rightarrow>
        (let (scoped, unmapped) = (case scoped_values con access of
                Inl _ \<Rightarrow> ({}, [''REGION_SCOPE_UNMAPPED'']) | Inr S \<Rightarrow> (S, []));
             errors = pq_scope_errors con plan access @ pq_contract_errors con m plan @ unmapped
                        @ concat (map (pq_filter_errors m access scoped) (pl_filters plan))
         in case resolve_window (pl_time_window plan) of
              Inl ValueError \<Rightarrow> Inr (uniq_from [] (errors @ [''INVALID_TIME_WINDOW'']))
            | Inl e \<Rightarrow> Inl e
            | Inr _ \<Rightarrow> Inr (uniq_from [] errors)))"

subsection \<open>Building the query\<close>

fun sql_join :: "string \<Rightarrow> statement list \<Rightarrow> statement" where
  "sql_join sep [] = []"
| "sql_join sep [p] = p"
| "sql_join sep (p # q # ps) = p @ [SqlText sep] @ sql_join sep (q # ps)"

text \<open>A condition of the \<open>WHERE\<close> clause with the parameter bound to it.\<close>

datatype pg_condition = Compare string string pg_param | AnyOf string "string list"

fun condition_sql :: "pg_condition \<Rightarrow> statement" where
  "condition_sql (Compare column op p) = [SqlIdent column, SqlText ('' '' @ op @ '' %s'')]"
| "condition_sql (AnyOf column vals) = [SqlIdent column, SqlText '' = ANY(%s)'']"

fun condition_param :: "pg_condition \<Rightarrow> pg_param" where
  "condition_param (Compare column op p) = p"
| "condition_param (AnyOf column vals) = PgTexts vals"

definition qualified_table :: "PhysicalConnectorMapping \<Rightarrow> statement" where
  "qualified_table m = sql_join ''.'' [[SqlIdent (px_schema_name m)], [SqlIdent (px_table_name m)]]"

definition pg_value_expression :: "PhysicalMetricMapping \<Rightarrow> pg_error + statement" where
  "pg_value_expression m =
     (if pm_aggregation m = RATIO then
        (case (pm_numerator_column m, pm_denominator_column m) of
           (Some n, Some d) \<Rightarrow> Inr [SqlText ''CASE WHEN SUM('', SqlIdent d, SqlText '') = 0 THEN NULL ELSE SUM('', SqlIdent n,
             SqlText '')::double precision / SUM('', SqlIdent d, SqlText '') END'']
         | _ \<Rightarrow> Inl (PlanRefused ''ratio physical mapping is incomplete''))
      else (case pm_amount_column m of
           Some a \<Rightarrow> Inr [SqlText ''SUM('', SqlIdent a, SqlText '')::double precision'']
         | None \<Rightarrow> Inl (PlanRefused ''additive physical mapping is incomplete'')))"

fun filter_conditions :: "(string \<rightharpoonup> string) \<Rightarrow> QueryFilter list \<Rightarrow> py_exc + pg_condition list" where
  "filter_conditions columns [] = Inr []"
| "filter_conditions columns (f # fs) =
     (case columns (qf_dimension_id f) of None \<Rightarrow> Inl KeyError
      | Some c \<Rightarrow> (case filter_conditions columns fs of Inl e \<Rightarrow> Inl e
          | Inr rest \<Rightarrow> Inr (AnyOf c (qf_values f) # rest)))"

definition scope_conditions :: "pg_connector \<Rightarrow> PhysicalMetricMapping \<Rightarrow> AccessContext \<Rightarrow> pg_error + pg_condition list" where
  "scope_conditions con m access =
     (case scoped_values con access of
        Inl _ \<Rightarrow> Inl (PlanRefused ''REGION_SCOPE_UNMAPPED'')
      | Inr S \<Rightarrow>
          if py_sorted S \<noteq> [] \<and> ''REGION'' \<in> pm_allowed_dimensions m
          then (case map_of (px_dimensions (pc_mapping con)) ''REGION'' of None \<Rightarrow> Inl (PgRaised KeyError)
                | Some c \<Rightarrow> Inr [AnyOf c (py_sorted S)])
          else Inr [])"

definition base_conditions :: "PhysicalConnectorMapping \<Rightarrow> PhysicalMetricMapping \<Rightarrow> ResolvedRange \<Rightarrow> pg_condition list" where
  "base_conditions x m rng =
     [Compare (px_metric_id_column x) ''='' (PgText (pm_source_value m)),
      Compare (px_fact_date_column x) ''>='' (PgDate (rr_start rng)),
      Compare (px_period_end_column x) ''<='' (PgDate (rr_end rng))]"

definition select_statement :: "PhysicalConnectorMapping \<Rightarrow> (string \<times> string) list \<Rightarrow> statement \<Rightarrow> pg_condition list \<Rightarrow> statement" where
  "select_statement x columns value_sql conditions =
     [SqlText ''SELECT '']
     @ sql_join '', '' (map (\<lambda>(c, d). [SqlIdent c, SqlText '' AS '', SqlIdent d]) columns
                       @ [value_sql @ [SqlText '' AS '', SqlIdent ''value'']])
     @ [SqlText '' FROM ''] @ qualified_table x
     @ [SqlText '' WHERE ''] @ sql_join '' AND '' (map condition_sql conditions)
     @ (if columns = [] then []
        else [SqlText '' GROUP BY ''] @ sql_join '', '' (map (\<lambda>(c, d). [SqlIdent c]) columns)
             @ [SqlText '' ORDER BY ''] @ sql_join '', '' (map (\<lambda>(c, d). [SqlIdent c]) columns))
     @ [SqlText '' LIMIT %s'']"

definition query_conditions :: "pg_connector \<Rightarrow> StructuredQueryPlan \<Rightarrow> AccessContext \<Rightarrow> ResolvedRange
    \<Rightarrow> PhysicalMetricMapping \<Rightarrow> pg_error + pg_condition list" where
  "query_conditions con plan access rng m =
     (case filter_conditions (map_of (px_dimensions (pc_mapping con))) (pl_filters plan) of Inl e \<Rightarrow> Inl (PgRaised e)
      | Inr filters \<Rightarrow>
        (case scope_conditions con m access of Inl e \<Rightarrow> Inl e
         | Inr scope \<Rightarrow> Inr (base_conditions (pc_mapping con) m rng @ filters @ scope)))"

definition build_query :: "pg_connector \<Rightarrow> StructuredQueryPlan \<Rightarrow> AccessContext \<Rightarrow> ResolvedRange
    \<Rightarrow> PhysicalMetricMapping \<Rightarrow> pg_error + (statement \<times> pg_param list)" where
  "build_query con plan access rng m =
     (case lookup_all (map_of (px_dimensions (pc_mapping con))) (pl_dimensions plan) of Inl e \<Rightarrow> Inl (PgRaised e)
      | Inr columns \<Rightarrow>
        (case pg_value_expression m of Inl e \<Rightarrow> Inl e
         | Inr value_sql \<Rightarrow>
           (case query_conditions con plan access rng m of Inl e \<Rightarrow> Inl e
            | Inr conditions \<Rightarrow>
                Inr (select_statement (pc_mapping con) (zip columns (pl_dimensions plan)) value_sql conditions,
                     map condition_param conditions @ [PgInt (pl_row_limit plan + 1)]))))"

subsection \<open>Transactions\<close>

text \<open>What every transaction runs first.\<close>

definition open_statements :: "pg_connector \<Rightarrow> transcript" where
  "open_statements con =
     [([SqlText ''SET TRANSACTION ISOLATION LEVEL REPEATABLE READ READ ONLY''], []),
      ([SqlText ''SELECT set_config('statement_timeout', %s, true)''],
       [PgText (int_str (cd_query_timeout_seconds (pc_descriptor con) * 1000) @ ''ms'')]),
      ([SqlText ''SELECT set_config('lock_timeout', %s, true)''], [PgText ''5000ms''])]"

definition with_connection :: "pg_source \<Rightarrow> pg_connector \<Rightarrow> (transcript \<Rightarrow> pg_error + 'a) \<Rightarrow> pg_error + 'a" where
  "with_connection db con body =
     (case ps_open db (open_statements con) of Some e \<Rightarrow> Inl (SourceFault e) | None \<Rightarrow> body (open_statements con))"

definition state_statement :: "pg_connector \<Rightarrow> string set \<Rightarrow> statement \<times> pg_param list" where
  "state_statement con source_values =
     ([SqlText ''SELECT CURRENT_TIMESTAMP AS source_snapshot, MIN('', SqlIdent (px_fact_date_column (pc_mapping con)),
       SqlText '')::date AS coverage_start, MAX('', SqlIdent (px_period_end_column (pc_mapping con)),
       SqlText '')::date AS coverage_end FROM '']
      @ qualified_table (pc_mapping con)
      @ [SqlText '' WHERE '', SqlIdent (px_metric_id_column (pc_mapping con)), SqlText '' = ANY(%s)''],
      [PgTexts (py_sorted source_values)])"

definition source_state :: "pg_source \<Rightarrow> pg_connector \<Rightarrow> transcript \<Rightarrow> string set
    \<Rightarrow> pg_error + (instant \<times> date \<times> date) option" where
  "source_state db con before source_values =
     (case ps_state db (before @ [state_statement con source_values]) of
        Inl e \<Rightarrow> Inl (SourceFault e)
      | Inr (Some (snapshot, Some since, Some until)) \<Rightarrow> Inr (Some (snapshot, since, until))
      | Inr _ \<Rightarrow> Inr None)"

fun pg_normalize_rows :: "row list \<Rightarrow> pg_error + row list" where
  "pg_normalize_rows [] = Inr []"
| "pg_normalize_rows (r # rs) =
     (if row_get r ''value'' = VNone then
        (case pg_normalize_rows rs of Inl e \<Rightarrow> Inl e | Inr rest \<Rightarrow> Inr (r # rest))
      else (case to_float (row_get r ''value'') of
          Inl e \<Rightarrow> Inl (PgRaised e)
        | Inr f \<Rightarrow>
            if \<not> is_finite f then Inl (PlanRefused ''NON_FINITE_RESULT'')
            else (case pg_normalize_rows rs of Inl e \<Rightarrow> Inl e
              | Inr rest \<Rightarrow> Inr (row_set ''value'' (VFloat f) r # rest))))"

definition pg_query :: "pg_source \<Rightarrow> transcript \<Rightarrow> pg_error + row list" where
  "pg_query db statements =
     (case ps_rows db statements of Inl e \<Rightarrow> Inl (SourceFault e) | Inr rows \<Rightarrow> pg_normalize_rows rows)"

text \<open>One reporting period: its query, its rows, and the refusal when there are more than the limit.\<close>

definition period_rows :: "pg_source \<Rightarrow> pg_connector \<Rightarrow> transcript \<Rightarrow> StructuredQueryPlan \<Rightarrow> AccessContext
    \<Rightarrow> ResolvedRange \<Rightarrow> PhysicalMetricMapping \<Rightarrow> string \<Rightarrow> pg_error + ((statement \<times> pg_param list) \<times> row list)" where
  "period_rows db con before plan access rng m truncated =
     (case build_query con plan access rng m of Inl e \<Rightarrow> Inl e
      | Inr q \<Rightarrow> (case pg_query db (before @ [q]) of Inl e \<Rightarrow> Inl e
          | Inr rows \<Rightarrow> if int (length rows) > pl_row_limit plan then Inl (PlanRefused truncated) else Inr (q, rows)))"

definition comparison_period_rows :: "pg_source \<Rightarrow> pg_connector \<Rightarrow> transcript \<Rightarrow> StructuredQueryPlan \<Rightarrow> AccessContext
    \<Rightarrow> ResolvedRange option \<Rightarrow> PhysicalMetricMapping \<Rightarrow> pg_error + (statement option \<times> row list)" where
  "comparison_period_rows db con before plan access cmp m =
     (case cmp of None \<Rightarrow> Inr (None, [])
      | Some rng \<Rightarrow>
          (case period_rows db con before plan access rng m ''COMPARISON_RESULT_TRUNCATED'' of Inl e \<Rightarrow> Inl e
           | Inr (q, rows) \<Rightarrow> Inr (Some (fst q), rows)))"

definition pg_receipt :: "pg_source \<Rightarrow> pg_connector \<Rightarrow> uuid \<Rightarrow> instant \<Rightarrow> StructuredQueryPlan \<Rightarrow> instant \<times> date \<times> date
    \<Rightarrow> ResolvedRange \<Rightarrow> ResolvedRange option \<Rightarrow> string \<Rightarrow> row list \<Rightarrow> string \<Rightarrow> QueryReceipt" where
  "pg_receipt db con rid now plan state cur cmp sql_payload rows result_hash =
     \<lparr>rc_source_kind = ''postgresql'', rc_source_fingerprint = None, rc_cloud_job = None,
      rc_definition_snapshot_id = None,
      rc_receipt_id = rid, rc_query_id = pl_query_id plan, rc_decision_id = pl_decision_id plan,
      rc_plan_hash = pl_plan_hash plan, rc_connector_id = pl_connector_id plan, rc_executed_at = now,
      rc_source_snapshot = fst state, rc_coverage_start = fst (snd state), rc_coverage_end = snd (snd state),
      rc_resolved_start = rr_start cur, rc_resolved_end = rr_end cur,
      rc_comparison_start = map_option rr_start cmp, rc_comparison_end = map_option rr_end cmp,
      rc_row_count = int (length rows), rc_result_rows = rows, rc_result_hash = result_hash,
      rc_sql_hash = ps_sql_digest db sql_payload,
      rc_physical_mapping_version = Some (pc_mapping_version con), rc_physical_mapping_hash = Some (pc_mapping_hash con),
      rc_data_quality_status = ''EXECUTED'',
      rc_data_quality_checks = [''PARAMETERIZED_SQL'', ''IDENTIFIER_ALLOWLIST'', ''PHYSICAL_MAPPING_PINNED'',
        ''POSTGRESQL_READ_ONLY_TRANSACTION'', ''REPEATABLE_READ_SNAPSHOT'', ''SOURCE_COVERAGE_CONFIRMED'',
        ''GOVERNED_SCOPE_MAPPING_APPLIED''],
      rc_policy_decision_id = pl_decision_id plan, rc_warnings = []\<rparr>"

definition outside_coverage :: "date \<Rightarrow> date \<Rightarrow> ResolvedRange \<Rightarrow> bool" where
  "outside_coverage since until rng = (rr_start rng < since \<or> rr_end rng > until)"

definition covered_rows :: "pg_source \<Rightarrow> pg_connector \<Rightarrow> uuid \<Rightarrow> instant \<Rightarrow> StructuredQueryPlan \<Rightarrow> AccessContext
    \<Rightarrow> PhysicalMetricMapping \<Rightarrow> ResolvedRange \<Rightarrow> ResolvedRange option \<Rightarrow> instant \<times> date \<times> date \<Rightarrow> transcript
    \<Rightarrow> pg_error + QueryReceipt" where
  "covered_rows db con rid now plan access m cur cmp state before =
     (case period_rows db con before plan access cur m ''RESULT_TRUNCATED'' of Inl e \<Rightarrow> Inl e
      | Inr (q, current_rows) \<Rightarrow>
        (case comparison_period_rows db con (before @ [q]) plan access cmp m of Inl e \<Rightarrow> Inl e
         | Inr (comparison_query, comparison_rows) \<Rightarrow>
           (case merge_comparison_rows current_rows comparison_rows (pl_dimensions plan) of Inl e \<Rightarrow> Inl (PgRaised e)
            | Inr rows \<Rightarrow>
              (case canonical_rows rows of Inl e \<Rightarrow> Inl (PgRaised e)
               | Inr canonical \<Rightarrow>
                   Inr (pg_receipt db con rid now plan state cur cmp
                     (case comparison_query of None \<Rightarrow> ps_text db (fst q)
                      | Some c \<Rightarrow> ps_text db (fst q) @ [CHR 0x0A] @ ''-- comparison'' @ [CHR 0x0A] @ ps_text db c)
                     rows (ps_result_digest db canonical))))))"

definition connected_rows :: "pg_source \<Rightarrow> pg_connector \<Rightarrow> uuid \<Rightarrow> instant \<Rightarrow> StructuredQueryPlan \<Rightarrow> AccessContext
    \<Rightarrow> PhysicalMetricMapping \<Rightarrow> ResolvedRange \<Rightarrow> ResolvedRange option \<Rightarrow> transcript \<Rightarrow> pg_error + QueryReceipt" where
  "connected_rows db con rid now plan access m cur cmp before =
     (case source_state db con before {pm_source_value m} of
        Inl e \<Rightarrow> Inl e
      | Inr None \<Rightarrow> Inl (PeriodNotReady (''No certified rows are available for metric '' @ pl_metric_id plan @ ''.''))
      | Inr (Some state) \<Rightarrow>
          if list_ex (outside_coverage (fst (snd state)) (snd (snd state))) (cur # (case cmp of None \<Rightarrow> [] | Some r \<Rightarrow> [r]))
          then Inl (PeriodNotReady (''The requested period is outside the source coverage ''
                 @ isoformat (fst (snd state)) @ '' through '' @ isoformat (snd (snd state)) @ ''.''))
          else covered_rows db con rid now plan access m cur cmp state
                 (before @ [state_statement con {pm_source_value m}]))"

definition pg_execute_sync :: "pg_source \<Rightarrow> pg_connector \<Rightarrow> uuid \<Rightarrow> instant \<Rightarrow> StructuredQueryPlan \<Rightarrow> AccessContext
    \<Rightarrow> pg_error + QueryReceipt" where
  "pg_execute_sync db con rid now plan access =
     (case pc_metric con (pl_metric_id plan) of None \<Rightarrow> Inl (PgRaised KeyError)
      | Some m \<Rightarrow>
        (case resolve_window (pl_time_window plan) of Inl e \<Rightarrow> Inl (PgRaised e)
         | Inr cur \<Rightarrow>
           (case resolve_comparison_range cur (pl_comparison plan) of Inl e \<Rightarrow> Inl (PgRaised e)
            | Inr cmp \<Rightarrow> with_connection db con (connected_rows db con rid now plan access m cur cmp))))"

text \<open>Driver faults and \<open>ValueError\<close> become an unavailable source; other exceptions pass through.\<close>

definition pg_execute_read_only :: "pg_source \<Rightarrow> pg_connector \<Rightarrow> uuid \<Rightarrow> instant \<Rightarrow> StructuredQueryPlan
    \<Rightarrow> AccessContext \<Rightarrow> pg_error + QueryReceipt" where
  "pg_execute_read_only db con rid now plan access =
     (case pq_validate_plan con plan access of Inl e \<Rightarrow> Inl (PgRaised e)
      | Inr errors \<Rightarrow>
        if errors \<noteq> [] then Inl (PlanRefused (py_join '', '' errors))
        else (case pg_execute_sync db con rid now plan access of
            Inl (SourceFault _) \<Rightarrow> Inl (SourceUnavailable ''PostgreSQL execution failed before a result could be certified.'')
          | Inl (PgRaised ValueError) \<Rightarrow>
              Inl (SourceUnavailable ''PostgreSQL execution failed before a result could be certified.'')
          | Inl e \<Rightarrow> Inl e
          | Inr rc \<Rightarrow> Inr rc))"

subsection \<open>Health, catalogue and freshness\<close>

definition reference_schema_statement :: "pg_connector \<Rightarrow> statement \<times> pg_param list" where
  "reference_schema_statement con =
     ([SqlText ''SELECT column_name FROM information_schema.columns WHERE table_schema = %s AND table_name = %s''],
      [PgText (px_schema_name (pc_mapping con)), PgText (px_table_name (pc_mapping con))])"

definition validate_reference_schema :: "pg_source \<Rightarrow> pg_connector \<Rightarrow> pg_error + unit" where
  "validate_reference_schema db con =
     (case required_columns (pc_mapping con) of Inl e \<Rightarrow> Inl (PgRaised e)
      | Inr required \<Rightarrow>
        with_connection db con (\<lambda>before.
          case ps_columns db (before @ [reference_schema_statement con]) of Inl e \<Rightarrow> Inl (SourceFault e)
          | Inr columns \<Rightarrow> if required - set columns \<noteq> {} then Inl (PgRaised ValueError) else Inr ()))"

definition pg_initialize :: "pg_source \<Rightarrow> pg_connector \<Rightarrow> pg_error + unit" where
  "pg_initialize db con =
     (case validate_reference_schema db con of
        Inl (SourceFault _) \<Rightarrow> Inl (SourceUnavailable (''PostgreSQL connector ''
          @ py_repr (cd_connector_id (pc_descriptor con)) @ '' failed validation.''))
      | Inl (PgRaised ValueError) \<Rightarrow> Inl (SourceUnavailable (''PostgreSQL connector ''
          @ py_repr (cd_connector_id (pc_descriptor con)) @ '' failed validation.''))
      | Inl e \<Rightarrow> Inl e
      | Inr _ \<Rightarrow> Inr ())"

definition pg_test_connection :: "pg_source \<Rightarrow> pg_connector \<Rightarrow> bool \<times> string" where
  "pg_test_connection db con =
     (case with_connection db con (\<lambda>before. case ps_one db (before @ [([SqlText ''SELECT 1 AS value''], [])]) of
         Inl e \<Rightarrow> Inl (SourceFault e) | Inr None \<Rightarrow> Inr 0 | Inr (Some n) \<Rightarrow> Inr n) of
        Inl _ \<Rightarrow> (False, ''PostgreSQL connector is unavailable.'')
      | Inr n \<Rightarrow> if n \<noteq> (1 :: int) then (False, ''PostgreSQL health query returned an unexpected value.'')
                else (True, ''PostgreSQL connector '' @ cd_connector_id (pc_descriptor con) @ '' is ready.''))"

record CatalogEntry =
  ce_connector_id :: string
  ce_metric_id :: string
  ce_dimensions :: "string list"
  ce_physical_object :: string
  ce_mapping_version :: string
  ce_mapping_hash :: string
  ce_synthetic :: bool

definition pg_discover_catalog :: "pg_connector \<Rightarrow> AccessContext \<Rightarrow> CatalogEntry list" where
  "pg_discover_catalog con access =
     (if READ_DATA_ACTION \<notin> ac_actions access \<and> ADMIN_ROLE \<notin> ac_roles access then []
      else map (\<lambda>m. \<lparr>ce_connector_id = cd_connector_id (pc_descriptor con), ce_metric_id = pm_metric_id m,
             ce_dimensions = py_sorted (pm_allowed_dimensions m),
             ce_physical_object = px_schema_name (pc_mapping con) @ ''.'' @ px_table_name (pc_mapping con),
             ce_mapping_version = pc_mapping_version con, ce_mapping_hash = pc_mapping_hash con, ce_synthetic = False\<rparr>)
           (sort_key pm_metric_id (px_metrics (pc_mapping con))))"

record SourceFreshness =
  sf_status :: SourceStatus
  sf_last_refreshed_at :: "instant option"
  sf_coverage_start :: "datetime option"
  sf_coverage_end :: "datetime option"
  sf_expected_refresh :: "string option"
  sf_known_delay :: "string option"

definition pg_get_freshness :: "pg_source \<Rightarrow> pg_connector \<Rightarrow> SourceFreshness" where
  "pg_get_freshness db con =
     (let refresh = Some (px_expected_refresh (pc_mapping con)) in
      case with_connection db con (\<lambda>before. source_state db con before (pm_source_value ` set (px_metrics (pc_mapping con)))) of
        Inl _ \<Rightarrow> \<lparr>sf_status = SRC_UNAVAILABLE, sf_last_refreshed_at = None, sf_coverage_start = None, sf_coverage_end = None,
                   sf_expected_refresh = refresh, sf_known_delay = Some ''Source freshness check failed.''\<rparr>
      | Inr None \<Rightarrow> \<lparr>sf_status = SRC_NOT_READY, sf_last_refreshed_at = None, sf_coverage_start = None, sf_coverage_end = None,
                   sf_expected_refresh = refresh, sf_known_delay = Some ''No governed metric rows are available.''\<rparr>
      | Inr (Some (snapshot, since, until)) \<Rightarrow>
          \<lparr>sf_status = SRC_AVAILABLE, sf_last_refreshed_at = Some snapshot,
           sf_coverage_start = Some (DateTime since 0 0), sf_coverage_end = Some (DateTime until 86399999999 0),
           sf_expected_refresh = refresh, sf_known_delay = None\<rparr>)"

text \<open>\<open>cancel\<close> of a running query, by execution identifier; the driver may refuse.\<close>

definition pg_cancel_query :: "(string \<rightharpoonup> 'conn) \<Rightarrow> ('conn \<Rightarrow> bool) \<Rightarrow> string \<Rightarrow> bool" where
  "pg_cancel_query active cancelled execution_id =
     (case active execution_id of None \<Rightarrow> False | Some c \<Rightarrow> cancelled c)"

subsection \<open>What execution has checked\<close>

definition pg_plan_permitted :: "pg_connector \<Rightarrow> StructuredQueryPlan \<Rightarrow> AccessContext \<Rightarrow> PhysicalMetricMapping
    \<Rightarrow> string set \<Rightarrow> bool" where
  "pg_plan_permitted con plan access m S \<longleftrightarrow>
     pc_metric con (pl_metric_id plan) = Some m \<and> scoped_values con access = Inr S
     \<and> pl_connector_id plan = cd_connector_id (pc_descriptor con) \<and> pl_tenant_id plan = ac_tenant_id access
     \<and> allowed (can_read_data access) \<and> ac_regions access \<noteq> {}
     \<and> pl_aggregation plan = pm_aggregation m \<and> set (pl_dimensions plan) \<subseteq> pm_allowed_dimensions m
     \<and> pl_row_limit plan \<le> cd_maximum_rows (pc_descriptor con)
     \<and> (\<forall>f\<in>set (pl_filters plan). qf_dimension_id f \<in> pm_allowed_dimensions m
          \<and> (qf_dimension_id f = ''REGION'' \<longrightarrow> set (qf_values f) \<subseteq> S))"

lemma pq_scope_errors_Nil:
  "pq_scope_errors con plan access = [] \<longleftrightarrow> pl_connector_id plan = cd_connector_id (pc_descriptor con)
    \<and> pl_tenant_id plan = ac_tenant_id access \<and> allowed (can_read_data access) \<and> ac_regions access \<noteq> {}"
  by (auto simp: pq_scope_errors_def)

lemma pq_contract_errors_Nil:
  "pq_contract_errors con m plan = [] \<longleftrightarrow> pl_aggregation plan = pm_aggregation m
    \<and> set (pl_dimensions plan) \<subseteq> pm_allowed_dimensions m \<and> pl_row_limit plan \<le> cd_maximum_rows (pc_descriptor con)"
  by (auto simp: pq_contract_errors_def)

lemma pq_filter_errors_Nil:
  "pq_filter_errors m access S f = [] \<longleftrightarrow> qf_dimension_id f \<in> pm_allowed_dimensions m
    \<and> (qf_dimension_id f = ''REGION'' \<longrightarrow> ac_regions access \<noteq> {} \<longrightarrow> set (qf_values f) \<subseteq> S)"
proof -
  have "qf_operator f \<in> {OP_IN, EQUALS}" by (cases "qf_operator f") simp_all
  then show ?thesis by (auto simp: pq_filter_errors_def)
qed

lemma pq_validate_plan_Nil:
  "pq_validate_plan con plan access = Inr [] \<longleftrightarrow>
    (\<exists>m S cur. pg_plan_permitted con plan access m S \<and> resolve_window (pl_time_window plan) = Inr cur)"
proof (cases "pc_metric con (pl_metric_id plan)")
  case None
  then show ?thesis by (simp add: pq_validate_plan_def pg_plan_permitted_def)
next
  case m: (Some m)
  show ?thesis
  proof (cases "scoped_values con access")
    case (Inl e)
    have "pq_validate_plan con plan access \<noteq> Inr []"
      using m Inl by (auto simp: pq_validate_plan_def uniq_from_Nil_app Let_def split: sum.splits py_exc.splits)
    then show ?thesis using Inl by (simp add: pg_plan_permitted_def)
  next
    case (Inr S)
    let ?e = "pq_scope_errors con plan access @ pq_contract_errors con m plan
                @ concat (map (pq_filter_errors m access S) (pl_filters plan))"
    have "pq_validate_plan con plan access = Inr [] \<longleftrightarrow> ?e = [] \<and> (\<exists>cur. resolve_window (pl_time_window plan) = Inr cur)"
      using m Inr by (auto simp: pq_validate_plan_def uniq_from_Nil_app Let_def split: sum.splits py_exc.splits)
    also have "?e = [] \<longleftrightarrow> pg_plan_permitted con plan access m S"
      using m Inr by (auto simp: pg_plan_permitted_def pq_scope_errors_Nil pq_contract_errors_Nil pq_filter_errors_Nil
          simp del: allowed_iff)
    finally show ?thesis using m Inr by (auto simp: pg_plan_permitted_def)
  qed
qed

text \<open>The stages of a successful execution.\<close>

definition pg_executed :: "pg_source \<Rightarrow> pg_connector \<Rightarrow> StructuredQueryPlan \<Rightarrow> AccessContext \<Rightarrow> PhysicalMetricMapping
    \<Rightarrow> ResolvedRange \<Rightarrow> ResolvedRange option \<Rightarrow> instant \<times> date \<times> date \<Rightarrow> statement \<times> pg_param list \<Rightarrow> row list \<Rightarrow> row list \<Rightarrow> bool" where
  "pg_executed db con plan access m cur cmp state q current_rows comparison_rows \<longleftrightarrow>
     (let before = open_statements con @ [state_statement con {pm_source_value m}] in
      resolve_window (pl_time_window plan) = Inr cur \<and> resolve_comparison_range cur (pl_comparison plan) = Inr cmp
      \<and> source_state db con (open_statements con) {pm_source_value m} = Inr (Some state)
      \<and> (\<forall>r\<in>insert cur (set_option cmp). \<not> outside_coverage (fst (snd state)) (snd (snd state)) r)
      \<and> period_rows db con before plan access cur m ''RESULT_TRUNCATED'' = Inr (q, current_rows)
      \<and> (\<exists>csql. comparison_period_rows db con (before @ [q]) plan access cmp m = Inr (csql, comparison_rows)))"

lemma with_connection_Inr:
  "with_connection db con body = Inr x \<longleftrightarrow> ps_open db (open_statements con) = None \<and> body (open_statements con) = Inr x"
  by (auto simp: with_connection_def split: option.splits)

lemma connected_rows_Inr:
  "connected_rows db con rid now plan access m cur cmp before = Inr rc \<longleftrightarrow>
    (\<exists>state. source_state db con before {pm_source_value m} = Inr (Some state)
      \<and> (\<forall>r\<in>insert cur (set_option cmp). \<not> outside_coverage (fst (snd state)) (snd (snd state)) r)
      \<and> covered_rows db con rid now plan access m cur cmp state (before @ [state_statement con {pm_source_value m}]) = Inr rc)"
  by (cases cmp) (auto simp: connected_rows_def split: sum.splits option.splits)

lemma covered_rows_Inr:
  assumes "covered_rows db con rid now plan access m cur cmp state before = Inr rc"
  shows "\<exists>q current_rows csql comparison_rows rows canonical sql.
    period_rows db con before plan access cur m ''RESULT_TRUNCATED'' = Inr (q, current_rows)
    \<and> comparison_period_rows db con (before @ [q]) plan access cmp m = Inr (csql, comparison_rows)
    \<and> merge_comparison_rows current_rows comparison_rows (pl_dimensions plan) = Inr rows
    \<and> canonical_rows rows = Inr canonical
    \<and> rc = pg_receipt db con rid now plan state cur cmp sql rows (ps_result_digest db canonical)"
proof -
  from assms obtain q current_rows where q: "period_rows db con before plan access cur m ''RESULT_TRUNCATED'' = Inr (q, current_rows)"
    by (cases "period_rows db con before plan access cur m ''RESULT_TRUNCATED''") (auto simp: covered_rows_def)
  from assms q obtain csql comparison_rows where
    c: "comparison_period_rows db con (before @ [q]) plan access cmp m = Inr (csql, comparison_rows)"
    by (cases "comparison_period_rows db con (before @ [q]) plan access cmp m") (auto simp: covered_rows_def)
  from assms q c show ?thesis by (auto simp: covered_rows_def split: sum.split_asm)
qed

lemma pg_execute_sync_Inr:
  assumes "pg_execute_sync db con rid now plan access = Inr rc"
  shows "\<exists>m cur cmp state q current_rows comparison_rows rows canonical sql.
    pc_metric con (pl_metric_id plan) = Some m
    \<and> pg_executed db con plan access m cur cmp state q current_rows comparison_rows
    \<and> merge_comparison_rows current_rows comparison_rows (pl_dimensions plan) = Inr rows
    \<and> canonical_rows rows = Inr canonical
    \<and> rc = pg_receipt db con rid now plan state cur cmp sql rows (ps_result_digest db canonical)"
proof -
  from assms obtain m cur cmp where m: "pc_metric con (pl_metric_id plan) = Some m"
    and w: "resolve_window (pl_time_window plan) = Inr cur" "resolve_comparison_range cur (pl_comparison plan) = Inr cmp"
    and conn: "connected_rows db con rid now plan access m cur cmp (open_statements con) = Inr rc"
    by (auto simp: pg_execute_sync_def with_connection_Inr split: option.splits sum.splits)
  from conn obtain state where st: "source_state db con (open_statements con) {pm_source_value m} = Inr (Some state)"
    and cov: "\<forall>r\<in>insert cur (set_option cmp). \<not> outside_coverage (fst (snd state)) (snd (snd state)) r"
    and rest: "covered_rows db con rid now plan access m cur cmp state
        (open_statements con @ [state_statement con {pm_source_value m}]) = Inr rc"
    unfolding connected_rows_Inr by blast
  from covered_rows_Inr [OF rest] obtain q current_rows csql comparison_rows rows canonical sql where
    q: "period_rows db con (open_statements con @ [state_statement con {pm_source_value m}]) plan access cur m ''RESULT_TRUNCATED'' = Inr (q, current_rows)"
    and c: "comparison_period_rows db con ((open_statements con @ [state_statement con {pm_source_value m}]) @ [q]) plan access cmp m = Inr (csql, comparison_rows)"
    and r: "merge_comparison_rows current_rows comparison_rows (pl_dimensions plan) = Inr rows" "canonical_rows rows = Inr canonical"
    and rc: "rc = pg_receipt db con rid now plan state cur cmp sql rows (ps_result_digest db canonical)"
    by blast
  have "pg_executed db con plan access m cur cmp state q current_rows comparison_rows"
    unfolding pg_executed_def Let_def using w st cov q c by blast
  with m r rc show ?thesis by blast
qed

lemma pg_execute_read_only_Inr:
  "pg_execute_read_only db con rid now plan access = Inr rc \<longleftrightarrow>
    pq_validate_plan con plan access = Inr [] \<and> pg_execute_sync db con rid now plan access = Inr rc"
  by (auto simp: pg_execute_read_only_def split: sum.splits pg_error.splits py_exc.splits if_splits)

lemma merge_rows_length: "merge_rows cmp dims rs = Inr out \<Longrightarrow> length out \<le> length rs"
proof (induction rs arbitrary: out)
  case (Cons r rs)
  then obtain o1 o2 where o: "merge_row cmp dims r = Inr o1" "merge_rows cmp dims rs = Inr o2" "out = o1 @ o2"
    by (auto split: sum.splits)
  then have "length o1 \<le> 1" using merge_row_cases [OF o(1)] by auto
  with Cons.IH [OF o(2)] o(3) show ?case by simp
qed simp

lemma pg_executed_rows:
  assumes "pg_executed db con plan access m cur cmp state q current_rows comparison_rows"
  shows "int (length current_rows) \<le> pl_row_limit plan" "build_query con plan access cur m = Inr q"
    "pg_query db ((open_statements con @ [state_statement con {pm_source_value m}]) @ [q]) = Inr current_rows"
  using assms by (auto simp: pg_executed_def Let_def period_rows_def split: sum.splits if_splits)

subsection \<open>What of a query is code and what is data\<close>

definition part_idents :: "statement \<Rightarrow> string set" where
  "part_idents s = {i. SqlIdent i \<in> set s}"

definition part_marks :: "statement \<Rightarrow> nat" where
  "part_marks s = length (filter (\<lambda>p. case p of SqlText t \<Rightarrow> str_contains ''%s'' t | SqlIdent _ \<Rightarrow> False) s)"

lemma part_idents_simps [simp]:
  "part_idents [] = {}" "part_idents (SqlText t # s) = part_idents s" "part_idents (SqlIdent i # s) = insert i (part_idents s)"
  "part_idents (s @ s') = part_idents s \<union> part_idents s'"
  by (auto simp: part_idents_def)

lemma part_marks_simps [simp]:
  "part_marks [] = 0" "part_marks (s @ s') = part_marks s + part_marks s'"
  "part_marks (SqlIdent i # s) = part_marks s"
  "part_marks (SqlText t # s) = (if str_contains ''%s'' t then 1 else 0) + part_marks s"
  by (simp_all add: part_marks_def)

lemma part_idents_join: "part_idents (sql_join sep ss) = \<Union> (part_idents ` set ss)"
  by (induction sep ss rule: sql_join.induct) auto

lemma part_marks_join: "\<not> str_contains ''%s'' sep \<Longrightarrow> part_marks (sql_join sep ss) = sum_list (map part_marks ss)"
  by (induction sep ss rule: sql_join.induct) auto

fun condition_column :: "pg_condition \<Rightarrow> string" where
  "condition_column (Compare column op p) = column"
| "condition_column (AnyOf column vals) = column"

lemma condition_idents [simp]: "part_idents (condition_sql c) = {condition_column c}"
  by (cases c) simp_all

lemma str_contains_mark: "str_contains ''%s'' ('' '' @ op @ '' %s'')"
  using str_contains_append [of "''%s''" "'' '' @ op @ '' ''" "[]"] by simp

lemma condition_marks [simp]: "part_marks (condition_sql c) = 1"
proof (cases c)
  case (Compare column op p)
  then show ?thesis using str_contains_mark [of op] by simp
qed simp

definition approved_columns :: "PhysicalConnectorMapping \<Rightarrow> PhysicalMetricMapping \<Rightarrow> string set" where
  "approved_columns x m = {px_fact_date_column x, px_period_end_column x, px_metric_id_column x}
     \<union> metric_columns m \<union> set (map snd (px_dimensions x))"

lemma value_expression_parts:
  assumes "pg_value_expression m = Inr v"
  shows "part_idents v \<subseteq> metric_columns m" "part_marks v = 0"
  using assms
  by (auto simp: pg_value_expression_def metric_columns_def split: if_splits option.splits)

lemma filter_conditions_columns:
  "filter_conditions (map_of d) fs = Inr cs \<Longrightarrow> condition_column ` set cs \<subseteq> set (map snd d)"
proof (induction fs arbitrary: cs)
  case (Cons f fs)
  then obtain c rest where c: "map_of d (qf_dimension_id f) = Some c" "filter_conditions (map_of d) fs = Inr rest"
    "cs = AnyOf c (qf_values f) # rest" by (auto split: option.splits)
  have "c \<in> set (map snd d)" using map_of_SomeD [OF c(1)] by force
  with Cons.IH [OF c(2)] c(3) show ?case by simp
qed simp

lemma scope_conditions_columns:
  "scope_conditions con m access = Inr cs \<Longrightarrow> condition_column ` set cs \<subseteq> set (map snd (px_dimensions (pc_mapping con)))"
proof -
  assume "scope_conditions con m access = Inr cs"
  then have "cs = [] \<or> (\<exists>c vs. cs = [AnyOf c vs] \<and> map_of (px_dimensions (pc_mapping con)) ''REGION'' = Some c)"
    by (auto simp: scope_conditions_def split: option.splits sum.splits if_splits)
  then show ?thesis by (force dest: map_of_SomeD)
qed

lemma query_conditions_columns:
  assumes "query_conditions con plan access rng m = Inr cs"
  shows "condition_column ` set cs \<subseteq> approved_columns (pc_mapping con) m"
proof -
  from assms obtain fs sc where f: "filter_conditions (map_of (px_dimensions (pc_mapping con))) (pl_filters plan) = Inr fs"
    and s: "scope_conditions con m access = Inr sc" and cs: "cs = base_conditions (pc_mapping con) m rng @ fs @ sc"
    by (auto simp: query_conditions_def split: sum.splits)
  from filter_conditions_columns [OF f] scope_conditions_columns [OF s]
  show ?thesis by (auto simp: cs base_conditions_def approved_columns_def)
qed

lemma select_idents:
  "part_idents (select_statement x columns v cs) = {px_schema_name x, px_table_name x, ''value''} \<union> part_idents v
    \<union> fst ` set columns \<union> snd ` set columns \<union> condition_column ` set cs"
proof -
  have one: "part_idents ((\<lambda>(c, d). [SqlIdent c, SqlText '' AS '', SqlIdent d]) e) = {fst e, snd e}"
    "part_idents ((\<lambda>(c, d). [SqlIdent c]) e) = {fst e}" for e :: "string \<times> string"
    by (cases e; simp)+
  have "\<Union> (part_idents ` (\<lambda>(c, d). [SqlIdent c, SqlText '' AS '', SqlIdent d]) ` set columns) = fst ` set columns \<union> snd ` set columns"
    unfolding image_image one by blast
  moreover have "\<Union> (part_idents ` (\<lambda>(c, d). [SqlIdent c]) ` set columns) = fst ` set columns"
    unfolding image_image one by blast
  moreover have "\<Union> (part_idents ` condition_sql ` set cs) = condition_column ` set cs"
    unfolding image_image condition_idents by blast
  ultimately show ?thesis
    by (cases "columns = []") (simp_all add: select_statement_def qualified_table_def part_idents_join insert_commute Un_commute Un_left_commute)
qed

lemma select_marks: "part_marks v = 0 \<Longrightarrow> part_marks (select_statement x columns v cs) = length cs + 1"
proof -
  assume v: "part_marks v = 0"
  have "sum_list (map part_marks (map (\<lambda>(c, d). [SqlIdent c, SqlText '' AS '', SqlIdent d]) columns)) = 0"
    "sum_list (map part_marks (map (\<lambda>(c, d). [SqlIdent c]) columns)) = 0" by (induction columns) auto
  moreover have "sum_list (map part_marks (map condition_sql cs)) = length cs" by (induction cs) auto
  ultimately show ?thesis using v by (simp add: select_statement_def qualified_table_def part_marks_join)
qed

lemma filter_conditions_shape:
  assumes "filter_conditions d fs = Inr cs" "filter_conditions d gs = Inr ds" "map qf_dimension_id fs = map qf_dimension_id gs"
  shows "map condition_sql cs = map condition_sql ds"
  using assms
proof (induction fs arbitrary: gs cs ds)
  case (Cons f fs)
  then obtain g gs' where gs: "gs = g # gs'" "qf_dimension_id f = qf_dimension_id g" "map qf_dimension_id fs = map qf_dimension_id gs'"
    by auto
  from Cons.prems(1) obtain c cs' where c: "d (qf_dimension_id f) = Some c" "filter_conditions d fs = Inr cs'"
    "cs = AnyOf c (qf_values f) # cs'" by (auto split: option.splits)
  from Cons.prems(2) gs c(1) obtain ds' where ds: "filter_conditions d gs' = Inr ds'" "ds = AnyOf c (qf_values g) # ds'"
    by (auto split: option.splits)
  from Cons.IH [OF c(2) ds(1) gs(3)] c ds show ?case by simp
qed auto

lemma scope_conditions_shape:
  assumes "scope_conditions con m access = Inr cs" "scope_conditions con m access' = Inr ds"
    and S: "scoped_values con access = Inr S" "scoped_values con access' = Inr T" "finite S" "finite T" "S = {} \<longleftrightarrow> T = {}"
  shows "map condition_sql cs = map condition_sql ds"
proof -
  have "py_sorted S = [] \<longleftrightarrow> py_sorted T = []" using S(3-5) by (simp add: py_sorted_def)
  then show ?thesis using assms(1,2) S(1,2)
    by (auto simp: scope_conditions_def split: option.splits if_splits)
qed

lemma base_conditions_shape: "map condition_sql (base_conditions x m r) = map condition_sql (base_conditions x m r')"
  by (simp add: base_conditions_def)

lemma build_query_Inr:
  assumes "build_query con plan access rng m = Inr (sql, ps)"
  obtains columns v cs where "lookup_all (map_of (px_dimensions (pc_mapping con))) (pl_dimensions plan) = Inr columns"
    "pg_value_expression m = Inr v" "query_conditions con plan access rng m = Inr cs"
    "sql = select_statement (pc_mapping con) (zip columns (pl_dimensions plan)) v cs"
    "ps = map condition_param cs @ [PgInt (pl_row_limit plan + 1)]"
  using assms by (auto simp: build_query_def split: sum.splits)

lemma query_conditions_Inr:
  assumes "query_conditions con plan access rng m = Inr cs"
  obtains fs sc where "filter_conditions (map_of (px_dimensions (pc_mapping con))) (pl_filters plan) = Inr fs"
    "scope_conditions con m access = Inr sc" "cs = base_conditions (pc_mapping con) m rng @ fs @ sc"
  using assms by (auto simp: query_conditions_def split: sum.splits)

text \<open>The SQL of a query depends on the plan's dimensions and filtered dimensions only: no value of a filter, of the
  caller's scope, of the period or of the row limit enters the text.  Each of them is bound to a parameter,
  one per placeholder, and every identifier is the schema, the table, a column the mapping approves, a
  dimension of the plan or the output column.\<close>

theorem query_text_is_parameterised:
  assumes q: "build_query con plan access rng m = Inr (sql, ps)"
    and q': "build_query con plan' access' rng' m = Inr (sql', ps')"
    and same: "pl_dimensions plan = pl_dimensions plan'"
      "map qf_dimension_id (pl_filters plan) = map qf_dimension_id (pl_filters plan')"
    and S: "scoped_values con access = Inr S" "scoped_values con access' = Inr T" "finite S" "finite T" "S = {} \<longleftrightarrow> T = {}"
  shows "sql = sql' \<and> part_marks sql = length ps
    \<and> part_idents sql \<subseteq> {px_schema_name (pc_mapping con), px_table_name (pc_mapping con), ''value''}
        \<union> approved_columns (pc_mapping con) m \<union> set (pl_dimensions plan)"
proof -
  let ?x = "pc_mapping con"
  from build_query_Inr [OF q] obtain columns v cs where columns: "lookup_all (map_of (px_dimensions ?x)) (pl_dimensions plan) = Inr columns"
    and v: "pg_value_expression m = Inr v" and cs: "query_conditions con plan access rng m = Inr cs"
    and sql: "sql = select_statement ?x (zip columns (pl_dimensions plan)) v cs"
    and ps: "ps = map condition_param cs @ [PgInt (pl_row_limit plan + 1)]" by blast
  from build_query_Inr [OF q'] columns v same(1) obtain ds where ds: "query_conditions con plan' access' rng' m = Inr ds"
    and sql': "sql' = select_statement ?x (zip columns (pl_dimensions plan)) v ds" by auto
  from query_conditions_Inr [OF cs] obtain fs sc where fs: "filter_conditions (map_of (px_dimensions ?x)) (pl_filters plan) = Inr fs"
    "scope_conditions con m access = Inr sc" "cs = base_conditions ?x m rng @ fs @ sc" by blast
  from query_conditions_Inr [OF ds] obtain gs sd where gs: "filter_conditions (map_of (px_dimensions ?x)) (pl_filters plan') = Inr gs"
    "scope_conditions con m access' = Inr sd" "ds = base_conditions ?x m rng' @ gs @ sd" by blast
  have "map condition_sql cs = map condition_sql ds"
    using filter_conditions_shape [OF fs(1) gs(1) same(2)] scope_conditions_shape [OF fs(2) gs(2) S]
      base_conditions_shape [of ?x m rng rng'] by (simp add: fs(3) gs(3))
  then have "sql = sql'" by (simp add: sql sql' select_statement_def)
  moreover have "part_marks sql = length ps"
    using value_expression_parts(2) [OF v] by (simp add: sql ps select_marks)
  moreover have "fst ` set (zip columns (pl_dimensions plan)) \<subseteq> set (map snd (px_dimensions ?x))"
  proof -
    have "c \<in> set (map snd (px_dimensions ?x))" if "c \<in> set columns" for c
      using lookup_all_InrD [OF columns] that by (force dest: map_of_SomeD)
    then show ?thesis by (auto dest: set_zip_leftD)
  qed
  moreover have "snd ` set (zip columns (pl_dimensions plan)) \<subseteq> set (pl_dimensions plan)" by (auto dest: set_zip_rightD)
  ultimately have ids: "part_idents sql \<subseteq> {px_schema_name ?x, px_table_name ?x, ''value''} \<union> approved_columns ?x m
      \<union> set (pl_dimensions plan)"
    using value_expression_parts(1) [OF v] query_conditions_columns [OF cs]
    unfolding sql select_idents approved_columns_def by blast
  show ?thesis using \<open>sql = sql'\<close> \<open>part_marks sql = length ps\<close> ids by blast
qed

subsection \<open>Which facts a query can aggregate\<close>

text \<open>The documented meaning of the three kinds of condition on a row of the fact table: \<open>=\<close>, \<open>>=\<close> and
  \<open><=\<close> against a parameter, and \<open>= ANY\<close> of a list of texts.\<close>

type_synonym fact = "string \<rightharpoonup> pg_param"

fun condition_holds :: "fact \<Rightarrow> pg_condition \<Rightarrow> bool" where
  "condition_holds r (Compare c op p) =
     (case (r c, p) of
        (Some (PgDate d), PgDate e) \<Rightarrow> op = ''='' \<and> d = e \<or> op = ''>='' \<and> e \<le> d \<or> op = ''<='' \<and> d \<le> e
      | (Some (PgText t), PgText u) \<Rightarrow> op = ''='' \<and> t = u
      | _ \<Rightarrow> False)"
| "condition_holds r (AnyOf c vs) = (case r c of Some (PgText t) \<Rightarrow> t \<in> set vs | _ \<Rightarrow> False)"

definition fact_in_scope :: "PhysicalConnectorMapping \<Rightarrow> PhysicalMetricMapping \<Rightarrow> ResolvedRange \<Rightarrow> string set \<Rightarrow> fact \<Rightarrow> bool" where
  "fact_in_scope x m rng S r \<longleftrightarrow>
     r (px_metric_id_column x) = Some (PgText (pm_source_value m))
     \<and> (\<exists>d. r (px_fact_date_column x) = Some (PgDate d) \<and> rr_start rng \<le> d)
     \<and> (\<exists>d. r (px_period_end_column x) = Some (PgDate d) \<and> d \<le> rr_end rng)
     \<and> (\<exists>column v. map_of (px_dimensions x) ''REGION'' = Some column \<and> r column = Some (PgText v) \<and> v \<in> S)"

lemma base_conditions_hold:
  "(\<forall>c\<in>set (base_conditions x m rng). condition_holds r c) \<longleftrightarrow>
     r (px_metric_id_column x) = Some (PgText (pm_source_value m))
     \<and> (\<exists>d. r (px_fact_date_column x) = Some (PgDate d) \<and> rr_start rng \<le> d)
     \<and> (\<exists>d. r (px_period_end_column x) = Some (PgDate d) \<and> d \<le> rr_end rng)"
  by (auto simp: base_conditions_def split: option.splits pg_param.splits)

lemma any_holds: "condition_holds r (AnyOf c vs) \<longleftrightarrow> (\<exists>t. r c = Some (PgText t) \<and> t \<in> set vs)"
  by (auto split: option.splits pg_param.splits)

lemma conditions_keep_scope:
  assumes "query_conditions con plan access rng m = Inr cs" "scoped_values con access = Inr S" "finite S" "S \<noteq> {}"
    "''REGION'' \<in> pm_allowed_dimensions m" "\<forall>c\<in>set cs. condition_holds r c"
  shows "fact_in_scope (pc_mapping con) m rng S r"
proof -
  from query_conditions_Inr [OF assms(1)] obtain fs sc where sc: "scope_conditions con m access = Inr sc"
    and cs: "cs = base_conditions (pc_mapping con) m rng @ fs @ sc" by blast
  have "py_sorted S \<noteq> []" using assms(3,4) by (simp add: py_sorted_def)
  with sc assms(2,5) obtain column where c: "map_of (px_dimensions (pc_mapping con)) ''REGION'' = Some column"
    and "sc = [AnyOf column (py_sorted S)]" by (auto simp: scope_conditions_def split: option.splits)
  with assms(6) cs have "condition_holds r (AnyOf column (py_sorted S))" by simp
  then obtain v where "r column = Some (PgText v)" "v \<in> S" using assms(3) unfolding any_holds by auto
  moreover have "\<forall>c\<in>set (base_conditions (pc_mapping con) m rng). condition_holds r c" using assms(6) cs by simp
  ultimately show ?thesis using c unfolding base_conditions_hold fact_in_scope_def by blast
qed

subsection \<open>Receipts\<close>

lemma pg_normalize_rows_in:
  "pg_normalize_rows rs = Inr out \<Longrightarrow> r \<in> set out \<Longrightarrow>
    \<exists>q\<in>set rs. r = q \<and> row_get q ''value'' = VNone \<or> (\<exists>f. r = row_set ''value'' (VFloat f) q)"
proof (induction rs arbitrary: out)
  case (Cons q rs)
  from Cons.prems(1) obtain q' rest where rest: "pg_normalize_rows rs = Inr rest" and out: "out = q' # rest"
    and q': "q' = q \<and> row_get q ''value'' = VNone \<or> (\<exists>f. q' = row_set ''value'' (VFloat f) q)"
    by (auto split: if_splits sum.splits)
  with Cons.IH [OF rest] Cons.prems(2) show ?case by auto
qed simp

lemma merged_rows_sound:
  assumes m: "merge_comparison_rows current comparison dims = Inr rows" and c: "canonical_rows rows = Inr canonical"
    and float: "\<And>r. r \<in> set current \<Longrightarrow> row_get r ''value'' \<noteq> VNone \<Longrightarrow> \<exists>x. row_get r ''value'' = VFloat x"
    and new: "\<And>r. r \<in> set current \<Longrightarrow> \<not> row_has r ''comparison_value''"
    and r': "r' \<in> set rows"
  shows "is_finite_number (row_get r' ''value'') = Inr True
    \<and> (row_has r' ''comparison_value'' \<longrightarrow> comparison_is_consistent r' = Inr True)"
proof -
  from merge_rows_in [OF m [unfolded merge_comparison_rows_def] r'] obtain r where
    r: "r \<in> set current" and mr: "merge_row (dict_of (row_key dims) comparison) dims r = Inr [r']" by blast
  from merge_row_cases [OF mr] obtain x where x: "to_float (row_get r ''value'') = Inr x" "is_finite x"
    and same: "row_get r' ''value'' = row_get r ''value''" by auto
  have "row_get r ''value'' \<noteq> VNone" using x by auto
  from float [OF r this] x have v: "row_get r ''value'' = VFloat x" by auto
  from merged_row_consistent [OF mr v new [OF r] _ canonical_rows_finite [OF c r']]
  show ?thesis using v x same by (auto simp: is_finite_number_def)
qed

subsection \<open>A connector and a database for the witnesses\<close>

definition warehouse_con :: pg_connector where
  "warehouse_con = \<lparr>pc_descriptor = \<lparr>cd_connector_id = ''telecom_semantic_warehouse'', cd_connector_type = ''POSTGRESQL_MAPPED'',
       cd_dialect = Some ''PostgreSQL'',
       cd_capabilities = {CATALOG_DISCOVERY, SCHEMA_INTROSPECTION, PARAMETERIZED_FILTERS, AGGREGATION,
         WINDOW_FUNCTIONS, QUERY_CANCELLATION, SECURITY_PUSHDOWN},
       cd_read_only = True, cd_maximum_rows = 500, cd_query_timeout_seconds = 60,
       cd_mapping_version = Some ''2026.08.2'', cd_mapping_hash = Some (replicate 64 (CHR ''a''))\<rparr>,
     pc_mapping = warehouse_mapping, pc_mapping_version = ''2026.08.2'', pc_mapping_hash = replicate 64 (CHR ''a'')\<rparr>"

lemma warehouse_con_made:
  "make_pg_connector untidy_mapping ''2026.08.2'' (replicate 64 (CHR ''a'')) ''dsn'' (Some 500) None = Inr warehouse_con"
proof -
  have "length (replicate 64 (CHR ''a'')) = 64" "py_strip ''dsn'' \<noteq> []" "py_strip ''2026.08.2'' \<noteq> []" by code_simp+
  then show ?thesis
    by (simp add: make_pg_connector_def untidy_mapping_made int_or_def warehouse_con_def warehouse_mapping_def
        del: length_replicate)
qed

definition warehouse_db :: pg_source where
  "warehouse_db = \<lparr>ps_open = (\<lambda>_. None), ps_state = (\<lambda>_. Inr (Some (5, Some (Date 2025 7 1), Some (Date 2026 7 31)))),
     ps_rows = (\<lambda>t. Inr [[(''REGION'', VStr ''WEST''), (''value'', VInt (1200 + int (length t)))]]),
     ps_columns = (\<lambda>_. Inr []), ps_one = (\<lambda>_. Inr (Some 1)), ps_text = (\<lambda>s. nat_str (int (length s))),
     ps_result_digest = (\<lambda>rs. nat_str (int (length rs))), ps_sql_digest = (\<lambda>s. take 6 s)\<rparr>"

lemma warehouse_scope: "scoped_values warehouse_con western = Inr {''WEST''}"
  by code_simp

lemma warehouse_executes: "is_ok (pg_execute_read_only warehouse_db warehouse_con ''rc'' 7 demo_plan western)"
  by code_simp

subsection \<open>Properties\<close>

text \<open>A constructed connector is read-only, stays within the row and time limits of its mapping, and pins the
  mapping it validated: version, hash and content.\<close>

definition pg_connector_ok :: "pg_connector \<Rightarrow> bool" where
  "pg_connector_ok con \<longleftrightarrow> connector_mapping_ok (pc_mapping con) \<and> cd_read_only (pc_descriptor con)
     \<and> cd_connector_id (pc_descriptor con) = px_connector_id (pc_mapping con)
     \<and> 1 \<le> cd_maximum_rows (pc_descriptor con) \<and> cd_maximum_rows (pc_descriptor con) \<le> px_maximum_rows (pc_mapping con)
     \<and> 1 \<le> cd_query_timeout_seconds (pc_descriptor con)
     \<and> cd_query_timeout_seconds (pc_descriptor con) \<le> px_query_timeout_seconds (pc_mapping con)
     \<and> cd_mapping_version (pc_descriptor con) = Some (pc_mapping_version con)
     \<and> cd_mapping_hash (pc_descriptor con) = Some (pc_mapping_hash con) \<and> length (pc_mapping_hash con) = 64"

lemma make_pg_connector_ok:
  "make_pg_connector mapping version hash dsn rows timeout = Inr con \<Longrightarrow> pg_connector_ok con"
  by (auto simp: make_pg_connector_def pg_connector_ok_def Let_def make_connector_mapping_ok
      split: sum.splits if_splits)

text \<open>When the scope of a caller with regions resolves to nothing at all: the mapping has no region dimension, or every
  region of the caller expands to no physical value.\<close>

definition scope_is_emptied :: "pg_connector \<Rightarrow> AccessContext \<Rightarrow> bool" where
  "scope_is_emptied con access \<longleftrightarrow> ''REGION'' \<notin> dict_keys (px_dimensions (pc_mapping con))
     \<or> (\<forall>v\<in>normalize_set_values (ac_regions access).
          scope_expansion (dict_get (px_scope_value_mappings (pc_mapping con)) ''REGION'' []) v = {})"

lemma scoped_values_empty: "scoped_values con access = Inr {} \<Longrightarrow> scope_is_emptied con access"
proof -
  have "py_upper (py_strip ''REGION'') = ''REGION''" by code_simp
  then show "scoped_values con access = Inr {} \<Longrightarrow> scope_is_emptied con access"
    unfolding scoped_values_def resolve_scope_values_def scope_is_emptied_def Let_def by (auto split: if_splits)
qed

text \<open>C3: Nothing is executed without permission: a receipt exists only for a plan of this connector and of the
  caller's tenant, by a caller who may read data and has a region scope that resolves, over a mapped metric
  with its aggregation and allowed dimensions, whose region filters lie in the resolved scope; the requested
  period and its comparison are inside the source's coverage, and no more rows are returned than the plan,
  the connector and the mapping of a constructed connector allow.  The resolved scope is empty, and then restricts nothing but
  region filters, only when the mapping has no region dimension or maps every region of the caller to nothing.\<close>

theorem pg_execution_is_permitted:
  assumes con: "pg_connector_ok con" and ex: "pg_execute_read_only db con rid now plan access = Inr rc"
  shows "\<exists>m S cur cmp. pg_plan_permitted con plan access m S \<and> (S = {} \<longrightarrow> scope_is_emptied con access)
    \<and> resolve_window (pl_time_window plan) = Inr cur \<and> resolve_comparison_range cur (pl_comparison plan) = Inr cmp
    \<and> (\<forall>r\<in>insert cur (set_option cmp). rc_coverage_start rc \<le> rr_start r \<and> rr_end r \<le> rc_coverage_end rc)
    \<and> rc_row_count rc = int (length (rc_result_rows rc)) \<and> rc_row_count rc \<le> pl_row_limit plan
    \<and> pl_row_limit plan \<le> cd_maximum_rows (pc_descriptor con)
    \<and> cd_maximum_rows (pc_descriptor con) \<le> px_maximum_rows (pc_mapping con)
    \<and> rc_physical_mapping_hash rc = Some (pc_mapping_hash con) \<and> rc_physical_mapping_version rc = Some (pc_mapping_version con)"
proof -
  from ex have v: "pq_validate_plan con plan access = Inr []" and s: "pg_execute_sync db con rid now plan access = Inr rc"
    by (simp_all add: pg_execute_read_only_Inr)
  from v obtain m S where p: "pg_plan_permitted con plan access m S" by (auto simp: pq_validate_plan_Nil)
  then have "S = {} \<longrightarrow> scope_is_emptied con access" using scoped_values_empty by (auto simp: pg_plan_permitted_def)
  moreover from pg_execute_sync_Inr [OF s] obtain m' cur cmp state q current_rows comparison_rows rows canonical sql where
    e: "pg_executed db con plan access m' cur cmp state q current_rows comparison_rows"
    and mr: "merge_comparison_rows current_rows comparison_rows (pl_dimensions plan) = Inr rows"
    and rc: "rc = pg_receipt db con rid now plan state cur cmp sql rows (ps_result_digest db canonical)" by blast
  have "length rows \<le> length current_rows" using merge_rows_length mr unfolding merge_comparison_rows_def by blast
  with pg_executed_rows(1) [OF e] have "int (length rows) \<le> pl_row_limit plan" by simp
  moreover from con have "cd_maximum_rows (pc_descriptor con) \<le> px_maximum_rows (pc_mapping con)" by (simp add: pg_connector_ok_def)
  ultimately show ?thesis using p e rc
    by (intro exI [of _ m] exI [of _ S] exI [of _ cur] exI [of _ cmp])
       (auto simp: pg_executed_def Let_def pg_receipt_def outside_coverage_def not_less pg_plan_permitted_def)
qed

theorem pg_execution_is_permitted_witness:
  "\<exists>m S. pg_plan_permitted warehouse_con demo_plan western m S"
proof -
  from warehouse_executes obtain rc where "pg_execute_read_only warehouse_db warehouse_con ''rc'' 7 demo_plan western = Inr rc"
    by (auto simp: is_ok_iff)
  from pg_execution_is_permitted [OF make_pg_connector_ok [OF warehouse_con_made] this] show ?thesis by blast
qed

text \<open>A data query of the plan that can aggregate facts of a scope only: every fact that satisfies its conditions carries the
  metric's source value, lies inside one of the plan's resolved periods and has a region in the scope.\<close>

definition scoped_query :: "pg_connector \<Rightarrow> StructuredQueryPlan \<Rightarrow> PhysicalMetricMapping \<Rightarrow> string set \<Rightarrow> statement \<times> pg_param list \<Rightarrow> bool" where
  "scoped_query con plan m S q \<longleftrightarrow> (\<exists>cur cmp columns v cs. resolve_window (pl_time_window plan) = Inr cur
     \<and> resolve_comparison_range cur (pl_comparison plan) = Inr cmp
     \<and> fst q = select_statement (pc_mapping con) columns v cs \<and> snd q = map condition_param cs @ [PgInt (pl_row_limit plan + 1)]
     \<and> (\<exists>rng\<in>insert cur (set_option cmp). \<forall>r. (\<forall>c\<in>set cs. condition_holds r c) \<longrightarrow> fact_in_scope (pc_mapping con) m rng S r))"

text \<open>Two databases that differ only in what they answer to queries that are not scoped.\<close>

definition same_in_scope :: "pg_connector \<Rightarrow> StructuredQueryPlan \<Rightarrow> PhysicalMetricMapping \<Rightarrow> string set
    \<Rightarrow> pg_source \<Rightarrow> (transcript \<Rightarrow> source_fault + row list) \<Rightarrow> bool" where
  "same_in_scope con plan m S db rows' \<longleftrightarrow> (\<forall>before q. scoped_query con plan m S q \<longrightarrow> rows' (before @ [q]) = ps_rows db (before @ [q]))"

lemma built_query_scoped:
  assumes "build_query con plan access rng m = Inr q" "scoped_values con access = Inr S" "finite S" "S \<noteq> {}"
    and "''REGION'' \<in> pm_allowed_dimensions m" "resolve_window (pl_time_window plan) = Inr cur"
    and "resolve_comparison_range cur (pl_comparison plan) = Inr cmp" "rng \<in> insert cur (set_option cmp)"
  shows "scoped_query con plan m S q"
proof -
  from assms(1) obtain columns v cs where cs: "query_conditions con plan access rng m = Inr cs"
    and q: "fst q = select_statement (pc_mapping con) (zip columns (pl_dimensions plan)) v cs"
      "snd q = map condition_param cs @ [PgInt (pl_row_limit plan + 1)]"
    by (cases q) (auto elim!: build_query_Inr)
  from conditions_keep_scope [OF cs assms(2-5)] q assms(6-8) show ?thesis unfolding scoped_query_def by blast
qed

lemma period_rows_same:
  assumes "same_in_scope con plan m S db rows'" "\<And>q. build_query con plan access rng m = Inr q \<Longrightarrow> scoped_query con plan m S q"
  shows "period_rows (db\<lparr>ps_rows := rows'\<rparr>) con before plan access rng m t = period_rows db con before plan access rng m t"
proof (cases "build_query con plan access rng m")
  case (Inr q)
  with assms have "rows' (before @ [q]) = ps_rows db (before @ [q])" unfolding same_in_scope_def by blast
  with Inr show ?thesis by (simp add: period_rows_def pg_query_def)
qed (simp add: period_rows_def)

lemma covered_rows_same:
  assumes same: "same_in_scope con plan m S db rows'"
    and q: "\<And>rng q. rng \<in> insert cur (set_option cmp) \<Longrightarrow> build_query con plan access rng m = Inr q \<Longrightarrow> scoped_query con plan m S q"
  shows "covered_rows (db\<lparr>ps_rows := rows'\<rparr>) con rid now plan access m cur cmp state before
    = covered_rows db con rid now plan access m cur cmp state before"
proof -
  have p: "period_rows (db\<lparr>ps_rows := rows'\<rparr>) con b plan access rng m t = period_rows db con b plan access rng m t"
    if "rng \<in> insert cur (set_option cmp)" for rng b t
    by (rule period_rows_same [OF same]) (use q that in blast)
  have "comparison_period_rows (db\<lparr>ps_rows := rows'\<rparr>) con b plan access cmp m = comparison_period_rows db con b plan access cmp m" for b
    by (cases cmp) (simp_all add: comparison_period_rows_def p)
  then show ?thesis by (simp add: covered_rows_def p pg_receipt_def split: sum.split prod.split option.split)
qed

text \<open>C4: A caller whose regions resolve to a non-empty scope, itself within the mapping's allowlist, learns nothing of the facts
  outside it: when the connector maps the region dimension for the metric, the whole outcome of an execution, receipt
  or refusal, depends on what the database answers to data queries that aggregate facts of that scope only, those of the
  current and of the comparison period alike.  (The source's coverage, read before, is that of the metric as a whole.)\<close>

theorem pg_query_stays_in_scope:
  assumes con: "pg_connector_ok con"
    and m: "pc_metric con (pl_metric_id plan) = Some m" "''REGION'' \<in> pm_allowed_dimensions m"
    and S: "scoped_values con access = Inr S" "finite S" "S \<noteq> {}"
    and same: "same_in_scope con plan m S db rows'"
  shows "S \<subseteq> dict_get (px_scope_value_allowlists (pc_mapping con)) ''REGION'' {}
    \<and> pg_execute_read_only (db\<lparr>ps_rows := rows'\<rparr>) con rid now plan access = pg_execute_read_only db con rid now plan access"
proof
  have "py_upper (py_strip ''REGION'') = ''REGION''" by code_simp
  with resolve_scope_values_within [OF _ S(1) [unfolded scoped_values_def]] con
  show "S \<subseteq> dict_get (px_scope_value_allowlists (pc_mapping con)) ''REGION'' {}" by (simp add: pg_connector_ok_def)
  have "connected_rows (db\<lparr>ps_rows := rows'\<rparr>) con rid now plan access m cur cmp before
      = connected_rows db con rid now plan access m cur cmp before"
    if "resolve_window (pl_time_window plan) = Inr cur" "resolve_comparison_range cur (pl_comparison plan) = Inr cmp" for cur cmp before
  proof -
    have "covered_rows (db\<lparr>ps_rows := rows'\<rparr>) con rid now plan access m cur cmp state b
        = covered_rows db con rid now plan access m cur cmp state b" for state b
      by (rule covered_rows_same [OF same]) (rule built_query_scoped [OF _ S m(2) that])
    then have c: "\<And>state b. covered_rows (db\<lparr>ps_rows := rows'\<rparr>) con rid now plan access m cur cmp state b
        = covered_rows db con rid now plan access m cur cmp state b" .
    have "source_state (db\<lparr>ps_rows := rows'\<rparr>) con before {pm_source_value m} = source_state db con before {pm_source_value m}"
      by (simp add: source_state_def)
    then show ?thesis by (simp only: connected_rows_def c)
  qed
  then have "pg_execute_sync (db\<lparr>ps_rows := rows'\<rparr>) con rid now plan access = pg_execute_sync db con rid now plan access"
    by (auto simp: pg_execute_sync_def m(1) with_connection_def split: sum.splits option.splits)
  then show "pg_execute_read_only (db\<lparr>ps_rows := rows'\<rparr>) con rid now plan access = pg_execute_read_only db con rid now plan access"
    by (simp only: pg_execute_read_only_def)
qed

theorem pg_query_stays_in_scope_witness:
  "pg_execute_read_only (warehouse_db\<lparr>ps_rows := \<lambda>t. if t = [] \<or> snd (last t) = [] then Inl DriverError else ps_rows warehouse_db t\<rparr>)
     warehouse_con ''rc'' 7 demo_plan western = pg_execute_read_only warehouse_db warehouse_con ''rc'' 7 demo_plan western"
proof -
  have m: "pc_metric warehouse_con (pl_metric_id demo_plan) = Some activations_mapping" by code_simp
  have r: "''REGION'' \<in> pm_allowed_dimensions activations_mapping" by (simp add: activations_mapping_def)
  have same: "same_in_scope warehouse_con demo_plan activations_mapping {''WEST''} warehouse_db
      (\<lambda>t. if t = [] \<or> snd (last t) = [] then Inl DriverError else ps_rows warehouse_db t)"
    by (auto simp: same_in_scope_def scoped_query_def)
  from pg_query_stays_in_scope [OF make_pg_connector_ok [OF warehouse_con_made] m r warehouse_scope _ _ same] show ?thesis by simp
qed

text \<open>Whatever PostgreSQL returns, a receipt the connector builds passes the validator's digest, row count,
  finiteness and comparison-arithmetic checks and carries the plan's lineage (the query's columns do not
  include the name of the derived one).\<close>

theorem pg_receipt_self_consistent:
  assumes ex: "pg_execute_sync db con rid now plan access = Inr rc"
    and cols: "\<And>t rows. ps_rows db t = Inr rows \<Longrightarrow> \<forall>r\<in>set rows. \<not> row_has r ''comparison_value''"
  shows "receipt_self_consistent (ps_result_digest db) rc
    \<and> rc_query_id rc = pl_query_id plan \<and> rc_decision_id rc = pl_decision_id plan \<and> rc_plan_hash rc = pl_plan_hash plan
    \<and> rc_connector_id rc = pl_connector_id plan \<and> rc_policy_decision_id rc = pl_decision_id plan
    \<and> resolve_window (pl_time_window plan) = Inr (range_of (rc_resolved_start rc) (rc_resolved_end rc))"
proof -
  from pg_execute_sync_Inr [OF ex] obtain m cur cmp state q current_rows comparison_rows rows canonical sql where
    e: "pg_executed db con plan access m cur cmp state q current_rows comparison_rows"
    and mr: "merge_comparison_rows current_rows comparison_rows (pl_dimensions plan) = Inr rows"
    and c: "canonical_rows rows = Inr canonical"
    and rc: "rc = pg_receipt db con rid now plan state cur cmp sql rows (ps_result_digest db canonical)" by blast
  from pg_executed_rows(3) [OF e] obtain t raw where t: "ps_rows db t = Inr raw"
    and norm: "pg_normalize_rows raw = Inr current_rows"
    by (auto simp: pg_query_def split: sum.splits)
  from cols [OF t] have raw: "\<forall>r\<in>set raw. \<not> row_has r ''comparison_value''" .
  have cur_rows: "(row_get r ''value'' \<noteq> VNone \<longrightarrow> (\<exists>x. row_get r ''value'' = VFloat x)) \<and> \<not> row_has r ''comparison_value''"
    if "r \<in> set current_rows" for r
    using pg_normalize_rows_in [OF norm that] raw by auto
  have row: "is_finite_number (row_get r ''value'') = Inr True
      \<and> (row_has r ''comparison_value'' \<longrightarrow> comparison_is_consistent r = Inr True)" if "r \<in> set rows" for r
    by (rule merged_rows_sound [OF mr c _ _ that]) (use cur_rows in blast)+
  have "resolve_window (pl_time_window plan) = Inr cur" using e by (simp add: pg_executed_def Let_def)
  moreover have "cur = range_of (rr_start cur) (rr_end cur)" by (simp add: range_of_def)
  ultimately show ?thesis using row c by (auto simp: rc pg_receipt_def receipt_self_consistent_def)
qed

theorem pg_receipt_self_consistent_witness:
  "\<exists>rc. pg_execute_sync warehouse_db warehouse_con ''rc'' 7 demo_plan western = Inr rc
    \<and> receipt_self_consistent (ps_result_digest warehouse_db) rc"
proof -
  from warehouse_executes obtain rc where ex: "pg_execute_sync warehouse_db warehouse_con ''rc'' 7 demo_plan western = Inr rc"
    by (auto simp: is_ok_iff pg_execute_read_only_Inr)
  have cols: "\<forall>r\<in>set rows. \<not> row_has r ''comparison_value''" if "ps_rows warehouse_db t = Inr rows" for t rows
    using that by (auto simp: warehouse_db_def row_has_def)
  have "receipt_self_consistent (ps_result_digest warehouse_db) rc"
    by (rule pg_receipt_self_consistent [OF ex, THEN conjunct1]) (rule cols)
  with ex show ?thesis by blast
qed

theorem query_text_is_parameterised_witness:
  "\<exists>sql ps ps'. build_query warehouse_con demo_plan western (range_of (Date 2026 7 1) (Date 2026 7 31)) activations_mapping = Inr (sql, ps)
    \<and> build_query warehouse_con (demo_plan\<lparr>pl_filters := [\<lparr>qf_dimension_id = ''REGION'', qf_operator = OP_IN, qf_values = [''x'']\<rparr>]\<rparr>)
        (western\<lparr>ac_regions := {''NORTH_AMERICA''}\<rparr>) (range_of (Date 2026 6 1) (Date 2026 6 30)) activations_mapping = Inr (sql, ps')
    \<and> part_marks sql = length ps"
proof -
  let ?q = "build_query warehouse_con demo_plan western (range_of (Date 2026 7 1) (Date 2026 7 31)) activations_mapping"
  let ?plan = "demo_plan\<lparr>pl_filters := [\<lparr>qf_dimension_id = ''REGION'', qf_operator = OP_IN, qf_values = [''x'']\<rparr>]\<rparr>"
  let ?america = "western\<lparr>ac_regions := {''NORTH_AMERICA''}\<rparr>"
  let ?q' = "build_query warehouse_con ?plan ?america (range_of (Date 2026 6 1) (Date 2026 6 30)) activations_mapping"
  have "is_ok ?q \<and> is_ok ?q'" by code_simp
  then obtain sql ps sql' ps' where q: "?q = Inr (sql, ps)" and q': "?q' = Inr (sql', ps')" by (auto simp: is_ok_iff)
  have d: "pl_dimensions demo_plan = pl_dimensions ?plan" by simp
  have f: "map qf_dimension_id (pl_filters demo_plan) = map qf_dimension_id (pl_filters ?plan)" by (simp add: demo_plan_def)
  have s: "scoped_values warehouse_con ?america = Inr {''NORTHEAST'', ''SOUTHEAST'', ''CENTRAL'', ''WEST''}" by code_simp
  have "sql = sql'" by (rule query_text_is_parameterised [OF q q' d f warehouse_scope s, THEN conjunct1]) simp_all
  moreover have "part_marks sql = length ps"
    by (rule query_text_is_parameterised [OF q q' d f warehouse_scope s, THEN conjunct2, THEN conjunct1]) simp_all
  ultimately show ?thesis using q q' by blast
qed

text \<open>An approved mapping may expand an authorised region to no physical value.  Its scope then resolves to the
  empty set, and the query of a caller restricted to that region carries no region condition.\<close>

definition emptied_mapping :: PhysicalConnectorMapping where
  "emptied_mapping = warehouse_mapping\<lparr>px_scope_value_mappings := [(''REGION'', [(''WEST'', {})])]\<rparr>"

definition emptied_con :: pg_connector where
  "emptied_con = warehouse_con\<lparr>pc_mapping := emptied_mapping\<rparr>"

definition unfiltered_plan :: StructuredQueryPlan where
  "unfiltered_plan = demo_plan\<lparr>pl_filters := []\<rparr>"

lemma emptied_scope_is_unrestricted:
  "make_connector_mapping emptied_mapping = Inr emptied_mapping
    \<and> pq_validate_plan emptied_con unfiltered_plan western = Inr []
    \<and> query_conditions emptied_con unfiltered_plan western rng activations_mapping
        = Inr (base_conditions emptied_mapping activations_mapping rng)"
proof (intro conjI)
  show "make_connector_mapping emptied_mapping = Inr emptied_mapping" by code_simp
  show "pq_validate_plan emptied_con unfiltered_plan western = Inr []" by code_simp
  have "scope_conditions emptied_con activations_mapping western = Inr []" by code_simp
  then show "query_conditions emptied_con unfiltered_plan western rng activations_mapping
      = Inr (base_conditions emptied_mapping activations_mapping rng)"
    by (simp add: query_conditions_def unfiltered_plan_def emptied_con_def)
qed

end
