(* ===== verification/ConnectorFactory.thy ===== *)
theory ConnectorFactory
  imports PostgresConnector
begin

section \<open>ConnectorFactory: the connectors a deployment builds\<close>

text \<open>
  \<open>connectors/factory.py\<close>, \<open>services/secrets.py\<close> and the two administrative reads of
  \<open>api/routes/physical_mappings.py\<close>.  The environment is a map of its variables.
\<close>

subsection \<open>Secrets\<close>



subsection \<open>Building the connectors\<close>












subsection \<open>Administrative reads\<close>

datatype mapping_response_error = NotAdministrator | NotFound404 | RouteRaised mapping_error

record PhysicalMappingPackResponse =
  pr_tenant_id :: string
  pr_version :: string
  pr_mapping_hash :: string
  pr_connectors :: "(string \<times> json) list list"
  pr_validation_failures :: "string list"

record PhysicalMappingConnectorResponse =
  pcr_tenant_id :: string
  pcr_version :: string
  pcr_mapping_hash :: string
  pcr_connector :: "(string \<times> json) list"

definition list_physical_mappings :: "(instant \<Rightarrow> string) \<Rightarrow> (string \<Rightarrow> string) \<Rightarrow> mapping_registry \<Rightarrow> pack_registry
    \<Rightarrow> AccessContext \<Rightarrow> mapping_response_error + PhysicalMappingPackResponse" where
  "list_physical_mappings date_text digest mappings domains access =
     (if ADMIN_ROLE \<notin> ac_roles access then Inl NotAdministrator
      else (case mapping_get mappings (ac_tenant_id access) of Inl _ \<Rightarrow> Inl NotFound404
        | Inr p \<Rightarrow> (case registry_get domains (ac_tenant_id access) of Inl _ \<Rightarrow> Inl NotFound404
          | Inr dp \<Rightarrow> (case validate_domain_pack mappings dp of Inl e \<Rightarrow> Inl (RouteRaised e)
            | Inr failures \<Rightarrow> Inr
                \<lparr>pr_tenant_id = pp_tenant_id p, pr_version = pp_version p,
                 pr_mapping_hash = pack_canonical_hash date_text digest p,
                 pr_connectors = map public_view (pp_connectors p), pr_validation_failures = failures\<rparr>))))"

definition get_physical_connector_mapping :: "(string \<Rightarrow> string) \<Rightarrow> mapping_registry \<Rightarrow> AccessContext \<Rightarrow> string
    \<Rightarrow> mapping_response_error + PhysicalMappingConnectorResponse" where
  "get_physical_connector_mapping digest mappings access cid =
     (if ADMIN_ROLE \<notin> ac_roles access then Inl NotAdministrator
      else (case mapping_get mappings (ac_tenant_id access) of Inl _ \<Rightarrow> Inl NotFound404
        | Inr p \<Rightarrow> (case pp_connector p cid of Inl _ \<Rightarrow> Inl NotFound404
          | Inr c \<Rightarrow> (case connector_hash digest p cid of Inl e \<Rightarrow> Inl (RouteRaised e)
            | Inr h \<Rightarrow> Inr \<lparr>pcr_tenant_id = pp_tenant_id p, pcr_version = pp_version p, pcr_mapping_hash = h,
                           pcr_connector = public_view c\<rparr>))))"

subsection \<open>What a deployment runs\<close>

text \<open>A built PostgreSQL connector is sound, is the mapped connector it is named after, and carries the hash of
  the very mapping it executes.\<close>












end
