(* ===== verification/Spec2Isabelle.thy ===== *)
theory Spec2Isabelle
  imports Admissibility Compiler Certification DefinitionStore Sessions AgentRuntime ChatRuns RunCoordinator Authority HttpRuntime CsvWorkspace ConnectorFactory
begin

text \<open>
  Talk2Data (\<open>src/src/talk2data\<close>, the paths below are relative to it) answers business questions over
  governed data.  A question is interpreted against the tenant's domain pack, admitted or refused, compiled
  into a plan, executed by a read-only connector, certified and only then phrased as an answer.  Definitions
  are edited under review, questions are kept as runs in a journal, and several workers may share one journal.

  The theories, from the ground up.

  \<^item> \<open>Prelude\<close>, \<open>Text\<close>, \<open>PyFloat\<close>, \<open>Calendar\<close>, \<open>Regex\<close>: what the program uses of Python: results with
    errors, dictionaries, ASCII strings, binary64 floats, the proleptic Gregorian calendar, regular
    expressions.  \<open>Sample\<close> has the inputs of the witnesses.
  \<^item> \<open>Models\<close>, \<open>Policy\<close>: the domain model and its validators (\<open>domain/models.py\<close>), the access policy
    (\<open>services/policy.py\<close>).
  \<^item> \<open>Interpreter\<close>, \<open>Admissibility\<close>: \<open>services/interpreter.py\<close> and one definition per stage of \<open>evaluate\<close>
    of \<open>services/admissibility.py\<close>.  The language model is an argument: whatever it proposes.
  \<^item> \<open>Semantic\<close>, \<open>Compiler\<close>: the pack registry (\<open>domain/domain_pack.py\<close>), metric resolution
    (\<open>services/semantic.py\<close>) and \<open>services/query_compiler.py\<close>.
  \<^item> \<open>Periods\<close>, \<open>Rows\<close>, \<open>DemoConnector\<close>: time windows, comparison rows and the demonstration connector
    (\<open>connectors/base.py\<close>, \<open>connectors/registry.py\<close>, \<open>connectors/demo_sqlite.py\<close>).
  \<^item> \<open>PhysicalMapping\<close>, \<open>Canonical\<close>, \<open>PostgresConnector\<close>, \<open>ConnectorFactory\<close>: approved mappings to tables
    (\<open>domain/physical_mapping.py\<close>), their canonical JSON and digest, the PostgreSQL connector
    (\<open>connectors/postgres.py\<close>) and what a deployment builds of them (\<open>connectors/factory.py\<close>,
    \<open>services/secrets.py\<close>, \<open>api/routes/physical_mappings.py\<close>).
  \<^item> \<open>Certification\<close>: \<open>services/certification.py\<close>, what makes a result verified and how an answer is phrased; what a
    sound receipt is, is stated apart from the code's checks.
  \<^item> \<open>Governance\<close>, \<open>DefinitionStore\<close>: review and publication (\<open>domain/governance.py\<close>,
    \<open>services/definition_governance.py\<close>) over the journal port, which is the locale \<open>definition_journal\<close>; the
    second theory interprets it on \<open>services/definition_store.py\<close>, and \<open>Authority\<close> on the PostgreSQL store.
  \<^item> \<open>Sessions\<close>: \<open>services/session_store.py\<close>; its port is the locale \<open>chat_session_store\<close>.
  \<^item> \<open>AgentRuntime\<close>, \<open>Chat\<close>, \<open>ChatRuns\<close>: budgets, steps and deadlines of a run
    (\<open>services/agent_runtime.py\<close>), the pipeline of \<open>services/demo_chat.py\<close> and the two together.
  \<^item> \<open>RunStore\<close>, \<open>RunJournal\<close>, \<open>RunHistory\<close>, \<open>RunCoordinator\<close>: the local journal of runs
    (\<open>domain/runs.py\<close>, \<open>services/run_store.py\<close>, \<open>operations/database.py\<close>), its invariant, its histories as a
    step relation, and the tasks of \<open>services/run_coordinator.py\<close>.
  \<^item> \<open>SharedRuns\<close>, \<open>SharedJournal\<close>, \<open>SharedLeases\<close>, \<open>SharedClaims\<close>, \<open>SharedHistory\<close>, \<open>Workers\<close>: the
    PostgreSQL journal (\<open>services/postgres_runs.py\<close>), the refinement to the local journal, leases, claims, the
    histories of several services and workers, and the workers themselves (\<open>services/distributed_runs.py\<close>)
    as a fleet whose steps interleave.
  \<^item> \<open>Authority\<close>: who may run what (\<open>services/identity.py\<close>, \<open>services/postgres_governance.py\<close>,
    \<open>internal/worker.py\<close>, \<open>internal/runs.py\<close>): tokens, published entitlements, and the check by which a worker
    releases an answer, put into the fleet of \<open>Workers\<close>.
  \<^item> \<open>HttpRuntime\<close>: admission of public requests, whole responses and the event stream of a run
    (\<open>api/runtime_security.py\<close>, \<open>api/run_routes.py\<close>).
  \<^item> \<open>CsvImport\<close>, \<open>CsvConnector\<close>, \<open>CsvWorkspace\<close>: the public demonstration: an uploaded file from its bytes
    (\<open>services/csv_import.py\<close>) to the receipt of an answer (\<open>connectors/csv_demo.py\<close>), and the anonymous
    workspaces that tie file, definitions, chat service and runs together (\<open>services/csv_workspace.py\<close>).

  Parameters.  Code that is not in the repository is an argument: digests (SHA-256; theorems that need it
  assume the digest injective on what is compared), clocks and fresh identifiers, the language model, the
  text pydantic writes and reads back (\<open>codec_faithful\<close>), SQLite and PostgreSQL as functions from a statement
  and its parameters to rows (\<open>pg_source\<close> for the latter, with its failures), secrets and the event loop's
  interruptions (which deadline strikes, which task is cancelled when).  A database transaction is one step;
  whether the database answers is an argument of the step.

  Bounds.  No fuel is used: every recursion is structural or has a measure (the months between two dates, the
  digits of a power, the rest of a text).  A run has at most 62 events: its acceptance, its start, progress up to
  the sixtieth, a request of cancellation and the end; \<open>event_budget\<close> states the bound per status and is part
  of \<open>journal_ok\<close>.
  Python's integers are \<open>int\<close>, no width matters.  Characters are ASCII where the code
  lower-cases or strips; elsewhere any text.

  What the code allows and a reader may not expect, each with a lemma: a caller whose regions the demonstration
  data does not know is not restricted by region (\<open>unknown_region_is_unrestricted\<close>); a mapping may expand a
  region to nothing, which restricts nothing (\<open>emptied_scope_is_unrestricted\<close>); a table of 1,024 counters forgets
  a limited client (\<open>full_table_forgets\<close>); the middleware releases a second response start
  (\<open>second_start_is_released\<close>); a workspace can stop serving (\<open>demo_workspace_wedges\<close>).

  Not modelled: \<open>connectors/bigquery.py\<close>, \<open>connectors/parquet_snapshot.py\<close> with their SQL and SDK wrappers, the
  language providers (HTTP clients of external models), the HTTP routes other than those named, process start,
  operations scripts (files, archives, processes), the public space and the web client.
\<close>

end
